(* ===== verification/Py_Prelude.thy ===== *)
theory Py_Prelude
  imports Complex_Main "HOL-Library.AList"
begin

text \<open>
  The parts of Python that the modelled modules of FlintTrade use, and the lemmas the
  component theories share.

  \<^item> Strings are \<^typ>\<open>string\<close> and range over ASCII text: \<open>str.strip\<close>, \<open>str.upper\<close>,
    \<open>str.lower\<close>, \<open>str.split()\<close>, \<open>str.join\<close>, \<open>str(int)\<close> and the grammars that
    \<open>int(text)\<close> and \<open>float(text)\<close> accept (underscore grouping included).
  \<^item> Cells of a JSON row are \<open>pyval\<close>. A float carries its exact value and the text that
    \<open>str\<close> prints for it, so every statement holds whatever that text is.
  \<^item> A \<open>dict\<close> is an association list in insertion order, changed by \<^const>\<open>AList.update\<close>
    and \<^const>\<open>AList.delete\<close>.
  \<^item> An operation that can raise returns \<open>'e + 'a\<close> with \<open>Inl\<close> the exception; one that
    also changes state returns the state beside it, since Python keeps what was written
    before the exception.
\<close>

named_theorems outcome_simps "unfolding of the sequencing combinators"
named_theorems dict_simps "lookups in updated dictionaries"

subsection \<open>Results and sequencing\<close>

type_synonym ('s, 'e, 'a) outcome = "'s \<times> ('e + 'a)"

definition bind_res :: "'e + 'a \<Rightarrow> ('a \<Rightarrow> 'e + 'b) \<Rightarrow> 'e + 'b" where
  "bind_res r f = (case r of Inl e \<Rightarrow> Inl e | Inr x \<Rightarrow> f x)"

definition bind_out :: "('s, 'e, 'a) outcome \<Rightarrow> ('s \<Rightarrow> 'a \<Rightarrow> ('s, 'e, 'b) outcome) \<Rightarrow> ('s, 'e, 'b) outcome" where
  "bind_out r f = (case r of (s, Inl e) \<Rightarrow> (s, Inl e) | (s, Inr x) \<Rightarrow> f s x)"

definition require :: "bool \<Rightarrow> 'e \<Rightarrow> 'e + unit" where
  "require b e = (if b then Inr () else Inl e)"

fun for_each :: "('a \<Rightarrow> 's \<Rightarrow> 'e + 's) \<Rightarrow> 'a list \<Rightarrow> 's \<Rightarrow> 'e + 's" where
  "for_each f [] s = Inr s"
| "for_each f (x # xs) s = bind_res (f x s) (for_each f xs)"

lemma bind_res_simps [simp, outcome_simps]:
  "bind_res (Inl e) f = Inl e"
  "bind_res (Inr x) f = f x"
  by (simp_all add: bind_res_def)

lemma bind_res_eq_Inr [simp, outcome_simps]:
  "bind_res r f = Inr y \<longleftrightarrow> (\<exists>x. r = Inr x \<and> f x = Inr y)"
  by (cases r) auto

lemma bind_res_assoc [outcome_simps]:
  "bind_res (bind_res r f) g = bind_res r (\<lambda>x. bind_res (f x) g)"
  by (cases r) auto

lemma bind_out_simps [simp, outcome_simps]:
  "bind_out (s, Inl e) f = (s, Inl e)"
  "bind_out (s, Inr x) f = f s x"
  by (simp_all add: bind_out_def)

lemma require_simps [simp, outcome_simps]:
  "require True e = Inr ()"
  "require False e = Inl e"
  "require b e = Inr u \<longleftrightarrow> b"
  by (simp_all add: require_def)

text \<open>An invariant of the loop body is an invariant of the loop.\<close>

lemma for_each_invariant:
  assumes "for_each f xs s = Inr s'" and "P s"
    and "\<And>x s s'. x \<in> set xs \<Longrightarrow> P s \<Longrightarrow> f x s = Inr s' \<Longrightarrow> P s'"
  shows "P s'"
  using assms
proof (induction xs arbitrary: s)
  case Nil
  then show ?case by simp
next
  case (Cons x xs)
  from Cons.prems(1) obtain s1 where "f x s = Inr s1" and rest: "for_each f xs s1 = Inr s'"
    by auto
  with Cons.prems(2) Cons.prems(3) [of x s s1] have "P s1" by simp
  with rest show ?case using Cons.prems(3) by (rule Cons.IH) simp_all
qed

text \<open>A loop that finishes accepted every element.\<close>

lemma for_each_all:
  "for_each f xs s = Inr s' \<Longrightarrow> x \<in> set xs \<Longrightarrow> \<exists>t t'. f x t = Inr t'"
  by (induction xs arbitrary: s) auto

lemma for_each_append [outcome_simps]:
  "for_each f (xs @ ys) s = bind_res (for_each f xs s) (for_each f ys)"
proof (induction xs arbitrary: s)
  case Nil
  show ?case by simp
next
  case (Cons x xs)
  then show ?case by (cases "f x s") auto
qed

subsection \<open>Digits and integers as text\<close>

abbreviation code_of :: "char \<Rightarrow> nat" where
  "code_of c \<equiv> of_char c"

definition is_digit :: "char \<Rightarrow> bool" where
  "is_digit c \<longleftrightarrow> 48 \<le> code_of c \<and> code_of c \<le> 57"

definition digit_char :: "nat \<Rightarrow> char" where
  "digit_char d = char_of (48 + d)"

definition digit_val :: "char \<Rightarrow> nat" where
  "digit_val c = code_of c - 48"

fun show_nat :: "nat \<Rightarrow> string" where
  "show_nat n = (if n < 10 then [digit_char n] else show_nat (n div 10) @ [digit_char (n mod 10)])"

declare show_nat.simps [simp del]

definition show_int :: "int \<Rightarrow> string" where
  "show_int i = (if i < 0 then ''-'' @ show_nat (nat (- i)) else show_nat (nat i))"

definition int_of_digits :: "string \<Rightarrow> int" where
  "int_of_digits cs = foldl (\<lambda>a c. 10 * a + int (digit_val c)) 0 cs"

text \<open>
  A digit group with PEP 515 underscores: a digit, then digits each optionally preceded by
  one underscore. The result is the digits without the underscores and the unread text.
\<close>

fun digit_scan :: "string \<Rightarrow> string \<Rightarrow> string \<times> string" where
  "digit_scan acc [] = (rev acc, [])"
| "digit_scan acc [c] = (if is_digit c then (rev (c # acc), []) else (rev acc, [c]))"
| "digit_scan acc (c # d # ds) =
     (if is_digit c then digit_scan (c # acc) (d # ds)
      else if c = CHR ''_'' \<and> acc \<noteq> [] \<and> is_digit d then digit_scan acc (d # ds)
      else (rev acc, c # d # ds))"

definition digitpart :: "string \<Rightarrow> string \<times> string" where
  "digitpart s = digit_scan [] s"

fun split_sign :: "string \<Rightarrow> bool \<times> string" where
  "split_sign [] = (False, [])"
| "split_sign (c # cs) =
     (if c = CHR ''-'' then (True, cs) else if c = CHR ''+'' then (False, cs) else (False, c # cs))"

definition is_space :: "char \<Rightarrow> bool" where
  "is_space c \<longleftrightarrow> code_of c \<in> {9, 10, 11, 12, 13, 28, 29, 30, 31, 32}"

definition py_strip :: "string \<Rightarrow> string" where
  "py_strip s = rev (dropWhile is_space (rev (dropWhile is_space s)))"

definition parse_int :: "string \<Rightarrow> int option" where
  "parse_int s =
     (let (neg, body) = split_sign (py_strip s);
          (ds, rest) = digitpart body
      in if ds = [] \<or> rest \<noteq> [] then None
         else Some (if neg then - int_of_digits ds else int_of_digits ds))"

lemma is_digit_digit_char [simp]: "d < 10 \<Longrightarrow> is_digit (digit_char d)"
  by (simp add: is_digit_def digit_char_def)

lemma digit_val_digit_char [simp]: "d < 10 \<Longrightarrow> digit_val (digit_char d) = d"
  by (simp add: digit_val_def digit_char_def)

lemma show_nat_nonempty [simp]: "show_nat n \<noteq> []"
  by (subst show_nat.simps) simp

lemma show_nat_digits: "\<forall>c \<in> set (show_nat n). is_digit c"
proof (induction n rule: show_nat.induct)
  case (1 n)
  then show ?case by (subst show_nat.simps) auto
qed

lemma int_of_digits_snoc [simp]: "int_of_digits (cs @ [c]) = 10 * int_of_digits cs + int (digit_val c)"
  by (simp add: int_of_digits_def)

lemma int_of_digits_show_nat [simp]: "int_of_digits (show_nat n) = int n"
proof (induction n rule: show_nat.induct)
  case (1 n)
  show ?case
  proof (cases "n < 10")
    case True
    then show ?thesis by (subst show_nat.simps) (simp add: int_of_digits_def)
  next
    case False
    with 1 have "int_of_digits (show_nat (n div 10)) = int (n div 10)" by simp
    moreover have "10 * int (n div 10) + int (n mod 10) = int n"
      by (metis div_mult_mod_eq mult.commute of_nat_add of_nat_mult of_nat_numeral)
    ultimately show ?thesis using False by (subst show_nat.simps) simp
  qed
qed

text \<open>The same digits computed on \<open>int\<close>, whose numerals are binary.\<close>

function show_digits :: "int \<Rightarrow> string" where
  "show_digits n =
     (if n < 10 then [digit_char (nat n)] else show_digits (n div 10) @ [digit_char (nat (n mod 10))])"
  by pat_completeness auto
termination
  by (relation "measure nat") auto

declare show_digits.simps [simp del]

lemma show_nat_code [code]: "show_nat n = show_digits (int n)"
proof (induction n rule: show_nat.induct)
  case (1 n)
  have "int n div 10 = int (n div 10)" "nat (int n mod 10) = n mod 10"
    by (simp_all add: zdiv_int nat_mod_distrib)
  with 1 show ?case
    by (subst show_nat.simps, subst show_digits.simps) simp
qed

lemma digitpart_all_digits: "\<forall>c \<in> set cs. is_digit c \<Longrightarrow> digitpart cs = (cs, [])"
proof -
  have "digit_scan acc cs = (rev acc @ cs, [])" if "\<forall>c \<in> set cs. is_digit c" for acc
    using that by (induction acc cs rule: digit_scan.induct) auto
  moreover assume "\<forall>c \<in> set cs. is_digit c"
  ultimately show ?thesis by (simp add: digitpart_def)
qed

lemma digits_not_space: "is_digit c \<Longrightarrow> \<not> is_space c"
  by (auto simp: is_digit_def is_space_def)

lemma dropWhile_none: "(\<And>c. c \<in> set s \<Longrightarrow> \<not> P c) \<Longrightarrow> dropWhile P s = s"
  by (cases s) auto

lemma py_strip_no_space: "(\<And>c. c \<in> set s \<Longrightarrow> \<not> is_space c) \<Longrightarrow> py_strip s = s"
proof -
  assume "\<And>c. c \<in> set s \<Longrightarrow> \<not> is_space c"
  then have "dropWhile is_space s = s" and "dropWhile is_space (rev s) = rev s"
    by (auto intro: dropWhile_none)
  then show ?thesis by (simp add: py_strip_def)
qed

lemma dropWhile_rev_keeps_head:
  "s \<noteq> [] \<Longrightarrow> \<not> P (hd s) \<Longrightarrow> dropWhile P (rev (dropWhile P (rev s))) = rev (dropWhile P (rev s))"
proof -
  assume "s \<noteq> []" and hd: "\<not> P (hd s)"
  then obtain x xs where s: "s = x # xs" by (cases s) auto
  have "rev (dropWhile P (rev s)) = x # rev (dropWhile P (rev xs)) \<or> rev (dropWhile P (rev s)) = [x]"
    using hd by (auto simp: s dropWhile_append dropWhile_eq_Nil_conv)
  then show ?thesis using hd by (auto simp: s)
qed

lemma py_strip_idem [simp]: "py_strip (py_strip s) = py_strip s"
proof (cases "dropWhile is_space s = []")
  case True
  then have "py_strip s = []" by (simp only: py_strip_def rev.simps dropWhile.simps)
  moreover have "py_strip [] = []" by (simp add: py_strip_def)
  ultimately show ?thesis by simp
next
  case False
  let ?t = "dropWhile is_space s"
  have "\<not> is_space (hd ?t)" using False by (rule hd_dropWhile)
  with False have front: "dropWhile is_space (py_strip s) = py_strip s"
    unfolding py_strip_def by (rule dropWhile_rev_keeps_head)
  have "dropWhile is_space (rev (py_strip s)) = rev (py_strip s)"
    by (simp add: py_strip_def)
  with front show ?thesis by (simp add: py_strip_def [of "py_strip s"])
qed

lemma show_int_nonempty [simp]: "show_int i \<noteq> []"
  by (simp add: show_int_def)

lemma show_int_chars: "c \<in> set (show_int i) \<Longrightarrow> \<not> is_space c"
proof -
  assume "c \<in> set (show_int i)"
  then have "c = CHR ''-'' \<or> (\<exists>n. c \<in> set (show_nat n))"
    by (auto simp: show_int_def split: if_splits)
  then have "c = CHR ''-'' \<or> is_digit c" using show_nat_digits by blast
  then show ?thesis using digits_not_space by (auto simp: is_space_def)
qed

lemma split_sign_digit: "cs \<noteq> [] \<Longrightarrow> is_digit (hd cs) \<Longrightarrow> split_sign cs = (False, cs)"
  by (cases cs) (auto simp: is_digit_def)

theorem parse_int_show_int [simp]: "parse_int (show_int i) = Some i"
proof -
  have strip: "py_strip (show_int i) = show_int i"
    by (rule py_strip_no_space) (rule show_int_chars)
  have hd: "is_digit (hd (show_nat n))" for n
    using show_nat_digits [of n] show_nat_nonempty [of n] by (metis hd_in_set)
  have "split_sign (show_int i) = (i < 0, show_nat (nat \<bar>i\<bar>))"
    using hd by (auto simp: show_int_def split_sign_digit)
  then show ?thesis
    by (simp add: parse_int_def strip digitpart_all_digits [OF show_nat_digits])
qed

subsection \<open>Case and blanks\<close>

definition upper_char :: "char \<Rightarrow> char" where
  "upper_char c = (if 97 \<le> code_of c \<and> code_of c \<le> 122 then char_of (code_of c - 32) else c)"

definition lower_char :: "char \<Rightarrow> char" where
  "lower_char c = (if 65 \<le> code_of c \<and> code_of c \<le> 90 then char_of (code_of c + 32) else c)"

definition py_upper :: "string \<Rightarrow> string" where
  "py_upper = map upper_char"

definition py_lower :: "string \<Rightarrow> string" where
  "py_lower = map lower_char"

lemma upper_char_idem [simp]: "upper_char (upper_char c) = upper_char c"
  by (auto simp: upper_char_def)

lemma py_upper_idem [simp]: "py_upper (py_upper s) = py_upper s"
  by (simp add: py_upper_def)

lemma lower_char_idem [simp]: "lower_char (lower_char c) = lower_char c"
  by (auto simp: lower_char_def)

lemma py_lower_idem [simp]: "py_lower (py_lower s) = py_lower s"
  by (simp add: py_lower_def)

lemma py_upper_Nil_iff [simp]: "py_upper s = [] \<longleftrightarrow> s = []"
  by (simp add: py_upper_def)

lemma is_space_upper_char [simp]: "is_space (upper_char c) = is_space c"
  by (auto simp: is_space_def upper_char_def)

lemma is_space_lower_char [simp]: "is_space (lower_char c) = is_space c"
  by (auto simp: is_space_def lower_char_def)

lemma py_strip_upper: "py_strip (py_upper s) = py_upper (py_strip s)"
  by (simp add: py_strip_def py_upper_def dropWhile_map comp_def rev_map)

lemma py_strip_lower: "py_strip (py_lower s) = py_lower (py_strip s)"
  by (simp add: py_strip_def py_lower_def dropWhile_map comp_def rev_map)

text \<open>\<open>"".join(s.split())\<close> and \<open>" ".join(s.split())\<close>.\<close>

function py_split :: "string \<Rightarrow> string list" where
  "py_split s =
     (let t = dropWhile is_space s
      in if t = [] then []
         else takeWhile (\<lambda>c. \<not> is_space c) t # py_split (dropWhile (\<lambda>c. \<not> is_space c) t))"
  by pat_completeness auto
termination
proof (relation "measure length", goal_cases)
  case 1
  show ?case by simp
next
  case (2 s t)
  have ne: "t \<noteq> []" and head: "\<not> is_space (hd t)"
    using 2 hd_dropWhile [of is_space s] by auto
  have "length (dropWhile (\<lambda>c. \<not> is_space c) t) \<le> length (tl t)"
    using ne head by (cases t) (auto simp: length_dropWhile_le)
  also have "\<dots> < length t" using ne by (cases t) auto
  also have "\<dots> \<le> length s" using 2 by (simp add: length_dropWhile_le)
  finally show ?case by simp
qed

declare py_split.simps [simp del]

fun py_join :: "string \<Rightarrow> string list \<Rightarrow> string" where
  "py_join sep [] = []"
| "py_join sep [x] = x"
| "py_join sep (x # y # ys) = x @ sep @ py_join sep (y # ys)"

lemma concat_py_split: "concat (py_split s) = filter (\<lambda>c. \<not> is_space c) s"
proof (induction s rule: py_split.induct)
  case (1 s)
  define t where "t = dropWhile is_space s"
  have s: "filter (\<lambda>c. \<not> is_space c) s = filter (\<lambda>c. \<not> is_space c) t"
  proof -
    have "filter (\<lambda>c. \<not> is_space c) s =
        filter (\<lambda>c. \<not> is_space c) (takeWhile is_space s @ dropWhile is_space s)"
      by (simp only: takeWhile_dropWhile_id)
    also have "\<dots> = filter (\<lambda>c. \<not> is_space c) t"
      by (auto simp: t_def filter_empty_conv dest: set_takeWhileD simp del: takeWhile_dropWhile_id)
    finally show ?thesis .
  qed
  show ?case
  proof (cases "t = []")
    case True
    then show ?thesis by (subst py_split.simps) (simp add: s Let_def flip: t_def)
  next
    case False
    let ?w = "takeWhile (\<lambda>c. \<not> is_space c) t" and ?r = "dropWhile (\<lambda>c. \<not> is_space c) t"
    have "concat (py_split s) = ?w @ concat (py_split ?r)"
      using False by (subst py_split.simps) (simp add: Let_def flip: t_def)
    also have "concat (py_split ?r) = filter (\<lambda>c. \<not> is_space c) ?r"
      using 1 False by (simp add: t_def)
    also have "?w @ filter (\<lambda>c. \<not> is_space c) ?r = filter (\<lambda>c. \<not> is_space c) (?w @ ?r)"
    proof -
      have "filter (\<lambda>c. \<not> is_space c) ?w = ?w"
        by (rule filter_True) (auto dest: set_takeWhileD)
      then show ?thesis by (simp only: filter_append)
    qed
    finally show ?thesis by (simp add: s)
  qed
qed

subsection \<open>Dictionaries\<close>

lemma map_of_update_same [simp, dict_simps]: "map_of (AList.update k v d) k = Some v"
  by (simp add: update_conv')

lemma map_of_update_other [simp, dict_simps]: "k' \<noteq> k \<Longrightarrow> map_of (AList.update k v d) k' = map_of d k'"
  by (simp add: update_conv')

lemma map_of_delete_same [simp, dict_simps]: "map_of (AList.delete k d) k = None"
  by (simp add: delete_conv')

lemma map_of_delete_other [simp, dict_simps]: "k' \<noteq> k \<Longrightarrow> map_of (AList.delete k d) k' = map_of d k'"
  by (simp add: delete_conv')

lemma update_Nil_iff [simp]: "AList.update k v d \<noteq> []"
  by (cases d) (auto split: if_splits)

lemma update_new_key: "k \<notin> fst ` set d \<Longrightarrow> AList.update k v d = d @ [(k, v)]"
  by (induction d) auto

lemma list_all_update: "list_all P d \<Longrightarrow> P (k, v) \<Longrightarrow> list_all P (AList.update k v d)"
  by (induction d) auto

lemma keys_update [simp]: "fst ` set (AList.update k v d) = insert k (fst ` set d)"
  by (induction d) auto

lemma values_update: "snd ` set (AList.update k v d) \<subseteq> insert v (snd ` set d)"
  by (induction d) auto

lemma keys_fold_update: "fst ` set (fold (\<lambda>(k, v). AList.update k v) kvs d) = fst ` set d \<union> fst ` set kvs"
proof (induction kvs arbitrary: d)
  case (Cons kv kvs)
  then show ?case by (cases kv) (simp add: Cons.IH)
qed simp

lemma values_fold_update:
  "snd ` set (fold (\<lambda>(k, v). AList.update k v) kvs d) \<subseteq> snd ` set d \<union> snd ` set kvs"
proof (induction kvs arbitrary: d)
  case (Cons kv kvs)
  obtain k v where kv: "kv = (k, v)" by (cases kv)
  have "snd ` set (fold (\<lambda>(k, v). AList.update k v) kvs (AList.update k v d))
      \<subseteq> snd ` set (AList.update k v d) \<union> snd ` set kvs"
    by (rule Cons.IH)
  also have "\<dots> \<subseteq> snd ` set d \<union> snd ` set (kv # kvs)"
    using values_update [of k v d] kv by auto
  finally show ?case by (simp add: kv)
qed simp

text \<open>Copying a dictionary entry by entry into an empty one gives it back.\<close>

lemma fold_update_distinct:
  "distinct (map fst (acc @ d)) \<Longrightarrow> fold (\<lambda>(k, v). AList.update k v) d acc = acc @ d"
proof (induction d arbitrary: acc)
  case Nil
  then show ?case by simp
next
  case (Cons kv d)
  obtain k v where kv: "kv = (k, v)" by (cases kv)
  with Cons.prems have "k \<notin> fst ` set acc" by auto
  then have "AList.update k v acc = acc @ [(k, v)]" by (rule update_new_key)
  with Cons.IH [of "acc @ [(k, v)]"] Cons.prems kv show ?case by simp
qed

lemma fst_bind_out:
  "fst (bind_out r f) = (case snd r of Inl e \<Rightarrow> fst r | Inr x \<Rightarrow> fst (f (fst r) x))"
  by (cases r) (auto simp: bind_out_def split: sum.splits)

subsection \<open>Contracts shared by the components\<close>

text \<open>
  A keyed store: what is read back after a write. Clients that write many entries (a CSV
  import, the seeding of defaults, a recovery loop) rely on these laws only.
\<close>

locale keyed_store =
  fixes good :: "'s \<Rightarrow> bool"
    and put :: "'k \<Rightarrow> 'v \<Rightarrow> 's \<Rightarrow> 's"
    and get :: "'s \<Rightarrow> 'k \<Rightarrow> 'v option"
  assumes good_put: "good s \<Longrightarrow> good (put k v s)"
    and get_put: "good s \<Longrightarrow> get (put k v s) k' = (if k' = k then Some v else get s k')"
begin

lemma good_put_all: "good s \<Longrightarrow> good (fold (\<lambda>(k, v). put k v) kvs s)"
  by (induction kvs arbitrary: s) (auto simp: good_put)

lemma get_put_all:
  "good s \<Longrightarrow> get (fold (\<lambda>(k, v). put k v) kvs s) k = (get s ++ map_of (rev kvs)) k"
proof (induction kvs arbitrary: s)
  case Nil
  then show ?case by simp
next
  case (Cons kv kvs)
  then show ?case
    by (cases kv) (auto simp: good_put get_put map_add_def split: option.splits)
qed

end

text \<open>
  A machine that keeps an invariant on every operation keeps it on every run, and one that
  can be closed and reopened without changing what it shows can be so after every run.
\<close>

locale machine =
  fixes exec :: "'s \<Rightarrow> 'op \<Rightarrow> 's"
    and inv :: "'s \<Rightarrow> bool"
  assumes inv_exec: "inv s \<Longrightarrow> inv (exec s op)"
begin

lemma inv_run: "inv s \<Longrightarrow> inv (foldl exec s ops)"
  by (induction ops arbitrary: s) (auto simp: inv_exec)

lemma run_preserves:
  assumes "\<And>s op. inv s \<Longrightarrow> P s \<Longrightarrow> P (exec s op)" and "inv s" and "P s"
  shows "P (foldl exec s ops)"
  using assms(2,3) by (induction ops arbitrary: s) (auto simp: inv_exec assms(1))

end

locale durable_machine = machine +
  fixes reopen :: "'s \<Rightarrow> 's"
    and view :: "'s \<Rightarrow> 'v"
  assumes inv_reopen: "inv s \<Longrightarrow> inv (reopen s)"
    and view_reopen: "inv s \<Longrightarrow> view (reopen s) = view s"
begin

lemma view_reopen_run: "inv s \<Longrightarrow> view (reopen (foldl exec s ops)) = view (foldl exec s ops)"
  by (rule view_reopen) (rule inv_run)

lemma inv_restart_run: "inv s \<Longrightarrow> inv (foldl exec (reopen (foldl exec s ops)) ops')"
  by (intro inv_run inv_reopen)

end

end
