(* ===== verification/Py_Numbers.thy ===== *)
theory Py_Numbers
  imports Py_Prelude
begin

text \<open>
  Python's numeric values as the modelled modules meet them: the cells of a JSON row, the
  float that \<open>float(text)\<close> returns (the exact decimal rounded to 53 bits, half to even,
  with the subnormal and overflow cases written out) and the exact number that
  \<open>Decimal(text)\<close> reads.
\<close>

subsection \<open>Cells\<close>

datatype fnum = Fin rat | PosInf | NegInf | NotANum

datatype pyval = PNone | PBool bool | PInt int | PFloat fnum string | PStr string

type_synonym row = "(string \<times> pyval) list"

fun py_str :: "pyval \<Rightarrow> string" where
  "py_str PNone = ''None''"
| "py_str (PBool b) = (if b then ''True'' else ''False'')"
| "py_str (PInt i) = show_int i"
| "py_str (PFloat f s) = s"
| "py_str (PStr s) = s"

fun truthy :: "pyval \<Rightarrow> bool" where
  "truthy PNone = False"
| "truthy (PBool b) = b"
| "truthy (PInt i) = (i \<noteq> 0)"
| "truthy (PFloat f s) = (f \<noteq> Fin 0)"
| "truthy (PStr s) = (s \<noteq> [])"

fun is_integer :: "fnum \<Rightarrow> bool" where
  "is_integer (Fin r) = (snd (quotient_of r) = 1)"
| "is_integer _ = False"

fun int_of_float :: "fnum \<Rightarrow> int" where
  "int_of_float (Fin r) = fst (quotient_of r)"
| "int_of_float _ = 0"

lemma is_integer_value: "is_integer f \<Longrightarrow> f = Fin (of_int (int_of_float f))"
proof (cases f)
  case (Fin r)
  assume "is_integer f"
  then obtain n where "quotient_of r = (n, 1)"
    using Fin by (cases "quotient_of r") auto
  then have "r = of_int n" using quotient_of_div [of r n 1] by simp
  with Fin \<open>quotient_of r = (n, 1)\<close> show ?thesis by simp
qed auto

lemma quotient_of_of_int [simp]: "quotient_of (of_int n) = (n, 1)"
  by (simp add: quotient_of_int flip: Rat.of_int_def)

subsection \<open>Digit counts\<close>

text \<open>The number of digits of \<open>n\<close> in base \<open>b\<close>; 0 has none.\<close>

function ndigits :: "int \<Rightarrow> int \<Rightarrow> nat" where
  "ndigits b n = (if n \<le> 0 \<or> b < 2 then 0 else Suc (ndigits b (n div b)))"
  by pat_completeness auto
termination
proof (relation "measure (\<lambda>(b, n). nat n)", goal_cases)
  case (2 b n)
  then have "n div b < n" by (intro int_div_less_self) auto
  with 2 show ?case by simp
qed simp

declare ndigits.simps [simp del]

lemma ndigits_0 [simp]: "ndigits b 0 = 0"
  by (simp add: ndigits.simps)

lemma ndigits_step: "0 < n \<Longrightarrow> 2 \<le> b \<Longrightarrow> ndigits b n = Suc (ndigits b (n div b))"
  by (subst ndigits.simps) simp

lemma less_power_ndigits: "2 \<le> b \<Longrightarrow> 0 \<le> n \<Longrightarrow> n < b ^ ndigits b n"
proof (induction b n rule: ndigits.induct)
  case (1 b n)
  show ?case
  proof (cases "n = 0")
    case False
    with "1.prems" "1.IH" have "n div b < b ^ ndigits b (n div b)"
      by (simp add: pos_imp_zdiv_nonneg_iff)
    moreover have "b * (n div b) + n mod b = n" "n mod b < b" using "1.prems" by simp_all
    ultimately have "n < b * (n div b + 1)" "n div b + 1 \<le> b ^ ndigits b (n div b)"
      unfolding distrib_left by linarith+
    then have "n < b * b ^ ndigits b (n div b)"
      using "1.prems"(1) by (smt (verit) mult_left_mono)
    with False "1.prems" show ?thesis by (subst ndigits.simps) simp
  qed simp
qed

lemma power_ndigits_le: "2 \<le> b \<Longrightarrow> 0 < n \<Longrightarrow> b ^ (ndigits b n - 1) \<le> n"
proof (induction b n rule: ndigits.induct)
  case (1 b n)
  show ?case
  proof (cases "n div b = 0")
    case True
    with "1.prems" show ?thesis by (simp add: ndigits_step)
  next
    case False
    let ?k = "ndigits b (n div b)"
    have pos: "0 < n div b"
      using False "1.prems" by (simp add: order.strict_iff_order pos_imp_zdiv_nonneg_iff)
    with 1 have "b ^ (?k - 1) \<le> n div b" by simp
    then have "b * b ^ (?k - 1) \<le> b * (n div b)" using "1.prems" by simp
    also have "\<dots> \<le> n"
    proof -
      have "b * (n div b) + n mod b = n" "0 \<le> n mod b" using "1.prems" by simp_all
      then show ?thesis by linarith
    qed
    finally have "b * b ^ (?k - 1) \<le> n" .
    moreover have "b * b ^ (?k - 1) = b ^ ?k"
      using pos "1.prems" by (simp add: ndigits_step [of "n div b"])
    ultimately show ?thesis using "1.prems" by (simp add: ndigits_step [of n])
  qed
qed

lemma ndigits_le:
  assumes "2 \<le> b" and "n < b ^ k"
  shows "ndigits b n \<le> k"
proof (cases "0 < n")
  case True
  show ?thesis
  proof (rule ccontr)
    assume "\<not> ndigits b n \<le> k"
    then have "b ^ k \<le> b ^ (ndigits b n - 1)"
      using assms(1) by (intro power_increasing) simp_all
    with power_ndigits_le [OF assms(1) True] assms(2) show False by simp
  qed
qed (subst ndigits.simps, simp)

subsection \<open>Rounding to a double\<close>

definition round_half_even :: "int \<Rightarrow> int \<Rightarrow> int" where
  "round_half_even p q =
     (let d = p div q; r = p mod q
      in if 2 * r < q then d else if q < 2 * r then d + 1 else if even d then d else d + 1)"

text \<open>\<open>p / q\<close> divided by \<open>2 ^ e\<close>, as a fraction.\<close>

definition scale2 :: "int \<Rightarrow> int \<Rightarrow> int \<Rightarrow> int \<times> int" where
  "scale2 p q e = (if 0 \<le> e then (p, q * 2 ^ nat e) else (p * 2 ^ nat (- e), q))"

text \<open>The significand and exponent of the double nearest to \<open>p / q\<close> with \<open>0 < p, q\<close>.\<close>

definition round64_pos :: "int \<Rightarrow> int \<Rightarrow> int \<times> int" where
  "round64_pos p q =
     (let e0 = int (ndigits 2 p) - int (ndigits 2 q);
          E = (case scale2 p q e0 of (s, t) \<Rightarrow> if t \<le> s then e0 else e0 - 1);
          e = max (E - 52) (- 1074);
          m = (case scale2 p q e of (s, t) \<Rightarrow> round_half_even s t)
      in (m, e))"

definition scaled_value :: "int \<Rightarrow> int \<Rightarrow> rat" where
  "scaled_value m e = (if 0 \<le> e then of_int (m * 2 ^ nat e) else Fract m (2 ^ nat (- e)))"

text \<open>\<open>m * 2 ^ e\<close> is at least \<open>2 ^ 1024\<close>, the first value beyond the doubles.\<close>

definition overflows :: "int \<Rightarrow> int \<Rightarrow> bool" where
  "overflows m e \<longleftrightarrow> 1024 < int (ndigits 2 m) + e"

fun float_of_parts :: "bool \<Rightarrow> int \<times> int \<Rightarrow> fnum" where
  "float_of_parts neg (m, e) =
     (if overflows m e then (if neg then NegInf else PosInf)
      else Fin (scaled_value (if neg then - m else m) e))"

fun float_of_frac :: "int \<times> int \<Rightarrow> fnum" where
  "float_of_frac (a, b) = float_of_parts (a < 0) (round64_pos \<bar>a\<bar> b)"

definition round64 :: "rat \<Rightarrow> fnum" where
  "round64 x = (if x = 0 then Fin 0 else float_of_frac (quotient_of x))"

lemma round_half_even_1 [simp]: "round_half_even p 1 = p"
  by (simp add: round_half_even_def)

lemma ndigits_2_1 [simp]: "ndigits 2 1 = 1"
  by (simp add: ndigits.simps)

lemma scaled_value_shift: "scaled_value (p * 2 ^ n) (- int n) = of_int p"
  by (auto simp: scaled_value_def Fract_of_int_quotient)

lemma round64_pos_int:
  assumes "0 < p" and "p < 2 ^ 53"
  obtains n where "round64_pos p 1 = (p * 2 ^ n, - int n)" and "\<not> overflows (p * 2 ^ n) (- int n)"
proof -
  let ?k = "ndigits 2 p"
  have k: "?k \<noteq> 0" using assms(1) by (simp add: ndigits_step)
  have lo: "2 ^ (?k - 1) \<le> p" using power_ndigits_le [of 2 p] assms(1) by simp
  have hi: "?k \<le> 53" using ndigits_le [of 2 p 53] assms(2) by simp
  have E: "(case scale2 p 1 (int ?k - 1) of (s, t) \<Rightarrow> if t \<le> s then int ?k - 1 else int ?k - 1 - 1)
      = int ?k - 1"
    using k lo by (simp add: scale2_def nat_diff_distrib)
  have e: "max (int ?k - 1 - 52) (- 1074) = - int (53 - ?k)" using hi by simp
  have s: "scale2 p 1 (- int (53 - ?k)) = (p * 2 ^ (53 - ?k), 1)"
    by (auto simp: scale2_def)
  have "round64_pos p 1 = (p * 2 ^ (53 - ?k), - int (53 - ?k))"
    unfolding round64_pos_def Let_def ndigits_2_1 of_nat_1 E e s by simp
  moreover have "p * 2 ^ (53 - ?k) < 2 ^ 53"
  proof -
    have "p * 2 ^ (53 - ?k) < 2 ^ ?k * 2 ^ (53 - ?k)"
      using less_power_ndigits [of 2 p] assms(1) by simp
    also have "\<dots> = 2 ^ 53" using hi by (simp add: power_add [symmetric])
    finally show ?thesis .
  qed
  then have "ndigits 2 (p * 2 ^ (53 - ?k)) \<le> 53" by (intro ndigits_le) simp_all
  then have "\<not> overflows (p * 2 ^ (53 - ?k)) (- int (53 - ?k))" by (simp add: overflows_def)
  ultimately show thesis using that by blast
qed

text \<open>Every integer below \<open>2 ^ 53\<close> in magnitude is a double.\<close>

lemma round64_of_int: "\<bar>n\<bar> < 2 ^ 53 \<Longrightarrow> round64 (of_int n) = Fin (of_int n)"
proof (cases "n = 0")
  case False
  assume bound: "\<bar>n\<bar> < 2 ^ 53"
  then obtain k where k: "round64_pos \<bar>n\<bar> 1 = (\<bar>n\<bar> * 2 ^ k, - int k)" "\<not> overflows (\<bar>n\<bar> * 2 ^ k) (- int k)"
    using False by (auto intro: round64_pos_int [of "\<bar>n\<bar>"])
  have sign: "(if n < 0 then - (\<bar>n\<bar> * 2 ^ k) else \<bar>n\<bar> * 2 ^ k) = n * 2 ^ k" by simp
  have "round64 (of_int n) = float_of_parts (n < 0) (round64_pos \<bar>n\<bar> 1)"
    using False by (simp add: round64_def)
  also have "\<dots> = Fin (scaled_value (n * 2 ^ k) (- int k))"
    using k by (simp only: float_of_parts.simps sign if_False)
  finally show ?thesis by (simp add: scaled_value_shift)
qed (simp add: round64_def)

subsection \<open>Numeric text\<close>

definition scaled10 :: "int \<Rightarrow> int \<Rightarrow> rat" where
  "scaled10 m e = (if 0 \<le> e then of_int (m * 10 ^ nat e) else Fract m (10 ^ nat (- e)))"

fun frac_part :: "string \<Rightarrow> string \<times> string" where
  "frac_part [] = ([], [])"
| "frac_part (c # cs) = (if c = CHR ''.'' then digitpart cs else ([], c # cs))"

fun exp_part :: "string \<Rightarrow> int option" where
  "exp_part [] = Some 0"
| "exp_part (c # cs) =
     (if c = CHR ''e'' \<or> c = CHR ''E'' then
        (let (neg, body) = split_sign cs; (ds, rest) = digitpart body
         in if ds = [] \<or> rest \<noteq> [] then None
            else Some (if neg then - int_of_digits ds else int_of_digits ds))
      else None)"

text \<open>The finite decimal literals that both \<open>float\<close> and \<open>Decimal\<close> accept.\<close>

definition parse_number :: "string \<Rightarrow> rat option" where
  "parse_number t =
     (let (neg, body) = split_sign t;
          (ip, r1) = digitpart body;
          (fp, r2) = frac_part r1
      in if ip = [] \<and> fp = [] then None
         else case exp_part r2 of
           None \<Rightarrow> None
         | Some e \<Rightarrow>
             let v = scaled10 (int_of_digits (ip @ fp)) (e - int (length fp))
             in Some (if neg then - v else v))"

definition py_float :: "string \<Rightarrow> fnum option" where
  "py_float s =
     (let t = py_strip s; (neg, b) = split_sign t
      in if py_lower b \<in> {''inf'', ''infinity''} then Some (if neg then NegInf else PosInf)
         else if py_lower b = ''nan'' then Some NotANum
         else map_option round64 (parse_number t))"

lemma parse_number_show_int: "parse_number (show_int i) = Some (of_int i)"
proof -
  have hd: "is_digit (hd (show_nat n))" for n
    using show_nat_digits [of n] show_nat_nonempty [of n] by (metis hd_in_set)
  have "split_sign (show_int i) = (i < 0, show_nat (nat \<bar>i\<bar>))"
    using hd by (auto simp: show_int_def split_sign_digit)
  then show ?thesis
    by (auto simp: parse_number_def digitpart_all_digits [OF show_nat_digits] scaled10_def Let_def)
qed

lemma lower_digit: "is_digit c \<Longrightarrow> lower_char c = c"
  by (auto simp: is_digit_def lower_char_def)

lemma show_nat_not_special:
  "py_lower (show_nat n) \<notin> {''inf'', ''infinity'', ''nan''}"
proof -
  have "is_digit (hd (show_nat n))"
    using show_nat_digits [of n] show_nat_nonempty [of n] by (metis hd_in_set)
  then have "is_digit (hd (py_lower (show_nat n)))"
    by (simp add: py_lower_def hd_map lower_digit)
  then show ?thesis by (auto simp: is_digit_def)
qed

lemma py_float_show_int: "\<bar>i\<bar> < 2 ^ 53 \<Longrightarrow> py_float (show_int i) = Some (Fin (of_int i))"
proof -
  assume bound: "\<bar>i\<bar> < 2 ^ 53"
  have strip: "py_strip (show_int i) = show_int i"
    by (rule py_strip_no_space) (rule show_int_chars)
  have hd: "is_digit (hd (show_nat n))" for n
    using show_nat_digits [of n] show_nat_nonempty [of n] by (metis hd_in_set)
  have "split_sign (show_int i) = (i < 0, show_nat (nat \<bar>i\<bar>))"
    using hd by (auto simp: show_int_def split_sign_digit)
  with bound show ?thesis
    using show_nat_not_special [of "nat \<bar>i\<bar>"]
    by (simp add: py_float_def strip Let_def parse_number_show_int round64_of_int)
qed

end
