(* ===== verification/Qty_Freeze.thy ===== *)
theory Qty_Freeze
  imports Py_Numbers
begin

text \<open>
  \<open>flinttrade_engine/qty_freeze.py\<close>: the exchange freeze limit on the quantity of one
  order. The first part is the admission rule (which limit applies to a symbol, the largest
  lot multiple under it, the proposed slices, the refusal sentence, the Indian digit
  grouping those sentences print). The second part is \<open>QuantityFreezeManager\<close>: limits in
  memory, written through to the table \<open>freeze_limits\<close>, the ring of blocked orders, the CSV
  import. SQL tables are association lists over their primary key; the columns \<open>max_qty\<close>,
  \<open>quantity\<close> and \<open>limit_val\<close> are INTEGER, so a value outside 32 bits raises.
\<close>

subsection \<open>Which limit applies\<close>

definition NSE_INDEX_FREEZE :: "(string \<times> int) list" where
  "NSE_INDEX_FREEZE =
     [(''NIFTY'', 1800), (''BANKNIFTY'', 900), (''FINNIFTY'', 1800),
      (''MIDCPNIFTY'', 2800), (''NIFTYNXT50'', 600), (''NIFTYFPI'', 8500)]"

definition NSE_DEFAULTS :: "((string \<times> string) \<times> int) list" where
  "NSE_DEFAULTS =
     map (\<lambda>(symbol, limit). ((symbol, ''NFO''), limit)) NSE_INDEX_FREEZE
     @ [((''SENSEX'', ''BFO''), 500), ((''BANKEX'', ''BFO''), 900)]"

definition INDEX_FREEZE_NAMES :: "string list" where
  "INDEX_FREEZE_NAMES = sort_key (\<lambda>name. - int (length name)) (map fst NSE_INDEX_FREEZE)"

definition startswith :: "string \<Rightarrow> string \<Rightarrow> bool" where
  "startswith s p \<longleftrightarrow> take (length p) s = p"

definition index_underlying :: "string \<Rightarrow> string option" where
  "index_underlying symbol =
     (let compact = concat (py_split (py_upper symbol))
      in if compact = [] then None
         else find (\<lambda>name. compact = name \<or> startswith compact name) INDEX_FREEZE_NAMES)"

fun positive_int :: "pyval \<Rightarrow> int option" where
  "positive_int (PInt v) = (if 0 < v then Some v else None)"
| "positive_int _ = None"

definition order_symbol_label :: "string \<Rightarrow> string" where
  "order_symbol_label symbol =
     (let text = py_join '' '' (py_split symbol) in if text = [] then ''this contract'' else text)"

definition resolve_freeze_quantity :: "string \<Rightarrow> pyval \<Rightarrow> int option" where
  "resolve_freeze_quantity symbol broker_freeze_qty =
     (case positive_int broker_freeze_qty of
        Some supplied \<Rightarrow> Some supplied
      | None \<Rightarrow>
          (case index_underlying symbol of
             None \<Rightarrow> None
           | Some underlying \<Rightarrow> map_of NSE_INDEX_FREEZE underlying))"

definition max_placeable_quantity :: "string \<Rightarrow> pyval \<Rightarrow> pyval \<Rightarrow> int option" where
  "max_placeable_quantity symbol lot_size broker_freeze_qty =
     (case (resolve_freeze_quantity symbol broker_freeze_qty, positive_int lot_size) of
        (Some limit, Some lot) \<Rightarrow> Some ((limit div lot) * lot)
      | _ \<Rightarrow> None)"

subsection \<open>Slicing\<close>

text \<open>The \<open>while remaining > 0\<close> loop; its caller has checked \<open>cap \<ge> lot \<ge> 1\<close>.\<close>

function slice_loop :: "int \<Rightarrow> int \<Rightarrow> int list" where
  "slice_loop cap remaining =
     (if 0 < remaining \<and> 0 < cap
      then (let piece = min remaining cap in piece # slice_loop cap (remaining - piece))
      else [])"
  by pat_completeness auto
termination
  by (relation "measure (\<lambda>(cap, remaining). nat remaining)") auto

declare slice_loop.simps [simp del]

definition slice_order_quantities :: "string \<Rightarrow> pyval \<Rightarrow> pyval \<Rightarrow> pyval \<Rightarrow> int list" where
  "slice_order_quantities symbol quantity lot_size broker_freeze_qty =
     (case (max_placeable_quantity symbol lot_size broker_freeze_qty, positive_int lot_size) of
        (Some cap, Some lot) \<Rightarrow>
          (if cap < lot then []
           else case positive_int quantity of
             None \<Rightarrow> []
           | Some q \<Rightarrow> if q mod lot \<noteq> 0 then [] else slice_loop cap q)
      | _ \<Rightarrow> [])"

subsection \<open>Sentences\<close>

text \<open>\<open>while head: groups.append(head[-2:]); head = head[:-2]\<close>.\<close>

function indian_groups :: "string \<Rightarrow> string list" where
  "indian_groups head =
     (if head = [] then []
      else drop (length head - 2) head # indian_groups (take (length head - 2) head))"
  by pat_completeness auto
termination
  by (relation "measure length") auto

declare indian_groups.simps [simp del]

definition format_indian_quantity :: "int \<Rightarrow> string" where
  "format_indian_quantity value =
     (let text = show_nat (nat \<bar>value\<bar>)
      in if length text \<le> 3 then text
         else py_join '','' (rev (drop (length text - 3) text
                # indian_groups (take (length text - 3) text))))"

text \<open>
  \<open>flinttrade_core/number_formatter.py\<close> has its own grouping of a non-negative integer, which
  builds the text from the right in one string.
\<close>

function indian_loop :: "string \<Rightarrow> string \<Rightarrow> string" where
  "indian_loop s result =
     (if 2 < length s
      then indian_loop (take (length s - 2) s) (drop (length s - 2) s @ '','' @ result)
      else s @ '','' @ result)"
  by pat_completeness auto
termination
  by (relation "measure (\<lambda>(s, result). length s)") auto

declare indian_loop.simps [simp del]

definition indian_int_part :: "nat \<Rightarrow> string" where
  "indian_int_part n =
     (let s = show_nat n
      in if length s \<le> 3 then s
         else indian_loop (take (length s - 3) s) (drop (length s - 3) s))"

definition over_max_refusal :: "string \<Rightarrow> int \<Rightarrow> string" where
  "over_max_refusal symbol placeable =
     ''Max '' @ format_indian_quantity placeable @ '' per order for ''
     @ order_symbol_label symbol @ ''. Place smaller orders.''"

definition lot_multiple_refusal :: "int \<Rightarrow> string" where
  "lot_multiple_refusal lot_size =
     ''Quantity must be a multiple of the lot size ('' @ show_int lot_size @ '').''"

definition quantity_cap_label :: "int \<Rightarrow> int \<Rightarrow> string" where
  "quantity_cap_label lot_size placeable =
     ''Lot '' @ show_int lot_size @ '' '' @ [CHR 0xB7] @ '' Max ''
     @ format_indian_quantity placeable @ '' per order''"

definition quantity_admission_refusal :: "string \<Rightarrow> pyval \<Rightarrow> pyval \<Rightarrow> pyval \<Rightarrow> string option" where
  "quantity_admission_refusal symbol quantity lot_size broker_freeze_qty =
     (case positive_int quantity of
        None \<Rightarrow> None
      | Some q \<Rightarrow>
          (case positive_int lot_size of
             Some lot \<Rightarrow>
               (case max_placeable_quantity symbol (PInt lot) broker_freeze_qty of
                  Some cap \<Rightarrow>
                    if cap < q then Some (over_max_refusal symbol cap)
                    else if q mod lot \<noteq> 0 then Some (lot_multiple_refusal lot) else None
                | None \<Rightarrow> if q mod lot \<noteq> 0 then Some (lot_multiple_refusal lot) else None)
           | None \<Rightarrow>
               (case resolve_freeze_quantity symbol broker_freeze_qty of
                  None \<Rightarrow> None
                | Some limit \<Rightarrow> if q \<le> limit then None else Some (over_max_refusal symbol limit))))"

subsection \<open>Lemmas on limits and slices\<close>

lemma positive_int_Some_iff: "positive_int v = Some n \<longleftrightarrow> v = PInt n \<and> 0 < n"
  by (cases v) auto

lemma positive_int_PInt [simp]: "0 < n \<Longrightarrow> positive_int (PInt n) = Some n"
  by simp

lemma resolve_positive: "resolve_freeze_quantity symbol b = Some limit \<Longrightarrow> 0 < limit"
  by (auto simp: resolve_freeze_quantity_def NSE_INDEX_FREEZE_def positive_int_Some_iff
      split: option.splits if_splits)

lemma max_placeable_Some:
  "max_placeable_quantity symbol lot_size b = Some cap \<longleftrightarrow>
     (\<exists>limit lot. resolve_freeze_quantity symbol b = Some limit \<and> positive_int lot_size = Some lot
        \<and> cap = (limit div lot) * lot)"
  by (auto simp: max_placeable_quantity_def split: option.splits)

lemma floor_multiple_bounds:
  fixes limit lot :: int
  assumes "0 < limit" and "0 < lot"
  shows "(limit div lot) * lot \<le> limit" "limit - lot < (limit div lot) * lot" "lot dvd (limit div lot) * lot"
    "0 \<le> (limit div lot) * lot"
proof -
  have "limit = (limit div lot) * lot + limit mod lot" by simp
  moreover have "0 \<le> limit mod lot" "limit mod lot < lot" using assms by simp_all
  ultimately show "(limit div lot) * lot \<le> limit" "limit - lot < (limit div lot) * lot"
    by linarith+
  show "lot dvd (limit div lot) * lot" by simp
  show "0 \<le> (limit div lot) * lot" using assms by (simp add: pos_imp_zdiv_nonneg_iff)
qed

lemma slice_loop_step:
  "0 < remaining \<Longrightarrow> 0 < cap \<Longrightarrow>
   slice_loop cap remaining = min remaining cap # slice_loop cap (remaining - min remaining cap)"
  by (subst slice_loop.simps) (simp add: Let_def)

lemma slice_loop_done: "\<not> 0 < remaining \<Longrightarrow> slice_loop cap remaining = []"
  by (subst slice_loop.simps) simp

lemma slice_loop_sum: "0 < cap \<Longrightarrow> 0 \<le> q \<Longrightarrow> sum_list (slice_loop cap q) = q"
proof (induction cap q rule: slice_loop.induct)
  case (1 cap q)
  show ?case
  proof (cases "0 < q")
    case True
    have "sum_list (slice_loop cap (q - min q cap)) = q - min q cap"
      using "1.IH" "1.prems" True by simp
    with True "1.prems" show ?thesis by (subst slice_loop_step) simp_all
  qed (use "1.prems" in \<open>simp add: slice_loop_done\<close>)
qed

lemma slice_loop_pieces:
  "0 < cap \<Longrightarrow> lot dvd cap \<Longrightarrow> lot dvd q \<Longrightarrow> p \<in> set (slice_loop cap q) \<Longrightarrow> 0 < p \<and> p \<le> cap \<and> lot dvd p"
proof (induction cap q rule: slice_loop.induct)
  case (1 cap q)
  show ?case
  proof (cases "0 < q")
    case True
    have piece: "lot dvd min q cap" using "1.prems" by (simp add: min_def)
    then have "lot dvd q - min q cap" using "1.prems"(3) by (rule dvd_diff [rotated])
    with "1.IH" "1.prems" True piece show ?thesis
      by (auto simp: slice_loop_step)
  qed (use "1.prems" in \<open>simp add: slice_loop_done\<close>)
qed

lemma slice_loop_full_slices:
  "0 < cap \<Longrightarrow> i < length (slice_loop cap q) - 1 \<Longrightarrow> slice_loop cap q ! i = cap"
proof (induction cap q arbitrary: i rule: slice_loop.induct)
  case (1 cap q)
  show ?case
  proof (cases "0 < q")
    case True
    let ?p = "min q cap"
    have unfold: "slice_loop cap q = ?p # slice_loop cap (q - ?p)"
      using True "1.prems" by (simp add: slice_loop_step)
    show ?thesis
    proof (cases i)
      case 0
      have "q - ?p \<noteq> 0"
        using "1.prems"(2) 0 unfold by (auto simp: slice_loop_done)
      then have "?p = cap" by auto
      with 0 unfold show ?thesis by simp
    next
      case (Suc j)
      with unfold "1.prems" True "1.IH" [of ?p j] show ?thesis by simp
    qed
  qed (use "1.prems" in \<open>simp add: slice_loop_done\<close>)
qed

lemma slice_order_quantities_unfold:
  assumes "slice_order_quantities symbol quantity lot_size b = xs" and "xs \<noteq> []"
  obtains cap lot q where "max_placeable_quantity symbol lot_size b = Some cap"
    and "positive_int lot_size = Some lot" and "positive_int quantity = Some q"
    and "lot \<le> cap" and "lot dvd q" and "xs = slice_loop cap q" and "lot dvd cap" and "0 < lot"
proof -
  obtain cap lot where cap: "max_placeable_quantity symbol lot_size b = Some cap"
    and lot: "positive_int lot_size = Some lot"
    using assms by (auto simp: slice_order_quantities_def split: option.splits)
  then obtain q where "positive_int quantity = Some q" "lot \<le> cap" "q mod lot = 0"
      "xs = slice_loop cap q"
    using assms by (auto simp: slice_order_quantities_def split: option.splits if_splits)
  moreover have "lot dvd cap" using cap lot by (auto simp: max_placeable_Some)
  moreover have "0 < lot" using lot by (simp add: positive_int_Some_iff)
  ultimately show thesis using cap lot that by (simp add: mod_eq_0_iff_dvd)
qed

subsection \<open>Lemmas on the digit grouping\<close>

lemma indian_groups_Nil [simp]: "indian_groups [] = []"
  by (simp add: indian_groups.simps)

lemma indian_groups_step:
  "head \<noteq> [] \<Longrightarrow> indian_groups head = drop (length head - 2) head # indian_groups (take (length head - 2) head)"
  by (subst indian_groups.simps) simp

lemma join_rev_groups:
  "head \<noteq> [] \<Longrightarrow> py_join '','' (rev (indian_groups head) @ t # ts) = indian_loop head (py_join '','' (t # ts))"
proof (induction head arbitrary: t ts rule: indian_groups.induct)
  case (1 head)
  show ?case
  proof (cases "2 < length head")
    case True
    let ?g = "drop (length head - 2) head" and ?h = "take (length head - 2) head"
    have "?h \<noteq> []" using True by auto
    then have "py_join '','' (rev (indian_groups ?h) @ ?g # t # ts) = indian_loop ?h (py_join '','' (?g # t # ts))"
      using 1 by blast
    with True "1.prems" show ?thesis
      by (simp add: indian_groups_step indian_loop.simps [of head])
  next
    case False
    with "1.prems" show ?thesis
      by (simp add: indian_groups_step indian_loop.simps [of head])
  qed
qed

lemma indian_loop_no_commas:
  "filter (\<lambda>c. c \<noteq> CHR '','') (indian_loop s r) = filter (\<lambda>c. c \<noteq> CHR '','') (s @ r)"
proof (induction s r rule: indian_loop.induct)
  case (1 s r)
  show ?case
  proof (cases "2 < length s")
    case True
    have "filter (\<lambda>c. c \<noteq> CHR '','') s = filter (\<lambda>c. c \<noteq> CHR '','') (take (length s - 2) s @ drop (length s - 2) s)"
      by simp
    with True 1 show ?thesis by (subst indian_loop.simps) (simp del: append_take_drop_id)
  qed (subst indian_loop.simps, simp)
qed

text \<open>The first hit in a list ordered by falling length is the longest hit.\<close>

lemma find_longest:
  assumes "sorted_wrt (\<lambda>a b. length b \<le> length a) xs"
    and "\<And>a b. P a \<Longrightarrow> P b \<Longrightarrow> length a = length b \<Longrightarrow> a = b"
  shows "find P xs = Some n \<longleftrightarrow> n \<in> set xs \<and> P n \<and> (\<forall>m \<in> set xs. P m \<longrightarrow> length m \<le> length n)"
  using assms(1)
proof (induction xs)
  case (Cons x xs)
  show ?case
  proof (cases "P x")
    case True
    have "x = n" if "n \<in> set xs" "P n" "length x \<le> length n"
      using that Cons.prems assms(2) [OF True] by force
    with True Cons.prems show ?thesis by auto
  next
    case False
    with Cons show ?thesis by auto
  qed
qed simp

lemma startswith_unique: "startswith c a \<Longrightarrow> startswith c b \<Longrightarrow> length a = length b \<Longrightarrow> a = b"
  by (simp add: startswith_def)

subsection \<open>Properties of the admission rule\<close>

text \<open>
  C37. Slicing is correct: when \<open>slice_order_quantities\<close> proposes slices, they add up to
  exactly the requested quantity, each slice is a positive whole number of lots within the
  placeable cap, and every slice before the last is a full cap.
\<close>

theorem slice_order_quantities_correct:
  assumes "slice_order_quantities symbol quantity lot_size b = xs" and "xs \<noteq> []"
  shows "\<exists>q lot cap. quantity = PInt q \<and> lot_size = PInt lot
      \<and> max_placeable_quantity symbol lot_size b = Some cap
      \<and> sum_list xs = q
      \<and> (\<forall>p \<in> set xs. 0 < p \<and> p \<le> cap \<and> lot dvd p)
      \<and> (\<forall>i < length xs - 1. xs ! i = cap)"
proof -
  from assms obtain cap lot q where facts:
    "max_placeable_quantity symbol lot_size b = Some cap" "positive_int lot_size = Some lot"
    "positive_int quantity = Some q" "lot \<le> cap" "lot dvd q" "xs = slice_loop cap q"
    "lot dvd cap" "0 < lot"
    by (rule slice_order_quantities_unfold)
  then have "0 < cap" and "0 < q" by (simp_all add: positive_int_Some_iff)
  with facts show ?thesis
    using slice_loop_pieces [of cap lot q] slice_loop_full_slices [of cap _ q] slice_loop_sum [of cap q]
    by (auto simp: positive_int_Some_iff)
qed

theorem slice_order_quantities_correct_witness:
  "slice_order_quantities ''NIFTY25APRFUT'' (PInt 3510) (PInt 65) PNone = [1755, 1755]
   \<and> max_placeable_quantity ''NIFTY25APRFUT'' (PInt 65) PNone = Some 1755
   \<and> sum_list [1755, 1755] = (3510::int) \<and> (65::int) dvd 1755"
proof -
  have slices: "slice_order_quantities ''NIFTY25APRFUT'' (PInt 3510) (PInt 65) PNone = [1755, 1755]"
    by code_simp
  show ?thesis
    using slices slice_order_quantities_correct [OF slices] by simp
qed

text \<open>
  Every proposed slice passes admission, and slices are proposed exactly when the
  quantity is a positive lot multiple and one lot fits under the freeze: the split never
  proposes an order that the same module would refuse.
\<close>

theorem slices_admissible:
  assumes "p \<in> set (slice_order_quantities symbol quantity lot_size b)"
  shows "quantity_admission_refusal symbol (PInt p) lot_size b = None"
proof -
  define xs where "xs = slice_order_quantities symbol quantity lot_size b"
  then have eq: "slice_order_quantities symbol quantity lot_size b = xs" and "xs \<noteq> []"
    using assms by auto
  then obtain cap lot q where facts:
    "max_placeable_quantity symbol lot_size b = Some cap" "positive_int lot_size = Some lot"
    "positive_int quantity = Some q" "lot \<le> cap" "lot dvd q" "xs = slice_loop cap q"
    "lot dvd cap" "0 < lot"
    by (rule slice_order_quantities_unfold)
  have "0 < p \<and> p \<le> cap \<and> lot dvd p"
    using slice_loop_pieces [of cap lot q p] facts assms eq by simp
  with facts show ?thesis
    by (auto simp: quantity_admission_refusal_def positive_int_Some_iff)
qed

theorem slices_admissible_witness:
  "quantity_admission_refusal ''BANKNIFTY'' (PInt 870) (PInt 30) PNone = None"
proof -
  have "(870::int) \<in> set (slice_order_quantities ''BANKNIFTY'' (PInt 1770) (PInt 30) PNone)"
    by code_simp
  then show ?thesis by (rule slices_admissible)
qed

text \<open>
  The placeable cap is the largest lot multiple within the freeze limit that applies.
\<close>

theorem max_placeable_is_greatest:
  assumes "max_placeable_quantity symbol (PInt lot) b = Some cap"
  shows "\<exists>limit. resolve_freeze_quantity symbol b = Some limit \<and> 0 \<le> cap \<and> cap \<le> limit \<and> lot dvd cap
      \<and> (\<forall>n. lot dvd n \<and> n \<le> limit \<longrightarrow> n \<le> cap)"
proof -
  from assms obtain limit where limit: "resolve_freeze_quantity symbol b = Some limit"
    and lot: "0 < lot" and cap: "cap = (limit div lot) * lot"
    by (auto simp: max_placeable_Some split: if_splits)
  note bounds = floor_multiple_bounds [OF resolve_positive [OF limit] lot, folded cap]
  have "n \<le> cap" if "lot dvd n" and "n \<le> limit" for n
  proof -
    from that(1) obtain k where k: "n = lot * k" ..
    with that(2) lot have "k \<le> limit div lot"
      by (simp add: zdiv_mono1 [of "lot * k" limit lot, simplified])
    with k lot cap show ?thesis by (simp add: mult.commute)
  qed
  with limit bounds show ?thesis by blast
qed

theorem max_placeable_is_greatest_witness:
  "resolve_freeze_quantity ''NIFTY'' PNone = Some 1800 \<and> (1755::int) \<le> 1800
     \<and> (65::int) dvd 1755 \<and> 65 * 26 \<le> (1755::int)"
proof -
  have cap: "max_placeable_quantity ''NIFTY'' (PInt 65) PNone = Some 1755" by code_simp
  have limit: "resolve_freeze_quantity ''NIFTY'' PNone = Some 1800" by code_simp
  show ?thesis using max_placeable_is_greatest [OF cap] limit by (auto dest: spec [of _ "65 * 26"])
qed

text \<open>
  Exactly when an order quantity is admitted: it is a whole number of lots within the
  placeable cap when the lot size is known, within the raw freeze when it is not; and a
  quantity that breaks both rules is told about the cap.
\<close>

theorem quantity_admission_iff:
  "quantity_admission_refusal symbol (PInt q) lot_size b = None \<longleftrightarrow>
     q < 1 \<or>
     (case positive_int lot_size of
        Some lot \<Rightarrow> lot dvd q \<and> (\<forall>cap. max_placeable_quantity symbol lot_size b = Some cap \<longrightarrow> q \<le> cap)
      | None \<Rightarrow> (\<forall>limit. resolve_freeze_quantity symbol b = Some limit \<longrightarrow> q \<le> limit))"
proof (cases "positive_int lot_size")
  case None
  then show ?thesis by (auto simp: quantity_admission_refusal_def split: option.splits)
next
  case (Some lot)
  then have "lot_size = PInt lot" by (simp add: positive_int_Some_iff)
  with Some show ?thesis
    by (auto simp: quantity_admission_refusal_def mod_eq_0_iff_dvd split: option.splits)
qed

theorem quantity_admission_iff_witness:
  "quantity_admission_refusal ''NIFTY'' (PInt 1755) (PInt 65) PNone = None
   \<and> quantity_admission_refusal ''NIFTY'' (PInt 1800) (PInt 65) PNone \<noteq> None"
proof -
  have "positive_int (PInt 65) = Some 65" "max_placeable_quantity ''NIFTY'' (PInt 65) PNone = Some 1755"
    by code_simp+
  then show ?thesis
    using quantity_admission_iff [of "''NIFTY''" 1755 "PInt 65" PNone]
      quantity_admission_iff [of "''NIFTY''" 1800 "PInt 65" PNone] by simp
qed

text \<open>
  The index name found in a contract symbol is the longest listed name that starts the
  symbol once blanks are removed and letters are upper-cased, so \<open>NIFTYNXT50\<close> is never read as
  \<open>NIFTY\<close>.
\<close>

theorem index_underlying_longest:
  "index_underlying symbol = Some name \<longleftrightarrow>
     name \<in> fst ` set NSE_INDEX_FREEZE
     \<and> startswith (filter (\<lambda>c. \<not> is_space c) (py_upper symbol)) name
     \<and> (\<forall>other \<in> fst ` set NSE_INDEX_FREEZE.
          startswith (filter (\<lambda>c. \<not> is_space c) (py_upper symbol)) other \<longrightarrow> length other \<le> length name)"
proof -
  let ?c = "filter (\<lambda>c. \<not> is_space c) (py_upper symbol)"
  have names: "INDEX_FREEZE_NAMES =
      [''MIDCPNIFTY'', ''NIFTYNXT50'', ''BANKNIFTY'', ''FINNIFTY'', ''NIFTYFPI'', ''NIFTY'']"
    by code_simp
  have listed: "fst ` set NSE_INDEX_FREEZE = set INDEX_FREEZE_NAMES"
    by (simp add: INDEX_FREEZE_NAMES_def)
  have self: "startswith ?c n" if "?c = n" for n using that by (simp add: startswith_def)
  have "index_underlying symbol = find (\<lambda>n. startswith ?c n) INDEX_FREEZE_NAMES"
  proof -
    have "(\<lambda>n. ?c = n \<or> startswith ?c n) = (\<lambda>n. startswith ?c n)" using self by auto
    moreover have "?c = [] \<Longrightarrow> find (\<lambda>n. startswith ?c n) INDEX_FREEZE_NAMES = None"
      by (simp add: names startswith_def)
    ultimately show ?thesis by (simp add: index_underlying_def concat_py_split Let_def)
  qed
  moreover have "sorted_wrt (\<lambda>a b. length b \<le> length a) INDEX_FREEZE_NAMES"
    unfolding names by simp
  then have "find (startswith ?c) INDEX_FREEZE_NAMES = Some name \<longleftrightarrow>
      name \<in> set INDEX_FREEZE_NAMES \<and> startswith ?c name
      \<and> (\<forall>m \<in> set INDEX_FREEZE_NAMES. startswith ?c m \<longrightarrow> length m \<le> length name)"
    by (rule find_longest) (rule startswith_unique)
  ultimately show ?thesis by (simp add: listed)
qed

theorem index_underlying_longest_witness:
  "index_underlying ''nifty nxt50 25JUN'' = Some ''NIFTYNXT50''"
proof -
  have "''NIFTYNXT50'' \<in> fst ` set NSE_INDEX_FREEZE"
    "startswith (filter (\<lambda>c. \<not> is_space c) (py_upper ''nifty nxt50 25JUN'')) ''NIFTYNXT50''"
    "\<forall>other \<in> fst ` set NSE_INDEX_FREEZE.
       startswith (filter (\<lambda>c. \<not> is_space c) (py_upper ''nifty nxt50 25JUN'')) other
       \<longrightarrow> length other \<le> length ''NIFTYNXT50''"
    by code_simp+
  then show ?thesis by (subst index_underlying_longest) blast
qed

text \<open>
  The two implementations of the Indian digit grouping agree, and the grouping only adds
  commas: without them the text is the decimal digits of the quantity.
\<close>

theorem format_indian_quantity_correct:
  "format_indian_quantity value = indian_int_part (nat \<bar>value\<bar>)
   \<and> parse_int (filter (\<lambda>c. c \<noteq> CHR '','') (format_indian_quantity value)) = Some \<bar>value\<bar>"
proof -
  let ?t = "show_nat (nat \<bar>value\<bar>)"
  have eq: "format_indian_quantity value = indian_int_part (nat \<bar>value\<bar>)"
  proof (cases "length ?t \<le> 3")
    case False
    then have "take (length ?t - 3) ?t \<noteq> []" by auto
    from join_rev_groups [OF this, of "drop (length ?t - 3) ?t" "[]"] False show ?thesis
      by (simp add: format_indian_quantity_def indian_int_part_def Let_def)
  qed (simp add: format_indian_quantity_def indian_int_part_def)
  have digits: "filter (\<lambda>c. c \<noteq> CHR '','') ?t = ?t"
    using show_nat_digits [of "nat \<bar>value\<bar>"] by (auto simp: filter_id_conv is_digit_def)
  have "filter (\<lambda>c. c \<noteq> CHR '','') (indian_int_part (nat \<bar>value\<bar>)) = ?t"
    by (auto simp: indian_int_part_def Let_def indian_loop_no_commas digits simp flip: filter_append)
  then have "filter (\<lambda>c. c \<noteq> CHR '','') (indian_int_part (nat \<bar>value\<bar>)) = show_int \<bar>value\<bar>"
    by (simp add: show_int_def)
  with eq show ?thesis by simp
qed

end
