(* ===== verification/Freeze_Manager.thy ===== *)
theory Freeze_Manager
  imports Qty_Freeze "HOL-Library.Char_ord" "HOL-Library.List_Lexorder" "HOL-Library.Product_Lexorder"
begin

text \<open>
  \<open>QuantityFreezeManager\<close> of \<open>flinttrade_engine/qty_freeze.py\<close>: the limits in memory
  (\<open>_limits\<close>), the ring of recent refusals (\<open>_blocked\<close>) and the two DuckDB tables behind
  them, as one record. Every public operation is a definition; \<open>freeze_op\<close> collects them
  so that runs can be stated, and reopening the manager on its tables is \<open>freeze_reopen\<close>.
\<close>

subsection \<open>State\<close>

record blocked_order =
  bo_symbol :: string
  bo_exchange :: string
  bo_quantity :: int
  bo_limit :: int

type_synonym limit_table = "((string \<times> string) \<times> int) list"

record freeze_manager =
  fm_limits :: limit_table
  fm_blocked :: "blocked_order list"
  db_limits :: limit_table
  db_blocked :: "blocked_order list"

datatype freeze_error =
    ValueError string
  | ConversionError
  | FileNotFoundError
  | AttributeError

definition MAX_BLOCKS_MEMORY :: nat where
  "MAX_BLOCKS_MEMORY = 1000"

text \<open>A DuckDB INTEGER column holds 32 bits.\<close>

definition fits_integer :: "int \<Rightarrow> bool" where
  "fits_integer n \<longleftrightarrow> - (2 ^ 31) \<le> n \<and> n < 2 ^ 31"

subsection \<open>Internal writes\<close>

definition put_limit :: "string \<times> string \<Rightarrow> int \<Rightarrow> freeze_manager \<Rightarrow> freeze_manager" where
  "put_limit key max_qty m =
     m\<lparr>db_limits := AList.update key max_qty (db_limits m),
       fm_limits := AList.update key max_qty (fm_limits m)\<rparr>"

definition write_limit ::
  "string \<Rightarrow> string \<Rightarrow> int \<Rightarrow> freeze_manager \<Rightarrow> (freeze_manager, freeze_error, unit) outcome" where
  "write_limit symbol exchange max_qty m =
     (if fits_integer max_qty then (put_limit (symbol, exchange) max_qty m, Inr ())
      else (m, Inl ConversionError))"

definition record_block ::
  "string \<Rightarrow> string \<Rightarrow> int \<Rightarrow> int \<Rightarrow> freeze_manager \<Rightarrow> (freeze_manager, freeze_error, unit) outcome" where
  "record_block symbol exchange quantity limit m =
     (let blocked = \<lparr>bo_symbol = symbol, bo_exchange = exchange, bo_quantity = quantity, bo_limit = limit\<rparr>;
          appended = fm_blocked m @ [blocked];
          kept = (if MAX_BLOCKS_MEMORY < length appended
                  then drop (length appended - MAX_BLOCKS_MEMORY) appended else appended);
          m1 = m\<lparr>fm_blocked := kept\<rparr>
      in if fits_integer quantity \<and> fits_integer limit
         then (m1\<lparr>db_blocked := db_blocked m @ [blocked]\<rparr>, Inr ())
         else (m1, Inl ConversionError))"

subsection \<open>Opening\<close>

definition load_from_db :: "freeze_manager \<Rightarrow> freeze_manager" where
  "load_from_db m =
     m\<lparr>fm_limits := fold (\<lambda>((symbol, exchange), max_qty).
          AList.update (py_upper symbol, py_upper exchange) max_qty) (db_limits m) (fm_limits m)\<rparr>"

definition seed_defaults :: "freeze_manager \<Rightarrow> freeze_manager" where
  "seed_defaults m =
     (if fm_limits m \<noteq> [] then m
      else fold (\<lambda>((symbol, exchange), max_qty) s. fst (write_limit symbol exchange max_qty s)) NSE_DEFAULTS m)"

definition freeze_open :: "limit_table \<Rightarrow> blocked_order list \<Rightarrow> freeze_manager" where
  "freeze_open limits blocks =
     seed_defaults (load_from_db \<lparr>fm_limits = [], fm_blocked = [], db_limits = limits, db_blocked = blocks\<rparr>)"

definition freeze_reopen :: "freeze_manager \<Rightarrow> freeze_manager" where
  "freeze_reopen m = freeze_open (db_limits m) (db_blocked m)"

subsection \<open>Public operations\<close>

definition set_limit ::
  "string \<Rightarrow> string \<Rightarrow> int \<Rightarrow> freeze_manager \<Rightarrow> (freeze_manager, freeze_error, unit) outcome" where
  "set_limit symbol exchange max_qty m =
     (if max_qty \<le> 0
      then (m, Inl (ValueError (''max_qty_per_order must be positive, got '' @ show_int max_qty)))
      else write_limit (py_upper symbol) (py_upper exchange) max_qty m)"

definition get_limit :: "string \<Rightarrow> string \<Rightarrow> freeze_manager \<Rightarrow> int option" where
  "get_limit symbol exchange m = map_of (fm_limits m) (py_upper symbol, py_upper exchange)"

definition validate ::
  "string \<Rightarrow> string \<Rightarrow> int \<Rightarrow> freeze_manager \<Rightarrow> (freeze_manager, freeze_error, bool \<times> string option) outcome" where
  "validate symbol exchange quantity m =
     (let sym = py_upper symbol; exch = py_upper exchange
      in case map_of (fm_limits m) (sym, exch) of
           None \<Rightarrow> (m, Inr (True, None))
         | Some limit \<Rightarrow>
             if quantity \<le> limit then (m, Inr (True, None))
             else bind_out (record_block sym exch quantity limit m)
               (\<lambda>m' _. (m', Inr (False, Some (''Quantity '' @ show_int quantity
                  @ '' exceeds freeze limit '' @ show_int limit
                  @ '' for '' @ sym @ '' on '' @ exch)))))"

text \<open>
  \<open>csv.DictReader\<close>: cells are paired with the header, cells missing at the end of a row are
  \<open>None\<close>, and a row with no cells is skipped.
\<close>

definition dict_row :: "string list \<Rightarrow> string list \<Rightarrow> (string \<times> string option) list" where
  "dict_row fieldnames cells =
     fold (\<lambda>(k, v). AList.update k v)
       (zip fieldnames (map Some cells @ replicate (length fieldnames - length cells) None)) []"

text \<open>\<open>row.get(name, "").strip()\<close>, which raises when the cell is \<open>None\<close>.\<close>

definition csv_cell :: "(string \<times> string option) list \<Rightarrow> string \<Rightarrow> freeze_error + string" where
  "csv_cell r name =
     (case map_of r name of
        None \<Rightarrow> Inr []
      | Some None \<Rightarrow> Inl AttributeError
      | Some (Some text) \<Rightarrow> Inr (py_strip text))"

definition load_row :: "string list \<Rightarrow> string list \<Rightarrow> freeze_manager \<Rightarrow> (freeze_manager, freeze_error, nat) outcome" where
  "load_row fieldnames cells m =
     (let r = dict_row fieldnames cells
      in case bind_res (csv_cell r ''SYMBOL'') (\<lambda>symb.
              bind_res (csv_cell r ''EXCHANGE'') (\<lambda>exch.
              bind_res (csv_cell r ''MAX_QTY'') (\<lambda>raw_qty. Inr (py_upper symb, py_upper exch, raw_qty)))) of
           Inl e \<Rightarrow> (m, Inl e)
         | Inr (symb, exch, raw_qty) \<Rightarrow>
             if symb = [] \<or> exch = [] \<or> raw_qty = [] then (m, Inr 0)
             else case parse_int raw_qty of
               None \<Rightarrow> (m, Inr 0)
             | Some max_qty \<Rightarrow>
                 if max_qty \<le> 0 then (m, Inr 0)
                 else bind_out (write_limit symb exch max_qty m) (\<lambda>m' _. (m', Inr 1)))"

fun load_rows :: "string list \<Rightarrow> string list list \<Rightarrow> freeze_manager \<Rightarrow> (freeze_manager, freeze_error, nat) outcome" where
  "load_rows fieldnames [] m = (m, Inr 0)"
| "load_rows fieldnames (cells # rest) m =
     (if cells = [] then load_rows fieldnames rest m
      else bind_out (load_row fieldnames cells m) (\<lambda>m1 loaded.
             bind_out (load_rows fieldnames rest m1) (\<lambda>m2 more. (m2, Inr (loaded + more)))))"

definition load_from_csv ::
  "bool \<Rightarrow> string list option \<Rightarrow> string list list \<Rightarrow> freeze_manager \<Rightarrow> (freeze_manager, freeze_error, nat) outcome" where
  "load_from_csv csv_exists fieldnames rows m =
     (if \<not> csv_exists then (m, Inl FileNotFoundError)
      else case fieldnames of
        None \<Rightarrow> (m, Inl (ValueError ''CSV file is empty or has no header row''))
      | Some names \<Rightarrow>
          if names = [] then (m, Inl (ValueError ''CSV file is empty or has no header row''))
          else if \<not> {''SYMBOL'', ''EXCHANGE'', ''MAX_QTY''} \<subseteq> set (map (py_upper \<circ> py_strip) names)
          then (m, Inl (ValueError ''CSV must have columns: SYMBOL, EXCHANGE, MAX_QTY.''))
          else load_rows names rows m)"

definition recent_blocks :: "nat \<Rightarrow> freeze_manager \<Rightarrow> blocked_order list" where
  "recent_blocks limit m = take limit (rev (db_blocked m))"

definition all_limits :: "freeze_manager \<Rightarrow> limit_table" where
  "all_limits m = sort (fm_limits m)"

subsection \<open>Invariant\<close>

text \<open>
  Memory and table hold the same entries under upper-case keys, every limit is a positive
  32-bit integer, at least one limit exists and the ring is bounded.
\<close>

definition freeze_inv :: "freeze_manager \<Rightarrow> bool" where
  "freeze_inv m \<longleftrightarrow>
     fm_limits m = db_limits m \<and> fm_limits m \<noteq> [] \<and> distinct (map fst (fm_limits m))
     \<and> list_all (\<lambda>((s, x), q). py_upper s = s \<and> py_upper x = x \<and> 0 < q \<and> fits_integer q) (fm_limits m)
     \<and> length (fm_blocked m) \<le> MAX_BLOCKS_MEMORY"

lemma freeze_inv_put:
  "freeze_inv m \<Longrightarrow> py_upper s = s \<Longrightarrow> py_upper x = x \<Longrightarrow> 0 < q \<Longrightarrow> fits_integer q
   \<Longrightarrow> freeze_inv (put_limit (s, x) q m)"
  by (auto simp: freeze_inv_def put_limit_def distinct_update intro!: list_all_update)

lemma write_limit_inv:
  "freeze_inv m \<Longrightarrow> py_upper s = s \<Longrightarrow> py_upper x = x \<Longrightarrow> 0 < q \<Longrightarrow> freeze_inv (fst (write_limit s x q m))"
  by (simp add: write_limit_def freeze_inv_put)

lemma record_block_inv: "freeze_inv m \<Longrightarrow> freeze_inv (fst (record_block s x q l m))"
  by (auto simp: record_block_def freeze_inv_def Let_def)

lemma record_block_limits [simp]: "fm_limits (fst (record_block s x q l m)) = fm_limits m"
  by (simp add: record_block_def Let_def)

lemma validate_inv: "freeze_inv m \<Longrightarrow> freeze_inv (fst (validate s x q m))"
  by (auto simp: validate_def Let_def fst_bind_out record_block_inv split: option.splits sum.splits)

lemma validate_limits: "fm_limits (fst (validate s x q m)) = fm_limits m"
  by (auto simp: validate_def Let_def fst_bind_out split: option.splits sum.splits)

lemma set_limit_inv: "freeze_inv m \<Longrightarrow> freeze_inv (fst (set_limit s x q m))"
  by (auto simp: set_limit_def intro!: write_limit_inv)

lemma load_row_inv: "freeze_inv m \<Longrightarrow> freeze_inv (fst (load_row names cells m))"
  by (auto simp: load_row_def Let_def fst_bind_out split: option.splits sum.splits intro!: write_limit_inv)

lemma load_rows_inv: "freeze_inv m \<Longrightarrow> freeze_inv (fst (load_rows names rows m))"
proof (induction names rows m rule: load_rows.induct)
  case (2 names cells rest m)
  then show ?case
    by (auto simp: fst_bind_out load_row_inv split: sum.splits)
qed simp

lemma load_from_csv_inv: "freeze_inv m \<Longrightarrow> freeze_inv (fst (load_from_csv ex names rows m))"
  by (auto simp: load_from_csv_def load_rows_inv split: option.splits)

subsection \<open>Reopening\<close>

lemma load_rows_upper:
  "list_all (\<lambda>((s, x), q). py_upper s = s \<and> py_upper x = x) d \<Longrightarrow>
   fold (\<lambda>((s, x), q). AList.update (py_upper s, py_upper x) q) d acc =
   fold (\<lambda>(k, v). AList.update k v) d acc"
  by (induction d arbitrary: acc) auto

lemma freeze_reopen_eq: "freeze_inv m \<Longrightarrow> freeze_reopen m = m\<lparr>fm_blocked := []\<rparr>"
proof -
  assume inv: "freeze_inv m"
  have upper: "list_all (\<lambda>((s, x), q). py_upper s = s \<and> py_upper x = x) (db_limits m)"
    using inv by (auto simp: freeze_inv_def list_all_iff)
  have "fold (\<lambda>((s, x), q). AList.update (py_upper s, py_upper x) q) (db_limits m) [] = db_limits m"
    using inv fold_update_distinct [of "[]" "db_limits m"]
    by (auto simp: load_rows_upper [OF upper] freeze_inv_def)
  then show ?thesis
    using inv by (auto simp: freeze_reopen_def freeze_open_def load_from_db_def seed_defaults_def freeze_inv_def)
qed

lemma NSE_DEFAULTS_upper:
  "list_all (\<lambda>((s, x), q). py_upper s = s \<and> py_upper x = x \<and> 0 < q \<and> fits_integer q) NSE_DEFAULTS"
  by code_simp

lemma freeze_open_empty: "freeze_open [] [] = \<lparr>fm_limits = NSE_DEFAULTS, fm_blocked = [], db_limits = NSE_DEFAULTS, db_blocked = []\<rparr>"
  by code_simp

lemma freeze_inv_empty: "freeze_inv (freeze_open [] [])"
proof -
  have "distinct (map fst NSE_DEFAULTS)" "NSE_DEFAULTS \<noteq> []" by code_simp+
  then show ?thesis
    using NSE_DEFAULTS_upper by (simp add: freeze_open_empty freeze_inv_def)
qed

subsection \<open>Runs\<close>

datatype freeze_op =
    SetLimit string string int
  | Validate string string int
  | LoadCsv bool "string list option" "string list list"

fun freeze_exec :: "freeze_manager \<Rightarrow> freeze_op \<Rightarrow> freeze_manager" where
  "freeze_exec m (SetLimit s x q) = fst (set_limit s x q m)"
| "freeze_exec m (Validate s x q) = fst (validate s x q m)"
| "freeze_exec m (LoadCsv ex names rows) = fst (load_from_csv ex names rows m)"

interpretation freeze: durable_machine freeze_exec freeze_inv freeze_reopen
  "\<lambda>m. (fm_limits m, db_limits m, db_blocked m)"
proof unfold_locales
  fix m op
  show "freeze_inv m \<Longrightarrow> freeze_inv (freeze_exec m op)"
    by (cases op) (simp_all add: set_limit_inv validate_inv load_from_csv_inv)
  show "freeze_inv m \<Longrightarrow> freeze_inv (freeze_reopen m)"
    by (auto simp: freeze_reopen_eq) (auto simp: freeze_inv_def)
  show "freeze_inv m \<Longrightarrow> (fm_limits (freeze_reopen m), db_limits (freeze_reopen m), db_blocked (freeze_reopen m))
      = (fm_limits m, db_limits m, db_blocked m)"
    by (simp add: freeze_reopen_eq)
qed

interpretation limits: keyed_store "\<lambda>_. True" put_limit "\<lambda>m. map_of (fm_limits m)"
  by unfold_locales (simp_all add: put_limit_def update_conv')

subsection \<open>The CSV import\<close>

abbreviation csv_header :: "string list" where
  "csv_header \<equiv> [''SYMBOL'', ''EXCHANGE'', ''MAX_QTY'']"

lemma load_row_full:
  assumes "py_strip symb \<noteq> []" and "py_strip exch \<noteq> []" and "0 < q" and "fits_integer q"
  shows "load_row csv_header [symb, exch, show_int q] m =
      (put_limit (py_upper (py_strip symb), py_upper (py_strip exch)) q m, Inr 1)"
proof -
  have r: "dict_row csv_header [symb, exch, show_int q] =
      [(''SYMBOL'', Some symb), (''EXCHANGE'', Some exch), (''MAX_QTY'', Some (show_int q))]"
    by (simp add: dict_row_def)
  have q: "py_strip (show_int q) = show_int q"
    by (rule py_strip_no_space) (rule show_int_chars)
  show ?thesis using assms by (simp add: load_row_def r csv_cell_def q write_limit_def)
qed

lemma load_rows_full:
  assumes "list_all (\<lambda>(s, x, q). py_strip s \<noteq> [] \<and> py_strip x \<noteq> [] \<and> 0 < q \<and> fits_integer q) rs"
  shows "load_rows csv_header (map (\<lambda>(s, x, q). [s, x, show_int q]) rs) m =
     (fold (\<lambda>(k, v). put_limit k v)
        (map (\<lambda>(s, x, q). ((py_upper (py_strip s), py_upper (py_strip x)), q)) rs) m, Inr (length rs))"
  using assms
proof (induction rs arbitrary: m)
  case Nil
  then show ?case by simp
next
  case (Cons r rs)
  then show ?case by (cases r) (auto simp: load_row_full)
qed

lemma dict_row_other_key:
  "name \<notin> set fieldnames \<Longrightarrow> map_of (dict_row fieldnames cells) name = None"
proof -
  assume "name \<notin> set fieldnames"
  then show ?thesis
    by (auto simp: dict_row_def map_of_eq_None_iff keys_fold_update dest: set_zip_leftD)
qed

lemma csv_cell_full_row:
  assumes "length fieldnames \<le> length cells"
  shows "csv_cell (dict_row fieldnames cells) name \<noteq> Inl e"
proof -
  have "v \<noteq> None" if "map_of (dict_row fieldnames cells) name = Some v" for v
  proof -
    have "v \<in> snd ` set (dict_row fieldnames cells)"
      using map_of_SomeD [OF that] by force
    also have "dict_row fieldnames cells = fold (\<lambda>(k, v). AList.update k v) (zip fieldnames (map Some cells)) []"
      using assms by (simp add: dict_row_def)
    finally have "v \<in> snd ` set (zip fieldnames (map Some cells))"
      using values_fold_update [of "zip fieldnames (map Some cells)" "[] :: (string \<times> string option) list"] by auto
    then have "v \<in> set (map Some cells)" by (metis imageE prod.collapse set_zip_rightD)
    then show ?thesis by auto
  qed
  then show ?thesis by (auto simp: csv_cell_def split: option.splits)
qed

subsection \<open>Properties of the manager\<close>

text \<open>
  After any sequence of operations on a newly created manager, the limits in memory are
  the rows of the table, every stored limit is a positive 32-bit integer under upper-case
  keys, and the in-memory ring of blocked orders holds at most 1000 entries.
\<close>

theorem freeze_run_invariant: "freeze_inv (foldl freeze_exec (freeze_open [] []) ops)"
  by (rule freeze.inv_run) (rule freeze_inv_empty)

text \<open>
  Restart safety: closing the manager after any run and reopening it on its tables gives
  back exactly the same limits (the defaults are not reseeded over tuned limits) and loses
  only the in-memory ring.
\<close>

theorem freeze_restart:
  "freeze_reopen (foldl freeze_exec (freeze_open [] []) ops)
     = (foldl freeze_exec (freeze_open [] []) ops)\<lparr>fm_blocked := []\<rparr>"
  by (rule freeze_reopen_eq) (rule freeze.inv_run, rule freeze_inv_empty)

text \<open>
  What \<open>validate\<close> answers for a 32-bit quantity: admitted without a write when no limit
  is configured or the quantity is within it; otherwise refused, with the refusal appended
  to the durable log and no limit changed.
\<close>

theorem validate_correct:
  assumes "freeze_inv m" and "fits_integer q"
  shows "(case get_limit s x m of
       None \<Rightarrow> validate s x q m = (m, Inr (True, None))
     | Some limit \<Rightarrow>
         if q \<le> limit then validate s x q m = (m, Inr (True, None))
         else \<exists>m' reason. validate s x q m = (m', Inr (False, Some reason))
           \<and> fm_limits m' = fm_limits m
           \<and> db_blocked m' = db_blocked m @ [\<lparr>bo_symbol = py_upper s, bo_exchange = py_upper x,
                bo_quantity = q, bo_limit = limit\<rparr>]
           \<and> last (fm_blocked m') = last (db_blocked m'))"
proof (cases "get_limit s x m")
  case None
  then show ?thesis by (simp add: get_limit_def validate_def)
next
  case (Some limit)
  then have "((py_upper s, py_upper x), limit) \<in> set (fm_limits m)"
    by (auto simp: get_limit_def dest: map_of_SomeD)
  then have "fits_integer limit"
    using assms(1) by (auto simp: freeze_inv_def list_all_iff)
  with Some assms(2) show ?thesis
    by (auto simp: get_limit_def validate_def record_block_def Let_def MAX_BLOCKS_MEMORY_def)
qed

theorem validate_correct_witness:
  "freeze_inv (freeze_open [] []) \<and> fits_integer 2000
   \<and> snd (validate ''nifty'' ''nfo'' 2000 (freeze_open [] []))
     = Inr (False, Some ''Quantity 2000 exceeds freeze limit 1800 for NIFTY on NFO'')
   \<and> (\<exists>m' reason. validate ''nifty'' ''nfo'' 2000 (freeze_open [] []) = (m', Inr (False, Some reason))
        \<and> fm_limits m' = fm_limits (freeze_open [] []))"
proof -
  have fits: "fits_integer 2000" by code_simp
  have lim: "get_limit ''nifty'' ''nfo'' (freeze_open [] []) = Some 1800" by code_simp
  have "snd (validate ''nifty'' ''nfo'' 2000 (freeze_open [] []))
     = Inr (False, Some ''Quantity 2000 exceeds freeze limit 1800 for NIFTY on NFO'')"
    by code_simp
  with fits lim freeze_inv_empty validate_correct [OF freeze_inv_empty fits, of "''nifty''" "''nfo''"]
  show ?thesis by auto
qed

text \<open>
  The CSV import is faithful: a file with the documented header and well-formed rows
  loads every row, and afterwards each limit is the one of the last row that names the
  contract, or the previous limit when no row does.
\<close>

theorem load_from_csv_correct:
  assumes "list_all (\<lambda>(s, x, q). py_strip s \<noteq> [] \<and> py_strip x \<noteq> [] \<and> 0 < q \<and> fits_integer q) rs"
  shows "\<exists>m'. load_from_csv True (Some csv_header) (map (\<lambda>(s, x, q). [s, x, show_int q]) rs) m
        = (m', Inr (length rs))
      \<and> (\<forall>s x. get_limit s x m' =
            (map_of (fm_limits m) ++
             map_of (rev (map (\<lambda>(s, x, q). ((py_upper (py_strip s), py_upper (py_strip x)), q)) rs)))
            (py_upper s, py_upper x))"
proof -
  have "{''SYMBOL'', ''EXCHANGE'', ''MAX_QTY''} \<subseteq> set (map (py_upper \<circ> py_strip) csv_header)"
    by code_simp
  then show ?thesis
    by (simp add: load_from_csv_def load_rows_full [OF assms] get_limit_def limits.get_put_all)
qed

theorem load_from_csv_correct_witness:
  "\<exists>m'. load_from_csv True (Some csv_header)
        [[''nifty'', ''nfo'', ''1500''], ['' acme'', ''NFO'', ''70'']] (freeze_open [] []) = (m', Inr 2)
     \<and> get_limit ''NIFTY'' ''NFO'' m' = Some 1500 \<and> get_limit ''Acme'' ''NFO'' m' = Some 70
     \<and> get_limit ''BANKEX'' ''BFO'' m' = Some 900"
proof -
  let ?rs = "[(''nifty'', ''nfo'', 1500), ('' acme'', ''NFO'', 70)] :: (string \<times> string \<times> int) list"
  have ok: "list_all (\<lambda>(s, x, q). py_strip s \<noteq> [] \<and> py_strip x \<noteq> [] \<and> 0 < q \<and> fits_integer q) ?rs"
    by code_simp
  have rows: "map (\<lambda>(s, x, q). [s, x, show_int q]) ?rs =
      [[''nifty'', ''nfo'', ''1500''], ['' acme'', ''NFO'', ''70'']]" by code_simp
  have upper: "py_upper ''NIFTY'' = ''NIFTY''" "py_upper ''NFO'' = ''NFO''" "py_upper ''Acme'' = ''ACME''"
    "py_upper ''BANKEX'' = ''BANKEX''" "py_upper ''BFO'' = ''BFO''" "py_upper (py_strip ''nifty'') = ''NIFTY''"
    "py_upper (py_strip ''nfo'') = ''NFO''" "py_upper (py_strip '' acme'') = ''ACME''"
    "py_upper (py_strip ''NFO'') = ''NFO''"
    by code_simp+
  have def: "map_of (fm_limits (freeze_open [] [])) (''BANKEX'', ''BFO'') = Some 900" by code_simp
  show ?thesis
    using load_from_csv_correct [OF ok, of "freeze_open [] []"]
    by (auto simp: rows upper def map_add_def simp flip: rows)
qed

text \<open>
  A quantity outside 32 bits makes \<open>validate\<close> raise instead of returning the documented
  \<open>(False, reason)\<close>: the INTEGER column of \<open>blocked_orders\<close> refuses the insert, after the
  ring in memory has recorded the order.
\<close>

theorem validate_raises_beyond_32_bits:
  assumes "get_limit s x m = Some limit" and "limit < q" and "\<not> fits_integer q"
  shows "snd (validate s x q m) = Inl ConversionError
    \<and> db_blocked (fst (validate s x q m)) = db_blocked m
    \<and> bo_quantity (last (fm_blocked (fst (validate s x q m)))) = q"
  using assms
  by (auto simp: get_limit_def validate_def record_block_def Let_def MAX_BLOCKS_MEMORY_def)

theorem validate_raises_beyond_32_bits_witness:
  "snd (validate ''NIFTY'' ''NFO'' 3000000000 (freeze_open [] [])) = Inl ConversionError"
proof -
  have "get_limit ''NIFTY'' ''NFO'' (freeze_open [] []) = Some 1800" "(1800::int) < 3000000000"
    "\<not> fits_integer 3000000000"
    by code_simp+
  from validate_raises_beyond_32_bits [OF this] show ?thesis by simp
qed

text \<open>
  The header check of the import ignores case and blanks, but the cells are read under
  the exact names: a complete file whose header does not spell \<open>SYMBOL\<close> exactly passes the
  check and loads nothing.
\<close>

theorem csv_inexact_header_loads_nothing:
  assumes "''SYMBOL'' \<notin> set names" and "list_all (\<lambda>cells. length names \<le> length cells) rows"
    and "{''SYMBOL'', ''EXCHANGE'', ''MAX_QTY''} \<subseteq> set (map (py_upper \<circ> py_strip) names)"
  shows "load_from_csv True (Some names) rows m = (m, Inr 0)"
proof -
  have row: "load_row names cells m = (m, Inr 0)" if full: "length names \<le> length cells" for cells m
  proof -
    have "csv_cell (dict_row names cells) ''SYMBOL'' = Inr []"
      by (simp add: csv_cell_def dict_row_other_key assms(1))
    moreover obtain a b where "csv_cell (dict_row names cells) ''EXCHANGE'' = Inr a"
        "csv_cell (dict_row names cells) ''MAX_QTY'' = Inr b"
      using csv_cell_full_row [OF full] by (metis sum.exhaust)
    ultimately show ?thesis by (simp add: load_row_def py_upper_def)
  qed
  have "load_rows names rows m = (m, Inr 0)"
    using assms(2) by (induction rows) (auto simp: row)
  then show ?thesis using assms(3) by (auto simp: load_from_csv_def)
qed

theorem csv_inexact_header_loads_nothing_witness:
  "load_from_csv True (Some [''Symbol'', ''Exchange'', ''Max_Qty'']) [[''NIFTY'', ''NFO'', ''1500'']]
     (freeze_open [] []) = (freeze_open [] [], Inr 0)"
proof -
  have "''SYMBOL'' \<notin> set [''Symbol'', ''Exchange'', ''Max_Qty'']"
    "list_all (\<lambda>cells. length [''Symbol'', ''Exchange'', ''Max_Qty''] \<le> length cells) [[''NIFTY'', ''NFO'', ''1500'']]"
    "{''SYMBOL'', ''EXCHANGE'', ''MAX_QTY''}
       \<subseteq> set (map (py_upper \<circ> py_strip) [''Symbol'', ''Exchange'', ''Max_Qty''])"
    by code_simp+
  then show ?thesis by (rule csv_inexact_header_loads_nothing)
qed

text \<open>
  A row cut short raises instead of being skipped: the missing cell is \<open>None\<close> and
  \<open>.strip()\<close> fails, so the rows after it are never read.
\<close>

theorem csv_short_row_raises:
  "snd (load_from_csv True (Some csv_header) ([symb, exch] # rows) m) = Inl AttributeError"
proof -
  have "{''SYMBOL'', ''EXCHANGE'', ''MAX_QTY''} \<subseteq> set (map (py_upper \<circ> py_strip) csv_header)"
    by code_simp
  moreover have "load_row csv_header [symb, exch] m = (m, Inl AttributeError)"
    by (simp add: load_row_def dict_row_def csv_cell_def numeral_2_eq_2)
  ultimately show ?thesis by (simp add: load_from_csv_def)
qed

end
