(* ===== verification/Broker_Identity.thy ===== *)
theory Broker_Identity
  imports Py_Numbers
begin

text \<open>
  \<open>flinttrade_core/broker_identity.py\<close>: the exact identity of a broker account, its text
  form \<open>adapter:account\<close>, its URL path segments, and the credential and quarantine versions
  that carry it. A value of another Python type than the annotated one is refused by the
  \<open>type(...) is\<close> tests; here it is any \<open>pyval\<close> that is not a string. A UUID is its 128-bit
  integer, from which Python computes the version and variant.
\<close>

subsection \<open>Selectors\<close>

datatype identity_error = BrokerSelectorValidationError | BrokerTargetRequiredError

record broker_selector =
  adapter_id :: string
  account_id :: string

definition is_lower_letter :: "char \<Rightarrow> bool" where
  "is_lower_letter c \<longleftrightarrow> 97 \<le> code_of c \<and> code_of c \<le> 122"

definition is_upper_letter :: "char \<Rightarrow> bool" where
  "is_upper_letter c \<longleftrightarrow> 65 \<le> code_of c \<and> code_of c \<le> 90"

text \<open>The three regular expressions \<open>_ADAPTER\<close>, \<open>_ACCOUNT\<close> and \<open>_ALNUM\<close>.\<close>

definition adapter_first :: "char \<Rightarrow> bool" where
  "adapter_first c \<longleftrightarrow> is_lower_letter c \<or> is_digit c"

definition adapter_char :: "char \<Rightarrow> bool" where
  "adapter_char c \<longleftrightarrow> adapter_first c \<or> c = CHR ''_'' \<or> c = CHR ''-''"

definition adapter_match :: "string \<Rightarrow> bool" where
  "adapter_match s \<longleftrightarrow> (case s of [] \<Rightarrow> False | c # cs \<Rightarrow> adapter_first c \<and> list_all adapter_char cs \<and> length cs \<le> 63)"

definition alnum :: "char \<Rightarrow> bool" where
  "alnum c \<longleftrightarrow> is_lower_letter c \<or> is_upper_letter c \<or> is_digit c"

definition account_char :: "char \<Rightarrow> bool" where
  "account_char c \<longleftrightarrow> alnum c \<or> c \<in> set ''._:@+-''"

definition account_match :: "string \<Rightarrow> bool" where
  "account_match s \<longleftrightarrow> list_all account_char s \<and> 1 \<le> length s \<and> length s \<le> 128"

definition selector_valid :: "broker_selector \<Rightarrow> bool" where
  "selector_valid s \<longleftrightarrow> adapter_match (adapter_id s) \<and> account_match (account_id s) \<and> list_ex alnum (account_id s)"

definition make_selector :: "pyval \<Rightarrow> pyval \<Rightarrow> identity_error + broker_selector" where
  "make_selector adapter account =
     (case (adapter, account) of
        (PStr a, PStr b) \<Rightarrow>
          (let s = \<lparr>adapter_id = a, account_id = b\<rparr>
           in if selector_valid s then Inr s else Inl BrokerSelectorValidationError)
      | _ \<Rightarrow> Inl BrokerSelectorValidationError)"

definition validate_selector :: "broker_selector \<Rightarrow> identity_error + unit" where
  "validate_selector s = require (selector_valid s) BrokerSelectorValidationError"

text \<open>\<open>value.split(":", 1)\<close>: the text before and after the first colon.\<close>

definition split_colon :: "string \<Rightarrow> string \<times> string" where
  "split_colon s = (takeWhile (\<lambda>c. c \<noteq> CHR '':'') s, tl (dropWhile (\<lambda>c. c \<noteq> CHR '':'') s))"

definition parse_broker_selector :: "pyval \<Rightarrow> identity_error + broker_selector" where
  "parse_broker_selector v =
     (case v of
        PStr s \<Rightarrow>
          (if CHR '':'' \<notin> set s then Inl BrokerSelectorValidationError
           else make_selector (PStr (fst (split_colon s))) (PStr (snd (split_colon s))))
      | _ \<Rightarrow> Inl BrokerSelectorValidationError)"

definition serialise_broker_selector :: "broker_selector \<Rightarrow> identity_error + string" where
  "serialise_broker_selector s =
     bind_res (validate_selector s) (\<lambda>_. Inr (adapter_id s @ '':'' @ account_id s))"

definition broker_selector_from_path :: "pyval \<Rightarrow> pyval \<Rightarrow> identity_error + broker_selector" where
  "broker_selector_from_path adapter account = make_selector adapter account"

subsection \<open>URL path segments\<close>

text \<open>\<open>urllib.parse.quote(s, safe="")\<close> on ASCII text.\<close>

definition hex_digit :: "nat \<Rightarrow> char" where
  "hex_digit d = (if d < 10 then char_of (48 + d) else char_of (55 + d))"

definition unreserved :: "char \<Rightarrow> bool" where
  "unreserved c \<longleftrightarrow> alnum c \<or> c \<in> set ''_.-~''"

definition quote_char :: "char \<Rightarrow> string" where
  "quote_char c = (if unreserved c then [c] else [CHR ''%'', hex_digit (code_of c div 16), hex_digit (code_of c mod 16)])"

definition quote :: "string \<Rightarrow> string" where
  "quote s = concat (map quote_char s)"

definition broker_selector_path_parts :: "broker_selector \<Rightarrow> identity_error + (string \<times> string)" where
  "broker_selector_path_parts s =
     bind_res (validate_selector s) (\<lambda>_. Inr (quote (adapter_id s), quote (account_id s)))"

text \<open>What a framework decodes from a path segment.\<close>

definition hex_val :: "char \<Rightarrow> nat" where
  "hex_val c = (if is_digit c then code_of c - 48 else code_of c - 55)"

fun unquote :: "string \<Rightarrow> string" where
  "unquote [] = []"
| "unquote (c # cs) =
     (if c = CHR ''%'' then
        (case cs of h # l # rest \<Rightarrow> char_of (16 * hex_val h + hex_val l) # unquote rest | _ \<Rightarrow> c # unquote cs)
      else c # unquote cs)"

subsection \<open>Choosing the target\<close>

definition resolve_exact_target ::
  "string option \<Rightarrow> broker_selector option \<Rightarrow> identity_error + broker_selector" where
  "resolve_exact_target configured explicit =
     (case explicit of
        Some s \<Rightarrow> bind_res (validate_selector s) (\<lambda>_. Inr s)
      | None \<Rightarrow>
          (case configured of
             None \<Rightarrow> Inl BrokerTargetRequiredError
           | Some text \<Rightarrow> parse_broker_selector (PStr text)))"

subsection \<open>Versions\<close>

definition INT64_MAX :: int where
  "INT64_MAX = 2 ^ 63 - 1"

definition uuid_is_rfc4122 :: "nat \<Rightarrow> bool" where
  "uuid_is_rfc4122 u \<longleftrightarrow> (u div 2 ^ 62) mod 4 = 2"

definition uuid_version :: "nat \<Rightarrow> nat option" where
  "uuid_version u = (if uuid_is_rfc4122 u then Some ((u div 2 ^ 76) mod 16) else None)"

definition uuid_random :: "nat \<Rightarrow> bool" where
  "uuid_random u \<longleftrightarrow> uuid_version u = Some 4 \<and> uuid_is_rfc4122 u"

record credential_version =
  cv_selector :: broker_selector
  cv_vault_incarnation :: nat
  cv_generation :: int

definition credential_version_valid :: "credential_version \<Rightarrow> bool" where
  "credential_version_valid v \<longleftrightarrow>
     selector_valid (cv_selector v) \<and> uuid_random (cv_vault_incarnation v)
     \<and> 0 \<le> cv_generation v \<and> cv_generation v \<le> INT64_MAX"

record quarantine_ref =
  q_quarantine_id :: nat
  q_source_vault_incarnation :: nat
  q_row_generation :: int

definition quarantine_ref_valid :: "quarantine_ref \<Rightarrow> bool" where
  "quarantine_ref_valid q \<longleftrightarrow>
     uuid_random (q_quarantine_id q) \<and> uuid_random (q_source_vault_incarnation q)
     \<and> 1 \<le> q_row_generation q \<and> q_row_generation q \<le> INT64_MAX"

subsection \<open>Lemmas\<close>

lemma colon_not_adapter: "\<not> adapter_char (CHR '':'')"
  by (simp add: adapter_char_def adapter_first_def is_lower_letter_def is_digit_def)

lemma adapter_chars: "adapter_match s \<Longrightarrow> c \<in> set s \<Longrightarrow> adapter_char c"
  by (auto simp: adapter_match_def adapter_char_def list_all_iff split: list.splits)

lemma split_colon_append:
  assumes "CHR '':'' \<notin> set a"
  shows "split_colon (a @ CHR '':'' # b) = (a, b)"
proof -
  have "takeWhile (\<lambda>c. c \<noteq> CHR '':'') (a @ CHR '':'' # b) = a"
    "dropWhile (\<lambda>c. c \<noteq> CHR '':'') (a @ CHR '':'' # b) = CHR '':'' # b"
    using assms by (induction a) auto
  then show ?thesis by (simp add: split_colon_def)
qed

lemma split_colon_join:
  assumes "CHR '':'' \<in> set s"
  shows "fst (split_colon s) @ CHR '':'' # snd (split_colon s) = s"
  using assms by (induction s) (auto simp: split_colon_def)

lemma selector_eta [simp]: "\<lparr>adapter_id = adapter_id s, account_id = account_id s\<rparr> = s"
  by simp

lemma make_selector_Inr:
  "make_selector x y = Inr s \<longleftrightarrow> x = PStr (adapter_id s) \<and> y = PStr (account_id s) \<and> selector_valid s"
  by (cases x; cases y) (auto simp: make_selector_def Let_def split: if_splits)

lemma high_nibble: "code_of c div 16 < 16"
proof -
  have "code_of c < 16 * 16" using nat_of_char_less_256 [of c] by simp
  then show ?thesis by (rule less_mult_imp_div_less)
qed

lemma hex_val_hex_digit [simp]: "d < 16 \<Longrightarrow> hex_val (hex_digit d) = d"
  by (simp add: hex_val_def hex_digit_def is_digit_def)

lemma unquote_quote_char: "unquote (quote_char c @ rest) = c # unquote rest"
proof (cases "unreserved c")
  case True
  then have "c \<noteq> CHR ''%''"
    by (auto simp: unreserved_def alnum_def is_lower_letter_def is_upper_letter_def is_digit_def)
  with True show ?thesis by (simp add: quote_char_def)
next
  case False
  have "16 * hex_val (hex_digit (code_of c div 16)) + hex_val (hex_digit (code_of c mod 16)) = code_of c"
    by (simp add: high_nibble)
  with False show ?thesis by (simp add: quote_char_def)
qed

lemma unquote_quote [simp]: "unquote (quote s) = s"
  by (induction s) (simp_all add: quote_def unquote_quote_char)

lemma quote_chars: "c \<in> set (quote s) \<Longrightarrow> unreserved c \<or> c = CHR ''%''"
proof -
  have "unreserved (hex_digit d)" if "d < 16" for d
    using that by (auto simp: unreserved_def alnum_def is_digit_def is_upper_letter_def hex_digit_def)
  moreover assume "c \<in> set (quote s)"
  ultimately show ?thesis by (auto simp: quote_def quote_char_def high_nibble split: if_splits)
qed

subsection \<open>Properties\<close>

text \<open>
  Parsing and serialising a broker selector are inverse: a valid selector survives the
  round trip through its text form, and a text that parses is reproduced character by
  character, so no identity is trimmed, case-folded or confused with another.
\<close>

theorem selector_round_trip:
  "(serialise_broker_selector s = Inr text \<longrightarrow> parse_broker_selector (PStr text) = Inr s)
   \<and> (parse_broker_selector (PStr text) = Inr s \<longrightarrow> serialise_broker_selector s = Inr text)"
proof (intro conjI impI)
  assume "serialise_broker_selector s = Inr text"
  then have valid: "selector_valid s" and eq: "text = adapter_id s @ CHR '':'' # account_id s"
    by (auto simp: serialise_broker_selector_def validate_selector_def)
  have "CHR '':'' \<notin> set (adapter_id s)"
    using valid adapter_chars colon_not_adapter by (auto simp: selector_valid_def)
  then show "parse_broker_selector (PStr text) = Inr s"
    using valid by (simp add: parse_broker_selector_def eq split_colon_append make_selector_def)
next
  assume "parse_broker_selector (PStr text) = Inr s"
  then have colon: "CHR '':'' \<in> set text"
    and made: "make_selector (PStr (fst (split_colon text))) (PStr (snd (split_colon text))) = Inr s"
    by (auto simp: parse_broker_selector_def split: if_splits)
  then show "serialise_broker_selector s = Inr text"
    using split_colon_join [OF colon]
    by (simp add: make_selector_Inr serialise_broker_selector_def validate_selector_def)
qed

theorem selector_round_trip_witness:
  "parse_broker_selector (PStr ''dhan:acct:1'') = Inr \<lparr>adapter_id = ''dhan'', account_id = ''acct:1''\<rparr>
   \<and> serialise_broker_selector \<lparr>adapter_id = ''dhan'', account_id = ''acct:1''\<rparr> = Inr ''dhan:acct:1''"
proof -
  have "parse_broker_selector (PStr ''dhan:acct:1'') = Inr \<lparr>adapter_id = ''dhan'', account_id = ''acct:1''\<rparr>"
    by code_simp
  then show ?thesis
    using selector_round_trip [of "\<lparr>adapter_id = ''dhan'', account_id = ''acct:1''\<rparr>" "''dhan:acct:1''"] by blast
qed

text \<open>
  The URL path segments of a valid selector hold no slash, colon or other reserved
  character, and decoding each once gives the selector back.
\<close>

theorem path_parts_round_trip:
  assumes "broker_selector_path_parts s = Inr (a, b)"
  shows "broker_selector_from_path (PStr (unquote a)) (PStr (unquote b)) = Inr s
    \<and> (\<forall>c \<in> set (a @ b). unreserved c \<or> c = CHR ''%'')"
proof -
  from assms have "selector_valid s" "a = quote (adapter_id s)" "b = quote (account_id s)"
    by (auto simp: broker_selector_path_parts_def validate_selector_def)
  then show ?thesis
    using quote_chars by (auto simp: broker_selector_from_path_def make_selector_def)
qed

theorem path_parts_round_trip_witness:
  "broker_selector_path_parts \<lparr>adapter_id = ''delta'', account_id = ''a:b@c+1''\<rparr>
     = Inr (''delta'', ''a%3Ab%40c%2B1'')
   \<and> broker_selector_from_path (PStr (unquote ''delta'')) (PStr (unquote ''a%3Ab%40c%2B1''))
     = Inr \<lparr>adapter_id = ''delta'', account_id = ''a:b@c+1''\<rparr>"
proof -
  have parts: "broker_selector_path_parts \<lparr>adapter_id = ''delta'', account_id = ''a:b@c+1''\<rparr>
      = Inr (''delta'', ''a%3Ab%40c%2B1'')"
    by code_simp
  show ?thesis using parts path_parts_round_trip [OF parts] by simp
qed

text \<open>
  Target resolution never mixes identities: the result is the explicit selector when one
  is given, otherwise the configured text read exactly; with neither it fails, and every
  selector that comes out is valid.
\<close>

theorem resolve_exact_target_correct:
  "(resolve_exact_target configured explicit = Inr s \<longleftrightarrow>
      selector_valid s \<and>
      (explicit = Some s \<or>
       explicit = None \<and> configured = Some (adapter_id s @ '':'' @ account_id s)))
   \<and> (resolve_exact_target configured explicit = Inl BrokerTargetRequiredError \<longleftrightarrow>
        configured = None \<and> explicit = None)"
proof -
  have parse: "parse_broker_selector (PStr t) = Inr s \<longleftrightarrow>
      selector_valid s \<and> t = adapter_id s @ '':'' @ account_id s" for t
  proof
    assume p: "parse_broker_selector (PStr t) = Inr s"
    then have "CHR '':'' \<in> set t" by (auto simp: parse_broker_selector_def split: if_splits)
    with p split_colon_join [OF this]
    show "selector_valid s \<and> t = adapter_id s @ '':'' @ account_id s"
      by (simp add: parse_broker_selector_def make_selector_Inr)
  next
    assume v: "selector_valid s \<and> t = adapter_id s @ '':'' @ account_id s"
    then have "CHR '':'' \<notin> set (adapter_id s)"
      using adapter_chars colon_not_adapter by (auto simp: selector_valid_def)
    with v show "parse_broker_selector (PStr t) = Inr s"
      by (simp add: parse_broker_selector_def split_colon_append make_selector_def)
  qed
  have "parse_broker_selector (PStr t) \<noteq> Inl BrokerTargetRequiredError" for t
    by (auto simp: parse_broker_selector_def make_selector_def Let_def)
  then show ?thesis
    by (auto simp: resolve_exact_target_def parse validate_selector_def require_def split: option.splits)
qed

end
