(* ===== verification/Reduce_Only.thy ===== *)
theory Reduce_Only
  imports Broker_Identity
begin

text \<open>
  \<open>flinttrade_engine/reduce_only.py\<close>, first part: deciding whether a place only reduces an
  open position. Position and order rows are JSON objects (\<open>Some row\<close>); a sequence element
  that is not a mapping is \<open>None\<close> and is skipped as the code skips it.
\<close>

subsection \<open>Reading a row\<close>

definition EXIT_OPEN :: "string list" where
  "EXIT_OPEN =
     [''PENDING'', ''OPEN'', ''TRIGGER PENDING'', ''TRIGGER_PENDING'', ''VALIDATION PENDING'',
      ''OPEN PENDING'', ''MODIFY PENDING'', ''MODIFICATION PENDING'', ''AMO REQ RECEIVED'',
      ''PUT ORDER REQ RECEIVED'', ''AFTER MARKET ORDER REQ RECEIVED'']"

definition EXIT_CLOSED :: "string list" where
  "EXIT_CLOSED =
     [''COMPLETE'', ''COMPLETED'', ''FILLED'', ''CANCELLED'', ''CANCELED'', ''REJECTED'', ''TRADED'', ''EXPIRED'']"

record reduce_only_decision =
  qualifies :: bool
  open_quantity :: int
  pending_exits :: int
  cap :: int

definition norm :: "pyval \<Rightarrow> string" where
  "norm v = (if truthy v then py_upper (py_strip (py_str v)) else [])"

definition whole_float :: "fnum \<Rightarrow> int option" where
  "whole_float f = (if is_integer f then Some (int_of_float f) else None)"

fun whole :: "pyval \<Rightarrow> int option" where
  "whole PNone = None"
| "whole (PBool b) = None"
| "whole (PInt i) = Some i"
| "whole (PFloat f s) = whole_float f"
| "whole (PStr s) =
     (let t = py_strip s
      in if t = [] then None
         else case py_float t of None \<Rightarrow> None | Some f \<Rightarrow> whole_float f)"

text \<open>\<open>name in row and row[name] not in (None, "")\<close>.\<close>

definition cell :: "row \<Rightarrow> string \<Rightarrow> pyval option" where
  "cell r name =
     (case map_of r name of
        None \<Rightarrow> None
      | Some v \<Rightarrow> if v = PNone \<or> v = PStr [] then None else Some v)"

text \<open>\<open>row.get(name)\<close>.\<close>

definition row_get :: "row \<Rightarrow> string \<Rightarrow> pyval" where
  "row_get r name = (case map_of r name of None \<Rightarrow> PNone | Some v \<Rightarrow> v)"

fun first_cell :: "row \<Rightarrow> string list \<Rightarrow> pyval option" where
  "first_cell r [] = None"
| "first_cell r (name # names) = (case cell r name of Some v \<Rightarrow> Some v | None \<Rightarrow> first_cell r names)"

definition row_text :: "row \<Rightarrow> string list \<Rightarrow> string" where
  "row_text r names = (case first_cell r names of None \<Rightarrow> [] | Some v \<Rightarrow> norm v)"

abbreviation symbol_names :: "string list" where
  "symbol_names \<equiv> [''symbol'', ''trading_symbol'', ''tradingsymbol'']"

abbreviation action_names :: "string list" where
  "action_names \<equiv> [''action'', ''transaction_type'']"

abbreviation status_names :: "string list" where
  "status_names \<equiv> [''status'', ''order_status'', ''orderStatus'']"

abbreviation side_names :: "string list" where
  "side_names \<equiv> [''side'', ''transaction_type'', ''action'']"

abbreviation net_names :: "string list" where
  "net_names \<equiv> [''net_qty'', ''netQty'', ''net_quantity'', ''quantity'', ''qty'']"

abbreviation filled_names :: "string list" where
  "filled_names \<equiv> [''filled_qty'', ''filled_quantity'', ''filledQty'', ''tradedQty'']"

abbreviation id_names :: "string list" where
  "id_names \<equiv> [''order_id'', ''orderid'', ''orderId'', ''broker_order_id'']"

definition or_mis :: "string \<Rightarrow> string" where
  "or_mis p = (if p = [] then ''MIS'' else p)"

definition same_contract :: "row \<Rightarrow> string \<Rightarrow> string \<Rightarrow> string \<Rightarrow> bool" where
  "same_contract r symbol exchange product \<longleftrightarrow>
     row_text r symbol_names = symbol \<and> row_text r [''exchange''] = exchange
     \<and> or_mis (row_text r [''product'']) = product"

definition position_quantity :: "row \<Rightarrow> int option" where
  "position_quantity r =
     (let raw = (case first_cell r net_names of None \<Rightarrow> PNone | Some v \<Rightarrow> v)
      in case whole raw of
           None \<Rightarrow> None
         | Some qty \<Rightarrow>
             if row_text r side_names = ''SELL'' \<and> 0 < qty
                \<and> map_of r ''net_qty'' = None \<and> map_of r ''netQty'' = None \<and> map_of r ''net_quantity'' = None
             then Some (- qty) else Some qty)"

definition remaining_quantity :: "row \<Rightarrow> int" where
  "remaining_quantity r =
     (case whole (if map_of r ''quantity'' \<noteq> None then row_get r ''quantity'' else row_get r ''qty'') of
        None \<Rightarrow> 0
      | Some quantity \<Rightarrow>
          if quantity < 1 then 0
          else
            (let filled = (case first_cell r filled_names of None \<Rightarrow> Some 0 | Some v \<Rightarrow> whole v);
                 filled' = (case filled of None \<Rightarrow> 0 | Some f \<Rightarrow> if f < 0 then 0 else f)
             in max 0 (quantity - filled')))"

definition order_is_open :: "row \<Rightarrow> bool" where
  "order_is_open r = (row_text r status_names \<notin> set EXIT_CLOSED)"

definition order_id :: "row \<Rightarrow> string" where
  "order_id r = (case first_cell r id_names of None \<Rightarrow> [] | Some v \<Rightarrow> py_strip (py_str v))"

text \<open>The exactness test of \<open>_quantity_aliases\<close>: \<open>Decimal(raw.strip()) == value\<close> for text.\<close>

fun exact_cell :: "pyval \<Rightarrow> int \<Rightarrow> bool" where
  "exact_cell (PStr s) n = (parse_number (py_strip s) = Some (of_int n))"
| "exact_cell _ n = True"

fun alias_values :: "row \<Rightarrow> string list \<Rightarrow> int list option" where
  "alias_values r [] = Some []"
| "alias_values r (name # names) =
     (case map_of r name of
        None \<Rightarrow> alias_values r names
      | Some raw \<Rightarrow>
          (case whole raw of
             None \<Rightarrow> None
           | Some n \<Rightarrow> if exact_cell raw n then map_option (Cons n) (alias_values r names) else None))"

definition quantity_aliases :: "row \<Rightarrow> string list \<Rightarrow> int option \<Rightarrow> int option" where
  "quantity_aliases r names dflt =
     (case alias_values r names of
        None \<Rightarrow> None
      | Some [] \<Rightarrow> dflt
      | Some (v # vs) \<Rightarrow> if list_ex (\<lambda>w. w \<noteq> v) vs then None else Some v)"

definition text_aliases_agree :: "row \<Rightarrow> string list \<Rightarrow> bool" where
  "text_aliases_agree r names = (length (remdups (map norm (List.map_filter (cell r) names))) \<le> 1)"

definition order_identity_aliases_agree :: "row \<Rightarrow> string \<Rightarrow> bool" where
  "order_identity_aliases_agree r oid =
     list_all (\<lambda>name. case map_of r name of
         None \<Rightarrow> True
       | Some (PStr s) \<Rightarrow> py_strip s = oid
       | Some (PInt i) \<Rightarrow> py_strip (show_int i) = oid
       | _ \<Rightarrow> False) id_names"

definition could_match_contract :: "row \<Rightarrow> string \<Rightarrow> string \<Rightarrow> string \<Rightarrow> bool" where
  "could_match_contract r symbol exchange product \<longleftrightarrow>
     list_ex (\<lambda>name. norm (row_get r name) = symbol) symbol_names
     \<and> row_text r [''exchange''] = exchange \<and> or_mis (row_text r [''product'']) = product"

subsection \<open>Evidence\<close>

definition order_ids :: "row \<Rightarrow> string list" where
  "order_ids r = remdups (filter (\<lambda>i. i \<noteq> []) (map (py_strip \<circ> py_str) (List.map_filter (cell r) id_names)))"

type_synonym id_index = "(string \<times> row list) list"

definition index_add :: "row \<Rightarrow> string \<Rightarrow> id_index \<Rightarrow> id_index" where
  "index_add r i ix = AList.update i ((case map_of ix i of None \<Rightarrow> [] | Some rs \<Rightarrow> rs) @ [r]) ix"

text \<open>What the first loop does with one order: skip it, refuse the evidence, or note an executable exit.\<close>

datatype order_verdict = Skip | Refuse | Executable

definition order_verdict :: "string \<Rightarrow> string \<Rightarrow> string \<Rightarrow> string \<Rightarrow> row \<Rightarrow> order_verdict" where
  "order_verdict symbol exchange product exit_action r =
     (if \<not> could_match_contract r symbol exchange product then Skip
      else if \<not> text_aliases_agree r symbol_names then Refuse
      else if (order_is_open r \<or> \<not> text_aliases_agree r status_names)
              \<and> (\<not> text_aliases_agree r action_names \<or> row_text r action_names \<notin> {''BUY'', ''SELL''})
      then Refuse
      else if \<not> list_ex (\<lambda>name. norm (row_get r name) = exit_action) action_names then Skip
      else if \<not> text_aliases_agree r action_names \<or> \<not> text_aliases_agree r status_names
              \<or> (order_ids r \<noteq> [] \<and> \<not> order_identity_aliases_agree r (order_id r))
      then Refuse
      else if order_is_open r then (if order_id r = [] then Refuse else Executable)
      else Skip)"

text \<open>
  The first loop: it fills \<open>by_id\<close> and \<open>executable_ids\<close>, or returns \<open>False\<close> early (\<open>None\<close>).
\<close>

fun scan_orders :: "string \<Rightarrow> string \<Rightarrow> string \<Rightarrow> string \<Rightarrow> row option list
    \<Rightarrow> id_index \<Rightarrow> string list \<Rightarrow> (id_index \<times> string list) option" where
  "scan_orders symbol exchange product exit_action [] ix ids = Some (ix, ids)"
| "scan_orders symbol exchange product exit_action (None # orders) ix ids =
     scan_orders symbol exchange product exit_action orders ix ids"
| "scan_orders symbol exchange product exit_action (Some r # orders) ix ids =
     (case order_verdict symbol exchange product exit_action r of
        Skip \<Rightarrow> scan_orders symbol exchange product exit_action orders (fold (index_add r) (order_ids r) ix) ids
      | Refuse \<Rightarrow> None
      | Executable \<Rightarrow> scan_orders symbol exchange product exit_action orders
            (fold (index_add r) (order_ids r) ix) (List.insert (order_id r) ids))"

definition copy_evidence :: "row \<Rightarrow> string \<times> string \<times> string \<times> string \<times> string \<times> int option \<times> int option" where
  "copy_evidence r =
     (row_text r symbol_names, row_text r [''exchange''], or_mis (row_text r [''product'']),
      row_text r action_names, row_text r status_names,
      quantity_aliases r [''quantity'', ''qty''] None, quantity_aliases r filled_names (Some 0))"

definition copy_valid :: "string \<Rightarrow> row \<Rightarrow> bool" where
  "copy_valid oid r \<longleftrightarrow>
     text_aliases_agree r symbol_names \<and> text_aliases_agree r action_names
     \<and> text_aliases_agree r status_names \<and> order_identity_aliases_agree r oid
     \<and> (case (quantity_aliases r [''quantity'', ''qty''] None, quantity_aliases r filled_names (Some 0)) of
          (Some tot, Some filled) \<Rightarrow> 0 \<le> tot \<and> 0 \<le> filled \<and> filled \<le> tot
        | _ \<Rightarrow> False)"

text \<open>The second loop: every copy of an executable exit is valid and agrees with the first.\<close>

definition copies_agree :: "id_index \<Rightarrow> string \<Rightarrow> bool" where
  "copies_agree ix oid =
     (case map_of ix oid of
        None \<Rightarrow> True
      | Some [] \<Rightarrow> True
      | Some (r # rs) \<Rightarrow> list_all (copy_valid oid) (r # rs) \<and> list_all (\<lambda>r'. copy_evidence r' = copy_evidence r) rs)"

definition matching_positions :: "row option list \<Rightarrow> string \<Rightarrow> string \<Rightarrow> string \<Rightarrow> row list" where
  "matching_positions positions symbol exchange product =
     filter (\<lambda>r. could_match_contract r symbol exchange product) (List.map_filter id positions)"

definition quantity_evidence_is_valid ::
  "row option list \<Rightarrow> row option list \<Rightarrow> string \<Rightarrow> string \<Rightarrow> string \<Rightarrow> string \<Rightarrow> bool" where
  "quantity_evidence_is_valid positions orders symbol exchange product exit_action =
     (let ps = matching_positions positions symbol exchange product
      in length ps \<le> 1
         \<and> list_all (\<lambda>r. text_aliases_agree r symbol_names \<and> text_aliases_agree r side_names
                        \<and> quantity_aliases r net_names None \<noteq> None) ps
         \<and> (case scan_orders symbol exchange product exit_action orders [] [] of
              None \<Rightarrow> False
            | Some (ix, ids) \<Rightarrow> list_all (copies_agree ix) ids))"

subsection \<open>Totals and the decision\<close>

fun pending_exit_quantity ::
  "row option list \<Rightarrow> string \<Rightarrow> string \<Rightarrow> string \<Rightarrow> string \<Rightarrow> string list \<Rightarrow> int \<times> string list" where
  "pending_exit_quantity [] symbol exchange product exit_action seen = (0, seen)"
| "pending_exit_quantity (None # orders) symbol exchange product exit_action seen =
     pending_exit_quantity orders symbol exchange product exit_action seen"
| "pending_exit_quantity (Some r # orders) symbol exchange product exit_action seen =
     (if \<not> same_contract r symbol exchange product \<or> row_text r action_names \<noteq> exit_action
         \<or> \<not> order_is_open r \<or> (order_id r \<noteq> [] \<and> order_id r \<in> set seen)
      then pending_exit_quantity orders symbol exchange product exit_action seen
      else
        (let seen' = (if order_id r \<noteq> [] then List.insert (order_id r) seen else seen);
             (tot, seen'') = pending_exit_quantity orders symbol exchange product exit_action seen'
         in (remaining_quantity r + tot, seen'')))"

fun contract_net :: "row option list \<Rightarrow> string \<Rightarrow> string \<Rightarrow> string \<Rightarrow> int option" where
  "contract_net [] symbol exchange product = None"
| "contract_net (None # rows) symbol exchange product = contract_net rows symbol exchange product"
| "contract_net (Some r # rows) symbol exchange product =
     (if same_contract r symbol exchange product then position_quantity r
      else contract_net rows symbol exchange product)"

definition empty_decision :: reduce_only_decision where
  "empty_decision = \<lparr>qualifies = False, open_quantity = 0, pending_exits = 0, cap = 0\<rparr>"

definition exit_side :: "int \<Rightarrow> string" where
  "exit_side net = (if 0 < net then ''SELL'' else ''BUY'')"

fun nonneg_int :: "pyval \<Rightarrow> int option" where
  "nonneg_int (PInt n) = (if n < 0 then None else Some n)"
| "nonneg_int _ = None"

fun order_quantity :: "pyval \<Rightarrow> int option" where
  "order_quantity (PInt n) = (if n < 1 then None else Some n)"
| "order_quantity _ = None"

definition all_orders :: "row option list \<Rightarrow> row option list option \<Rightarrow> bool \<Rightarrow> row option list" where
  "all_orders our_orders broker_orders live =
     (case broker_orders of Some bs \<Rightarrow> if live then our_orders @ bs else our_orders | None \<Rightarrow> our_orders)"

definition pending_total ::
  "row option list \<Rightarrow> row option list option \<Rightarrow> bool \<Rightarrow> string \<Rightarrow> string \<Rightarrow> string \<Rightarrow> string \<Rightarrow> int" where
  "pending_total our_orders broker_orders live symbol exchange product exit_action =
     (let (own, seen) = pending_exit_quantity our_orders symbol exchange product exit_action []
      in case broker_orders of
           Some bs \<Rightarrow>
             if live then own + fst (pending_exit_quantity bs symbol exchange product exit_action seen) else own
         | None \<Rightarrow> own)"

definition classify_reduce_only ::
  "string \<Rightarrow> string \<Rightarrow> string \<Rightarrow> string \<Rightarrow> pyval \<Rightarrow> row option list \<Rightarrow> row option list
   \<Rightarrow> row option list option \<Rightarrow> bool \<Rightarrow> pyval \<Rightarrow> reduce_only_decision" where
  "classify_reduce_only symbol exchange product action quantity positions our_orders broker_orders live extra_pending =
     (let symbol_n = norm (PStr symbol); exchange_n = norm (PStr exchange);
          product_n = or_mis (norm (PStr product)); action_n = norm (PStr action)
      in if action_n \<notin> {''BUY'', ''SELL''} then empty_decision
         else case (order_quantity quantity, nonneg_int extra_pending) of
           (Some q, Some extra) \<Rightarrow>
             if live \<and> broker_orders = None then empty_decision
             else if \<not> quantity_evidence_is_valid positions (all_orders our_orders broker_orders live)
                        symbol_n exchange_n product_n action_n then empty_decision
             else (case contract_net positions symbol_n exchange_n product_n of
                 None \<Rightarrow> empty_decision
               | Some net \<Rightarrow>
                   if net = 0 then empty_decision
                   else if action_n \<noteq> exit_side net then empty_decision
                   else
                     (let opened = \<bar>net\<bar>;
                          pending = pending_total our_orders broker_orders live
                             symbol_n exchange_n product_n (exit_side net) + (if 0 < extra then extra else 0);
                          room = opened - pending
                      in if room < 1 \<or> room < q
                         then \<lparr>qualifies = False, open_quantity = opened, pending_exits = pending, cap = max room 0\<rparr>
                         else \<lparr>qualifies = True, open_quantity = opened, pending_exits = pending, cap = room\<rparr>))
         | _ \<Rightarrow> empty_decision)"

definition own_exit_already_pending ::
  "string \<Rightarrow> string \<Rightarrow> string \<Rightarrow> string \<Rightarrow> row option list \<Rightarrow> row option list \<Rightarrow> int \<Rightarrow> bool" where
  "own_exit_already_pending symbol exchange product action positions our_orders extra_pending =
     (let symbol_n = norm (PStr symbol); exchange_n = norm (PStr exchange);
          product_n = or_mis (norm (PStr product)); action_n = norm (PStr action)
      in if action_n \<notin> {''BUY'', ''SELL''} then False
         else case contract_net positions symbol_n exchange_n product_n of
           None \<Rightarrow> False
         | Some net \<Rightarrow>
             if net = 0 \<or> action_n \<noteq> exit_side net then False
             else 0 < fst (pending_exit_quantity our_orders symbol_n exchange_n product_n (exit_side net) [])
                      + (if 0 < extra_pending then extra_pending else 0))"

definition contract_label :: "string \<Rightarrow> string" where
  "contract_label contract = (let t = py_strip contract in if t = [] then ''this contract'' else t)"

definition exit_already_pending_message :: "string \<Rightarrow> string" where
  "exit_already_pending_message contract =
     ''Not placed. An exit for '' @ contract_label contract
     @ '' is already pending. Wait for it to fill, or cancel it and try again.''"

definition exit_orders_unreadable_message :: "string \<Rightarrow> string" where
  "exit_orders_unreadable_message contract =
     ''Not placed. Broker orders for '' @ contract_label contract
     @ '' are unavailable. Reconcile them before another exit.''"

subsection \<open>Lemmas on totals\<close>

lemma remaining_quantity_nonneg [simp]: "0 \<le> remaining_quantity r"
  by (auto simp: remaining_quantity_def Let_def split: option.splits)

lemma pending_nonneg: "0 \<le> fst (pending_exit_quantity orders s x p a seen)"
  by (induction orders s x p a seen rule: pending_exit_quantity.induct)
    (auto simp: Let_def case_prod_beta)

lemma pending_append:
  "pending_exit_quantity (xs @ ys) s x p a seen =
     (let (t1, seen1) = pending_exit_quantity xs s x p a seen;
          (t2, seen2) = pending_exit_quantity ys s x p a seen1
      in (t1 + t2, seen2))"
  by (induction xs s x p a seen rule: pending_exit_quantity.induct)
    (auto simp: Let_def case_prod_beta)

text \<open>Rows that carry an identity and were all seen before add nothing.\<close>

definition relevant :: "string \<Rightarrow> string \<Rightarrow> string \<Rightarrow> string \<Rightarrow> row \<Rightarrow> bool" where
  "relevant s x p a r \<longleftrightarrow> same_contract r s x p \<and> row_text r action_names = a \<and> order_is_open r"

lemma pending_all_seen:
  assumes "\<And>r. Some r \<in> set orders \<Longrightarrow> relevant s x p a r \<Longrightarrow> order_id r \<noteq> [] \<and> order_id r \<in> set seen"
  shows "pending_exit_quantity orders s x p a seen = (0, seen)"
  using assms
  by (induction orders s x p a seen rule: pending_exit_quantity.induct) (auto simp: relevant_def)

lemma pending_collects_ids:
  assumes "Some r \<in> set orders" and "relevant s x p a r" and "order_id r \<noteq> []"
  shows "order_id r \<in> set (snd (pending_exit_quantity orders s x p a seen))"
proof -
  have mono: "set seen \<subseteq> set (snd (pending_exit_quantity orders s x p a seen))" for orders s x p a seen
    by (induction orders s x p a seen rule: pending_exit_quantity.induct) (auto simp: Let_def case_prod_beta)
  show ?thesis using assms
  proof (induction orders s x p a seen rule: pending_exit_quantity.induct)
    case (3 r' orders s x p a seen)
    show ?case
    proof (cases "r = r'")
      case True
      then show ?thesis
        using "3.prems" mono [of "List.insert (order_id r') seen" orders s x p a] mono [of seen orders s x p a]
        by (auto simp: relevant_def Let_def case_prod_beta)
    qed (use 3 in \<open>auto simp: Let_def case_prod_beta\<close>)
  qed auto
qed

lemma pending_total_append:
  "pending_total our (Some bs) True s x p a = fst (pending_exit_quantity (our @ bs) s x p a [])"
  by (simp add: pending_total_def pending_append Let_def case_prod_beta)

lemma pending_total_nonneg: "0 \<le> pending_total our bs live s x p a"
  using pending_nonneg [of our s x p a "[]"]
    pending_nonneg [of "the bs" s x p a "snd (pending_exit_quantity our s x p a [])"]
  by (auto simp: pending_total_def Let_def case_prod_beta split: option.splits)

lemma alias_values_exact:
  assumes "alias_values r names = Some vs"
  shows "vs = map (the \<circ> whole) (List.map_filter (map_of r) names)
    \<and> (\<forall>name \<in> set names. \<forall>raw. map_of r name = Some raw \<longrightarrow> (\<exists>n. whole raw = Some n \<and> exact_cell raw n))"
  using assms
proof (induction names arbitrary: vs)
  case Nil
  then show ?case by (simp add: List.map_filter_def)
next
  case (Cons name names)
  show ?case
  proof (cases "map_of r name")
    case None
    with Cons show ?thesis by (auto simp: List.map_filter_def)
  next
    case (Some raw)
    with Cons.prems obtain n ws where "whole raw = Some n" "exact_cell raw n"
        "alias_values r names = Some ws" "vs = n # ws"
      by (auto split: option.splits if_splits)
    with Some Cons.IH show ?thesis by (auto simp: List.map_filter_def)
  qed
qed

text \<open>What a qualifying decision established.\<close>

lemma qualifies_facts:
  assumes "classify_reduce_only symbol exchange product action quantity positions our broker live extra = d"
    and "qualifies d"
  shows "\<exists>q net e. quantity = PInt q \<and> extra = PInt e \<and> 0 \<le> e \<and> 1 \<le> q
    \<and> contract_net positions (norm (PStr symbol)) (norm (PStr exchange)) (or_mis (norm (PStr product))) = Some net
    \<and> net \<noteq> 0 \<and> norm (PStr action) = exit_side net
    \<and> open_quantity d = \<bar>net\<bar>
    \<and> pending_exits d = pending_total our broker live (norm (PStr symbol)) (norm (PStr exchange))
        (or_mis (norm (PStr product))) (exit_side net) + e
    \<and> 0 \<le> pending_exits d \<and> q + pending_exits d \<le> \<bar>net\<bar> \<and> cap d = \<bar>net\<bar> - pending_exits d
    \<and> (live \<longrightarrow> broker \<noteq> None)"
proof -
  let ?s = "norm (PStr symbol)" and ?x = "norm (PStr exchange)" and ?p = "or_mis (norm (PStr product))"
  from assms obtain q where q: "quantity = PInt q" "1 \<le> q"
    by (cases quantity) (auto simp: classify_reduce_only_def empty_decision_def Let_def split: if_splits)
  from assms q obtain e where e: "extra = PInt e" "0 \<le> e"
    by (cases extra) (auto simp: classify_reduce_only_def empty_decision_def Let_def split: if_splits)
  from assms q e obtain net where net: "contract_net positions ?s ?x ?p = Some net"
    by (cases "contract_net positions ?s ?x ?p")
      (auto simp: classify_reduce_only_def empty_decision_def Let_def split: if_splits)
  have "0 \<le> pending_total our broker live ?s ?x ?p (exit_side net)" by (rule pending_total_nonneg)
  with assms q e net show ?thesis
    by (auto simp: classify_reduce_only_def empty_decision_def Let_def split: if_splits)
qed

subsection \<open>Properties of the decision\<close>

text \<open>
  C3. No over-exit: a place that qualifies as reduce-only is on the opposite side of a
  nonzero position of the contract, and its quantity together with every pending exit
  counted (own orders, broker orders, in-flight holds) is at most the open quantity, so
  filling all of them cannot flip the position. A live decision had a readable broker book.
\<close>

theorem reduce_only_never_over_exits:
  assumes "classify_reduce_only symbol exchange product action quantity positions our broker live extra = d"
    and "qualifies d"
  shows "\<exists>q net e. quantity = PInt q \<and> extra = PInt e \<and> 0 \<le> e \<and> 1 \<le> q
    \<and> contract_net positions (norm (PStr symbol)) (norm (PStr exchange)) (or_mis (norm (PStr product))) = Some net
    \<and> net \<noteq> 0 \<and> norm (PStr action) = exit_side net
    \<and> open_quantity d = \<bar>net\<bar>
    \<and> pending_exits d = pending_total our broker live (norm (PStr symbol)) (norm (PStr exchange))
        (or_mis (norm (PStr product))) (exit_side net) + e
    \<and> 0 \<le> pending_exits d \<and> q + pending_exits d \<le> \<bar>net\<bar> \<and> cap d = \<bar>net\<bar> - pending_exits d
    \<and> (live \<longrightarrow> broker \<noteq> None)"
  using assms by (rule qualifies_facts)

definition example_position :: row where
  "example_position = [(''symbol'', PStr ''NIFTY25JUNFUT''), (''exchange'', PStr ''NFO''), (''net_qty'', PInt 130)]"

definition example_exit :: row where
  "example_exit = [(''symbol'', PStr ''NIFTY25JUNFUT''), (''exchange'', PStr ''NFO''), (''action'', PStr ''sell''),
     (''status'', PStr ''OPEN''), (''order_id'', PStr ''77''), (''quantity'', PStr ''65'')]"

theorem reduce_only_never_over_exits_witness:
  "let d = classify_reduce_only ''nifty25junfut'' ''NFO'' '''' ''SELL'' (PInt 65) [Some example_position]
       [Some example_exit] (Some [Some example_exit]) True (PInt 0)
   in qualifies d \<and> 65 + pending_exits d \<le> 130 \<and> pending_exits d = 65"
proof -
  let ?d = "classify_reduce_only ''nifty25junfut'' ''NFO'' '''' ''SELL'' (PInt 65) [Some example_position]
       [Some example_exit] (Some [Some example_exit]) True (PInt 0)"
  have d: "?d = \<lparr>qualifies = True, open_quantity = 130, pending_exits = 65, cap = 65\<rparr>" by code_simp
  have "qualifies ?d" by (simp add: d)
  from reduce_only_never_over_exits [OF refl this] d show ?thesis by (auto simp: Let_def)
qed

text \<open>
  A broker book that repeats our own identified exits adds nothing to the pending
  quantity: each order id is counted once across both books.
\<close>

theorem pending_total_counts_ids_once:
  assumes "\<And>r. Some r \<in> set bs \<Longrightarrow> relevant s x p a r \<Longrightarrow>
      order_id r \<noteq> [] \<and> (\<exists>r'. Some r' \<in> set our \<and> relevant s x p a r' \<and> order_id r' = order_id r)"
  shows "pending_total our (Some bs) True s x p a = pending_total our None True s x p a"
proof -
  have "pending_exit_quantity bs s x p a (snd (pending_exit_quantity our s x p a []))
      = (0, snd (pending_exit_quantity our s x p a []))"
    by (rule pending_all_seen) (metis assms pending_collects_ids)
  then show ?thesis by (simp add: pending_total_def Let_def case_prod_beta)
qed

theorem pending_total_counts_ids_once_witness:
  "pending_total [Some example_exit] (Some [Some example_exit]) True ''NIFTY25JUNFUT'' ''NFO'' ''MIS'' ''SELL''
   = pending_total [Some example_exit] None True ''NIFTY25JUNFUT'' ''NFO'' ''MIS'' ''SELL''"
proof (rule pending_total_counts_ids_once)
  fix r
  assume "Some r \<in> set [Some example_exit]" "relevant ''NIFTY25JUNFUT'' ''NFO'' ''MIS'' ''SELL'' r"
  moreover have "order_id example_exit \<noteq> []" by code_simp
  ultimately show "order_id r \<noteq> [] \<and> (\<exists>r'. Some r' \<in> set [Some example_exit]
      \<and> relevant ''NIFTY25JUNFUT'' ''NFO'' ''MIS'' ''SELL'' r' \<and> order_id r' = order_id r)"
    by auto
qed

text \<open>
  More evidence never widens the cap: adding orders to either book can only raise the
  pending quantity that is subtracted from the open position.
\<close>

theorem pending_total_monotone:
  "pending_total our (Some bs) True s x p a \<le> pending_total our (Some (bs @ extra_rows)) True s x p a
   \<and> pending_total our None True s x p a \<le> pending_total our (Some bs) True s x p a"
  using pending_nonneg [of extra_rows s x p a] pending_nonneg [of bs s x p a]
  by (simp add: pending_total_def pending_append Let_def case_prod_beta)

text \<open>
  Quantity evidence is exact: when the aliases of a quantity are accepted, every alias
  that is present reads the same whole number, and a textual one has exactly that decimal
  value, so neither a fraction nor the 53-bit rounding of \<open>float\<close> can change a quantity.
\<close>

theorem quantity_aliases_exact:
  assumes "quantity_aliases r names dflt = Some n"
  shows "(\<forall>name \<in> set names. \<forall>raw. map_of r name = Some raw \<longrightarrow>
        whole raw = Some n \<and> (\<forall>s. raw = PStr s \<longrightarrow> parse_number (py_strip s) = Some (of_int n)))
    \<and> ((\<forall>name \<in> set names. map_of r name = None) \<longrightarrow> dflt = Some n)"
proof -
  from assms obtain vs where vs: "alias_values r names = Some vs"
    by (auto simp: quantity_aliases_def split: option.splits)
  note exact = alias_values_exact [OF vs]
  have all_n: "\<forall>v \<in> set vs. v = n"
    using assms vs by (auto simp: quantity_aliases_def list_ex_iff split: list.splits if_splits)
  have none: "vs = [] \<Longrightarrow> dflt = Some n"
    using assms vs by (simp add: quantity_aliases_def)
  have "whole raw = Some n \<and> exact_cell raw n" if "name \<in> set names" "map_of r name = Some raw" for name raw
  proof -
    from exact that obtain m where m: "whole raw = Some m" "exact_cell raw m" by blast
    have "raw \<in> set (List.map_filter (map_of r) names)"
      using that by (force simp: List.map_filter_def)
    then have "m \<in> set vs" using exact m by force
    with all_n m show ?thesis by auto
  qed
  moreover have "(\<forall>name \<in> set names. map_of r name = None) \<Longrightarrow> vs = []"
    using exact by (auto simp: List.map_filter_def filter_empty_conv)
  ultimately show ?thesis using none by force
qed

theorem quantity_aliases_exact_witness:
  "quantity_aliases [(''quantity'', PStr ''65.0''), (''qty'', PInt 65)] [''quantity'', ''qty''] None = Some 65
   \<and> parse_number (py_strip ''65.0'') = Some 65
   \<and> quantity_aliases [(''quantity'', PStr ''9007199254740993'')] [''quantity''] None = None
   \<and> whole (PStr ''9007199254740993'') = Some 9007199254740992"
proof -
  let ?r = "[(''quantity'', PStr ''65.0''), (''qty'', PInt 65)]"
  have q: "quantity_aliases ?r [''quantity'', ''qty''] None = Some 65" by code_simp
  have "quantity_aliases [(''quantity'', PStr ''9007199254740993'')] [''quantity''] None = None"
    "whole (PStr ''9007199254740993'') = Some 9007199254740992" by code_simp+
  with q quantity_aliases_exact [OF q] show ?thesis by simp
qed

end
