(* ===== verification/Exit_Reservations.thy ===== *)
theory Exit_Reservations
  imports Reduce_Only Qty_Freeze
begin

text \<open>
  \<open>flinttrade_engine/reduce_only.py\<close>, second part: the process-local holds that a live
  reducing place keeps against the open quantity until its order is visible or finished;
  and the live place path of \<open>flinttrade_core/order_routes.py\<close> that takes and settles them.

  The module-level dictionaries \<open>_reserved\<close> and \<open>_bound_exits\<close> are the fields of
  \<open>exit_store\<close>. The contract lock serialises the decisions on one contract, so each
  operation is one step on the store. Places between their reservation and their outcome
  are the \<open>holds\<close> of the step relation at the end.
\<close>

subsection \<open>The store\<close>

type_synonym contract_key = "string \<times> string \<times> string \<times> string \<times> string \<times> string"

definition contract_key ::
  "string \<Rightarrow> string \<Rightarrow> pyval \<Rightarrow> string \<Rightarrow> string \<Rightarrow> string \<Rightarrow> identity_error + contract_key" where
  "contract_key mode adapter account symbol exchange product =
     bind_res (make_selector (PStr (py_lower (py_strip adapter))) account) (\<lambda>selector.
       Inr (norm (PStr mode), norm (PStr (adapter_id selector)), account_id selector,
            norm (PStr symbol), norm (PStr exchange), or_mis (norm (PStr product))))"

record bound_exit =
  be_order_id :: string
  be_quantity :: int
  be_position_net :: int
  covered :: bool

record exit_store =
  reserved :: "(contract_key \<times> int) list"
  bound_exits :: "(contract_key \<times> bound_exit list) list"

definition empty_store :: exit_store where
  "empty_store = \<lparr>reserved = [], bound_exits = []\<rparr>"

definition reserved_exit :: "exit_store \<Rightarrow> contract_key \<Rightarrow> int" where
  "reserved_exit s key = (case map_of (reserved s) key of None \<Rightarrow> 0 | Some n \<Rightarrow> n)"

definition bound_of :: "exit_store \<Rightarrow> contract_key \<Rightarrow> bound_exit list" where
  "bound_of s key = (case map_of (bound_exits s) key of None \<Rightarrow> [] | Some bs \<Rightarrow> bs)"

definition reserve_exit :: "contract_key \<Rightarrow> int \<Rightarrow> exit_store \<Rightarrow> exit_store" where
  "reserve_exit key quantity s =
     (if quantity < 1 then s
      else s\<lparr>reserved := AList.update key (reserved_exit s key + quantity) (reserved s)\<rparr>)"

definition release_exit :: "contract_key \<Rightarrow> int \<Rightarrow> exit_store \<Rightarrow> exit_store" where
  "release_exit key quantity s =
     (if quantity < 1 then s
      else (let left = reserved_exit s key - quantity
            in if left \<le> 0 then s\<lparr>reserved := AList.delete key (reserved s)\<rparr>
               else s\<lparr>reserved := AList.update key left (reserved s)\<rparr>))"

definition note_reserved_order :: "contract_key \<Rightarrow> string \<Rightarrow> int \<Rightarrow> int \<Rightarrow> exit_store \<Rightarrow> exit_store" where
  "note_reserved_order key oid quantity position_net s =
     (if quantity < 1 then s
      else s\<lparr>bound_exits := AList.update key
               (bound_of s key @ [\<lparr>be_order_id = py_strip oid, be_quantity = quantity,
                                    be_position_net = position_net, covered = False\<rparr>])
               (bound_exits s)\<rparr>)"

subsection \<open>Observing an acknowledged exit\<close>

definition CANCEL_STATES :: "string list" where
  "CANCEL_STATES = [''CANCEL_PENDING'', ''CANCEL_REQUESTED'', ''CANCEL PENDING'', ''PENDING_CANCEL'']"

definition FULL_STATES :: "string list" where
  "FULL_STATES = [''COMPLETE'', ''COMPLETED'', ''FILLED'', ''TRADED'']"

definition present :: "row \<Rightarrow> string list \<Rightarrow> pyval list" where
  "present r names = List.map_filter (map_of r) names"

definition names_order :: "string \<Rightarrow> row \<Rightarrow> bool" where
  "names_order oid r = list_ex (\<lambda>name. map_of r name = Some (PStr oid)) id_names"

text \<open>The guards of the loop body: \<open>None\<close> is the early \<open>return None\<close>.\<close>

definition row_observation :: "contract_key \<Rightarrow> bound_exit \<Rightarrow> row \<Rightarrow> (string \<times> int \<times> int) option" where
  "row_observation key item r =
     (case key of (mode, adapter, account, symbol, exchange, product) \<Rightarrow>
        if \<not> same_contract r symbol exchange product
           \<or> row_text r action_names \<noteq> exit_side (be_position_net item)
           \<or> \<not> list_all (text_aliases_agree r) [symbol_names, action_names, status_names]
           \<or> \<not> list_all (\<lambda>v. v = PStr (be_order_id item)) (present r id_names)
           \<or> list_ex (\<lambda>v. v \<noteq> PStr account) (present r [''account_id'', ''accountId''])
           \<or> list_ex (\<lambda>v. norm v \<noteq> adapter) (present r [''broker'', ''broker_id'', ''adapter_id''])
        then None
        else
          (case (quantity_aliases r [''quantity'', ''qty''] None, quantity_aliases r filled_names (Some 0)) of
             (Some tot, Some filled) \<Rightarrow>
               (let status = row_text r status_names
                in if tot \<noteq> be_quantity item \<or> filled < 0 \<or> tot < filled then None
                   else if status \<in> set FULL_STATES \<and> present r filled_names \<noteq> [] \<and> filled \<noteq> tot then None
                   else if status \<notin> set (EXIT_OPEN @ EXIT_CLOSED @ CANCEL_STATES) then None
                   else Some (status, tot, filled))
           | _ \<Rightarrow> None))"

fun observe_rows :: "contract_key \<Rightarrow> bound_exit \<Rightarrow> row list \<Rightarrow> (string \<times> int \<times> int) option
    \<Rightarrow> (string \<times> int \<times> int) option" where
  "observe_rows key item [] observed = observed"
| "observe_rows key item (r # rs) observed =
     (case row_observation key item r of
        None \<Rightarrow> None
      | Some current \<Rightarrow>
          if observed \<noteq> None \<and> Some current \<noteq> observed then None
          else observe_rows key item rs (Some current))"

definition bound_exit_observation :: "contract_key \<Rightarrow> bound_exit \<Rightarrow> row list \<Rightarrow> string option" where
  "bound_exit_observation key item orders =
     (if be_order_id item = [] then None
      else map_option fst (observe_rows key item (filter (names_order (be_order_id item)) orders) None))"

subsection \<open>Reconciling the holds of a contract\<close>

definition item_status :: "contract_key \<Rightarrow> row list option \<Rightarrow> bound_exit \<Rightarrow> string option" where
  "item_status key orders item =
     (case orders of None \<Rightarrow> None | Some rows \<Rightarrow> bound_exit_observation key item rows)"

definition is_closed :: "string option \<Rightarrow> bool" where
  "is_closed status = (case status of None \<Rightarrow> False | Some t \<Rightarrow> t \<in> set EXIT_CLOSED)"

text \<open>The loop over the bound exits: the store and the exits that are kept.\<close>

fun reconcile_items :: "contract_key \<Rightarrow> row list option \<Rightarrow> bound_exit list \<Rightarrow> exit_store
    \<Rightarrow> exit_store \<times> bound_exit list" where
  "reconcile_items key orders [] s = (s, [])"
| "reconcile_items key orders (item # items) s =
     (let status = item_status key orders item
      in if is_closed status
         then reconcile_items key orders items
                (if covered item then s else release_exit key (be_quantity item) s)
         else
           (let now = (status \<noteq> None);
                s' = (if now \<and> \<not> covered item then release_exit key (be_quantity item) s
                      else if \<not> now \<and> covered item then reserve_exit key (be_quantity item) s
                      else s);
                (s'', kept) = reconcile_items key orders items s'
            in (s'', item\<lparr>covered := now\<rparr> # kept)))"

definition reconcile_reserved_exit :: "contract_key \<Rightarrow> row list option \<Rightarrow> exit_store \<Rightarrow> exit_store" where
  "reconcile_reserved_exit key orders s =
     (let (s', kept) = reconcile_items key orders (bound_of s key) s
      in if kept \<noteq> [] then s'\<lparr>bound_exits := AList.update key kept (bound_exits s')\<rparr>
         else s'\<lparr>bound_exits := AList.delete key (bound_exits s')\<rparr>)"

definition cover_reserved_exit :: "contract_key \<Rightarrow> row list \<Rightarrow> exit_store \<Rightarrow> exit_store" where
  "cover_reserved_exit key orders s = reconcile_reserved_exit key (Some orders) s"

definition reset_reduce_only :: "exit_store \<Rightarrow> exit_store" where
  "reset_reduce_only s = empty_store"

subsection \<open>The live place path\<close>

record refusal =
  http_status :: int
  refusal_code :: string
  refusal_message :: string

definition body_text :: "row \<Rightarrow> string \<Rightarrow> string \<Rightarrow> string" where
  "body_text body name dflt = (let v = row_get body name in if truthy v then py_str v else dflt)"

definition quantity_from_body :: "row \<Rightarrow> int" where
  "quantity_from_body body =
     (case row_get body ''quantity'' of
        PInt n \<Rightarrow> n
      | PFloat f s \<Rightarrow> if is_integer f then int_of_float f else 0
      | PStr s \<Rightarrow> (case parse_int (py_strip s) of Some n \<Rightarrow> n | None \<Rightarrow> 0)
      | _ \<Rightarrow> 0)"

definition all_digits :: "string \<Rightarrow> bool" where
  "all_digits s \<longleftrightarrow> s \<noteq> [] \<and> list_all is_digit s"

definition optional_positive_int :: "pyval \<Rightarrow> int option" where
  "optional_positive_int raw =
     (case raw of
        PInt n \<Rightarrow> if 0 < n then Some n else None
      | PStr s \<Rightarrow>
          (let t = py_strip s
           in if all_digits t then (if 0 < int_of_digits t then Some (int_of_digits t) else None) else None)
      | _ \<Rightarrow> None)"

definition opt_cell :: "int option \<Rightarrow> pyval" where
  "opt_cell v = (case v of None \<Rightarrow> PNone | Some n \<Rightarrow> PInt n)"

definition quantity_admission_response :: "row \<Rightarrow> refusal option" where
  "quantity_admission_response body =
     (let quantity = quantity_from_body body
      in if quantity < 1 then None
         else case quantity_admission_refusal (body_text body ''symbol'' []) (PInt quantity)
                (opt_cell (optional_positive_int (row_get body ''lot_size'')))
                (opt_cell (optional_positive_int (row_get body ''freeze_qty''))) of
           None \<Rightarrow> None
         | Some message \<Rightarrow>
             Some \<lparr>http_status = 400, refusal_code = ''quantity_admission'', refusal_message = message\<rparr>)"

definition contract_label_of :: "row \<Rightarrow> string" where
  "contract_label_of body = (let t = py_strip (body_text body ''symbol'' []) in if t = [] then ''this contract'' else t)"

definition exit_pending_response :: "string \<Rightarrow> refusal" where
  "exit_pending_response contract =
     \<lparr>http_status = 409, refusal_code = ''exit_pending'',
      refusal_message = exit_already_pending_message contract\<rparr>"

definition exit_orders_unreadable_response :: "string \<Rightarrow> refusal" where
  "exit_orders_unreadable_response contract =
     \<lparr>http_status = 409, refusal_code = ''exit_orders_unreadable'',
      refusal_message = exit_orders_unreadable_message contract\<rparr>"

text \<open>
  \<open>_admit_place\<close> on the normalised books. \<open>laya\<close> is the answer of the Laya gate for an
  opening place (\<open>_laya_place_response\<close>), a component of its own.
\<close>

definition admit_place :: "(row \<Rightarrow> refusal option) \<Rightarrow> row \<Rightarrow> bool \<Rightarrow> row list \<Rightarrow> row list
    \<Rightarrow> row list option \<Rightarrow> int \<Rightarrow> refusal option \<times> bool" where
  "admit_place laya body live positions our_orders broker_orders extra_pending =
     (case quantity_admission_response body of
        Some refused \<Rightarrow> (Some refused, False)
      | None \<Rightarrow>
          if qualifies (classify_reduce_only (body_text body ''symbol'' []) (body_text body ''exchange'' [])
               (body_text body ''product'' ''MIS'') (body_text body ''action'' [])
               (PInt (quantity_from_body body)) (map Some positions) (map Some our_orders)
               (map_option (map Some) broker_orders) live (PInt extra_pending))
          then (None, True)
          else (laya body, False))"

text \<open>\<open>Decimal(str(raw))\<close> of a finite whole number: blanks around and underscores are dropped.\<close>

definition decimal_whole :: "string \<Rightarrow> int option" where
  "decimal_whole s =
     (case parse_number (filter (\<lambda>c. c \<noteq> CHR ''_'') (py_strip s)) of
        None \<Rightarrow> None
      | Some x \<Rightarrow> if snd (quotient_of x) = 1 then Some (fst (quotient_of x)) else None)"

definition exit_cell_quantity :: "pyval \<Rightarrow> int option" where
  "exit_cell_quantity v = (case v of PBool b \<Rightarrow> None | PNone \<Rightarrow> None | _ \<Rightarrow> decimal_whole (py_str v))"

fun exit_quantities :: "pyval list \<Rightarrow> int list option" where
  "exit_quantities [] = Some []"
| "exit_quantities (v # vs) =
     (case exit_cell_quantity v of None \<Rightarrow> None | Some n \<Rightarrow> map_option (Cons n) (exit_quantities vs))"

text \<open>\<open>None\<close> is the \<open>ValueError\<close>.\<close>

definition exit_position_quantity :: "row \<Rightarrow> int option" where
  "exit_position_quantity r =
     (case exit_quantities (present r net_names) of
        None \<Rightarrow> None
      | Some [] \<Rightarrow> None
      | Some (q # qs) \<Rightarrow>
          if list_ex (\<lambda>w. w \<noteq> q) qs then None
          else if \<not> list_all (\<lambda>names. length (remdups (map (py_upper \<circ> py_strip \<circ> py_str)
                      (List.map_filter (cell r) names))) \<le> 1) [symbol_names, side_names] then None
          else
            (let side = (case first_cell r side_names of None \<Rightarrow> [] | Some v \<Rightarrow> py_upper (py_strip (py_str v)))
             in if side = ''SELL'' \<and> 0 < q
                   \<and> map_of r ''net_qty'' = None \<and> map_of r ''netQty'' = None \<and> map_of r ''net_quantity'' = None
                then Some (- q) else Some q))"

definition body_matches :: "row \<Rightarrow> row \<Rightarrow> bool" where
  "body_matches body r \<longleftrightarrow>
     list_ex (\<lambda>name. norm (row_get r name) = norm (row_get body ''symbol'')) symbol_names
     \<and> norm (row_get r ''exchange'') = norm (row_get body ''exchange'')
     \<and> or_mis (norm (row_get r ''product'')) = or_mis (norm (row_get body ''product''))"

fun position_net :: "row list \<Rightarrow> row \<Rightarrow> int option" where
  "position_net [] body = Some 0"
| "position_net (r # rows) body = (if body_matches body r then exit_position_quantity r else position_net rows body)"

type_synonym hold = "contract_key \<times> int \<times> int"

definition own_exit_pending :: "row \<Rightarrow> row list \<Rightarrow> row list \<Rightarrow> int \<Rightarrow> bool" where
  "own_exit_pending body positions our_orders extra_pending =
     own_exit_already_pending (body_text body ''symbol'' []) (body_text body ''exchange'' [])
       (body_text body ''product'' ''MIS'') (body_text body ''action'' [])
       (map Some positions) (map Some our_orders) extra_pending"

text \<open>
  \<open>_prepare_live_reduce_only\<close>, given what \<open>_live_exit_books\<close> returned. The result is the
  blocking response, if any, and the reservation, if one was taken.
\<close>

definition prepare_live_reduce_only ::
  "(row \<Rightarrow> refusal option) \<Rightarrow> row list option \<times> row list \<times> row list option \<Rightarrow> row \<Rightarrow> string \<Rightarrow> pyval
   \<Rightarrow> exit_store \<Rightarrow> (exit_store, identity_error, refusal option \<times> hold option) outcome" where
  "prepare_live_reduce_only laya books body adapter account s =
     (case contract_key ''live'' adapter account (body_text body ''symbol'' []) (body_text body ''exchange'' [])
             (body_text body ''product'' ''MIS'') of
        Inl e \<Rightarrow> (s, Inl e)
      | Inr key \<Rightarrow>
          (case books of
             (None, our_orders, broker_orders) \<Rightarrow> (s, Inr (laya body, None))
           | (Some positions, our_orders, broker_orders) \<Rightarrow>
               (let net = position_net positions body;
                    s1 = (if net \<noteq> None then reconcile_reserved_exit key broker_orders s else s)
                in if own_exit_pending body positions our_orders (reserved_exit s1 key)
                   then (s1, Inr (Some (if broker_orders = None
                                        then exit_orders_unreadable_response (contract_label_of body)
                                        else exit_pending_response (contract_label_of body)), None))
                   else
                     (case admit_place laya body True positions our_orders broker_orders (reserved_exit s1 key) of
                        (block, qualified) \<Rightarrow>
                          (case net of
                             Some n \<Rightarrow>
                               if qualified
                               then (let quantity = quantity_from_body body
                                     in (reserve_exit key quantity s1, Inr (None, Some (key, quantity, n))))
                               else (s1, Inr (block, None))
                           | None \<Rightarrow> (s1, Inr (block, None)))))))"

record live_write_progress =
  started :: bool
  invoked :: bool
  failed_before_invoke :: bool

definition outcome_unknown :: "live_write_progress \<Rightarrow> bool" where
  "outcome_unknown p \<longleftrightarrow> started p \<and> \<not> failed_before_invoke p"

text \<open>The \<open>finally\<close> block of the live dispatch: release a hold only when nothing was sent.\<close>

definition settle_hold :: "hold \<Rightarrow> bool \<Rightarrow> live_write_progress \<Rightarrow> string \<Rightarrow> exit_store \<Rightarrow> exit_store" where
  "settle_hold h admitted_place progress placed_order_id s =
     (case h of (key, quantity, net) \<Rightarrow>
        if \<not> admitted_place \<and> \<not> outcome_unknown progress then release_exit key quantity s
        else note_reserved_order key (if admitted_place then placed_order_id else []) quantity net s)"

subsection \<open>Runs of the place path\<close>

text \<open>
  The store together with the holds of the places whose outcome is not known yet, in any
  interleaving: a place prepares under the contract lock, and settles once, later.
\<close>

inductive place_step :: "(row \<Rightarrow> refusal option) \<Rightarrow> exit_store \<times> hold list \<Rightarrow> exit_store \<times> hold list \<Rightarrow> bool"
  for laya where
  prepare_held: "prepare_live_reduce_only laya books body adapter account s = (s', Inr (block, Some h))
    \<Longrightarrow> place_step laya (s, holds) (s', h # holds)"
| prepare_plain: "prepare_live_reduce_only laya books body adapter account s = (s', Inr (block, None))
    \<Longrightarrow> place_step laya (s, holds) (s', holds)"
| prepare_raises: "prepare_live_reduce_only laya books body adapter account s = (s', Inl e)
    \<Longrightarrow> place_step laya (s, holds) (s', holds)"
| settle: "place_step laya (s, before @ h # after) (settle_hold h admitted_place progress oid s, before @ after)"

inductive_cases place_stepE: "place_step laya st st'"

definition held :: "hold list \<Rightarrow> contract_key \<Rightarrow> int" where
  "held holds key = (\<Sum>(k, q, net) \<leftarrow> holds. if k = key then q else 0)"

definition uncovered :: "bound_exit list \<Rightarrow> int" where
  "uncovered items = (\<Sum>item \<leftarrow> items. if covered item then 0 else be_quantity item)"

definition positive_items :: "bound_exit list \<Rightarrow> bool" where
  "positive_items items = list_all (\<lambda>item. 1 \<le> be_quantity item) items"

definition balanced_at :: "exit_store \<Rightarrow> hold list \<Rightarrow> contract_key \<Rightarrow> bool" where
  "balanced_at s holds key \<longleftrightarrow>
     reserved_exit s key = held holds key + uncovered (bound_of s key) \<and> positive_items (bound_of s key)"

definition holds_balance :: "exit_store \<times> hold list \<Rightarrow> bool" where
  "holds_balance st \<longleftrightarrow>
     (\<forall>key. balanced_at (fst st) (snd st) key) \<and> list_all (\<lambda>(k, q, net). 1 \<le> q) (snd st)"

lemma holds_balanceI:
  "(\<And>key. balanced_at s holds key) \<Longrightarrow> list_all (\<lambda>(k, q, net). 1 \<le> q) holds \<Longrightarrow> holds_balance (s, holds)"
  by (simp add: holds_balance_def)

lemma holds_balanceD:
  assumes "holds_balance (s, holds)"
  shows "balanced_at s holds key" and "list_all (\<lambda>(k, q, net). 1 \<le> q) holds"
  using assms by (simp_all add: holds_balance_def del: split_paired_All)

lemma held_simps [simp]:
  "held [] key = 0"
  "held ((k, q, net) # holds) key = (if k = key then q else 0) + held holds key"
  "held (xs @ ys) key = held xs key + held ys key"
  by (simp_all add: held_def)

lemma held_nonneg: "list_all (\<lambda>(k, q, net). 1 \<le> q) holds \<Longrightarrow> 0 \<le> held holds key"
  by (induction holds) auto

lemma uncovered_simps [simp]:
  "uncovered [] = 0"
  "uncovered (item # items) = (if covered item then 0 else be_quantity item) + uncovered items"
  "uncovered (xs @ ys) = uncovered xs + uncovered ys"
  by (simp_all add: uncovered_def)

lemma positive_items_simps [simp]:
  "positive_items []"
  "positive_items (item # items) \<longleftrightarrow> 1 \<le> be_quantity item \<and> positive_items items"
  "positive_items (xs @ ys) \<longleftrightarrow> positive_items xs \<and> positive_items ys"
  by (simp_all add: positive_items_def)

lemma uncovered_nonneg: "positive_items items \<Longrightarrow> 0 \<le> uncovered items"
  by (induction items) auto

lemma reserved_exit_reserve:
  "1 \<le> q \<Longrightarrow> reserved_exit (reserve_exit key q s) k = reserved_exit s k + (if k = key then q else 0)"
  by (cases "k = key") (simp_all add: reserve_exit_def reserved_exit_def)

lemma reserved_exit_release:
  assumes "1 \<le> q" and "q \<le> reserved_exit s key"
  shows "reserved_exit (release_exit key q s) k = reserved_exit s k - (if k = key then q else 0)"
proof (cases "reserved_exit s key - q \<le> 0")
  case True
  with assms have "reserved_exit s key = q" by simp
  with assms show ?thesis
    by (cases "k = key") (simp_all add: release_exit_def reserved_exit_def)
next
  case False
  with assms show ?thesis
    by (cases "k = key") (simp_all add: release_exit_def reserved_exit_def Let_def)
qed

lemma bound_exits_frame [simp]:
  "bound_exits (reserve_exit key q s) = bound_exits s"
  "bound_exits (release_exit key q s) = bound_exits s"
  by (simp_all add: reserve_exit_def release_exit_def Let_def)

lemma bound_of_frame [simp]:
  "bound_of (reserve_exit key q s) k = bound_of s k"
  "bound_of (release_exit key q s) k = bound_of s k"
  by (simp_all add: bound_of_def)

lemma reserved_exit_bound [simp]: "reserved_exit (s\<lparr>bound_exits := x\<rparr>) k = reserved_exit s k"
  by (simp add: reserved_exit_def)

text \<open>Reconciliation moves exactly the quantity that changes between hold and book.\<close>

lemma reconcile_items_balance:
  assumes "reconcile_items key orders items s = (s', kept)"
    and "positive_items items" and "uncovered items \<le> reserved_exit s key"
  shows "reserved_exit s' k = reserved_exit s k + (if k = key then uncovered kept - uncovered items else 0)
    \<and> bound_exits s' = bound_exits s \<and> positive_items kept"
  using assms
proof (induction items arbitrary: s s' kept)
  case Nil
  then show ?case by simp
next
  case (Cons item items)
  note q = Cons.prems(2) [simplified, THEN conjunct1] and pos = Cons.prems(2) [simplified, THEN conjunct2]
  have unc: "0 \<le> uncovered items" using pos by (rule uncovered_nonneg)
  let ?now = "item_status key orders item \<noteq> None"
  define s1 where "s1 = (if is_closed (item_status key orders item) \<or> ?now
      then (if covered item then s else release_exit key (be_quantity item) s)
      else (if covered item then reserve_exit key (be_quantity item) s else s))"
  define now where "now \<longleftrightarrow> is_closed (item_status key orders item) \<or> ?now"
  have closed_now: "is_closed (item_status key orders item) \<Longrightarrow> ?now"
    by (cases "item_status key orders item") (simp_all add: is_closed_def)
  have s1: "reserved_exit s1 k = reserved_exit s k
      + (if k = key then (if now then 0 else be_quantity item) - (if covered item then 0 else be_quantity item) else 0)"
    for k using q Cons.prems(3) unc
    by (auto simp: s1_def now_def reserved_exit_reserve reserved_exit_release)
  have s1_bound: "bound_exits s1 = bound_exits s" by (simp add: s1_def)
  obtain s2 kept2 where rest: "reconcile_items key orders items s1 = (s2, kept2)" by fastforce
  have enough: "uncovered items \<le> reserved_exit s1 key" using Cons.prems(3) q by (auto simp: s1)
  note IH = Cons.IH [OF rest pos enough]
  have result: "s' = s2 \<and> kept = (if is_closed (item_status key orders item) then kept2
      else item\<lparr>covered := ?now\<rparr> # kept2)"
    using Cons.prems(1) rest closed_now by (auto simp: s1_def Let_def split: if_splits prod.splits)
  show ?case using IH result s1 s1_bound q closed_now by (auto simp: now_def)
qed

lemma bound_of_set:
  "bound_of (if kept \<noteq> [] then s\<lparr>bound_exits := AList.update key kept (bound_exits s)\<rparr>
      else s\<lparr>bound_exits := AList.delete key (bound_exits s)\<rparr>) k = (if k = key then kept else bound_of s k)"
  by (cases "k = key") (simp_all add: bound_of_def)

lemma balanced_uncovered_le:
  assumes "holds_balance (s, holds)"
  shows "uncovered (bound_of s key) + held holds key = reserved_exit s key"
    and "positive_items (bound_of s key)" and "0 \<le> uncovered (bound_of s key)" and "0 \<le> held holds key"
  using holds_balanceD(1) [OF assms, of key] holds_balanceD(2) [OF assms] uncovered_nonneg held_nonneg by (auto simp: balanced_at_def)

lemma holds_balance_reconcile:
  assumes "holds_balance (s, holds)"
  shows "holds_balance (reconcile_reserved_exit key orders s, holds)"
proof -
  obtain s' kept where rec: "reconcile_items key orders (bound_of s key) s = (s', kept)" by fastforce
  note before = balanced_uncovered_le [OF assms]
  have "uncovered (bound_of s key) \<le> reserved_exit s key" using before [of key] by simp
  note bal = reconcile_items_balance [OF rec before(2) this]
  have bo: "bound_of (reconcile_reserved_exit key orders s) k = (if k = key then kept else bound_of s k)" for k
  proof -
    have "bound_of s' k = bound_of s k" using bal by (simp add: bound_of_def)
    then show ?thesis by (simp add: reconcile_reserved_exit_def rec bound_of_set)
  qed
  have re: "reserved_exit (reconcile_reserved_exit key orders s) k = reserved_exit s' k" for k
    by (simp add: reconcile_reserved_exit_def rec)
  show ?thesis
  proof (rule holds_balanceI)
    fix k
    show "balanced_at (reconcile_reserved_exit key orders s) holds k"
      using bal [of k] before(1,2) [of k] unfolding balanced_at_def bo re by (cases "k = key") auto
  qed (rule holds_balanceD [OF assms])
qed

lemma holds_balance_reserve:
  assumes "holds_balance (s, holds)" and "1 \<le> q"
  shows "holds_balance (reserve_exit key q s, (key, q, net) # holds)"
proof (rule holds_balanceI)
  fix k
  show "balanced_at (reserve_exit key q s) ((key, q, net) # holds) k"
    using holds_balanceD(1) [OF assms(1), of k] assms(2) by (auto simp: balanced_at_def reserved_exit_reserve)
qed (use holds_balanceD(2) [OF assms(1)] assms(2) in simp)

lemma holds_balance_settle:
  assumes "holds_balance (s, before @ h # after)"
  shows "holds_balance (settle_hold h admitted_place progress oid s, before @ after)"
proof -
  obtain key q net where h: "h = (key, q, net)" by (cases h)
  have pos: "list_all (\<lambda>(k, q, net). 1 \<le> q) (before @ after)" and q: "1 \<le> q"
    using holds_balanceD(2) [OF assms] by (simp_all add: h)
  have "0 \<le> held (before @ after) key" using pos by (rule held_nonneg)
  then have enough: "q \<le> reserved_exit s key"
    using balanced_uncovered_le [OF assms, of key] by (simp add: h)
  have released: "balanced_at (release_exit key q s) (before @ after) k" for k
    using holds_balanceD(1) [OF assms, of k] q enough by (auto simp: balanced_at_def h reserved_exit_release)
  have "bound_of (note_reserved_order key i q net s) k =
      (if k = key then bound_of s key @ [\<lparr>be_order_id = py_strip i, be_quantity = q, be_position_net = net, covered = False\<rparr>]
       else bound_of s k)"
    and "reserved_exit (note_reserved_order key i q net s) k = reserved_exit s k" for i k
    using q by (auto simp: note_reserved_order_def bound_of_def)
  then have "balanced_at (note_reserved_order key i q net s) (before @ after) k" for i k
    using holds_balanceD(1) [OF assms, of k] q by (auto simp: balanced_at_def h)
  with released pos show ?thesis
    by (cases "\<not> admitted_place \<and> \<not> outcome_unknown progress")
      (auto simp: settle_hold_def h simp del: list_all_append intro!: holds_balanceI)
qed

text \<open>A reservation is taken exactly when the place qualifies as reduce-only with the holds counted.\<close>

definition place_decision :: "row \<Rightarrow> row list \<Rightarrow> row list \<Rightarrow> row list option \<Rightarrow> int \<Rightarrow> reduce_only_decision" where
  "place_decision body positions our_orders broker_orders extra =
     classify_reduce_only (body_text body ''symbol'' []) (body_text body ''exchange'' [])
       (body_text body ''product'' ''MIS'') (body_text body ''action'' [])
       (PInt (quantity_from_body body)) (map Some positions) (map Some our_orders)
       (map_option (map Some) broker_orders) True (PInt extra)"

lemma prepare_held_facts:
  assumes "prepare_live_reduce_only laya books body adapter account s = (s', Inr (block, Some h))"
  obtains key positions our_orders broker_orders n where
    "contract_key ''live'' adapter account (body_text body ''symbol'' []) (body_text body ''exchange'' [])
       (body_text body ''product'' ''MIS'') = Inr key"
    and "books = (Some positions, our_orders, broker_orders)" and "position_net positions body = Some n"
    and "qualifies (place_decision body positions our_orders broker_orders
       (reserved_exit (reconcile_reserved_exit key broker_orders s) key))"
    and "h = (key, quantity_from_body body, n)" and "block = None"
    and "s' = reserve_exit key (quantity_from_body body) (reconcile_reserved_exit key broker_orders s)"
  using assms
  by (auto simp: prepare_live_reduce_only_def admit_place_def Let_def place_decision_def
      split: sum.splits prod.splits option.splits if_splits)

lemma prepare_keeps:
  assumes "prepare_live_reduce_only laya books body adapter account s = (s', r)"
    and "\<nexists>block h. r = Inr (block, Some h)"
  obtains "s' = s" | key orders where "s' = reconcile_reserved_exit key orders s"
  using assms
  by (auto simp: prepare_live_reduce_only_def Let_def split: sum.splits prod.splits option.splits if_splits)

lemma place_decision_quantity:
  assumes "qualifies (place_decision body positions our_orders broker_orders extra)"
  shows "1 \<le> quantity_from_body body"
  using qualifies_facts [OF refl assms [unfolded place_decision_def]] by auto

lemma place_step_balance:
  assumes "place_step laya st st'" and "holds_balance st"
  shows "holds_balance st'"
  using assms(1)
proof cases
  case (prepare_held books body adapter account s s' block h holds)
  obtain key orders n where "h = (key, quantity_from_body body, n)" and "1 \<le> quantity_from_body body"
    and "s' = reserve_exit key (quantity_from_body body) (reconcile_reserved_exit key orders s)"
    using prepare_held(3) by (rule prepare_held_facts) (use place_decision_quantity in blast)
  with assms(2) prepare_held show ?thesis by (simp add: holds_balance_reserve holds_balance_reconcile)
next
  case (prepare_plain books body adapter account s s' block holds)
  from prepare_plain(3) show ?thesis
    by (rule prepare_keeps) (use prepare_plain assms(2) holds_balance_reconcile in auto)
next
  case (prepare_raises books body adapter account s s' e holds)
  from prepare_raises(3) show ?thesis
    by (rule prepare_keeps) (use prepare_raises assms(2) holds_balance_reconcile in auto)
next
  case (settle s before h after admitted_place progress oid)
  with assms(2) show ?thesis by (simp add: holds_balance_settle)
qed

lemma holds_balance_empty: "holds_balance (empty_store, [])"
  by (rule holds_balanceI) (simp_all add: balanced_at_def empty_store_def reserved_exit_def bound_of_def)

lemma reachable_balance: "(place_step laya)\<^sup>*\<^sup>* (empty_store, []) st \<Longrightarrow> holds_balance st"
  by (induction rule: rtranclp_induct) (auto simp: holds_balance_empty intro: place_step_balance)

subsection \<open>The two readers of the position book agree\<close>

text \<open>
  The classifier and the place path read the position with different code. On rows whose
  identity cells are text, whose quantity text has no underscores, and whose floats print
  their own value, the second reads a quantity whenever the first accepts the evidence.
\<close>

definition plain_text :: "pyval option \<Rightarrow> bool" where
  "plain_text v = (case v of None \<Rightarrow> True | Some PNone \<Rightarrow> True | Some (PStr s) \<Rightarrow> True | _ \<Rightarrow> False)"

definition plain_quantity :: "pyval option \<Rightarrow> bool" where
  "plain_quantity v = (case v of
       Some (PStr s) \<Rightarrow> CHR ''_'' \<notin> set s
     | Some (PFloat f t) \<Rightarrow> decimal_whole t = whole_float f
     | _ \<Rightarrow> True)"

definition plain_row :: "row \<Rightarrow> bool" where
  "plain_row r \<longleftrightarrow> list_all (\<lambda>name. plain_text (map_of r name)) (symbol_names @ side_names)
     \<and> list_all (\<lambda>name. plain_quantity (map_of r name)) net_names"

lemma set_py_strip: "set (py_strip s) \<subseteq> set s"
  by (auto simp: py_strip_def dest!: set_dropWhileD)

lemma decimal_whole_plain:
  assumes "CHR ''_'' \<notin> set s" and "parse_number (py_strip s) = Some (of_int n)"
  shows "decimal_whole s = Some n"
proof -
  have "filter (\<lambda>c. c \<noteq> CHR ''_'') (py_strip s) = py_strip s"
    using assms(1) set_py_strip [of s] by (intro filter_True) auto
  with assms(2) show ?thesis by (simp add: decimal_whole_def)
qed

lemma decimal_whole_show_int: "decimal_whole (show_int n) = Some n"
proof (rule decimal_whole_plain)
  have "is_digit c \<or> c = CHR ''-''" if "c \<in> set (show_int n)" for c
    using that show_nat_digits by (auto simp: show_int_def split: if_splits)
  then show "CHR ''_'' \<notin> set (show_int n)" by (force simp: is_digit_def)
  have "py_strip (show_int n) = show_int n" by (rule py_strip_no_space) (rule show_int_chars)
  then show "parse_number (py_strip (show_int n)) = Some (of_int n)" by (simp add: parse_number_show_int)
qed

lemma exit_cell_quantity_whole:
  assumes "whole v = Some n" and "exact_cell v n" and "plain_quantity (Some v)"
  shows "exit_cell_quantity v = Some n"
  using assms by (cases v) (auto simp: exit_cell_quantity_def plain_quantity_def decimal_whole_show_int decimal_whole_plain)

lemma exit_quantities_alias:
  assumes "alias_values r names = Some vs" and "list_all (\<lambda>name. plain_quantity (map_of r name)) names"
  shows "exit_quantities (present r names) = Some vs"
  using assms
proof (induction names arbitrary: vs)
  case Nil
  then show ?case by (simp add: present_def List.map_filter_def)
next
  case (Cons name names)
  then show ?case
    by (cases "map_of r name")
      (auto simp: present_def List.map_filter_def exit_cell_quantity_whole split: option.splits if_splits)
qed

lemma first_cell_alias:
  assumes "alias_values r names = Some (v # vs)"
  obtains raw where "first_cell r names = Some raw" and "whole raw = Some v"
  using assms
proof (induction names arbitrary: thesis)
  case (Cons name names)
  show ?case
  proof (cases "map_of r name")
    case None
    with Cons show ?thesis by (auto simp: cell_def)
  next
    case (Some raw)
    with Cons.prems(2) have "whole raw = Some v" by (auto split: option.splits if_splits)
    moreover from this have "cell r name = Some raw" using Some by (auto simp: cell_def py_strip_def)
    ultimately show ?thesis using Cons.prems(1) by simp
  qed
qed simp

lemma norm_plain: "plain_text (Some v) \<Longrightarrow> v \<noteq> PNone \<Longrightarrow> norm v = py_upper (py_strip (py_str v))"
  by (cases v) (auto simp: plain_text_def norm_def py_strip_def py_upper_def)

lemma cell_plain: "plain_text (map_of r name) \<Longrightarrow> cell r name = Some v \<Longrightarrow> norm v = py_upper (py_strip (py_str v))"
  by (rule norm_plain) (auto simp: cell_def plain_text_def split: option.splits if_splits)

lemma plain_aliases:
  assumes "list_all (\<lambda>name. plain_text (map_of r name)) names"
  shows "map (py_upper \<circ> py_strip \<circ> py_str) (List.map_filter (cell r) names) = map norm (List.map_filter (cell r) names)"
    and "(case first_cell r names of None \<Rightarrow> [] | Some v \<Rightarrow> py_upper (py_strip (py_str v))) = row_text r names"
  using assms
proof (induction names)
  case (Cons name names)
  {
    case 1
    with Cons show ?case by (cases "cell r name") (auto simp: List.map_filter_def cell_plain)
  next
    case 2
    with Cons show ?case by (cases "cell r name") (auto simp: row_text_def cell_plain)
  }
qed (simp_all add: List.map_filter_def row_text_def)

lemma quantity_aliases_cases:
  assumes "quantity_aliases r names None = Some n"
  obtains vs where "alias_values r names = Some (n # vs)" and "\<not> list_ex (\<lambda>w. w \<noteq> n) vs"
  using assms by (auto simp: quantity_aliases_def split: option.splits list.splits if_splits)

lemma exit_position_quantity_agrees:
  assumes "quantity_aliases r net_names None = Some n" and "text_aliases_agree r symbol_names"
    and "text_aliases_agree r side_names" and "plain_row r"
  shows "exit_position_quantity r = position_quantity r"
proof -
  from assms(1) obtain vs where vs: "alias_values r net_names = Some (n # vs)"
    and eq: "\<not> list_ex (\<lambda>w. w \<noteq> n) vs"
    by (rule quantity_aliases_cases)
  obtain raw where raw: "first_cell r net_names = Some raw" "whole raw = Some n"
    using vs by (rule first_cell_alias)
  have plain: "list_all (\<lambda>name. plain_text (map_of r name)) symbol_names"
    "list_all (\<lambda>name. plain_text (map_of r name)) side_names"
    "list_all (\<lambda>name. plain_quantity (map_of r name)) net_names"
    using assms(4) unfolding plain_row_def list_all_append by blast+
  have "exit_quantities (present r net_names) = Some (n # vs)"
    using vs plain(3) by (rule exit_quantities_alias)
  note q = this and al = assms(2,3) [unfolded text_aliases_agree_def]
  show ?thesis
    unfolding exit_position_quantity_def position_quantity_def q list.pred_inject plain_aliases [OF plain(1)]
      plain_aliases [OF plain(2)]
    by (simp only: eq al raw list.pred_inject option.case list.case if_False if_True Let_def simp_thms)
qed

lemma row_text_single: "row_text r [name] = norm (row_get r name)"
  by (auto simp: row_text_def cell_def row_get_def norm_def split: option.splits)

lemma body_matches_iff:
  "body_matches body r = could_match_contract r (norm (row_get body ''symbol'')) (norm (row_get body ''exchange''))
     (or_mis (norm (row_get body ''product'')))"
  by (simp add: body_matches_def could_match_contract_def row_text_single)

lemma row_text_some_name:
  "names \<noteq> [] \<Longrightarrow> list_ex (\<lambda>name. norm (row_get r name) = row_text r names) names"
proof (induction names)
  case (Cons name names)
  show ?case
  proof (cases "cell r name")
    case None
    then have "norm (row_get r name) = []"
      by (auto simp: cell_def row_get_def norm_def split: option.splits if_splits)
    with None Cons show ?thesis by (cases "names = []") (auto simp: row_text_def)
  next
    case (Some v)
    then show ?thesis by (auto simp: row_text_def row_get_def cell_def split: option.splits if_splits)
  qed
qed simp

lemma same_contract_could_match: "same_contract r s x p \<Longrightarrow> could_match_contract r s x p"
  using row_text_some_name [of symbol_names r] by (auto simp: same_contract_def could_match_contract_def)

text \<open>With at most one candidate row both readers stop at that row.\<close>

lemma single_match:
  assumes "length (matching_positions (map Some rows) s x p) \<le> 1"
    and "contract_net (map Some rows) s x p = Some net"
  obtains r where "r \<in> set rows" and "matching_positions (map Some rows) s x p = [r]"
    and "position_quantity r = Some net"
  using assms
proof (induction rows arbitrary: thesis)
  case (Cons r rows)
  have match_rest: "matching_positions (map Some (r # rows)) s x p =
      (if could_match_contract r s x p then r # matching_positions (map Some rows) s x p
       else matching_positions (map Some rows) s x p)"
    by (simp add: matching_positions_def List.map_filter_def)
  show ?case
  proof (cases "same_contract r s x p")
    case True
    then have "could_match_contract r s x p" by (rule same_contract_could_match)
    with Cons.prems True match_rest show ?thesis by (intro Cons.prems(1) [of r]) auto
  next
    case False
    with Cons.prems have "contract_net (map Some rows) s x p = Some net" by simp
    moreover have "length (matching_positions (map Some rows) s x p) \<le> 1"
      using Cons.prems(2) match_rest by (simp split: if_splits)
    ultimately obtain r' where r': "r' \<in> set rows" "matching_positions (map Some rows) s x p = [r']"
        "position_quantity r' = Some net"
      using Cons.IH by blast
    with Cons.prems(2) match_rest have "\<not> could_match_contract r s x p" by (auto split: if_splits)
    with r' match_rest show ?thesis by (intro Cons.prems(1) [of r']) auto
  qed
qed simp

lemma position_net_single:
  assumes "matching_positions (map Some rows) (norm (row_get body ''symbol'')) (norm (row_get body ''exchange''))
     (or_mis (norm (row_get body ''product''))) = [r]"
  shows "position_net rows body = exit_position_quantity r"
  using assms
  by (induction rows) (auto simp: body_matches_iff matching_positions_def List.map_filter_def split: if_splits)

lemma norm_body_text:
  "norm (PStr (body_text body name [])) = norm (row_get body name)"
  "or_mis (norm (PStr (body_text body ''product'' ''MIS''))) = or_mis (norm (row_get body ''product''))"
proof -
  show "norm (PStr (body_text body name [])) = norm (row_get body name)"
    by (cases "truthy (row_get body name)") (auto simp: body_text_def norm_def Let_def py_strip_def py_upper_def)
  show "or_mis (norm (PStr (body_text body ''product'' ''MIS''))) = or_mis (norm (row_get body ''product''))"
  proof (cases "truthy (row_get body ''product'')")
    case False
    moreover have "or_mis (norm (PStr ''MIS'')) = ''MIS''" by code_simp
    ultimately show ?thesis by (simp add: body_text_def norm_def [of "row_get body ''product''"]) (simp add: or_mis_def)
  qed (auto simp: body_text_def norm_def py_strip_def py_upper_def)
qed

lemma place_decision_evidence:
  assumes "qualifies (place_decision body positions our_orders broker_orders extra)"
  obtains net where
    "contract_net (map Some positions) (norm (row_get body ''symbol'')) (norm (row_get body ''exchange''))
       (or_mis (norm (row_get body ''product''))) = Some net"
    and "quantity_evidence_is_valid (map Some positions)
       (all_orders (map Some our_orders) (map_option (map Some) broker_orders) True)
       (norm (row_get body ''symbol'')) (norm (row_get body ''exchange''))
       (or_mis (norm (row_get body ''product''))) (norm (row_get body ''action''))"
  using assms unfolding place_decision_def classify_reduce_only_def Let_def norm_body_text
  by (auto simp: empty_decision_def split: if_splits option.splits)



definition example_body :: row where
  "example_body = [(''symbol'', PStr ''nifty25junfut''), (''exchange'', PStr ''NFO''), (''action'', PStr ''SELL''),
     (''quantity'', PInt 65)]"

definition example_laya :: "row \<Rightarrow> refusal option" where
  "example_laya body = Some \<lparr>http_status = 403, refusal_code = ''laya'', refusal_message = []\<rparr>"

definition example_key :: contract_key where
  "example_key = (''LIVE'', ''ZERODHA'', ''A1'', ''NIFTY25JUNFUT'', ''NFO'', ''MIS'')"

definition example_held :: exit_store where
  "example_held = reserve_exit example_key 65 empty_store"

definition example_noted :: exit_store where
  "example_noted = note_reserved_order example_key ''77'' 65 130 example_held"

definition example_second :: exit_store where
  "example_second = \<lparr>reserved = [(example_key, 65)],
     bound_exits = [(example_key, [\<lparr>be_order_id = ''77'', be_quantity = 65, be_position_net = 130, covered = True\<rparr>])]\<rparr>"

lemma example_facts:
  "contract_key ''live'' ''zerodha'' (PStr ''A1'') (body_text example_body ''symbol'' [])
     (body_text example_body ''exchange'' []) (body_text example_body ''product'' ''MIS'') = Inr example_key"
  "quantity_admission_response example_body = None"
  "position_net [example_position] example_body = Some 130"
  "own_exit_pending example_body [example_position] [] 0 = False"
  "quantity_from_body example_body = 65"
  by code_simp+

lemma example_decisions:
  "qualifies (place_decision example_body [example_position] [] (Some []) 0)"
  "qualifies (place_decision example_body [example_position] [] (Some [example_exit]) 0)"
  by code_simp+

lemma example_admits:
  "admit_place example_laya example_body True [example_position] [] (Some []) 0 = (None, True)"
  "admit_place example_laya example_body True [example_position] [] (Some [example_exit]) 0 = (None, True)"
  using example_decisions by (simp_all add: admit_place_def place_decision_def example_facts)

definition example_covered :: exit_store where
  "example_covered = \<lparr>reserved = [],
     bound_exits = [(example_key, [\<lparr>be_order_id = ''77'', be_quantity = 65, be_position_net = 130, covered = True\<rparr>])]\<rparr>"

lemma example_stores:
  "reconcile_reserved_exit example_key (Some []) empty_store = empty_store"
  "reconcile_reserved_exit example_key (Some [example_exit]) example_noted = example_covered"
  "reserved_exit empty_store example_key = 0" "reserved_exit example_covered example_key = 0"
  "reserve_exit example_key 65 example_covered = example_second"
  by code_simp+

lemma example_prepare:
  "prepare_live_reduce_only example_laya (Some [example_position], [], Some []) example_body ''zerodha''
     (PStr ''A1'') empty_store = (example_held, Inr (None, Some (example_key, 65, 130)))"
  "prepare_live_reduce_only example_laya (Some [example_position], [], Some [example_exit]) example_body ''zerodha''
     (PStr ''A1'') example_noted = (example_second, Inr (None, Some (example_key, 65, 130)))"
  by (simp_all add: prepare_live_reduce_only_def example_facts example_stores example_admits example_held_def
      del: position_net.simps)

lemma example_run:
  "(place_step example_laya)\<^sup>*\<^sup>* (empty_store, []) (example_noted, [])"
  "(place_step example_laya)\<^sup>*\<^sup>* (empty_store, []) (example_second, [(example_key, 65, 130)])"
proof -
  let ?h = "(example_key, 65, 130)" and ?p = "\<lparr>started = True, invoked = True, failed_before_invoke = False\<rparr>"
  have first: "place_step example_laya (empty_store, []) (example_held, [?h])"
    using example_prepare(1) by (rule prepare_held)
  have "settle_hold ?h True ?p ''77'' example_held = example_noted"
    by (simp add: settle_hold_def example_noted_def)
  then have second: "place_step example_laya (example_held, [?h]) (example_noted, [])"
    using settle [of example_laya example_held "[]" ?h "[]" True ?p "''77''"] by simp
  show noted: "(place_step example_laya)\<^sup>*\<^sup>* (empty_store, []) (example_noted, [])"
    using first second by (blast intro: rtranclp.rtrancl_into_rtrancl)
  have "place_step example_laya (example_noted, []) (example_second, [?h])"
    using example_prepare(2) by (rule prepare_held)
  with noted show "(place_step example_laya)\<^sup>*\<^sup>* (empty_store, []) (example_second, [?h])"
    by (rule rtranclp.rtrancl_into_rtrancl)
qed



text \<open>
  Every qualifying place is held: on plain rows the place path reads the same signed
  position as the classifier, so a place that qualifies as reduce-only always leaves with a
  reservation of its quantity and never goes to the broker uncounted.
\<close>

theorem qualifying_place_is_held:
  assumes "contract_key ''live'' adapter account (body_text body ''symbol'' []) (body_text body ''exchange'' [])
      (body_text body ''product'' ''MIS'') = Inr key"
    and "list_all plain_row positions"
    and "prepare_live_reduce_only laya (Some positions, our_orders, broker_orders) body adapter account s = (s', Inr (block, hold))"
    and "block = None" and "quantity_admission_response body = None"
    and "qualifies (place_decision body positions our_orders broker_orders
      (reserved_exit (reconcile_reserved_exit key broker_orders s) key))"
  shows "\<exists>net. hold = Some (key, quantity_from_body body, net)
    \<and> contract_net (map Some positions) (norm (row_get body ''symbol'')) (norm (row_get body ''exchange''))
        (or_mis (norm (row_get body ''product''))) = Some net
    \<and> reserved_exit s' key = reserved_exit (reconcile_reserved_exit key broker_orders s) key + quantity_from_body body"
proof -
  obtain net where net: "contract_net (map Some positions) (norm (row_get body ''symbol''))
        (norm (row_get body ''exchange'')) (or_mis (norm (row_get body ''product''))) = Some net"
    and valid: "quantity_evidence_is_valid (map Some positions)
       (all_orders (map Some our_orders) (map_option (map Some) broker_orders) True)
       (norm (row_get body ''symbol'')) (norm (row_get body ''exchange''))
       (or_mis (norm (row_get body ''product''))) (norm (row_get body ''action''))"
    using assms(6) by (rule place_decision_evidence)
  have one: "length (matching_positions (map Some positions) (norm (row_get body ''symbol''))
        (norm (row_get body ''exchange'')) (or_mis (norm (row_get body ''product'')))) \<le> 1"
    using valid by (simp add: quantity_evidence_is_valid_def Let_def)
  obtain r where r: "r \<in> set positions" "position_quantity r = Some net"
    and match_r: "matching_positions (map Some positions) (norm (row_get body ''symbol''))
        (norm (row_get body ''exchange'')) (or_mis (norm (row_get body ''product''))) = [r]"
    using one net by (rule single_match)
  have "exit_position_quantity r = position_quantity r"
    using valid assms(2) r(1) exit_position_quantity_agrees [of r]
    by (auto simp: quantity_evidence_is_valid_def match_r list_all_iff Let_def)
  then have "position_net positions body = Some net"
    using position_net_single [OF match_r] r(2) by simp
  moreover have "1 \<le> quantity_from_body body" using assms(6) by (rule place_decision_quantity)
  ultimately show ?thesis
    using assms(3-6) net
    by (auto simp: prepare_live_reduce_only_def assms(1) admit_place_def place_decision_def
        reserved_exit_reserve Let_def split: if_splits)
qed

theorem qualifying_place_is_held_witness:
  "\<exists>net. Some (example_key, 65, 130) = Some (example_key, quantity_from_body example_body, net)
    \<and> reserved_exit example_second example_key = reserved_exit example_covered example_key + 65"
proof -
  have "list_all plain_row [example_position]" by code_simp
  from qualifying_place_is_held [OF example_facts(1) this example_prepare(2) refl example_facts(2)]
  show ?thesis using example_decisions(2) by (simp add: example_stores example_facts)
qed

text \<open>
  An unreadable broker book frees nothing: reconciling without an order book counts
  every acknowledged exit of the contract as held again, whatever the book showed before.
\<close>

theorem unreadable_book_restores_holds:
  assumes "(place_step laya)\<^sup>*\<^sup>* (empty_store, []) (s, holds)"
  shows "reserved_exit (reconcile_reserved_exit key None s) key
    = held holds key + (\<Sum>item \<leftarrow> bound_of s key. be_quantity item)"
proof -
  have kept: "snd (reconcile_items key None items t) = map (\<lambda>item. item\<lparr>covered := False\<rparr>) items" for items t
    by (induction items arbitrary: t) (auto simp: item_status_def is_closed_def Let_def case_prod_beta)
  have "bound_of (reconcile_reserved_exit key None s) key = map (\<lambda>item. item\<lparr>covered := False\<rparr>) (bound_of s key)"
  proof -
    obtain s' ks where "reconcile_items key None (bound_of s key) s = (s', ks)" by fastforce
    with kept [of "bound_of s key" s] show ?thesis
      by (simp only: reconcile_reserved_exit_def Let_def prod.case bound_of_set snd_conv if_True simp_thms)
  qed
  moreover have "uncovered (map (\<lambda>item. item\<lparr>covered := False\<rparr>) items) = (\<Sum>item \<leftarrow> items. be_quantity item)" for items
    by (induction items) auto
  ultimately show ?thesis
    using balanced_uncovered_le(1) [OF holds_balance_reconcile [OF reachable_balance [OF assms]], of key None key]
    by simp
qed

theorem unreadable_book_restores_holds_witness:
  "reserved_exit (reconcile_reserved_exit example_key None example_second) example_key = 130"
proof -
  have "bound_of example_second example_key
      = [\<lparr>be_order_id = ''77'', be_quantity = 65, be_position_net = 130, covered = True\<rparr>]" by code_simp
  with unreadable_book_restores_holds [OF example_run(2), of example_key] show ?thesis by simp
qed

end
