(* ===== verification/Exit_Evidence.thy ===== *)
theory Exit_Evidence
  imports Py_Numbers
begin

text \<open>
  \<open>flinttrade_engine/exit_evidence.py\<close>: advice on one exit intent from a complete snapshot of
  its position, orders, protection legs and reservations.

  A Python \<open>Decimal\<close> is a coefficient and an exponent; sums are taken in a context of a given
  precision whose \<open>Inexact\<close> trap is the left value. Comparisons of decimals are exact.
  Exponents are taken to be far from the limits of the C library (about \<open>10 ^ 18\<close>), where
  neither overflow nor subnormal results occur. The \<open>isinstance\<close> tests on containers and
  flags hold by typing.
\<close>

subsection \<open>Decimals\<close>

datatype decimal = Dec int int | DSpecial

definition pow10 :: "int \<Rightarrow> rat" where
  "pow10 e = (if 0 \<le> e then 10 ^ nat e else 1 / 10 ^ nat (- e))"

fun dval :: "decimal \<Rightarrow> rat" where
  "dval (Dec c e) = of_int c * pow10 e"
| "dval DSpecial = 0"

fun is_finite :: "decimal \<Rightarrow> bool" where
  "is_finite (Dec c e) = True"
| "is_finite DSpecial = False"

fun coeff :: "decimal \<Rightarrow> int" where
  "coeff (Dec c e) = c"
| "coeff DSpecial = 0"

fun dexp :: "decimal \<Rightarrow> int" where
  "dexp (Dec c e) = e"
| "dexp DSpecial = 0"

definition ZERO :: decimal where
  "ZERO = Dec 0 0"

fun copy_abs :: "decimal \<Rightarrow> decimal" where
  "copy_abs (Dec c e) = Dec \<bar>c\<bar> e"
| "copy_abs DSpecial = DSpecial"

fun copy_negate :: "decimal \<Rightarrow> decimal" where
  "copy_negate (Dec c e) = Dec (- c) e"
| "copy_negate DSpecial = DSpecial"

text \<open>\<open>adjusted()\<close> of a nonzero decimal: the exponent of its leading digit.\<close>

definition adjusted :: "decimal \<Rightarrow> int" where
  "adjusted d = dexp d + int (ndigits 10 \<bar>coeff d\<bar>) - 1"

text \<open>
  Rounding to the context precision: trailing zeros may go, any other digit raises \<open>Inexact\<close>.
\<close>

definition fix_prec :: "int \<Rightarrow> int \<Rightarrow> int \<Rightarrow> string + decimal" where
  "fix_prec prec c e =
     (let k = int (ndigits 10 \<bar>c\<bar>) - prec
      in if k \<le> 0 then Inr (Dec c e)
         else if c mod 10 ^ nat k = 0 then Inr (Dec (c div 10 ^ nat k) (e + k))
         else Inl ''Inexact'')"

definition scale_to :: "int \<Rightarrow> decimal \<Rightarrow> int" where
  "scale_to m d = coeff d * 10 ^ nat (dexp d - m)"

definition dec_add :: "int \<Rightarrow> decimal \<Rightarrow> decimal \<Rightarrow> string + decimal" where
  "dec_add prec x y = (let m = min (dexp x) (dexp y) in fix_prec prec (scale_to m x + scale_to m y) m)"

definition dec_sub :: "int \<Rightarrow> decimal \<Rightarrow> decimal \<Rightarrow> string + decimal" where
  "dec_sub prec x y = dec_add prec x (copy_negate y)"

text \<open>\<open>sum(amounts, start)\<close>.\<close>

definition dec_sum :: "int \<Rightarrow> decimal list \<Rightarrow> decimal \<Rightarrow> string + decimal" where
  "dec_sum prec amounts start = for_each (\<lambda>a t. dec_add prec t a) amounts start"

definition dec_min :: "decimal \<Rightarrow> decimal \<Rightarrow> decimal" where
  "dec_min a b = (if dval b < dval a then b else a)"

definition dec_max :: "decimal \<Rightarrow> decimal \<Rightarrow> decimal" where
  "dec_max a b = (if dval a < dval b then b else a)"

subsection \<open>The snapshot\<close>

definition TERMINAL_ATTEMPTS :: "string list" where
  "TERMINAL_ATTEMPTS = [''FILLED'', ''CANCELLED'', ''REJECTED'', ''EXPIRED'']"

definition FAILED_TERMINALS :: "string list" where
  "FAILED_TERMINALS = [''CANCELLED'', ''REJECTED'', ''EXPIRED'']"

definition ATTEMPT_STATES :: "string list" where
  "ATTEMPT_STATES = TERMINAL_ATTEMPTS @
     [''REQUESTED'', ''SUBMITTING'', ''ACKNOWLEDGED'', ''WORKING'', ''PARTIALLY_FILLED'',
      ''MODIFY_PENDING'', ''CANCEL_PENDING'', ''UNKNOWN'']"

definition LEG_STATES :: "string list" where
  "LEG_STATES =
     [''ARMED'', ''TRIGGERED'', ''CANCEL_PENDING'', ''CANCELLED'', ''REJECTED'', ''EXPIRED'', ''UNKNOWN'']"

record exit_scope =
  sc_mode :: string
  sc_broker :: string
  sc_account_id :: string
  sc_instrument_id :: string
  sc_expiry :: string
  sc_segment :: string
  sc_product :: string

record exit_attempt =
  attempt_id :: string
  at_broker_order_id :: "string option"
  at_state :: string
  at_remaining :: decimal
  reservation_id :: "string option"
  parent_resource_id :: "string option"

record protection_leg =
  leg_id :: string
  leg_state :: string
  leg_remaining :: decimal
  child_ids :: "string list"
  children_complete :: bool

record protection_resource =
  resource_id :: string
  legs :: "protection_leg list"

record exit_evidence =
  scope :: exit_scope
  original_sign :: int
  current_signed_quantity :: decimal
  authorised_remaining :: decimal
  attempts :: "exit_attempt list"
  protection_resources :: "protection_resource list"
  unmatched_reservations :: "(string \<times> decimal) list"
  books_complete :: bool
  coherence_verified :: bool
  freshness_verified :: bool
  scope_verified :: bool

record exit_decision =
  dec_cap :: decimal
  dec_outcome :: string
  next_action :: string
  dec_reason :: string

subsection \<open>Validation\<close>

definition identity :: "string \<Rightarrow> bool" where
  "identity v \<longleftrightarrow> v \<noteq> [] \<and> v = py_strip v"

definition quantity_ok :: "decimal \<Rightarrow> string + unit" where
  "quantity_ok v =
     bind_res (require (is_finite v) ''Quantities must be finite Decimal broker units.'') (\<lambda>_.
       require (0 \<le> dval v) ''Remaining quantities cannot be negative.'')"

definition known_state :: "string \<Rightarrow> string list \<Rightarrow> string" where
  "known_state v known = (let t = py_upper (py_strip v) in if t \<in> set known then t else ''UNKNOWN'')"

definition validate_snapshot :: "exit_evidence \<Rightarrow> string + unit" where
  "validate_snapshot ev =
     bind_res (require (books_complete ev \<and> coherence_verified ev \<and> freshness_verified ev \<and> scope_verified ev)
       ''Complete, fresh, coherent and scope-verified evidence is required.'') (\<lambda>_.
     (let sc = scope ev in
     bind_res (require (list_all identity [sc_mode sc, sc_broker sc, sc_account_id sc, sc_instrument_id sc,
         sc_segment sc, sc_product sc]) ''Scope identity is missing or ambiguous.'') (\<lambda>_.
     bind_res (require (sc_expiry sc = py_strip (sc_expiry sc)) ''Expiry identity is ambiguous.'') (\<lambda>_.
     bind_res (require (original_sign ev \<in> {-1, 1}) ''Original sign must be -1 or 1.'') (\<lambda>_.
     bind_res (require (is_finite (current_signed_quantity ev)) ''Quantities must be finite Decimal broker units.'') (\<lambda>_.
     quantity_ok (authorised_remaining ev)))))))"

subsection \<open>Attempts\<close>

record attempt_books =
  by_attempt :: "(string \<times> exit_attempt) list"
  by_broker :: "(string \<times> exit_attempt) list"
  local_only :: "exit_attempt list"

definition opt_identity :: "string option \<Rightarrow> bool" where
  "opt_identity v = (case v of None \<Rightarrow> True | Some i \<Rightarrow> identity i)"

text \<open>Equality of two observations; quantities compare by value.\<close>

definition same_attempt :: "exit_attempt \<Rightarrow> exit_attempt \<Rightarrow> bool" where
  "same_attempt a b \<longleftrightarrow> attempt_id a = attempt_id b \<and> at_broker_order_id a = at_broker_order_id b
     \<and> at_state a = at_state b \<and> dval (at_remaining a) = dval (at_remaining b)
     \<and> reservation_id a = reservation_id b \<and> parent_resource_id a = parent_resource_id b"

definition compatible :: "'a option \<Rightarrow> 'a option \<Rightarrow> bool" where
  "compatible old new \<longleftrightarrow> old = None \<or> new = None \<or> old = new"

definition first_of :: "'a option \<Rightarrow> 'a option \<Rightarrow> 'a option" where
  "first_of a b = (case a of None \<Rightarrow> b | Some x \<Rightarrow> Some x)"

text \<open>The checks on one row, and the row with its normalised state.\<close>

definition check_attempt :: "exit_attempt \<Rightarrow> string + exit_attempt" where
  "check_attempt row =
     bind_res (require (identity (attempt_id row)) ''Attempt identity is missing or ambiguous.'') (\<lambda>_.
     bind_res (require (list_all opt_identity [at_broker_order_id row, reservation_id row, parent_resource_id row])
       ''Attempt linkage identity is ambiguous.'') (\<lambda>_.
     bind_res (quantity_ok (at_remaining row)) (\<lambda>_.
     (let st = known_state (at_state row) ATTEMPT_STATES in
     bind_res (require (st \<notin> {''UNKNOWN'', ''SUBMITTING''})
       ''An attempt may still execute; reconcile without replay.'') (\<lambda>_.
     bind_res (require (st \<noteq> ''FILLED'' \<or> dval (at_remaining row) = 0)
       ''A filled attempt has conflicting remaining quantity.'') (\<lambda>_.
     bind_res (require (at_broker_order_id row \<noteq> None \<or> st \<in> {''REQUESTED'', ''REJECTED''})
       ''A broker attempt lacks its authoritative identity.'') (\<lambda>_.
     Inr (row\<lparr>at_state := st\<rparr>))))))))"

definition merge_broker :: "exit_attempt \<Rightarrow> exit_attempt \<Rightarrow> string + exit_attempt" where
  "merge_broker previous row =
     bind_res (require (at_state previous = at_state row \<and> dval (at_remaining previous) = dval (at_remaining row))
       ''Conflicting observations share a broker identity.'') (\<lambda>_.
     bind_res (require (compatible (reservation_id previous) (reservation_id row)
         \<and> compatible (parent_resource_id previous) (parent_resource_id row))
       ''Broker identity has conflicting ownership links.'') (\<lambda>_.
     Inr (previous\<lparr>reservation_id := first_of (reservation_id previous) (reservation_id row),
                   parent_resource_id := first_of (parent_resource_id previous) (parent_resource_id row)\<rparr>)))"

definition add_attempt :: "exit_attempt \<Rightarrow> attempt_books \<Rightarrow> string + attempt_books" where
  "add_attempt raw b =
     bind_res (check_attempt raw) (\<lambda>row.
       case map_of (by_attempt b) (attempt_id row) of
         Some previous \<Rightarrow>
           bind_res (require (same_attempt previous row) ''Conflicting observations share an attempt identity.'') (\<lambda>_. Inr b)
       | None \<Rightarrow>
           (let b' = b\<lparr>by_attempt := AList.update (attempt_id row) row (by_attempt b)\<rparr>
            in case at_broker_order_id row of
                 None \<Rightarrow> Inr (b'\<lparr>local_only := local_only b' @ [row]\<rparr>)
               | Some oid \<Rightarrow>
                   bind_res (case map_of (by_broker b') oid of None \<Rightarrow> Inr row | Some previous \<Rightarrow> merge_broker previous row)
                     (\<lambda>row'. Inr (b'\<lparr>by_broker := AList.update oid row' (by_broker b')\<rparr>))))"

definition note_reservation :: "exit_attempt \<Rightarrow> string list \<Rightarrow> string + string list" where
  "note_reservation row seen =
     (case reservation_id row of
        None \<Rightarrow> Inr seen
      | Some r \<Rightarrow> bind_res (require (r \<notin> set seen) ''One reservation has multiple attempt identities.'') (\<lambda>_. Inr (r # seen)))"

definition unique_attempts :: "exit_attempt list \<Rightarrow> string + exit_attempt list" where
  "unique_attempts rows =
     bind_res (for_each add_attempt rows \<lparr>by_attempt = [], by_broker = [], local_only = []\<rparr>) (\<lambda>b.
       (let unique = map snd (by_broker b) @ local_only b
        in bind_res (for_each note_reservation unique []) (\<lambda>_. Inr unique)))"

subsection \<open>Protection legs\<close>

record leg_books =
  resource_ids :: "string list"
  leg_ids :: "string list"
  children :: "(string \<times> string) list"
  checked_legs :: "protection_leg list"

definition add_child :: "string \<Rightarrow> string \<Rightarrow> leg_books \<Rightarrow> string + leg_books" where
  "add_child rid child b =
     bind_res (require (identity child \<and> map_of (children b) child = None)
       ''A child identity is missing, duplicated or shared between legs.'') (\<lambda>_.
     Inr (b\<lparr>children := AList.update child rid (children b)\<rparr>))"

definition add_leg :: "string \<Rightarrow> protection_leg \<Rightarrow> leg_books \<Rightarrow> string + leg_books" where
  "add_leg rid leg b =
     bind_res (require (identity (leg_id leg) \<and> leg_id leg \<notin> set (leg_ids b))
       ''Protection leg identity is missing or duplicated.'') (\<lambda>_.
     (let b' = b\<lparr>leg_ids := leg_id leg # leg_ids b\<rparr> in
     bind_res (quantity_ok (leg_remaining leg)) (\<lambda>_.
     (let st = known_state (leg_state leg) LEG_STATES in
     bind_res (require (st \<noteq> ''UNKNOWN'') ''Protection status is unknown; reconcile without replay.'') (\<lambda>_.
     bind_res (require (children_complete leg) ''Protection child evidence is incomplete.'') (\<lambda>_.
     bind_res (require (st \<noteq> ''TRIGGERED'' \<or> child_ids leg \<noteq> []) ''A triggered leg has no verified execution children.'') (\<lambda>_.
     bind_res (require (st \<noteq> ''ARMED'' \<or> child_ids leg = []) ''An armed leg has conflicting execution children.'') (\<lambda>_.
     bind_res (for_each (add_child rid) (child_ids leg) b') (\<lambda>b''.
     Inr (b''\<lparr>checked_legs := checked_legs b'' @ [leg\<lparr>leg_state := st\<rparr>]\<rparr>))))))))))"

definition add_resource :: "protection_resource \<Rightarrow> leg_books \<Rightarrow> string + leg_books" where
  "add_resource res b =
     bind_res (require (identity (resource_id res) \<and> resource_id res \<notin> set (resource_ids b))
       ''Protection resource identity is missing or duplicated.'') (\<lambda>_.
     (let b' = b\<lparr>resource_ids := resource_id res # resource_ids b\<rparr> in
     bind_res (require (legs res \<noteq> []) ''Protection legs are missing.'') (\<lambda>_.
     for_each (add_leg (resource_id res)) (legs res) b')))"

definition broker_index :: "exit_attempt list \<Rightarrow> (string \<times> exit_attempt) list" where
  "broker_index ats = fold (\<lambda>a d. case at_broker_order_id a of None \<Rightarrow> d | Some oid \<Rightarrow> AList.update oid a d) ats []"

definition child_linked :: "exit_attempt list \<Rightarrow> string \<times> string \<Rightarrow> bool" where
  "child_linked ats = (\<lambda>(child, rid).
     case map_of (broker_index ats) child of None \<Rightarrow> False | Some a \<Rightarrow> parent_resource_id a = Some rid)"

definition parent_linked :: "leg_books \<Rightarrow> exit_attempt \<Rightarrow> bool" where
  "parent_linked b a =
     (case parent_resource_id a of
        None \<Rightarrow> True
      | Some rid \<Rightarrow> rid \<in> set (resource_ids b)
          \<and> (case at_broker_order_id a of None \<Rightarrow> False | Some oid \<Rightarrow> map_of (children b) oid = Some rid))"

definition protection_legs :: "protection_resource list \<Rightarrow> exit_attempt list \<Rightarrow> string + protection_leg list" where
  "protection_legs resources ats =
     bind_res (for_each add_resource resources \<lparr>resource_ids = [], leg_ids = [], children = [], checked_legs = []\<rparr>) (\<lambda>b.
     bind_res (require (list_all (child_linked ats) (children b))
       ''A protection child lacks reciprocal broker/resource evidence.'') (\<lambda>_.
     bind_res (require (list_all (parent_linked b) ats)
       ''An execution child is absent from its resource's complete leg evidence.'') (\<lambda>_.
     Inr (checked_legs b))))"

subsection \<open>Reservations, the cap and the decision\<close>

definition add_reservation :: "string \<times> decimal \<Rightarrow> (string \<times> decimal) list \<Rightarrow> string + (string \<times> decimal) list" where
  "add_reservation row d =
     (case row of (rid, remaining) \<Rightarrow>
        bind_res (require (identity rid) ''Reservation identity is missing or ambiguous.'') (\<lambda>_.
        bind_res (quantity_ok remaining) (\<lambda>_.
        bind_res (require (case map_of d rid of None \<Rightarrow> True | Some q \<Rightarrow> dval q = dval remaining)
          ''A reservation has conflicting quantities.'') (\<lambda>_.
        Inr (AList.update rid remaining d)))))"

definition transfers :: "exit_attempt \<Rightarrow> string option" where
  "transfers a = (if at_broker_order_id a \<noteq> None \<and> at_state a \<noteq> ''REQUESTED'' then reservation_id a else None)"

definition unmatched :: "(string \<times> decimal) list \<Rightarrow> exit_attempt list \<Rightarrow> string + decimal list" where
  "unmatched rows ats =
     bind_res (for_each add_reservation rows []) (\<lambda>d.
       Inr (map snd (fold (\<lambda>a d. case transfers a of None \<Rightarrow> d | Some r \<Rightarrow> AList.delete r d) ats d)))"

definition eligible :: "exit_evidence \<Rightarrow> decimal" where
  "eligible ev =
     (if (0 < dval (current_signed_quantity ev)) = (original_sign ev = 1)
      then copy_abs (current_signed_quantity ev) else ZERO)"

definition cap_precision :: "decimal list \<Rightarrow> int" where
  "cap_precision amounts =
     (let nonzero = filter (\<lambda>a. dval a \<noteq> 0) amounts
      in if nonzero = [] then 28
         else max 28 (Max (set (map adjusted nonzero)) - Min (set (map dexp nonzero))
                + int (length (show_nat (length amounts))) + 2))"

definition MAX_PREC :: int where
  "MAX_PREC = 999999999999999999"

definition quantity_cap :: "exit_evidence \<Rightarrow> decimal list \<Rightarrow> string + decimal" where
  "quantity_cap ev outstanding =
     (let prec = cap_precision (eligible ev # authorised_remaining ev # outstanding)
      in bind_res (require (prec \<le> MAX_PREC) ''valid range for prec is [1, MAX_PREC]'') (\<lambda>_.
         bind_res (dec_sum prec outstanding ZERO) (\<lambda>tot.
         bind_res (dec_sub prec (eligible ev) tot) (\<lambda>diff.
         Inr (dec_min (authorised_remaining ev) (dec_max ZERO diff))))))"

record exit_flags =
  explicit_close :: bool
  protection_authorised :: bool
  market_supported :: bool
  preconditions_changed :: bool

text \<open>The books after validation and the quantities that may still execute.\<close>

record exit_books =
  bk_attempts :: "exit_attempt list"
  bk_legs :: "protection_leg list"
  bk_unmatched :: "decimal list"

definition read_books :: "exit_evidence \<Rightarrow> string + exit_books" where
  "read_books ev =
     bind_res (validate_snapshot ev) (\<lambda>_.
     bind_res (unique_attempts (attempts ev)) (\<lambda>ats.
     bind_res (protection_legs (protection_resources ev) ats) (\<lambda>ls.
     bind_res (unmatched (unmatched_reservations ev) ats) (\<lambda>us.
     Inr \<lparr>bk_attempts = ats, bk_legs = ls, bk_unmatched = us\<rparr>))))"

definition active :: "exit_books \<Rightarrow> exit_attempt list" where
  "active b = filter (\<lambda>a. at_state a \<notin> set TERMINAL_ATTEMPTS) (bk_attempts b)"

definition armed :: "exit_books \<Rightarrow> protection_leg list" where
  "armed b = filter (\<lambda>l. leg_state l \<in> {''ARMED'', ''CANCEL_PENDING''}) (bk_legs b)"

definition outstanding :: "exit_books \<Rightarrow> decimal list" where
  "outstanding b = map at_remaining (active b) @ map leg_remaining (armed b) @ bk_unmatched b"

definition advise :: "decimal \<Rightarrow> string \<Rightarrow> string \<Rightarrow> string \<Rightarrow> exit_decision" where
  "advise c outcome action reason = \<lparr>dec_cap = c, dec_outcome = outcome, next_action = action, dec_reason = reason\<rparr>"

definition pending_change :: "exit_books \<Rightarrow> bool" where
  "pending_change b \<longleftrightarrow>
     list_ex (\<lambda>a. at_state a \<in> {''REQUESTED'', ''MODIFY_PENDING'', ''CANCEL_PENDING''}) (active b)
     \<or> list_ex (\<lambda>l. leg_state l = ''CANCEL_PENDING'') (armed b)"

definition reversed_position :: "exit_evidence \<Rightarrow> bool" where
  "reversed_position ev \<longleftrightarrow> dval (current_signed_quantity ev) \<noteq> 0
     \<and> (0 < dval (current_signed_quantity ev)) \<noteq> (original_sign ev = 1)"

definition any_failed :: "exit_books \<Rightarrow> bool" where
  "any_failed b \<longleftrightarrow> list_ex (\<lambda>a. at_state a \<in> set FAILED_TERMINALS) (bk_attempts b)
     \<or> list_ex (\<lambda>l. leg_state l \<in> set FAILED_TERMINALS) (bk_legs b)"

definition advice :: "exit_evidence \<Rightarrow> exit_books \<Rightarrow> decimal \<Rightarrow> exit_flags \<Rightarrow> exit_decision" where
  "advice ev b c fl =
     (if bk_unmatched b \<noteq> []
      then advise c ''UNKNOWN'' ''RECONCILE'' ''Unmatched reservations remain; do not replay or release them.''
      else if active b \<noteq> [] \<or> armed b \<noteq> []
      then advise c (if reversed_position ev then ''FAILED'' else ''OPEN'')
             (if explicit_close fl \<and> \<not> pending_change b then ''CANCEL_THEN_RECONCILE'' else ''WAIT'')
             (if reversed_position ev then ''External position reversal leaves executable exit hazards.''
              else ''Existing exits may still execute; wait for authoritative terminal evidence and reconcile final fills.'')
      else if reversed_position ev
      then advise ZERO ''FAILED'' ''NONE'' ''External position reversal does not authorise the new direction.''
      else if dval (current_signed_quantity ev) = 0
      then advise ZERO ''CLOSED'' ''NONE'' ''Verified flat exposure with every linked execution risk resolved.''
      else if dval c = 0
      then advise c ''OPEN'' ''NONE'' ''No additional quantity is authorised for this exit intent.''
      else if \<not> explicit_close fl \<and> \<not> (protection_authorised fl \<and> any_failed b)
      then advise c (if any_failed b then ''FAILED'' else ''OPEN'') ''NONE''
             ''An explicit close or authorised failed-protection recovery policy is required.''
      else if any_failed b \<and> \<not> preconditions_changed fl
      then advise c ''FAILED'' ''NONE'' ''Failure preconditions are unchanged; do not start another attempt.''
      else if \<not> market_supported fl
      then advise c ''FAILED'' ''REQUEST_ALTERNATIVE'' ''Market execution is unsupported; request an explicit alternative.''
      else advise c ''OPEN'' ''SUBMIT_MARKET''
             ''Eligible remainder may progress through existing safety gates; execution and price are not guaranteed.'')"

definition decide_exit :: "exit_evidence \<Rightarrow> exit_flags \<Rightarrow> exit_decision" where
  "decide_exit ev fl =
     (case bind_res (read_books ev) (\<lambda>b. bind_res (quantity_cap ev (outstanding b)) (\<lambda>c. Inr (b, c))) of
        Inl reason \<Rightarrow> advise ZERO ''UNKNOWN'' ''RECONCILE'' reason
      | Inr (b, c) \<Rightarrow> advice ev b c fl)"

subsection \<open>Exact arithmetic\<close>

lemma pow10_powi: "pow10 e = 10 powi e"
  by (simp add: pow10_def power_int_def inverse_eq_divide power_divide)

lemma pow10_pos [simp]: "0 < pow10 e"
  by (simp add: pow10_def)

lemma pow10_sign [simp]: "0 \<le> pow10 e" "pow10 e \<noteq> 0" "\<bar>pow10 e\<bar> = pow10 e"
  using pow10_pos [of e] by linarith+

lemma pow10_add: "pow10 (a + b) = pow10 a * pow10 b"
  by (simp add: pow10_powi power_int_add)

lemma pow10_nat: "0 \<le> n \<Longrightarrow> pow10 n = of_int (10 ^ nat n)"
  by (simp add: pow10_def)

lemma pow10_mono: "a \<le> b \<Longrightarrow> pow10 a \<le> pow10 b"
proof -
  assume "a \<le> b"
  have "pow10 a * 1 \<le> pow10 a * pow10 (b - a)"
    using \<open>a \<le> b\<close> by (intro mult_left_mono) (simp_all add: pow10_nat)
  then show ?thesis by (simp flip: pow10_add)
qed

lemma dval_scale_to: "is_finite d \<Longrightarrow> m \<le> dexp d \<Longrightarrow> of_int (scale_to m d) * pow10 m = dval d"
proof (cases d)
  case (Dec c e)
  assume "m \<le> dexp d"
  with Dec have "pow10 e = of_int (10 ^ nat (e - m)) * pow10 m"
    using pow10_add [of "e - m" m] by (simp add: pow10_nat)
  with Dec show ?thesis by (simp add: scale_to_def)
qed simp

lemma fix_prec_value:
  assumes "fix_prec prec c e = Inr z"
  shows "is_finite z \<and> dval z = of_int c * pow10 e"
proof (cases "int (ndigits 10 \<bar>c\<bar>) - prec \<le> 0")
  case True
  with assms show ?thesis by (auto simp: fix_prec_def)
next
  case False
  define k where "k = int (ndigits 10 \<bar>c\<bar>) - prec"
  from False assms have z: "z = Dec (c div 10 ^ nat k) (e + k)" and d: "c mod 10 ^ nat k = 0"
    by (auto simp: fix_prec_def k_def Let_def split: if_splits)
  have "c div 10 ^ nat k * 10 ^ nat k = c" using d by (simp add: mod_0_imp_dvd)
  then have "of_int c = (of_int (c div 10 ^ nat k) * of_int (10 ^ nat k) :: rat)"
    by (metis of_int_mult)
  moreover have "pow10 (e + k) = pow10 e * of_int (10 ^ nat k)"
    using False by (simp add: pow10_add pow10_nat k_def)
  ultimately show ?thesis by (simp add: z)
qed

text \<open>A value that some coefficient of at most \<open>prec\<close> digits can represent is never inexact.\<close>

lemma fix_prec_exact:
  assumes "of_int c * pow10 e = of_int K * pow10 j" and "\<bar>K\<bar> < 10 ^ nat prec" and "0 \<le> prec"
  shows "\<exists>z. fix_prec prec c e = Inr z"
proof (cases "e \<le> j")
  case True
  have "of_int c * pow10 e = of_int K * (pow10 e * of_int (10 ^ nat (j - e)))"
    using assms(1) True pow10_add [of e "j - e"] by (simp add: pow10_nat)
  then have "(of_int c :: rat) = of_int (K * 10 ^ nat (j - e))"
    using pow10_pos [of e] by (simp add: field_simps)
  then have c: "c = K * 10 ^ nat (j - e)" using of_int_eq_iff by blast
  have "\<bar>c\<bar> < 10 ^ (nat prec + nat (j - e))"
    using assms(2) by (simp add: c abs_mult power_add)
  then have "ndigits 10 \<bar>c\<bar> \<le> nat prec + nat (j - e)" by (intro ndigits_le) simp_all
  then have le: "nat (int (ndigits 10 \<bar>c\<bar>) - prec) \<le> nat (j - e)" using assms(3) by simp
  then have "10 ^ nat (int (ndigits 10 \<bar>c\<bar>) - prec) dvd c"
    unfolding c by (intro dvd_mult le_imp_power_dvd) simp
  then show ?thesis by (auto simp: fix_prec_def Let_def)
next
  case False
  have "of_int K * pow10 j = of_int c * (pow10 j * of_int (10 ^ nat (e - j)))"
    using assms(1) [symmetric] False pow10_add [of j "e - j"] by (simp add: pow10_nat)
  then have "(of_int K :: rat) = of_int (c * 10 ^ nat (e - j))"
    using pow10_pos [of j] by (simp add: field_simps)
  then have K: "K = c * 10 ^ nat (e - j)" using of_int_eq_iff by blast
  have "1 \<le> (10 :: int) ^ nat (e - j)" by simp
  then have "\<bar>c\<bar> * 1 \<le> \<bar>c\<bar> * 10 ^ nat (e - j)" by (intro mult_left_mono) simp_all
  then have "\<bar>c\<bar> \<le> \<bar>K\<bar>" by (simp add: K abs_mult)
  then have "\<bar>c\<bar> < 10 ^ nat prec" using assms(2) by simp
  then have "ndigits 10 \<bar>c\<bar> \<le> nat prec" by (intro ndigits_le) simp_all
  then show ?thesis using assms(3) by (simp add: fix_prec_def Let_def)
qed

text \<open>Values on the grid of \<open>10 ^ E\<close>.\<close>

definition on_grid :: "int \<Rightarrow> rat \<Rightarrow> bool" where
  "on_grid E v \<longleftrightarrow> (\<exists>k. v = of_int k * pow10 E)"

lemma on_grid_add: "on_grid E u \<Longrightarrow> on_grid E v \<Longrightarrow> on_grid E (u + v)"
  unfolding on_grid_def by (metis distrib_right of_int_add)

lemma on_grid_minus: "on_grid E u \<Longrightarrow> on_grid E (- u)"
  unfolding on_grid_def by (metis minus_mult_left of_int_minus)

lemma on_grid_diff: "on_grid E u \<Longrightarrow> on_grid E v \<Longrightarrow> on_grid E (u - v)"
  using on_grid_add [of E u "- v"] on_grid_minus [of E v] by simp

lemma on_grid_0 [simp]: "on_grid E 0"
  unfolding on_grid_def by (rule exI [of _ 0]) simp

lemma on_grid_dval: "E \<le> dexp d \<Longrightarrow> on_grid E (dval d)"
proof (cases "is_finite d")
  case True
  assume "E \<le> dexp d"
  from dval_scale_to [OF True this] show ?thesis unfolding on_grid_def by metis
qed (cases d; simp)

lemma dec_add_exact:
  assumes "is_finite x" and "is_finite y" and "on_grid E (dval x + dval y)"
    and "\<bar>dval x + dval y\<bar> < pow10 (E + prec)" and "0 \<le> prec"
  shows "\<exists>z. dec_add prec x y = Inr z \<and> is_finite z \<and> dval z = dval x + dval y"
proof -
  let ?m = "min (dexp x) (dexp y)"
  have sum: "of_int (scale_to ?m x + scale_to ?m y) * pow10 ?m = dval x + dval y"
    using dval_scale_to [OF assms(1), of ?m] dval_scale_to [OF assms(2), of ?m] by (simp add: distrib_right)
  from assms(3) obtain K where K: "dval x + dval y = of_int K * pow10 E" by (auto simp: on_grid_def)
  have "\<bar>of_int K\<bar> * pow10 E < pow10 E * of_int (10 ^ nat prec)"
    using assms(4,5) by (simp add: K abs_mult pow10_add pow10_nat)
  then have "(of_int \<bar>K\<bar> :: rat) < of_int (10 ^ nat prec)" using pow10_pos [of E] by simp
  then have "\<bar>K\<bar> < 10 ^ nat prec" using of_int_less_iff by blast
  then obtain z where "fix_prec prec (scale_to ?m x + scale_to ?m y) ?m = Inr z"
    using fix_prec_exact [of "scale_to ?m x + scale_to ?m y" ?m K E prec] sum K assms(5) by auto
  with fix_prec_value [OF this] sum show ?thesis by (simp add: dec_add_def Let_def)
qed

lemma dec_sum_exact:
  assumes "is_finite start" and "0 \<le> dval start" and "on_grid E (dval start)"
    and "\<And>a. a \<in> set amounts \<Longrightarrow> is_finite a \<and> 0 \<le> dval a \<and> on_grid E (dval a)"
    and "dval start + (\<Sum>a \<leftarrow> amounts. dval a) < pow10 (E + prec)" and "0 \<le> prec"
  shows "\<exists>z. dec_sum prec amounts start = Inr z \<and> is_finite z \<and> dval z = dval start + (\<Sum>a \<leftarrow> amounts. dval a)"
  using assms(1-5)
proof (induction amounts arbitrary: start)
  case (Cons a amounts)
  have nn: "0 \<le> (\<Sum>a \<leftarrow> amounts. dval a)" using Cons.prems(4) by (intro sum_list_nonneg) auto
  have a: "is_finite a" "0 \<le> dval a" "on_grid E (dval a)" using Cons.prems(4) by auto
  have "\<bar>dval start + dval a\<bar> < pow10 (E + prec)" using Cons.prems(2,5) nn a(2) by simp
  then obtain z where z: "dec_add prec start a = Inr z" "is_finite z" "dval z = dval start + dval a"
    using dec_add_exact [OF Cons.prems(1) a(1) on_grid_add [OF Cons.prems(3) a(3)]] assms(6) by blast
  have "\<exists>z'. dec_sum prec amounts z = Inr z' \<and> is_finite z' \<and> dval z' = dval z + (\<Sum>a \<leftarrow> amounts. dval a)"
    using z Cons.prems a by (intro Cons.IH) (auto simp: on_grid_add)
  then show ?case using z by (auto simp: dec_sum_def)
qed (simp add: dec_sum_def)

lemma show_nat_bound: "int n < 10 ^ length (show_nat n)"
proof (induction n rule: show_nat.induct)
  case (1 n)
  show ?case
  proof (cases "n < 10")
    case True
    then show ?thesis by (subst show_nat.simps) simp
  next
    case False
    with 1 have "int (n div 10) < 10 ^ length (show_nat (n div 10))" by simp
    moreover have "int n < 10 * (int (n div 10) + 1)" by (simp add: zdiv_int)
    ultimately have "int n < 10 * 10 ^ length (show_nat (n div 10))" by linarith
    with False show ?thesis by (subst show_nat.simps) simp
  qed
qed

lemma dval_less_adjusted: "dval d < pow10 (adjusted d + 1)"
proof (cases d)
  case (Dec c e)
  have "c \<le> \<bar>c\<bar>" by simp
  also have "\<bar>c\<bar> < 10 ^ ndigits 10 \<bar>c\<bar>" by (rule less_power_ndigits) simp_all
  finally have "(of_int c :: rat) < of_int (10 ^ ndigits 10 \<bar>c\<bar>)" by (simp only: of_int_less_iff)
  then have "of_int c * pow10 e < of_int (10 ^ ndigits 10 \<bar>c\<bar>) * pow10 e" by simp
  also have "\<dots> = pow10 (adjusted d + 1)"
    by (simp add: Dec adjusted_def pow10_add [of e "int (ndigits 10 \<bar>c\<bar>)"] pow10_nat)
  finally show ?thesis by (simp add: Dec)
qed simp

lemma sum_list_le_length: "(\<And>a. a \<in> set xs \<Longrightarrow> f a \<le> (B :: rat)) \<Longrightarrow> sum_list (map f xs) \<le> of_nat (length xs) * B"
  by (induction xs) (auto simp: distrib_right intro: add_mono)

text \<open>The computed precision has room for the sum of all amounts on their common grid.\<close>

lemma cap_precision_enough:
  obtains E where "\<And>a. a \<in> set amounts \<Longrightarrow> on_grid E (dval a)"
    and "(\<Sum>a \<leftarrow> amounts. dval a) < pow10 (E + cap_precision amounts)" and "28 \<le> cap_precision amounts"
proof -
  define nz where "nz = filter (\<lambda>a. dval a \<noteq> 0) amounts"
  show thesis
  proof (cases "nz = []")
    case True
    then have "dval a = 0" if "a \<in> set amounts" for a
      using that by (auto simp: nz_def filter_empty_conv)
    moreover from this have "(\<Sum>a \<leftarrow> amounts. dval a) = 0" by (induction amounts) auto
    ultimately show thesis using True
      by (intro that [of 0]) (simp_all add: cap_precision_def nz_def)
  next
    case False
    define A E L where "A = Max (set (map adjusted nz))" and "E = Min (set (map dexp nz))"
      and "L = int (length (show_nat (length amounts)))"
    have prec: "cap_precision amounts = max 28 (A - E + L + 2)"
      using False by (simp add: cap_precision_def A_def E_def L_def Let_def flip: nz_def)
    have grid: "on_grid E (dval a)" if "a \<in> set amounts" for a
    proof (cases "dval a = 0")
      case False
      with that have "a \<in> set nz" by (simp add: nz_def)
      then have "E \<le> dexp a" by (simp add: E_def)
      then show ?thesis by (rule on_grid_dval)
    qed simp
    have small: "dval a \<le> pow10 (A + 1)" if "a \<in> set amounts" for a
    proof (cases "dval a = 0")
      case False
      with that have "a \<in> set nz" by (simp add: nz_def)
      then have "adjusted a + 1 \<le> A + 1" by (simp add: A_def)
      then show ?thesis using dval_less_adjusted [of a] pow10_mono by (meson less_le_trans less_imp_le)
    qed simp
    have "(of_int (int (length amounts)) :: rat) < of_int (10 ^ length (show_nat (length amounts)))"
      using show_nat_bound [of "length amounts"] by (simp only: of_int_less_iff)
    then have n: "of_nat (length amounts) < pow10 L" by (simp add: L_def pow10_nat)
    have "(\<Sum>a \<leftarrow> amounts. dval a) \<le> of_nat (length amounts) * pow10 (A + 1)"
      using small by (rule sum_list_le_length)
    also have "\<dots> < pow10 L * pow10 (A + 1)" using n by simp
    also have "\<dots> \<le> pow10 (E + cap_precision amounts)"
      using pow10_mono [of "L + (A + 1)" "E + cap_precision amounts"] by (simp add: prec pow10_add)
    finally show thesis using grid by (intro that [of E]) (simp_all add: prec)
  qed
qed

lemma quantity_ok_iff [simp]: "quantity_ok v = Inr u \<longleftrightarrow> is_finite v \<and> 0 \<le> dval v"
  by (simp add: quantity_ok_def)

definition nonneg_quantity :: "decimal \<Rightarrow> bool" where
  "nonneg_quantity d \<longleftrightarrow> is_finite d \<and> 0 \<le> dval d"

lemma dval_copy_abs: "dval (copy_abs d) = \<bar>dval d\<bar>"
  by (cases d) (simp_all add: abs_mult)

lemma is_finite_copy [simp]: "is_finite (copy_abs d) = is_finite d" "is_finite (copy_negate d) = is_finite d"
  by (cases d; simp)+

lemma dval_copy_negate [simp]: "dval (copy_negate d) = - dval d"
  by (cases d) simp_all

lemma dval_ZERO [simp]: "dval ZERO = 0" "is_finite ZERO"
  by (simp_all add: ZERO_def)

lemma dval_dec_min: "dval (dec_min a b) = min (dval a) (dval b)"
  by (simp add: dec_min_def min_def)

lemma dval_dec_max: "dval (dec_max a b) = max (dval a) (dval b)"
  by (auto simp: dec_max_def max_def)

lemma eligible_quantity: "is_finite (current_signed_quantity ev) \<Longrightarrow> nonneg_quantity (eligible ev)"
  by (simp add: eligible_def nonneg_quantity_def dval_copy_abs)

lemma quantity_cap_value:
  assumes "is_finite (current_signed_quantity ev)" and "nonneg_quantity (authorised_remaining ev)"
    and "list_all nonneg_quantity os"
    and "cap_precision (eligible ev # authorised_remaining ev # os) \<le> MAX_PREC"
  shows "\<exists>c. quantity_cap ev os = Inr c \<and>
    dval c = min (dval (authorised_remaining ev)) (max 0 (dval (eligible ev) - (\<Sum>a \<leftarrow> os. dval a)))"
proof -
  let ?all = "eligible ev # authorised_remaining ev # os"
  let ?p = "cap_precision ?all" and ?S = "\<Sum>a \<leftarrow> os. dval a"
  obtain E where grid: "\<And>a. a \<in> set ?all \<Longrightarrow> on_grid E (dval a)"
    and bound: "(\<Sum>a \<leftarrow> ?all. dval a) < pow10 (E + ?p)" and p: "28 \<le> ?p"
    using cap_precision_enough [of ?all] by blast
  have el: "is_finite (eligible ev)" "0 \<le> dval (eligible ev)"
    using eligible_quantity [OF assms(1)] by (simp_all add: nonneg_quantity_def)
  have au: "0 \<le> dval (authorised_remaining ev)" using assms(2) by (simp add: nonneg_quantity_def)
  have os: "is_finite a \<and> 0 \<le> dval a \<and> on_grid E (dval a)" if "a \<in> set os" for a
    using that assms(3) grid by (auto simp: list_all_iff nonneg_quantity_def)
  have S0: "0 \<le> ?S" using os by (intro sum_list_nonneg) auto
  have "\<exists>z. dec_sum ?p os ZERO = Inr z \<and> is_finite z \<and> dval z = dval ZERO + ?S"
    using os bound el(2) au p S0 by (intro dec_sum_exact [of _ E]) auto
  then obtain t where t: "dec_sum ?p os ZERO = Inr t" "is_finite t" "dval t = ?S" by auto
  have S_grid: "on_grid E ?S" using os by (induction os) (auto simp: on_grid_add)
  have "\<exists>z. dec_add ?p (eligible ev) (copy_negate t) = Inr z \<and> is_finite z
      \<and> dval z = dval (eligible ev) + dval (copy_negate t)"
    using el t grid [of "eligible ev"] S_grid bound au S0 p
    by (intro dec_add_exact [of _ _ E]) (auto intro: on_grid_diff)
  then obtain d where d: "dec_sub ?p (eligible ev) t = Inr d" "dval d = dval (eligible ev) - ?S"
    by (auto simp: dec_sub_def t)
  with t assms(4) show ?thesis by (simp add: quantity_cap_def Let_def dval_dec_min dval_dec_max)
qed

subsection \<open>What the books guarantee\<close>

text \<open>Every attempt, leg and reservation that passes validation has a finite, nonnegative quantity.\<close>

definition good_attempt :: "exit_attempt \<Rightarrow> bool" where
  "good_attempt a \<longleftrightarrow> nonneg_quantity (at_remaining a) \<and> at_state a \<notin> {''UNKNOWN'', ''SUBMITTING''}"

definition good_leg :: "protection_leg \<Rightarrow> bool" where
  "good_leg l \<longleftrightarrow> nonneg_quantity (leg_remaining l) \<and> leg_state l \<noteq> ''UNKNOWN''"

lemma check_attempt_good: "check_attempt raw = Inr row \<Longrightarrow> good_attempt row"
  by (auto simp: check_attempt_def good_attempt_def nonneg_quantity_def Let_def)

lemma merge_broker_good: "merge_broker p row = Inr row' \<Longrightarrow> good_attempt p \<Longrightarrow> good_attempt row'"
  by (auto simp: merge_broker_def good_attempt_def)

definition good_books :: "attempt_books \<Rightarrow> bool" where
  "good_books b \<longleftrightarrow> list_all (\<lambda>(i, a). good_attempt a) (by_broker b) \<and> list_all good_attempt (local_only b)"

lemma good_lookup: "list_all (\<lambda>(i, a). P a) d \<Longrightarrow> map_of d k = Some a \<Longrightarrow> P a"
  by (auto simp: list_all_iff dest: map_of_SomeD)

lemma add_attempt_good:
  assumes "good_books b" and "add_attempt raw b = Inr b'"
  shows "good_books b'"
proof -
  from assms(2) obtain row where row: "check_attempt raw = Inr row" by (auto simp: add_attempt_def)
  then have good: "good_attempt row" by (rule check_attempt_good)
  have merged: "good_attempt row'"
    if "map_of (by_broker b) oid = Some previous" "merge_broker previous row = Inr row'" for oid previous row'
    using that assms(1) good_lookup [of good_attempt "by_broker b" oid] merge_broker_good
    by (auto simp: good_books_def)
  show ?thesis
    using assms row good merged
    by (auto simp: add_attempt_def good_books_def Let_def list_all_update split: option.splits)
qed

lemma unique_attempts_good: "unique_attempts rows = Inr ats \<Longrightarrow> list_all good_attempt ats"
proof -
  assume "unique_attempts rows = Inr ats"
  then obtain b where run: "for_each add_attempt rows \<lparr>by_attempt = [], by_broker = [], local_only = []\<rparr> = Inr b"
    and ats: "ats = map snd (by_broker b) @ local_only b"
    by (auto simp: unique_attempts_def Let_def)
  have "good_books b"
    using run by (rule for_each_invariant [of _ _ _ _ good_books]) (simp add: good_books_def, rule add_attempt_good)
  then show ?thesis by (auto simp: ats good_books_def list_all_iff)
qed

definition good_leg_books :: "leg_books \<Rightarrow> bool" where
  "good_leg_books b = list_all good_leg (checked_legs b)"

lemma add_child_good: "good_leg_books b \<Longrightarrow> add_child rid c b = Inr b' \<Longrightarrow> good_leg_books b'"
  by (auto simp: add_child_def good_leg_books_def)

lemma add_leg_good:
  assumes "good_leg_books b" and "add_leg rid leg b = Inr b'"
  shows "good_leg_books b'"
proof -
  define b1 where "b1 = b\<lparr>leg_ids := leg_id leg # leg_ids b\<rparr>"
  define st where "st = known_state (leg_state leg) LEG_STATES"
  from assms(2) obtain b2 where run: "for_each (add_child rid) (child_ids leg) b1 = Inr b2"
    and b': "b' = b2\<lparr>checked_legs := checked_legs b2 @ [leg\<lparr>leg_state := st\<rparr>]\<rparr>"
    and leg: "nonneg_quantity (leg_remaining leg)" "st \<noteq> ''UNKNOWN''"
    by (auto simp: add_leg_def Let_def nonneg_quantity_def simp flip: b1_def st_def)
  have "good_leg_books b1" using assms(1) by (simp add: b1_def good_leg_books_def)
  with run have "good_leg_books b2" by (rule for_each_invariant) (rule add_child_good)
  with leg show ?thesis by (simp add: b' good_leg_books_def good_leg_def)
qed

lemma add_resource_good:
  assumes "good_leg_books b" and "add_resource res b = Inr b'"
  shows "good_leg_books b'"
proof -
  from assms(2) have run: "for_each (add_leg (resource_id res)) (legs res) (b\<lparr>resource_ids := resource_id res # resource_ids b\<rparr>) = Inr b'"
    by (auto simp: add_resource_def Let_def)
  have "good_leg_books (b\<lparr>resource_ids := resource_id res # resource_ids b\<rparr>)"
    using assms(1) by (simp add: good_leg_books_def)
  with run show ?thesis by (rule for_each_invariant) (rule add_leg_good)
qed

lemma protection_legs_good: "protection_legs resources ats = Inr ls \<Longrightarrow> list_all good_leg ls"
proof -
  assume "protection_legs resources ats = Inr ls"
  then obtain b where run: "for_each add_resource resources \<lparr>resource_ids = [], leg_ids = [], children = [], checked_legs = []\<rparr> = Inr b"
    and ls: "ls = checked_legs b"
    by (auto simp: protection_legs_def)
  have "good_leg_books b"
    using run by (rule for_each_invariant [of _ _ _ _ good_leg_books]) (simp add: good_leg_books_def, rule add_resource_good)
  then show ?thesis by (simp add: ls good_leg_books_def)
qed

lemma list_all_delete: "list_all P d \<Longrightarrow> list_all P (AList.delete k d)"
  by (auto simp: AList.delete_eq list_all_iff)

lemma unmatched_good: "unmatched rows ats = Inr us \<Longrightarrow> list_all nonneg_quantity us"
proof -
  assume "unmatched rows ats = Inr us"
  then obtain d where run: "for_each add_reservation rows [] = Inr d"
    and us: "us = map snd (fold (\<lambda>a d. case transfers a of None \<Rightarrow> d | Some r \<Rightarrow> AList.delete r d) ats d)"
    by (auto simp: unmatched_def)
  have "list_all (\<lambda>(i, q). nonneg_quantity q) d"
    using run
  proof (rule for_each_invariant)
    show "list_all (\<lambda>(i, q). nonneg_quantity q) s'"
      if "list_all (\<lambda>(i, q). nonneg_quantity q) s" "add_reservation x s = Inr s'" for x s s'
      using that by (auto simp: add_reservation_def nonneg_quantity_def list_all_update split: prod.splits)
  qed simp
  then have "list_all (\<lambda>(i, q). nonneg_quantity q) (fold (\<lambda>a d. case transfers a of None \<Rightarrow> d | Some r \<Rightarrow> AList.delete r d) ats d)"
    by (induction ats arbitrary: d) (auto simp: list_all_delete split: option.splits)
  then show ?thesis by (auto simp: us list_all_iff)
qed

lemma validate_facts:
  "validate_snapshot ev = Inr u \<Longrightarrow> original_sign ev \<in> {-1, 1} \<and> is_finite (current_signed_quantity ev)
     \<and> nonneg_quantity (authorised_remaining ev) \<and> books_complete ev \<and> coherence_verified ev
     \<and> freshness_verified ev \<and> scope_verified ev"
  by (auto simp: validate_snapshot_def Let_def nonneg_quantity_def)

lemma read_books_facts:
  assumes "read_books ev = Inr b"
  shows "list_all nonneg_quantity (outstanding b)" and "list_all good_attempt (bk_attempts b)"
    and "original_sign ev \<in> {-1, 1}" and "is_finite (current_signed_quantity ev)"
    and "nonneg_quantity (authorised_remaining ev)"
    and "books_complete ev \<and> coherence_verified ev \<and> freshness_verified ev \<and> scope_verified ev"
proof -
  from assms obtain ats ls us u where v: "validate_snapshot ev = Inr u" and a: "unique_attempts (attempts ev) = Inr ats"
    and l: "protection_legs (protection_resources ev) ats = Inr ls"
    and m: "unmatched (unmatched_reservations ev) ats = Inr us"
    and b: "b = \<lparr>bk_attempts = ats, bk_legs = ls, bk_unmatched = us\<rparr>"
    by (auto simp: read_books_def)
  note good = unique_attempts_good [OF a] protection_legs_good [OF l] unmatched_good [OF m]
  then show "list_all nonneg_quantity (outstanding b)" "list_all good_attempt (bk_attempts b)"
    by (auto simp: b outstanding_def active_def armed_def list_all_iff good_attempt_def good_leg_def)
  show "original_sign ev \<in> {-1, 1}" "is_finite (current_signed_quantity ev)"
    "nonneg_quantity (authorised_remaining ev)"
    "books_complete ev \<and> coherence_verified ev \<and> freshness_verified ev \<and> scope_verified ev"
    using validate_facts [OF v] by blast+
qed

subsection \<open>Properties of the advice\<close>

lemma decide_exit_cases:
  obtains (bad) reason where "decide_exit ev fl = advise ZERO ''UNKNOWN'' ''RECONCILE'' reason"
  | (good) b c where "read_books ev = Inr b" and "quantity_cap ev (outstanding b) = Inr c"
      and "decide_exit ev fl = advice ev b c fl"
  by (cases "read_books ev"; cases "quantity_cap ev (outstanding (projr (read_books ev)))")
    (auto simp: decide_exit_def intro: that)

lemma quantity_cap_prec: "quantity_cap ev os = Inr c \<Longrightarrow> cap_precision (eligible ev # authorised_remaining ev # os) \<le> MAX_PREC"
  by (auto simp: quantity_cap_def Let_def)

lemma cap_of_books:
  assumes "read_books ev = Inr b" and "quantity_cap ev (outstanding b) = Inr c"
  shows "dval c = min (dval (authorised_remaining ev)) (max 0 (dval (eligible ev) - (\<Sum>a \<leftarrow> outstanding b. dval a)))"
  using quantity_cap_value [OF read_books_facts(4,5,1) [OF assms(1)] quantity_cap_prec [OF assms(2)]] assms(2) by auto


definition example_scope :: exit_scope where
  "example_scope = \<lparr>sc_mode = ''live'', sc_broker = ''zerodha'', sc_account_id = ''A1'', sc_instrument_id = ''NIFTY25JUNFUT'',
     sc_expiry = ''2025-06-26'', sc_segment = ''NFO'', sc_product = ''MIS''\<rparr>"

definition example_evidence :: exit_evidence where
  "example_evidence = \<lparr>scope = example_scope, original_sign = 1, current_signed_quantity = Dec 1300 (-1),
     authorised_remaining = Dec 13 1,
     attempts = [\<lparr>attempt_id = ''a1'', at_broker_order_id = Some ''77'', at_state = ''working'', at_remaining = Dec 65 0,
       reservation_id = None, parent_resource_id = None\<rparr>,
       \<lparr>attempt_id = ''a2'', at_broker_order_id = Some ''78'', at_state = ''CANCELLED'', at_remaining = Dec 65 0,
       reservation_id = Some ''h1'', parent_resource_id = None\<rparr>],
     protection_resources = [], unmatched_reservations = [(''h1'', Dec 65 0)],
     books_complete = True, coherence_verified = True, freshness_verified = True, scope_verified = True\<rparr>"

definition example_exit_books :: exit_books where
  "example_exit_books = \<lparr>bk_attempts = map (\<lambda>a. a\<lparr>at_state := py_upper (at_state a)\<rparr>) (attempts example_evidence),
     bk_legs = [], bk_unmatched = []\<rparr>"

lemma example_read: "read_books example_evidence = Inr example_exit_books"
  "map coeff (outstanding example_exit_books) = [65]" "map dexp (outstanding example_exit_books) = [0]"
  "eligible example_evidence = Dec 1300 (-1)"
  "cap_precision (eligible example_evidence # authorised_remaining example_evidence # outstanding example_exit_books) \<le> MAX_PREC"
  by code_simp+


text \<open>
  A positive cap never over-exits: whatever the advice, a nonzero cap is within the
  authorised remainder, is in the original direction, and together with every quantity that
  may still execute stays within the current position.
\<close>

theorem exit_advice_never_over_exits:
  assumes "0 < dval (dec_cap (decide_exit ev fl))"
  shows "\<exists>b. read_books ev = Inr b
    \<and> dval (dec_cap (decide_exit ev fl)) + (\<Sum>a \<leftarrow> outstanding b. dval a) \<le> \<bar>dval (current_signed_quantity ev)\<bar>
    \<and> dval (dec_cap (decide_exit ev fl)) \<le> dval (authorised_remaining ev)
    \<and> (0 < dval (current_signed_quantity ev)) = (original_sign ev = 1)"
proof (cases rule: decide_exit_cases [of ev fl])
  case (bad reason)
  with assms show ?thesis by (simp add: advise_def)
next
  case (good b c)
  have "dec_cap (decide_exit ev fl) \<in> {ZERO, c}" by (simp add: good(3) advice_def advise_def)
  with assms have c: "dec_cap (decide_exit ev fl) = c" "0 < dval c" by auto
  note cap = cap_of_books [OF good(1,2)]
  then have pos: "dval c + (\<Sum>a \<leftarrow> outstanding b. dval a) \<le> dval (eligible ev)"
      "dval c \<le> dval (authorised_remaining ev)"
    using c(2) by (auto simp: min_def max_def split: if_splits)
  have "0 \<le> (\<Sum>a \<leftarrow> outstanding b. dval a)"
    using read_books_facts(1) [OF good(1)] by (intro sum_list_nonneg) (auto simp: list_all_iff nonneg_quantity_def)
  with pos c(2) have "0 < dval (eligible ev)" by linarith
  then have "(0 < dval (current_signed_quantity ev)) = (original_sign ev = 1)"
    and "dval (eligible ev) = \<bar>dval (current_signed_quantity ev)\<bar>"
    by (auto simp: eligible_def dval_copy_abs split: if_splits)
  with pos good(1) c(1) show ?thesis by auto
qed

definition example_flags :: exit_flags where
  "example_flags = \<lparr>explicit_close = True, protection_authorised = False, market_supported = True, preconditions_changed = True\<rparr>"

theorem exit_advice_never_over_exits_witness:
  "dval (dec_cap (decide_exit example_evidence example_flags)) = 65
   \<and> dval (dec_cap (decide_exit example_evidence example_flags)) + 65 \<le> 130
   \<and> next_action (decide_exit example_evidence example_flags) = ''CANCEL_THEN_RECONCILE''"
proof -
  have d: "dval (dec_cap (decide_exit example_evidence example_flags)) = 65"
    "next_action (decide_exit example_evidence example_flags) = ''CANCEL_THEN_RECONCILE''"
    "outstanding example_exit_books = [Dec 65 0]" by code_simp+
  have "dval (current_signed_quantity example_evidence) = 130" by code_simp
  with exit_advice_never_over_exits [of example_evidence example_flags] d example_read(1) show ?thesis
    by (auto simp: pow10_def)
qed

text \<open>
  C4. A market exit is only advised on settled books: the snapshot is complete and verified,
  no attempt, armed leg or reservation can still execute, the position is open in the
  original direction, the cap is positive, the close is authorised, a previous failure has
  changed preconditions, and market execution is supported.
\<close>

theorem submit_market_only_when_safe:
  assumes "next_action (decide_exit ev fl) = ''SUBMIT_MARKET''"
  shows "\<exists>b. read_books ev = Inr b \<and> outstanding b = [] \<and> active b = [] \<and> armed b = [] \<and> bk_unmatched b = []
    \<and> books_complete ev \<and> coherence_verified ev \<and> freshness_verified ev \<and> scope_verified ev
    \<and> dval (current_signed_quantity ev) \<noteq> 0
    \<and> (0 < dval (current_signed_quantity ev)) = (original_sign ev = 1)
    \<and> 0 < dval (dec_cap (decide_exit ev fl))
    \<and> dval (dec_cap (decide_exit ev fl))
        = min (dval (authorised_remaining ev)) \<bar>dval (current_signed_quantity ev)\<bar>
    \<and> (explicit_close fl \<or> (protection_authorised fl \<and> any_failed b))
    \<and> (any_failed b \<longrightarrow> preconditions_changed fl) \<and> market_supported fl"
proof (cases rule: decide_exit_cases [of ev fl])
  case (bad reason)
  with assms show ?thesis by (simp add: advise_def)
next
  case (good b c)
  note act = assms [unfolded good(3) advice_def advise_def]
  have no: "bk_unmatched b = []" "active b = []" "armed b = []" "\<not> reversed_position ev"
      "dval (current_signed_quantity ev) \<noteq> 0" "dval c \<noteq> 0"
    and auth: "explicit_close fl \<or> (protection_authorised fl \<and> any_failed b)"
      "any_failed b \<longrightarrow> preconditions_changed fl" "market_supported fl"
    using act by (auto split: if_splits)
  then have d: "dec_cap (decide_exit ev fl) = c" using auth by (auto simp: good(3) advice_def advise_def)
  have out: "outstanding b = []" using no by (simp add: outstanding_def)
  have dir: "(0 < dval (current_signed_quantity ev)) = (original_sign ev = 1)"
    using no(4,5) by (auto simp: reversed_position_def)
  have "dval c = min (dval (authorised_remaining ev)) \<bar>dval (current_signed_quantity ev)\<bar>"
    using cap_of_books [OF good(1,2)] dir by (simp add: out eligible_def dval_copy_abs)
  moreover have "0 \<le> dval (authorised_remaining ev)"
    using read_books_facts(5) [OF good(1)] by (simp add: nonneg_quantity_def)
  ultimately show ?thesis
    using no auth out dir d good(1) read_books_facts(6) [OF good(1)] by auto
qed

theorem submit_market_only_when_safe_witness:
  "let ev = example_evidence\<lparr>attempts := [], unmatched_reservations := []\<rparr>
   in next_action (decide_exit ev example_flags) = ''SUBMIT_MARKET'' \<and> dval (dec_cap (decide_exit ev example_flags)) = 130"
proof -
  let ?ev = "example_evidence\<lparr>attempts := [], unmatched_reservations := []\<rparr>"
  have "next_action (decide_exit ?ev example_flags) = ''SUBMIT_MARKET''"
    "dval (current_signed_quantity ?ev) = 130" "dval (authorised_remaining ?ev) = 130" by code_simp+
  with submit_market_only_when_safe [OF this(1)] show ?thesis by (auto simp: Let_def)
qed

text \<open>
  Doubt never becomes an order: when the snapshot is incomplete, stale or unverified, or
  some attempt is in an unknown or still-submitting state (also one spelt in a way the code
  does not know), the advice is to reconcile with a zero cap.
\<close>

theorem doubtful_evidence_reconciles:
  assumes "\<not> (books_complete ev \<and> coherence_verified ev \<and> freshness_verified ev \<and> scope_verified ev)
    \<or> list_ex (\<lambda>a. known_state (at_state a) ATTEMPT_STATES \<in> {''UNKNOWN'', ''SUBMITTING''}) (attempts ev)"
  shows "dec_cap (decide_exit ev fl) = ZERO \<and> dec_outcome (decide_exit ev fl) = ''UNKNOWN''
    \<and> next_action (decide_exit ev fl) = ''RECONCILE''"
proof (cases rule: decide_exit_cases [of ev fl])
  case (bad reason)
  then show ?thesis by (simp add: advise_def)
next
  case (good b c)
  then have "list_ex (\<lambda>a. known_state (at_state a) ATTEMPT_STATES \<in> {''UNKNOWN'', ''SUBMITTING''}) (attempts ev)"
    using assms read_books_facts(6) by blast
  then obtain a where a: "a \<in> set (attempts ev)" "known_state (at_state a) ATTEMPT_STATES \<in> {''UNKNOWN'', ''SUBMITTING''}"
    by (auto simp: list_ex_iff)
  from good(1) obtain ats where "unique_attempts (attempts ev) = Inr ats" by (auto simp: read_books_def)
  then obtain bk where "for_each add_attempt (attempts ev) \<lparr>by_attempt = [], by_broker = [], local_only = []\<rparr> = Inr bk"
    by (auto simp: unique_attempts_def)
  from for_each_all [OF this a(1)] obtain t t' where "add_attempt a t = Inr t'" by blast
  then obtain row where "check_attempt a = Inr row" by (auto simp: add_attempt_def)
  with a(2) have False by (auto simp: check_attempt_def Let_def)
  then show ?thesis ..
qed

theorem doubtful_evidence_reconciles_witness:
  "next_action (decide_exit (example_evidence\<lparr>attempts := map (\<lambda>a. a\<lparr>at_state := ''lost''\<rparr>) (attempts example_evidence)\<rparr>)
     example_flags) = ''RECONCILE''"
proof -
  have "list_ex (\<lambda>a. known_state (at_state a) ATTEMPT_STATES \<in> {''UNKNOWN'', ''SUBMITTING''})
      (attempts (example_evidence\<lparr>attempts := map (\<lambda>a. a\<lparr>at_state := ''lost''\<rparr>) (attempts example_evidence)\<rparr>))"
    by code_simp
  with doubtful_evidence_reconciles show ?thesis by blast
qed

text \<open>
  CLOSED is only reported on a verified flat position with nothing left that could
  execute.
\<close>

theorem closed_means_resolved:
  assumes "dec_outcome (decide_exit ev fl) = ''CLOSED''"
  shows "\<exists>b. read_books ev = Inr b \<and> outstanding b = [] \<and> dval (current_signed_quantity ev) = 0
    \<and> dec_cap (decide_exit ev fl) = ZERO \<and> next_action (decide_exit ev fl) = ''NONE''"
proof (cases rule: decide_exit_cases [of ev fl])
  case (bad reason)
  with assms show ?thesis by (simp add: advise_def)
next
  case (good b c)
  with assms show ?thesis
    by (auto simp: good(3) advice_def advise_def outstanding_def split: if_splits)
qed

theorem closed_means_resolved_witness:
  "dec_outcome (decide_exit (example_evidence\<lparr>attempts := [], unmatched_reservations := [], current_signed_quantity := Dec 0 2\<rparr>)
     example_flags) = ''CLOSED''
   \<and> next_action (decide_exit (example_evidence\<lparr>attempts := [], unmatched_reservations := [], current_signed_quantity := Dec 0 2\<rparr>)
     example_flags) = ''NONE''"
proof -
  let ?ev = "example_evidence\<lparr>attempts := [], unmatched_reservations := [], current_signed_quantity := Dec 0 2\<rparr>"
  have "dec_outcome (decide_exit ?ev example_flags) = ''CLOSED''" by code_simp
  with closed_means_resolved [OF this] show ?thesis by blast
qed

end
