(* ===== verification/Py_Json.thy ===== *)
theory Py_Json
  imports Py_Numbers
begin

text \<open>
  Python values that pass through \<open>json.dumps\<close> and \<open>json.loads\<close>: cells, lists and objects
  with text keys. \<open>JOther\<close> is an object that \<open>json.dumps\<close> refuses with a \<open>TypeError\<close>. A
  stored JSON text is represented by the document it denotes.
\<close>

datatype json = JCell pyval | JList "json list" | JObj "(string \<times> json) list" | JOther

type_synonym metadata = "(string \<times> json) list"

fun serialisable :: "json \<Rightarrow> bool" where
  "serialisable (JCell v) = True"
| "serialisable (JList vs) = list_all serialisable vs"
| "serialisable (JObj kvs) = list_all (\<lambda>kv. serialisable (snd kv)) kvs"
| "serialisable JOther = False"

definition json_dumps :: "metadata \<Rightarrow> json option" where
  "json_dumps m = (if serialisable (JObj m) then Some (JObj m) else None)"

definition dict_update :: "metadata \<Rightarrow> metadata \<Rightarrow> metadata" where
  "dict_update m extra = fold (\<lambda>(k, v). AList.update k v) extra m"

lemma serialisable_update:
  "serialisable (JObj m) \<Longrightarrow> serialisable (JObj extra) \<Longrightarrow> serialisable (JObj (dict_update m extra))"
proof (induction extra arbitrary: m)
  case (Cons kv extra)
  then have "serialisable (JObj (AList.update (fst kv) (snd kv) m))"
    by (simp add: list_all_update)
  with Cons show ?case by (cases kv) (simp add: dict_update_def)
qed (simp add: dict_update_def)

text \<open>\<open>part in text\<close> for strings.\<close>

fun starts_with :: "string \<Rightarrow> string \<Rightarrow> bool" where
  "starts_with [] s = True"
| "starts_with (p # ps) [] = False"
| "starts_with (p # ps) (c # cs) = (p = c \<and> starts_with ps cs)"

fun contains :: "string \<Rightarrow> string \<Rightarrow> bool" where
  "contains part [] = (part = [])"
| "contains part (c # cs) = (starts_with part (c # cs) \<or> contains part cs)"

lemma starts_with_iff: "starts_with p s \<longleftrightarrow> (\<exists>t. s = p @ t)"
  by (induction p s rule: starts_with.induct) auto

lemma contains_iff: "contains p s \<longleftrightarrow> (\<exists>a b. s = a @ p @ b)"
proof (induction s)
  case Nil
  show ?case by auto
next
  case (Cons c cs)
  have "(\<exists>a b. c # cs = a @ p @ b) \<longleftrightarrow> (\<exists>b. c # cs = p @ b) \<or> (\<exists>a b. cs = a @ p @ b)"
    by (metis append_Cons append_Nil list.exhaust_sel list.sel(3))
  then show ?case by (simp add: starts_with_iff Cons.IH)
qed

end
