(* ===== verification/State_Manager.thy ===== *)
theory State_Manager
  imports Py_Json
begin

text \<open>
  \<open>flinttrade_engine/state_manager.py\<close>: the persistent state machine of a strategy session.

  \<open>StateManager\<close> keeps a snapshot per strategy in memory and, when DuckDB is available, a
  row per strategy and an append-only audit table. A stored JSON text is represented by the
  document it denotes. Clock readings are arguments; so is the outcome of each database
  write, since the code swallows a failed write. The per-strategy lock makes every operation
  one step.
\<close>

subsection \<open>States and the transition table\<close>

datatype strategy_state = IDLE | ARMED | ENTRY_PENDING | IN_POSITION | EXIT_PENDING | EXITED | ERROR | PAUSED

fun state_value :: "strategy_state \<Rightarrow> string" where
  "state_value IDLE = ''IDLE''"
| "state_value ARMED = ''ARMED''"
| "state_value ENTRY_PENDING = ''ENTRY_PENDING''"
| "state_value IN_POSITION = ''IN_POSITION''"
| "state_value EXIT_PENDING = ''EXIT_PENDING''"
| "state_value EXITED = ''EXITED''"
| "state_value ERROR = ''ERROR''"
| "state_value PAUSED = ''PAUSED''"

definition all_states :: "strategy_state list" where
  "all_states = [IDLE, ARMED, ENTRY_PENDING, IN_POSITION, EXIT_PENDING, EXITED, ERROR, PAUSED]"

text \<open>\<open>StrategyState(value)\<close>; \<open>None\<close> is its \<open>ValueError\<close>.\<close>

definition StrategyState :: "string \<Rightarrow> strategy_state option" where
  "StrategyState v = find (\<lambda>st. state_value st = v) all_states"

fun VALID_TRANSITIONS :: "strategy_state \<Rightarrow> strategy_state list" where
  "VALID_TRANSITIONS IDLE = [ARMED, ERROR, PAUSED]"
| "VALID_TRANSITIONS ARMED = [ENTRY_PENDING, IDLE, ERROR, PAUSED]"
| "VALID_TRANSITIONS ENTRY_PENDING = [IN_POSITION, ARMED, ERROR, PAUSED]"
| "VALID_TRANSITIONS IN_POSITION = [EXIT_PENDING, EXITED, ERROR, PAUSED]"
| "VALID_TRANSITIONS EXIT_PENDING = [EXITED, IN_POSITION, ERROR, PAUSED]"
| "VALID_TRANSITIONS EXITED = [IDLE, ERROR]"
| "VALID_TRANSITIONS ERROR = [IDLE]"
| "VALID_TRANSITIONS PAUSED = [IDLE, ARMED, ENTRY_PENDING, IN_POSITION, EXIT_PENDING, ERROR]"

lemma StrategyState_value [simp]: "StrategyState (state_value st) = Some st"
  by (cases st) (simp_all add: StrategyState_def all_states_def)

lemma state_value_of_StrategyState: "StrategyState v = Some st \<Longrightarrow> state_value st = v"
  by (auto simp: StrategyState_def find_Some_iff)

lemma state_value_inject [simp]: "state_value a = state_value b \<longleftrightarrow> a = b"
  by (metis StrategyState_value option.inject)

subsection \<open>Records, tables and the manager\<close>

record snapshot =
  sn_strategy_id :: string
  sn_state :: string
  sn_previous :: "string option"
  sn_entered_at :: string
  sn_last_reason :: string
  sn_session_date :: string
  sn_metadata :: metadata

record transition_record =
  tr_strategy_id :: string
  tr_from :: string
  tr_to :: string
  tr_reason :: string
  tr_timestamp :: string
  tr_metadata :: metadata

record state_row =
  row_state :: string
  row_previous :: "string option"
  row_entered_at :: string
  row_last_reason :: string
  row_session_date :: string
  row_metadata :: "json option"

record transition_row =
  tw_strategy_id :: string
  tw_from :: string
  tw_to :: string
  tw_reason :: string
  tw_timestamp :: string
  tw_metadata :: "json option"

record state_db =
  ft_strategy_state :: "(string \<times> state_row) list"
  ft_state_transitions :: "transition_row list"

record state_manager =
  cache :: "(string \<times> snapshot) list"
  conn :: "state_db option"

datatype state_error =
  StrategyStateNotFoundError string
| InvalidTransitionError strategy_state strategy_state string
| StateValueError string
| RecordValidationError string

text \<open>One reading of the clock: \<open>_now_iso()\<close> and the date \<open>_now_ist().strftime("%Y-%m-%d")\<close>.\<close>

record clock =
  now_iso :: string
  today :: string

text \<open>Whether the upsert and the audit insert of an operation succeed.\<close>

record db_outcome =
  upsert_ok :: bool
  insert_ok :: bool

definition empty_db :: state_db where
  "empty_db = \<lparr>ft_strategy_state = [], ft_state_transitions = []\<rparr>"

definition row_of :: "snapshot \<Rightarrow> json \<Rightarrow> state_row" where
  "row_of sn doc =
     \<lparr>row_state = sn_state sn, row_previous = sn_previous sn, row_entered_at = sn_entered_at sn,
      row_last_reason = sn_last_reason sn, row_session_date = sn_session_date sn, row_metadata = Some doc\<rparr>"

definition persist_state :: "bool \<Rightarrow> snapshot \<Rightarrow> state_manager \<Rightarrow> state_manager" where
  "persist_state ok sn m =
     (case conn m of
        None \<Rightarrow> m
      | Some db \<Rightarrow>
          (case json_dumps (sn_metadata sn) of
             None \<Rightarrow> m
           | Some doc \<Rightarrow>
               if ok then m\<lparr>conn := Some (db\<lparr>ft_strategy_state :=
                              AList.update (sn_strategy_id sn) (row_of sn doc) (ft_strategy_state db)\<rparr>)\<rparr>
               else m))"

definition persist_transition :: "bool \<Rightarrow> transition_record \<Rightarrow> state_manager \<Rightarrow> state_manager" where
  "persist_transition ok r m =
     (case conn m of
        None \<Rightarrow> m
      | Some db \<Rightarrow>
          (case json_dumps (tr_metadata r) of
             None \<Rightarrow> m
           | Some doc \<Rightarrow>
               if ok then m\<lparr>conn := Some (db\<lparr>ft_state_transitions := ft_state_transitions db @
                              [\<lparr>tw_strategy_id = tr_strategy_id r, tw_from = tr_from r, tw_to = tr_to r,
                                tw_reason = tr_reason r, tw_timestamp = tr_timestamp r, tw_metadata = Some doc\<rparr>]\<rparr>)\<rparr>
               else m))"

subsection \<open>Recovery\<close>

text \<open>\<open>json.loads(meta_str or "{}")\<close> with \<open>{}\<close> for a text that does not parse.\<close>

definition load_meta :: "json option \<Rightarrow> json" where
  "load_meta col = (case col of None \<Rightarrow> JObj [] | Some doc \<Rightarrow> doc)"

definition or_text :: "string \<Rightarrow> string \<Rightarrow> string" where
  "or_text v dflt = (if v = [] then dflt else v)"

text \<open>The loop of \<open>_recover\<close>; a document that is not an object fails validation and ends it.\<close>

fun recover_rows :: "string \<Rightarrow> (string \<times> state_row) list \<Rightarrow> (string \<times> snapshot) list \<Rightarrow> (string \<times> snapshot) list" where
  "recover_rows day [] c = c"
| "recover_rows day ((sid, r) # rows) c =
     (case load_meta (row_metadata r) of
        JObj meta \<Rightarrow>
          recover_rows day rows (AList.update sid
            \<lparr>sn_strategy_id = sid, sn_state = row_state r, sn_previous = row_previous r,
             sn_entered_at = row_entered_at r, sn_last_reason = row_last_reason r,
             sn_session_date = or_text (row_session_date r) day, sn_metadata = meta\<rparr> c)
      | _ \<Rightarrow> c)"

definition recover :: "string \<Rightarrow> state_manager \<Rightarrow> state_manager" where
  "recover day m =
     (case conn m of None \<Rightarrow> m | Some db \<Rightarrow> m\<lparr>cache := recover_rows day (ft_strategy_state db) (cache m)\<rparr>)"

text \<open>
  \<open>__init__\<close> on a database file (\<open>None\<close>: the \<open>duckdb\<close> package is missing), and on a file
  that did not exist.
\<close>

definition state_open :: "string \<Rightarrow> state_db option \<Rightarrow> state_manager" where
  "state_open day db = recover day \<lparr>cache = [], conn = db\<rparr>"

definition close_db :: "state_manager \<Rightarrow> state_manager" where
  "close_db m = m\<lparr>conn := None\<rparr>"

subsection \<open>Operations\<close>

definition initialise :: "clock \<Rightarrow> db_outcome \<Rightarrow> string \<Rightarrow> metadata option \<Rightarrow> state_manager \<Rightarrow> state_manager \<times> snapshot" where
  "initialise ck io sid meta m =
     (case map_of (cache m) sid of
        Some sn \<Rightarrow> (m, sn)
      | None \<Rightarrow>
          (let sn = \<lparr>sn_strategy_id = sid, sn_state = state_value IDLE, sn_previous = None,
                     sn_entered_at = now_iso ck, sn_last_reason = [], sn_session_date = today ck,
                     sn_metadata = (case meta of None \<Rightarrow> [] | Some d \<Rightarrow> d)\<rparr>
           in (persist_state (upsert_ok io) sn (m\<lparr>cache := AList.update sid sn (cache m)\<rparr>), sn)))"

text \<open>The changes that \<open>transition\<close> and \<open>reset\<close> make to the snapshot object.\<close>

definition enter_state :: "clock \<Rightarrow> strategy_state \<Rightarrow> string \<Rightarrow> snapshot \<Rightarrow> snapshot" where
  "enter_state ck st reason sn =
     sn\<lparr>sn_previous := Some (sn_state sn), sn_state := state_value st,
        sn_entered_at := now_iso ck, sn_last_reason := reason\<rparr>"

definition merge_meta :: "metadata option \<Rightarrow> snapshot \<Rightarrow> snapshot" where
  "merge_meta meta sn =
     (case meta of
        None \<Rightarrow> sn
      | Some d \<Rightarrow> if d = [] then sn else sn\<lparr>sn_metadata := dict_update (sn_metadata sn) d\<rparr>)"

definition transition :: "clock \<Rightarrow> db_outcome \<Rightarrow> string \<Rightarrow> strategy_state \<Rightarrow> string \<Rightarrow> metadata option
    \<Rightarrow> state_manager \<Rightarrow> (state_manager, state_error, snapshot) outcome" where
  "transition ck io sid new_state reason meta m =
     (case map_of (cache m) sid of
        None \<Rightarrow> (m, Inl (StrategyStateNotFoundError sid))
      | Some sn \<Rightarrow>
          (case StrategyState (sn_state sn) of
             None \<Rightarrow> (m, Inl (StateValueError (sn_state sn)))
           | Some current \<Rightarrow>
               if new_state \<notin> set (VALID_TRANSITIONS current)
               then (m, Inl (InvalidTransitionError current new_state sid))
               else
                 (let sn' = merge_meta meta (enter_state ck new_state reason sn);
                      r = \<lparr>tr_strategy_id = sid, tr_from = sn_state sn, tr_to = state_value new_state,
                           tr_reason = reason, tr_timestamp = now_iso ck,
                           tr_metadata = (case meta of None \<Rightarrow> [] | Some d \<Rightarrow> d)\<rparr>
                  in (persist_transition (insert_ok io) r
                        (persist_state (upsert_ok io) sn' (m\<lparr>cache := AList.update sid sn' (cache m)\<rparr>)),
                      Inr sn'))))"

definition reset :: "clock \<Rightarrow> db_outcome \<Rightarrow> string \<Rightarrow> string \<Rightarrow> state_manager \<Rightarrow> state_manager" where
  "reset ck io sid reason m =
     (case map_of (cache m) sid of
        None \<Rightarrow> m
      | Some sn \<Rightarrow>
          (let sn' = (enter_state ck IDLE reason sn)\<lparr>sn_session_date := today ck\<rparr>;
               r = \<lparr>tr_strategy_id = sid, tr_from = sn_state sn, tr_to = state_value IDLE,
                    tr_reason = reason, tr_timestamp = now_iso ck, tr_metadata = []\<rparr>
           in persist_transition (insert_ok io) r
                (persist_state (upsert_ok io) sn' (m\<lparr>cache := AList.update sid sn' (cache m)\<rparr>))))"

definition get :: "state_manager \<Rightarrow> string \<Rightarrow> state_error + snapshot" where
  "get m sid =
     (case map_of (cache m) sid of None \<Rightarrow> Inl (StrategyStateNotFoundError sid) | Some sn \<Rightarrow> Inr sn)"

definition current_state :: "state_manager \<Rightarrow> string \<Rightarrow> state_error + strategy_state" where
  "current_state m sid =
     bind_res (get m sid) (\<lambda>sn.
       case StrategyState (sn_state sn) of None \<Rightarrow> Inl (StateValueError (sn_state sn)) | Some st \<Rightarrow> Inr st)"

definition is_in_state :: "state_manager \<Rightarrow> string \<Rightarrow> strategy_state \<Rightarrow> state_error + bool" where
  "is_in_state m sid st =
     (case current_state m sid of
        Inr cur \<Rightarrow> Inr (cur = st)
      | Inl (StrategyStateNotFoundError i) \<Rightarrow> Inr False
      | Inl e \<Rightarrow> Inl e)"

definition history_rows :: "state_manager \<Rightarrow> string \<Rightarrow> transition_row list" where
  "history_rows m sid =
     (case conn m of None \<Rightarrow> [] | Some db \<Rightarrow> filter (\<lambda>r. tw_strategy_id r = sid) (ft_state_transitions db))"

fun history_record :: "transition_row \<Rightarrow> state_error + transition_record" where
  "history_record r =
     (case load_meta (tw_metadata r) of
        JObj d \<Rightarrow> Inr \<lparr>tr_strategy_id = tw_strategy_id r, tr_from = tw_from r, tr_to = tw_to r,
                     tr_reason = tw_reason r, tr_timestamp = tw_timestamp r, tr_metadata = d\<rparr>
      | _ \<Rightarrow> Inl (RecordValidationError (tw_strategy_id r)))"

fun history_records :: "transition_row list \<Rightarrow> state_error + transition_record list" where
  "history_records [] = Inr []"
| "history_records (r # rs) =
     bind_res (history_record r) (\<lambda>rec. bind_res (history_records rs) (\<lambda>recs. Inr (rec # recs)))"

text \<open>Newest first; a negative limit is refused by the database and answered with \<open>[]\<close>.\<close>

definition get_history :: "state_manager \<Rightarrow> string \<Rightarrow> int \<Rightarrow> state_error + transition_record list" where
  "get_history m sid limit =
     (if limit < 0 then Inr [] else history_records (take (nat limit) (rev (history_rows m sid))))"

definition all_snapshots :: "state_manager \<Rightarrow> snapshot list" where
  "all_snapshots m = map snd (cache m)"

definition strategies_in_state :: "state_manager \<Rightarrow> strategy_state \<Rightarrow> string list" where
  "strategies_in_state m st = map fst (filter (\<lambda>(sid, sn). sn_state sn = state_value st) (cache m))"

subsection \<open>Runs\<close>

datatype state_op =
  OpInitialise clock string "metadata option"
| OpTransition clock string strategy_state string "metadata option"
| OpReset clock string string

fun apply_op :: "db_outcome \<Rightarrow> state_manager \<Rightarrow> state_op \<Rightarrow> state_manager" where
  "apply_op io m (OpInitialise ck sid meta) = fst (initialise ck io sid meta m)"
| "apply_op io m (OpTransition ck sid st reason meta) = fst (transition ck io sid st reason meta m)"
| "apply_op io m (OpReset ck sid reason) = reset ck io sid reason m"

definition audit_rows :: "state_manager \<Rightarrow> transition_row list" where
  "audit_rows m = (case conn m of None \<Rightarrow> [] | Some db \<Rightarrow> ft_state_transitions db)"

text \<open>A recorded transition is one the table allows, or a reset.\<close>

definition legal_row :: "transition_row \<Rightarrow> bool" where
  "legal_row r =
     (case (StrategyState (tw_from r), StrategyState (tw_to r)) of
        (Some a, Some b) \<Rightarrow> b \<in> set (VALID_TRANSITIONS a) \<or> b = IDLE
      | _ \<Rightarrow> False)"

definition named_state :: "string \<times> snapshot \<Rightarrow> bool" where
  "named_state = (\<lambda>(sid, sn). sn_strategy_id sn = sid \<and> StrategyState (sn_state sn) \<noteq> None)"

definition audit_inv :: "state_manager \<Rightarrow> bool" where
  "audit_inv m \<longleftrightarrow> list_all named_state (cache m) \<and> list_all legal_row (audit_rows m)"

lemma cache_persist [simp]:
  "cache (persist_state ok sn m) = cache m" "cache (persist_transition ok r m) = cache m"
  by (simp_all add: persist_state_def persist_transition_def split: option.splits)

lemma audit_rows_persist_state [simp]: "audit_rows (persist_state ok sn m) = audit_rows m"
  by (auto simp: audit_rows_def persist_state_def split: option.splits)

lemma audit_rows_cache [simp]: "audit_rows (m\<lparr>cache := c\<rparr>) = audit_rows m"
  by (simp add: audit_rows_def)

lemma audit_rows_persist_transition:
  "set (audit_rows (persist_transition ok r m)) \<subseteq> set (audit_rows m) \<union>
     {\<lparr>tw_strategy_id = tr_strategy_id r, tw_from = tr_from r, tw_to = tr_to r,
       tw_reason = tr_reason r, tw_timestamp = tr_timestamp r, tw_metadata = json_dumps (tr_metadata r)\<rparr>}"
  by (auto simp: audit_rows_def persist_transition_def split: option.splits)

lemma legal_persist_transition:
  assumes "list_all legal_row (audit_rows m)"
    and "legal_row \<lparr>tw_strategy_id = tr_strategy_id r, tw_from = tr_from r, tw_to = tr_to r,
       tw_reason = tr_reason r, tw_timestamp = tr_timestamp r, tw_metadata = json_dumps (tr_metadata r)\<rparr>"
  shows "list_all legal_row (audit_rows (persist_transition ok r m))"
  using assms audit_rows_persist_transition [of ok r m] by (auto simp: list_all_iff)

lemma named_lookup: "list_all named_state c \<Longrightarrow> map_of c sid = Some sn \<Longrightarrow> named_state (sid, sn)"
  by (auto simp: list_all_iff dest: map_of_SomeD)

lemma enter_state_simps [simp]:
  "sn_state (enter_state ck st reason sn) = state_value st"
  "sn_strategy_id (enter_state ck st reason sn) = sn_strategy_id sn"
  "sn_metadata (enter_state ck st reason sn) = sn_metadata sn"
  "sn_session_date (enter_state ck st reason sn) = sn_session_date sn"
  by (simp_all add: enter_state_def)

lemma merge_meta_simps [simp]:
  "sn_state (merge_meta meta sn) = sn_state sn"
  "sn_strategy_id (merge_meta meta sn) = sn_strategy_id sn"
  "sn_session_date (merge_meta meta sn) = sn_session_date sn"
  by (simp_all add: merge_meta_def split: option.splits)

lemma audit_inv_initialise: "audit_inv m \<Longrightarrow> audit_inv (fst (initialise ck io sid meta m))"
  by (auto simp: audit_inv_def initialise_def named_state_def Let_def list_all_update simp del: state_value.simps
      split: option.splits)

lemma audit_inv_transition: "audit_inv m \<Longrightarrow> audit_inv (fst (transition ck io sid st reason meta m))"
proof (cases "map_of (cache m) sid")
  case None
  then show "audit_inv m \<Longrightarrow> ?thesis" by (simp add: transition_def)
next
  case (Some sn)
  assume inv: "audit_inv m"
  with Some have "named_state (sid, sn)" by (auto simp: audit_inv_def intro: named_lookup)
  then obtain cur where cur: "StrategyState (sn_state sn) = Some cur" "sn_strategy_id sn = sid"
    by (auto simp: named_state_def)
  show ?thesis
  proof (cases "st \<in> set (VALID_TRANSITIONS cur)")
    case False
    with Some cur inv show ?thesis by (simp add: transition_def)
  next
    case True
    with Some cur inv show ?thesis
      by (auto simp: transition_def audit_inv_def Let_def legal_row_def named_state_def
          intro!: legal_persist_transition list_all_update)
  qed
qed

lemma audit_inv_reset: "audit_inv m \<Longrightarrow> audit_inv (reset ck io sid reason m)"
proof (cases "map_of (cache m) sid")
  case None
  then show "audit_inv m \<Longrightarrow> ?thesis" by (simp add: reset_def)
next
  case (Some sn)
  assume inv: "audit_inv m"
  with Some have "named_state (sid, sn)" by (auto simp: audit_inv_def intro: named_lookup)
  with Some inv show ?thesis
    by (auto simp: reset_def audit_inv_def Let_def legal_row_def named_state_def simp del: state_value.simps
        intro!: legal_persist_transition list_all_update)
qed

interpretation audit: machine "\<lambda>m (io, op). apply_op io m op" audit_inv
proof unfold_locales
  fix m and io_op :: "db_outcome \<times> state_op"
  assume "audit_inv m"
  then show "audit_inv (case io_op of (io, op) \<Rightarrow> apply_op io m op)"
    by (cases "snd io_op") (auto simp: audit_inv_initialise audit_inv_transition audit_inv_reset split: prod.splits)
qed

text \<open>
  C39. The audit table only holds legal transitions: whatever operations run and whichever
  database writes fail, every recorded transition is allowed by the table or is a reset to
  IDLE, and every strategy is in one of the eight states.
\<close>

theorem audit_table_legal:
  "list_all legal_row (audit_rows (foldl (\<lambda>m (io, op). apply_op io m op) (state_open day (Some empty_db)) ops))
   \<and> list_all named_state (cache (foldl (\<lambda>m (io, op). apply_op io m op) (state_open day (Some empty_db)) ops))"
proof -
  have "audit_inv (state_open day (Some empty_db))"
    by (simp add: audit_inv_def state_open_def recover_def empty_db_def audit_rows_def)
  then show ?thesis using audit.inv_run by (auto simp: audit_inv_def)
qed

subsection \<open>Runs whose writes succeed\<close>

definition meta_of :: "metadata option \<Rightarrow> metadata" where
  "meta_of meta = (case meta of None \<Rightarrow> [] | Some d \<Rightarrow> d)"

text \<open>Metadata is JSON and the clock prints a date.\<close>

fun good_op :: "state_op \<Rightarrow> bool" where
  "good_op (OpInitialise ck sid meta) = (serialisable (JObj (meta_of meta)) \<and> today ck \<noteq> [])"
| "good_op (OpTransition ck sid st reason meta) = serialisable (JObj (meta_of meta))"
| "good_op (OpReset ck sid reason) = (today ck \<noteq> [])"

definition stored_op :: "state_manager \<Rightarrow> state_op \<Rightarrow> state_manager" where
  "stored_op m op = (if good_op op then apply_op \<lparr>upsert_ok = True, insert_ok = True\<rparr> m op else m)"

text \<open>A list of transitions that leads from one state to another without a gap.\<close>

fun linked :: "string \<Rightarrow> transition_row list \<Rightarrow> string \<Rightarrow> bool" where
  "linked a [] b = (a = b)"
| "linked a (r # rs) b = (tw_from r = a \<and> linked (tw_to r) rs b)"

definition stored_row :: "string \<times> snapshot \<Rightarrow> string \<times> state_row" where
  "stored_row = (\<lambda>(sid, sn). (sid, row_of sn (JObj (sn_metadata sn))))"

definition storable :: "string \<times> snapshot \<Rightarrow> bool" where
  "storable = (\<lambda>(sid, sn). sn_strategy_id sn = sid \<and> serialisable (JObj (sn_metadata sn)) \<and> sn_session_date sn \<noteq> [])"

definition history_linked :: "state_manager \<Rightarrow> string \<Rightarrow> bool" where
  "history_linked m sid =
     (case map_of (cache m) sid of
        None \<Rightarrow> history_rows m sid = []
      | Some sn \<Rightarrow> linked (state_value IDLE) (history_rows m sid) (sn_state sn))"

definition stored_inv :: "state_manager \<Rightarrow> bool" where
  "stored_inv m \<longleftrightarrow>
     (\<exists>db. conn m = Some db \<and> ft_strategy_state db = map stored_row (cache m))
     \<and> distinct (map fst (cache m)) \<and> list_all storable (cache m)
     \<and> (\<forall>sid. history_linked m sid)"

lemma linked_snoc: "linked a rs b \<Longrightarrow> tw_from r = b \<Longrightarrow> tw_to r = c \<Longrightarrow> linked a (rs @ [r]) c"
  by (induction rs arbitrary: a) auto

lemma map_stored_update:
  "AList.update sid (row_of sn (JObj (sn_metadata sn))) (map stored_row c) = map stored_row (AList.update sid sn c)"
  by (induction c) (auto simp: stored_row_def)

lemma storable_lookup: "list_all storable c \<Longrightarrow> map_of c sid = Some sn \<Longrightarrow> storable (sid, sn)"
  by (auto simp: list_all_iff dest: map_of_SomeD)

text \<open>
  What writing a snapshot and an audit record does: the tables follow the cache and the
  history of the strategy grows by one link.
\<close>

definition note_change :: "snapshot \<Rightarrow> transition_record \<Rightarrow> state_manager \<Rightarrow> state_manager" where
  "note_change sn r m =
     persist_transition True r
       (persist_state True sn (m\<lparr>cache := AList.update (sn_strategy_id sn) sn (cache m)\<rparr>))"

lemma stored_inv_persist_state:
  assumes "stored_inv m" and "storable (sid, sn)"
  shows "\<exists>db. conn (persist_state True sn (m\<lparr>cache := AList.update sid sn (cache m)\<rparr>)) = Some db
      \<and> ft_strategy_state db = map stored_row (AList.update sid sn (cache m))
      \<and> (\<forall>db0. conn m = Some db0 \<longrightarrow> ft_state_transitions db = ft_state_transitions db0)"
  using assms
  by (auto simp: stored_inv_def persist_state_def storable_def json_dumps_def map_stored_update
      simp del: serialisable.simps split: option.splits)

lemma stored_inv_note_change:
  assumes "stored_inv m" and "map_of (cache m) sid = Some old" and "storable (sid, sn)"
    and "tr_strategy_id r = sid" and "tr_from r = sn_state old" and "tr_to r = sn_state sn"
    and "serialisable (JObj (tr_metadata r))"
  shows "stored_inv (note_change sn r m)"
proof -
  let ?c = "AList.update sid sn (cache m)"
  have sid: "sn_strategy_id sn = sid" using assms(3) by (simp add: storable_def)
  obtain db0 where db0: "conn m = Some db0" using assms(1) by (auto simp: stored_inv_def)
  obtain db where db: "conn (persist_state True sn (m\<lparr>cache := ?c\<rparr>)) = Some db"
      "ft_strategy_state db = map stored_row ?c" "ft_state_transitions db = ft_state_transitions db0"
    using stored_inv_persist_state [OF assms(1,3)] db0 by blast
  let ?w = "\<lparr>tw_strategy_id = sid, tw_from = sn_state old, tw_to = sn_state sn, tw_reason = tr_reason r,
      tw_timestamp = tr_timestamp r, tw_metadata = Some (JObj (tr_metadata r))\<rparr>"
  have "conn (note_change sn r m) = Some (db\<lparr>ft_state_transitions := ft_state_transitions db0 @ [?w]\<rparr>)"
    using assms(4-7) by (simp add: note_change_def sid persist_transition_def db json_dumps_def del: serialisable.simps)
  note conn' = this
  have cache': "cache (note_change sn r m) = ?c" by (simp add: note_change_def sid)
  have rows: "history_rows (note_change sn r m) k = history_rows m k @ (if k = sid then [?w] else [])" for k
    by (auto simp: history_rows_def conn' db0)
  have old: "linked (state_value IDLE) (history_rows m sid) (sn_state old)"
    using assms(1,2) by (auto simp: stored_inv_def history_linked_def dest!: spec [of _ sid])
  have "history_linked (note_change sn r m) k" for k
  proof (cases "k = sid")
    case True
    then show ?thesis
      using linked_snoc [OF old, of ?w "sn_state sn"] by (simp add: history_linked_def cache' rows)
  next
    case False
    have "history_linked m k" using assms(1) by (simp add: stored_inv_def)
    with False show ?thesis by (simp add: history_linked_def cache' rows split: option.splits)
  qed
  with assms(1,3) show ?thesis
    by (simp add: stored_inv_def conn' cache' db distinct_update list_all_update)
qed

lemma stored_inv_initialise:
  assumes "stored_inv m" and "good_op (OpInitialise ck sid meta)"
  shows "stored_inv (fst (initialise ck \<lparr>upsert_ok = True, insert_ok = b\<rparr> sid meta m))"
proof (cases "map_of (cache m) sid")
  case (Some sn)
  with assms show ?thesis by (simp add: initialise_def)
next
  case None
  define sn where "sn = \<lparr>sn_strategy_id = sid, sn_state = state_value IDLE, sn_previous = None,
      sn_entered_at = now_iso ck, sn_last_reason = [], sn_session_date = today ck, sn_metadata = meta_of meta\<rparr>"
  let ?m = "persist_state True sn (m\<lparr>cache := AList.update sid sn (cache m)\<rparr>)"
  have st: "storable (sid, sn)" using assms(2) by (simp add: storable_def sn_def)
  have run: "fst (initialise ck \<lparr>upsert_ok = True, insert_ok = b\<rparr> sid meta m) = ?m"
    by (simp add: initialise_def None sn_def meta_of_def Let_def)
  obtain db0 where db0: "conn m = Some db0" using assms(1) by (auto simp: stored_inv_def)
  obtain db where db: "conn ?m = Some db" "ft_strategy_state db = map stored_row (AList.update sid sn (cache m))"
      "ft_state_transitions db = ft_state_transitions db0"
    using stored_inv_persist_state [OF assms(1) st] db0 by blast
  have rows: "history_rows ?m k = history_rows m k" for k by (simp add: history_rows_def db db0)
  have idle: "sn_state sn = state_value IDLE" by (simp add: sn_def)
  have "history_linked ?m k" for k
  proof -
    have "history_linked m k" using assms(1) by (simp add: stored_inv_def)
    then show ?thesis using None idle by (cases "k = sid") (auto simp: history_linked_def rows split: option.splits)
  qed
  with assms(1) st show ?thesis unfolding run
    by (simp add: stored_inv_def db distinct_update list_all_update)
qed

lemma stored_inv_transition:
  assumes "stored_inv m" and "serialisable (JObj (meta_of meta))"
  shows "stored_inv (fst (transition ck \<lparr>upsert_ok = True, insert_ok = True\<rparr> sid st reason meta m))"
proof (cases "map_of (cache m) sid")
  case None
  with assms show ?thesis by (simp add: transition_def)
next
  case (Some sn)
  have sn: "storable (sid, sn)" using assms(1) Some by (auto simp: stored_inv_def intro: storable_lookup)
  let ?sn = "merge_meta meta (enter_state ck st reason sn)"
  let ?r = "\<lparr>tr_strategy_id = sid, tr_from = sn_state sn, tr_to = state_value st, tr_reason = reason,
      tr_timestamp = now_iso ck, tr_metadata = meta_of meta\<rparr>"
  have "serialisable (JObj (sn_metadata ?sn))"
    using sn assms(2) serialisable_update
    by (auto simp: merge_meta_def meta_of_def storable_def simp del: serialisable.simps split: option.splits)
  then have "storable (sid, ?sn)" using sn by (simp add: storable_def del: serialisable.simps)
  then have "stored_inv (note_change ?sn ?r m)"
    using assms Some by (intro stored_inv_note_change) simp_all
  moreover have "fst (transition ck \<lparr>upsert_ok = True, insert_ok = True\<rparr> sid st reason meta m) \<in> {m, note_change ?sn ?r m}"
    using sn by (auto simp: transition_def Some note_change_def meta_of_def storable_def Let_def split: option.splits)
  ultimately show ?thesis using assms(1) by auto
qed

lemma stored_inv_reset:
  assumes "stored_inv m" and "today ck \<noteq> []"
  shows "stored_inv (reset ck \<lparr>upsert_ok = True, insert_ok = True\<rparr> sid reason m)"
proof (cases "map_of (cache m) sid")
  case None
  with assms show ?thesis by (simp add: reset_def)
next
  case (Some sn)
  have sn: "storable (sid, sn)" using assms(1) Some by (auto simp: stored_inv_def intro: storable_lookup)
  let ?sn = "(enter_state ck IDLE reason sn)\<lparr>sn_session_date := today ck\<rparr>"
  let ?r = "\<lparr>tr_strategy_id = sid, tr_from = sn_state sn, tr_to = state_value IDLE, tr_reason = reason,
      tr_timestamp = now_iso ck, tr_metadata = []\<rparr>"
  have "storable (sid, ?sn)" using sn assms(2) by (simp add: storable_def)
  then have "stored_inv (note_change ?sn ?r m)"
    using assms Some by (intro stored_inv_note_change) simp_all
  moreover have "reset ck \<lparr>upsert_ok = True, insert_ok = True\<rparr> sid reason m = note_change ?sn ?r m"
    using sn by (auto simp: reset_def Some note_change_def storable_def Let_def)
  ultimately show ?thesis by simp
qed

lemma stored_inv_op: "stored_inv m \<Longrightarrow> stored_inv (stored_op m op)"
  by (cases op) (simp_all add: stored_op_def stored_inv_initialise stored_inv_transition stored_inv_reset
      del: serialisable.simps)

text \<open>Reading the rows back rebuilds the cache entry by entry.\<close>

lemma recover_stored:
  assumes "list_all storable c" and "distinct (map fst (acc @ c))"
  shows "recover_rows day (map stored_row c) acc = acc @ c"
  using assms
proof (induction c arbitrary: acc)
  case (Cons e c)
  obtain sid sn where e: "e = (sid, sn)" by (cases e)
  have "sid \<notin> fst ` set acc" using Cons.prems(2) e by auto
  with Cons show ?case
    by (simp add: e stored_row_def storable_def row_of_def load_meta_def or_text_def update_new_key
        del: serialisable.simps)
qed simp

definition state_reopen :: "string \<Rightarrow> state_manager \<Rightarrow> state_manager" where
  "state_reopen day m = state_open day (conn m)"

lemma state_reopen_id: "stored_inv m \<Longrightarrow> state_reopen day m = m"
  by (cases m) (auto simp: stored_inv_def state_reopen_def state_open_def recover_def recover_stored)

interpretation sessions: durable_machine stored_op stored_inv "state_reopen day" cache for day
  by unfold_locales (simp_all add: stored_inv_op state_reopen_id)

lemma stored_inv_fresh: "stored_inv (state_open day (Some empty_db))"
  by (simp add: stored_inv_def state_open_def recover_def empty_db_def history_linked_def history_rows_def)


text \<open>
  The audit trail has no gaps: after any run whose writes succeed, also across a
  restart, the recorded transitions of a strategy start at IDLE, each begins where the
  previous one ended, and the last ends in the current state.
\<close>

theorem history_has_no_gaps:
  assumes "m = foldl stored_op (state_reopen day (foldl stored_op (state_open day0 (Some empty_db)) ops)) ops'"
    and "map_of (cache m) sid = Some sn"
  shows "linked (state_value IDLE) (history_rows m sid) (sn_state sn)"
proof -
  have "stored_inv m" unfolding assms(1) by (rule sessions.inv_restart_run [OF stored_inv_fresh])
  with assms(2) show ?thesis by (auto simp: stored_inv_def history_linked_def dest!: spec [of _ sid])
qed

definition example_clock :: clock where
  "example_clock = \<lparr>now_iso = ''2026-01-05T09:20:00+05:30'', today = ''2026-01-05''\<rparr>"

definition example_ops :: "state_op list" where
  "example_ops = [OpInitialise example_clock ''s1'' None, OpTransition example_clock ''s1'' ARMED ''CONDITIONS_MET'' None,
     OpTransition example_clock ''s1'' ENTRY_PENDING ''ORDER_PLACED'' (Some [(''order_id'', JCell (PStr ''77''))]),
     OpTransition example_clock ''s1'' EXITED ''BAD'' None,
     OpTransition example_clock ''s1'' IN_POSITION ''ORDER_FILLED'' None]"

definition example_manager :: state_manager where
  "example_manager = foldl stored_op (state_open ''2026-01-05'' (Some empty_db)) example_ops"

theorem history_has_no_gaps_witness:
  "linked (state_value IDLE) (history_rows example_manager ''s1'') (state_value IN_POSITION)
   \<and> length (history_rows example_manager ''s1'') = 3"
proof -
  let ?sn = "\<lparr>sn_strategy_id = ''s1'', sn_state = ''IN_POSITION'', sn_previous = Some ''ENTRY_PENDING'',
    sn_entered_at = now_iso example_clock, sn_last_reason = ''ORDER_FILLED'', sn_session_date = ''2026-01-05'',
    sn_metadata = [(''order_id'', JCell (PStr ''77''))]\<rparr>"
  have run: "example_manager = foldl stored_op (state_reopen ''2026-01-06''
      (foldl stored_op (state_open ''2026-01-05'' (Some empty_db)) example_ops)) []"
    by (simp add: example_manager_def state_reopen_id sessions.inv_run [OF stored_inv_fresh])
  have "map_of (cache example_manager) ''s1'' = Some ?sn" "length (history_rows example_manager ''s1'') = 3"
    by code_simp+
  with history_has_no_gaps [OF run] show ?thesis by fastforce
qed

subsection \<open>What each operation does\<close>

text \<open>
  \<open>transition\<close> on every branch: an unknown strategy and a move outside the table are
  refused and change nothing; an allowed move records where the strategy came from, merges
  the metadata, keeps the session date, and appears in the history newest first.
\<close>

theorem transition_correct:
  assumes "map_of (cache m) sid = Some sn" and "StrategyState (sn_state sn) = Some cur"
    and "sn_strategy_id sn = sid" and "conn m = Some db"
    and "serialisable (JObj (sn_metadata sn))" and "serialisable (JObj (meta_of meta))"
    and "transition ck \<lparr>upsert_ok = True, insert_ok = True\<rparr> sid st reason meta m = (m', res)"
  shows "if st \<in> set (VALID_TRANSITIONS cur)
    then (\<exists>sn'. res = Inr sn' \<and> get m' sid = Inr sn' \<and> current_state m' sid = Inr st
        \<and> sn_previous sn' = Some (sn_state sn) \<and> sn_session_date sn' = sn_session_date sn
        \<and> sn_metadata sn' = dict_update (sn_metadata sn) (meta_of meta)
        \<and> get_history m' sid 1 = Inr [\<lparr>tr_strategy_id = sid, tr_from = sn_state sn, tr_to = state_value st,
            tr_reason = reason, tr_timestamp = now_iso ck, tr_metadata = meta_of meta\<rparr>])
    else res = Inl (InvalidTransitionError cur st sid) \<and> m' = m"
proof (cases "st \<in> set (VALID_TRANSITIONS cur)")
  case True
  define sn' where "sn' = merge_meta meta (enter_state ck st reason sn)"
  have ser: "serialisable (JObj (sn_metadata sn'))"
    using assms(5,6) serialisable_update
    by (auto simp: sn'_def merge_meta_def meta_of_def simp del: serialisable.simps split: option.splits)
  have id': "sn_strategy_id sn' = sid" "sn_state sn' = state_value st" by (simp_all add: sn'_def assms(3))
  have meta': "sn_metadata sn' = dict_update (sn_metadata sn) (meta_of meta)"
    by (auto simp: sn'_def merge_meta_def meta_of_def dict_update_def split: option.splits)
  have prev': "sn_previous sn' = Some (sn_state sn)" "sn_session_date sn' = sn_session_date sn"
    by (auto simp: sn'_def merge_meta_def enter_state_def split: option.splits)
  have res: "res = Inr sn'" and m': "m' = note_change sn' \<lparr>tr_strategy_id = sid, tr_from = sn_state sn,
      tr_to = state_value st, tr_reason = reason, tr_timestamp = now_iso ck, tr_metadata = meta_of meta\<rparr> m"
    using assms(1,2,7) True id' by (auto simp: transition_def sn'_def note_change_def meta_of_def Let_def)
  have "history_rows m' sid = history_rows m sid @ [\<lparr>tw_strategy_id = sid, tw_from = sn_state sn,
      tw_to = state_value st, tw_reason = reason, tw_timestamp = now_iso ck, tw_metadata = Some (JObj (meta_of meta))\<rparr>]"
    using assms(4,6) ser id'
    by (simp add: m' note_change_def history_rows_def persist_transition_def persist_state_def json_dumps_def
        del: serialisable.simps)
  moreover have "map_of (cache m') sid = Some sn'" by (simp add: m' note_change_def id')
  ultimately show ?thesis
    using True res id' meta' prev' by (simp add: get_def current_state_def get_history_def load_meta_def)
next
  case False
  with assms show ?thesis by (simp add: transition_def)
qed

theorem transition_correct_witness:
  "let m = state_open ''2026-01-05'' (Some empty_db);
       m1 = fst (initialise example_clock \<lparr>upsert_ok = True, insert_ok = True\<rparr> ''s1'' None m);
       r = transition example_clock \<lparr>upsert_ok = True, insert_ok = True\<rparr> ''s1'' IN_POSITION ''X'' None m1
   in snd r = Inl (InvalidTransitionError IDLE IN_POSITION ''s1'') \<and> fst r = m1"
proof -
  let ?io = "\<lparr>upsert_ok = True, insert_ok = True\<rparr>"
  let ?m1 = "fst (initialise example_clock ?io ''s1'' None (state_open ''2026-01-05'' (Some empty_db)))"
  let ?sn = "\<lparr>sn_strategy_id = ''s1'', sn_state = ''IDLE'', sn_previous = None,
    sn_entered_at = now_iso example_clock, sn_last_reason = [], sn_session_date = ''2026-01-05'', sn_metadata = []\<rparr>"
  have c: "map_of (cache ?m1) ''s1'' = Some ?sn" "StrategyState (sn_state ?sn) = Some IDLE"
    "conn ?m1 \<noteq> None" by code_simp+
  then obtain db where "conn ?m1 = Some db" by blast
  from transition_correct [OF c(1,2) _ this, of None example_clock IN_POSITION "''X''"] show ?thesis
    by (cases "transition example_clock ?io ''s1'' IN_POSITION ''X'' None ?m1") (simp add: Let_def meta_of_def)
qed

fun op_strategy :: "state_op \<Rightarrow> string" where
  "op_strategy (OpInitialise ck sid meta) = sid"
| "op_strategy (OpTransition ck sid st reason meta) = sid"
| "op_strategy (OpReset ck sid reason) = sid"

lemma history_persist_state [simp]: "history_rows (persist_state ok sn m) k = history_rows m k"
  by (auto simp: history_rows_def persist_state_def split: option.splits)

lemma history_cache [simp]: "history_rows (m\<lparr>cache := c\<rparr>) k = history_rows m k"
  by (simp add: history_rows_def)

lemma history_persist_transition:
  "tr_strategy_id r \<noteq> k \<Longrightarrow> history_rows (persist_transition ok r m) k = history_rows m k"
  by (auto simp: history_rows_def persist_transition_def split: option.splits)

text \<open>
  Strategies are independent: an operation on one strategy changes neither the snapshot
  nor the audit rows of another, whichever writes fail.
\<close>

theorem strategies_independent:
  assumes "op_strategy op \<noteq> k"
  shows "get (apply_op io m op) k = get m k \<and> history_rows (apply_op io m op) k = history_rows m k"
  using assms
  by (cases op)
    (auto simp: get_def initialise_def transition_def reset_def Let_def history_persist_transition split: option.splits)

theorem strategies_independent_witness:
  "get (apply_op \<lparr>upsert_ok = False, insert_ok = True\<rparr> example_manager (OpReset example_clock ''s1'' ''DAILY_RESET'')) ''s2''
   = get example_manager ''s2''"
  using strategies_independent [of "OpReset example_clock ''s1'' ''DAILY_RESET''" "''s2''"] by simp

text \<open>Legal histories that never pass through PAUSED.\<close>

definition before_entry :: "string \<Rightarrow> bool" where
  "before_entry v \<longleftrightarrow> v \<in> {state_value IDLE, state_value ARMED, state_value ERROR}"

lemma linked_before_entry:
  assumes "linked a rs b" and "before_entry a" and "list_all legal_row rs"
    and "list_all (\<lambda>r. tw_to r \<noteq> state_value PAUSED \<and> tw_to r \<noteq> state_value ENTRY_PENDING) rs"
  shows "before_entry b"
  using assms
proof (induction rs arbitrary: a)
  case (Cons r rs)
  from Cons.prems obtain x y where xy: "StrategyState (tw_from r) = Some x" "StrategyState (tw_to r) = Some y"
      "y \<in> set (VALID_TRANSITIONS x) \<or> y = IDLE"
    by (auto simp: legal_row_def split: option.splits)
  then have vals: "tw_from r = state_value x" "tw_to r = state_value y"
    by (simp_all add: state_value_of_StrategyState)
  with Cons.prems have "x \<in> {IDLE, ARMED, ERROR}" "y \<noteq> PAUSED" "y \<noteq> ENTRY_PENDING"
    by (auto simp: before_entry_def simp del: state_value.simps)
  with xy(3) have "before_entry (tw_to r)" by (auto simp: vals before_entry_def simp del: state_value.simps)
  with Cons show ?case by auto
qed simp

text \<open>
  No position without an entry order: a strategy whose writes succeeded and that was
  never paused can only be IN_POSITION, EXIT_PENDING or EXITED if its history has a
  transition to ENTRY_PENDING.
\<close>

theorem position_needs_entry:
  assumes "m = foldl stored_op (state_open day (Some empty_db)) ops"
    and "map_of (cache m) sid = Some sn"
    and "sn_state sn \<in> {state_value IN_POSITION, state_value EXIT_PENDING, state_value EXITED}"
    and "list_all (\<lambda>r. tw_to r \<noteq> state_value PAUSED) (history_rows m sid)"
  shows "list_ex (\<lambda>r. tw_to r = state_value ENTRY_PENDING) (history_rows m sid)"
proof (rule ccontr)
  assume none: "\<not> ?thesis"
  have "stored_inv m" unfolding assms(1) by (rule sessions.inv_run [OF stored_inv_fresh])
  then have link: "linked (state_value IDLE) (history_rows m sid) (sn_state sn)"
    using assms(2) by (auto simp: stored_inv_def history_linked_def dest!: spec [of _ sid])
  have "audit_inv (state_open day (Some empty_db))"
    by (simp add: audit_inv_def state_open_def recover_def empty_db_def audit_rows_def)
  moreover have "audit_inv (stored_op m op)" if "audit_inv m" for m op
    using that audit.inv_exec [of m "(\<lparr>upsert_ok = True, insert_ok = True\<rparr>, op)"] by (simp add: stored_op_def)
  ultimately have "audit_inv m" unfolding assms(1)
    using sessions.run_preserves [of audit_inv, OF _ stored_inv_fresh] by blast
  then have "list_all legal_row (history_rows m sid)"
    by (auto simp: audit_inv_def audit_rows_def history_rows_def list_all_iff split: option.splits)
  then have "before_entry (sn_state sn)"
    using none assms(4) by (intro linked_before_entry [OF link]) (auto simp: before_entry_def list_all_iff list_ex_iff)
  with assms(3) show False by (auto simp: before_entry_def simp del: state_value.simps)
qed

theorem position_needs_entry_witness:
  "list_ex (\<lambda>r. tw_to r = state_value ENTRY_PENDING) (history_rows example_manager ''s1'')"
proof -
  let ?sn = "\<lparr>sn_strategy_id = ''s1'', sn_state = ''IN_POSITION'', sn_previous = Some ''ENTRY_PENDING'',
    sn_entered_at = now_iso example_clock, sn_last_reason = ''ORDER_FILLED'', sn_session_date = ''2026-01-05'',
    sn_metadata = [(''order_id'', JCell (PStr ''77''))]\<rparr>"
  have "map_of (cache example_manager) ''s1'' = Some ?sn"
    "list_all (\<lambda>r. tw_to r \<noteq> state_value PAUSED) (history_rows example_manager ''s1'')" by code_simp+
  from position_needs_entry [OF example_manager_def this(1) _ this(2)] show ?thesis by simp
qed

text \<open>
  A pause forgets where it came from: from IDLE a strategy can be paused and then resumed
  straight into a position, although the documentation of PAUSED says it resumes to the last
  state.
\<close>

lemma paused_resumes_anywhere:
  "current_state (foldl stored_op (state_open ''2026-01-05'' (Some empty_db))
     [OpInitialise example_clock ''s1'' None, OpTransition example_clock ''s1'' PAUSED ''NEWS'' None,
      OpTransition example_clock ''s1'' IN_POSITION ''RESUME'' None]) ''s1'' = Inr IN_POSITION"
  by code_simp

end
