(* ===== verification/Iso_Time.thy ===== *)
theory Iso_Time
  imports Py_Numbers
begin

text \<open>
  The part of Python's \<open>datetime\<close> that the approval queue uses: UTC instants, \<open>isoformat()\<close>,
  and adding a number of minutes. The queue stores the ISO text and lets the database compare
  it byte by byte, so the main fact here is that this comparison is chronological, although
  \<open>isoformat\<close> drops the fraction of a whole second.
\<close>

subsection \<open>Byte order on text\<close>

fun text_less :: "string \<Rightarrow> string \<Rightarrow> bool" where
  "text_less s [] = False"
| "text_less [] (d # ds) = True"
| "text_less (c # cs) (d # ds) = (code_of c < code_of d \<or> (c = d \<and> text_less cs ds))"

lemma text_less_append:
  "length xs = length ys \<Longrightarrow> text_less (xs @ us) (ys @ vs) \<longleftrightarrow> text_less xs ys \<or> (xs = ys \<and> text_less us vs)"
  by (induction xs ys rule: list_induct2) auto

lemma text_less_irrefl [simp]: "\<not> text_less s s"
  by (induction s) auto

lemma text_less_trans: "text_less a b \<Longrightarrow> text_less b c \<Longrightarrow> text_less a c"
proof (induction a b arbitrary: c rule: text_less.induct)
  case (3 x xs y ys)
  then show ?case by (cases c) auto
next
  case (2 d ds)
  then show ?case by (cases c) auto
qed auto

lemma text_less_linear: "text_less a b \<or> a = b \<or> text_less b a"
proof (induction a b rule: text_less.induct)
  case (1 s)
  then show ?case by (cases s) auto
next
  case (3 c cs d ds)
  have "code_of c < code_of d \<or> c = d \<or> code_of d < code_of c"
    by (metis linorder_neqE_nat of_char_eq_iff)
  with 3 show ?case by auto
qed simp

text \<open>A stable sort by a strict order, as \<open>sorted(key=...)\<close> does it.\<close>

fun insert_by :: "('a \<Rightarrow> 'a \<Rightarrow> bool) \<Rightarrow> 'a \<Rightarrow> 'a list \<Rightarrow> 'a list" where
  "insert_by before x [] = [x]"
| "insert_by before x (y # ys) = (if before y x then y # insert_by before x ys else x # y # ys)"

definition sort_by :: "('a \<Rightarrow> 'a \<Rightarrow> bool) \<Rightarrow> 'a list \<Rightarrow> 'a list" where
  "sort_by before xs = foldr (insert_by before) xs []"

lemma set_sort_by [simp]: "set (sort_by before xs) = set xs"
proof -
  have "set (insert_by before x ys) = insert x (set ys)" for x ys
    by (induction before x ys rule: insert_by.induct) auto
  then show ?thesis by (induction xs) (auto simp: sort_by_def)
qed

lemma sorted_insert_by:
  assumes "\<And>a b. before a b \<or> a = b \<or> before b a" and "\<And>a b c. before a b \<Longrightarrow> before b c \<Longrightarrow> before a c"
    and "sorted_wrt before xs" and "x \<notin> set xs"
  shows "sorted_wrt before (insert_by before x xs)"
  using assms(3,4)
proof (induction xs)
  case (Cons y ys)
  have set: "set (insert_by before x ys) = insert x (set ys)"
    by (induction ys) auto
  show ?case
  proof (cases "before y x")
    case True
    with Cons set show ?thesis by simp
  next
    case False
    with Cons.prems(2) assms(1) have "before x y" by auto
    with Cons.prems(1) False show ?thesis by (auto intro: assms(2))
  qed
qed simp

lemma strict_sort_by:
  assumes "\<And>a b. before a b \<or> a = b \<or> before b a" and "\<And>a b c. before a b \<Longrightarrow> before b c \<Longrightarrow> before a c"
    and "distinct xs"
  shows "sorted_wrt before (sort_by before xs)"
  using assms(3)
proof (induction xs)
  case (Cons x xs)
  have "x \<notin> set (sort_by before xs)" using Cons.prems by simp
  with Cons show ?case
    by (simp add: sort_by_def sorted_insert_by [OF assms(1,2)])
qed (simp add: sort_by_def)

text \<open>A strictly sorted list is determined by its elements.\<close>

lemma strict_sorted_unique:
  assumes "\<And>a. \<not> before a a" and "\<And>a b c. before a b \<Longrightarrow> before b c \<Longrightarrow> before a c"
    and "sorted_wrt before xs" and "sorted_wrt before ys" and "set xs = set ys"
  shows "xs = ys"
  using assms(3-5)
proof (induction xs arbitrary: ys)
  case (Cons x xs)
  then obtain y ys' where ys: "ys = y # ys'" by (cases ys) auto
  have "x = y"
  proof (rule ccontr)
    assume "x \<noteq> y"
    with Cons.prems(3) ys have "x \<in> set ys'" "y \<in> set xs" by auto
    with Cons.prems(1,2) ys have "before y x" "before x y" by auto
    then show False using assms(1) assms(2) by blast
  qed
  moreover have "x \<notin> set xs" "y \<notin> set ys'"
    using Cons.prems ys assms(1) by auto
  ultimately have "set xs = set ys'" using Cons.prems(3) ys by auto
  with Cons ys \<open>x = y\<close> show ?case by auto
qed simp

subsection \<open>Zero-padded numbers\<close>

fun pad :: "nat \<Rightarrow> int \<Rightarrow> string" where
  "pad 0 n = []"
| "pad (Suc k) n = pad k (n div 10) @ [digit_char (nat (n mod 10))]"

lemma length_pad [simp]: "length (pad k n) = k"
  by (induction k arbitrary: n) auto

lemma digit_char_less: "a < 10 \<Longrightarrow> b < 10 \<Longrightarrow> code_of (digit_char a) < code_of (digit_char b) \<longleftrightarrow> a < b"
  by (simp add: digit_char_def)

lemma digit_char_eq: "a < 10 \<Longrightarrow> b < 10 \<Longrightarrow> digit_char a = digit_char b \<longleftrightarrow> a = b"
  by (metis digit_val_digit_char)

lemma pad_order:
  assumes "0 \<le> a" "a < 10 ^ k" "0 \<le> b" "b < 10 ^ k"
  shows "(text_less (pad k a) (pad k b) \<longleftrightarrow> a < b) \<and> (pad k a = pad k b \<longleftrightarrow> a = b)"
  using assms
proof (induction k arbitrary: a b)
  case (Suc k)
  define qa ra qb rb where "qa = a div 10" and "ra = a mod 10" and "qb = b div 10" and "rb = b mod 10"
  have range: "0 \<le> qa" "qa < 10 ^ k" "0 \<le> qb" "qb < 10 ^ k"
    using Suc.prems by (auto simp: qa_def qb_def)
  have digits: "0 \<le> ra" "ra < 10" "0 \<le> rb" "rb < 10" by (simp_all add: ra_def rb_def)
  have split: "a = 10 * qa + ra" "b = 10 * qb + rb" by (simp_all add: qa_def ra_def qb_def rb_def)
  have pads: "pad (Suc k) a = pad k qa @ [digit_char (nat ra)]" "pad (Suc k) b = pad k qb @ [digit_char (nat rb)]"
    by (simp_all add: qa_def ra_def qb_def rb_def)
  have less_dig: "code_of (digit_char (nat ra)) < code_of (digit_char (nat rb)) \<longleftrightarrow> ra < rb"
    and eq_dig: "digit_char (nat ra) = digit_char (nat rb) \<longleftrightarrow> ra = rb"
    using digits by (auto simp: digit_char_less digit_char_eq nat_less_iff)
  note IH = Suc.IH [OF range]
  have "text_less (pad (Suc k) a) (pad (Suc k) b) \<longleftrightarrow> qa < qb \<or> (qa = qb \<and> ra < rb)"
    unfolding pads using IH less_dig by (auto simp: text_less_append)
  also have "\<dots> \<longleftrightarrow> a < b" using digits by (auto simp: split)
  finally have less: "text_less (pad (Suc k) a) (pad (Suc k) b) \<longleftrightarrow> a < b" .
  have "pad (Suc k) a = pad (Suc k) b \<longleftrightarrow> qa = qb \<and> ra = rb"
    unfolding pads using IH eq_dig by auto
  also have "\<dots> \<longleftrightarrow> a = b" unfolding split using digits by presburger
  finally show ?case using less by blast
qed auto

lemma text_less_pad:
  assumes "0 \<le> a" "a < 10 ^ k" "0 \<le> b" "b < 10 ^ k"
  shows "text_less (pad k a @ us) (pad k b @ vs) \<longleftrightarrow> a < b \<or> (a = b \<and> text_less us vs)"
  using pad_order [OF assms] by (simp add: text_less_append)

subsection \<open>Instants\<close>

record datetime =
  dt_year :: int
  dt_month :: int
  dt_day :: int
  dt_hour :: int
  dt_minute :: int
  dt_second :: int
  dt_micro :: int

definition leap_year :: "int \<Rightarrow> bool" where
  "leap_year y \<longleftrightarrow> y mod 4 = 0 \<and> (y mod 100 \<noteq> 0 \<or> y mod 400 = 0)"

definition days_in_month :: "int \<Rightarrow> int \<Rightarrow> int" where
  "days_in_month y m = (if m = 2 then (if leap_year y then 29 else 28) else if m \<in> {4, 6, 9, 11} then 30 else 31)"

definition dt_valid :: "datetime \<Rightarrow> bool" where
  "dt_valid t \<longleftrightarrow> 1 \<le> dt_year t \<and> dt_year t \<le> 9999 \<and> 1 \<le> dt_month t \<and> dt_month t \<le> 12
     \<and> 1 \<le> dt_day t \<and> dt_day t \<le> days_in_month (dt_year t) (dt_month t)
     \<and> 0 \<le> dt_hour t \<and> dt_hour t \<le> 23 \<and> 0 \<le> dt_minute t \<and> dt_minute t \<le> 59
     \<and> 0 \<le> dt_second t \<and> dt_second t \<le> 59 \<and> 0 \<le> dt_micro t \<and> dt_micro t \<le> 999999"

text \<open>Python compares two UTC instants field by field.\<close>

fun lex_less :: "int list \<Rightarrow> int list \<Rightarrow> bool" where
  "lex_less (a # as) (b # bs) = (a < b \<or> (a = b \<and> lex_less as bs))"
| "lex_less _ _ = False"

definition dt_fields :: "datetime \<Rightarrow> int list" where
  "dt_fields t = [dt_year t, dt_month t, dt_day t, dt_hour t, dt_minute t, dt_second t, dt_micro t]"

definition dt_less :: "datetime \<Rightarrow> datetime \<Rightarrow> bool" where
  "dt_less a b = lex_less (dt_fields a) (dt_fields b)"

definition iso_fraction :: "int \<Rightarrow> string" where
  "iso_fraction us = (if us = 0 then [] else ''.'' @ pad 6 us)"

definition isoformat :: "datetime \<Rightarrow> string" where
  "isoformat t = pad 4 (dt_year t) @ ''-'' @ pad 2 (dt_month t) @ ''-'' @ pad 2 (dt_day t) @ ''T''
     @ pad 2 (dt_hour t) @ '':'' @ pad 2 (dt_minute t) @ '':'' @ pad 2 (dt_second t)
     @ iso_fraction (dt_micro t) @ ''+00:00''"

lemma fraction_order:
  assumes "0 \<le> a" "a < 10 ^ 6" "0 \<le> b" "b < 10 ^ 6"
  shows "text_less (iso_fraction a @ ''+00:00'') (iso_fraction b @ ''+00:00'') \<longleftrightarrow> a < b"
  using assms text_less_pad [of a 6 b "''+00:00''" "''+00:00''"]
  by (auto simp: iso_fraction_def simp del: pad.simps)

lemma isoformat_order:
  assumes "dt_valid a" and "dt_valid b"
  shows "text_less (isoformat a) (isoformat b) \<longleftrightarrow> dt_less a b"
proof -
  have day: "days_in_month y m \<le> 31" for y m by (simp add: days_in_month_def)
  have r: "0 \<le> dt_year t \<and> dt_year t < 10 ^ 4 \<and> 0 \<le> dt_month t \<and> dt_month t < 10 ^ 2 \<and> 0 \<le> dt_day t \<and> dt_day t < 10 ^ 2
     \<and> 0 \<le> dt_hour t \<and> dt_hour t < 10 ^ 2 \<and> 0 \<le> dt_minute t \<and> dt_minute t < 10 ^ 2
     \<and> 0 \<le> dt_second t \<and> dt_second t < 10 ^ 2 \<and> 0 \<le> dt_micro t \<and> dt_micro t < 10 ^ 6"
    if "dt_valid t" for t
    using that day [of "dt_year t" "dt_month t"] by (auto simp: dt_valid_def)
  show ?thesis using r [OF assms(1)] r [OF assms(2)]
    by (simp add: isoformat_def dt_less_def dt_fields_def text_less_pad fraction_order del: pad.simps)
qed

subsection \<open>Adding minutes\<close>

definition next_day :: "int \<times> int \<times> int \<Rightarrow> (int \<times> int \<times> int) option" where
  "next_day = (\<lambda>(y, m, d).
     if d < days_in_month y m then Some (y, m, d + 1)
     else if m < 12 then Some (y, m + 1, 1)
     else if y < 9999 then Some (y + 1, 1, 1) else None)"

definition prev_day :: "int \<times> int \<times> int \<Rightarrow> (int \<times> int \<times> int) option" where
  "prev_day = (\<lambda>(y, m, d).
     if 1 < d then Some (y, m, d - 1)
     else if 1 < m then Some (y, m - 1, days_in_month y (m - 1))
     else if 1 < y then Some (y - 1, 12, 31) else None)"

fun iterate_day :: "('a \<Rightarrow> 'a option) \<Rightarrow> nat \<Rightarrow> 'a \<Rightarrow> 'a option" where
  "iterate_day f 0 x = Some x"
| "iterate_day f (Suc n) x = (case f x of None \<Rightarrow> None | Some y \<Rightarrow> iterate_day f n y)"

text \<open>\<open>now + timedelta(minutes=n)\<close>; \<open>None\<close> is the \<open>OverflowError\<close> outside the years 1 to 9999.\<close>

definition add_minutes :: "datetime \<Rightarrow> int \<Rightarrow> datetime option" where
  "add_minutes t n =
     (let total = dt_hour t * 60 + dt_minute t + n;
          days = total div 1440; rest = total mod 1440;
          date = (dt_year t, dt_month t, dt_day t)
      in map_option (\<lambda>(y, m, d). t\<lparr>dt_year := y, dt_month := m, dt_day := d,
                                    dt_hour := rest div 60, dt_minute := rest mod 60\<rparr>)
           (if 0 \<le> days then iterate_day next_day (nat days) date else iterate_day prev_day (nat (- days)) date))"

definition date_ok :: "int \<times> int \<times> int \<Rightarrow> bool" where
  "date_ok = (\<lambda>(y, m, d). 1 \<le> y \<and> y \<le> 9999 \<and> 1 \<le> m \<and> m \<le> 12 \<and> 1 \<le> d \<and> d \<le> days_in_month y m)"

definition date_less :: "int \<times> int \<times> int \<Rightarrow> int \<times> int \<times> int \<Rightarrow> bool" where
  "date_less = (\<lambda>(y, m, d) (y', m', d'). lex_less [y, m, d] [y', m', d'])"

lemma next_day_later:
  assumes "date_ok x" and "next_day x = Some x'"
  shows "date_ok x' \<and> date_less x x'"
proof -
  have "1 \<le> days_in_month y m" for y m by (simp add: days_in_month_def)
  with assms show ?thesis
    by (auto simp: next_day_def date_ok_def date_less_def split: prod.splits if_splits)
qed

lemma iterate_next_day:
  assumes "date_ok x" and "iterate_day next_day n x = Some x'"
  shows "date_ok x' \<and> (if n = 0 then x' = x else date_less x x')"
  using assms
proof (induction n arbitrary: x)
  case (Suc n)
  from Suc.prems(2) obtain y where y: "next_day x = Some y" "iterate_day next_day n y = Some x'"
    by (auto split: option.splits)
  with Suc.prems(1) have "date_ok y" "date_less x y" using next_day_later by auto
  with Suc.IH [OF _ y(2)] show ?case
    by (cases x; cases y; cases x') (auto simp: date_less_def split: if_splits)
qed simp

lemma carry_order:
  fixes h m n H M :: int
  assumes "60 * H + M = h * 60 + m + n" "0 \<le> M" "M < 60" "0 \<le> m" "m \<le> 59"
  shows "(n = 0 \<longrightarrow> H = h \<and> M = m) \<and> (0 < n \<longrightarrow> h < H \<or> (h = H \<and> m < M))"
proof (intro conjI impI)
  assume "n = 0"
  with assms have "60 * (H - h) = m - M" by simp
  then have "\<not> h + 1 \<le> H" "\<not> H + 1 \<le> h" using assms(2-5) by auto
  then show "H = h" by simp
  with assms \<open>n = 0\<close> show "M = m" by simp
next
  assume "0 < n"
  with assms have "\<not> H < h" by linarith
  with assms \<open>0 < n\<close> show "h < H \<or> (h = H \<and> m < M)" by (cases "h = H") auto
qed

lemma add_minutes_later:
  assumes "dt_valid t" and "add_minutes t n = Some t'" and "0 \<le> n"
  shows "dt_valid t' \<and> (if n = 0 then t' = t else dt_less t t')"
proof -
  let ?total = "dt_hour t * 60 + dt_minute t + n"
  have nn: "0 \<le> ?total div 1440" using assms(1,3) by (auto simp: dt_valid_def)
  from assms(2) nn obtain y m d where it: "iterate_day next_day (nat (?total div 1440)) (dt_year t, dt_month t, dt_day t) = Some (y, m, d)"
    and t': "t' = t\<lparr>dt_year := y, dt_month := m, dt_day := d,
                    dt_hour := ?total mod 1440 div 60, dt_minute := ?total mod 1440 mod 60\<rparr>"
    by (auto simp: add_minutes_def Let_def)
  have ok: "date_ok (dt_year t, dt_month t, dt_day t)" using assms(1) by (simp add: dt_valid_def date_ok_def)
  note later = iterate_next_day [OF ok it]
  have "0 \<le> ?total mod 1440" "?total mod 1440 < 1440" by simp_all
  then have clock: "0 \<le> ?total mod 1440 div 60" "?total mod 1440 div 60 \<le> 23"
      "0 \<le> ?total mod 1440 mod 60" "?total mod 1440 mod 60 \<le> 59"
    by (auto simp: pos_imp_zdiv_nonneg_iff)
  have valid: "dt_valid t'" using assms(1) later clock by (auto simp: t' dt_valid_def date_ok_def)
  show ?thesis
  proof (cases "?total div 1440 = 0")
    case True
    then have small: "?total mod 1440 = ?total" by (metis mult_zero_right add_0 mult_div_mod_eq)
    have date: "y = dt_year t" "m = dt_month t" "d = dt_day t" using later True by simp_all
    define H M where "H = ?total div 60" and "M = ?total mod 60"
    have HM: "60 * H + M = ?total" "0 \<le> M" "M < 60" by (simp_all add: H_def M_def)
    have t'': "dt_hour t' = H" "dt_minute t' = M" by (simp_all add: t' small H_def M_def)
    have bounds: "0 \<le> dt_minute t" "dt_minute t \<le> 59" using assms(1) by (simp_all add: dt_valid_def)
    show ?thesis
    proof (cases "n = 0")
      case True
      with carry_order [OF HM bounds] have "H = dt_hour t" "M = dt_minute t" by simp_all
      then have "t' = t" using t'' date by (intro datetime.equality) (simp_all add: t')
      with valid True show ?thesis by simp
    next
      case False
      with carry_order [OF HM bounds] assms(3) have "dt_hour t < H \<or> (dt_hour t = H \<and> dt_minute t < M)" by simp
      moreover have "dt_less t t' \<longleftrightarrow> dt_hour t < dt_hour t' \<or> (dt_hour t = dt_hour t' \<and> dt_minute t < dt_minute t')"
        unfolding dt_less_def dt_fields_def by (simp add: t' date)
      ultimately show ?thesis using valid False t'' by simp
    qed
  next
    case False
    then have "nat (?total div 1440) \<noteq> 0" using nn by simp
    with later have "date_less (dt_year t, dt_month t, dt_day t) (y, m, d)" by simp
    moreover have "n \<noteq> 0" using False assms(1) by (auto simp: dt_valid_def)
    ultimately show ?thesis using valid by (auto simp: t' dt_less_def dt_fields_def date_less_def)
  qed
qed

subsection \<open>Days\<close>

text \<open>The proleptic ordinal of a date, as \<open>date.toordinal\<close> counts.\<close>

definition days_before_year :: "int \<Rightarrow> int" where
  "days_before_year y = (y - 1) * 365 + (y - 1) div 4 - (y - 1) div 100 + (y - 1) div 400"

definition days_before_month :: "int \<Rightarrow> int \<Rightarrow> int" where
  "days_before_month y m = sum_list (map (days_in_month y) [1..m - 1])"

definition day_number :: "int \<Rightarrow> int \<Rightarrow> int \<Rightarrow> int" where
  "day_number y m d = days_before_year y + days_before_month y m + d"

text \<open>Microseconds; the difference of two of them is what \<open>datetime\<close> subtraction gives.\<close>

definition instant :: "datetime \<Rightarrow> int" where
  "instant t = (((day_number (dt_year t) (dt_month t) (dt_day t) * 24 + dt_hour t) * 60 + dt_minute t) * 60 + dt_second t) * 1000000 + dt_micro t"

end
