(* ===== verification/Action_Center.thy ===== *)
theory Action_Center
  imports Py_Json Iso_Time
begin

text \<open>
  \<open>flinttrade_engine/action_center.py\<close>: orders held for a human decision. First the
  in-memory \<open>ActionCenter\<close>, then the durable \<open>PendingOrderQueue\<close> with the approve and reject
  handlers of \<open>action_center_routes.py\<close> that dispatch from it.

  Clock readings are arguments: POSIX times are exact rationals (subtracting a whole number
  of seconds from a current time is exact in a double), ISO times come from \<open>Iso_Time\<close>. The
  locks make every operation one step. The queue's table is the part that survives a
  restart.
\<close>

subsection \<open>The in-memory queue\<close>

datatype order_approval_status = PENDING | APPROVED | REJECTED | EXPIRED

record pending_order =
  po_order_id :: string
  po_account_id :: string
  po_order_data :: metadata
  po_status :: order_approval_status
  po_created_at :: rat
  po_resolved_at :: "rat option"

record action_center =
  ttl_seconds :: int
  enabled :: bool
  orders :: "(string \<times> pending_order) list"

datatype ac_error =
  AcExists string
| AcNotFound string
| AcNotPending string order_approval_status
| AcTtlValueError

text \<open>The reading that decides the cutoff and the reading taken when an order is stamped.\<close>

record ac_clock =
  time_now :: rat
  stamp :: "string \<Rightarrow> rat"

definition action_center_init :: "int \<Rightarrow> action_center" where
  "action_center_init ttl = \<lparr>ttl_seconds = ttl, enabled = False, orders = []\<rparr>"

definition set_enabled :: "bool \<Rightarrow> action_center \<Rightarrow> action_center" where
  "set_enabled value ac = ac\<lparr>enabled := value\<rparr>"

definition set_ttl_seconds :: "int \<Rightarrow> action_center \<Rightarrow> (action_center, ac_error, unit) outcome" where
  "set_ttl_seconds value ac =
     (if value < 1 then (ac, Inl AcTtlValueError) else (ac\<lparr>ttl_seconds := value\<rparr>, Inr ()))"

text \<open>\<open>fresh\<close> is the UUID drawn when no id is given.\<close>

definition submit :: "string option \<Rightarrow> string \<Rightarrow> string \<Rightarrow> metadata \<Rightarrow> rat \<Rightarrow> action_center
    \<Rightarrow> (action_center, ac_error, pending_order) outcome" where
  "submit given fresh account data now ac =
     (let oid = (case given of None \<Rightarrow> fresh | Some i \<Rightarrow> if i = [] then fresh else i)
      in case map_of (orders ac) oid of
           Some po \<Rightarrow> (ac, Inl (AcExists oid))
         | None \<Rightarrow>
             (let po = \<lparr>po_order_id = oid, po_account_id = account, po_order_data = data,
                        po_status = PENDING, po_created_at = now, po_resolved_at = None\<rparr>
              in (ac\<lparr>orders := AList.update oid po (orders ac)\<rparr>, Inr po)))"

definition stale :: "rat \<Rightarrow> pending_order \<Rightarrow> bool" where
  "stale cutoff po \<longleftrightarrow> po_status po = PENDING \<and> po_created_at po < cutoff"

definition ac_expire_stale :: "ac_clock \<Rightarrow> action_center \<Rightarrow> action_center" where
  "ac_expire_stale ck ac =
     ac\<lparr>orders := map (\<lambda>(oid, po).
          (oid, if stale (time_now ck - of_int (ttl_seconds ac)) po
                then po\<lparr>po_status := EXPIRED, po_resolved_at := Some (stamp ck oid)\<rparr> else po)) (orders ac)\<rparr>"

definition get_or_raise :: "string \<Rightarrow> action_center \<Rightarrow> ac_error + pending_order" where
  "get_or_raise oid ac = (case map_of (orders ac) oid of None \<Rightarrow> Inl (AcNotFound oid) | Some po \<Rightarrow> Inr po)"

text \<open>The common body of \<open>approve\<close> and \<open>reject\<close>.\<close>

definition resolve :: "order_approval_status \<Rightarrow> ac_clock \<Rightarrow> rat \<Rightarrow> string \<Rightarrow> action_center
    \<Rightarrow> (action_center, ac_error, pending_order) outcome" where
  "resolve st ck now oid ac0 =
     (let ac = ac_expire_stale ck ac0
      in case get_or_raise oid ac of
           Inl e \<Rightarrow> (ac, Inl e)
         | Inr po \<Rightarrow>
             if po_status po \<noteq> PENDING then (ac, Inl (AcNotPending oid (po_status po)))
             else (let po' = po\<lparr>po_status := st, po_resolved_at := Some now\<rparr>
                   in (ac\<lparr>orders := AList.update oid po' (orders ac)\<rparr>, Inr po')))"

definition ac_approve :: "ac_clock \<Rightarrow> rat \<Rightarrow> string \<Rightarrow> action_center \<Rightarrow> (action_center, ac_error, pending_order) outcome" where
  "ac_approve = resolve APPROVED"

definition ac_reject :: "ac_clock \<Rightarrow> rat \<Rightarrow> string \<Rightarrow> action_center \<Rightarrow> (action_center, ac_error, pending_order) outcome" where
  "ac_reject = resolve REJECTED"

definition approve_all :: "ac_clock \<Rightarrow> rat \<Rightarrow> action_center \<Rightarrow> action_center \<times> pending_order list" where
  "approve_all ck now ac0 =
     (let ac = ac_expire_stale ck ac0;
          mark = (\<lambda>po. po\<lparr>po_status := APPROVED, po_resolved_at := Some now\<rparr>)
      in (ac\<lparr>orders := map (\<lambda>(oid, po). (oid, if po_status po = PENDING then mark po else po)) (orders ac)\<rparr>,
          map mark (filter (\<lambda>po. po_status po = PENDING) (map snd (orders ac)))))"

definition get_pending :: "ac_clock \<Rightarrow> action_center \<Rightarrow> action_center \<times> pending_order list" where
  "get_pending ck ac0 =
     (let ac = ac_expire_stale ck ac0
      in (ac, filter (\<lambda>po. po_status po = PENDING) (map snd (orders ac))))"

definition get_all :: "ac_clock \<Rightarrow> action_center \<Rightarrow> action_center \<times> pending_order list" where
  "get_all ck ac0 =
     (let ac = ac_expire_stale ck ac0
      in (ac, sort_key (\<lambda>po. - po_created_at po) (map snd (orders ac))))"

subsection \<open>Approval requests and their table\<close>

datatype approval_status = Pending | Dispatching | Approved | Rejected | Expired | Failed

record approval_request =
  rq_id :: string
  order_params :: json
  rq_reason :: string
  created_at :: string
  expires_at :: string
  rq_status :: approval_status
  rejection_reason :: "string option"
  rq_adapter_id :: string
  rq_account_id :: string
  rq_source :: string
  intent_type :: string
  producer_ref :: string
  intent_context :: json
  resolved_at :: "string option"
  broker_order_id :: "string option"
  failure_reason :: "string option"
  outcome_uncertain :: bool

record approval_queue =
  table :: "(string \<times> approval_request) list"
  is_open :: bool

datatype queue_error =
  QueueClosed
| RequestNotFound string
| WrongStatus string approval_status
| RequestExists string
| NegativeTtl
| SensitiveMaterial
| TimeOverflow

definition SENSITIVE_KEY_PARTS :: "string list" where
  "SENSITIVE_KEY_PARTS =
     [''token'', ''secret'', ''credential'', ''password'', ''authorization'', ''cookie'', ''api_key'',
      ''apikey'', ''safety_context'', ''request_context'', ''jti'']"

definition normalised_key :: "string \<Rightarrow> string" where
  "normalised_key k = map (\<lambda>c. if c = CHR ''-'' then CHR ''_'' else c) (py_lower (py_strip k))"

definition sensitive_key :: "string \<Rightarrow> bool" where
  "sensitive_key k = list_ex (\<lambda>part. contains part (normalised_key k)) SENSITIVE_KEY_PARTS"

text \<open>Whether \<open>_reject_sensitive_material\<close> raises.\<close>

fun sensitive_material :: "json \<Rightarrow> bool" where
  "sensitive_material (JObj kvs) = list_ex (\<lambda>kv. sensitive_key (fst kv) \<or> sensitive_material (snd kv)) kvs"
| "sensitive_material (JList vs) = list_ex sensitive_material vs"
| "sensitive_material (JCell v) = False"
| "sensitive_material JOther = False"

text \<open>\<open>UPDATE ... SET ... WHERE ... RETURNING\<close>: the new table and the updated rows.\<close>

definition update_where :: "(approval_request \<Rightarrow> bool) \<Rightarrow> (approval_request \<Rightarrow> approval_request)
    \<Rightarrow> approval_queue \<Rightarrow> approval_queue" where
  "update_where P f q = q\<lparr>table := map (\<lambda>(i, r). (i, if P r then f r else r)) (table q)\<rparr>"

definition returned :: "(approval_request \<Rightarrow> bool) \<Rightarrow> (approval_request \<Rightarrow> approval_request)
    \<Rightarrow> approval_queue \<Rightarrow> approval_request list" where
  "returned P f q = map f (filter P (map snd (table q)))"

definition or_default :: "string \<Rightarrow> string \<Rightarrow> string" where
  "or_default v dflt = (let t = py_strip v in if t = [] then dflt else t)"

subsection \<open>Opening, closing and the interrupted dispatches\<close>

definition RESTART_REASON :: string where
  "RESTART_REASON = ''process restarted while the broker dispatch was in flight; outcome unknown''"

definition reconcile_interrupted_dispatches :: "datetime \<Rightarrow> approval_queue \<Rightarrow> approval_queue" where
  "reconcile_interrupted_dispatches now =
     update_where (\<lambda>r. rq_status r = Dispatching)
       (\<lambda>r. r\<lparr>rq_status := Failed, resolved_at := Some (isoformat now),
             failure_reason := Some RESTART_REASON, outcome_uncertain := True\<rparr>)"

definition queue_open :: "datetime \<Rightarrow> (string \<times> approval_request) list \<Rightarrow> approval_queue" where
  "queue_open now rows = reconcile_interrupted_dispatches now \<lparr>table = rows, is_open = True\<rparr>"

definition queue_close :: "approval_queue \<Rightarrow> approval_queue" where
  "queue_close q = q\<lparr>is_open := False\<rparr>"

subsection \<open>Operations of the queue\<close>

record enqueue_args =
  ea_params :: json
  ea_reason :: string
  ea_ttl_minutes :: int
  ea_request_id :: "string option"
  ea_adapter :: string
  ea_account :: string
  ea_source :: string
  ea_intent :: string
  ea_producer :: string
  ea_context :: json

definition build_request :: "enqueue_args \<Rightarrow> string \<Rightarrow> datetime \<Rightarrow> datetime \<Rightarrow> approval_request" where
  "build_request a rid now expiry =
     \<lparr>rq_id = rid, order_params = ea_params a, rq_reason = ea_reason a, created_at = isoformat now,
      expires_at = isoformat expiry, rq_status = Pending, rejection_reason = None,
      rq_adapter_id = py_lower (py_strip (ea_adapter a)),
      rq_account_id = or_default (ea_account a) ''default'', rq_source = or_default (ea_source a) ''unknown'',
      intent_type = or_default (ea_intent a) ''entry'', producer_ref = py_strip (ea_producer a),
      intent_context = ea_context a, resolved_at = None, broker_order_id = None, failure_reason = None,
      outcome_uncertain = False\<rparr>"

text \<open>
  Any failure of the insert (a closed queue, a duplicate id, a payload that is not JSON) is
  reported as an existing request.
\<close>

definition enqueue :: "datetime \<Rightarrow> string \<Rightarrow> enqueue_args \<Rightarrow> approval_queue
    \<Rightarrow> (approval_queue, queue_error, approval_request) outcome" where
  "enqueue now fresh a q =
     (if ea_ttl_minutes a < 0 then (q, Inl NegativeTtl)
      else if sensitive_material (ea_params a) \<or> sensitive_material (ea_context a) then (q, Inl SensitiveMaterial)
      else
        (let rid = (case ea_request_id a of None \<Rightarrow> fresh | Some i \<Rightarrow> if i = [] then fresh else i)
         in case add_minutes now (ea_ttl_minutes a) of
              None \<Rightarrow> (q, Inl TimeOverflow)
            | Some expiry \<Rightarrow>
                (let req = build_request a rid now expiry
                 in if \<not> is_open q \<or> map_of (table q) rid \<noteq> None
                       \<or> \<not> serialisable (ea_params a) \<or> \<not> serialisable (ea_context a)
                    then (q, Inl (RequestExists rid))
                    else (q\<lparr>table := table q @ [(rid, req)]\<rparr>, Inr req))))"

definition past_deadline :: "string \<Rightarrow> approval_request \<Rightarrow> bool" where
  "past_deadline now_iso r \<longleftrightarrow> rq_status r = Pending \<and> text_less (expires_at r) now_iso"

definition older_than :: "string \<Rightarrow> approval_request \<Rightarrow> bool" where
  "older_than cutoff r \<longleftrightarrow> rq_status r = Pending \<and> text_less (created_at r) cutoff"

definition mark_expired :: "string \<Rightarrow> approval_request \<Rightarrow> approval_request" where
  "mark_expired now_iso r = r\<lparr>rq_status := Expired, resolved_at := Some now_iso\<rparr>"

definition expire_due :: "datetime \<Rightarrow> approval_queue \<Rightarrow> approval_queue" where
  "expire_due now = update_where (past_deadline (isoformat now)) (mark_expired (isoformat now))"

text \<open>\<open>expire_stale\<close>; with \<open>minutes\<close> the age counts instead of the deadline.\<close>

definition expire_stale :: "datetime \<Rightarrow> datetime \<Rightarrow> int option \<Rightarrow> approval_queue
    \<Rightarrow> (approval_queue, queue_error, int) outcome" where
  "expire_stale now now2 minutes q =
     (case minutes of
        None \<Rightarrow>
          if \<not> is_open q then (q, Inl QueueClosed)
          else (expire_due now q, Inr (int (length (filter (past_deadline (isoformat now)) (map snd (table q))))))
      | Some n \<Rightarrow>
          (case add_minutes now2 (- n) of
             None \<Rightarrow> (q, Inl TimeOverflow)
           | Some cutoff \<Rightarrow>
               if \<not> is_open q then (q, Inl QueueClosed)
               else (update_where (older_than (isoformat cutoff)) (mark_expired (isoformat now)) q,
                     Inr (int (length (filter (older_than (isoformat cutoff)) (map snd (table q))))))))"

definition fetch_or_raise :: "string \<Rightarrow> approval_queue \<Rightarrow> queue_error + approval_request" where
  "fetch_or_raise rid q =
     (if \<not> is_open q then Inl QueueClosed
      else case map_of (table q) rid of None \<Rightarrow> Inl (RequestNotFound rid) | Some r \<Rightarrow> Inr r)"

text \<open>
  The pattern of all status changes: update the row when the condition holds and return it,
  otherwise say which status it has.
\<close>

definition change_row :: "(approval_request \<Rightarrow> bool) \<Rightarrow> (approval_request \<Rightarrow> approval_request) \<Rightarrow> string
    \<Rightarrow> approval_queue \<Rightarrow> (approval_queue, queue_error, approval_request) outcome" where
  "change_row P f rid q =
     (if \<not> is_open q then (q, Inl QueueClosed)
      else
        (let Q = (\<lambda>r. rq_id r = rid \<and> P r)
         in case returned Q f q of
              r # rs \<Rightarrow> (update_where Q f q, Inr r)
            | [] \<Rightarrow>
                (case fetch_or_raise rid q of
                   Inl e \<Rightarrow> (q, Inl e)
                 | Inr r \<Rightarrow> (q, Inl (WrongStatus rid (rq_status r))))))"

definition queue_get :: "datetime \<Rightarrow> string \<Rightarrow> approval_queue \<Rightarrow> (approval_queue, queue_error, approval_request) outcome" where
  "queue_get now rid q =
     (if \<not> is_open q then (q, Inl QueueClosed)
      else (expire_due now q, fetch_or_raise rid (expire_due now q)))"

definition claim_for_dispatch :: "datetime \<Rightarrow> datetime \<Rightarrow> string \<Rightarrow> approval_queue
    \<Rightarrow> (approval_queue, queue_error, approval_request) outcome" where
  "claim_for_dispatch now now2 rid q =
     (if \<not> is_open q then (q, Inl QueueClosed)
      else change_row (\<lambda>r. rq_status r = Pending \<and> \<not> text_less (expires_at r) (isoformat now2))
             (\<lambda>r. r\<lparr>rq_status := Dispatching\<rparr>) rid (expire_due now q))"

definition mark_approved :: "datetime \<Rightarrow> string \<Rightarrow> string \<Rightarrow> approval_queue
    \<Rightarrow> (approval_queue, queue_error, approval_request) outcome" where
  "mark_approved now rid broker_id =
     change_row (\<lambda>r. rq_status r = Dispatching)
       (\<lambda>r. r\<lparr>rq_status := Approved, resolved_at := Some (isoformat now), broker_order_id := Some broker_id,
             failure_reason := None, outcome_uncertain := False\<rparr>) rid"

definition mark_failed :: "datetime \<Rightarrow> string \<Rightarrow> string \<Rightarrow> bool \<Rightarrow> approval_queue
    \<Rightarrow> (approval_queue, queue_error, approval_request) outcome" where
  "mark_failed now rid reason uncertain =
     change_row (\<lambda>r. rq_status r = Dispatching)
       (\<lambda>r. r\<lparr>rq_status := Failed, resolved_at := Some (isoformat now), failure_reason := Some reason,
             outcome_uncertain := uncertain\<rparr>) rid"

definition queue_approve :: "datetime \<Rightarrow> datetime \<Rightarrow> datetime \<Rightarrow> string \<Rightarrow> approval_queue
    \<Rightarrow> (approval_queue, queue_error, approval_request) outcome" where
  "queue_approve now now2 now3 rid q =
     bind_out (claim_for_dispatch now now2 rid q) (\<lambda>q' r. mark_approved now3 rid ''compatibility-only'' q')"

definition queue_reject :: "datetime \<Rightarrow> datetime \<Rightarrow> string \<Rightarrow> string \<Rightarrow> approval_queue
    \<Rightarrow> (approval_queue, queue_error, approval_request) outcome" where
  "queue_reject now now2 rid reason q =
     (if \<not> is_open q then (q, Inl QueueClosed)
      else change_row (\<lambda>r. rq_status r = Pending)
             (\<lambda>r. r\<lparr>rq_status := Rejected, rejection_reason := Some reason, resolved_at := Some (isoformat now)\<rparr>)
             rid (expire_due now2 q))"

definition reject_pending_by_producer :: "datetime \<Rightarrow> string \<Rightarrow> string \<Rightarrow> approval_queue
    \<Rightarrow> (approval_queue, queue_error, int) outcome" where
  "reject_pending_by_producer now producer reason q =
     (if producer = [] then (q, Inr 0)
      else if \<not> is_open q then (q, Inl QueueClosed)
      else
        (let P = (\<lambda>r. producer_ref r = producer \<and> rq_status r = Pending);
             f = (\<lambda>r. r\<lparr>rq_status := Rejected, rejection_reason := Some reason, resolved_at := Some (isoformat now)\<rparr>)
         in (update_where P f q, Inr (int (length (returned P f q))))))"

text \<open>\<open>ORDER BY created_at\<close>, ascending and descending, by bytes.\<close>

definition older :: "approval_request \<Rightarrow> approval_request \<Rightarrow> bool" where
  "older a b = text_less (created_at a) (created_at b)"

definition list_pending :: "datetime \<Rightarrow> approval_queue \<Rightarrow> (approval_queue, queue_error, approval_request list) outcome" where
  "list_pending now q =
     (if \<not> is_open q then (q, Inl QueueClosed)
      else (let q' = expire_due now q
            in (q', Inr (sort_by older (filter (\<lambda>r. rq_status r = Pending) (map snd (table q')))))))"

definition list_all_requests :: "datetime \<Rightarrow> int \<Rightarrow> approval_queue \<Rightarrow> (approval_queue, queue_error, approval_request list) outcome" where
  "list_all_requests now limit q =
     (if \<not> is_open q then (q, Inl QueueClosed)
      else (let q' = expire_due now q
            in (q', Inr (take (nat (max 1 limit)) (sort_by (\<lambda>a b. older b a) (map snd (table q')))))))"

definition list_history :: "datetime \<Rightarrow> approval_status list option \<Rightarrow> nat \<Rightarrow> approval_queue
    \<Rightarrow> (approval_queue, queue_error, approval_request list) outcome" where
  "list_history now statuses limit q =
     (let allowed = (case statuses of
            None \<Rightarrow> [Dispatching, Approved, Rejected, Expired, Failed]
          | Some [] \<Rightarrow> [Dispatching, Approved, Rejected, Expired, Failed]
          | Some ss \<Rightarrow> ss)
      in if \<not> is_open q then (q, Inl QueueClosed)
         else (let q' = expire_due now q
               in (q', Inr (take limit (sort_by (\<lambda>a b. older b a)
                         (filter (\<lambda>r. rq_status r \<in> set allowed) (map snd (table q'))))))))"

subsection \<open>The approve and reject handlers\<close>

record dispatch_result =
  succeeded :: bool
  status_code :: int
  dr_message :: string
  dr_broker_order_id :: "string option"
  dr_outcome_uncertain :: bool

definition dispatch_success :: "string \<Rightarrow> dispatch_result" where
  "dispatch_success broker_id =
     \<lparr>succeeded = True, status_code = 200, dr_message = [], dr_broker_order_id = Some broker_id, dr_outcome_uncertain = False\<rparr>"

definition dispatch_refused :: "int \<Rightarrow> string \<Rightarrow> bool \<Rightarrow> dispatch_result" where
  "dispatch_refused code message uncertain =
     \<lparr>succeeded = False, status_code = code, dr_message = message, dr_broker_order_id = None, dr_outcome_uncertain = uncertain\<rparr>"

definition UNCLEAN_DISPATCH :: string where
  "UNCLEAN_DISPATCH = ''Approval dispatch did not complete cleanly. The broker outcome may be unknown; '' @
     ''inspect the live order book before creating another intent.''"

text \<open>
  \<open>approve_order\<close>. \<open>denied\<close> is the answer of the application's authoriser, \<open>dispatcher\<close> the
  configured broker dispatcher (\<open>None\<close>: not configured), whose \<open>None\<close> result stands for an
  exception or an invalid result. The result is the HTTP status, the request whose dispatch
  was started, if any, and the queue; an error raised by the final mark is the left value.
\<close>

definition approve_order :: "int option \<Rightarrow> (approval_request \<Rightarrow> dispatch_result option) option
    \<Rightarrow> datetime \<Rightarrow> datetime \<Rightarrow> datetime \<Rightarrow> string \<Rightarrow> approval_queue
    \<Rightarrow> (approval_queue \<times> approval_request option, queue_error, int) outcome" where
  "approve_order denied dispatcher now now2 now3 rid q =
     (case denied of
        Some code \<Rightarrow> ((q, None), Inr code)
      | None \<Rightarrow>
          (case dispatcher of
             None \<Rightarrow> ((q, None), Inr 503)
           | Some dispatch \<Rightarrow>
               (case claim_for_dispatch now now2 rid q of
                  (q1, Inl e) \<Rightarrow> ((q1, None), Inr 409)
                | (q1, Inr claimed) \<Rightarrow>
                    (case dispatch claimed of
                       None \<Rightarrow>
                         (case mark_failed now3 rid UNCLEAN_DISPATCH True q1 of
                            (q2, Inl e) \<Rightarrow> ((q2, Some claimed), Inl e)
                          | (q2, Inr r) \<Rightarrow> ((q2, Some claimed), Inr 503))
                     | Some res \<Rightarrow>
                         (case dr_broker_order_id res of
                            Some broker_id \<Rightarrow>
                              if succeeded res \<and> broker_id \<noteq> []
                              then (case mark_approved now3 rid broker_id q1 of
                                      (q2, Inl e) \<Rightarrow> ((q2, Some claimed), Inl e)
                                    | (q2, Inr r) \<Rightarrow> ((q2, Some claimed), Inr 200))
                              else (case mark_failed now3 rid
                                           (if dr_message res = [] then ''Approval was refused'' else dr_message res)
                                           (dr_outcome_uncertain res) q1 of
                                      (q2, Inl e) \<Rightarrow> ((q2, Some claimed), Inl e)
                                    | (q2, Inr r) \<Rightarrow> ((q2, Some claimed),
                                        Inr (if 400 \<le> status_code res \<and> status_code res \<le> 599 then status_code res else 500)))
                          | None \<Rightarrow>
                              (case mark_failed now3 rid
                                      (if dr_message res = [] then ''Approval was refused'' else dr_message res)
                                      (dr_outcome_uncertain res) q1 of
                                 (q2, Inl e) \<Rightarrow> ((q2, Some claimed), Inl e)
                               | (q2, Inr r) \<Rightarrow> ((q2, Some claimed),
                                   Inr (if 400 \<le> status_code res \<and> status_code res \<le> 599 then status_code res else 500))))))))"

definition reject_order :: "int option \<Rightarrow> datetime \<Rightarrow> datetime \<Rightarrow> string \<Rightarrow> string \<Rightarrow> approval_queue \<Rightarrow> approval_queue \<times> int" where
  "reject_order denied now now2 rid body_reason q =
     (case denied of
        Some code \<Rightarrow> (q, code)
      | None \<Rightarrow>
          (case queue_reject now now2 rid (if body_reason = [] then ''Operator rejected'' else body_reason) q of
             (q', Inl e) \<Rightarrow> (q', 409)
           | (q', Inr r) \<Rightarrow> (q', 200)))"

subsection \<open>How rows evolve\<close>

definition keyed :: "approval_queue \<Rightarrow> bool" where
  "keyed q \<longleftrightarrow> distinct (map fst (table q)) \<and> list_all (\<lambda>(i, r). rq_id r = i) (table q)"

definition progress :: "approval_request \<Rightarrow> approval_request \<Rightarrow> bool" where
  "progress r r' \<longleftrightarrow> r' = r
     \<or> (rq_id r' = rq_id r \<and> order_params r' = order_params r \<and> intent_context r' = intent_context r
        \<and> expires_at r' = expires_at r
        \<and> (rq_status r = Pending \<and> rq_status r' \<noteq> Pending
           \<or> rq_status r = Dispatching \<and> rq_status r' \<in> {Approved, Failed}))"

definition evolves :: "approval_queue \<Rightarrow> approval_queue \<Rightarrow> bool" where
  "evolves q q' \<longleftrightarrow> (\<forall>i r. map_of (table q) i = Some r \<longrightarrow> (\<exists>r'. map_of (table q') i = Some r' \<and> progress r r'))"

lemma evolves_refl [simp]: "evolves q q"
  by (simp add: evolves_def progress_def)

lemma evolvesE:
  assumes "evolves q q'" and "map_of (table q) i = Some r"
  obtains r' where "map_of (table q') i = Some r'" and "progress r r'"
  using assms by (auto simp: evolves_def)

lemma map_of_update_where:
  "map_of (table (update_where P f q)) i = map_option (\<lambda>r. if P r then f r else r) (map_of (table q) i)"
  by (simp add: update_where_def map_of_map)

lemma keyed_update_where: "keyed q \<Longrightarrow> (\<And>r. rq_id (f r) = rq_id r) \<Longrightarrow> keyed (update_where P f q)"
  by (auto simp: keyed_def update_where_def list_all_iff comp_def case_prod_beta)

lemma is_open_update_where [simp]: "is_open (update_where P f q) = is_open q"
  by (simp add: update_where_def)

lemma evolves_update_where: "(\<And>r. P r \<Longrightarrow> progress r (f r)) \<Longrightarrow> evolves q (update_where P f q)"
  by (auto simp: evolves_def map_of_update_where progress_def)

lemma keyed_lookup: "keyed q \<Longrightarrow> map_of (table q) i = Some r \<Longrightarrow> rq_id r = i"
  by (auto simp: keyed_def list_all_iff dest: map_of_SomeD)

lemma returned_keyed:
  assumes "keyed q"
  shows "returned (\<lambda>r. rq_id r = rid \<and> P r) f q =
    (case map_of (table q) rid of Some r \<Rightarrow> if P r then [f r] else [] | None \<Rightarrow> [])"
proof -
  have "map f (filter (\<lambda>r. rq_id r = rid \<and> P r) (map snd t)) =
      (case map_of t rid of Some r \<Rightarrow> if P r then [f r] else [] | None \<Rightarrow> [])"
    if "distinct (map fst t)" "list_all (\<lambda>(i, r). rq_id r = i) t" for t
    using that
  proof (induction t)
    case (Cons e t)
    have "filter (\<lambda>r. rq_id r = rid \<and> P r) (map snd t) = []" if "fst e = rid"
    proof -
      have "rid \<notin> fst ` set t" using Cons.prems(1) that by auto
      then show ?thesis using Cons.prems(2) by (force simp: filter_empty_conv list_all_iff)
    qed
    with Cons show ?case by (cases e) (auto split: option.splits)
  qed simp
  with assms show ?thesis by (simp add: returned_def keyed_def)
qed

lemma change_row_keyed:
  assumes "keyed q" and "is_open q"
  shows "change_row P f rid q =
    (case map_of (table q) rid of
       None \<Rightarrow> (q, Inl (RequestNotFound rid))
     | Some r \<Rightarrow> if P r then (update_where (\<lambda>r. rq_id r = rid \<and> P r) f q, Inr (f r))
                else (q, Inl (WrongStatus rid (rq_status r))))"
  using assms by (simp add: change_row_def returned_keyed fetch_or_raise_def Let_def split: option.splits)

lemma change_row_cases: "fst (change_row P f rid q) \<in> {q, update_where (\<lambda>r. rq_id r = rid \<and> P r) f q}"
  by (simp add: change_row_def Let_def split: list.splits sum.splits)

lemma keyed_change_row: "keyed q \<Longrightarrow> (\<And>r. rq_id (f r) = rq_id r) \<Longrightarrow> keyed (fst (change_row P f rid q))"
  using change_row_cases [of P f rid q] keyed_update_where [of q f] by auto

lemma evolves_change_row: "(\<And>r. P r \<Longrightarrow> progress r (f r)) \<Longrightarrow> evolves q (fst (change_row P f rid q))"
  using change_row_cases [of P f rid q] evolves_update_where [of "\<lambda>r. rq_id r = rid \<and> P r" f q] by auto

lemma progress_trans: "progress r r' \<Longrightarrow> progress r' r'' \<Longrightarrow> progress r r''"
  by (auto simp: progress_def)

lemma evolves_trans: "evolves q q' \<Longrightarrow> evolves q' q'' \<Longrightarrow> evolves q q''"
  unfolding evolves_def by (meson progress_trans)

subsection \<open>Runs of the queue\<close>

datatype queue_op =
  QEnqueue datetime string enqueue_args
| QGet datetime string
| QList datetime
| QClaim datetime datetime string
| QApproved datetime string string
| QFailed datetime string string bool
| QReject datetime datetime string string
| QRejectProducer datetime string string
| QExpire datetime datetime "int option"
| QClose
| QRestart datetime

text \<open>
  The queue after an operation. A restart opens the table that the previous process left,
  and may happen at any moment.
\<close>

fun queue_after :: "approval_queue \<Rightarrow> queue_op \<Rightarrow> approval_queue" where
  "queue_after q (QEnqueue now fresh a) = fst (enqueue now fresh a q)"
| "queue_after q (QGet now rid) = fst (queue_get now rid q)"
| "queue_after q (QList now) = fst (list_pending now q)"
| "queue_after q (QClaim now now2 rid) = fst (claim_for_dispatch now now2 rid q)"
| "queue_after q (QApproved now rid b) = fst (mark_approved now rid b q)"
| "queue_after q (QFailed now rid reason u) = fst (mark_failed now rid reason u q)"
| "queue_after q (QReject now now2 rid reason) = fst (queue_reject now now2 rid reason q)"
| "queue_after q (QRejectProducer now p reason) = fst (reject_pending_by_producer now p reason q)"
| "queue_after q (QExpire now now2 minutes) = fst (expire_stale now now2 minutes q)"
| "queue_after q QClose = queue_close q"
| "queue_after q (QRestart now) = queue_open now (table q)"

text \<open>The ids handed out for broker dispatch, newest first.\<close>

fun dispatched :: "approval_queue \<Rightarrow> queue_op \<Rightarrow> string list" where
  "dispatched q (QClaim now now2 rid) =
     (case snd (claim_for_dispatch now now2 rid q) of Inl e \<Rightarrow> [] | Inr r \<Rightarrow> [rq_id r])"
| "dispatched q _ = []"

definition queue_exec :: "approval_queue \<times> string list \<Rightarrow> queue_op \<Rightarrow> approval_queue \<times> string list" where
  "queue_exec st op = (queue_after (fst st) op, dispatched (fst st) op @ snd st)"

lemma keyed_expire_due [simp]: "keyed q \<Longrightarrow> keyed (expire_due now q)"
  by (simp add: expire_due_def keyed_update_where mark_expired_def)

lemma evolves_expire_due [simp]: "evolves q (expire_due now q)"
  unfolding expire_due_def
  by (rule evolves_update_where) (auto simp: past_deadline_def mark_expired_def progress_def)

lemma is_open_expire_due [simp]: "is_open (expire_due now q) = is_open q"
  by (simp add: expire_due_def)

lemma keyed_enqueue: "keyed q \<Longrightarrow> keyed (fst (enqueue now fresh a q))"
  by (auto simp: enqueue_def keyed_def build_request_def Let_def map_of_eq_None_iff split: option.splits)

lemma evolves_enqueue: "evolves q (fst (enqueue now fresh a q))"
  by (auto simp: enqueue_def evolves_def progress_def Let_def map_add_def split: option.splits)

lemma keyed_after: "keyed q \<Longrightarrow> keyed (queue_after q op)"
  by (cases op)
    (auto simp: keyed_enqueue queue_get_def list_pending_def claim_for_dispatch_def mark_approved_def
      mark_failed_def queue_reject_def reject_pending_by_producer_def expire_stale_def queue_close_def
      queue_open_def reconcile_interrupted_dispatches_def Let_def mark_expired_def
      intro!: keyed_change_row keyed_update_where split: option.splits,
      auto simp: keyed_def)

lemma evolves_expire_change:
  "(\<And>r. P r \<Longrightarrow> progress r (f r)) \<Longrightarrow> evolves q (fst (change_row P f rid (expire_due now q)))"
  by (rule evolves_trans [OF evolves_expire_due evolves_change_row])

lemma evolves_claim: "evolves q (fst (claim_for_dispatch now now2 rid q))"
  by (auto simp: claim_for_dispatch_def progress_def intro!: evolves_expire_change)

lemma evolves_reject: "evolves q (fst (queue_reject now now2 rid reason q))"
  by (auto simp: queue_reject_def progress_def intro!: evolves_expire_change)

lemma evolves_open: "evolves q (queue_open now (table q))"
proof -
  have "evolves \<lparr>table = table q, is_open = True\<rparr> (queue_open now (table q))"
    unfolding queue_open_def reconcile_interrupted_dispatches_def
    by (rule evolves_update_where) (auto simp: progress_def)
  then show ?thesis by (simp add: evolves_def)
qed

lemma evolves_after: "evolves q (queue_after q op)"
proof (cases op)
  case (QExpire now now2 minutes)
  then show ?thesis
    by (auto simp: expire_stale_def older_than_def mark_expired_def progress_def
        intro!: evolves_update_where split: option.splits)
next
  case (QRejectProducer now p reason)
  then show ?thesis
    by (auto simp: reject_pending_by_producer_def Let_def progress_def intro!: evolves_update_where)
next
  case QClose
  then show ?thesis by (simp add: queue_close_def evolves_def progress_def)
qed (auto simp: evolves_enqueue evolves_claim evolves_reject evolves_open queue_get_def list_pending_def Let_def
      mark_approved_def mark_failed_def progress_def intro!: evolves_change_row)

text \<open>Every id handed out belongs to a request that has left the pending state through a dispatch.\<close>

definition claimed_row :: "approval_queue \<Rightarrow> string \<Rightarrow> bool" where
  "claimed_row q i \<longleftrightarrow> (\<exists>r. map_of (table q) i = Some r \<and> rq_status r \<in> {Dispatching, Approved, Failed})"

definition dispatch_inv :: "approval_queue \<times> string list \<Rightarrow> bool" where
  "dispatch_inv st \<longleftrightarrow> keyed (fst st) \<and> distinct (snd st) \<and> list_all (claimed_row (fst st)) (snd st)"

lemma claimed_row_evolves: "evolves q q' \<Longrightarrow> claimed_row q i \<Longrightarrow> claimed_row q' i"
  unfolding claimed_row_def by (auto elim!: evolvesE simp: progress_def)

text \<open>A claim in closed form on a keyed table.\<close>

definition claimable :: "datetime \<Rightarrow> datetime \<Rightarrow> approval_request \<Rightarrow> bool" where
  "claimable now now2 r \<longleftrightarrow> rq_status r = Pending
     \<and> \<not> text_less (expires_at r) (isoformat now) \<and> \<not> text_less (expires_at r) (isoformat now2)"

lemma map_of_expire_due:
  "map_of (table (expire_due now q)) i =
     map_option (\<lambda>r. if past_deadline (isoformat now) r then mark_expired (isoformat now) r else r) (map_of (table q) i)"
  by (simp add: expire_due_def map_of_update_where)

lemma claim_keyed:
  assumes "keyed q" and "is_open q" and "map_of (table q) rid = Some r"
  shows "claim_for_dispatch now now2 rid q =
    (if claimable now now2 r
     then (update_where (\<lambda>r. rq_id r = rid \<and> rq_status r = Pending \<and> \<not> text_less (expires_at r) (isoformat now2))
             (\<lambda>r. r\<lparr>rq_status := Dispatching\<rparr>) (expire_due now q), Inr (r\<lparr>rq_status := Dispatching\<rparr>))
     else (expire_due now q,
       Inl (WrongStatus rid (if past_deadline (isoformat now) r then Expired else rq_status r))))"
proof (cases "past_deadline (isoformat now) r")
  case True
  then have "\<not> claimable now now2 r" by (simp add: claimable_def past_deadline_def)
  with True assms show ?thesis
    by (simp add: claim_for_dispatch_def change_row_keyed map_of_expire_due mark_expired_def)
next
  case False
  then have "claimable now now2 r \<longleftrightarrow> rq_status r = Pending \<and> \<not> text_less (expires_at r) (isoformat now2)"
    by (auto simp: claimable_def past_deadline_def)
  with False assms show ?thesis
    by (simp add: claim_for_dispatch_def change_row_keyed map_of_expire_due)
qed

lemma claim_result:
  assumes "keyed q" and "snd (claim_for_dispatch now now2 rid q) = Inr r"
  obtains r0 where "map_of (table q) rid = Some r0" and "claimable now now2 r0" and "r = r0\<lparr>rq_status := Dispatching\<rparr>"
    and "rq_id r = rid" and "map_of (table (fst (claim_for_dispatch now now2 rid q))) rid = Some r"
proof -
  have op: "is_open q" using assms(2) by (auto simp: claim_for_dispatch_def split: if_splits)
  obtain r0 where r0: "map_of (table q) rid = Some r0"
    using assms op
    by (cases "map_of (table q) rid") (auto simp: claim_for_dispatch_def change_row_keyed map_of_expire_due)
  note claim = claim_keyed [OF assms(1) op r0, of now now2] and rid = keyed_lookup [OF assms(1) r0]
  have ok: "claimable now now2 r0" and r: "r = r0\<lparr>rq_status := Dispatching\<rparr>"
    using assms(2) by (auto simp: claim split: if_splits)
  then have "\<not> past_deadline (isoformat now) r0" by (simp add: claimable_def past_deadline_def)
  then have "map_of (table (fst (claim_for_dispatch now now2 rid q))) rid = Some r"
    using ok r0 rid by (simp add: claim r map_of_update_where map_of_expire_due claimable_def)
  with that [OF r0 ok r] rid show thesis by (simp add: r)
qed

lemma dispatch_inv_exec: "dispatch_inv st \<Longrightarrow> dispatch_inv (queue_exec st op)"
proof -
  assume inv: "dispatch_inv st"
  obtain q log where st: "st = (q, log)" by (cases st)
  from inv have k: "keyed q" and d: "distinct log" and c: "list_all (claimed_row q) log"
    by (simp_all add: dispatch_inv_def st)
  have c': "list_all (claimed_row (queue_after q op)) log"
    using c claimed_row_evolves [OF evolves_after] by (auto simp: list_all_iff)
  have "distinct (dispatched q op @ log) \<and> list_all (claimed_row (queue_after q op)) (dispatched q op)"
  proof (cases "dispatched q op")
    case Nil
    with d show ?thesis by simp
  next
    case (Cons i rest)
    then obtain now now2 rid r where op: "op = QClaim now now2 rid"
      and r: "snd (claim_for_dispatch now now2 rid q) = Inr r" and i: "i = rq_id r" "rest = []"
      by (cases op) (auto split: sum.splits)
    obtain r0 where r0: "map_of (table q) rid = Some r0" "claimable now now2 r0" "r = r0\<lparr>rq_status := Dispatching\<rparr>"
      and res: "rq_id r = rid" "map_of (table (fst (claim_for_dispatch now now2 rid q))) rid = Some r"
      using k r by (rule claim_result)
    have "\<not> claimed_row q rid" using r0 by (simp add: claimed_row_def claimable_def)
    then have "rid \<notin> set log" using c by (auto simp: list_all_iff)
    moreover have "claimed_row (queue_after q op) rid" using res r0(3) by (simp add: op claimed_row_def)
    ultimately show ?thesis using d i Cons res(1) by simp
  qed
  with k c' show ?thesis by (simp add: st queue_exec_def dispatch_inv_def keyed_after)
qed

interpretation dispatch: machine queue_exec dispatch_inv
  by unfold_locales (rule dispatch_inv_exec)

lemma dispatch_inv_fresh: "dispatch_inv (queue_open now [], [])"
  by (simp add: dispatch_inv_def keyed_def queue_open_def reconcile_interrupted_dispatches_def update_where_def)

text \<open>
  C20. At most one dispatch per intent: over any sequence of enqueues, claims, resolutions,
  expiries, closes and restarts, no request id is ever handed out for broker dispatch twice.
\<close>

theorem dispatched_at_most_once:
  "distinct (snd (foldl queue_exec (queue_open now [], []) ops))"
  using dispatch.inv_run [OF dispatch_inv_fresh, of now ops] by (simp add: dispatch_inv_def)

text \<open>
  C38. A resolved request is final: once approved, rejected, expired or failed, no later
  operation, expiry sweep or restart changes any of its columns.
\<close>

theorem resolved_requests_are_final:
  assumes "map_of (table (fst st)) i = Some r" and "rq_status r \<in> {Approved, Rejected, Expired, Failed}"
  shows "map_of (table (fst (foldl queue_exec st ops))) i = Some r"
  using assms(1)
proof (induction ops arbitrary: st)
  case (Cons op ops)
  have "evolves (fst st) (fst (queue_exec st op))" by (simp add: queue_exec_def evolves_after)
  with Cons.prems assms(2) have "map_of (table (fst (queue_exec st op))) i = Some r"
    by (auto elim!: evolvesE simp: progress_def)
  with Cons.IH show ?case by simp
qed simp

text \<open>
  A claim succeeds exactly when the request is pending and its deadline has not passed
  at either reading of the clock, compared as instants; the claimed request then is
  dispatching. Comparing the stored ISO text in the database is therefore sound.
\<close>

theorem claim_exactly_within_deadline:
  assumes "keyed q" and "is_open q" and "map_of (table q) rid = Some r"
    and "expires_at r = isoformat e" and "dt_valid e" and "dt_valid now" and "dt_valid now2"
  shows "snd (claim_for_dispatch now now2 rid q) =
      (if rq_status r = Pending \<and> \<not> dt_less e now \<and> \<not> dt_less e now2
       then Inr (r\<lparr>rq_status := Dispatching\<rparr>)
       else Inl (WrongStatus rid (if rq_status r = Pending \<and> dt_less e now then Expired else rq_status r)))"
  using assms by (simp add: claim_keyed claimable_def past_deadline_def isoformat_order)

definition example_now :: datetime where
  "example_now = \<lparr>dt_year = 2026, dt_month = 2, dt_day = 28, dt_hour = 23, dt_minute = 58, dt_second = 7, dt_micro = 0\<rparr>"

definition example_args :: enqueue_args where
  "example_args = \<lparr>ea_params = JObj [(''symbol'', JCell (PStr ''NIFTY''))], ea_reason = ''review'', ea_ttl_minutes = 5,
     ea_request_id = Some ''r1'', ea_adapter = '' Zerodha '', ea_account = [], ea_source = ''agent'', ea_intent = [],
     ea_producer = ''p1'', ea_context = JObj []\<rparr>"

definition example_queue :: approval_queue where
  "example_queue = fst (enqueue example_now ''u'' example_args (queue_open example_now []))"

definition example_expiry :: datetime where
  "example_expiry = \<lparr>dt_year = 2026, dt_month = 3, dt_day = 1, dt_hour = 0, dt_minute = 3, dt_second = 7, dt_micro = 0\<rparr>"

definition example_request :: approval_request where
  "example_request = build_request example_args ''r1'' example_now example_expiry"

lemma example_queue_facts:
  "map_of (table example_queue) ''r1'' = Some example_request" "is_open example_queue"
  "expires_at example_request = isoformat example_expiry" "dt_valid example_expiry" "rq_status example_request = Pending"
  "dt_valid (example_expiry\<lparr>dt_micro := 1\<rparr>)" "dt_valid example_now"
  "dt_less example_expiry (example_expiry\<lparr>dt_micro := 1\<rparr>)" "\<not> dt_less example_expiry example_now"
  by code_simp+

lemma example_queue_keyed: "keyed example_queue"
  using dispatch_inv_fresh [of example_now] by (simp add: example_queue_def dispatch_inv_def keyed_enqueue)

theorem claim_exactly_within_deadline_witness:
  "snd (claim_for_dispatch example_expiry example_expiry ''r1'' example_queue)
     = Inr (example_request\<lparr>rq_status := Dispatching\<rparr>)
   \<and> snd (claim_for_dispatch example_now (example_expiry\<lparr>dt_micro := 1\<rparr>) ''r1'' example_queue)
     = Inl (WrongStatus ''r1'' Pending)"
  using claim_exactly_within_deadline [OF example_queue_keyed example_queue_facts(2,1,3,4), of example_expiry example_expiry]
    claim_exactly_within_deadline [OF example_queue_keyed example_queue_facts(2,1,3,4), of example_now "example_expiry\<lparr>dt_micro := 1\<rparr>"]
    example_queue_facts
  by (simp add: dt_less_def dt_fields_def)

theorem resolved_requests_are_final_witness:
  "let q = fst (queue_reject example_now example_now ''r1'' ''no'' example_queue)
   in map_of (table (fst (foldl queue_exec (q, []) [QClaim example_now example_now ''r1'', QRestart example_expiry]))) ''r1''
      = map_of (table q) ''r1''"
proof -
  let ?q = "fst (queue_reject example_now example_now ''r1'' ''no'' example_queue)"
  let ?r = "example_request\<lparr>rq_status := Rejected, rejection_reason := Some ''no'', resolved_at := Some (isoformat example_now)\<rparr>"
  have q: "map_of (table (fst (?q, []))) ''r1'' = Some ?r" by code_simp
  have "rq_status ?r \<in> {Approved, Rejected, Expired, Failed}" by simp
  from resolved_requests_are_final [OF q this] q show ?thesis by (simp only: Let_def fst_conv)
qed

definition clean_row :: "string \<times> approval_request \<Rightarrow> bool" where
  "clean_row = (\<lambda>(i, r). \<not> sensitive_material (order_params r) \<and> \<not> sensitive_material (intent_context r))"

definition clean :: "approval_queue \<Rightarrow> bool" where
  "clean q = list_all clean_row (table q)"

lemma clean_update_where:
  "clean q \<Longrightarrow> (\<And>r. order_params (f r) = order_params r) \<Longrightarrow> (\<And>r. intent_context (f r) = intent_context r)
   \<Longrightarrow> clean (update_where P f q)"
  by (auto simp: clean_def update_where_def list_all_iff clean_row_def split: if_splits)

lemma clean_change_row:
  "clean q \<Longrightarrow> (\<And>r. order_params (f r) = order_params r) \<Longrightarrow> (\<And>r. intent_context (f r) = intent_context r)
   \<Longrightarrow> clean (fst (change_row P f rid q))"
  using change_row_cases [of P f rid q] clean_update_where [of q f] by auto

lemma clean_expire_due [simp]: "clean q \<Longrightarrow> clean (expire_due now q)"
  by (simp add: expire_due_def clean_update_where mark_expired_def)

lemma clean_after: "clean q \<Longrightarrow> clean (queue_after q op)"
proof (cases op)
  case (QEnqueue now fresh a)
  assume "clean q"
  then show ?thesis
    by (auto simp: QEnqueue enqueue_def clean_def clean_row_def build_request_def Let_def split: option.splits)
next
  case QClose
  assume "clean q"
  then show ?thesis by (simp add: QClose queue_close_def clean_def)
next
  case (QRestart now)
  assume "clean q"
  then have "clean \<lparr>table = table q, is_open = True\<rparr>" by (simp add: clean_def)
  then show ?thesis
    by (simp add: QRestart queue_open_def reconcile_interrupted_dispatches_def clean_update_where)
qed (auto simp: queue_get_def list_pending_def claim_for_dispatch_def mark_approved_def mark_failed_def
      queue_reject_def reject_pending_by_producer_def expire_stale_def Let_def mark_expired_def
      intro!: clean_change_row clean_update_where split: option.splits)

text \<open>
  Nothing secret is stored: after any run no stored intent has, at any depth of its
  parameters or context, a key that names a token, password, cookie, credential or gate
  material, however the key is cased or hyphenated.
\<close>

theorem queue_stores_no_secrets:
  "list_all clean_row (table (fst (foldl queue_exec (queue_open now [], []) ops)))"
proof -
  have "clean (fst (queue_exec st op))" if "dispatch_inv st" "clean (fst st)" for st op
    using that by (simp add: queue_exec_def clean_after)
  moreover have "clean (fst (queue_open now [], []))"
    by (simp add: clean_def queue_open_def reconcile_interrupted_dispatches_def update_where_def)
  ultimately have "clean (fst (foldl queue_exec (queue_open now [], []) ops))"
    using dispatch.run_preserves [of "\<lambda>st. clean (fst st)", OF _ dispatch_inv_fresh] by blast
  then show ?thesis by (simp add: clean_def)
qed

text \<open>
  A restart never replays: a request that was in flight is closed as failed with an
  uncertain outcome, every other request is untouched, and none can be claimed as in flight.
\<close>

theorem restart_fails_in_flight:
  "map_of (table (queue_open now rows)) i = map_option (\<lambda>r.
      if rq_status r = Dispatching
      then r\<lparr>rq_status := Failed, resolved_at := Some (isoformat now), failure_reason := Some RESTART_REASON,
             outcome_uncertain := True\<rparr>
      else r) (map_of rows i)
   \<and> list_all (\<lambda>(i, r). rq_status r \<noteq> Dispatching) (table (queue_open now rows))"
  by (auto simp: queue_open_def reconcile_interrupted_dispatches_def map_of_update_where)
    (auto simp: update_where_def list_all_iff split: if_splits)

lemma change_row_hit:
  assumes "keyed q" and "is_open q" and "map_of (table q) rid = Some r" and "P r"
  shows "\<exists>q2. change_row P f rid q = (q2, Inr (f r)) \<and> map_of (table q2) rid = Some (f r)"
  using assms keyed_lookup [OF assms(1,3)] by (simp add: change_row_keyed map_of_update_where)

definition failed_row :: "datetime \<Rightarrow> string \<Rightarrow> bool \<Rightarrow> approval_request \<Rightarrow> approval_request" where
  "failed_row now reason u r = r\<lparr>rq_status := Failed, resolved_at := Some (isoformat now),
     failure_reason := Some reason, outcome_uncertain := u\<rparr>"

definition approved_row :: "datetime \<Rightarrow> string \<Rightarrow> approval_request \<Rightarrow> approval_request" where
  "approved_row now b r = r\<lparr>rq_status := Approved, resolved_at := Some (isoformat now),
     broker_order_id := Some b, failure_reason := None, outcome_uncertain := False\<rparr>"

text \<open>A successful claim leaves a row that either mark accepts.\<close>

lemma claim_then_mark:
  assumes "keyed q" and "is_open q" and "map_of (table q) rid = Some r" and "claimable now now2 r"
  obtains q1 where "claim_for_dispatch now now2 rid q = (q1, Inr (r\<lparr>rq_status := Dispatching\<rparr>))"
    and "\<And>reason u. \<exists>q2. mark_failed now3 rid reason u q1 = (q2, Inr (failed_row now3 reason u (r\<lparr>rq_status := Dispatching\<rparr>)))
        \<and> map_of (table q2) rid = Some (failed_row now3 reason u (r\<lparr>rq_status := Dispatching\<rparr>))"
    and "\<And>b. \<exists>q2. mark_approved now3 rid b q1 = (q2, Inr (approved_row now3 b (r\<lparr>rq_status := Dispatching\<rparr>)))
        \<and> map_of (table q2) rid = Some (approved_row now3 b (r\<lparr>rq_status := Dispatching\<rparr>))"
proof -
  define q1 where "q1 = fst (claim_for_dispatch now now2 rid q)"
  let ?c = "r\<lparr>rq_status := Dispatching\<rparr>"
  have claim: "claim_for_dispatch now now2 rid q = (q1, Inr ?c)" and o1: "is_open q1"
    using claim_keyed [OF assms(1-3), of now now2] assms(2,4) by (simp_all add: q1_def)
  have k1: "keyed q1" using keyed_after [OF assms(1), of "QClaim now now2 rid"] by (simp add: q1_def)
  have "snd (claim_for_dispatch now now2 rid q) = Inr ?c" by (simp only: claim snd_conv)
  then have row: "map_of (table q1) rid = Some ?c" unfolding q1_def by (rule claim_result [OF assms(1)])
  show thesis
    by (rule that [OF claim]; unfold mark_failed_def failed_row_def mark_approved_def approved_row_def;
        rule change_row_hit [OF k1 o1 row]; simp)
qed

text \<open>
  The approve handler settles what it claims: the dispatcher runs on the claimed request
  only, and afterwards the request is approved exactly when the dispatcher reported success
  with a broker order id, and failed in every other case; it is never left in flight. A
  dispatcher that raises leaves an uncertain outcome.
\<close>

theorem approve_order_settles:
  assumes "keyed q" and "is_open q" and "map_of (table q) rid = Some r" and "claimable now now2 r"
    and "approve_order None (Some dispatch) now now2 now3 rid q = ((q', started), res)"
  shows "started = Some (r\<lparr>rq_status := Dispatching\<rparr>)
    \<and> (\<exists>r'. map_of (table q') rid = Some r' \<and> resolved_at r' = Some (isoformat now3)
        \<and> (case dispatch (r\<lparr>rq_status := Dispatching\<rparr>) of
             None \<Rightarrow> rq_status r' = Failed \<and> outcome_uncertain r' \<and> res = Inr 503
           | Some d \<Rightarrow>
               if succeeded d \<and> dr_broker_order_id d \<noteq> None \<and> dr_broker_order_id d \<noteq> Some []
               then rq_status r' = Approved \<and> broker_order_id r' = dr_broker_order_id d \<and> res = Inr 200
               else rq_status r' = Failed \<and> outcome_uncertain r' = dr_outcome_uncertain d
                    \<and> (\<exists>code. res = Inr code \<and> 400 \<le> code \<and> code \<le> 599)))"
proof -
  let ?c = "r\<lparr>rq_status := Dispatching\<rparr>"
  obtain q1 where claim: "claim_for_dispatch now now2 rid q = (q1, Inr ?c)"
    and failed: "\<And>reason u. \<exists>q2. mark_failed now3 rid reason u q1 = (q2, Inr (failed_row now3 reason u ?c))
        \<and> map_of (table q2) rid = Some (failed_row now3 reason u ?c)"
    and approved: "\<And>b. \<exists>q2. mark_approved now3 rid b q1 = (q2, Inr (approved_row now3 b ?c))
        \<and> map_of (table q2) rid = Some (approved_row now3 b ?c)"
    using claim_then_mark [OF assms(1-4), of now3] by blast
  show ?thesis
  proof (cases "dispatch ?c")
    case None
    obtain q2 where "mark_failed now3 rid UNCLEAN_DISPATCH True q1 = (q2, Inr (failed_row now3 UNCLEAN_DISPATCH True ?c))"
        "map_of (table q2) rid = Some (failed_row now3 UNCLEAN_DISPATCH True ?c)"
      using failed by blast
    with None assms(5) claim show ?thesis by (auto simp: approve_order_def failed_row_def)
  next
    case (Some d)
    define why where "why = (if dr_message d = [] then ''Approval was refused'' else dr_message d)"
    obtain qf where f: "mark_failed now3 rid why (dr_outcome_uncertain d) q1 = (qf, Inr (failed_row now3 why (dr_outcome_uncertain d) ?c))"
        "map_of (table qf) rid = Some (failed_row now3 why (dr_outcome_uncertain d) ?c)"
      using failed by blast
    have code: "\<exists>code. (Inr (if 400 \<le> n \<and> n \<le> 599 then n else 500) :: queue_error + int) = Inr code \<and> 400 \<le> code \<and> code \<le> 599"
      for n :: int by auto
    show ?thesis
    proof (cases "succeeded d \<and> dr_broker_order_id d \<noteq> None \<and> dr_broker_order_id d \<noteq> Some []")
      case True
      then obtain b where b: "dr_broker_order_id d = Some b" "b \<noteq> []" "succeeded d" by blast
      obtain q2 where "mark_approved now3 rid b q1 = (q2, Inr (approved_row now3 b ?c))"
          "map_of (table q2) rid = Some (approved_row now3 b ?c)"
        using approved by blast
      with b Some assms(5) claim show ?thesis by (auto simp: approve_order_def approved_row_def)
    next
      case False
      then have "((q', started), res) = ((qf, Some ?c),
          Inr (if 400 \<le> status_code d \<and> status_code d \<le> 599 then status_code d else 500))"
        using assms(5) claim Some f(1) unfolding why_def
        by (cases "dr_broker_order_id d") (auto simp: approve_order_def)
      with False Some f(2) code [of "status_code d"] show ?thesis by (simp add: failed_row_def)
    qed
  qed
qed

theorem approve_order_settles_witness:
  "let r = approve_order None (Some (\<lambda>r. Some (dispatch_success ''B9''))) example_now example_now example_expiry ''r1'' example_queue
   in snd r = Inr 200 \<and> map_option rq_status (map_of (table (fst (fst r))) ''r1'') = Some Approved"
proof -
  let ?a = "approve_order None (Some (\<lambda>r. Some (dispatch_success ''B9''))) example_now example_now example_expiry ''r1'' example_queue"
  obtain q' started res where a: "?a = ((q', started), res)" by (metis surj_pair)
  have "claimable example_now example_now example_request" by code_simp
  from approve_order_settles [OF example_queue_keyed example_queue_facts(2,1) this a] show ?thesis
    by (auto simp: a Let_def dispatch_success_def [THEN arg_cong, of succeeded] dispatch_success_def [THEN arg_cong, of dr_broker_order_id])
qed

subsection \<open>The in-memory queue\<close>

lemma map_of_map_keyed: "map_of (map (\<lambda>(k, v). (k, f k v)) xs) i = map_option (f i) (map_of xs i)"
  by (induction xs) auto

text \<open>
  In memory an order is approved (or rejected) exactly when it is pending and younger than
  the time to live; the call changes no other order apart from expiring stale ones, and an
  order that is no longer pending keeps its resolution.
\<close>

theorem ac_resolve_correct:
  assumes "map_of (orders ac) oid = Some po" and "resolve st ck now oid ac = (ac', res)"
  shows "(if po_status po = PENDING \<and> time_now ck - of_int (ttl_seconds ac) \<le> po_created_at po
      then res = Inr (po\<lparr>po_status := st, po_resolved_at := Some now\<rparr>)
        \<and> map_of (orders ac') oid = Some (po\<lparr>po_status := st, po_resolved_at := Some now\<rparr>)
      else (\<exists>st'. res = Inl (AcNotPending oid st') \<and> st' \<noteq> PENDING)
        \<and> (po_status po \<noteq> PENDING \<longrightarrow> map_of (orders ac') oid = Some po))
    \<and> (\<forall>i po'. i \<noteq> oid \<longrightarrow> map_of (orders ac) i = Some po' \<longrightarrow> \<not> stale (time_now ck - of_int (ttl_seconds ac)) po'
         \<longrightarrow> map_of (orders ac') i = Some po')"
proof -
  let ?cut = "time_now ck - of_int (ttl_seconds ac)"
  have expired: "map_of (orders (ac_expire_stale ck ac)) i = map_option (\<lambda>p. if stale ?cut p
      then p\<lparr>po_status := EXPIRED, po_resolved_at := Some (stamp ck i)\<rparr> else p) (map_of (orders ac) i)" for i
    by (simp add: ac_expire_stale_def map_of_map_keyed)
  show ?thesis
  proof (cases "stale ?cut po")
    case True
    then have "po_status po = PENDING" "po_created_at po < ?cut" by (simp_all add: stale_def)
    with True assms expired show ?thesis by (auto simp: resolve_def get_or_raise_def Let_def)
  next
    case False
    with assms expired show ?thesis
      by (auto simp: resolve_def get_or_raise_def Let_def stale_def split: if_splits)
  qed
qed

theorem ac_resolve_correct_witness:
  "let po = \<lparr>po_order_id = ''o1'', po_account_id = ''a'', po_order_data = [], po_status = PENDING,
             po_created_at = 1000, po_resolved_at = None\<rparr>;
       ac = \<lparr>ttl_seconds = 300, enabled = True, orders = [(''o1'', po)]\<rparr>
   in snd (resolve APPROVED \<lparr>time_now = 1300, stamp = (\<lambda>i. 1300)\<rparr> 1300 ''o1'' ac)
        = Inr (po\<lparr>po_status := APPROVED, po_resolved_at := Some 1300\<rparr>)
      \<and> snd (resolve APPROVED \<lparr>time_now = 1301, stamp = (\<lambda>i. 1301)\<rparr> 1301 ''o1'' ac) = Inl (AcNotPending ''o1'' EXPIRED)"
proof -
  let ?po = "\<lparr>po_order_id = ''o1'', po_account_id = ''a'', po_order_data = [], po_status = PENDING,
             po_created_at = 1000, po_resolved_at = None\<rparr>"
  let ?ac = "\<lparr>ttl_seconds = 300, enabled = True, orders = [(''o1'', ?po)]\<rparr>"
  have po: "map_of (orders ?ac) ''o1'' = Some ?po" by simp
  obtain ac' res where r: "resolve APPROVED \<lparr>time_now = 1300, stamp = (\<lambda>i. 1300)\<rparr> 1300 ''o1'' ?ac = (ac', res)"
    by (metis surj_pair)
  have "snd (resolve APPROVED \<lparr>time_now = 1301, stamp = (\<lambda>i. 1301)\<rparr> 1301 ''o1'' ?ac) = Inl (AcNotPending ''o1'' EXPIRED)"
    by (simp add: resolve_def ac_expire_stale_def stale_def get_or_raise_def)
  with ac_resolve_correct [OF po r] r show ?thesis by (simp add: Let_def)
qed

text \<open>
  A failed insert always says that the request exists, also when the queue is closed or the
  payload is not JSON and no such request is stored.
\<close>

lemma closed_enqueue_reports_existing:
  assumes "\<not> is_open q \<or> \<not> serialisable (ea_params a)" and "0 \<le> ea_ttl_minutes a"
    and "\<not> sensitive_material (ea_params a)" and "\<not> sensitive_material (ea_context a)"
    and "ea_request_id a = Some rid" and "rid \<noteq> []" and "add_minutes now (ea_ttl_minutes a) = Some expiry"
  shows "enqueue now fresh a q = (q, Inl (RequestExists rid))"
  using assms by (auto simp: enqueue_def Let_def)

end
