(* ===== verification/Strategy_Lifecycle.thy ===== *)
theory Strategy_Lifecycle
  imports Py_Json Iso_Time
begin

text \<open>
  \<open>flinttrade_engine/strategy.py\<close> and \<open>flinttrade_engine/strategy_lifecycle.py\<close>: the strategy
  objects with their checkpoints and registry, and the manager of deployed instances.

  The manager checks the status of an instance before it takes the lock and changes it under
  the lock, so each operation is given as a guard and a commit; the sequential operation is
  both in one step, and the race of two callers is a guard of one before the commit of the
  other. An exception of the registry is swallowed by the manager.
\<close>

subsection \<open>Strategy objects\<close>

datatype base_state = ACTIVE | PAUSED | STOPPED | ERROR

datatype lifecycle_event = EvStart | EvPause | EvResume | EvStop

fun TRANSITIONS :: "lifecycle_event \<Rightarrow> base_state list \<times> base_state" where
  "TRANSITIONS EvStart = ([STOPPED, ERROR], ACTIVE)"
| "TRANSITIONS EvPause = ([ACTIVE], PAUSED)"
| "TRANSITIONS EvResume = ([PAUSED], ACTIVE)"
| "TRANSITIONS EvStop = ([ACTIVE, PAUSED, ERROR], STOPPED)"

record base_strategy =
  bs_name :: string
  bs_exchange :: string
  bs_product :: string
  bs_strategy_id :: string
  bs_state :: base_state
  bs_error_message :: string

definition safe_char :: "char \<Rightarrow> bool" where
  "safe_char c \<longleftrightarrow> (97 \<le> code_of c \<and> code_of c \<le> 122) \<or> (65 \<le> code_of c \<and> code_of c \<le> 90) \<or> is_digit c
     \<or> c = CHR ''_'' \<or> c = CHR ''-''"

definition slug_char :: "char \<Rightarrow> bool" where
  "slug_char c \<longleftrightarrow> (97 \<le> code_of c \<and> code_of c \<le> 122) \<or> is_digit c \<or> c = CHR ''_'' \<or> c = CHR ''-''"

text \<open>\<open>re.sub(r"[^a-z0-9_-]+", "_", s)\<close>: each run of other characters becomes one underscore.\<close>

fun slug_sub :: "bool \<Rightarrow> string \<Rightarrow> string" where
  "slug_sub in_run [] = []"
| "slug_sub in_run (c # cs) =
     (if slug_char c then c # slug_sub False cs
      else if in_run then slug_sub True cs else CHR ''_'' # slug_sub True cs)"

definition strip_underscores :: "string \<Rightarrow> string" where
  "strip_underscores s = rev (dropWhile (\<lambda>c. c = CHR ''_'') (rev (dropWhile (\<lambda>c. c = CHR ''_'') s)))"

definition strategy_identifier :: "string option \<Rightarrow> string \<Rightarrow> string" where
  "strategy_identifier given name =
     (case given of
        Some i \<Rightarrow> if i = [] then strip_underscores (slug_sub False (py_lower name)) else i
      | None \<Rightarrow> strip_underscores (slug_sub False (py_lower name)))"

datatype lifecycle_error =
  InvalidStrategyId
| NoRegistryInstance string
| NotRegistered string
| InstanceNotFoundError string
| InvalidTransitionError string
| InstanceValueError string
| CheckpointValueError

definition base_init :: "string \<Rightarrow> string \<Rightarrow> string \<Rightarrow> string option \<Rightarrow> lifecycle_error + base_strategy" where
  "base_init name exchange product given =
     (let identifier = strategy_identifier given name
      in bind_res (require (identifier \<noteq> [] \<and> list_all safe_char identifier) InvalidStrategyId) (\<lambda>_.
           Inr \<lparr>bs_name = name, bs_exchange = exchange, bs_product = product, bs_strategy_id = identifier,
                bs_state = STOPPED, bs_error_message = []\<rparr>))"

definition apply_lifecycle_transition :: "lifecycle_event \<Rightarrow> base_strategy \<Rightarrow> base_strategy" where
  "apply_lifecycle_transition event s =
     (case TRANSITIONS event of (permitted, destination) \<Rightarrow>
        if bs_state s \<in> set permitted
        then s\<lparr>bs_state := destination,
               bs_error_message := (if event = EvStart then [] else bs_error_message s)\<rparr>
        else s)"

definition set_error :: "string \<Rightarrow> base_strategy \<Rightarrow> base_strategy" where
  "set_error message s = s\<lparr>bs_error_message := message, bs_state := ERROR\<rparr>"

definition is_active :: "base_strategy \<Rightarrow> bool" where
  "is_active s \<longleftrightarrow> bs_state s = ACTIVE"

fun base_state_text :: "base_state \<Rightarrow> string" where
  "base_state_text ACTIVE = ''ACTIVE''"
| "base_state_text PAUSED = ''PAUSED''"
| "base_state_text STOPPED = ''STOPPED''"
| "base_state_text ERROR = ''ERROR''"

subsection \<open>Checkpoints\<close>

text \<open>\<open>json.dumps(..., allow_nan=False)\<close> also refuses floats that are not finite.\<close>

fun strict_json :: "json \<Rightarrow> bool" where
  "strict_json (JCell v) = (case v of PFloat (Fin r) t \<Rightarrow> True | PFloat f t \<Rightarrow> False | _ \<Rightarrow> True)"
| "strict_json (JList vs) = list_all strict_json vs"
| "strict_json (JObj kvs) = list_all (\<lambda>kv. strict_json (snd kv)) kvs"
| "strict_json JOther = False"

definition checkpoint_payload :: "metadata \<Rightarrow> base_strategy \<Rightarrow> metadata" where
  "checkpoint_payload state_dict s =
     dict_update state_dict
       [(''strategy_id'', JCell (PStr (bs_strategy_id s))), (''name'', JCell (PStr (bs_name s))),
        (''lifecycle_state'', JCell (PStr (base_state_text (bs_state s)))),
        (''error_message'', JCell (PStr (bs_error_message s)))]"

text \<open>
  The checkpoint file of a strategy: absent, or its parsed content. A write replaces the whole
  file or, when the operating system refuses it, leaves the old one; the staging file never
  becomes visible under the target name before it is complete.
\<close>

definition save_state :: "bool \<Rightarrow> metadata \<Rightarrow> base_strategy \<Rightarrow> json option \<Rightarrow> (json option, lifecycle_error, unit) outcome" where
  "save_state write_ok state_dict s file =
     (let payload = checkpoint_payload state_dict s
      in if \<not> strict_json (JObj payload) then (file, Inl CheckpointValueError)
         else (if write_ok then Some (JObj payload) else file, Inr ()))"

definition load_state :: "json option \<Rightarrow> metadata option" where
  "load_state file = (case file of Some (JObj payload) \<Rightarrow> Some payload | _ \<Rightarrow> None)"

definition clear_state :: "bool \<Rightarrow> json option \<Rightarrow> json option" where
  "clear_state unlink_ok file = (if unlink_ok then None else file)"

subsection \<open>The registry\<close>

type_synonym registry = "(string \<times> base_strategy) list"

definition registry_instance :: "string \<Rightarrow> registry \<Rightarrow> lifecycle_error + base_strategy" where
  "registry_instance name reg = (case map_of reg name of None \<Rightarrow> Inl (NoRegistryInstance name) | Some s \<Rightarrow> Inr s)"

definition registry_enable :: "string \<Rightarrow> registry \<Rightarrow> (registry, lifecycle_error, unit) outcome" where
  "registry_enable name reg =
     (case registry_instance name reg of
        Inl e \<Rightarrow> (reg, Inl e)
      | Inr s \<Rightarrow> (AList.update name (apply_lifecycle_transition (if bs_state s = PAUSED then EvResume else EvStart) s) reg, Inr ()))"

definition registry_disable :: "string \<Rightarrow> registry \<Rightarrow> (registry, lifecycle_error, unit) outcome" where
  "registry_disable name reg =
     (case registry_instance name reg of
        Inl e \<Rightarrow> (reg, Inl e)
      | Inr s \<Rightarrow> (AList.update name (apply_lifecycle_transition EvPause s) reg, Inr ()))"

definition registry_stop_one :: "string \<Rightarrow> registry \<Rightarrow> registry" where
  "registry_stop_one name reg =
     (case map_of reg name of None \<Rightarrow> reg | Some s \<Rightarrow> AList.update name (apply_lifecycle_transition EvStop s) reg)"

definition registry_stop_all :: "registry \<Rightarrow> registry" where
  "registry_stop_all reg = fold registry_stop_one (map fst reg) reg"

definition list_active :: "registry \<Rightarrow> string list" where
  "list_active reg = map fst (filter (\<lambda>(n, s). is_active s) reg)"

subsection \<open>Instances and the manager\<close>

datatype instance_status = I_CREATED | I_RUNNING | I_PAUSED | I_STOPPED | I_ERROR

record strategy_instance =
  si_id :: string
  si_name :: string
  si_class :: string
  si_symbols :: "string list"
  si_exchange :: string
  si_product :: string
  si_parameters :: metadata
  si_status :: instance_status
  si_created_at :: string
  si_started_at :: "string option"
  si_stopped_at :: "string option"
  si_last_signal :: "string option"
  si_error_message :: string
  si_cycle_count :: int
  si_trade_count :: int
  si_daily_pnl :: fnum

definition is_running :: "strategy_instance \<Rightarrow> bool" where
  "is_running x \<longleftrightarrow> si_status x = I_RUNNING"

definition is_stopped :: "strategy_instance \<Rightarrow> bool" where
  "is_stopped x \<longleftrightarrow> si_status x \<in> {I_STOPPED, I_ERROR}"

record lifecycle_manager =
  instances :: "(string \<times> strategy_instance) list"
  registry :: "registry option"

text \<open>\<open>datetime.now(UTC).replace(tzinfo=None).isoformat() + "Z"\<close>.\<close>

definition now_iso_z :: "datetime \<Rightarrow> string" where
  "now_iso_z t = pad 4 (dt_year t) @ ''-'' @ pad 2 (dt_month t) @ ''-'' @ pad 2 (dt_day t) @ ''T''
     @ pad 2 (dt_hour t) @ '':'' @ pad 2 (dt_minute t) @ '':'' @ pad 2 (dt_second t)
     @ iso_fraction (dt_micro t) @ ''Z''"

definition instance_or_raise :: "string \<Rightarrow> lifecycle_manager \<Rightarrow> lifecycle_error + strategy_instance" where
  "instance_or_raise i m = (case map_of (instances m) i of None \<Rightarrow> Inl (InstanceNotFoundError i) | Some x \<Rightarrow> Inr x)"

definition put_instance :: "strategy_instance \<Rightarrow> lifecycle_manager \<Rightarrow> lifecycle_manager" where
  "put_instance x m = m\<lparr>instances := AList.update (si_id x) x (instances m)\<rparr>"

text \<open>Calls to the registry, their exceptions swallowed.\<close>

definition with_registry :: "(registry \<Rightarrow> registry) \<Rightarrow> lifecycle_manager \<Rightarrow> lifecycle_manager" where
  "with_registry f m = (case registry m of None \<Rightarrow> m | Some reg \<Rightarrow> m\<lparr>registry := Some (f reg)\<rparr>)"

record create_args =
  ca_class :: string
  ca_name :: string
  ca_symbols :: "string list"
  ca_exchange :: string
  ca_product :: string
  ca_parameters :: metadata
  ca_id :: "string option"

definition created_id :: "string \<Rightarrow> create_args \<Rightarrow> string" where
  "created_id fresh a = (case ca_id a of None \<Rightarrow> fresh | Some i \<Rightarrow> if i = [] then fresh else i)"

definition create_instance :: "datetime \<Rightarrow> string \<Rightarrow> create_args \<Rightarrow> lifecycle_manager
    \<Rightarrow> (lifecycle_manager, lifecycle_error, strategy_instance) outcome" where
  "create_instance now fresh a m =
     (if py_strip (ca_name a) = [] then (m, Inl (InstanceValueError ''Instance name must be non-empty''))
      else if py_strip (ca_class a) = [] then (m, Inl (InstanceValueError ''strategy_class_name must be non-empty''))
      else if ca_symbols a = [] then (m, Inl (InstanceValueError ''symbols must be non-empty''))
      else
        (let x = \<lparr>si_id = created_id fresh a,
                  si_name = py_strip (ca_name a), si_class = ca_class a, si_symbols = ca_symbols a,
                  si_exchange = ca_exchange a, si_product = ca_product a, si_parameters = ca_parameters a,
                  si_status = I_CREATED, si_created_at = now_iso_z now, si_started_at = None, si_stopped_at = None,
                  si_last_signal = None, si_error_message = [], si_cycle_count = 0, si_trade_count = 0,
                  si_daily_pnl = Fin 0\<rparr>
         in (put_instance x m, Inr x)))"

text \<open>An instance object is mutated in place, under the key it is stored at.\<close>

definition on_instance :: "(strategy_instance \<Rightarrow> strategy_instance) \<Rightarrow> string \<Rightarrow> lifecycle_manager \<Rightarrow> lifecycle_manager" where
  "on_instance f i m =
     (case map_of (instances m) i of None \<Rightarrow> m | Some x \<Rightarrow> m\<lparr>instances := AList.update i (f x) (instances m)\<rparr>)"

text \<open>
  Guard and commit of the four status changes. The commit works on the instance object found
  by the guard, whatever its status is by then; the object is still the one stored at the key
  unless a call in between removed or replaced it.
\<close>

datatype change = Deploy | Pause | Resume | Stop

fun allowed_from :: "change \<Rightarrow> instance_status list" where
  "allowed_from Deploy = [I_CREATED, I_PAUSED]"
| "allowed_from Pause = [I_RUNNING]"
| "allowed_from Resume = [I_PAUSED]"
| "allowed_from Stop = [I_RUNNING, I_PAUSED, I_ERROR]"

definition change_guard :: "change \<Rightarrow> string \<Rightarrow> lifecycle_manager \<Rightarrow> lifecycle_error + strategy_instance" where
  "change_guard ch i m =
     bind_res (instance_or_raise i m) (\<lambda>x.
       bind_res (require (si_status x \<in> set (allowed_from ch)) (InvalidTransitionError i)) (\<lambda>_. Inr x))"

fun changed :: "change \<Rightarrow> string \<Rightarrow> strategy_instance \<Rightarrow> strategy_instance" where
  "changed Deploy now x = x\<lparr>si_status := I_RUNNING, si_started_at := Some now, si_error_message := []\<rparr>"
| "changed Pause now x = x\<lparr>si_status := I_PAUSED\<rparr>"
| "changed Resume now x = x\<lparr>si_status := I_RUNNING, si_started_at := Some now\<rparr>"
| "changed Stop now x = x\<lparr>si_status := I_STOPPED, si_stopped_at := Some now\<rparr>"

fun registry_call :: "change \<Rightarrow> string \<Rightarrow> registry \<Rightarrow> registry" where
  "registry_call Deploy name reg = fst (registry_enable name reg)"
| "registry_call Pause name reg = fst (registry_disable name reg)"
| "registry_call Resume name reg = fst (registry_enable name reg)"
| "registry_call Stop name reg = registry_stop_one name reg"

definition change_commit :: "change \<Rightarrow> datetime \<Rightarrow> string \<Rightarrow> strategy_instance \<Rightarrow> lifecycle_manager \<Rightarrow> lifecycle_manager" where
  "change_commit ch now i x m =
     with_registry (registry_call ch (si_class x)) (on_instance (changed ch (now_iso_z now)) i m)"

definition change_instance :: "change \<Rightarrow> datetime \<Rightarrow> string \<Rightarrow> lifecycle_manager
    \<Rightarrow> (lifecycle_manager, lifecycle_error, strategy_instance) outcome" where
  "change_instance ch now i m =
     (case change_guard ch i m of
        Inl e \<Rightarrow> (m, Inl e)
      | Inr x \<Rightarrow> (change_commit ch now i x m, Inr (changed ch (now_iso_z now) x)))"

definition deploy :: "datetime \<Rightarrow> string \<Rightarrow> lifecycle_manager \<Rightarrow> (lifecycle_manager, lifecycle_error, strategy_instance) outcome" where
  "deploy = change_instance Deploy"

definition pause :: "datetime \<Rightarrow> string \<Rightarrow> lifecycle_manager \<Rightarrow> (lifecycle_manager, lifecycle_error, strategy_instance) outcome" where
  "pause = change_instance Pause"

definition resume :: "datetime \<Rightarrow> string \<Rightarrow> lifecycle_manager \<Rightarrow> (lifecycle_manager, lifecycle_error, strategy_instance) outcome" where
  "resume = change_instance Resume"

definition stop :: "datetime \<Rightarrow> string \<Rightarrow> lifecycle_manager \<Rightarrow> (lifecycle_manager, lifecycle_error, strategy_instance) outcome" where
  "stop = change_instance Stop"

definition errored :: "string \<Rightarrow> string \<Rightarrow> strategy_instance \<Rightarrow> strategy_instance" where
  "errored now message x = x\<lparr>si_status := I_ERROR, si_error_message := message, si_stopped_at := Some now\<rparr>"

definition mark_error :: "datetime \<Rightarrow> string \<Rightarrow> string \<Rightarrow> lifecycle_manager
    \<Rightarrow> (lifecycle_manager, lifecycle_error, strategy_instance) outcome" where
  "mark_error now i message m =
     (case instance_or_raise i m of
        Inl e \<Rightarrow> (m, Inl e)
      | Inr x \<Rightarrow> (on_instance (errored (now_iso_z now) message) i m, Inr (errored (now_iso_z now) message x)))"

definition record_signal :: "string \<Rightarrow> string \<Rightarrow> lifecycle_manager \<Rightarrow> lifecycle_manager" where
  "record_signal i signal = on_instance (\<lambda>x. x\<lparr>si_last_signal := Some signal\<rparr>) i"

text \<open>Addition of doubles.\<close>

fun fadd :: "fnum \<Rightarrow> fnum \<Rightarrow> fnum" where
  "fadd (Fin a) (Fin b) = round64 (a + b)"
| "fadd NotANum _ = NotANum"
| "fadd _ NotANum = NotANum"
| "fadd PosInf NegInf = NotANum"
| "fadd NegInf PosInf = NotANum"
| "fadd PosInf _ = PosInf"
| "fadd _ PosInf = PosInf"
| "fadd NegInf _ = NegInf"
| "fadd _ NegInf = NegInf"

definition record_trade :: "string \<Rightarrow> fnum \<Rightarrow> lifecycle_manager \<Rightarrow> lifecycle_manager" where
  "record_trade i pnl =
     on_instance (\<lambda>x. x\<lparr>si_trade_count := si_trade_count x + 1, si_daily_pnl := fadd (si_daily_pnl x) pnl\<rparr>) i"

definition increment_cycle :: "string \<Rightarrow> lifecycle_manager \<Rightarrow> lifecycle_manager" where
  "increment_cycle i = on_instance (\<lambda>x. x\<lparr>si_cycle_count := si_cycle_count x + 1\<rparr>) i"

definition list_instances :: "instance_status option \<Rightarrow> lifecycle_manager \<Rightarrow> strategy_instance list" where
  "list_instances status_filter m =
     sort_by (\<lambda>a b. text_less (si_created_at a) (si_created_at b))
       (filter (\<lambda>x. case status_filter of None \<Rightarrow> True | Some st \<Rightarrow> si_status x = st) (map snd (instances m)))"

definition remove :: "string \<Rightarrow> lifecycle_manager \<Rightarrow> (lifecycle_manager, lifecycle_error, unit) outcome" where
  "remove i m =
     (case instance_or_raise i m of
        Inl e \<Rightarrow> (m, Inl e)
      | Inr x \<Rightarrow>
          if si_status x \<notin> {I_STOPPED, I_ERROR, I_CREATED} then (m, Inl (InvalidTransitionError i))
          else (m\<lparr>instances := AList.delete i (instances m)\<rparr>, Inr ()))"

fun stop_each :: "(string \<Rightarrow> datetime) \<Rightarrow> string list \<Rightarrow> lifecycle_manager \<Rightarrow> lifecycle_manager \<times> string list" where
  "stop_each now [] m = (m, [])"
| "stop_each now (k # ks) m =
     (case map_of (instances m) k of
        None \<Rightarrow> stop_each now ks m
      | Some x \<Rightarrow>
          if si_status x \<in> {I_RUNNING, I_PAUSED}
          then (case stop (now (si_id x)) (si_id x) m of
                  (m', Inl e) \<Rightarrow> stop_each now ks m'
                | (m', Inr y) \<Rightarrow> (case stop_each now ks m' of (m'', ids) \<Rightarrow> (m'', si_id x # ids)))
          else stop_each now ks m)"

definition stop_all :: "(string \<Rightarrow> datetime) \<Rightarrow> lifecycle_manager \<Rightarrow> lifecycle_manager \<times> string list" where
  "stop_all now m = stop_each now (map fst (instances m)) m"

definition instance_count :: "lifecycle_manager \<Rightarrow> nat" where
  "instance_count m = length (instances m)"

definition running_count :: "lifecycle_manager \<Rightarrow> nat" where
  "running_count m = length (filter (\<lambda>(i, x). si_status x = I_RUNNING) (instances m))"

subsection \<open>Calls on the manager\<close>

datatype manager_call =
  CallCreate datetime string create_args
| CallChange change datetime string
| CallError datetime string string
| CallSignal string string
| CallTrade string fnum
| CallCycle string
| CallRemove string
| CallStopAll "string \<Rightarrow> datetime"

fun manager_step :: "manager_call \<Rightarrow> lifecycle_manager \<Rightarrow> lifecycle_manager" where
  "manager_step (CallCreate now fresh a) m = fst (create_instance now fresh a m)"
| "manager_step (CallChange Deploy now i) m = fst (deploy now i m)"
| "manager_step (CallChange Pause now i) m = fst (pause now i m)"
| "manager_step (CallChange Resume now i) m = fst (resume now i m)"
| "manager_step (CallChange Stop now i) m = fst (stop now i m)"
| "manager_step (CallError now i message) m = fst (mark_error now i message m)"
| "manager_step (CallSignal i signal) m = record_signal i signal m"
| "manager_step (CallTrade i pnl) m = record_trade i pnl m"
| "manager_step (CallCycle i) m = increment_cycle i m"
| "manager_step (CallRemove i) m = fst (remove i m)"
| "manager_step (CallStopAll now) m = fst (stop_all now m)"

definition manager_run :: "manager_call list \<Rightarrow> lifecycle_manager \<Rightarrow> lifecycle_manager" where
  "manager_run calls m = foldl (\<lambda>m call. manager_step call m) m calls"

definition new_manager :: "registry option \<Rightarrow> lifecycle_manager" where
  "new_manager reg = \<lparr>instances = [], registry = reg\<rparr>"

subsection \<open>What a call leaves of an instance\<close>

lemma instances_with_registry [simp]: "instances (with_registry f m) = instances m"
  by (simp add: with_registry_def split: option.splits)

lemma registry_on_instance [simp]: "registry (on_instance f i m) = registry m"
  by (simp add: on_instance_def split: option.splits)

lemma registry_put_instance [simp]: "registry (put_instance x m) = registry m"
  by (simp add: put_instance_def)

lemma lookup_on_instance:
  "map_of (instances (on_instance f i m)) k =
     (if k = i then map_option f (map_of (instances m) i) else map_of (instances m) k)"
  by (simp add: on_instance_def split: option.splits)

lemma lookup_put_instance:
  "map_of (instances (put_instance x m)) k = (if k = si_id x then Some x else map_of (instances m) k)"
  by (simp add: put_instance_def)

lemma update_keys_same: "map_of d k = Some v \<Longrightarrow> map fst (AList.update k w d) = map fst d"
  by (induction d) (auto split: if_splits)

lemma keys_on_instance [simp]: "map fst (instances (on_instance f i m)) = map fst (instances m)"
  by (simp add: on_instance_def update_keys_same split: option.splits)

definition attempt :: "change \<Rightarrow> datetime \<Rightarrow> strategy_instance \<Rightarrow> strategy_instance" where
  "attempt ch now x = (if si_status x \<in> set (allowed_from ch) then changed ch (now_iso_z now) x else x)"

lemma change_instance_cases:
  obtains (missing) "map_of (instances m) i = None" "change_instance ch now i m = (m, Inl (InstanceNotFoundError i))"
  | (refused) x where "map_of (instances m) i = Some x" "si_status x \<notin> set (allowed_from ch)"
      "change_instance ch now i m = (m, Inl (InvalidTransitionError i))"
  | (committed) x where "map_of (instances m) i = Some x" "si_status x \<in> set (allowed_from ch)"
      "change_instance ch now i m = (change_commit ch now i x m, Inr (changed ch (now_iso_z now) x))"
proof (cases "map_of (instances m) i")
  case None
  then show ?thesis by (intro missing) (simp_all add: change_instance_def change_guard_def instance_or_raise_def)
next
  case (Some x)
  show ?thesis
  proof (cases "si_status x \<in> set (allowed_from ch)")
    case True
    with Some show ?thesis
      by (intro committed) (simp_all add: change_instance_def change_guard_def instance_or_raise_def require_def)
  next
    case False
    with Some show ?thesis
      by (intro refused) (simp_all add: change_instance_def change_guard_def instance_or_raise_def require_def)
  qed
qed

lemma lookup_change_instance:
  "map_of (instances (fst (change_instance ch now i m))) k =
     (if k = i then map_option (attempt ch now) (map_of (instances m) i) else map_of (instances m) k)"
  by (rule change_instance_cases [of m i ch now])
     (auto simp: change_commit_def lookup_on_instance attempt_def)

lemma keys_change_instance [simp]:
  "map fst (instances (fst (change_instance ch now i m))) = map fst (instances m)"
  by (rule change_instance_cases [of m i ch now]) (auto simp: change_commit_def)

lemma changed_fields [simp]:
  "si_id (changed ch t x) = si_id x" "si_class (changed ch t x) = si_class x"
  by (cases ch; simp)+

lemma attempt_fields [simp]: "si_id (attempt ch now x) = si_id x" "si_class (attempt ch now x) = si_class x"
  by (simp_all add: attempt_def)

lemma errored_fields [simp]:
  "si_id (errored t msg x) = si_id x" "si_class (errored t msg x) = si_class x" "si_status (errored t msg x) = I_ERROR"
  by (simp_all add: errored_def)

lemma mark_error_state: "fst (mark_error now i msg m) = on_instance (errored (now_iso_z now) msg) i m"
  by (simp add: mark_error_def instance_or_raise_def on_instance_def split: option.splits)

lemma lookup_remove:
  "map_of (instances (fst (remove i m))) k =
     (if k = i \<and> (\<exists>x. map_of (instances m) i = Some x \<and> si_status x \<in> {I_STOPPED, I_ERROR, I_CREATED})
      then None else map_of (instances m) k)"
  by (auto simp: remove_def instance_or_raise_def split: option.splits)

lemma create_instance_state:
  "fst (create_instance now fresh a m) = m \<or>
   (\<exists>x. fst (create_instance now fresh a m) = put_instance x m \<and> si_id x = created_id fresh a
      \<and> si_class x = ca_class a \<and> si_status x = I_CREATED)"
  by (auto simp: create_instance_def Let_def)

text \<open>\<open>stop_each\<close> acts on the instances as a list of calls of \<open>stop\<close>.\<close>

lemma stop_each_as_stops:
  "\<exists>stops. fst (stop_each now ks m) = foldl (\<lambda>m (t, i). fst (stop t i m)) m stops"
proof (induction ks arbitrary: m)
  case Nil
  show ?case by (rule exI [of _ "[]"]) simp
next
  case (Cons k ks)
  show ?case
  proof (cases "\<exists>x. map_of (instances m) k = Some x \<and> si_status x \<in> {I_RUNNING, I_PAUSED}")
    case True
    then obtain x where x: "map_of (instances m) k = Some x" "si_status x \<in> {I_RUNNING, I_PAUSED}" by blast
    let ?m = "fst (stop (now (si_id x)) (si_id x) m)"
    obtain stops where "fst (stop_each now ks ?m) = foldl (\<lambda>m (t, i). fst (stop t i m)) ?m stops"
      using Cons.IH by blast
    moreover have "fst (stop_each now (k # ks) m) = fst (stop_each now ks ?m)"
      using x by (auto split: prod.splits sum.splits)
    ultimately show ?thesis
      by (intro exI [of _ "(now (si_id x), si_id x) # stops"]) simp
  next
    case False
    then have "fst (stop_each now (k # ks) m) = fst (stop_each now ks m)" by (auto split: option.splits)
    then show ?thesis using Cons.IH by simp
  qed
qed

lemma stop_each_induct:
  assumes "P m" and step: "\<And>m t i. P m \<Longrightarrow> P (fst (stop t i m))"
  shows "P (fst (stop_each now ks m))"
proof -
  obtain stops where eq: "fst (stop_each now ks m) = foldl (\<lambda>m (t, i). fst (stop t i m)) m stops"
    using stop_each_as_stops by blast
  have "P (foldl (\<lambda>m (t, i). fst (stop t i m)) m stops)"
    using assms(1) by (induction stops arbitrary: m) (auto intro: step)
  then show ?thesis by (simp add: eq)
qed

subsection \<open>Ended instances\<close>

text \<open>No instance is stored under the key, or the one stored there has ended.\<close>

definition ended :: "string \<Rightarrow> lifecycle_manager \<Rightarrow> bool" where
  "ended i m = (case map_of (instances m) i of None \<Rightarrow> True | Some x \<Rightarrow> is_stopped x)"

definition creates :: "string \<Rightarrow> manager_call \<Rightarrow> bool" where
  "creates i call = (case call of CallCreate now fresh a \<Rightarrow> created_id fresh a = i | _ \<Rightarrow> False)"

lemma ended_change: "ended i m \<Longrightarrow> ended i (fst (change_instance ch now k m))"
  by (cases ch) (auto simp: ended_def lookup_change_instance attempt_def is_stopped_def split: option.splits)

lemma ended_on_instance:
  "ended i m \<Longrightarrow> (\<And>x. is_stopped x \<Longrightarrow> is_stopped (f x))
     \<Longrightarrow> ended i (on_instance f k m)"
  by (auto simp: ended_def lookup_on_instance split: option.splits)

lemmas change_ops = deploy_def pause_def resume_def stop_def
lemmas record_ops = record_signal_def record_trade_def increment_cycle_def

lemma ended_step:
  assumes "ended i m" and "\<not> creates i call"
  shows "ended i (manager_step call m)"
proof (cases call)
  case (CallCreate now fresh a)
  with assms show ?thesis
    using create_instance_state [of now fresh a m]
    by (auto simp: creates_def ended_def lookup_put_instance)
next
  case (CallChange ch now k)
  with assms(1) show ?thesis by (cases ch) (simp_all add: change_ops ended_change)
next
  case (CallRemove k)
  with assms(1) show ?thesis by (auto simp: ended_def lookup_remove split: option.splits)
next
  case (CallStopAll now)
  with assms(1) show ?thesis
    by (simp add: stop_all_def) (rule stop_each_induct, auto simp: stop_def ended_change)
qed (use assms(1) in \<open>auto simp: mark_error_state record_ops is_stopped_def intro!: ended_on_instance\<close>)

text \<open>
  C40. Once an instance is STOPPED or in ERROR, no sequence of calls on the manager makes it
  RUNNING or PAUSED again, whatever is deployed, resumed, stopped, failed, removed or recorded
  in between, for as long as no new instance is created under its identifier: the only status
  changes left are from one ended status to another, and removal.
\<close>

theorem ended_instances_never_run:
  assumes "map_of (instances m) i = Some x" and "is_stopped x"
    and "list_all (\<lambda>call. \<not> creates i call) calls"
    and "map_of (instances (manager_run calls m)) i = Some y"
  shows "is_stopped y"
proof -
  have "ended i m \<Longrightarrow> list_all (\<lambda>call. \<not> creates i call) calls \<Longrightarrow> ended i (manager_run calls m)"
    unfolding manager_run_def by (induction calls arbitrary: m) (auto simp: ended_step)
  with assms show ?thesis by (simp add: ended_def)
qed

subsection \<open>Stopping everything\<close>

text \<open>Keys are the identifiers of the objects stored at them, each once.\<close>

definition keyed :: "lifecycle_manager \<Rightarrow> bool" where
  "keyed m \<longleftrightarrow> distinct (map fst (instances m)) \<and> (\<forall>i x. map_of (instances m) i = Some x \<longrightarrow> si_id x = i)"

lemma keyed_change: "keyed m \<Longrightarrow> keyed (fst (change_instance ch now i m))"
  by (auto simp: keyed_def lookup_change_instance)

lemma keyed_on_instance: "keyed m \<Longrightarrow> (\<And>x. si_id (f x) = si_id x) \<Longrightarrow> keyed (on_instance f i m)"
  by (auto simp: keyed_def lookup_on_instance)

lemma keyed_step: "keyed m \<Longrightarrow> keyed (manager_step call m)"
proof (cases call)
  case (CallCreate now fresh a)
  assume "keyed m"
  then have "keyed (put_instance x m)" for x
    by (auto simp: keyed_def lookup_put_instance) (simp add: put_instance_def distinct_update)
  with CallCreate \<open>keyed m\<close> show ?thesis using create_instance_state [of now fresh a m] by auto
next
  case (CallChange ch now k)
  assume "keyed m"
  with CallChange show ?thesis by (cases ch) (simp_all add: change_ops keyed_change)
next
  case (CallRemove k)
  assume "keyed m"
  with CallRemove show ?thesis
    by (auto simp: keyed_def lookup_remove) (auto simp: remove_def instance_or_raise_def distinct_delete split: option.splits)
next
  case (CallStopAll now)
  assume "keyed m"
  with CallStopAll show ?thesis
    by (simp add: stop_all_def) (rule stop_each_induct, auto simp: stop_def keyed_change)
qed (auto simp: mark_error_state record_ops intro!: keyed_on_instance)

interpretation lifecycle: machine "\<lambda>m call. manager_step call m" keyed
  by unfold_locales (rule keyed_step)

lemma keyed_new: "keyed (new_manager reg)"
  by (simp add: keyed_def new_manager_def)

lemma keyed_reachable: "keyed (manager_run calls (new_manager reg))"
  unfolding manager_run_def by (rule lifecycle.inv_run) (rule keyed_new)

definition live_status :: "strategy_instance \<Rightarrow> bool" where
  "live_status x \<longleftrightarrow> si_status x \<in> {I_RUNNING, I_PAUSED}"

definition live_at :: "lifecycle_manager \<Rightarrow> string \<Rightarrow> bool" where
  "live_at m i = (case map_of (instances m) i of None \<Rightarrow> False | Some x \<Rightarrow> live_status x)"

lemma live_at_cong: "map_of (instances m) i = map_of (instances m') i \<Longrightarrow> live_at m i = live_at m' i"
  by (simp add: live_at_def)

lemma lookup_stop:
  "map_of (instances (fst (stop t i m))) k =
     (if k = i then map_option (attempt Stop t) (map_of (instances m) i) else map_of (instances m) k)"
  by (simp add: stop_def lookup_change_instance)

lemma stop_each_Cons:
  assumes "keyed m"
  shows "stop_each now (k # ks) m =
     (if live_at m k
      then apsnd (Cons k) (stop_each now ks (fst (stop (now k) k m))) else stop_each now ks m)"
proof (cases "map_of (instances m) k")
  case (Some x)
  with assms have id: "si_id x = k" by (simp add: keyed_def)
  show ?thesis
  proof (cases "live_status x")
    case True
    have "\<exists>m' y. stop (now k) k m = (m', Inr y)"
      unfolding stop_def
      by (rule change_instance_cases [of m k Stop "now k"]) (use Some True in \<open>auto simp: live_status_def\<close>)
    then obtain m' y where "stop (now k) k m = (m', Inr y)" by blast
    then show ?thesis
      using Some True id by (simp add: live_at_def live_status_def apsnd_def map_prod_def split: prod.splits)
  next
    case False
    with Some show ?thesis by (simp add: live_at_def live_status_def)
  qed
qed (simp add: live_at_def)

lemma stop_each_effect:
  assumes "keyed m" and "distinct ks"
  shows "snd (stop_each now ks m) = filter (live_at m) ks
     \<and> (\<forall>i. map_of (instances (fst (stop_each now ks m))) i =
         (if i \<in> set ks then map_option (\<lambda>x. if live_status x then changed Stop (now_iso_z (now i)) x else x) (map_of (instances m) i)
          else map_of (instances m) i))"
  using assms
proof (induction ks arbitrary: m)
  case (Cons k ks)
  let ?m = "if live_at m k then fst (stop (now k) k m) else m"
  have keyed: "keyed ?m" using Cons.prems(1) by (simp add: stop_def keyed_change)
  have eq: "snd (stop_each now (k # ks) m) = (if live_at m k then [k] else []) @ snd (stop_each now ks ?m)"
    "fst (stop_each now (k # ks) m) = fst (stop_each now ks ?m)"
    unfolding stop_each_Cons [OF Cons.prems(1)] by simp_all
  have look: "map_of (instances ?m) i =
      (if i = k then map_option (\<lambda>x. if live_status x then changed Stop (now_iso_z (now k)) x else x) (map_of (instances m) k)
       else map_of (instances m) i)" for i
    by (cases "map_of (instances m) k") (auto simp: lookup_stop attempt_def live_at_def live_status_def)
  have others: "filter (live_at ?m) ks = filter (live_at m) ks"
  proof (rule filter_cong)
    fix j
    assume "j \<in> set ks"
    with Cons.prems(2) have "j \<noteq> k" by auto
    then have "map_of (instances ?m) j = map_of (instances m) j" unfolding look by simp
    then show "live_at ?m j = live_at m j" by (rule live_at_cong)
  qed simp
  have "distinct ks" using Cons.prems(2) by simp
  note IH = Cons.IH [OF keyed this]
  show ?case
  proof (intro conjI allI)
    show "snd (stop_each now (k # ks) m) = filter (live_at m) (k # ks)"
      unfolding eq using IH others by simp
    show "map_of (instances (fst (stop_each now (k # ks) m))) i =
        (if i \<in> set (k # ks) then map_option (\<lambda>x. if live_status x then changed Stop (now_iso_z (now i)) x else x) (map_of (instances m) i)
         else map_of (instances m) i)" for i
      using Cons.prems(2) unfolding eq spec [OF conjunct2 [OF IH], of i] look by auto
  qed
qed simp

text \<open>
  However the manager was used, \<open>stop_all\<close> leaves no instance running or paused: it reports
  exactly the instances that were running or paused, in the order of the dictionary, each of
  them is STOPPED with the time of its stop, and every other instance is as it was.
\<close>

theorem stop_all_stops_the_live:
  assumes "m = manager_run calls (new_manager reg)" and "stop_all now m = (m', ids)"
  shows "ids = filter (live_at m) (map fst (instances m))
     \<and> map fst (instances m') = map fst (instances m) \<and> running_count m' = 0
     \<and> map_of (instances m') i =
         map_option (\<lambda>x. if live_status x then x\<lparr>si_status := I_STOPPED, si_stopped_at := Some (now_iso_z (now i))\<rparr> else x)
           (map_of (instances m) i)"
proof -
  have keyed: "keyed m" unfolding assms(1) by (rule keyed_reachable)
  then have "distinct (map fst (instances m))" by (simp add: keyed_def)
  note effect = stop_each_effect [OF keyed this, of now]
  have m': "m' = fst (stop_each now (map fst (instances m)) m)"
    and ids: "ids = snd (stop_each now (map fst (instances m)) m)"
    using assms(2) by (simp_all add: stop_all_def)
  have look: "map_of (instances m') j =
      map_option (\<lambda>x. if live_status x then x\<lparr>si_status := I_STOPPED, si_stopped_at := Some (now_iso_z (now j))\<rparr> else x)
        (map_of (instances m) j)" for j
  proof (cases "map_of (instances m) j")
    case None
    with conjunct2 [OF effect] show ?thesis by (simp add: m')
  next
    case (Some x)
    then have "j \<in> set (map fst (instances m))" by (auto dest: map_of_SomeD intro: rev_image_eqI)
    with Some conjunct2 [OF effect] show ?thesis by (simp add: m')
  qed
  have keys: "map fst (instances m') = map fst (instances m)"
    unfolding m' by (rule stop_each_induct) (simp_all add: stop_def)
  have "keyed m'"
    unfolding m' by (rule stop_each_induct) (simp_all add: keyed stop_def keyed_change)
  then have "map_of (instances m') j = Some x" if "(j, x) \<in> set (instances m')" for j x
    using that by (simp add: keyed_def)
  then have "si_status x \<noteq> I_RUNNING" if "(j, x) \<in> set (instances m')" for j x
    using that look [of j] by (cases "map_of (instances m) j") (force simp: live_status_def split: if_splits)+
  then have "running_count m' = 0"
    unfolding running_count_def by (auto simp: filter_empty_conv)
  with look keys conjunct1 [OF effect] ids show ?thesis by blast
qed
subsection \<open>Instances and the strategies of the registry\<close>

text \<open>
  The status of an instance and the state of the registry's strategy of its class: a running
  instance has an active strategy, a paused one a paused strategy and a stopped one a stopped
  strategy. A created instance and one in ERROR say nothing of it: \<open>mark_error\<close> does not call
  the registry.
\<close>

definition agrees :: "lifecycle_manager \<Rightarrow> strategy_instance \<Rightarrow> bool" where
  "agrees m x =
     (case registry m of
        None \<Rightarrow> False
      | Some reg \<Rightarrow>
          (case map_of reg (si_class x) of
             None \<Rightarrow> False
           | Some s \<Rightarrow>
               (case si_status x of
                  I_RUNNING \<Rightarrow> bs_state s = ACTIVE
                | I_PAUSED \<Rightarrow> bs_state s = PAUSED
                | I_STOPPED \<Rightarrow> bs_state s = STOPPED
                | I_CREATED \<Rightarrow> True
                | I_ERROR \<Rightarrow> True)))"

text \<open>A call respects the classes when it creates no second instance of a class and none without a strategy.\<close>

definition respects_classes :: "manager_call \<Rightarrow> lifecycle_manager \<Rightarrow> bool" where
  "respects_classes call m =
     (case call of
        CallCreate now fresh a \<Rightarrow>
          (case registry m of None \<Rightarrow> False | Some reg \<Rightarrow> map_of reg (ca_class a) \<noteq> None)
          \<and> list_all (\<lambda>(i, x). i = created_id fresh a \<or> si_class x \<noteq> ca_class a) (instances m)
      | _ \<Rightarrow> True)"

inductive reaches :: "lifecycle_manager \<Rightarrow> lifecycle_manager \<Rightarrow> bool" for m0 where
  start: "reaches m0 m0"
| call: "reaches m0 m \<Longrightarrow> respects_classes c m \<Longrightarrow> reaches m0 (manager_step c m)"

definition in_step :: "lifecycle_manager \<Rightarrow> bool" where
  "in_step m \<longleftrightarrow> (\<forall>i x. map_of (instances m) i = Some x \<longrightarrow> agrees m x)
     \<and> (\<forall>i j x y. map_of (instances m) i = Some x \<longrightarrow> map_of (instances m) j = Some y \<longrightarrow> si_class x = si_class y \<longrightarrow> i = j)"

lemma registry_call_other: "k \<noteq> c \<Longrightarrow> map_of (registry_call ch c reg) k = map_of reg k"
  by (cases ch) (auto simp: registry_enable_def registry_disable_def registry_stop_one_def registry_instance_def
      split: option.splits sum.splits)

lemma registry_call_same:
  assumes "map_of reg c = Some s"
  shows "\<exists>s'. map_of (registry_call ch c reg) c = Some s' \<and>
     (case ch of Pause \<Rightarrow> bs_state s = ACTIVE \<longrightarrow> bs_state s' = PAUSED | Stop \<Rightarrow> bs_state s' = STOPPED | _ \<Rightarrow> bs_state s' = ACTIVE)"
proof -
  have "bs_state (apply_lifecycle_transition (if bs_state s = PAUSED then EvResume else EvStart) s) = ACTIVE"
    by (cases "bs_state s") (simp_all add: apply_lifecycle_transition_def)
  moreover have "bs_state (apply_lifecycle_transition EvStop s) = STOPPED"
    by (cases "bs_state s") (simp_all add: apply_lifecycle_transition_def)
  moreover have "bs_state s = ACTIVE \<Longrightarrow> bs_state (apply_lifecycle_transition EvPause s) = PAUSED"
    by (simp add: apply_lifecycle_transition_def)
  ultimately show ?thesis
    using assms
    by (cases ch) (simp_all add: registry_enable_def registry_disable_def registry_stop_one_def registry_instance_def)
qed

lemma agrees_registry: "registry m = registry m' \<Longrightarrow> agrees m x = agrees m' x"
  by (simp add: agrees_def)

lemma agrees_congI:
  "agrees m x \<Longrightarrow> si_class y = si_class x \<Longrightarrow> si_status y = si_status x \<or> si_status y = I_ERROR \<Longrightarrow> agrees m y"
  by (auto simp: agrees_def split: option.splits)

lemma in_step_on_instance:
  assumes "in_step m"
    and "\<And>x. si_class (f x) = si_class x \<and> (si_status (f x) = si_status x \<or> si_status (f x) = I_ERROR)"
  shows "in_step (on_instance f i m)"
  unfolding in_step_def
proof (intro conjI allI impI)
  fix k x
  assume "map_of (instances (on_instance f i m)) k = Some x"
  then obtain y where y: "map_of (instances m) k = Some y" "x = y \<or> x = f y"
    by (auto simp: lookup_on_instance split: if_splits)
  with assms(1) have "agrees m y" by (auto simp: in_step_def)
  then have "agrees m x" using y(2) assms(2) [of y] by (auto intro: agrees_congI)
  then show "agrees (on_instance f i m) x" by (subst agrees_registry [of _ m]) simp_all
next
  fix k j x y
  assume "map_of (instances (on_instance f i m)) k = Some x" "map_of (instances (on_instance f i m)) j = Some y"
    "si_class x = si_class y"
  with assms show "k = j" by (auto simp: in_step_def lookup_on_instance split: if_splits)
qed

lemma agrees_after_commit:
  assumes "registry m = Some reg" and "agrees m x" and "si_status x \<in> set (allowed_from ch)"
  shows "agrees (change_commit ch now i x m) (changed ch t x)"
proof -
  obtain s where s: "map_of reg (si_class x) = Some s"
    using assms(1,2) by (auto simp: agrees_def split: option.splits)
  obtain s' where s': "map_of (registry_call ch (si_class x) reg) (si_class x) = Some s'"
    and st: "case ch of Pause \<Rightarrow> bs_state s = ACTIVE \<longrightarrow> bs_state s' = PAUSED | Stop \<Rightarrow> bs_state s' = STOPPED
       | _ \<Rightarrow> bs_state s' = ACTIVE"
    using registry_call_same [OF s] by blast
  have reg': "registry (change_commit ch now i x m) = Some (registry_call ch (si_class x) reg)"
    by (simp add: change_commit_def with_registry_def assms(1))
  have "ch = Pause \<Longrightarrow> bs_state s = ACTIVE"
    using assms s by (simp add: agrees_def)
  with st s' reg' show ?thesis by (cases ch) (simp_all add: agrees_def)
qed

lemma in_step_change:
  assumes ok: "in_step m"
  shows "in_step (fst (change_instance ch now i m))"
proof (rule change_instance_cases [of m i ch now])
  fix x
  assume x: "map_of (instances m) i = Some x" "si_status x \<in> set (allowed_from ch)"
    and eq: "change_instance ch now i m = (change_commit ch now i x m, Inr (changed ch (now_iso_z now) x))"
  let ?m = "change_commit ch now i x m"
  have agrees_x: "agrees m x" using ok x(1) by (auto simp: in_step_def)
  then obtain reg where reg: "registry m = Some reg" by (auto simp: agrees_def split: option.splits)
  have look: "map_of (instances ?m) k = (if k = i then Some (changed ch (now_iso_z now) x) else map_of (instances m) k)" for k
    using x(1) by (simp add: change_commit_def lookup_on_instance)
  have "in_step ?m"
    unfolding in_step_def
  proof (intro conjI allI impI)
    fix k y
    assume y: "map_of (instances ?m) k = Some y"
    show "agrees ?m y"
    proof (cases "k = i")
      case True
      with y look have "y = changed ch (now_iso_z now) x" by simp
      then show ?thesis using agrees_after_commit [OF reg agrees_x x(2)] by simp
    next
      case False
      with y look have y': "map_of (instances m) k = Some y" by simp
      with ok x(1) False have "si_class y \<noteq> si_class x" by (auto simp: in_step_def)
      moreover have "agrees m y" using ok y' by (auto simp: in_step_def)
      ultimately show ?thesis
        by (simp add: agrees_def change_commit_def with_registry_def reg registry_call_other)
    qed
  next
    fix k j y z
    assume "map_of (instances ?m) k = Some y" "map_of (instances ?m) j = Some z" "si_class y = si_class z"
    with ok x(1) show "k = j" by (auto simp: in_step_def look split: if_splits)
  qed
  then show ?thesis by (simp add: eq)
qed (use ok in simp_all)

lemma in_step_create:
  assumes ok: "in_step m" and "respects_classes (CallCreate now fresh a) m"
  shows "in_step (fst (create_instance now fresh a m))"
proof -
  obtain reg s where reg: "registry m = Some reg" "map_of reg (ca_class a) = Some s"
    using assms(2) by (auto simp: respects_classes_def split: option.splits)
  have free: "k = created_id fresh a \<or> si_class y \<noteq> ca_class a" if "map_of (instances m) k = Some y" for k y
    using assms(2) map_of_SomeD [OF that] by (auto simp: respects_classes_def list_all_iff)
  have "in_step (put_instance x m)"
    if x: "si_id x = created_id fresh a" "si_class x = ca_class a" "si_status x = I_CREATED" for x
    unfolding in_step_def
  proof (intro conjI allI impI)
    fix k y
    assume "map_of (instances (put_instance x m)) k = Some y"
    then have "y = x \<or> map_of (instances m) k = Some y" by (auto simp: lookup_put_instance split: if_splits)
    moreover have "agrees m x" using reg x by (simp add: agrees_def)
    ultimately have "agrees m y" using ok by (auto simp: in_step_def)
    then show "agrees (put_instance x m) y" by (subst agrees_registry [of _ m]) simp_all
  next
    fix k j y z
    assume "map_of (instances (put_instance x m)) k = Some y" "map_of (instances (put_instance x m)) j = Some z"
      "si_class y = si_class z"
    then show "k = j" using ok free x
      by (auto simp: in_step_def lookup_put_instance split: if_splits)
  qed
  then show ?thesis using create_instance_state [of now fresh a m] ok by auto
qed

lemma in_step_step:
  assumes "in_step m" and "respects_classes c m"
  shows "in_step (manager_step c m)"
proof (cases c)
  case (CallCreate now fresh a)
  with assms show ?thesis by (simp add: in_step_create)
next
  case (CallChange ch now k)
  with assms(1) show ?thesis by (cases ch) (simp_all add: change_ops in_step_change)
next
  case (CallRemove k)
  have "registry (fst (remove k m)) = registry m"
    by (simp add: remove_def instance_or_raise_def split: option.splits)
  with CallRemove assms(1) show ?thesis
    by (auto simp: in_step_def lookup_remove agrees_registry [of "fst (remove k m)" m] split: if_splits)
next
  case (CallStopAll now)
  with assms(1) show ?thesis
    by (simp add: stop_all_def) (rule stop_each_induct, auto simp: stop_def in_step_change)
qed (use assms(1) in \<open>auto simp: mark_error_state record_ops intro!: in_step_on_instance\<close>)

text \<open>
  The manager and the registry never drift apart as long as each strategy class is used by
  one instance and the registry has a strategy for it: in every state the manager can reach, the
  strategy of a RUNNING instance is ACTIVE, that of a PAUSED instance is PAUSED and that of a
  STOPPED instance is STOPPED, through every order of deploy, pause, resume, stop, \<open>mark_error\<close>,
  \<open>stop_all\<close>, removal and creation.
\<close>

theorem running_means_active:
  assumes "reaches (new_manager (Some reg)) m" and "map_of (instances m) i = Some x"
  shows "agrees m x"
proof -
  from assms(1) have "in_step m"
  proof induction
    case start
    show ?case by (simp add: in_step_def new_manager_def)
  next
    case (call m c)
    then show ?case by (simp add: in_step_step)
  qed
  with assms(2) show ?thesis by (auto simp: in_step_def)
qed

subsection \<open>Checkpoints round trip\<close>

lemma strict_checkpoint: "strict_json (JObj d) \<Longrightarrow> strict_json (JObj (checkpoint_payload d s))"
  by (simp add: checkpoint_payload_def dict_update_def list_all_update)

text \<open>
  Whatever finite JSON data a strategy gives for its checkpoint, \<open>save_state\<close> does not raise;
  when the file could be written, \<open>load_state\<close> gives back that data, with the identifier, name,
  lifecycle state and error message of the strategy itself in place of whatever the data had
  under these keys, and when it could not, the checkpoint from before.
\<close>

theorem checkpoint_round_trip:
  assumes "strict_json (JObj d)" and "save_state write_ok d s file = (file', r)"
    and "load_state file' = Some payload"
  shows "r = Inr ()
     \<and> (if write_ok
        then map_of payload = (map_of d)
               (''strategy_id'' \<mapsto> JCell (PStr (bs_strategy_id s)), ''name'' \<mapsto> JCell (PStr (bs_name s)),
                ''lifecycle_state'' \<mapsto> JCell (PStr (base_state_text (bs_state s))),
                ''error_message'' \<mapsto> JCell (PStr (bs_error_message s)))
        else load_state file = Some payload)"
proof -
  have "save_state write_ok d s file = (if write_ok then Some (JObj (checkpoint_payload d s)) else file, Inr ())"
    using strict_checkpoint [OF assms(1)] by (simp add: save_state_def)
  with assms(2,3) show ?thesis
    by (auto simp: load_state_def checkpoint_payload_def dict_update_def update_conv')
qed

subsection \<open>Calls that race, share a class or reuse an identifier\<close>

definition demo_time :: datetime where
  "demo_time = \<lparr>dt_year = 2025, dt_month = 7, dt_day = 1, dt_hour = 9, dt_minute = 15, dt_second = 0, dt_micro = 0\<rparr>"

definition demo_args :: "string \<Rightarrow> create_args" where
  "demo_args i = \<lparr>ca_class = ''EMA'', ca_name = ''NIFTY'', ca_symbols = [''NIFTY25JULFUT''], ca_exchange = ''NFO'',
     ca_product = ''MIS'', ca_parameters = [], ca_id = Some i\<rparr>"

definition demo_strategy :: base_strategy where
  "demo_strategy = \<lparr>bs_name = ''EMA'', bs_exchange = ''NFO'', bs_product = ''MIS'', bs_strategy_id = ''ema'',
     bs_state = STOPPED, bs_error_message = []\<rparr>"

definition demo_paused :: lifecycle_manager where
  "demo_paused = manager_run [CallCreate demo_time [] (demo_args ''a''), CallChange Deploy demo_time ''a'',
     CallChange Pause demo_time ''a''] (new_manager (Some [(''EMA'', demo_strategy)]))"

definition status_at :: "lifecycle_manager \<Rightarrow> string \<Rightarrow> instance_status option" where
  "status_at m i = map_option si_status (map_of (instances m) i)"

text \<open>
  The guard of \<open>resume\<close> runs before the lock is taken. A call whose guard passed while the
  instance was PAUSED still commits after another thread stopped it, and the stopped instance
  runs again.
\<close>

lemma resume_race_revives_stopped:
  "\<exists>x m. change_guard Resume ''a'' demo_paused = Inr x \<and> m = manager_step (CallChange Stop demo_time ''a'') demo_paused
     \<and> status_at m ''a'' = Some I_STOPPED
     \<and> status_at (change_commit Resume demo_time ''a'' x m) ''a'' = Some I_RUNNING"
proof -
  have "isl (change_guard Resume ''a'' demo_paused) = False
     \<and> status_at (manager_step (CallChange Stop demo_time ''a'') demo_paused) ''a'' = Some I_STOPPED
     \<and> status_at (change_commit Resume demo_time ''a'' (projr (change_guard Resume ''a'' demo_paused))
          (manager_step (CallChange Stop demo_time ''a'') demo_paused)) ''a'' = Some I_RUNNING"
    by code_simp
  then show ?thesis by (metis sum.collapse(2))
qed

text \<open>Creating an instance under an identifier in use replaces the running instance.\<close>

lemma create_replaces_running:
  "status_at (manager_step (CallChange Resume demo_time ''a'') demo_paused) ''a'' = Some I_RUNNING
   \<and> status_at (manager_run [CallChange Resume demo_time ''a'', CallCreate demo_time [] (demo_args ''a'')] demo_paused) ''a''
      = Some I_CREATED"
  by code_simp

text \<open>\<open>mark_error\<close> also moves a STOPPED instance, and one never deployed, to ERROR.\<close>

lemma mark_error_from_any_status:
  "status_at m i = Some st \<Longrightarrow> status_at (fst (mark_error now i message m)) i = Some I_ERROR"
  by (auto simp: status_at_def mark_error_state lookup_on_instance)

text \<open>
  Two instances of one class share the registry's strategy: pausing one pauses it while the
  other is still RUNNING.
\<close>

lemma pause_stops_the_shared_strategy:
  "let m = manager_run [CallCreate demo_time [] (demo_args ''b''), CallChange Resume demo_time ''a'',
         CallChange Deploy demo_time ''b'', CallChange Pause demo_time ''a''] demo_paused
   in status_at m ''b'' = Some I_RUNNING
      \<and> map_option (map (\<lambda>(n, s). bs_state s)) (registry m) = Some [PAUSED]"
  by code_simp

text \<open>
  The creation times are compared as text. An instance created on a whole second is listed
  after one created a microsecond later, because the dot of the fraction sorts before the \<open>Z\<close>.
\<close>

lemma listed_out_of_creation_order:
  "map si_id (list_instances None
     (manager_run [CallCreate demo_time [] (demo_args ''first''),
        CallCreate (demo_time\<lparr>dt_micro := 1\<rparr>) [] (demo_args ''second'')] (new_manager None)))
   = [''second'', ''first'']"
  by code_simp

subsection \<open>Witnesses\<close>

definition demo_stopped :: lifecycle_manager where
  "demo_stopped = manager_step (CallChange Stop demo_time ''a'') demo_paused"

definition demo_calls :: "manager_call list" where
  "demo_calls = [CallChange Resume demo_time ''a'', CallChange Deploy demo_time ''a'', CallError demo_time ''a'' ''broken'',
     CallTrade ''a'' (Fin 1), CallStopAll (\<lambda>_. demo_time)]"

theorem ended_instances_never_run_witness:
  "is_stopped (the (map_of (instances (manager_run demo_calls demo_stopped)) ''a''))"
proof (rule ended_instances_never_run)
  show "map_of (instances demo_stopped) ''a'' = Some (the (map_of (instances demo_stopped) ''a''))"
    by code_simp
  show "is_stopped (the (map_of (instances demo_stopped) ''a''))" by code_simp
  show "list_all (\<lambda>call. \<not> creates ''a'' call) demo_calls" by code_simp
  show "map_of (instances (manager_run demo_calls demo_stopped)) ''a''
     = Some (the (map_of (instances (manager_run demo_calls demo_stopped)) ''a''))"
    by code_simp
qed

definition demo_two :: lifecycle_manager where
  "demo_two = manager_run [CallCreate demo_time [] (demo_args ''a''), CallCreate demo_time [] (demo_args ''b''),
     CallChange Deploy demo_time ''b''] (new_manager None)"

theorem stop_all_stops_the_live_witness:
  "snd (stop_all (\<lambda>_. demo_time) demo_two) = [''b''] \<and> running_count demo_two = 1
   \<and> running_count (fst (stop_all (\<lambda>_. demo_time) demo_two)) = 0"
proof -
  have "filter (live_at demo_two) (map fst (instances demo_two)) = [''b'']" and "running_count demo_two = 1"
    by code_simp+
  then show ?thesis
    using stop_all_stops_the_live [OF demo_two_def prod.collapse [symmetric], of "\<lambda>_. demo_time"] by metis
qed

theorem running_means_active_witness:
  "agrees demo_paused (the (map_of (instances demo_paused) ''a''))
   \<and> status_at demo_paused ''a'' = Some I_PAUSED
   \<and> map_option (map (\<lambda>(n, s). bs_state s)) (registry demo_paused) = Some [PAUSED]"
proof (intro conjI)
  let ?c = "CallCreate demo_time [] (demo_args ''a'')" and ?m = "new_manager (Some [(''EMA'', demo_strategy)])"
  let ?d = "CallChange Deploy demo_time ''a''" and ?p = "CallChange Pause demo_time ''a''"
  have "respects_classes ?c ?m" by code_simp
  then have "reaches ?m (manager_step ?p (manager_step ?d (manager_step ?c ?m)))"
    by (intro reaches.intros) (simp_all add: respects_classes_def)
  then have "reaches ?m demo_paused"
    unfolding demo_paused_def manager_run_def by (simp del: manager_step.simps)
  then show "agrees demo_paused (the (map_of (instances demo_paused) ''a''))"
    by (rule running_means_active [where i = "''a''"]) code_simp
qed code_simp+

theorem checkpoint_round_trip_witness:
  "let d = [(''strategy_id'', JCell (PStr ''other'')), (''qty'', JCell (PInt 5))] :: metadata;
       payload = checkpoint_payload d demo_strategy
   in map_of payload ''strategy_id'' = Some (JCell (PStr ''ema'')) \<and> map_of payload ''qty'' = Some (JCell (PInt 5))"
proof -
  let ?d = "[(''strategy_id'', JCell (PStr ''other'')), (''qty'', JCell (PInt 5))] :: metadata"
  let ?p = "checkpoint_payload ?d demo_strategy"
  have "strict_json (JObj ?d)" "save_state True ?d demo_strategy None = (Some (JObj ?p), Inr ())"
    "load_state (Some (JObj ?p)) = Some ?p"
    by code_simp+
  from checkpoint_round_trip [OF this] show ?thesis by (simp add: demo_strategy_def)
qed

end
