(* ===== verification/Intent_Records.thy ===== *)
theory Intent_Records
  imports Iso_Time
begin

text \<open>
  \<open>flinttrade_engine/emergency_intents.py\<close>, first part: the records of safety episodes (latches)
  and of reserved broker mutations (intents), the validation of their fields, and the contract
  of \<open>EmergencyIntentJournalProtocol\<close> as a specification on what a journal shows: its active
  episodes and its unresolved intents, each in the order of their numbers. The journals in
  memory and in SQLite are proved to implement it; the locale holds what follows from it.
\<close>

subsection \<open>Dates in ISO format\<close>

text \<open>\<open>date.fromisoformat\<close>: calendar and week dates, with or without separators, as the day number.\<close>

definition digits_value :: "string \<Rightarrow> int option" where
  "digits_value s = (if s \<noteq> [] \<and> list_all is_digit s then Some (int_of_digits s) else None)"

definition calendar_date :: "string \<Rightarrow> string \<Rightarrow> string \<Rightarrow> int option" where
  "calendar_date ys ms ds =
     (case (digits_value ys, digits_value ms, digits_value ds) of
        (Some y, Some m, Some d) \<Rightarrow>
          if 1 \<le> y \<and> 1 \<le> m \<and> m \<le> 12 \<and> 1 \<le> d \<and> d \<le> days_in_month y m then Some (day_number y m d) else None
      | _ \<Rightarrow> None)"

definition week_date :: "string \<Rightarrow> string \<Rightarrow> string \<Rightarrow> int option" where
  "week_date ys ws ds =
     (case (digits_value ys, digits_value ws, digits_value ds) of
        (Some y, Some w, Some d) \<Rightarrow>
          (let first = day_number y 1 1; weekday = (first + 6) mod 7;
               monday = first - weekday + (if 3 < weekday then 7 else 0);
               long_year = first mod 7 = 4 \<or> (first mod 7 = 3 \<and> leap_year y);
               n = monday + (w - 1) * 7 + (d - 1)
           in if 1 \<le> y \<and> ((0 < w \<and> w < 53) \<or> (w = 53 \<and> long_year)) \<and> 0 < d \<and> d < 8 \<and> 1 \<le> n \<and> n \<le> 3652059
              then Some n else None)
      | _ \<Rightarrow> None)"

definition iso_date :: "string \<Rightarrow> int option" where
  "iso_date s =
     (let y = take 4 s; r = drop 4 s
      in if take 1 r = ''-'' then
           (if take 1 (drop 1 r) = ''W'' then
              (if length s = 8 then week_date y (drop 2 r) ''1''
               else if length s = 10 \<and> take 1 (drop 4 r) = ''-'' then week_date y (take 2 (drop 2 r)) (drop 5 r)
               else None)
            else if length s = 10 \<and> take 1 (drop 3 r) = ''-'' then calendar_date y (take 2 (drop 1 r)) (drop 4 r)
            else None)
         else if take 1 r = ''W'' then
           (if length s = 7 then week_date y (drop 1 r) ''1''
            else if length s = 8 then week_date y (take 2 (drop 1 r)) (drop 3 r)
            else None)
         else if length s = 8 then calendar_date y (take 2 r) (drop 2 r)
         else None)"

subsection \<open>Records\<close>

datatype journal_error =
  JournalValueError string
| EmergencyIntentConflict string
| UnknownIntent int
| JournalRuntimeError string
| StorageError

datatype intent_state = Reserved | Acknowledged | Outcome_unknown | Intent_settled

datatype episode_state = Episode_active | Episode_settled

record episode =
  ep_id :: int
  ep_source :: string
  ep_selector :: string
  ep_session_key :: string
  ep_state :: episode_state
  ep_revision :: int
  ep_targets :: "string list"

text \<open>The arguments of \<open>reserve\<close> and of \<open>activate_episode\<close>.\<close>

record intent_request =
  rq_source :: string
  rq_selector :: string
  rq_parent_verb :: string
  rq_verb :: string
  rq_payload_hash :: string
  rq_scope :: string
  rq_target_order_id :: string
  rq_exit_tag :: string

record intent =
  ei_id :: int
  ei_request :: intent_request
  ei_order_ids :: "string list"
  ei_state :: intent_state
  ei_revision :: int
  ei_episode :: "int option"

record episode_request =
  er_source :: string
  er_selector :: string
  er_session_key :: string
  er_reason_hash :: string

type_synonym intent_key = "string \<times> string \<times> string"

definition intent_key :: "intent_request \<Rightarrow> intent_key" where
  "intent_key a = (rq_selector a, rq_parent_verb a, rq_scope a)"

definition reserved_intent :: "int \<Rightarrow> int option \<Rightarrow> intent_request \<Rightarrow> intent" where
  "reserved_intent n e a = \<lparr>ei_id = n, ei_request = a, ei_order_ids = [], ei_state = Reserved, ei_revision = 1, ei_episode = e\<rparr>"

definition new_episode :: "int \<Rightarrow> episode_request \<Rightarrow> episode" where
  "new_episode n a = \<lparr>ep_id = n, ep_source = er_source a, ep_selector = er_selector a, ep_session_key = er_session_key a,
     ep_state = Episode_active, ep_revision = 1, ep_targets = []\<rparr>"

definition active_intent_states :: "intent_state list" where
  "active_intent_states = [Reserved, Acknowledged, Outcome_unknown]"

definition episode_sources :: "string list" where
  "episode_sources = [''l5'', ''mtm'', ''adhoc'']"

subsection \<open>Validation\<close>

definition printable :: "string \<Rightarrow> bool" where
  "printable s = list_all (\<lambda>c. 32 \<le> code_of c \<and> code_of c \<le> 126) s"

definition canonical_token :: "string \<Rightarrow> bool" where
  "canonical_token s \<longleftrightarrow> s = py_strip s \<and> printable s \<and> list_all (\<lambda>c. \<not> is_space c) s"

definition normalise_order_ids :: "string list \<Rightarrow> journal_error + string list" where
  "normalise_order_ids ids =
     bind_res (require (list_all (\<lambda>i. i \<noteq> [] \<and> canonical_token i) ids)
       (JournalValueError ''emergency intent order ids must be canonical'')) (\<lambda>_.
     bind_res (require (distinct ids) (JournalValueError ''emergency intent order ids must be unique'')) (\<lambda>_.
     Inr ids))"

definition sha256_hex :: "string \<Rightarrow> bool" where
  "sha256_hex s \<longleftrightarrow> length s = 64 \<and> list_all (\<lambda>c. c \<in> set ''0123456789abcdef'') s"

definition canonical_selector :: "string \<Rightarrow> bool" where
  "canonical_selector s \<longleftrightarrow> CHR '':'' \<in> set s \<and> s = py_strip s"

definition canonical_name :: "string \<Rightarrow> bool" where
  "canonical_name s \<longleftrightarrow> s \<noteq> [] \<and> s = py_strip s"

definition validate_record_fields :: "intent_request \<Rightarrow> journal_error + unit" where
  "validate_record_fields a =
     bind_res (require (rq_source a \<in> set episode_sources) (JournalValueError ''emergency intent source is invalid'')) (\<lambda>_.
     bind_res (require (canonical_selector (rq_selector a)) (JournalValueError ''emergency intent selector must be canonical'')) (\<lambda>_.
     bind_res (require (canonical_name (rq_parent_verb a)) (JournalValueError ''emergency intent parent verb must be canonical'')) (\<lambda>_.
     bind_res (require (canonical_name (rq_verb a)) (JournalValueError ''emergency intent verb must be canonical'')) (\<lambda>_.
     bind_res (require (sha256_hex (rq_payload_hash a)) (JournalValueError ''emergency intent payload hash must be sha256 hex'')) (\<lambda>_.
     require (canonical_name (rq_scope a)) (JournalValueError ''emergency intent scope must be canonical''))))))"

definition validate_optional_token :: "string \<Rightarrow> string \<Rightarrow> journal_error + unit" where
  "validate_optional_token s field =
     require (s = [] \<or> canonical_token s) (JournalValueError (''emergency intent '' @ field @ '' must be canonical''))"

definition validate_reserve :: "intent_request \<Rightarrow> journal_error + unit" where
  "validate_reserve a =
     bind_res (validate_record_fields a) (\<lambda>_.
     bind_res (validate_optional_token (rq_target_order_id a) ''target order id'') (\<lambda>_.
     validate_optional_token (rq_exit_tag a) ''exit tag''))"

definition validate_episode_fields :: "episode_request \<Rightarrow> journal_error + unit" where
  "validate_episode_fields a =
     bind_res (require (er_source a \<in> {''l5'', ''mtm''}) (JournalValueError ''emergency episode source must be l5 or mtm'')) (\<lambda>_.
     bind_res (require (er_selector a = ''*'' \<or> canonical_selector (er_selector a))
       (JournalValueError ''emergency episode selector must be canonical'')) (\<lambda>_.
     bind_res (require (\<not> (er_source a = ''mtm'' \<and> er_selector a = ''*''))
       (JournalValueError ''MTM emergency episodes require an account selector'')) (\<lambda>_.
     bind_res (require (canonical_name (er_session_key a)) (JournalValueError ''emergency episode session key must be canonical'')) (\<lambda>_.
     bind_res (require (er_source a \<noteq> ''mtm'' \<or> iso_date (er_session_key a) \<noteq> None)
       (JournalValueError ''MTM emergency episode session key must be an ISO date'')) (\<lambda>_.
     require (sha256_hex (er_reason_hash a)) (JournalValueError ''emergency episode reason hash must be sha256 hex''))))))"

definition validate_episode_snapshot :: "episode \<Rightarrow> journal_error + unit" where
  "validate_episode_snapshot e =
     bind_res (require (ep_source e \<in> {''l5'', ''mtm''} \<and> ep_state e = Episode_active)
       (JournalValueError ''expected emergency episode must be active'')) (\<lambda>_.
     bind_res (require (1 \<le> ep_id e \<and> 1 \<le> ep_revision e) (JournalValueError ''expected emergency episode identity is invalid'')) (\<lambda>_.
     require (ep_selector e = ''*'' \<or> canonical_selector (ep_selector e))
       (JournalValueError ''expected emergency episode selector must be canonical'')))"

definition normalise_affected_selectors :: "string list \<Rightarrow> journal_error + string list" where
  "normalise_affected_selectors sels =
     (let canonical = sort_by text_less sels
      in bind_res (require (distinct canonical \<and> list_all canonical_selector canonical)
           (JournalValueError ''emergency episode target selector must be canonical and unique'')) (\<lambda>_. Inr canonical))"

text \<open>\<open>tuple(sorted(set(...)))\<close>.\<close>

definition sorted_set :: "string list \<Rightarrow> string list" where
  "sorted_set xs = sort_by text_less (remdups xs)"

text \<open>The checks \<open>deactivate_episodes\<close> makes of its argument.\<close>

definition validate_expected :: "episode list \<Rightarrow> journal_error + unit" where
  "validate_expected es =
     bind_res (for_each (\<lambda>e _. validate_episode_snapshot e) es ()) (\<lambda>_.
     bind_res (require (distinct (map ep_id es)) (JournalValueError ''expected emergency episodes must be unique'')) (\<lambda>_.
     require (length (remdups (map ep_source es)) = 1) (JournalValueError ''expected emergency episodes must share a source'')))"

text \<open>Renewal of an MTM episode: is the new session later than the stored one?\<close>

definition session_after :: "string \<Rightarrow> string \<Rightarrow> journal_error + bool" where
  "session_after new old =
     (case (iso_date new, iso_date old) of
        (Some a, Some b) \<Rightarrow> Inr (b < a)
      | _ \<Rightarrow> Inl (JournalValueError ''Invalid isoformat string''))"

definition renews :: "episode_request \<Rightarrow> episode \<Rightarrow> journal_error + bool" where
  "renews a e = (if er_source a = ''mtm'' then session_after (er_session_key a) (ep_session_key e) else Inr False)"

end
