(* ===== verification/Journal_Spec.thy ===== *)
theory Journal_Spec
  imports Intent_Records
begin

text \<open>
  The contract of \<open>EmergencyIntentJournalProtocol\<close>. A journal shows its active episodes and its
  unresolved intents; each call is specified by what it does to this view. The number of a new
  row is an argument: implementations only promise that it is larger than all before. The
  locale \<open>intent_journal\<close> states that an implementation follows the specification on every call
  within the contract and keeps its view well formed on every call, and derives what the
  emergency dispatcher relies on.
\<close>

subsection \<open>The view and the calls\<close>

record journal_view =
  jv_episodes :: "episode list"
  jv_intents :: "intent list"

datatype journal_call =
  Activate episode_request
| RecordTargets episode "string list"
| Deactivate "episode list"
| Reserve intent_request
| Acknowledge int "string list"
| MarkUnknown int
| Release int
| Settle string "string list" string "int list"
| Unresolved string "string list" "string option"
| BlockingSources string
| ActiveEpisodes "string option"
| ActiveEpisode string string

datatype journal_reply =
  EpisodeReply episode bool
| TargetsReply episode
| IntentReply intent bool
| Done
| SettleReply bool
| IntentsReply "intent list"
| SourcesReply "string set"
| EpisodesReply "episode list"
| EpisodeOption "episode option"

definition find_episode :: "string \<Rightarrow> string \<Rightarrow> episode list \<Rightarrow> episode option" where
  "find_episode src sel es = find (\<lambda>e. ep_source e = src \<and> ep_selector e = sel) es"

definition find_intent :: "intent_key \<Rightarrow> intent list \<Rightarrow> intent option" where
  "find_intent k rs = find (\<lambda>r. intent_key (ei_request r) = k) rs"

definition episode_for :: "string \<Rightarrow> string \<Rightarrow> episode list \<Rightarrow> int option" where
  "episode_for src sel es =
     (if src = ''adhoc'' then None
      else case find_episode src sel es of
             Some e \<Rightarrow> Some (ep_id e)
           | None \<Rightarrow> map_option ep_id (find_episode src ''*'' es))"

definition replace_episode :: "episode \<Rightarrow> journal_view \<Rightarrow> journal_view" where
  "replace_episode e v = v\<lparr>jv_episodes := map (\<lambda>x. if ep_id x = ep_id e then e else x) (jv_episodes v)\<rparr>"

definition change_intent :: "int \<Rightarrow> (intent \<Rightarrow> intent) \<Rightarrow> journal_view \<Rightarrow> journal_view" where
  "change_intent n f v = v\<lparr>jv_intents := map (\<lambda>r. if ei_id r = n then f r else r) (jv_intents v)\<rparr>"

definition acknowledged :: "string list \<Rightarrow> intent \<Rightarrow> intent" where
  "acknowledged ids r = r\<lparr>ei_order_ids := ids, ei_state := Acknowledged, ei_revision := ei_revision r + 1\<rparr>"

definition unknown_outcome :: "intent \<Rightarrow> intent" where
  "unknown_outcome r = r\<lparr>ei_state := Outcome_unknown, ei_revision := ei_revision r + 1\<rparr>"

definition renewed :: "episode_request \<Rightarrow> episode \<Rightarrow> episode" where
  "renewed a e = e\<lparr>ep_session_key := er_session_key a, ep_revision := ep_revision e + 1\<rparr>"

definition retargeted :: "string list \<Rightarrow> episode \<Rightarrow> episode" where
  "retargeted ts e = e\<lparr>ep_targets := ts, ep_revision := ep_revision e + 1\<rparr>"

definition of_source :: "string option \<Rightarrow> intent \<Rightarrow> bool" where
  "of_source src r = (case src of None \<Rightarrow> True | Some s \<Rightarrow> rq_source (ei_request r) = s)"

definition intents_of :: "string \<Rightarrow> string list \<Rightarrow> string option \<Rightarrow> intent list \<Rightarrow> intent list" where
  "intents_of sel verbs src rs =
     filter (\<lambda>r. rq_selector (ei_request r) = sel \<and> rq_parent_verb (ei_request r) \<in> set verbs \<and> of_source src r) rs"

text \<open>The intents that keep the episodes of a source from being reset.\<close>

definition unsettled_for :: "string \<Rightarrow> string list \<Rightarrow> intent list \<Rightarrow> intent list" where
  "unsettled_for src sels rs =
     filter (\<lambda>r. rq_source (ei_request r) = src \<and> (src = ''l5'' \<or> rq_selector (ei_request r) \<in> set sels)) rs"

abbreviation refuse :: "string \<Rightarrow> 's \<Rightarrow> ('s, journal_error, 'a) outcome" where
  "refuse why s \<equiv> (s, Inl (JournalValueError why))"

definition after :: "journal_error + 'a \<Rightarrow> 's \<Rightarrow> ('a \<Rightarrow> ('s, journal_error, 'b) outcome) \<Rightarrow> ('s, journal_error, 'b) outcome" where
  "after r s f = (case r of Inl e \<Rightarrow> (s, Inl e) | Inr x \<Rightarrow> f x)"

lemma after_simps [simp]: "after (Inl e) s f = (s, Inl e)" "after (Inr x) s f = f x"
  by (simp_all add: after_def)

lemma changed_intent_fields [simp]:
  "ei_id (acknowledged os r) = ei_id r" "ei_request (acknowledged os r) = ei_request r"
  "ei_id (unknown_outcome r) = ei_id r" "ei_request (unknown_outcome r) = ei_request r"
  "ei_state (acknowledged os r) = Acknowledged" "ei_state (unknown_outcome r) = Outcome_unknown"
  by (simp_all add: acknowledged_def unknown_outcome_def)

lemma changed_episode_fields [simp]:
  "ep_id (renewed a e) = ep_id e" "ep_source (renewed a e) = ep_source e" "ep_selector (renewed a e) = ep_selector e"
  "ep_state (renewed a e) = ep_state e" "ep_targets (renewed a e) = ep_targets e"
  "ep_id (retargeted ts e) = ep_id e" "ep_source (retargeted ts e) = ep_source e" "ep_selector (retargeted ts e) = ep_selector e"
  "ep_state (retargeted ts e) = ep_state e" "ep_targets (retargeted ts e) = ts"
  by (simp_all add: renewed_def retargeted_def)

subsection \<open>What each call does\<close>

definition spec_activate :: "int \<Rightarrow> episode_request \<Rightarrow> journal_view \<Rightarrow> (journal_view, journal_error, journal_reply) outcome" where
  "spec_activate n a v =
     after (validate_episode_fields a) v (\<lambda>_.
       case find_episode (er_source a) (er_selector a) (jv_episodes v) of
         Some e \<Rightarrow> after (renews a e) v (\<lambda>later.
           if later then (replace_episode (renewed a e) v, Inr (EpisodeReply (renewed a e) False))
           else (v, Inr (EpisodeReply e False)))
       | None \<Rightarrow> (v\<lparr>jv_episodes := jv_episodes v @ [new_episode n a]\<rparr>, Inr (EpisodeReply (new_episode n a) True)))"

definition spec_record_targets :: "episode \<Rightarrow> string list \<Rightarrow> journal_view \<Rightarrow> (journal_view, journal_error, journal_reply) outcome" where
  "spec_record_targets expected sels v =
     after (validate_episode_snapshot expected) v (\<lambda>_.
     after (normalise_affected_selectors sels) v (\<lambda>canonical.
       if expected \<notin> set (jv_episodes v)
       then (v, Inl (EmergencyIntentConflict ''emergency episode changed while targets were recorded''))
       else (let affected = sorted_set (ep_targets expected @ canonical)
             in if affected = ep_targets expected then (v, Inr (TargetsReply expected))
                else (replace_episode (retargeted affected expected) v, Inr (TargetsReply (retargeted affected expected))))))"

definition spec_deactivate :: "episode list \<Rightarrow> journal_view \<Rightarrow> (journal_view, journal_error, journal_reply) outcome" where
  "spec_deactivate es v =
     (if es = [] then (v, Inr Done)
      else after (validate_expected es) v (\<lambda>_.
        if \<not> list_all (\<lambda>e. e \<in> set (jv_episodes v)) es
        then (v, Inl (EmergencyIntentConflict ''emergency episode changed during reset''))
        else if unsettled_for (ep_source (hd es)) (map ep_selector es) (jv_intents v) \<noteq> []
        then (v, Inl (EmergencyIntentConflict ''emergency episode has unsettled broker intents''))
        else (v\<lparr>jv_episodes := filter (\<lambda>e. e \<notin> set es) (jv_episodes v)\<rparr>, Inr Done)))"

definition spec_reserve :: "int \<Rightarrow> intent_request \<Rightarrow> journal_view \<Rightarrow> (journal_view, journal_error, journal_reply) outcome" where
  "spec_reserve n a v =
     after (validate_reserve a) v (\<lambda>_.
       case find_intent (intent_key a) (jv_intents v) of
         Some r \<Rightarrow> (v, Inr (IntentReply r False))
       | None \<Rightarrow>
           (let e = episode_for (rq_source a) (rq_selector a) (jv_episodes v)
            in if rq_source a \<noteq> ''adhoc'' \<and> e = None
               then (v, Inl (EmergencyIntentConflict ''active emergency episode is required before reservation''))
               else (v\<lparr>jv_intents := jv_intents v @ [reserved_intent n e a]\<rparr>, Inr (IntentReply (reserved_intent n e a) True))))"

definition spec_change :: "int \<Rightarrow> (intent \<Rightarrow> intent) \<Rightarrow> journal_view \<Rightarrow> (journal_view, journal_error, journal_reply) outcome" where
  "spec_change n f v =
     (if n \<in> set (map ei_id (jv_intents v)) then (change_intent n f v, Inr Done) else (v, Inl (UnknownIntent n)))"

definition spec_release :: "int \<Rightarrow> journal_view \<Rightarrow> (journal_view, journal_error, journal_reply) outcome" where
  "spec_release n v = (v\<lparr>jv_intents := filter (\<lambda>r. ei_id r \<noteq> n) (jv_intents v)\<rparr>, Inr Done)"

definition spec_settle :: "string \<Rightarrow> string list \<Rightarrow> string \<Rightarrow> int list \<Rightarrow> journal_view \<Rightarrow> (journal_view, journal_error, journal_reply) outcome" where
  "spec_settle sel verbs src ids v =
     (if src \<notin> set episode_sources then refuse ''emergency intent source is invalid'' v
      else (let matching = map ei_id (intents_of sel verbs (Some src) (jv_intents v))
            in if set matching \<noteq> set ids then (v, Inr (SettleReply False))
               else (v\<lparr>jv_intents := filter (\<lambda>r. ei_id r \<notin> set matching) (jv_intents v)\<rparr>, Inr (SettleReply True))))"

definition blocking_in :: "string \<Rightarrow> episode list \<Rightarrow> string set" where
  "blocking_in sel es = set (map ep_source (filter (\<lambda>e. ep_selector e = ''*'' \<or> ep_selector e = sel) es))"

fun spec_exec :: "int \<times> int \<Rightarrow> journal_call \<Rightarrow> journal_view \<Rightarrow> (journal_view, journal_error, journal_reply) outcome" where
  "spec_exec ids (Activate a) v = spec_activate (fst ids) a v"
| "spec_exec ids (RecordTargets e sels) v = spec_record_targets e sels v"
| "spec_exec ids (Deactivate es) v = spec_deactivate es v"
| "spec_exec ids (Reserve a) v = spec_reserve (snd ids) a v"
| "spec_exec ids (Acknowledge n os) v = after (normalise_order_ids os) v (\<lambda>os'. spec_change n (acknowledged os') v)"
| "spec_exec ids (MarkUnknown n) v = spec_change n unknown_outcome v"
| "spec_exec ids (Release n) v = spec_release n v"
| "spec_exec ids (Settle sel verbs src ns) v = spec_settle sel verbs src ns v"
| "spec_exec ids (Unresolved sel verbs src) v =
     (if (case src of None \<Rightarrow> False | Some s \<Rightarrow> s \<notin> set episode_sources) then refuse ''emergency intent source is invalid'' v
      else (v, Inr (IntentsReply (intents_of sel verbs src (jv_intents v)))))"
| "spec_exec ids (BlockingSources sel) v =
     (if \<not> canonical_selector sel then refuse ''emergency selector must be canonical'' v
      else (v, Inr (SourcesReply (blocking_in sel (jv_episodes v)))))"
| "spec_exec ids (ActiveEpisodes src) v =
     (if (case src of None \<Rightarrow> False | Some s \<Rightarrow> s \<notin> {''l5'', ''mtm''}) then refuse ''emergency episode source must be l5 or mtm'' v
      else (v, Inr (EpisodesReply (filter (\<lambda>e. case src of None \<Rightarrow> True | Some s \<Rightarrow> ep_source e = s) (jv_episodes v)))))"
| "spec_exec ids (ActiveEpisode src sel) v =
     (if src \<notin> {''l5'', ''mtm''} then refuse ''emergency episode source must be l5 or mtm'' v
      else (v, Inr (EpisodeOption (find_episode src sel (jv_episodes v)))))"

text \<open>
  Where the two journals answer differently, a call is outside the contract: a reservation for a
  scope already reserved without an episode that covers it, the release of an intent that is no
  longer merely reserved, a settlement that names an intent twice or a number below one, and a
  query without verbs for a source that does not exist.
\<close>

fun within_contract :: "journal_call \<Rightarrow> journal_view \<Rightarrow> bool" where
  "within_contract (Reserve a) v \<longleftrightarrow>
     find_intent (intent_key a) (jv_intents v) = None \<or> rq_source a = ''adhoc''
     \<or> episode_for (rq_source a) (rq_selector a) (jv_episodes v) \<noteq> None"
| "within_contract (Release n) v \<longleftrightarrow> list_all (\<lambda>r. ei_id r = n \<longrightarrow> ei_state r = Reserved) (jv_intents v)"
| "within_contract (Settle sel verbs src ns) v \<longleftrightarrow> distinct ns \<and> list_all (\<lambda>n. 1 \<le> n) ns"
| "within_contract (Unresolved sel verbs src) v \<longleftrightarrow>
     verbs \<noteq> [] \<or> (case src of None \<Rightarrow> True | Some s \<Rightarrow> s \<in> set episode_sources)"
| "within_contract _ v \<longleftrightarrow> True"

subsection \<open>Well-formed views\<close>

definition episode_ok :: "episode \<Rightarrow> bool" where
  "episode_ok e \<longleftrightarrow> ep_source e \<in> {''l5'', ''mtm''} \<and> ep_state e = Episode_active \<and> 1 \<le> ep_id e \<and> 1 \<le> ep_revision e
     \<and> (ep_source e = ''mtm'' \<longrightarrow> iso_date (ep_session_key e) \<noteq> None) \<and> sorted_wrt text_less (ep_targets e)"

definition intent_ok :: "intent \<Rightarrow> bool" where
  "intent_ok r \<longleftrightarrow> rq_source (ei_request r) \<in> set episode_sources \<and> ei_state r \<in> set active_intent_states
     \<and> 1 \<le> ei_id r \<and> normalise_order_ids (ei_order_ids r) = Inr (ei_order_ids r)"

definition episode_place :: "episode \<Rightarrow> string \<times> string" where
  "episode_place e = (ep_source e, ep_selector e)"

abbreviation key_of :: "intent \<Rightarrow> intent_key" where
  "key_of r \<equiv> intent_key (ei_request r)"

definition view_shape :: "journal_view \<Rightarrow> bool" where
  "view_shape v \<longleftrightarrow>
     list_all episode_ok (jv_episodes v) \<and> sorted_wrt (<) (map ep_id (jv_episodes v)) \<and> distinct (map episode_place (jv_episodes v))
     \<and> list_all intent_ok (jv_intents v) \<and> sorted_wrt (<) (map ei_id (jv_intents v)) \<and> distinct (map key_of (jv_intents v))"

definition numbers_ok :: "int \<times> int \<Rightarrow> journal_view \<Rightarrow> bool" where
  "numbers_ok ids v \<longleftrightarrow> 1 \<le> fst ids \<and> 1 \<le> snd ids
     \<and> list_all (\<lambda>e. ep_id e < fst ids) (jv_episodes v) \<and> list_all (\<lambda>r. ei_id r < snd ids) (jv_intents v)"

definition view_ok :: "int \<times> int \<Rightarrow> journal_view \<Rightarrow> bool" where
  "view_ok ids v \<longleftrightarrow> view_shape v \<and> numbers_ok ids v"

lemma find_episode_Some:
  "find_episode src sel es = Some e \<Longrightarrow> e \<in> set es \<and> ep_source e = src \<and> ep_selector e = sel"
  by (auto simp: find_episode_def find_Some_iff)

lemma find_episode_None: "find_episode src sel es = None \<longleftrightarrow> (src, sel) \<notin> episode_place ` set es"
  by (auto simp: find_episode_def find_None_iff episode_place_def)

lemma find_intent_Some: "find_intent k rs = Some r \<Longrightarrow> r \<in> set rs \<and> key_of r = k"
  by (auto simp: find_intent_def find_Some_iff)

lemma find_intent_None: "find_intent k rs = None \<longleftrightarrow> k \<notin> key_of ` set rs"
  by (auto simp: find_intent_def find_None_iff)

lemma view_distinct:
  assumes "view_shape v"
  shows "distinct (map ep_id (jv_episodes v))" and "distinct (map ei_id (jv_intents v))"
  using assms by (auto simp: view_shape_def strict_sorted_iff)

lemma replace_episode_shape:
  assumes v: "view_shape v" and e: "e \<in> set (jv_episodes v)" "ep_id e' = ep_id e" "episode_place e' = episode_place e"
    and ok: "episode_ok e'"
  shows "view_shape (replace_episode e' v)"
proof -
  have same: "x = e" if "x \<in> set (jv_episodes v)" "ep_id x = ep_id e" for x
    using view_distinct(1) [OF v] e(1) that by (auto simp: distinct_map inj_on_def)
  have "map ep_id (jv_episodes (replace_episode e' v)) = map ep_id (jv_episodes v)"
    using e(2) by (auto simp: replace_episode_def)
  moreover have "map episode_place (jv_episodes (replace_episode e' v)) = map episode_place (jv_episodes v)"
    using e(2,3) same by (auto simp: replace_episode_def)
  moreover have "list_all episode_ok (jv_episodes (replace_episode e' v))"
    using v ok by (auto simp: view_shape_def replace_episode_def list_all_iff)
  moreover have "jv_intents (replace_episode e' v) = jv_intents v"
    by (simp add: replace_episode_def)
  ultimately show ?thesis using v by (simp add: view_shape_def)
qed

lemma change_intent_shape:
  assumes v: "view_shape v" and f: "\<And>r. ei_id (f r) = ei_id r \<and> ei_request (f r) = ei_request r"
    and ok: "\<And>r. intent_ok r \<Longrightarrow> intent_ok (f r)"
  shows "view_shape (change_intent n f v)"
proof -
  have "map ei_id (jv_intents (change_intent n f v)) = map ei_id (jv_intents v)"
    and "map key_of (jv_intents (change_intent n f v)) = map key_of (jv_intents v)"
    using f by (auto simp: change_intent_def)
  moreover have "list_all intent_ok (jv_intents (change_intent n f v))"
    using v ok by (auto simp: view_shape_def change_intent_def list_all_iff)
  moreover have "jv_episodes (change_intent n f v) = jv_episodes v"
    by (simp add: change_intent_def)
  ultimately show ?thesis using v by (simp add: view_shape_def)
qed

lemma filter_episodes_shape: "view_shape v \<Longrightarrow> view_shape (v\<lparr>jv_episodes := filter P (jv_episodes v)\<rparr>)"
  by (auto simp: view_shape_def list_all_iff sorted_wrt_map distinct_map inj_on_def intro: sorted_wrt_filter)

lemma filter_intents_shape: "view_shape v \<Longrightarrow> view_shape (v\<lparr>jv_intents := filter P (jv_intents v)\<rparr>)"
  by (auto simp: view_shape_def list_all_iff sorted_wrt_map distinct_map inj_on_def intro: sorted_wrt_filter)

lemma normalise_order_ids_id: "normalise_order_ids os = Inr os' \<Longrightarrow> os' = os"
  by (auto simp: normalise_order_ids_def)

lemma find_own_episode:
  assumes "view_shape v"
  shows "find_episode (ep_source x) (ep_selector x) (jv_episodes v) = Some x \<longleftrightarrow> x \<in> set (jv_episodes v)"
proof
  assume "x \<in> set (jv_episodes v)"
  moreover have "distinct (map episode_place (jv_episodes v))" using assms by (simp add: view_shape_def)
  ultimately show "find_episode (ep_source x) (ep_selector x) (jv_episodes v) = Some x"
    by (cases "find_episode (ep_source x) (ep_selector x) (jv_episodes v)")
       (auto simp: find_episode_None episode_place_def distinct_map inj_on_def dest: find_episode_Some)
qed (auto dest: find_episode_Some)

subsection \<open>Every call keeps the view well formed\<close>

lemma sorted_set_strict: "sorted_wrt text_less (sorted_set xs)"
  by (simp add: sorted_set_def strict_sort_by text_less_linear text_less_trans)

lemma after_cases:
  assumes "\<And>e. r = Inl e \<Longrightarrow> P (s, Inl e)" and "\<And>x. r = Inr x \<Longrightarrow> P (f x)"
  shows "P (after r s f)"
  using assms by (cases r) (auto simp: after_def)

lemma shape_activate:
  assumes v: "view_ok ids v"
  shows "view_shape (fst (spec_activate (fst ids) a v))"
  unfolding spec_activate_def
proof (rule after_cases)
  fix u
  assume valid: "validate_episode_fields a = Inr u"
  have shape: "view_shape v" using v by (simp add: view_ok_def)
  show "view_shape (fst (case find_episode (er_source a) (er_selector a) (jv_episodes v) of
      Some e \<Rightarrow> after (renews a e) v (\<lambda>later.
        if later then (replace_episode (renewed a e) v, Inr (EpisodeReply (renewed a e) False)) else (v, Inr (EpisodeReply e False)))
    | None \<Rightarrow> (v\<lparr>jv_episodes := jv_episodes v @ [new_episode (fst ids) a]\<rparr>, Inr (EpisodeReply (new_episode (fst ids) a) True))))"
  proof (cases "find_episode (er_source a) (er_selector a) (jv_episodes v)")
    case None
    then have "(er_source a, er_selector a) \<notin> episode_place ` set (jv_episodes v)"
      by (simp add: find_episode_None)
    moreover have "episode_ok (new_episode (fst ids) a)"
      using valid v by (auto simp: validate_episode_fields_def episode_ok_def new_episode_def view_ok_def numbers_ok_def)
    ultimately show ?thesis
      using v None by (auto simp: view_ok_def view_shape_def numbers_ok_def list_all_iff sorted_wrt_append new_episode_def episode_place_def)
  next
    case (Some e)
    then have e: "e \<in> set (jv_episodes v)" "ep_source e = er_source a" by (auto dest: find_episode_Some)
    with shape have "episode_ok e" by (auto simp: view_shape_def list_all_iff)
    then have "episode_ok (renewed a e)"
      using valid e by (auto simp: episode_ok_def renewed_def validate_episode_fields_def)
    then have "view_shape (replace_episode (renewed a e) v)"
      by (intro replace_episode_shape [OF shape e(1)]) (simp_all add: renewed_def episode_place_def)
    with Some shape show ?thesis by (auto intro: after_cases)
  qed
qed (use v in \<open>simp add: view_ok_def\<close>)

lemma shape_record_targets:
  assumes v: "view_shape v"
  shows "view_shape (fst (spec_record_targets e sels v))"
  unfolding spec_record_targets_def
proof (rule after_cases, use v in simp, rule after_cases, use v in simp)
  fix canonical
  let ?ts = "sorted_set (ep_targets e @ canonical)"
  have "view_shape (replace_episode (retargeted ?ts e) v)" if e: "e \<in> set (jv_episodes v)"
  proof (rule replace_episode_shape [OF v e])
    show "episode_ok (retargeted ?ts e)"
      using v e by (auto simp: view_shape_def list_all_iff episode_ok_def retargeted_def sorted_set_strict)
  qed (simp_all add: retargeted_def episode_place_def)
  with v show "view_shape (fst (if e \<notin> set (jv_episodes v)
       then (v, Inl (EmergencyIntentConflict ''emergency episode changed while targets were recorded''))
       else (let affected = ?ts
             in if affected = ep_targets e then (v, Inr (TargetsReply e))
                else (replace_episode (retargeted affected e) v, Inr (TargetsReply (retargeted affected e))))))"
    by (simp add: Let_def)
qed

lemma shape_deactivate: "view_shape v \<Longrightarrow> view_shape (fst (spec_deactivate es v))"
  by (cases "validate_expected es") (simp_all add: spec_deactivate_def filter_episodes_shape)

lemma shape_reserve:
  assumes v: "view_ok ids v"
  shows "view_shape (fst (spec_reserve (snd ids) a v))"
  unfolding spec_reserve_def
proof (rule after_cases)
  fix u
  assume valid: "validate_reserve a = Inr u"
  have "view_shape (v\<lparr>jv_intents := jv_intents v @ [reserved_intent (snd ids) e a]\<rparr>)"
    if "find_intent (intent_key a) (jv_intents v) = None" for e
  proof -
    have "intent_ok (reserved_intent (snd ids) e a)"
      using valid v by (auto simp: validate_reserve_def validate_record_fields_def intent_ok_def reserved_intent_def
          view_ok_def numbers_ok_def active_intent_states_def normalise_order_ids_def)
    moreover have "intent_key a \<notin> key_of ` set (jv_intents v)" using that by (simp add: find_intent_None)
    ultimately show ?thesis
      using v by (auto simp: view_ok_def view_shape_def numbers_ok_def list_all_iff sorted_wrt_append reserved_intent_def)
  qed
  with v show "view_shape (fst (case find_intent (intent_key a) (jv_intents v) of
         Some r \<Rightarrow> (v, Inr (IntentReply r False))
       | None \<Rightarrow>
           (let e = episode_for (rq_source a) (rq_selector a) (jv_episodes v)
            in if rq_source a \<noteq> ''adhoc'' \<and> e = None
               then (v, Inl (EmergencyIntentConflict ''active emergency episode is required before reservation''))
               else (v\<lparr>jv_intents := jv_intents v @ [reserved_intent (snd ids) e a]\<rparr>, Inr (IntentReply (reserved_intent (snd ids) e a) True)))))"
    by (simp add: view_ok_def Let_def split: option.splits)
qed (use v in \<open>simp add: view_ok_def\<close>)

lemma intent_ok_changes:
  "intent_ok r \<Longrightarrow> intent_ok (unknown_outcome r)"
  "intent_ok r \<Longrightarrow> normalise_order_ids os = Inr os \<Longrightarrow> intent_ok (acknowledged os r)"
  by (simp_all add: intent_ok_def unknown_outcome_def acknowledged_def active_intent_states_def)

lemma shape_exec:
  assumes v: "view_ok ids v"
  shows "view_shape (fst (spec_exec ids c v))"
proof -
  have shape: "view_shape v" using v by (simp add: view_ok_def)
  have change: "view_shape (fst (spec_change n f v))"
    if "\<And>r. ei_id (f r) = ei_id r \<and> ei_request (f r) = ei_request r" "\<And>r. intent_ok r \<Longrightarrow> intent_ok (f r)" for n f
    using change_intent_shape [OF shape, of f n] that shape by (simp add: spec_change_def)
  show ?thesis
  proof (cases c)
    case (Activate a)
    then show ?thesis using shape_activate [OF v] by simp
  next
    case (RecordTargets e sels)
    then show ?thesis using shape_record_targets [OF shape] by simp
  next
    case (Deactivate es)
    then show ?thesis using shape_deactivate [OF shape] by simp
  next
    case (Reserve a)
    then show ?thesis using shape_reserve [OF v] by simp
  next
    case (Acknowledge n os)
    have "view_shape (fst (spec_change n (acknowledged os') v))" if "normalise_order_ids os = Inr os'" for os'
      using that normalise_order_ids_id [OF that] by (intro change) (auto simp: intent_ok_changes(2))
    with Acknowledge shape show ?thesis by (auto intro: after_cases)
  next
    case (MarkUnknown n)
    then show ?thesis using change [of unknown_outcome n] by (simp add: intent_ok_changes)
  next
    case (Release n)
    then show ?thesis using filter_intents_shape [OF shape] by (simp add: spec_release_def)
  next
    case (Settle sel verbs src ns)
    then show ?thesis using filter_intents_shape [OF shape] shape by (simp add: spec_settle_def Let_def)
  qed (use shape in simp_all)
qed

subsection \<open>How episodes and intents disappear\<close>

lemma replace_episode_places:
  assumes "view_shape v" and "e \<in> set (jv_episodes v)" and "ep_id e' = ep_id e" and "episode_place e' = episode_place e"
  shows "episode_place ` set (jv_episodes (replace_episode e' v)) = episode_place ` set (jv_episodes v)"
proof -
  have "x = e" if "x \<in> set (jv_episodes v)" "ep_id x = ep_id e" for x
    using view_distinct(1) [OF assms(1)] assms(2) that by (auto simp: distinct_map inj_on_def)
  then have "map episode_place (jv_episodes (replace_episode e' v)) = map episode_place (jv_episodes v)"
    using assms(3,4) by (auto simp: replace_episode_def)
  then show ?thesis by (metis set_map)
qed

lemma validate_expected_source:
  assumes "validate_expected es = Inr u" and "e \<in> set es"
  shows "ep_source e = ep_source (hd es)"
proof -
  have "length (remdups (map ep_source es)) = 1" using assms(1) by (auto simp: validate_expected_def)
  then obtain s where "remdups (map ep_source es) = [s]" by (auto simp: length_Suc_conv)
  then have "set (map ep_source es) = {s}" by (metis set_remdups list.set(1,2))
  with assms(2) show ?thesis by (cases es) auto
qed

lemma spec_episode_lost:
  assumes v: "view_shape v" and e: "e \<in> set (jv_episodes v)"
    and lost: "episode_place e \<notin> episode_place ` set (jv_episodes (fst (spec_exec ids c v)))"
  shows "\<exists>es. c = Deactivate es \<and> e \<in> set es \<and> unsettled_for (ep_source e) (map ep_selector es) (jv_intents v) = []"
proof -
  have kept: "jv_episodes (fst (spec_exec ids c v)) \<noteq> jv_episodes v" using e lost by auto
  show ?thesis
  proof (cases c)
    case (Activate a)
    have "episode_place ` set (jv_episodes v) \<subseteq> episode_place ` set (jv_episodes (fst (spec_activate (fst ids) a v)))"
    proof (cases "validate_episode_fields a")
      case (Inr u)
      show ?thesis
      proof (cases "find_episode (er_source a) (er_selector a) (jv_episodes v)")
        case (Some x)
        then have "x \<in> set (jv_episodes v)" by (auto dest: find_episode_Some)
        from replace_episode_places [OF v this, of "renewed a x"] Some Inr show ?thesis
          by (cases "renews a x") (simp_all add: spec_activate_def episode_place_def)
      qed (auto simp: spec_activate_def Inr)
    qed (simp add: spec_activate_def)
    with Activate lost e show ?thesis by auto
  next
    case (RecordTargets x sels)
    have "episode_place ` set (jv_episodes (fst (spec_record_targets x sels v))) = episode_place ` set (jv_episodes v)"
      using replace_episode_places [OF v, of x]
      by (cases "validate_episode_snapshot x"; cases "normalise_affected_selectors sels")
         (simp_all add: spec_record_targets_def Let_def episode_place_def)
    with RecordTargets lost e show ?thesis by auto
  next
    case (Deactivate es)
    with kept obtain u where ok: "validate_expected es = Inr u" by (cases "validate_expected es") (auto simp: spec_deactivate_def split: if_splits)
    with Deactivate kept have unsettled: "unsettled_for (ep_source (hd es)) (map ep_selector es) (jv_intents v) = []"
      by (simp add: spec_deactivate_def split: if_splits)
    from Deactivate kept ok have v': "jv_episodes (fst (spec_exec ids c v)) = filter (\<lambda>e. e \<notin> set es) (jv_episodes v)"
      by (simp add: spec_deactivate_def split: if_splits)
    have "e \<in> set es" using lost e unfolding v' by auto
    with Deactivate unsettled validate_expected_source [OF ok this] show ?thesis by auto
  next
    case (Reserve a)
    with kept show ?thesis
      by (cases "validate_reserve a") (auto simp: spec_reserve_def Let_def split: option.splits if_splits)
  next
    case (Acknowledge n os)
    with kept show ?thesis
      by (cases "normalise_order_ids os") (auto simp: spec_change_def change_intent_def split: if_splits)
  qed (use kept in \<open>auto simp: spec_change_def change_intent_def spec_release_def spec_settle_def Let_def split: if_splits\<close>)
qed

lemma change_intent_keys:
  assumes "\<And>r. ei_request (f r) = ei_request r"
  shows "key_of ` set (jv_intents (change_intent n f v)) = key_of ` set (jv_intents v)"
proof -
  have "map key_of (jv_intents (change_intent n f v)) = map key_of (jv_intents v)"
    by (simp add: change_intent_def assms)
  then show ?thesis by (metis set_map)
qed

lemma replace_episode_intents [simp]: "jv_intents (replace_episode e v) = jv_intents v"
  by (simp add: replace_episode_def)

lemma spec_intent_lost:
  assumes v: "view_shape v" and r: "r \<in> set (jv_intents v)"
    and lost: "key_of r \<notin> key_of ` set (jv_intents (fst (spec_exec ids c v)))"
  shows "c = Release (ei_id r) \<or> (\<exists>sel verbs src ns. c = Settle sel verbs src ns \<and> ei_id r \<in> set ns)"
proof -
  have kept: "key_of ` set (jv_intents (fst (spec_exec ids c v))) \<noteq> key_of ` set (jv_intents v)" using r lost by auto
  show ?thesis
  proof (cases c)
    case (Activate a)
    with kept show ?thesis
      by (cases "validate_episode_fields a"; cases "find_episode (er_source a) (er_selector a) (jv_episodes v)";
          cases "renews a (the (find_episode (er_source a) (er_selector a) (jv_episodes v)))")
         (simp_all add: spec_activate_def split: if_splits)
  next
    case (RecordTargets x sels)
    with kept show ?thesis
      by (cases "validate_episode_snapshot x"; cases "normalise_affected_selectors sels")
         (simp_all add: spec_record_targets_def Let_def split: if_splits)
  next
    case (Deactivate es)
    with kept show ?thesis
      by (cases "validate_expected es") (simp_all add: spec_deactivate_def split: if_splits)
  next
    case (Reserve a)
    with lost r show ?thesis
      by (cases "validate_reserve a") (auto simp: spec_reserve_def Let_def split: option.splits if_splits)
  next
    case (Acknowledge n os)
    with kept show ?thesis
      by (cases "normalise_order_ids os") (simp_all add: spec_change_def change_intent_keys split: if_splits)
  next
    case (MarkUnknown n)
    with kept show ?thesis by (simp add: spec_change_def change_intent_keys split: if_splits)
  next
    case (Release n)
    with lost r show ?thesis by (auto simp: spec_release_def)
  next
    case (Settle sel verbs src ns)
    with lost r show ?thesis by (auto simp: spec_settle_def Let_def split: if_splits)
  qed (use kept in \<open>auto split: if_splits option.splits\<close>)
qed

lemma spec_created:
  assumes "spec_exec ids (Reserve a) v = (v', Inr (IntentReply r True))"
  shows "find_intent (intent_key a) (jv_intents v) = None \<and> r \<in> set (jv_intents v') \<and> ei_request r = a"
  using assms
  by (cases "validate_reserve a")
     (auto simp: spec_reserve_def Let_def reserved_intent_def split: option.splits if_splits)

subsection \<open>Runs and the contract of a journal\<close>

fun journal_run :: "('env \<Rightarrow> journal_call \<Rightarrow> 's \<Rightarrow> ('s, journal_error, journal_reply) outcome)
    \<Rightarrow> ('env \<times> journal_call) list \<Rightarrow> 's \<Rightarrow> 's" where
  "journal_run exec [] s = s"
| "journal_run exec (x # xs) s = journal_run exec xs (fst (exec (fst x) (snd x) s))"

text \<open>How often a run answers a reservation of the scope with a new intent, and so allows a broker write.\<close>

definition creates_key :: "intent_key \<Rightarrow> journal_call \<Rightarrow> journal_error + journal_reply \<Rightarrow> bool" where
  "creates_key k c reply =
     (case c of
        Reserve a \<Rightarrow> intent_key a = k \<and> (case reply of Inr (IntentReply r True) \<Rightarrow> True | _ \<Rightarrow> False)
      | _ \<Rightarrow> False)"

fun creations :: "('env \<Rightarrow> journal_call \<Rightarrow> 's \<Rightarrow> ('s, journal_error, journal_reply) outcome) \<Rightarrow> intent_key
    \<Rightarrow> ('env \<times> journal_call) list \<Rightarrow> 's \<Rightarrow> nat" where
  "creations exec k [] s = 0"
| "creations exec k (x # xs) s =
     (if creates_key k (snd x) (snd (exec (fst x) (snd x) s)) then 1 else 0) + creations exec k xs (fst (exec (fst x) (snd x) s))"

definition resolves :: "journal_call \<Rightarrow> bool" where
  "resolves c = (case c of Release n \<Rightarrow> True | Settle sel verbs src ns \<Rightarrow> True | _ \<Rightarrow> False)"

definition resets :: "string \<times> string \<Rightarrow> journal_call \<Rightarrow> bool" where
  "resets p c = (case c of Deactivate es \<Rightarrow> p \<in> episode_place ` set es | _ \<Rightarrow> False)"

text \<open>
  What hands out a scope at most once: a scope that is handed out was not held, is held from then
  on, and stays held until something resolves intents.
\<close>

locale scope_guard =
  fixes exec :: "'env \<Rightarrow> journal_call \<Rightarrow> 's \<Rightarrow> ('s, journal_error, journal_reply) outcome"
    and good :: "'s \<Rightarrow> bool"
    and held :: "intent_key \<Rightarrow> 's \<Rightarrow> bool"
  assumes good_step: "good s \<Longrightarrow> good (fst (exec env c s))"
    and created_fresh: "good s \<Longrightarrow> creates_key k c (snd (exec env c s)) \<Longrightarrow> \<not> held k s"
    and created_held: "good s \<Longrightarrow> creates_key k c (snd (exec env c s)) \<Longrightarrow> held k (fst (exec env c s))"
    and held_step: "good s \<Longrightarrow> held k s \<Longrightarrow> \<not> resolves c \<Longrightarrow> held k (fst (exec env c s))"
begin

lemma no_creation_while_held:
  assumes "good s" and "held k s" and "list_all (\<lambda>x. \<not> resolves (snd x)) xs"
  shows "creations exec k xs s = 0"
  using assms
proof (induction xs arbitrary: s)
  case (Cons x xs)
  then have "\<not> creates_key k (snd x) (snd (exec (fst x) (snd x) s))"
    using created_fresh [OF Cons.prems(1)] by blast
  with Cons show ?case by (simp add: good_step held_step)
qed simp

text \<open>Between resolutions a scope is handed out for a broker write at most once.\<close>

lemma created_at_most_once:
  assumes "good s" and "list_all (\<lambda>x. \<not> resolves (snd x)) xs"
  shows "creations exec k xs s \<le> 1"
  using assms
proof (induction xs arbitrary: s)
  case (Cons x xs)
  let ?s = "fst (exec (fst x) (snd x) s)"
  show ?case
  proof (cases "creates_key k (snd x) (snd (exec (fst x) (snd x) s))")
    case True
    then have "held k ?s" using created_held [OF Cons.prems(1)] by blast
    then have "creations exec k xs ?s = 0"
      using Cons.prems by (intro no_creation_while_held) (simp_all add: good_step)
    with True show ?thesis by simp
  next
    case False
    with Cons show ?thesis by (simp add: good_step)
  qed
qed simp

end

locale intent_journal =
  fixes exec :: "'env \<Rightarrow> journal_call \<Rightarrow> 's \<Rightarrow> ('s, journal_error, journal_reply) outcome"
    and view :: "'s \<Rightarrow> journal_view"
    and numbers :: "'s \<Rightarrow> int \<times> int"
    and good :: "'s \<Rightarrow> bool"
  assumes view_good: "good s \<Longrightarrow> view_ok (numbers s) (view s)"
    and good_exec: "good s \<Longrightarrow> good (fst (exec env c s))"
    and effect: "good s \<Longrightarrow> view (fst (exec env c s)) = view s \<or> view (fst (exec env c s)) = fst (spec_exec (numbers s) c (view s))"
    and answer: "good s \<Longrightarrow> within_contract c (view s) \<Longrightarrow> snd (exec env c s) \<noteq> Inl StorageError
      \<Longrightarrow> (view (fst (exec env c s)), snd (exec env c s)) = spec_exec (numbers s) c (view s)"
    and created: "good s \<Longrightarrow> snd (exec env (Reserve a) s) = Inr (IntentReply r True)
      \<Longrightarrow> within_contract (Reserve a) (view s)"
begin

lemma good_run: "good s \<Longrightarrow> good (journal_run exec xs s)"
  by (induction xs arbitrary: s) (simp_all add: good_exec)

lemma place_kept:
  assumes "good s" and "p \<in> episode_place ` set (jv_episodes (view s))" and "\<not> resets p c"
  shows "p \<in> episode_place ` set (jv_episodes (view (fst (exec env c s))))"
proof (rule ccontr)
  assume lost: "p \<notin> episode_place ` set (jv_episodes (view (fst (exec env c s))))"
  obtain e where e: "e \<in> set (jv_episodes (view s))" "episode_place e = p" using assms(2) by auto
  have "view_shape (view s)" using view_good [OF assms(1)] by (simp add: view_ok_def)
  moreover have "view (fst (exec env c s)) = fst (spec_exec (numbers s) c (view s))"
    using effect [OF assms(1), of env c] lost assms(2) by auto
  ultimately obtain es where "c = Deactivate es" "e \<in> set es"
    using spec_episode_lost [of "view s" e "numbers s" c] e lost by auto
  with assms(3) e(2) show False by (auto simp: resets_def)
qed

text \<open>A latch stays until it is reset, whatever storage fails in between.\<close>

lemma latch_until_reset:
  assumes "good s" and "p \<in> episode_place ` set (jv_episodes (view s))" and "list_all (\<lambda>x. \<not> resets p (snd x)) xs"
  shows "p \<in> episode_place ` set (jv_episodes (view (journal_run exec xs s)))"
  using assms by (induction xs arbitrary: s) (auto simp: good_exec place_kept)

text \<open>A reset goes through only when every broker intent of the source is settled.\<close>

lemma reset_needs_settled:
  assumes "good s" and "e \<in> set (jv_episodes (view s))"
    and "episode_place e \<notin> episode_place ` set (jv_episodes (view (fst (exec env c s))))"
  shows "\<exists>es. c = Deactivate es \<and> e \<in> set es
     \<and> unsettled_for (ep_source e) (map ep_selector es) (jv_intents (view s)) = []"
proof -
  have "view (fst (exec env c s)) = fst (spec_exec (numbers s) c (view s))"
    using effect [OF assms(1), of env c] assms(2,3) by auto
  moreover have "view_shape (view s)" using view_good [OF assms(1)] by (simp add: view_ok_def)
  ultimately show ?thesis using spec_episode_lost assms(2,3) by metis
qed

lemma key_kept:
  assumes "good s" and "k \<in> key_of ` set (jv_intents (view s))" and "\<not> resolves c"
  shows "k \<in> key_of ` set (jv_intents (view (fst (exec env c s))))"
proof (rule ccontr)
  assume lost: "k \<notin> key_of ` set (jv_intents (view (fst (exec env c s))))"
  obtain r where r: "r \<in> set (jv_intents (view s))" "key_of r = k" using assms(2) by auto
  have "view_shape (view s)" using view_good [OF assms(1)] by (simp add: view_ok_def)
  moreover have "view (fst (exec env c s)) = fst (spec_exec (numbers s) c (view s))"
    using effect [OF assms(1), of env c] lost assms(2) by auto
  ultimately show False
    using spec_intent_lost [of "view s" r "numbers s" c] r lost assms(3) by (auto simp: resolves_def)
qed

lemma created_effect:
  assumes "good s" and "creates_key k c (snd (exec env c s))"
  shows "k \<notin> key_of ` set (jv_intents (view s))" and "k \<in> key_of ` set (jv_intents (view (fst (exec env c s))))"
proof -
  obtain a r where c: "c = Reserve a" "intent_key a = k" "snd (exec env (Reserve a) s) = Inr (IntentReply r True)"
    using assms(2) by (auto simp: creates_key_def split: journal_call.splits sum.splits journal_reply.splits bool.splits)
  then have "spec_exec (numbers s) (Reserve a) (view s) = (view (fst (exec env c s)), Inr (IntentReply r True))"
    using answer [OF assms(1) created [OF assms(1) c(3)], of env] by simp
  from spec_created [OF this] c show "k \<notin> key_of ` set (jv_intents (view s))"
    and "k \<in> key_of ` set (jv_intents (view (fst (exec env c s))))"
    by (auto simp: find_intent_None)
qed

end

sublocale intent_journal \<subseteq> scope: scope_guard exec good "\<lambda>k s. k \<in> key_of ` set (jv_intents (view s))"
  by unfold_locales (rule good_exec created_effect key_kept; assumption)+

end
