(* ===== verification/Memory_Journal.thy ===== *)
theory Memory_Journal
  imports Journal_Spec
begin

text \<open>
  \<open>emergency_intents.InMemoryEmergencyIntentJournal\<close>: the process-local journal, two dictionaries
  and two counters. It implements the specification on every call.
\<close>

subsection \<open>Operations\<close>

record memory_journal =
  mj_records :: "(intent_key \<times> intent) list"
  mj_episodes :: "((string \<times> string) \<times> episode) list"
  mj_next_id :: int
  mj_next_episode_id :: int

definition mem_new :: memory_journal where
  "mem_new = \<lparr>mj_records = [], mj_episodes = [], mj_next_id = 1, mj_next_episode_id = 1\<rparr>"

definition mem_activate_episode :: "episode_request \<Rightarrow> memory_journal \<Rightarrow> (memory_journal, journal_error, episode \<times> bool) outcome" where
  "mem_activate_episode a m =
     after (validate_episode_fields a) m (\<lambda>_.
       let key = (er_source a, er_selector a)
       in case map_of (mj_episodes m) key of
            Some existing \<Rightarrow> after (renews a existing) m (\<lambda>later.
              if later then (m\<lparr>mj_episodes := AList.update key (renewed a existing) (mj_episodes m)\<rparr>, Inr (renewed a existing, False))
              else (m, Inr (existing, False)))
          | None \<Rightarrow>
              (let e = new_episode (mj_next_episode_id m) a
               in (m\<lparr>mj_next_episode_id := mj_next_episode_id m + 1, mj_episodes := AList.update key e (mj_episodes m)\<rparr>, Inr (e, True))))"

definition mem_active_episodes :: "string option \<Rightarrow> memory_journal \<Rightarrow> (memory_journal, journal_error, episode list) outcome" where
  "mem_active_episodes src m =
     (if (case src of None \<Rightarrow> False | Some s \<Rightarrow> s \<notin> {''l5'', ''mtm''}) then refuse ''emergency episode source must be l5 or mtm'' m
      else (m, Inr (sort_by (\<lambda>a b. ep_id a < ep_id b)
              (filter (\<lambda>e. case src of None \<Rightarrow> True | Some s \<Rightarrow> ep_source e = s) (map snd (mj_episodes m))))))"

definition mem_active_episode :: "string \<Rightarrow> string \<Rightarrow> memory_journal \<Rightarrow> (memory_journal, journal_error, episode option) outcome" where
  "mem_active_episode src sel m =
     (if src \<notin> {''l5'', ''mtm''} then refuse ''emergency episode source must be l5 or mtm'' m
      else (m, Inr (map_of (mj_episodes m) (src, sel))))"

definition mem_record_episode_targets :: "episode \<Rightarrow> string list \<Rightarrow> memory_journal \<Rightarrow> (memory_journal, journal_error, episode) outcome" where
  "mem_record_episode_targets expected sels m =
     after (validate_episode_snapshot expected) m (\<lambda>_.
     after (normalise_affected_selectors sels) m (\<lambda>canonical.
       let key = (ep_source expected, ep_selector expected)
       in case map_of (mj_episodes m) key of
            None \<Rightarrow> (m, Inl (EmergencyIntentConflict ''emergency episode changed while targets were recorded''))
          | Some current \<Rightarrow>
              if current \<noteq> expected
              then (m, Inl (EmergencyIntentConflict ''emergency episode changed while targets were recorded''))
              else (let affected = sorted_set (ep_targets current @ canonical)
                    in if affected = ep_targets current then (m, Inr current)
                       else (m\<lparr>mj_episodes := AList.update key (retargeted affected current) (mj_episodes m)\<rparr>,
                             Inr (retargeted affected current)))))"

definition mem_blocking_sources :: "string \<Rightarrow> memory_journal \<Rightarrow> (memory_journal, journal_error, string set) outcome" where
  "mem_blocking_sources sel m =
     (if \<not> canonical_selector sel then refuse ''emergency selector must be canonical'' m
      else (m, Inr (set (map ep_source (filter (\<lambda>e. ep_selector e \<in> {''*'', sel}) (map snd (mj_episodes m)))))))"

definition mem_deactivate_episodes :: "episode list \<Rightarrow> memory_journal \<Rightarrow> (memory_journal, journal_error, unit) outcome" where
  "mem_deactivate_episodes es m =
     (if es = [] then (m, Inr ())
      else after (validate_expected es) m (\<lambda>_.
        if \<not> list_all (\<lambda>e. map_of (mj_episodes m) (ep_source e, ep_selector e) = Some e) es
        then (m, Inl (EmergencyIntentConflict ''emergency episode changed during reset''))
        else if unsettled_for (ep_source (hd es)) (map ep_selector es) (map snd (mj_records m)) \<noteq> []
        then (m, Inl (EmergencyIntentConflict ''emergency episode has unsettled broker intents''))
        else (m\<lparr>mj_episodes := fold (\<lambda>e. AList.delete (ep_source e, ep_selector e)) es (mj_episodes m)\<rparr>, Inr ())))"

definition mem_unresolved :: "string \<Rightarrow> string list \<Rightarrow> string option \<Rightarrow> memory_journal \<Rightarrow> (memory_journal, journal_error, intent list) outcome" where
  "mem_unresolved sel verbs src m =
     (if (case src of None \<Rightarrow> False | Some s \<Rightarrow> s \<notin> set episode_sources) then refuse ''emergency intent source is invalid'' m
      else (m, Inr (intents_of sel verbs src (map snd (mj_records m)))))"

definition mem_episode_id_for :: "string \<Rightarrow> string \<Rightarrow> memory_journal \<Rightarrow> int option" where
  "mem_episode_id_for src sel m =
     (case map_of (mj_episodes m) (src, sel) of
        Some e \<Rightarrow> Some (ep_id e)
      | None \<Rightarrow> map_option ep_id (map_of (mj_episodes m) (src, ''*'')))"

definition mem_reserve :: "intent_request \<Rightarrow> memory_journal \<Rightarrow> (memory_journal, journal_error, intent \<times> bool) outcome" where
  "mem_reserve a m =
     after (validate_reserve a) m (\<lambda>_.
       case map_of (mj_records m) (intent_key a) of
         Some existing \<Rightarrow> (m, Inr (existing, False))
       | None \<Rightarrow>
           (let e = mem_episode_id_for (rq_source a) (rq_selector a) m
            in if rq_source a \<noteq> ''adhoc'' \<and> e = None
               then (m, Inl (EmergencyIntentConflict ''active emergency episode is required before reservation''))
               else (let r = reserved_intent (mj_next_id m) e a
                     in (m\<lparr>mj_next_id := mj_next_id m + 1, mj_records := AList.update (intent_key a) r (mj_records m)\<rparr>, Inr (r, True)))))"

text \<open>The loop of \<open>acknowledge\<close> and \<open>mark_unknown\<close>: the first record with the number is replaced.\<close>

definition mem_change :: "int \<Rightarrow> (intent \<Rightarrow> intent) \<Rightarrow> memory_journal \<Rightarrow> (memory_journal, journal_error, unit) outcome" where
  "mem_change n f m =
     (case find (\<lambda>(k, r). ei_id r = n) (mj_records m) of
        None \<Rightarrow> (m, Inl (UnknownIntent n))
      | Some (k, r) \<Rightarrow> (m\<lparr>mj_records := AList.update k (f r) (mj_records m)\<rparr>, Inr ()))"

definition mem_acknowledge :: "int \<Rightarrow> string list \<Rightarrow> memory_journal \<Rightarrow> (memory_journal, journal_error, unit) outcome" where
  "mem_acknowledge n os m = after (normalise_order_ids os) m (\<lambda>os'. mem_change n (acknowledged os') m)"

definition mem_mark_unknown :: "int \<Rightarrow> memory_journal \<Rightarrow> (memory_journal, journal_error, unit) outcome" where
  "mem_mark_unknown n m = mem_change n unknown_outcome m"

definition mem_release :: "int \<Rightarrow> memory_journal \<Rightarrow> (memory_journal, journal_error, unit) outcome" where
  "mem_release n m =
     (case find (\<lambda>(k, r). ei_id r = n) (mj_records m) of
        None \<Rightarrow> (m, Inr ())
      | Some (k, r) \<Rightarrow> (m\<lparr>mj_records := AList.delete k (mj_records m)\<rparr>, Inr ()))"

definition mem_settle :: "string \<Rightarrow> string list \<Rightarrow> string \<Rightarrow> int list \<Rightarrow> memory_journal \<Rightarrow> (memory_journal, journal_error, bool) outcome" where
  "mem_settle sel verbs src ids m =
     (if src \<notin> set episode_sources then refuse ''emergency intent source is invalid'' m
      else (let matching = map ei_id (intents_of sel verbs (Some src) (map snd (mj_records m)))
            in if set matching \<noteq> set ids then (m, Inr False)
               else (m\<lparr>mj_records := filter (\<lambda>(k, r). ei_id r \<notin> set matching) (mj_records m)\<rparr>, Inr True)))"

text \<open>The calls of the protocol.\<close>

definition reply_with :: "('a \<Rightarrow> journal_reply) \<Rightarrow> ('s, journal_error, 'a) outcome \<Rightarrow> ('s, journal_error, journal_reply) outcome" where
  "reply_with f r = (fst r, map_sum id f (snd r))"

fun mem_exec :: "unit \<Rightarrow> journal_call \<Rightarrow> memory_journal \<Rightarrow> (memory_journal, journal_error, journal_reply) outcome" where
  "mem_exec u (Activate a) m = reply_with (\<lambda>(e, new). EpisodeReply e new) (mem_activate_episode a m)"
| "mem_exec u (RecordTargets e sels) m = reply_with TargetsReply (mem_record_episode_targets e sels m)"
| "mem_exec u (Deactivate es) m = reply_with (\<lambda>_. Done) (mem_deactivate_episodes es m)"
| "mem_exec u (Reserve a) m = reply_with (\<lambda>(r, new). IntentReply r new) (mem_reserve a m)"
| "mem_exec u (Acknowledge n os) m = reply_with (\<lambda>_. Done) (mem_acknowledge n os m)"
| "mem_exec u (MarkUnknown n) m = reply_with (\<lambda>_. Done) (mem_mark_unknown n m)"
| "mem_exec u (Release n) m = reply_with (\<lambda>_. Done) (mem_release n m)"
| "mem_exec u (Settle sel verbs src ns) m = reply_with SettleReply (mem_settle sel verbs src ns m)"
| "mem_exec u (Unresolved sel verbs src) m = reply_with IntentsReply (mem_unresolved sel verbs src m)"
| "mem_exec u (BlockingSources sel) m = reply_with SourcesReply (mem_blocking_sources sel m)"
| "mem_exec u (ActiveEpisodes src) m = reply_with EpisodesReply (mem_active_episodes src m)"
| "mem_exec u (ActiveEpisode src sel) m = reply_with EpisodeOption (mem_active_episode src sel m)"

definition mem_view :: "memory_journal \<Rightarrow> journal_view" where
  "mem_view m = \<lparr>jv_episodes = map snd (mj_episodes m), jv_intents = map snd (mj_records m)\<rparr>"

definition mem_numbers :: "memory_journal \<Rightarrow> int \<times> int" where
  "mem_numbers m = (mj_next_episode_id m, mj_next_id m)"

definition mem_good :: "memory_journal \<Rightarrow> bool" where
  "mem_good m \<longleftrightarrow> view_ok (mem_numbers m) (mem_view m)
     \<and> list_all (\<lambda>(k, e). k = episode_place e) (mj_episodes m) \<and> list_all (\<lambda>(k, r). k = key_of r) (mj_records m)"

subsection \<open>Dictionaries keyed by their values\<close>

lemma map_of_find: "list_all (\<lambda>(k, v). k = g v) d \<Longrightarrow> map_of d k = find (\<lambda>v. g v = k) (map snd d)"
  by (induction d) auto

lemma keyed_keys: "list_all (\<lambda>(k, v). k = g v) d \<Longrightarrow> map fst d = map g (map snd d)"
  by (induction d) auto

lemma keyed_update: "list_all (\<lambda>(k, v). k = g v) d \<Longrightarrow> k = g v \<Longrightarrow> list_all (\<lambda>(k, v). k = g v) (AList.update k v d)"
  by (simp add: list_all_update)

lemma update_values:
  assumes "list_all (\<lambda>(k, v). k = g v) d" and "distinct (map g (map snd d))" and "distinct (map h (map snd d))"
    and "v0 \<in> snd ` set d"
  shows "map snd (AList.update (g v0) v d) = map (\<lambda>x. if h x = h v0 then v else x) (map snd d)"
  using assms
proof (induction d)
  case (Cons kv d)
  show ?case
  proof (cases "snd kv = v0")
    case True
    then have "h (snd x) \<noteq> h v0" if "x \<in> set d" for x using Cons.prems(3) that by (force simp: image_iff)
    with True Cons.prems(1) show ?thesis by (auto simp: case_prod_beta)
  next
    case False
    with Cons.prems have v0: "v0 \<in> snd ` set d" by auto
    with Cons.prems(2,3) have "g (snd kv) \<noteq> g v0" "h (snd kv) \<noteq> h v0" by (force simp: image_iff)+
    with Cons v0 show ?thesis by (cases kv) auto
  qed
qed simp

lemma delete_values:
  assumes "list_all (\<lambda>(k, v). k = g v) d" and "\<And>x. x \<in> snd ` set d \<Longrightarrow> P x \<longleftrightarrow> g x \<noteq> k"
  shows "map snd (AList.delete k d) = filter P (map snd d)"
  using assms by (induction d) auto

lemma keyed_delete: "list_all (\<lambda>(k, v). k = g v) d \<Longrightarrow> list_all (\<lambda>(k, v). k = g v) (AList.delete k d)"
  by (auto simp: list_all_iff AList.delete_eq)

lemma keyed_append:
  assumes "list_all (\<lambda>(k, v). k = g v) d" and "k \<notin> g ` set (map snd d)"
  shows "AList.update k v d = d @ [(k, v)]"
proof (rule update_new_key)
  show "k \<notin> fst ` set d" using assms by (force simp: list_all_iff)
qed

subsection \<open>The journal in memory follows the specification\<close>

lemma reply_with_simps [simp]:
  "reply_with f (s, Inl e) = (s, Inl e)" "reply_with f (s, Inr x) = (s, Inr (f x))"
  "fst (reply_with f r) = fst r"
  by (simp_all add: reply_with_def)

definition follows :: "memory_journal \<Rightarrow> (memory_journal, journal_error, journal_reply) outcome
    \<Rightarrow> (journal_view, journal_error, journal_reply) outcome \<Rightarrow> bool" where
  "follows m r sr \<longleftrightarrow> (mem_view (fst r), snd r) = sr
     \<and> list_all (\<lambda>(k, e). k = episode_place e) (mj_episodes (fst r)) \<and> list_all (\<lambda>(k, i). k = key_of i) (mj_records (fst r))
     \<and> mj_next_episode_id m \<le> mj_next_episode_id (fst r) \<and> mj_next_id m \<le> mj_next_id (fst r)
     \<and> numbers_ok (mem_numbers (fst r)) (mem_view (fst r))"

lemma mem_good_facts:
  assumes "mem_good m"
  shows "list_all (\<lambda>(k, e). k = episode_place e) (mj_episodes m)" "list_all (\<lambda>(k, r). k = key_of r) (mj_records m)"
    "view_shape (mem_view m)" "numbers_ok (mem_numbers m) (mem_view m)"
    "map_of (mj_episodes m) (src, sel) = find_episode src sel (jv_episodes (mem_view m))"
    "map_of (mj_records m) key = find_intent key (jv_intents (mem_view m))"
proof -
  show k: "list_all (\<lambda>(k, e). k = episode_place e) (mj_episodes m)" "list_all (\<lambda>(k, r). k = key_of r) (mj_records m)"
    and "view_shape (mem_view m)" "numbers_ok (mem_numbers m) (mem_view m)"
    using assms by (simp_all add: mem_good_def view_ok_def)
  show "map_of (mj_episodes m) (src, sel) = find_episode src sel (jv_episodes (mem_view m))"
    using map_of_find [OF k(1)] by (simp add: find_episode_def mem_view_def episode_place_def)
  show "map_of (mj_records m) key = find_intent key (jv_intents (mem_view m))"
    using map_of_find [OF k(2)] by (simp add: find_intent_def mem_view_def)
qed

lemma follows_same: "mem_good m \<Longrightarrow> follows m (m, r) (mem_view m, r)"
  by (simp add: follows_def mem_good_def view_ok_def)

lemma follows_replace:
  assumes m: "mem_good m" and e: "e \<in> set (jv_episodes (mem_view m))" "ep_id e' = ep_id e" "episode_place e' = episode_place e"
  shows "follows m (m\<lparr>mj_episodes := AList.update (episode_place e) e' (mj_episodes m)\<rparr>, r) (replace_episode e' (mem_view m), r)"
proof -
  have e0: "e \<in> snd ` set (mj_episodes m)" using e(1) by (simp add: mem_view_def)
  have d: "distinct (map episode_place (map snd (mj_episodes m)))" "distinct (map ep_id (map snd (mj_episodes m)))"
    using mem_good_facts(3) [OF m] view_distinct(1) [OF mem_good_facts(3) [OF m]] by (auto simp: view_shape_def mem_view_def)
  have "mem_view (m\<lparr>mj_episodes := AList.update (episode_place e) e' (mj_episodes m)\<rparr>) = replace_episode e' (mem_view m)"
    using update_values [OF mem_good_facts(1) [OF m] d e0, of e'] e(2) by (simp add: mem_view_def replace_episode_def)
  moreover have "numbers_ok (mem_numbers m) (replace_episode e' (mem_view m))"
    using mem_good_facts(4) [OF m] e(1,2) by (auto simp: numbers_ok_def replace_episode_def list_all_iff)
  ultimately show ?thesis
    using mem_good_facts(1,2) [OF m] e(3)
    by (simp add: follows_def keyed_update mem_numbers_def)
qed

lemma follows_change_intent:
  assumes m: "mem_good m" and i: "i \<in> set (jv_intents (mem_view m))"
    and f: "\<And>r. ei_id (f r) = ei_id r \<and> ei_request (f r) = ei_request r"
  shows "follows m (m\<lparr>mj_records := AList.update (key_of i) (f i) (mj_records m)\<rparr>, r) (change_intent (ei_id i) f (mem_view m), r)"
proof -
  have i0: "i \<in> snd ` set (mj_records m)" using i by (simp add: mem_view_def)
  have d: "distinct (map key_of (map snd (mj_records m)))" "distinct (map ei_id (map snd (mj_records m)))"
    using mem_good_facts(3) [OF m] view_distinct(2) [OF mem_good_facts(3) [OF m]] by (auto simp: view_shape_def mem_view_def)
  have one: "x = i" if "x \<in> snd ` set (mj_records m)" "ei_id x = ei_id i" for x
    using d(2) i0 that by (auto simp: distinct_map inj_on_def)
  have "map (\<lambda>x. if ei_id x = ei_id i then f i else x) (map snd (mj_records m))
      = map (\<lambda>x. if ei_id x = ei_id i then f x else x) (map snd (mj_records m))"
    using one by (intro map_cong) auto
  then have "mem_view (m\<lparr>mj_records := AList.update (key_of i) (f i) (mj_records m)\<rparr>) = change_intent (ei_id i) f (mem_view m)"
    using update_values [OF mem_good_facts(2) [OF m] d i0, of "f i"] by (simp add: mem_view_def change_intent_def)
  moreover have "numbers_ok (mem_numbers m) (change_intent (ei_id i) f (mem_view m))"
    using mem_good_facts(4) [OF m] f by (auto simp: numbers_ok_def change_intent_def list_all_iff)
  ultimately show ?thesis
    using mem_good_facts(1,2) [OF m] f
    by (simp add: follows_def keyed_update mem_numbers_def)
qed

lemma find_values: "find (\<lambda>(k, r). P r) d = None \<longleftrightarrow> (\<forall>r \<in> set (map snd d). \<not> P r)"
  by (auto simp: find_None_iff)

lemma activate_follows:
  assumes m: "mem_good m"
  shows "follows m (mem_exec u (Activate a) m) (spec_exec (mem_numbers m) (Activate a) (mem_view m))"
proof (cases "validate_episode_fields a")
  case (Inl e)
  then show ?thesis using follows_same [OF m] by (simp add: mem_activate_episode_def spec_activate_def)
next
  case (Inr v)
  let ?f = "find_episode (er_source a) (er_selector a) (jv_episodes (mem_view m))"
  show ?thesis
  proof (cases ?f)
    case None
    then have new: "(er_source a, er_selector a) \<notin> episode_place ` set (map snd (mj_episodes m))"
      by (simp add: find_episode_None mem_view_def)
    let ?e = "new_episode (mj_next_episode_id m) a"
    have place: "episode_place ?e = (er_source a, er_selector a)" "ep_id ?e = mj_next_episode_id m"
      by (simp_all add: new_episode_def episode_place_def)
    have upd: "AList.update (er_source a, er_selector a) ?e (mj_episodes m) = mj_episodes m @ [((er_source a, er_selector a), ?e)]"
      by (rule keyed_append [OF mem_good_facts(1) [OF m] new])
    have eq: "mem_exec u (Activate a) m =
        (m\<lparr>mj_next_episode_id := mj_next_episode_id m + 1, mj_episodes := mj_episodes m @ [((er_source a, er_selector a), ?e)]\<rparr>,
         Inr (EpisodeReply ?e True))"
      using None Inr by (simp add: mem_activate_episode_def mem_good_facts(5) [OF m] Let_def upd)
    have "spec_exec (mem_numbers m) (Activate a) (mem_view m) =
        ((mem_view m)\<lparr>jv_episodes := jv_episodes (mem_view m) @ [?e]\<rparr>, Inr (EpisodeReply ?e True))"
      using None Inr by (simp add: spec_activate_def mem_numbers_def)
    moreover have "numbers_ok (mj_next_episode_id m + 1, mj_next_id m) ((mem_view m)\<lparr>jv_episodes := jv_episodes (mem_view m) @ [?e]\<rparr>)"
      using mem_good_facts(4) [OF m] place(2) by (auto simp: numbers_ok_def mem_numbers_def list_all_iff)
    ultimately show ?thesis
      using mem_good_facts(1,2) [OF m] place unfolding eq
      by (simp add: follows_def mem_view_def mem_numbers_def)
  next
    case (Some e)
    then have e: "e \<in> set (jv_episodes (mem_view m))" "episode_place e = (er_source a, er_selector a)"
      by (auto dest: find_episode_Some simp: episode_place_def)
    show ?thesis
      using Inr Some follows_replace [OF m e(1), of "renewed a e"] follows_same [OF m] e(2)
      by (cases "renews a e")
         (simp_all add: mem_activate_episode_def spec_activate_def mem_good_facts(5) [OF m] Let_def episode_place_def)
  qed
qed

lemma targets_follow:
  assumes m: "mem_good m"
  shows "follows m (mem_exec u (RecordTargets x sels) m) (spec_exec (mem_numbers m) (RecordTargets x sels) (mem_view m))"
proof (cases "validate_episode_snapshot x")
  case (Inl e)
  then show ?thesis using follows_same [OF m] by (simp add: mem_record_episode_targets_def spec_record_targets_def)
next
  case (Inr w)
  note valid = this
  show ?thesis
  proof (cases "normalise_affected_selectors sels")
    case (Inl e)
    with valid show ?thesis using follows_same [OF m] by (simp add: mem_record_episode_targets_def spec_record_targets_def)
  next
    case (Inr canonical)
    have iff: "find_episode (ep_source x) (ep_selector x) (jv_episodes (mem_view m)) = Some x \<longleftrightarrow> x \<in> set (jv_episodes (mem_view m))"
      by (rule find_own_episode) (rule mem_good_facts(3) [OF m])
    show ?thesis
      using valid Inr follows_same [OF m] follows_replace [OF m, of x "retargeted (sorted_set (ep_targets x @ canonical)) x"] iff
      by (auto simp: mem_record_episode_targets_def spec_record_targets_def mem_good_facts(5) [OF m] Let_def episode_place_def
          split: option.splits)
  qed
qed

lemma fold_delete:
  "fold (\<lambda>e. AList.delete (ep_source e, ep_selector e)) es d = filter (\<lambda>kv. fst kv \<notin> episode_place ` set es) d"
  by (induction es arbitrary: d) (auto simp: AList.delete_eq episode_place_def case_prod_beta intro!: filter_cong)

lemma deactivate_follows:
  assumes m: "mem_good m"
  shows "follows m (mem_exec u (Deactivate es) m) (spec_exec (mem_numbers m) (Deactivate es) (mem_view m))"
proof (cases "es = [] \<or> isl (validate_expected es)")
  case True
  then show ?thesis
    using follows_same [OF m] by (cases "validate_expected es") (auto simp: mem_deactivate_episodes_def spec_deactivate_def)
next
  case False
  then obtain w where valid: "es \<noteq> []" "validate_expected es = Inr w" by (cases "validate_expected es") auto
  have iff: "map_of (mj_episodes m) (ep_source e, ep_selector e) = Some e \<longleftrightarrow> e \<in> set (jv_episodes (mem_view m))" for e
    using find_own_episode [OF mem_good_facts(3) [OF m]] by (simp add: mem_good_facts(5) [OF m])
  let ?d = "fold (\<lambda>e. AList.delete (ep_source e, ep_selector e)) es (mj_episodes m)"
  have "follows m (m\<lparr>mj_episodes := ?d\<rparr>, Inr Done) ((mem_view m)\<lparr>jv_episodes := filter (\<lambda>e. e \<notin> set es) (jv_episodes (mem_view m))\<rparr>, Inr Done)"
    if sub: "set es \<subseteq> set (jv_episodes (mem_view m))"
  proof -
    have places: "distinct (map episode_place (map snd (mj_episodes m)))"
      using mem_good_facts(3) [OF m] by (simp add: view_shape_def mem_view_def)
    have "fst kv \<in> episode_place ` set es \<longleftrightarrow> snd kv \<in> set es" if "kv \<in> set (mj_episodes m)" for kv
    proof -
      have key: "fst kv = episode_place (snd kv)" using mem_good_facts(1) [OF m] that by (auto simp: list_all_iff)
      have inj: "inj_on episode_place (set (map snd (mj_episodes m)))" using places by (simp only: distinct_map)
      have "snd kv = e" if "e \<in> set es" "episode_place (snd kv) = episode_place e" for e
        using inj_onD [OF inj that(2)] \<open>kv \<in> set (mj_episodes m)\<close> sub that(1) by (auto simp: mem_view_def)
      then show ?thesis unfolding key by blast
    qed
    then have "?d = filter (\<lambda>kv. snd kv \<notin> set es) (mj_episodes m)"
      unfolding fold_delete by (intro filter_cong) simp_all
    then have "map snd ?d = filter (\<lambda>e. e \<notin> set es) (map snd (mj_episodes m))"
      by (simp add: filter_map o_def)
    moreover have "list_all (\<lambda>(k, e). k = episode_place e) ?d"
      using mem_good_facts(1) [OF m] by (auto simp: fold_delete list_all_iff)
    ultimately show ?thesis
      using mem_good_facts(2,4) [OF m]
      by (auto simp: follows_def mem_view_def mem_numbers_def numbers_ok_def list_all_iff)
  qed
  moreover have "list_all (\<lambda>e. map_of (mj_episodes m) (ep_source e, ep_selector e) = Some e) es
      \<longleftrightarrow> list_all (\<lambda>e. e \<in> set (jv_episodes (mem_view m))) es"
    by (simp add: iff)
  moreover have "map snd (mj_records m) = jv_intents (mem_view m)" by (simp add: mem_view_def)
  ultimately show ?thesis
    using valid follows_same [OF m]
    by (auto simp: mem_deactivate_episodes_def spec_deactivate_def list_all_iff)
qed

lemma episode_id_follows:
  assumes "mem_good m"
  shows "mem_episode_id_for src sel m = episode_for src sel (jv_episodes (mem_view m))"
proof (cases "src = ''adhoc''")
  case True
  have "find_episode src x (jv_episodes (mem_view m)) = None" for x
    using mem_good_facts(3) [OF assms] True
    by (fastforce simp: find_episode_None view_shape_def list_all_iff episode_ok_def episode_place_def)
  with True show ?thesis by (simp add: mem_episode_id_for_def mem_good_facts(5) [OF assms] episode_for_def)
qed (simp add: mem_episode_id_for_def mem_good_facts(5) [OF assms] episode_for_def split: option.splits)

lemma reserve_follows:
  assumes m: "mem_good m"
  shows "follows m (mem_exec u (Reserve a) m) (spec_exec (mem_numbers m) (Reserve a) (mem_view m))"
proof (cases "validate_reserve a")
  case (Inl e)
  then show ?thesis using follows_same [OF m] by (simp add: mem_reserve_def spec_reserve_def)
next
  case (Inr w)
  let ?e = "episode_for (rq_source a) (rq_selector a) (jv_episodes (mem_view m))"
  let ?r = "reserved_intent (mj_next_id m) ?e a"
  have "follows m (m\<lparr>mj_next_id := mj_next_id m + 1, mj_records := AList.update (intent_key a) ?r (mj_records m)\<rparr>, Inr (IntentReply ?r True))
      ((mem_view m)\<lparr>jv_intents := jv_intents (mem_view m) @ [?r]\<rparr>, Inr (IntentReply ?r True))"
    if new: "find_intent (intent_key a) (jv_intents (mem_view m)) = None"
  proof -
    have key: "key_of ?r = intent_key a" "ei_id ?r = mj_next_id m" by (simp_all add: reserved_intent_def)
    have "intent_key a \<notin> key_of ` set (map snd (mj_records m))" using new by (simp add: find_intent_None mem_view_def)
    from keyed_append [OF mem_good_facts(2) [OF m] this]
    have upd: "AList.update (intent_key a) ?r (mj_records m) = mj_records m @ [(intent_key a, ?r)]" .
    have "numbers_ok (mj_next_episode_id m, mj_next_id m + 1) ((mem_view m)\<lparr>jv_intents := jv_intents (mem_view m) @ [?r]\<rparr>)"
      using mem_good_facts(4) [OF m] key(2) by (auto simp: numbers_ok_def mem_numbers_def list_all_iff)
    then show ?thesis
      using mem_good_facts(1,2) [OF m] key unfolding upd
      by (simp add: follows_def mem_view_def mem_numbers_def)
  qed
  then show ?thesis
    using Inr follows_same [OF m]
    by (auto simp: mem_reserve_def spec_reserve_def mem_good_facts(6) [OF m] episode_id_follows [OF m] Let_def mem_numbers_def
        split: option.splits)
qed

lemma find_value_Some: "find (\<lambda>(k, r). P r) d = Some kr \<Longrightarrow> kr \<in> set d \<and> P (snd kr)"
  by (induction d) (auto split: if_splits)

lemma find_intent_by_number:
  assumes m: "mem_good m"
  obtains (none) "find (\<lambda>(k, r). ei_id r = n) (mj_records m) = None" "n \<notin> set (map ei_id (jv_intents (mem_view m)))"
  | (some) i where "find (\<lambda>(k, r). ei_id r = n) (mj_records m) = Some (key_of i, i)"
      "i \<in> set (jv_intents (mem_view m))" "ei_id i = n"
proof (cases "find (\<lambda>(k, r). ei_id r = n) (mj_records m)")
  case None
  then have "\<forall>r \<in> set (map snd (mj_records m)). ei_id r \<noteq> n" by (simp only: find_values)
  with None show ?thesis by (intro none) (auto simp: mem_view_def)
next
  case (Some kr)
  then have "kr \<in> set (mj_records m)" "ei_id (snd kr) = n" by (auto dest: find_value_Some)
  moreover then have "fst kr = key_of (snd kr)" using mem_good_facts(2) [OF m] by (auto simp: list_all_iff)
  ultimately show ?thesis using Some by (intro some [of "snd kr"]) (auto simp: mem_view_def simp flip: \<open>fst kr = key_of (snd kr)\<close>)
qed

lemma change_follows:
  assumes m: "mem_good m" and f: "\<And>r. ei_id (f r) = ei_id r \<and> ei_request (f r) = ei_request r"
  shows "follows m (reply_with (\<lambda>_. Done) (mem_change n f m)) (spec_change n f (mem_view m))"
proof (rule find_intent_by_number [OF m, of n])
  fix i
  assume "find (\<lambda>(k, r). ei_id r = n) (mj_records m) = Some (key_of i, i)"
    and i: "i \<in> set (jv_intents (mem_view m))" "ei_id i = n"
  then show ?thesis using follows_change_intent [OF m i(1) f] by (auto simp: mem_change_def spec_change_def)
qed (use follows_same [OF m] in \<open>simp add: mem_change_def spec_change_def\<close>)

lemma filter_follows:
  assumes m: "mem_good m" and "map snd d = filter P (jv_intents (mem_view m))" and "list_all (\<lambda>(k, r). k = key_of r) d"
  shows "follows m (m\<lparr>mj_records := d\<rparr>, r) ((mem_view m)\<lparr>jv_intents := filter P (jv_intents (mem_view m))\<rparr>, r)"
  using assms mem_good_facts(1,4) [OF m]
  by (auto simp: follows_def mem_view_def mem_numbers_def numbers_ok_def list_all_iff)

lemma release_follows:
  assumes m: "mem_good m"
  shows "follows m (mem_exec u (Release n) m) (spec_exec (mem_numbers m) (Release n) (mem_view m))"
proof (rule find_intent_by_number [OF m, of n])
  assume "find (\<lambda>(k, r). ei_id r = n) (mj_records m) = None" "n \<notin> set (map ei_id (jv_intents (mem_view m)))"
  moreover then have "filter (\<lambda>r. ei_id r \<noteq> n) (jv_intents (mem_view m)) = jv_intents (mem_view m)"
    by (auto intro: filter_True)
  ultimately show ?thesis using follows_same [OF m] by (simp add: mem_release_def spec_release_def)
next
  fix i
  assume find: "find (\<lambda>(k, r). ei_id r = n) (mj_records m) = Some (key_of i, i)"
    and i: "i \<in> set (jv_intents (mem_view m))" "ei_id i = n"
  have d: "distinct (map key_of (map snd (mj_records m)))" "distinct (map ei_id (map snd (mj_records m)))"
    using mem_good_facts(3) [OF m] view_distinct(2) [OF mem_good_facts(3) [OF m]] by (auto simp: view_shape_def mem_view_def)
  have "ei_id x \<noteq> n \<longleftrightarrow> key_of x \<noteq> key_of i" if "x \<in> snd ` set (mj_records m)" for x
  proof -
    have "x \<in> set (map snd (mj_records m))" "i \<in> set (map snd (mj_records m))" using that i(1) by (auto simp: mem_view_def)
    with d i(2) show ?thesis unfolding distinct_map inj_on_def by auto
  qed
  from delete_values [OF mem_good_facts(2) [OF m] this]
  have "map snd (AList.delete (key_of i) (mj_records m)) = filter (\<lambda>r. ei_id r \<noteq> n) (jv_intents (mem_view m))"
    by (simp add: mem_view_def)
  from filter_follows [OF m this keyed_delete [OF mem_good_facts(2) [OF m]]] find show ?thesis
    by (simp add: mem_release_def spec_release_def)
qed

lemma filter_values: "map snd (filter (\<lambda>(k, r). P r) d) = filter P (map snd d)"
  by (induction d) auto

lemma settle_follows:
  assumes m: "mem_good m"
  shows "follows m (mem_exec u (Settle sel verbs src ns) m) (spec_exec (mem_numbers m) (Settle sel verbs src ns) (mem_view m))"
proof -
  have "map snd (filter (\<lambda>(k, r). P r) (mj_records m)) = filter P (jv_intents (mem_view m))" for P
    by (simp add: mem_view_def filter_values)
  moreover have "list_all (\<lambda>(k, r). k = key_of r) (filter (\<lambda>(k, r). P r) (mj_records m))" for P
    using mem_good_facts(2) [OF m] by (auto simp: list_all_iff)
  moreover have "map snd (mj_records m) = jv_intents (mem_view m)" by (simp add: mem_view_def)
  ultimately show ?thesis
    using follows_same [OF m] filter_follows [OF m] by (simp add: mem_settle_def spec_settle_def Let_def)
qed

lemma sort_by_sorted:
  assumes "\<And>a b. before a b \<Longrightarrow> \<not> before b a" and "sorted_wrt before xs"
  shows "sort_by before xs = xs"
  using assms(2)
proof (induction xs)
  case (Cons x xs)
  have "insert_by before x xs = x # xs" using Cons.prems assms(1) by (cases xs) auto
  with Cons show ?case by (simp add: sort_by_def)
qed (simp add: sort_by_def)

lemma queries_follow:
  assumes m: "mem_good m"
  shows "follows m (mem_exec u (Unresolved sel verbs src) m) (spec_exec (mem_numbers m) (Unresolved sel verbs src) (mem_view m))"
    and "follows m (mem_exec u (BlockingSources sel) m) (spec_exec (mem_numbers m) (BlockingSources sel) (mem_view m))"
    and "follows m (mem_exec u (ActiveEpisodes src) m) (spec_exec (mem_numbers m) (ActiveEpisodes src) (mem_view m))"
    and "follows m (mem_exec u (ActiveEpisode s sel) m) (spec_exec (mem_numbers m) (ActiveEpisode s sel) (mem_view m))"
proof -
  have "sorted_wrt (\<lambda>a b. ep_id a < ep_id b) (filter P (jv_episodes (mem_view m)))" for P
    using mem_good_facts(3) [OF m] by (auto simp: view_shape_def sorted_wrt_map intro: sorted_wrt_filter)
  then have sorted: "sort_by (\<lambda>a b. ep_id a < ep_id b) (filter P (jv_episodes (mem_view m))) = filter P (jv_episodes (mem_view m))" for P
    by (intro sort_by_sorted) auto
  have parts: "map snd (mj_records m) = jv_intents (mem_view m)" "map snd (mj_episodes m) = jv_episodes (mem_view m)"
    by (simp_all add: mem_view_def)
  note same = follows_same [OF m]
  show "follows m (mem_exec u (Unresolved sel verbs src) m) (spec_exec (mem_numbers m) (Unresolved sel verbs src) (mem_view m))"
    by (simp add: mem_unresolved_def parts same)
  show "follows m (mem_exec u (BlockingSources sel) m) (spec_exec (mem_numbers m) (BlockingSources sel) (mem_view m))"
    by (simp add: mem_blocking_sources_def blocking_in_def parts same)
  show "follows m (mem_exec u (ActiveEpisodes src) m) (spec_exec (mem_numbers m) (ActiveEpisodes src) (mem_view m))"
    by (simp add: mem_active_episodes_def parts sorted same)
  show "follows m (mem_exec u (ActiveEpisode s sel) m) (spec_exec (mem_numbers m) (ActiveEpisode s sel) (mem_view m))"
    by (simp add: mem_active_episode_def mem_good_facts(5) [OF m] same)
qed

theorem mem_exec_follows:
  assumes m: "mem_good m"
  shows "follows m (mem_exec u c m) (spec_exec (mem_numbers m) c (mem_view m))"
proof (cases c)
  case (Acknowledge n os)
  then show ?thesis
    using change_follows [OF m, of "acknowledged (projr (normalise_order_ids os))" n] follows_same [OF m]
    by (cases "normalise_order_ids os") (auto simp: mem_acknowledge_def)
next
  case (MarkUnknown n)
  then show ?thesis using change_follows [OF m, of unknown_outcome n] by (simp add: mem_mark_unknown_def)
qed (simp_all only: activate_follows [OF m] targets_follow [OF m] deactivate_follows [OF m] reserve_follows [OF m]
    release_follows [OF m] settle_follows [OF m] queries_follow [OF m])

lemma mem_good_exec:
  assumes m: "mem_good m"
  shows "mem_good (fst (mem_exec u c m))"
proof -
  note f = mem_exec_follows [OF m, of u c]
  have "view_shape (fst (spec_exec (mem_numbers m) c (mem_view m)))"
    using m by (intro shape_exec) (simp add: mem_good_def)
  with f show ?thesis unfolding follows_def mem_good_def view_ok_def by (metis fst_conv)
qed

interpretation mem: intent_journal mem_exec mem_view mem_numbers mem_good
proof
  fix s env c
  assume s: "mem_good s"
  note f = mem_exec_follows [OF s, of env c]
  show "view_ok (mem_numbers s) (mem_view s)" using s by (simp add: mem_good_def)
  show "mem_good (fst (mem_exec env c s))" by (rule mem_good_exec [OF s])
  show "mem_view (fst (mem_exec env c s)) = mem_view s
      \<or> mem_view (fst (mem_exec env c s)) = fst (spec_exec (mem_numbers s) c (mem_view s))"
    using f unfolding follows_def by (metis fst_conv)
  show "(mem_view (fst (mem_exec env c s)), snd (mem_exec env c s)) = spec_exec (mem_numbers s) c (mem_view s)"
    using f by (simp add: follows_def)
next
  fix s env a r
  assume s: "mem_good s" and new: "snd (mem_exec env (Reserve a) s) = Inr (IntentReply r True)"
  have "spec_exec (mem_numbers s) (Reserve a) (mem_view s) = (mem_view (fst (mem_exec env (Reserve a) s)), Inr (IntentReply r True))"
    using mem_exec_follows [OF s, of env "Reserve a"] new by (simp add: follows_def)
  from spec_created [OF this] show "within_contract (Reserve a) (mem_view s)" by simp
qed

lemma mem_good_new: "mem_good mem_new"
  by (simp add: mem_good_def mem_new_def mem_view_def mem_numbers_def view_ok_def view_shape_def numbers_ok_def)

end
