(* ===== verification/Sql_Store.thy ===== *)
theory Sql_Store
  imports Py_Prelude
begin

text \<open>
  Transactions of the SQLite stores. A call runs in one transaction: an exception inside rolls it
  back. Storage can fail before the transaction commits, which leaves the tables as they were, or
  after it, which keeps the effect and loses the answer. Which of them happens is an argument of
  the operations, so the theorems hold for every schedule of failures.
\<close>

datatype storage = Works | Fails_before | Fails_after

definition atomically :: "'e \<Rightarrow> storage \<Rightarrow> ('s \<Rightarrow> ('s, 'e, 'a) outcome) \<Rightarrow> 's \<Rightarrow> ('s, 'e, 'a) outcome" where
  "atomically failure fl f db =
     (case f db of
        (db', Inl e) \<Rightarrow> (db, Inl (if fl = Fails_before then failure else e))
      | (db', Inr r) \<Rightarrow>
          (case fl of Works \<Rightarrow> (db', Inr r) | Fails_before \<Rightarrow> (db, Inl failure) | Fails_after \<Rightarrow> (db', Inl failure)))"

lemma atomically_state: "fst (atomically failure fl f db) = db \<or> fst (atomically failure fl f db) = fst (f db)"
  by (auto simp: atomically_def split: prod.splits sum.splits storage.splits)

text \<open>
  What a store with failing storage keeps of a store without: every call takes effect as a whole or
  not at all, and an answer that is not the storage failure is the right one.
\<close>

definition store_refines :: "'e \<Rightarrow> ('s \<Rightarrow> bool) \<Rightarrow> ('s \<Rightarrow> 'v) \<Rightarrow> ('s \<Rightarrow> ('s, 'e, 'a) outcome) \<Rightarrow> ('v \<Rightarrow> ('v, 'e, 'a) outcome) \<Rightarrow> bool" where
  "store_refines failure good view f g \<longleftrightarrow>
     (\<forall>s. good s \<longrightarrow> good (fst (f s)) \<and> (view (fst (f s)) = view s \<or> view (fst (f s)) = fst (g (view s)))
        \<and> (snd (f s) \<noteq> Inl failure \<longrightarrow> (view (fst (f s)), snd (f s)) = g (view s)))"

lemma store_refinesD:
  assumes "store_refines failure good view f g" and "good s"
  shows "good (fst (f s))" and "view (fst (f s)) = view s \<or> view (fst (f s)) = fst (g (view s))"
    and "snd (f s) \<noteq> Inl failure \<Longrightarrow> (view (fst (f s)), snd (f s)) = g (view s)"
  using assms by (simp_all add: store_refines_def)

lemma store_refinesI:
  assumes "\<And>s. good s \<Longrightarrow> good (fst (f s))" and "\<And>s. good s \<Longrightarrow> (view (fst (f s)), snd (f s)) = g (view s)"
  shows "store_refines failure good view f g"
  unfolding store_refines_def
proof (intro allI impI conjI)
  fix s assume "good s"
  from assms [OF this] show "good (fst (f s))" "(view (fst (f s)), snd (f s)) = g (view s)"
    "view (fst (f s)) = view s \<or> view (fst (f s)) = fst (g (view s))"
    by (simp_all add: prod_eq_iff)
qed

lemma store_refines_refl: "store_refines failure (\<lambda>_. True) id f f"
  by (rule store_refinesI) simp_all

text \<open>A transaction around a body that raises without a change.\<close>

lemma store_refines_atomically:
  assumes "store_refines failure good view f g" and "\<And>v e. snd (g v) = Inl e \<Longrightarrow> fst (g v) = v" and "\<And>s. good s \<Longrightarrow> snd (f s) \<noteq> Inl failure"
  shows "store_refines failure good view (atomically failure fl f) g"
  unfolding store_refines_def
proof (intro allI impI)
  fix s assume s: "good s"
  obtain s' r where f: "f s = (s', r)" by (cases "f s")
  have g: "g (view s) = (view s', r)" "good s'"
    using store_refinesD [OF assms(1) s] assms(3) [OF s] f by (simp_all add: prod_eq_iff)
  have "good (fst (atomically failure fl f s)) \<and> (view (fst (atomically failure fl f s)) = view s
      \<or> view (fst (atomically failure fl f s)) = fst (g (view s)))
      \<and> (snd (atomically failure fl f s) \<noteq> Inl failure \<longrightarrow> (view (fst (atomically failure fl f s)), snd (atomically failure fl f s)) = g (view s))"
  proof (cases r)
    case (Inl e)
    then have "view s' = view s" using assms(2) [of "view s" e] g(1) by simp
    with Inl f g s show ?thesis by (auto simp: atomically_def)
  next
    case (Inr x)
    with f g s show ?thesis by (cases fl) (auto simp: atomically_def)
  qed
  then show "good (fst (atomically failure fl f s)) \<and> (view (fst (atomically failure fl f s)) = view s
      \<or> view (fst (atomically failure fl f s)) = fst (g (view s)))
      \<and> (snd (atomically failure fl f s) \<noteq> Inl failure \<longrightarrow> (view (fst (atomically failure fl f s)), snd (atomically failure fl f s)) = g (view s))" .
qed

text \<open>Checks of the arguments that come before the transaction.\<close>

lemma store_refines_bind:
  assumes "\<And>x. r = Inr x \<Longrightarrow> store_refines failure good view (f x) (g x)"
  shows "store_refines failure good view (\<lambda>s. bind_out (s, r) (\<lambda>s x. f x s)) (\<lambda>v. bind_out (v, r) (\<lambda>v x. g x v))"
  using assms by (cases r) (simp_all add: store_refines_def)

end
