(* ===== verification/Sqlite_Journal.thy ===== *)
theory Sqlite_Journal
  imports Memory_Journal Sql_Store
begin

text \<open>
  \<open>emergency_intents.EmergencyIntentJournal\<close>: the durable journal over its three SQLite tables.
  Settled rows stay in the tables, so the view of the journal is what the active rows show.

  A call runs in one transaction of \<open>Sql_Store\<close>; whether and where the storage fails, the time of
  the call and whether an ignored \<open>INSERT\<close> uses up an automatic number (SQLite leaves that open)
  are arguments. The three failures the code
  can raise after its commit (a row that is missing right after it was written, order ids that no
  longer parse) are modelled like the others; no journal the calls can produce reaches them.
\<close>

subsection \<open>Tables\<close>

record episode_row =
  ew_id :: int
  ew_source :: string
  ew_selector :: string
  ew_session_key :: string
  ew_reason_hash :: string
  ew_state :: episode_state
  ew_revision :: int
  ew_created_at :: string
  ew_settled_at :: "string option"

record intent_row =
  iw_intent :: intent
  iw_created_at :: string
  iw_acknowledged_at :: "string option"
  iw_settled_at :: "string option"

record journal_db =
  jd_episodes :: "episode_row list"
  jd_targets :: "(int \<times> string) list"
  jd_intents :: "intent_row list"
  jd_episode_seq :: int
  jd_intent_seq :: int

record sql_env =
  se_storage :: storage
  se_now :: string
  se_burn :: bool

definition sql_new :: journal_db where
  "sql_new = \<lparr>jd_episodes = [], jd_targets = [], jd_intents = [], jd_episode_seq = 0, jd_intent_seq = 0\<rparr>"

definition transaction :: "storage \<Rightarrow> (journal_db \<Rightarrow> (journal_db, journal_error, 'a) outcome)
    \<Rightarrow> journal_db \<Rightarrow> (journal_db, journal_error, 'a) outcome" where
  "transaction fl f db = atomically StorageError fl f db"

abbreviation active_row :: "episode_row \<Rightarrow> bool" where
  "active_row w \<equiv> ew_state w = Episode_active"

abbreviation open_row :: "intent_row \<Rightarrow> bool" where
  "open_row w \<equiv> ei_state (iw_intent w) \<in> set active_intent_states"

definition targets_of :: "journal_db \<Rightarrow> int \<Rightarrow> string list" where
  "targets_of db n = sort_by text_less (map snd (filter (\<lambda>t. fst t = n) (jd_targets db)))"

definition episode_from_row :: "journal_db \<Rightarrow> episode_row \<Rightarrow> episode" where
  "episode_from_row db w = \<lparr>ep_id = ew_id w, ep_source = ew_source w, ep_selector = ew_selector w, ep_session_key = ew_session_key w,
     ep_state = ew_state w, ep_revision = ew_revision w, ep_targets = targets_of db (ew_id w)\<rparr>"

definition record_of :: "intent_row \<Rightarrow> journal_error + intent" where
  "record_of w =
     bind_res (normalise_order_ids (ei_order_ids (iw_intent w))) (\<lambda>ids. Inr ((iw_intent w)\<lparr>ei_order_ids := ids\<rparr>))"

fun records_of :: "intent_row list \<Rightarrow> journal_error + intent list" where
  "records_of [] = Inr []"
| "records_of (w # ws) = bind_res (record_of w) (\<lambda>r. bind_res (records_of ws) (\<lambda>rs. Inr (r # rs)))"

subsection \<open>Statements\<close>

text \<open>\<open>UPDATE ... WHERE\<close>, with the number of rows it changed.\<close>

definition update_episodes :: "(episode_row \<Rightarrow> bool) \<Rightarrow> (episode_row \<Rightarrow> episode_row) \<Rightarrow> journal_db \<Rightarrow> journal_db \<times> nat" where
  "update_episodes P f db =
     (db\<lparr>jd_episodes := map (\<lambda>w. if P w then f w else w) (jd_episodes db)\<rparr>, length (filter P (jd_episodes db)))"

definition update_intents :: "(intent_row \<Rightarrow> bool) \<Rightarrow> (intent_row \<Rightarrow> intent_row) \<Rightarrow> journal_db \<Rightarrow> journal_db \<times> nat" where
  "update_intents P f db =
     (db\<lparr>jd_intents := map (\<lambda>w. if P w then f w else w) (jd_intents db)\<rparr>, length (filter P (jd_intents db)))"

definition at_revision :: "int \<Rightarrow> int \<Rightarrow> episode_row \<Rightarrow> bool" where
  "at_revision n v w \<longleftrightarrow> ew_id w = n \<and> active_row w \<and> ew_revision w = v"

definition active_episode_row :: "string \<Rightarrow> string \<Rightarrow> journal_db \<Rightarrow> episode_row option" where
  "active_episode_row src sel db =
     find (\<lambda>w. ew_source w = src \<and> ew_selector w = sel \<and> active_row w) (jd_episodes db)"

definition insert_episode :: "string \<Rightarrow> episode_request \<Rightarrow> journal_db \<Rightarrow> journal_db" where
  "insert_episode now a db =
     db\<lparr>jd_episode_seq := jd_episode_seq db + 1,
        jd_episodes := jd_episodes db @
          [\<lparr>ew_id = jd_episode_seq db + 1, ew_source = er_source a, ew_selector = er_selector a, ew_session_key = er_session_key a,
            ew_reason_hash = er_reason_hash a, ew_state = Episode_active, ew_revision = 1, ew_created_at = now, ew_settled_at = None\<rparr>]\<rparr>"

definition insert_target :: "int \<Rightarrow> string \<Rightarrow> journal_db \<times> nat \<Rightarrow> journal_db \<times> nat" where
  "insert_target n sel dn =
     (case dn of (db, added) \<Rightarrow>
        if (n, sel) \<in> set (jd_targets db) then (db, added) else (db\<lparr>jd_targets := jd_targets db @ [(n, sel)]\<rparr>, added + 1))"

definition open_row_at :: "intent_key \<Rightarrow> journal_db \<Rightarrow> intent_row option" where
  "open_row_at k db = find (\<lambda>w. key_of (iw_intent w) = k \<and> open_row w) (jd_intents db)"

definition insert_or_ignore_intent :: "string \<Rightarrow> bool \<Rightarrow> int option \<Rightarrow> intent_request \<Rightarrow> journal_db \<Rightarrow> journal_db \<times> nat" where
  "insert_or_ignore_intent now burn e a db =
     (if open_row_at (intent_key a) db \<noteq> None
      then (if burn then db\<lparr>jd_intent_seq := jd_intent_seq db + 1\<rparr> else db, 0)
      else (db\<lparr>jd_intent_seq := jd_intent_seq db + 1,
               jd_intents := jd_intents db @ [\<lparr>iw_intent = reserved_intent (jd_intent_seq db + 1) e a, iw_created_at = now,
                  iw_acknowledged_at = None, iw_settled_at = None\<rparr>]\<rparr>, 1))"

definition sql_active_episode_id :: "string \<Rightarrow> string \<Rightarrow> journal_db \<Rightarrow> int option" where
  "sql_active_episode_id src sel db =
     (if src = ''adhoc'' then None
      else case active_episode_row src sel db of
             Some w \<Rightarrow> Some (ew_id w)
           | None \<Rightarrow> map_option ew_id (active_episode_row src ''*'' db))"

subsection \<open>Operations\<close>

definition conflict :: "string \<Rightarrow> journal_db \<Rightarrow> (journal_db, journal_error, 'a) outcome" where
  "conflict why db = (db, Inl (EmergencyIntentConflict why))"

definition activate_body :: "string \<Rightarrow> episode_request \<Rightarrow> journal_db \<Rightarrow> (journal_db, journal_error, episode \<times> bool) outcome" where
  "activate_body now a db =
     (case active_episode_row (er_source a) (er_selector a) db of
        Some w \<Rightarrow> after (renews a (episode_from_row db w)) db (\<lambda>later.
          if later then
            (case update_episodes (at_revision (ew_id w) (ew_revision w))
                (\<lambda>w. w\<lparr>ew_session_key := er_session_key a, ew_reason_hash := er_reason_hash a, ew_revision := ew_revision w + 1\<rparr>) db of
               (db', n) \<Rightarrow>
                 if n \<noteq> 1 then conflict ''emergency episode changed during renewal'' db'
                 else (case find (\<lambda>x. ew_id x = ew_id w) (jd_episodes db') of
                         None \<Rightarrow> (db', Inl (JournalRuntimeError ''renewed emergency episode is unavailable''))
                       | Some x \<Rightarrow> (db', Inr (episode_from_row db' x, False))))
          else (db, Inr (episode_from_row db w, False)))
      | None \<Rightarrow>
          (let db' = insert_episode now a db
           in case find (\<lambda>x. ew_id x = jd_episode_seq db') (jd_episodes db') of
                None \<Rightarrow> (db', Inl (JournalRuntimeError ''emergency episode was not persisted''))
              | Some x \<Rightarrow> (db', Inr (episode_from_row db' x, True))))"

definition sql_activate_episode :: "sql_env \<Rightarrow> episode_request \<Rightarrow> journal_db \<Rightarrow> (journal_db, journal_error, episode \<times> bool) outcome" where
  "sql_activate_episode env a db =
     after (validate_episode_fields a) db (\<lambda>_. transaction (se_storage env) (activate_body (se_now env) a) db)"

definition sql_active_episodes :: "sql_env \<Rightarrow> string option \<Rightarrow> journal_db \<Rightarrow> (journal_db, journal_error, episode list) outcome" where
  "sql_active_episodes env src db =
     (if (case src of None \<Rightarrow> False | Some s \<Rightarrow> s \<notin> {''l5'', ''mtm''}) then refuse ''emergency episode source must be l5 or mtm'' db
      else transaction (se_storage env) (\<lambda>db.
        (db, Inr (map (episode_from_row db)
           (filter (\<lambda>w. active_row w \<and> (case src of None \<Rightarrow> True | Some s \<Rightarrow> ew_source w = s)) (jd_episodes db))))) db)"

definition sql_active_episode :: "sql_env \<Rightarrow> string \<Rightarrow> string \<Rightarrow> journal_db \<Rightarrow> (journal_db, journal_error, episode option) outcome" where
  "sql_active_episode env src sel db =
     (if src \<notin> {''l5'', ''mtm''} then refuse ''emergency episode source must be l5 or mtm'' db
      else transaction (se_storage env) (\<lambda>db. (db, Inr (map_option (episode_from_row db) (active_episode_row src sel db)))) db)"

definition active_row_by_id :: "int \<Rightarrow> journal_db \<Rightarrow> episode_row option" where
  "active_row_by_id n db = find (\<lambda>w. ew_id w = n \<and> active_row w) (jd_episodes db)"

definition targets_body :: "episode \<Rightarrow> string list \<Rightarrow> journal_db \<Rightarrow> (journal_db, journal_error, episode) outcome" where
  "targets_body expected canonical db =
     (case active_row_by_id (ep_id expected) db of
        None \<Rightarrow> conflict ''emergency episode changed while targets were recorded'' db
      | Some w \<Rightarrow>
          if episode_from_row db w \<noteq> expected then conflict ''emergency episode changed while targets were recorded'' db
          else (case fold (insert_target (ep_id expected)) canonical (db, 0) of
            (db1, added) \<Rightarrow>
              (case (if added \<noteq> 0
                     then update_episodes (at_revision (ep_id expected) (ep_revision expected)) (\<lambda>w. w\<lparr>ew_revision := ew_revision w + 1\<rparr>) db1
                     else (db1, 1)) of
                 (db2, n) \<Rightarrow>
                   if n \<noteq> 1 then conflict ''emergency episode changed while targets were recorded'' db2
                   else (case active_row_by_id (ep_id expected) db2 of
                           None \<Rightarrow> conflict ''emergency episode changed while targets were recorded'' db2
                         | Some x \<Rightarrow> (db2, Inr (episode_from_row db2 x))))))"

definition sql_record_episode_targets :: "sql_env \<Rightarrow> episode \<Rightarrow> string list \<Rightarrow> journal_db \<Rightarrow> (journal_db, journal_error, episode) outcome" where
  "sql_record_episode_targets env expected sels db =
     after (validate_episode_snapshot expected) db (\<lambda>_.
     after (normalise_affected_selectors sels) db (\<lambda>canonical.
       transaction (se_storage env) (targets_body expected canonical) db))"

definition sql_blocking_sources :: "sql_env \<Rightarrow> string \<Rightarrow> journal_db \<Rightarrow> (journal_db, journal_error, string set) outcome" where
  "sql_blocking_sources env sel db =
     (if \<not> canonical_selector sel then refuse ''emergency selector must be canonical'' db
      else transaction (se_storage env) (\<lambda>db.
        (db, Inr (set (map ew_source (filter (\<lambda>w. active_row w \<and> (ew_selector w = ''*'' \<or> ew_selector w = sel)) (jd_episodes db)))))) db)"

definition settle_episode :: "string \<Rightarrow> episode \<Rightarrow> journal_db \<Rightarrow> journal_error + journal_db" where
  "settle_episode now e db =
     (case update_episodes (at_revision (ep_id e) (ep_revision e))
        (\<lambda>w. w\<lparr>ew_state := Episode_settled, ew_revision := ew_revision w + 1, ew_settled_at := Some now\<rparr>) db of
        (db', n) \<Rightarrow> if n \<noteq> 1 then Inl (EmergencyIntentConflict ''emergency episode changed during reset'') else Inr db')"

definition unsettled_rows :: "string \<Rightarrow> string list \<Rightarrow> journal_db \<Rightarrow> intent_row list" where
  "unsettled_rows src sels db =
     filter (\<lambda>w. rq_source (ei_request (iw_intent w)) = src
        \<and> (src = ''l5'' \<or> rq_selector (ei_request (iw_intent w)) \<in> set sels) \<and> open_row w) (jd_intents db)"

definition deactivate_body :: "string \<Rightarrow> episode list \<Rightarrow> journal_db \<Rightarrow> (journal_db, journal_error, unit) outcome" where
  "deactivate_body now es db =
     (if \<not> list_all (\<lambda>e. map_option (episode_from_row db) (active_row_by_id (ep_id e) db) = Some e) es
      then conflict ''emergency episode changed during reset'' db
      else if unsettled_rows (ep_source (hd es)) (map ep_selector es) db \<noteq> []
      then conflict ''emergency episode has unsettled broker intents'' db
      else (case for_each (settle_episode now) es db of Inl e \<Rightarrow> (db, Inl e) | Inr db' \<Rightarrow> (db', Inr ())))"

definition sql_deactivate_episodes :: "sql_env \<Rightarrow> episode list \<Rightarrow> journal_db \<Rightarrow> (journal_db, journal_error, unit) outcome" where
  "sql_deactivate_episodes env es db =
     (if es = [] then (db, Inr ())
      else after (validate_expected es) db (\<lambda>_. transaction (se_storage env) (deactivate_body (se_now env) es) db))"

definition open_rows_of :: "string \<Rightarrow> string list \<Rightarrow> string option \<Rightarrow> journal_db \<Rightarrow> intent_row list" where
  "open_rows_of sel verbs src db =
     filter (\<lambda>w. rq_selector (ei_request (iw_intent w)) = sel \<and> rq_parent_verb (ei_request (iw_intent w)) \<in> set verbs
        \<and> open_row w \<and> of_source src (iw_intent w)) (jd_intents db)"

definition sql_unresolved :: "sql_env \<Rightarrow> string \<Rightarrow> string list \<Rightarrow> string option \<Rightarrow> journal_db \<Rightarrow> (journal_db, journal_error, intent list) outcome" where
  "sql_unresolved env sel verbs src db =
     (if verbs = [] then (db, Inr [])
      else if (case src of None \<Rightarrow> False | Some s \<Rightarrow> s \<notin> set episode_sources) then refuse ''emergency intent source is invalid'' db
      else transaction (se_storage env) (\<lambda>db. (db, records_of (open_rows_of sel verbs src db))) db)"

definition reserve_body :: "string \<Rightarrow> bool \<Rightarrow> intent_request \<Rightarrow> journal_db \<Rightarrow> (journal_db, journal_error, intent \<times> bool) outcome" where
  "reserve_body now burn a db =
     (let e = sql_active_episode_id (rq_source a) (rq_selector a) db
      in if rq_source a \<noteq> ''adhoc'' \<and> e = None then conflict ''active emergency episode is required before reservation'' db
         else (case insert_or_ignore_intent now burn e a db of
           (db', n) \<Rightarrow>
             (case open_row_at (intent_key a) db' of
                None \<Rightarrow> (db', Inl (JournalRuntimeError ''emergency intent reservation was not persisted''))
              | Some w \<Rightarrow> (db', bind_res (record_of w) (\<lambda>r. Inr (r, n = 1))))))"

definition sql_reserve :: "sql_env \<Rightarrow> intent_request \<Rightarrow> journal_db \<Rightarrow> (journal_db, journal_error, intent \<times> bool) outcome" where
  "sql_reserve env a db =
     after (validate_reserve a) db (\<lambda>_. transaction (se_storage env) (reserve_body (se_now env) (se_burn env) a) db)"

definition change_body :: "int \<Rightarrow> (intent_row \<Rightarrow> intent_row) \<Rightarrow> journal_db \<Rightarrow> (journal_db, journal_error, unit) outcome" where
  "change_body n f db =
     (case update_intents (\<lambda>w. ei_id (iw_intent w) = n \<and> open_row w) f db of
        (db', k) \<Rightarrow> if k \<noteq> 1 then (db', Inl (UnknownIntent n)) else (db', Inr ()))"

definition sql_acknowledge :: "sql_env \<Rightarrow> int \<Rightarrow> string list \<Rightarrow> journal_db \<Rightarrow> (journal_db, journal_error, unit) outcome" where
  "sql_acknowledge env n os db =
     after (normalise_order_ids os) db (\<lambda>os'. transaction (se_storage env)
       (change_body n (\<lambda>w. w\<lparr>iw_intent := acknowledged os' (iw_intent w), iw_acknowledged_at := Some (se_now env)\<rparr>)) db)"

definition sql_mark_unknown :: "sql_env \<Rightarrow> int \<Rightarrow> journal_db \<Rightarrow> (journal_db, journal_error, unit) outcome" where
  "sql_mark_unknown env n db =
     transaction (se_storage env) (change_body n (\<lambda>w. w\<lparr>iw_intent := unknown_outcome (iw_intent w)\<rparr>)) db"

definition sql_release :: "sql_env \<Rightarrow> int \<Rightarrow> journal_db \<Rightarrow> (journal_db, journal_error, unit) outcome" where
  "sql_release env n db =
     transaction (se_storage env) (\<lambda>db.
       (db\<lparr>jd_intents := filter (\<lambda>w. \<not> (ei_id (iw_intent w) = n \<and> ei_state (iw_intent w) = Reserved)) (jd_intents db)\<rparr>, Inr ())) db"

definition settled_row :: "string \<Rightarrow> intent_row \<Rightarrow> intent_row" where
  "settled_row now w =
     w\<lparr>iw_intent := (iw_intent w)\<lparr>ei_state := Intent_settled, ei_revision := ei_revision (iw_intent w) + 1\<rparr>, iw_settled_at := Some now\<rparr>"

definition settle_body :: "string \<Rightarrow> string \<Rightarrow> string list \<Rightarrow> string \<Rightarrow> int list \<Rightarrow> journal_db \<Rightarrow> (journal_db, journal_error, bool) outcome" where
  "settle_body now sel verbs src ids db =
     (let current = map (\<lambda>w. ei_id (iw_intent w)) (open_rows_of sel verbs (Some src) db)
      in if current \<noteq> sort ids then (db, Inr False)
         else if current = [] then (db, Inr True)
         else (case update_intents (\<lambda>w. ei_id (iw_intent w) \<in> set current \<and> open_row w) (settled_row now) db of
                 (db', n) \<Rightarrow>
                   if n \<noteq> length current then conflict ''emergency intent set changed during settlement'' db'
                   else (db', Inr True)))"

definition sql_settle :: "sql_env \<Rightarrow> string \<Rightarrow> string list \<Rightarrow> string \<Rightarrow> int list \<Rightarrow> journal_db \<Rightarrow> (journal_db, journal_error, bool) outcome" where
  "sql_settle env sel verbs src ids db =
     (if src \<notin> set episode_sources then refuse ''emergency intent source is invalid'' db
      else if \<not> (distinct ids \<and> list_all (\<lambda>n. 1 \<le> n) ids)
      then refuse ''expected emergency intent ids must be unique positive integers'' db
      else if verbs = [] then (db, Inr (ids = []))
      else transaction (se_storage env) (settle_body (se_now env) sel verbs src ids) db)"

fun sql_exec :: "sql_env \<Rightarrow> journal_call \<Rightarrow> journal_db \<Rightarrow> (journal_db, journal_error, journal_reply) outcome" where
  "sql_exec env (Activate a) db = reply_with (\<lambda>(e, new). EpisodeReply e new) (sql_activate_episode env a db)"
| "sql_exec env (RecordTargets e sels) db = reply_with TargetsReply (sql_record_episode_targets env e sels db)"
| "sql_exec env (Deactivate es) db = reply_with (\<lambda>_. Done) (sql_deactivate_episodes env es db)"
| "sql_exec env (Reserve a) db = reply_with (\<lambda>(r, new). IntentReply r new) (sql_reserve env a db)"
| "sql_exec env (Acknowledge n os) db = reply_with (\<lambda>_. Done) (sql_acknowledge env n os db)"
| "sql_exec env (MarkUnknown n) db = reply_with (\<lambda>_. Done) (sql_mark_unknown env n db)"
| "sql_exec env (Release n) db = reply_with (\<lambda>_. Done) (sql_release env n db)"
| "sql_exec env (Settle sel verbs src ns) db = reply_with SettleReply (sql_settle env sel verbs src ns db)"
| "sql_exec env (Unresolved sel verbs src) db = reply_with IntentsReply (sql_unresolved env sel verbs src db)"
| "sql_exec env (BlockingSources sel) db = reply_with SourcesReply (sql_blocking_sources env sel db)"
| "sql_exec env (ActiveEpisodes src) db = reply_with EpisodesReply (sql_active_episodes env src db)"
| "sql_exec env (ActiveEpisode src sel) db = reply_with EpisodeOption (sql_active_episode env src sel db)"

definition sql_view :: "journal_db \<Rightarrow> journal_view" where
  "sql_view db = \<lparr>jv_episodes = map (episode_from_row db) (filter active_row (jd_episodes db)),
     jv_intents = filter (\<lambda>r. ei_state r \<in> set active_intent_states) (map iw_intent (jd_intents db))\<rparr>"

definition sql_numbers :: "journal_db \<Rightarrow> int \<times> int" where
  "sql_numbers db = (jd_episode_seq db + 1, jd_intent_seq db + 1)"

subsection \<open>Invariant of the tables\<close>

definition tables_ok :: "journal_db \<Rightarrow> bool" where
  "tables_ok db \<longleftrightarrow> 0 \<le> jd_episode_seq db \<and> 0 \<le> jd_intent_seq db
     \<and> sorted_wrt (<) (map ew_id (jd_episodes db)) \<and> list_all (\<lambda>w. ew_id w \<le> jd_episode_seq db) (jd_episodes db)
     \<and> distinct (jd_targets db) \<and> list_all (\<lambda>t. fst t \<le> jd_episode_seq db) (jd_targets db)
     \<and> sorted_wrt (<) (map (\<lambda>w. ei_id (iw_intent w)) (jd_intents db))
     \<and> list_all (\<lambda>w. ei_id (iw_intent w) \<le> jd_intent_seq db) (jd_intents db)"

definition sql_good :: "journal_db \<Rightarrow> bool" where
  "sql_good db \<longleftrightarrow> tables_ok db \<and> view_shape (sql_view db)"

text \<open>What the contract asks of the result of a call.\<close>

definition implements :: "journal_db \<Rightarrow> (journal_db, journal_error, journal_reply) outcome
    \<Rightarrow> (journal_view, journal_error, journal_reply) outcome \<Rightarrow> bool" where
  "implements db r sr \<longleftrightarrow> tables_ok (fst r) \<and> (sql_view (fst r) = sql_view db \<or> sql_view (fst r) = fst sr)
     \<and> (snd r \<noteq> Inl StorageError \<longrightarrow> (sql_view (fst r), snd r) = sr)"

definition body_ok :: "journal_db \<Rightarrow> ('a \<Rightarrow> journal_reply) \<Rightarrow> (journal_db, journal_error, 'a) outcome
    \<Rightarrow> (journal_view, journal_error, journal_reply) outcome \<Rightarrow> bool" where
  "body_ok db g r sr = (case r of
       (db', Inl e) \<Rightarrow> sr = (sql_view db, Inl e)
     | (db', Inr x) \<Rightarrow> sr = (sql_view db', Inr (g x)) \<and> tables_ok db')"

lemma transaction_implements:
  assumes "tables_ok db" and "body_ok db g (f db) sr"
  shows "implements db (reply_with g (transaction fl f db)) sr"
  using assms
  by (auto simp: implements_def body_ok_def transaction_def atomically_def reply_with_def split: prod.splits sum.splits storage.splits)

lemma refused_implements: "tables_ok db \<Longrightarrow> implements db (db, r) (sql_view db, r)"
  by (simp add: implements_def)

lemma numbers_from_tables: "tables_ok db \<Longrightarrow> numbers_ok (sql_numbers db) (sql_view db)"
  by (auto simp: numbers_ok_def sql_numbers_def sql_view_def tables_ok_def list_all_iff episode_from_row_def)

lemma sql_view_ok: "sql_good db \<Longrightarrow> view_ok (sql_numbers db) (sql_view db)"
  by (simp add: sql_good_def view_ok_def numbers_from_tables)

lemma find_map_filter: "find P (map f (filter Q xs)) = map_option f (find (\<lambda>x. Q x \<and> P (f x)) xs)"
  by (induction xs) auto

lemma find_cong_pred: "(\<And>x. x \<in> set xs \<Longrightarrow> P x = Q x) \<Longrightarrow> find P xs = find Q xs"
  by (induction xs) auto

lemma episode_row_fields [simp]:
  "ep_id (episode_from_row db w) = ew_id w" "ep_source (episode_from_row db w) = ew_source w"
  "ep_selector (episode_from_row db w) = ew_selector w" "ep_state (episode_from_row db w) = ew_state w"
  "ep_revision (episode_from_row db w) = ew_revision w" "ep_targets (episode_from_row db w) = targets_of db (ew_id w)"
  "ep_session_key (episode_from_row db w) = ew_session_key w"
  by (simp_all add: episode_from_row_def)

lemma active_episode_row_view:
  "find_episode src sel (jv_episodes (sql_view db)) = map_option (episode_from_row db) (active_episode_row src sel db)"
  unfolding find_episode_def sql_view_def active_episode_row_def journal_view.simps find_map_filter
  by (auto intro!: arg_cong [where f = "map_option _"] find_cong_pred)

lemma same_row:
  assumes "tables_ok db" and "w \<in> set (jd_episodes db)" and "x \<in> set (jd_episodes db)" and "ew_id x = ew_id w"
  shows "x = w"
proof -
  have "distinct (map ew_id (jd_episodes db))" using assms(1) by (auto simp: tables_ok_def strict_sorted_iff)
  with assms(2-4) show ?thesis by (auto simp: distinct_map inj_on_def)
qed

lemma same_intent_row:
  assumes "tables_ok db" and "w \<in> set (jd_intents db)" and "x \<in> set (jd_intents db)"
    and "ei_id (iw_intent x) = ei_id (iw_intent w)"
  shows "x = w"
proof -
  have "distinct (map (\<lambda>w. ei_id (iw_intent w)) (jd_intents db))" using assms(1) by (auto simp: tables_ok_def strict_sorted_iff)
  with assms(2-4) show ?thesis by (auto simp: distinct_map inj_on_def)
qed

text \<open>An update that names number and revision of an active row changes this row and no other.\<close>

lemma count_one:
  assumes "x \<in> set xs" and "distinct xs" and "\<And>y. y \<in> set xs \<Longrightarrow> P y \<longleftrightarrow> y = x"
  shows "length (filter P xs) = 1"
proof -
  have "filter P xs = filter (\<lambda>y. y = x) xs" using assms(3) by (auto intro: filter_cong)
  moreover have "length (filter (\<lambda>y. y = x) xs) = count_list xs x"
    by (induction xs) auto
  moreover have "count_list xs x = 1" using assms(1,2) by (induction xs) (auto simp: count_list_0_iff)
  ultimately show ?thesis by simp
qed

lemma rows_distinct: "tables_ok db \<Longrightarrow> distinct (jd_episodes db) \<and> distinct (jd_intents db)"
  by (auto simp: tables_ok_def strict_sorted_iff distinct_map)

lemma update_row:
  assumes ok: "tables_ok db" and w: "w \<in> set (jd_episodes db)" "active_row w"
  shows "update_episodes (at_revision (ew_id w) (ew_revision w)) f db
     = (db\<lparr>jd_episodes := map (\<lambda>x. if x = w then f x else x) (jd_episodes db)\<rparr>, 1)"
proof -
  have iff: "at_revision (ew_id w) (ew_revision w) x \<longleftrightarrow> x = w" if "x \<in> set (jd_episodes db)" for x
    using same_row [OF ok w(1) that] w(2) by (auto simp: at_revision_def)
  then have "length (filter (at_revision (ew_id w) (ew_revision w)) (jd_episodes db)) = 1"
    using w(1) rows_distinct [OF ok] by (intro count_one) auto
  with iff show ?thesis by (auto simp: update_episodes_def intro!: map_cong)
qed

lemma tables_ok_update:
  assumes "tables_ok db" and "\<And>x. ew_id (f x) = ew_id x"
  shows "tables_ok (db\<lparr>jd_episodes := map (\<lambda>x. if P x then f x else x) (jd_episodes db)\<rparr>)"
proof -
  have "map ew_id (map (\<lambda>x. if P x then f x else x) (jd_episodes db)) = map ew_id (jd_episodes db)"
    by (simp add: assms(2))
  then have "sorted_wrt (<) (map ew_id (map (\<lambda>x. if P x then f x else x) (jd_episodes db)))"
    using assms(1) unfolding tables_ok_def by metis
  with assms show ?thesis by (auto simp: tables_ok_def list_all_iff)
qed

lemma view_update_row:
  assumes ok: "tables_ok db" and w: "w \<in> set (jd_episodes db)" "active_row w"
    and f: "ew_id (f w) = ew_id w" "active_row (f w)"
  shows "sql_view (db\<lparr>jd_episodes := map (\<lambda>x. if x = w then f x else x) (jd_episodes db)\<rparr>)
     = replace_episode (episode_from_row db (f w)) (sql_view db)"
proof -
  let ?g = "\<lambda>x. if x = w then f x else x"
  have "filter active_row (map ?g (jd_episodes db)) = map ?g (filter active_row (jd_episodes db))"
    using w(2) f(2) by (induction "jd_episodes db") (auto simp: filter_map o_def intro!: map_cong filter_cong)
  moreover have "map (episode_from_row db) (map ?g (filter active_row (jd_episodes db)))
      = map (\<lambda>e. if ep_id e = ep_id (episode_from_row db (f w)) then episode_from_row db (f w) else e)
          (map (episode_from_row db) (filter active_row (jd_episodes db)))"
    using same_row [OF ok w(1)] f(1) by auto
  moreover have "episode_from_row (db\<lparr>jd_episodes := rows\<rparr>) = episode_from_row db" for rows
    by (auto simp: episode_from_row_def targets_of_def)
  ultimately show ?thesis by (simp add: sql_view_def replace_episode_def)
qed

subsection \<open>Each call implements the contract\<close>

lemma find_unique:
  assumes "x \<in> set xs" and "\<And>y. y \<in> set xs \<Longrightarrow> P y \<longleftrightarrow> y = x"
  shows "find P xs = Some x"
  using assms by (induction xs) auto

lemma activate_implements:
  assumes db: "sql_good db"
  shows "implements db (sql_exec env (Activate a) db) (spec_exec (sql_numbers db) (Activate a) (sql_view db))"
proof (cases "validate_episode_fields a")
  case (Inl e)
  then show ?thesis using refused_implements db by (simp add: sql_activate_episode_def spec_activate_def sql_good_def)
next
  case (Inr u)
  have ok: "tables_ok db" using db by (simp add: sql_good_def)
  have "body_ok db (\<lambda>(e, new). EpisodeReply e new) (activate_body now a db) (spec_exec (sql_numbers db) (Activate a) (sql_view db))" for now
  proof (cases "active_episode_row (er_source a) (er_selector a) db")
    case None
    let ?db = "insert_episode now a db"
    let ?row = "\<lparr>ew_id = jd_episode_seq db + 1, ew_source = er_source a, ew_selector = er_selector a, ew_session_key = er_session_key a,
            ew_reason_hash = er_reason_hash a, ew_state = Episode_active, ew_revision = 1, ew_created_at = now, ew_settled_at = None\<rparr>"
    have rows: "jd_episodes ?db = jd_episodes db @ [?row]" "jd_targets ?db = jd_targets db" "jd_intents ?db = jd_intents db"
      "jd_episode_seq ?db = jd_episode_seq db + 1" "jd_intent_seq ?db = jd_intent_seq db"
      by (simp_all add: insert_episode_def)
    have tables: "tables_ok ?db"
      using ok unfolding tables_ok_def rows by (auto simp: sorted_wrt_append list_all_iff)
    have found: "find (\<lambda>x. ew_id x = jd_episode_seq ?db) (jd_episodes ?db) = Some ?row"
      by (rule find_unique) (use ok in \<open>auto simp: rows tables_ok_def list_all_iff\<close>)
    have "filter (\<lambda>t. fst t = jd_episode_seq db + 1) (jd_targets db) = []"
      using ok by (auto simp: filter_empty_conv tables_ok_def list_all_iff)
    then have "targets_of db (jd_episode_seq db + 1) = []" by (simp add: targets_of_def sort_by_def)
    moreover have targets: "targets_of ?db n = targets_of db n" for n by (simp add: targets_of_def rows)
    then have same: "episode_from_row ?db x = episode_from_row db x" for x
      by (simp add: episode_from_row_def)
    ultimately have new: "episode_from_row ?db ?row = new_episode (jd_episode_seq db + 1) a"
      using targets by (simp add: episode_from_row_def new_episode_def)
    have "sql_view ?db = (sql_view db)\<lparr>jv_episodes := jv_episodes (sql_view db) @ [new_episode (jd_episode_seq db + 1) a]\<rparr>"
      using new same by (simp add: sql_view_def rows)
    with None Inr new tables found show ?thesis
      by (simp add: activate_body_def body_ok_def spec_activate_def active_episode_row_view sql_numbers_def Let_def)
  next
    case (Some w)
    then have w: "w \<in> set (jd_episodes db)" "active_row w"
      by (auto simp: active_episode_row_def find_Some_iff)
    let ?f = "\<lambda>w. w\<lparr>ew_session_key := er_session_key a, ew_reason_hash := er_reason_hash a, ew_revision := ew_revision w + 1\<rparr>"
    let ?db = "db\<lparr>jd_episodes := map (\<lambda>x. if x = w then ?f x else x) (jd_episodes db)\<rparr>"
    have found: "find (\<lambda>x. ew_id x = ew_id w) (jd_episodes ?db) = Some (?f w)"
      by (rule find_unique) (use w same_row [OF ok w(1)] in \<open>auto split: if_splits\<close>)
    have row: "episode_from_row ?db (?f w) = renewed a (episode_from_row db w)"
      "episode_from_row db (?f w) = renewed a (episode_from_row db w)"
      by (simp_all add: episode_from_row_def renewed_def targets_of_def)
    have view: "sql_view ?db = replace_episode (renewed a (episode_from_row db w)) (sql_view db)"
      using view_update_row [OF ok w, of ?f] w(2) row(2) by simp
    have "tables_ok ?db" by (rule tables_ok_update [OF ok]) simp
    then show ?thesis
      using Some Inr found row(1) view update_row [OF ok w, of ?f]
      by (cases "renews a (episode_from_row db w)")
         (auto simp: activate_body_def body_ok_def spec_activate_def active_episode_row_view ok)
  qed
  from transaction_implements [where f = "activate_body (se_now env) a", OF ok this] Inr show ?thesis
    by (simp add: sql_activate_episode_def)
qed

lemma episode_id_view: "sql_active_episode_id src sel db = episode_for src sel (jv_episodes (sql_view db))"
  by (auto simp: sql_active_episode_id_def episode_for_def active_episode_row_view option.map_comp o_def split: option.splits)

lemma open_row_view: "find_intent k (jv_intents (sql_view db)) = map_option iw_intent (open_row_at k db)"
proof -
  have "jv_intents (sql_view db) = map iw_intent (filter open_row (jd_intents db))"
    by (simp add: sql_view_def filter_map o_def)
  then show ?thesis
    unfolding find_intent_def open_row_at_def
    by (simp add: find_map_filter) (auto intro!: arg_cong [where f = "map_option _"] find_cong_pred)
qed

lemma record_of_open:
  assumes "sql_good db" and "w \<in> set (jd_intents db)" and "open_row w"
  shows "record_of w = Inr (iw_intent w)"
proof -
  have "intent_ok (iw_intent w)" using assms by (auto simp: sql_good_def view_shape_def sql_view_def list_all_iff)
  then show ?thesis by (simp add: intent_ok_def record_of_def)
qed

lemma find_append_None: "find P xs = None \<Longrightarrow> find P (xs @ ys) = find P ys"
  by (induction xs) (auto split: if_splits)

lemma sql_view_intents:
  "sql_view (db\<lparr>jd_intents := rows\<rparr>)
     = (sql_view db)\<lparr>jv_intents := filter (\<lambda>r. ei_state r \<in> set active_intent_states) (map iw_intent rows)\<rparr>"
  by (simp add: sql_view_def episode_from_row_def targets_of_def)

lemma reserve_implements:
  assumes db: "sql_good db" and contract: "within_contract (Reserve a) (sql_view db)"
  shows "implements db (sql_exec env (Reserve a) db) (spec_exec (sql_numbers db) (Reserve a) (sql_view db))"
proof (cases "validate_reserve a")
  case (Inl e)
  then show ?thesis using refused_implements db by (simp add: sql_reserve_def spec_reserve_def sql_good_def)
next
  case (Inr u)
  have ok: "tables_ok db" using db by (simp add: sql_good_def)
  let ?e = "episode_for (rq_source a) (rq_selector a) (jv_episodes (sql_view db))"
  have "body_ok db (\<lambda>(r, new). IntentReply r new) (reserve_body now burn a db) (spec_exec (sql_numbers db) (Reserve a) (sql_view db))" for now burn
  proof (cases "open_row_at (intent_key a) db")
    case None
    let ?row = "\<lparr>iw_intent = reserved_intent (jd_intent_seq db + 1) ?e a, iw_created_at = now, iw_acknowledged_at = None, iw_settled_at = None\<rparr>"
    let ?db = "db\<lparr>jd_intent_seq := jd_intent_seq db + 1, jd_intents := jd_intents db @ [?row]\<rparr>"
    have row: "open_row ?row" "key_of (iw_intent ?row) = intent_key a" "record_of ?row = Inr (iw_intent ?row)"
      by (simp_all add: reserved_intent_def active_intent_states_def record_of_def normalise_order_ids_def)
    have "find (\<lambda>w. key_of (iw_intent w) = intent_key a \<and> open_row w) (jd_intents db) = None"
      using None by (simp add: open_row_at_def)
    then have found: "open_row_at (intent_key a) ?db = Some ?row"
      using row unfolding open_row_at_def by (simp add: find_append_None)
    have view: "sql_view ?db = (sql_view db)\<lparr>jv_intents := jv_intents (sql_view db) @ [reserved_intent (jd_intent_seq db + 1) ?e a]\<rparr>"
      using row(1) by (simp add: sql_view_def episode_from_row_def targets_of_def)
    have tables: "tables_ok ?db"
      using ok by (auto simp: tables_ok_def sorted_wrt_append list_all_iff reserved_intent_def)
    have ins: "insert_or_ignore_intent now burn ?e a db = (?db, 1)" using None by (simp add: insert_or_ignore_intent_def)
    show ?thesis
      using None Inr found row(3) tables view
      by (simp add: reserve_body_def body_ok_def spec_reserve_def open_row_view episode_id_view sql_numbers_def Let_def ins conflict_def)
  next
    case (Some w)
    then have w: "w \<in> set (jd_intents db)" "open_row w" by (auto simp: open_row_at_def find_Some_iff)
    have covered: "rq_source a = ''adhoc'' \<or> ?e \<noteq> None" using contract Some by (simp add: open_row_view)
    have "sql_view (db\<lparr>jd_intent_seq := n\<rparr>) = sql_view db" and "open_row_at k (db\<lparr>jd_intent_seq := n\<rparr>) = open_row_at k db" for n k
      by (simp_all add: sql_view_def episode_from_row_def targets_of_def open_row_at_def)
    moreover have "tables_ok (db\<lparr>jd_intent_seq := jd_intent_seq db + 1\<rparr>)"
      using ok by (auto simp: tables_ok_def list_all_iff)
    ultimately show ?thesis
      using Some Inr covered record_of_open [OF db w] ok
      by (auto simp: reserve_body_def body_ok_def spec_reserve_def open_row_view episode_id_view Let_def insert_or_ignore_intent_def)
  qed
  from transaction_implements [where f = "reserve_body (se_now env) (se_burn env) a", OF ok this] Inr show ?thesis
    by (simp add: sql_reserve_def)
qed

lemma reserve_outside:
  assumes "\<not> within_contract (Reserve a) (sql_view db)"
  shows "fst (sql_exec env (Reserve a) db) = db \<and> (\<forall>r b. snd (sql_exec env (Reserve a) db) \<noteq> Inr (IntentReply r b))"
proof (cases "validate_reserve a")
  case (Inr u)
  have "reserve_body now burn a db = conflict ''active emergency episode is required before reservation'' db" for now burn
    using assms by (simp add: reserve_body_def Let_def episode_id_view)
  with Inr show ?thesis by (simp add: sql_reserve_def transaction_def atomically_def conflict_def reply_with_def)
qed (simp add: sql_reserve_def)

lemma change_implements:
  assumes db: "sql_good db" and f: "\<And>w. iw_intent (f w) = g (iw_intent w)"
    and g: "\<And>r. ei_id (g r) = ei_id r" "\<And>r. ei_state (g r) \<in> set active_intent_states"
  shows "implements db (reply_with (\<lambda>_. Done) (transaction fl (change_body n f) db)) (spec_change n g (sql_view db))"
proof (rule transaction_implements)
  show ok: "tables_ok db" using db by (simp add: sql_good_def)
  let ?P = "\<lambda>w. ei_id (iw_intent w) = n \<and> open_row w"
  let ?db = "db\<lparr>jd_intents := map (\<lambda>w. if ?P w then f w else w) (jd_intents db)\<rparr>"
  have ids: "n \<in> set (map ei_id (jv_intents (sql_view db))) \<longleftrightarrow> (\<exists>w \<in> set (jd_intents db). ?P w)"
    by (auto simp: sql_view_def)
  have "length (filter ?P (jd_intents db)) = 1" if "w \<in> set (jd_intents db)" "?P w" for w
  proof (rule count_one)
    show "distinct (jd_intents db)" using rows_distinct [OF ok] by simp
    show "?P y \<longleftrightarrow> y = w" if "y \<in> set (jd_intents db)" for y
      using same_intent_row [OF ok \<open>w \<in> set (jd_intents db)\<close> that] \<open>?P w\<close> by auto
  qed (use that in simp)
  moreover have "filter ?P (jd_intents db) = []" if "\<not> (\<exists>w \<in> set (jd_intents db). ?P w)"
    using that by (auto simp: filter_empty_conv)
  ultimately have count: "length (filter ?P (jd_intents db)) = (if n \<in> set (map ei_id (jv_intents (sql_view db))) then 1 else 0)"
    using ids by auto
  have rows: "map iw_intent (map (\<lambda>w. if ?P w then f w else w) (jd_intents db)) = map (\<lambda>r. if ei_id r = n \<and> ei_state r \<in> set active_intent_states then g r else r) (map iw_intent (jd_intents db))"
    by (simp add: f)
  have filt: "filter (\<lambda>r. ei_state r \<in> set active_intent_states) (map (\<lambda>r. if ei_id r = n \<and> ei_state r \<in> set active_intent_states then g r else r) rs)
      = map (\<lambda>r. if ei_id r = n then g r else r) (filter (\<lambda>r. ei_state r \<in> set active_intent_states) rs)" for rs
    by (induction rs) (auto simp: g(2))
  have view: "sql_view ?db = change_intent n g (sql_view db)"
    unfolding sql_view_intents rows filt by (simp add: change_intent_def sql_view_def)
  have "map (\<lambda>w. ei_id (iw_intent w)) (jd_intents ?db) = map (\<lambda>w. ei_id (iw_intent w)) (jd_intents db)"
    by (simp add: f g(1))
  then have "sorted_wrt (<) (map (\<lambda>w. ei_id (iw_intent w)) (jd_intents ?db))" using ok unfolding tables_ok_def by metis
  moreover have "list_all (\<lambda>w. ei_id (iw_intent w) \<le> jd_intent_seq db) (jd_intents ?db)"
    using ok by (auto simp: tables_ok_def list_all_iff f g(1))
  ultimately have "tables_ok ?db" using ok unfolding tables_ok_def by simp
  with view count show "body_ok db (\<lambda>_. Done) (change_body n f db) (spec_change n g (sql_view db))"
    by (simp add: change_body_def update_intents_def body_ok_def spec_change_def split: if_splits)
qed

subsubsection \<open>Targets\<close>

lemma episode_from_row_rows: "episode_from_row (db\<lparr>jd_episodes := rows\<rparr>) = episode_from_row db"
  by (auto simp: episode_from_row_def targets_of_def)

lemma insert_targets:
  assumes "distinct sels"
  shows "fold (insert_target n) sels (db, k) =
     (db\<lparr>jd_targets := jd_targets db @ map (Pair n) (filter (\<lambda>s. (n, s) \<notin> set (jd_targets db)) sels)\<rparr>,
      k + length (filter (\<lambda>s. (n, s) \<notin> set (jd_targets db)) sels))"
  using assms
proof (induction sels arbitrary: db k)
  case (Cons s sels)
  have "filter (\<lambda>x. (n, x) \<notin> set (jd_targets db @ [(n, s)])) sels = filter (\<lambda>x. (n, x) \<notin> set (jd_targets db)) sels"
    using Cons.prems by (auto intro: filter_cong)
  with Cons show ?case by (simp add: insert_target_def)
qed simp

lemma targets_strict: "tables_ok db \<Longrightarrow> sorted_wrt text_less (targets_of db n)"
  unfolding targets_of_def
  by (rule strict_sort_by [OF text_less_linear text_less_trans])
     (auto simp: tables_ok_def distinct_map inj_on_def)

lemma set_targets: "set (targets_of db n) = {s. (n, s) \<in> set (jd_targets db)}"
  by (force simp: targets_of_def)

lemma set_sorted_set [simp]: "set (sorted_set xs) = set xs"
  by (simp add: sorted_set_def)

lemma sorted_set_unique:
  assumes "sorted_wrt text_less ts" and "set ts = set xs"
  shows "ts = sorted_set xs"
  by (rule strict_sorted_unique [OF text_less_irrefl text_less_trans assms(1) sorted_set_strict])
     (simp_all add: assms(2))

lemma active_row_by_id_Some:
  assumes "tables_ok db"
  shows "active_row_by_id n db = Some w \<longleftrightarrow> w \<in> set (jd_episodes db) \<and> ew_id w = n \<and> active_row w"
proof
  assume w: "w \<in> set (jd_episodes db) \<and> ew_id w = n \<and> active_row w"
  show "active_row_by_id n db = Some w"
    unfolding active_row_by_id_def by (rule find_unique) (use w same_row [OF assms] in auto)
qed (auto simp: active_row_by_id_def find_Some_iff)

lemma row_of_episode:
  assumes "tables_ok db"
  shows "e \<in> set (jv_episodes (sql_view db)) \<longleftrightarrow> map_option (episode_from_row db) (active_row_by_id (ep_id e) db) = Some e"
  using active_row_by_id_Some [OF assms, of "ep_id e"] by (auto simp: sql_view_def)

lemma row_retargeted:
  "ew_id w = n \<Longrightarrow> targets_of db' n = ts
     \<Longrightarrow> episode_from_row db' (w\<lparr>ew_revision := ew_revision w + 1\<rparr>) = retargeted ts (episode_from_row db w)"
  by (simp add: episode_from_row_def retargeted_def)

lemma targets_body_ok:
  assumes db: "sql_good db" and dist: "distinct canonical"
  shows "body_ok db TargetsReply (targets_body x canonical db)
     (if x \<notin> set (jv_episodes (sql_view db))
      then (sql_view db, Inl (EmergencyIntentConflict ''emergency episode changed while targets were recorded''))
      else (let affected = sorted_set (ep_targets x @ canonical)
            in if affected = ep_targets x then (sql_view db, Inr (TargetsReply x))
               else (replace_episode (retargeted affected x) (sql_view db), Inr (TargetsReply (retargeted affected x)))))"
proof (cases "x \<in> set (jv_episodes (sql_view db))")
  case False
  have ok: "tables_ok db" using db by (simp add: sql_good_def)
  from False row_of_episode [OF ok, of x] show ?thesis
    by (auto simp: targets_body_def body_ok_def conflict_def split: option.splits)
next
  case True
  have ok: "tables_ok db" using db by (simp add: sql_good_def)
  from True row_of_episode [OF ok, of x] obtain w where row: "active_row_by_id (ep_id x) db = Some w" "episode_from_row db w = x" by auto
  have w: "w \<in> set (jd_episodes db)" "active_row w" "ew_id w = ep_id x"
    using active_row_by_id_Some [OF ok, of "ep_id x" w] row(1) by auto
  have rev: "ew_revision w = ep_revision x" using row(2) by auto
  let ?new = "filter (\<lambda>s. (ep_id x, s) \<notin> set (jd_targets db)) canonical"
  let ?db1 = "db\<lparr>jd_targets := jd_targets db @ map (Pair (ep_id x)) ?new\<rparr>"
  have ins: "fold (insert_target (ep_id x)) canonical (db, 0) = (?db1, length ?new)"
    using insert_targets [OF dist, of "ep_id x" db 0] by simp
  have ok1: "tables_ok ?db1"
    using ok dist w by (auto simp: tables_ok_def list_all_iff distinct_map inj_on_def)
  have targets: "ep_targets x = targets_of db (ep_id x)" using row(2) w(3) by (metis episode_row_fields(6))
  have affected: "targets_of ?db1 (ep_id x) = sorted_set (ep_targets x @ canonical)"
    by (rule sorted_set_unique [OF targets_strict [OF ok1]]) (auto simp: set_targets targets)
  have grows: "sorted_set (ep_targets x @ canonical) = ep_targets x \<longleftrightarrow> ?new = []"
  proof -
    have "?new = [] \<longleftrightarrow> set (ep_targets x) = set (ep_targets x @ canonical)"
      by (auto simp: filter_empty_conv targets set_targets)
    also have "\<dots> \<longleftrightarrow> ep_targets x = sorted_set (ep_targets x @ canonical)"
    proof
      assume "set (ep_targets x) = set (ep_targets x @ canonical)"
      then show "ep_targets x = sorted_set (ep_targets x @ canonical)"
        using targets_strict [OF ok, of "ep_id x"] targets by (intro sorted_set_unique) simp_all
    next
      assume "ep_targets x = sorted_set (ep_targets x @ canonical)"
      then have "set (ep_targets x) = set (sorted_set (ep_targets x @ canonical))" by (rule arg_cong)
      then show "set (ep_targets x) = set (ep_targets x @ canonical)" by simp
    qed
    finally show ?thesis by auto
  qed
  show ?thesis
  proof (cases "?new = []")
    case True
    then have "?db1 = db" by simp
    with True row ins ok grows \<open>x \<in> set (jv_episodes (sql_view db))\<close> show ?thesis
      by (simp add: targets_body_def body_ok_def)
  next
    case False
    let ?f = "\<lambda>w. w\<lparr>ew_revision := ew_revision w + 1\<rparr>"
    let ?db2 = "?db1\<lparr>jd_episodes := map (\<lambda>y. if y = w then ?f y else y) (jd_episodes db)\<rparr>"
    let ?e = "retargeted (sorted_set (ep_targets x @ canonical)) x"
    have upd: "update_episodes (at_revision (ep_id x) (ep_revision x)) ?f ?db1 = (?db2, 1)"
      using update_row [OF ok1, of w ?f] w rev by simp
    have ok2: "tables_ok ?db2" using tables_ok_update [OF ok1, of ?f] by simp
    have found: "active_row_by_id (ep_id x) ?db2 = Some (?f w)"
      using w by (auto simp: active_row_by_id_Some [OF ok2])
    have at: "targets_of ?db2 n = targets_of ?db1 n" for n by (simp add: targets_of_def)
    have e: "episode_from_row ?db2 (?f w) = ?e" "episode_from_row ?db1 (?f w) = ?e"
      using row_retargeted [of w "ep_id x" ?db2 _ db] row_retargeted [of w "ep_id x" ?db1 _ db] row(2) w(3) affected at by auto
    have "targets_of ?db1 n = targets_of db n" if "n \<noteq> ep_id x" for n
      using that by (simp add: targets_of_def filter_map o_def)
    then have "replace_episode ?e (sql_view ?db1) = replace_episode ?e (sql_view db)"
      by (auto simp: replace_episode_def sql_view_def episode_from_row_def)
    moreover have "sql_view ?db2 = replace_episode ?e (sql_view ?db1)"
      using view_update_row [OF ok1, of w ?f] w e(2) by simp
    ultimately have "sql_view ?db2 = replace_episode ?e (sql_view db)" by simp
    with False row ins upd found e ok2 grows \<open>x \<in> set (jv_episodes (sql_view db))\<close> show ?thesis
      by (simp add: targets_body_def body_ok_def Let_def)
  qed
qed

lemma targets_implement:
  assumes db: "sql_good db"
  shows "implements db (sql_exec env (RecordTargets x sels) db) (spec_exec (sql_numbers db) (RecordTargets x sels) (sql_view db))"
proof (cases "validate_episode_snapshot x")
  case (Inl e)
  then show ?thesis using refused_implements db by (simp add: sql_record_episode_targets_def spec_record_targets_def sql_good_def)
next
  case (Inr u)
  note valid = this
  have ok: "tables_ok db" using db by (simp add: sql_good_def)
  show ?thesis
  proof (cases "normalise_affected_selectors sels")
    case (Inl e)
    with valid show ?thesis using refused_implements [OF ok] by (simp add: sql_record_episode_targets_def spec_record_targets_def)
  next
    case (Inr canonical)
    then have dist: "distinct canonical" by (auto simp: normalise_affected_selectors_def Let_def)
    have "body_ok db TargetsReply (targets_body x canonical db) (spec_exec (sql_numbers db) (RecordTargets x sels) (sql_view db))"
      using targets_body_ok [OF db dist] valid Inr by (simp add: spec_record_targets_def)
    from transaction_implements [where f = "targets_body x canonical", OF ok this] valid Inr show ?thesis
      by (simp add: sql_record_episode_targets_def)
  qed
qed

subsubsection \<open>Resets\<close>

definition settled_episode :: "string \<Rightarrow> episode_row \<Rightarrow> episode_row" where
  "settled_episode now w = w\<lparr>ew_state := Episode_settled, ew_revision := ew_revision w + 1, ew_settled_at := Some now\<rparr>"

lemma settle_all:
  assumes "tables_ok db" and "distinct (map ep_id es)"
    and "\<And>e. e \<in> set es \<Longrightarrow> \<exists>w \<in> set (jd_episodes db). active_row w \<and> ew_id w = ep_id e \<and> ew_revision w = ep_revision e"
  shows "for_each (settle_episode now) es db
     = Inr (db\<lparr>jd_episodes := map (\<lambda>w. if ew_id w \<in> ep_id ` set es \<and> active_row w then settled_episode now w else w) (jd_episodes db)\<rparr>)"
  using assms
proof (induction es arbitrary: db)
  case Nil
  show ?case by simp
next
  case (Cons e es)
  obtain w where w: "w \<in> set (jd_episodes db)" "active_row w" "ew_id w = ep_id e" "ew_revision w = ep_revision e"
    using Cons.prems(3) [of e] by auto
  let ?db = "db\<lparr>jd_episodes := map (\<lambda>x. if x = w then settled_episode now x else x) (jd_episodes db)\<rparr>"
  have f: "(\<lambda>w. w\<lparr>ew_state := Episode_settled, ew_revision := ew_revision w + 1, ew_settled_at := Some now\<rparr>) = settled_episode now"
    by (simp add: settled_episode_def fun_eq_iff)
  have one: "settle_episode now e db = Inr ?db"
    using update_row [OF Cons.prems(1) w(1,2), of "settled_episode now"] w unfolding settle_episode_def f by simp
  have ok: "tables_ok ?db" by (rule tables_ok_update [OF Cons.prems(1)]) (simp add: settled_episode_def)
  have rest: "\<exists>y \<in> set (jd_episodes ?db). active_row y \<and> ew_id y = ep_id x \<and> ew_revision y = ep_revision x" if x: "x \<in> set es" for x
  proof -
    obtain y where y: "y \<in> set (jd_episodes db)" "active_row y" "ew_id y = ep_id x" "ew_revision y = ep_revision x"
      using Cons.prems(3) [of x] x by auto
    have "ep_id x \<noteq> ep_id e" using Cons.prems(2) x by (auto simp: image_iff)
    with y w have "y \<noteq> w" by auto
    with y show ?thesis by (intro bexI [of _ y]) force+
  qed
  have "for_each (settle_episode now) es ?db = Inr (?db\<lparr>jd_episodes :=
      map (\<lambda>w. if ew_id w \<in> ep_id ` set es \<and> active_row w then settled_episode now w else w) (jd_episodes ?db)\<rparr>)"
    using Cons.prems(2) rest by (intro Cons.IH [OF ok]) auto
  moreover have "map (\<lambda>w. if ew_id w \<in> ep_id ` set es \<and> active_row w then settled_episode now w else w) (jd_episodes ?db)
      = map (\<lambda>w. if ew_id w \<in> ep_id ` set (e # es) \<and> active_row w then settled_episode now w else w) (jd_episodes db)"
  proof -
    have "ew_id w \<notin> ep_id ` set es" using Cons.prems(2) w(3) by auto
    moreover have "ew_id x = ep_id e \<longleftrightarrow> x = w" if "x \<in> set (jd_episodes db)" for x
      using same_row [OF Cons.prems(1) w(1) that] w(3) by auto
    ultimately show ?thesis using w(2) by (auto simp: settled_episode_def)
  qed
  ultimately show ?case using one by simp
qed
lemma deactivate_implements:
  assumes db: "sql_good db"
  shows "implements db (sql_exec env (Deactivate es) db) (spec_exec (sql_numbers db) (Deactivate es) (sql_view db))"
proof (cases "es = [] \<or> isl (validate_expected es)")
  case True
  then show ?thesis
    using refused_implements db by (cases "validate_expected es") (auto simp: sql_deactivate_episodes_def spec_deactivate_def sql_good_def)
next
  case False
  then obtain u where valid: "es \<noteq> []" "validate_expected es = Inr u" by (cases "validate_expected es") auto
  have ok: "tables_ok db" using db by (simp add: sql_good_def)
  have dist: "distinct (map ep_id es)" using valid(2) by (auto simp: validate_expected_def)
  have known: "list_all (\<lambda>e. map_option (episode_from_row db) (active_row_by_id (ep_id e) db) = Some e) es
      \<longleftrightarrow> list_all (\<lambda>e. e \<in> set (jv_episodes (sql_view db))) es"
    by (simp add: row_of_episode [OF ok])
  have unsettled: "unsettled_rows src sels db = [] \<longleftrightarrow> unsettled_for src sels (jv_intents (sql_view db)) = []" for src sels
    by (auto simp: unsettled_rows_def unsettled_for_def sql_view_def filter_empty_conv)
  let ?g = "\<lambda>now w. if ew_id w \<in> ep_id ` set es \<and> active_row w then settled_episode now w else w"
  have settles: "for_each (settle_episode now) es db = Inr (db\<lparr>jd_episodes := map (?g now) (jd_episodes db)\<rparr>)"
      and view: "sql_view (db\<lparr>jd_episodes := map (?g now) (jd_episodes db)\<rparr>)
        = (sql_view db)\<lparr>jv_episodes := filter (\<lambda>e. e \<notin> set es) (jv_episodes (sql_view db))\<rparr>"
    if sub: "list_all (\<lambda>e. e \<in> set (jv_episodes (sql_view db))) es" for now
  proof -
    have row: "\<exists>w \<in> set (jd_episodes db). active_row w \<and> episode_from_row db w = e" if "e \<in> set es" for e
      using sub that by (auto simp: list_all_iff sql_view_def)
    have "\<exists>w \<in> set (jd_episodes db). active_row w \<and> ew_id w = ep_id e \<and> ew_revision w = ep_revision e" if "e \<in> set es" for e
      using row [OF that] by auto
    then show "for_each (settle_episode now) es db = Inr (db\<lparr>jd_episodes := map (?g now) (jd_episodes db)\<rparr>)"
      by (rule settle_all [OF ok dist])
    have named: "ew_id w \<in> ep_id ` set es \<longleftrightarrow> episode_from_row db w \<in> set es" if w: "w \<in> set (jd_episodes db)" for w
    proof
      assume "ew_id w \<in> ep_id ` set es"
      then obtain e where e: "e \<in> set es" "ew_id w = ep_id e" by auto
      then obtain w' where "w' \<in> set (jd_episodes db)" "episode_from_row db w' = e" using row by blast
      moreover from this e(2) have "w' = w" using same_row [OF ok w] by auto
      ultimately show "episode_from_row db w \<in> set es" using e(1) by simp
    qed (metis episode_row_fields(1) image_eqI)
    have "filter active_row (map (?g now) rows) = filter (\<lambda>w. active_row w \<and> ew_id w \<notin> ep_id ` set es) rows" for rows
      by (induction rows) (auto simp: settled_episode_def)
    then have "map (episode_from_row db) (filter active_row (map (?g now) (jd_episodes db)))
        = map (episode_from_row db) (filter (\<lambda>w. active_row w \<and> episode_from_row db w \<notin> set es) (jd_episodes db))"
      using named by (auto intro!: arg_cong [where f = "map _"] filter_cong)
    also have "\<dots> = filter (\<lambda>e. e \<notin> set es) (map (episode_from_row db) (filter active_row (jd_episodes db)))"
      by (simp add: filter_map o_def conj_commute)
    finally show "sql_view (db\<lparr>jd_episodes := map (?g now) (jd_episodes db)\<rparr>)
        = (sql_view db)\<lparr>jv_episodes := filter (\<lambda>e. e \<notin> set es) (jv_episodes (sql_view db))\<rparr>"
      by (simp add: sql_view_def episode_from_row_rows)
  qed
  have tables: "tables_ok (db\<lparr>jd_episodes := map (?g now) (jd_episodes db)\<rparr>)" for now
    by (rule tables_ok_update [OF ok]) (simp add: settled_episode_def)
  have "body_ok db (\<lambda>_. Done) (deactivate_body now es db) (spec_exec (sql_numbers db) (Deactivate es) (sql_view db))" for now
  proof (cases "list_all (\<lambda>e. e \<in> set (jv_episodes (sql_view db))) es")
    case True
    from valid tables settles [OF True] view [OF True] True show ?thesis
      unfolding deactivate_body_def known unsettled by (simp add: body_ok_def spec_deactivate_def conflict_def)
  next
    case False
    with valid show ?thesis
      unfolding deactivate_body_def known by (simp add: body_ok_def spec_deactivate_def conflict_def)
  qed
  from transaction_implements [where f = "deactivate_body (se_now env) es", OF ok this] valid show ?thesis
    by (simp add: sql_deactivate_episodes_def)
qed

subsubsection \<open>Releases, settlements and queries\<close>

lemma tables_ok_intents:
  assumes "tables_ok db" and "sorted_wrt (<) (map (\<lambda>w. ei_id (iw_intent w)) rows)"
    and "\<And>w. w \<in> set rows \<Longrightarrow> ei_id (iw_intent w) \<le> jd_intent_seq db"
  shows "tables_ok (db\<lparr>jd_intents := rows\<rparr>)"
  using assms by (auto simp: tables_ok_def list_all_iff)

lemma release_effect:
  fixes n :: int
  assumes ok: "tables_ok db"
  defines "db' \<equiv> db\<lparr>jd_intents := filter (\<lambda>w. \<not> (ei_id (iw_intent w) = n \<and> ei_state (iw_intent w) = Reserved)) (jd_intents db)\<rparr>"
  shows "tables_ok db'"
    and "sql_view db' = (sql_view db)\<lparr>jv_intents := filter (\<lambda>r. \<not> (ei_id r = n \<and> ei_state r = Reserved)) (jv_intents (sql_view db))\<rparr>"
proof -
  show "tables_ok db'"
    unfolding db'_def using ok
    by (intro tables_ok_intents) (auto simp: tables_ok_def list_all_iff sorted_wrt_map intro: sorted_wrt_filter)
  show "sql_view db' = (sql_view db)\<lparr>jv_intents := filter (\<lambda>r. \<not> (ei_id r = n \<and> ei_state r = Reserved)) (jv_intents (sql_view db))\<rparr>"
    unfolding db'_def sql_view_intents by (simp add: sql_view_def filter_map o_def conj_commute)
qed

lemma release_implements:
  assumes db: "sql_good db" and contract: "within_contract (Release n) (sql_view db)"
  shows "implements db (sql_exec env (Release n) db) (spec_exec (sql_numbers db) (Release n) (sql_view db))"
proof -
  have ok: "tables_ok db" using db by (simp add: sql_good_def)
  have "filter (\<lambda>r. \<not> (ei_id r = n \<and> ei_state r = Reserved)) (jv_intents (sql_view db))
      = filter (\<lambda>r. ei_id r \<noteq> n) (jv_intents (sql_view db))"
    using contract by (auto simp: list_all_iff intro!: filter_cong)
  with release_effect [OF ok, of n] show ?thesis
    unfolding sql_exec.simps sql_release_def
    by (intro transaction_implements [OF ok]) (simp add: body_ok_def spec_release_def)
qed

lemma release_outside:
  assumes db: "sql_good db" and "\<not> within_contract (Release n) (sql_view db)"
  shows "tables_ok (fst (sql_exec env (Release n) db)) \<and> sql_view (fst (sql_exec env (Release n) db)) = sql_view db"
proof -
  have ok: "tables_ok db" using db by (simp add: sql_good_def)
  obtain r where r: "r \<in> set (jv_intents (sql_view db))" "ei_id r = n" "ei_state r \<noteq> Reserved"
    using assms(2) by (auto simp: list_all_iff)
  have "distinct (map ei_id (jv_intents (sql_view db)))" using db view_distinct(2) by (auto simp: sql_good_def)
  then have "x = r" if "x \<in> set (jv_intents (sql_view db))" "ei_id x = n" for x
    using r(1,2) that by (auto simp: distinct_map inj_on_def)
  then have "filter (\<lambda>r. \<not> (ei_id r = n \<and> ei_state r = Reserved)) (jv_intents (sql_view db)) = jv_intents (sql_view db)"
    using r(3) by (intro filter_True) auto
  with release_effect [OF ok, of n] ok show ?thesis
    by (cases "se_storage env") (simp_all add: sql_release_def transaction_def atomically_def)
qed

lemma open_rows_view: "map iw_intent (open_rows_of sel verbs src db) = intents_of sel verbs src (jv_intents (sql_view db))"
  by (auto simp: open_rows_of_def intents_of_def sql_view_def filter_map o_def conj_commute intro!: arg_cong [where f = "map _"] filter_cong)

lemma open_rows_subset: "w \<in> set (open_rows_of sel verbs src db) \<Longrightarrow> w \<in> set (jd_intents db) \<and> open_row w"
  by (auto simp: open_rows_of_def)

lemma records_of_open:
  assumes "sql_good db" and "\<And>w. w \<in> set ws \<Longrightarrow> w \<in> set (jd_intents db) \<and> open_row w"
  shows "records_of ws = Inr (map iw_intent ws)"
  using assms(2) by (induction ws) (auto simp: record_of_open [OF assms(1)])

lemma sorted_ids_eq:
  assumes "sorted_wrt (<) xs" and "distinct (ys :: int list)"
  shows "xs = sort ys \<longleftrightarrow> set xs = set ys"
  using assms by (auto simp: strict_sorted_iff sorted_distinct_set_unique)

lemma settle_body_ok:
  fixes sel src :: string and verbs :: "string list"
  assumes db: "sql_good db" and dist: "distinct ids"
  defines "matching \<equiv> map ei_id (intents_of sel verbs (Some src) (jv_intents (sql_view db)))"
  shows "body_ok db SettleReply (settle_body now sel verbs src ids db)
     (if set matching \<noteq> set ids then (sql_view db, Inr (SettleReply False))
      else ((sql_view db)\<lparr>jv_intents := filter (\<lambda>r. ei_id r \<notin> set matching) (jv_intents (sql_view db))\<rparr>, Inr (SettleReply True)))"
proof -
  have ok: "tables_ok db" using db by (simp add: sql_good_def)
  let ?ws = "open_rows_of sel verbs (Some src) db"
  have current: "map (\<lambda>w. ei_id (iw_intent w)) ?ws = matching"
    unfolding matching_def open_rows_view [symmetric] by simp
  have "sorted_wrt (<) (map ei_id (jv_intents (sql_view db)))" using db by (simp add: sql_good_def view_shape_def)
  then have "sorted_wrt (<) matching" unfolding matching_def intents_of_def by (auto simp: sorted_wrt_map intro: sorted_wrt_filter)
  from sorted_ids_eq [OF this dist] have eq: "matching = sort ids \<longleftrightarrow> set matching = set ids" .
  let ?P = "\<lambda>w. ei_id (iw_intent w) \<in> set matching \<and> open_row w"
  have rows: "filter ?P (jd_intents db) = ?ws"
  proof -
    have "?P w \<longleftrightarrow> w \<in> set ?ws" if w: "w \<in> set (jd_intents db)" for w
    proof
      assume "?P w"
      then obtain x where x: "x \<in> set ?ws" "ei_id (iw_intent w) = ei_id (iw_intent x)"
        unfolding current [symmetric] by auto
      with same_intent_row [OF ok _ w, of x] open_rows_subset [OF x(1)] show "w \<in> set ?ws" by simp
    next
      assume "w \<in> set ?ws"
      with open_rows_subset [OF this] show "?P w" unfolding current [symmetric] by auto
    qed
    then have "filter ?P (jd_intents db) = filter (\<lambda>w. w \<in> set ?ws) (jd_intents db)" by (intro filter_cong) simp_all
    also have "\<dots> = ?ws" unfolding open_rows_of_def by (intro filter_cong) simp_all
    finally show ?thesis .
  qed
  let ?db = "db\<lparr>jd_intents := map (\<lambda>w. if ?P w then settled_row now w else w) (jd_intents db)\<rparr>"
  have id: "ei_id (iw_intent (settled_row now w)) = ei_id (iw_intent w)" for w by (simp add: settled_row_def)
  have "tables_ok ?db"
  proof (rule tables_ok_intents [OF ok])
    have "map (\<lambda>w. ei_id (iw_intent w)) (map (\<lambda>w. if ?P w then settled_row now w else w) (jd_intents db)) = map (\<lambda>w. ei_id (iw_intent w)) (jd_intents db)"
      by (simp add: id)
    then show "sorted_wrt (<) (map (\<lambda>w. ei_id (iw_intent w)) (map (\<lambda>w. if ?P w then settled_row now w else w) (jd_intents db)))"
      using ok unfolding tables_ok_def by metis
  qed (use ok in \<open>auto simp: tables_ok_def list_all_iff id\<close>)
  moreover have "filter (\<lambda>r. ei_state r \<in> set active_intent_states) (map iw_intent (map (\<lambda>w. if ?P w then settled_row now w else w) ws))
      = filter (\<lambda>r. ei_id r \<notin> set matching) (filter (\<lambda>r. ei_state r \<in> set active_intent_states) (map iw_intent ws))" for ws
    by (induction ws) (auto simp: settled_row_def active_intent_states_def)
  then have "sql_view ?db = (sql_view db)\<lparr>jv_intents := filter (\<lambda>r. ei_id r \<notin> set matching) (jv_intents (sql_view db))\<rparr>"
    unfolding sql_view_intents by (simp add: sql_view_def)
  moreover have len: "length ?ws = length matching" using arg_cong [OF current, of length] by simp
  have upd: "update_intents ?P (settled_row now) db = (?db, length matching)"
    by (simp only: update_intents_def rows len)
  have "settle_body now sel verbs src ids db =
      (if set matching \<noteq> set ids then (db, Inr False) else if matching = [] then (db, Inr True) else (?db, Inr True))"
    unfolding settle_body_def Let_def current eq upd by simp
  moreover have "matching = [] \<Longrightarrow> (sql_view db)\<lparr>jv_intents := filter (\<lambda>r. ei_id r \<notin> set matching) (jv_intents (sql_view db))\<rparr> = sql_view db"
    by simp
  ultimately show ?thesis
    using ok by (auto simp: body_ok_def)
qed

lemma settle_implements:
  assumes db: "sql_good db" and contract: "within_contract (Settle sel verbs src ids) (sql_view db)"
  shows "implements db (sql_exec env (Settle sel verbs src ids) db) (spec_exec (sql_numbers db) (Settle sel verbs src ids) (sql_view db))"
proof -
  have ok: "tables_ok db" using db by (simp add: sql_good_def)
  have dist: "distinct ids" "list_all (\<lambda>n. 1 \<le> n) ids" using contract by simp_all
  let ?spec = "\<lambda>matching. if set matching \<noteq> set ids then (sql_view db, Inr (SettleReply False))
      else ((sql_view db)\<lparr>jv_intents := filter (\<lambda>r. ei_id r \<notin> set matching) (jv_intents (sql_view db))\<rparr>, Inr (SettleReply True))"
  show ?thesis
  proof (cases "src \<in> set episode_sources")
    case True
    then have spec: "spec_exec (sql_numbers db) (Settle sel verbs src ids) (sql_view db)
        = ?spec (map ei_id (intents_of sel verbs (Some src) (jv_intents (sql_view db))))"
      by (simp add: spec_settle_def Let_def)
    show ?thesis
    proof (cases "verbs = []")
      case True
      then have "spec_exec (sql_numbers db) (Settle sel verbs src ids) (sql_view db) = (sql_view db, Inr (SettleReply (ids = [])))"
        unfolding spec by (simp add: intents_of_def)
      with True \<open>src \<in> set episode_sources\<close> dist refused_implements [OF ok] show ?thesis by (simp add: sql_settle_def)
    next
      case False
      then have call: "sql_exec env (Settle sel verbs src ids) db
          = reply_with SettleReply (transaction (se_storage env) (settle_body (se_now env) sel verbs src ids) db)"
        using dist \<open>src \<in> set episode_sources\<close> by (simp add: sql_settle_def)
      show ?thesis unfolding call spec by (rule transaction_implements [OF ok]) (rule settle_body_ok [OF db dist(1)])
    qed
  next
    case False
    then show ?thesis using refused_implements [OF ok] by (simp add: sql_settle_def spec_settle_def)
  qed
qed

lemma read_implements:
  assumes "tables_ok db" and "map_sum id g (h db) = Inr y"
  shows "implements db (reply_with g (transaction fl (\<lambda>db. (db, h db)) db)) (sql_view db, Inr y)"
  using assms(2) by (intro transaction_implements [OF assms(1)]) (cases "h db"; simp add: body_ok_def assms(1))

lemma queries_implement:
  assumes db: "sql_good db"
  shows "within_contract (Unresolved sel verbs src) (sql_view db)
      \<Longrightarrow> implements db (sql_exec env (Unresolved sel verbs src) db) (spec_exec (sql_numbers db) (Unresolved sel verbs src) (sql_view db))"
    and "implements db (sql_exec env (BlockingSources sel) db) (spec_exec (sql_numbers db) (BlockingSources sel) (sql_view db))"
    and "implements db (sql_exec env (ActiveEpisodes src) db) (spec_exec (sql_numbers db) (ActiveEpisodes src) (sql_view db))"
    and "implements db (sql_exec env (ActiveEpisode s sel) db) (spec_exec (sql_numbers db) (ActiveEpisode s sel) (sql_view db))"
proof -
  have ok: "tables_ok db" using db by (simp add: sql_good_def)
  note same = refused_implements [OF ok]
  note read = read_implements [OF ok, where fl = "se_storage env"]
  have records: "records_of (open_rows_of sel verbs src db) = Inr (intents_of sel verbs src (jv_intents (sql_view db)))"
    using records_of_open [OF db open_rows_subset] by (simp add: open_rows_view)
  have sources: "set (map ew_source (filter (\<lambda>w. active_row w \<and> (ew_selector w = ''*'' \<or> ew_selector w = sel)) (jd_episodes db)))
      = blocking_in sel (jv_episodes (sql_view db))"
    by (force simp: blocking_in_def sql_view_def)
  have episodes: "map (episode_from_row db) (filter (\<lambda>w. active_row w \<and> (case src of None \<Rightarrow> True | Some s \<Rightarrow> ew_source w = s)) (jd_episodes db))
      = filter (\<lambda>e. case src of None \<Rightarrow> True | Some s \<Rightarrow> ep_source e = s) (jv_episodes (sql_view db))"
    by (auto simp: sql_view_def filter_map o_def conj_commute intro!: arg_cong [where f = "map _"] filter_cong split: option.splits)
  have "intents_of sel [] src rs = []" for rs by (simp add: intents_of_def)
  then show "implements db (sql_exec env (Unresolved sel verbs src) db) (spec_exec (sql_numbers db) (Unresolved sel verbs src) (sql_view db))"
    if "within_contract (Unresolved sel verbs src) (sql_view db)"
    using that same read [where h = "\<lambda>db. records_of (open_rows_of sel verbs src db)" and g = IntentsReply] records
    by (auto simp: sql_unresolved_def split: option.splits)
  show "implements db (sql_exec env (BlockingSources sel) db) (spec_exec (sql_numbers db) (BlockingSources sel) (sql_view db))"
    using same by (simp add: sql_blocking_sources_def) (intro impI read, simp add: sources [simplified])
  show "implements db (sql_exec env (ActiveEpisodes src) db) (spec_exec (sql_numbers db) (ActiveEpisodes src) (sql_view db))"
  proof (cases "case src of None \<Rightarrow> False | Some s \<Rightarrow> s \<notin> {''l5'', ''mtm''}")
    case False
    then show ?thesis
      by (simp only: sql_exec.simps sql_active_episodes_def spec_exec.simps if_False) (rule read, simp only: map_sum.simps episodes)
  next
    case True
    then show ?thesis by (simp only: sql_exec.simps sql_active_episodes_def spec_exec.simps if_True reply_with_simps same)
  qed
  show "implements db (sql_exec env (ActiveEpisode s sel) db) (spec_exec (sql_numbers db) (ActiveEpisode s sel) (sql_view db))"
    using same by (auto simp: sql_active_episode_def active_episode_row_view intro!: read)
qed

subsection \<open>The durable journal as an instance of the contract\<close>

lemma sql_exec_implements:
  assumes db: "sql_good db" and c: "within_contract c (sql_view db)"
  shows "implements db (sql_exec env c db) (spec_exec (sql_numbers db) c (sql_view db))"
proof (cases c)
  case (Acknowledge n os)
  have "implements db (reply_with (\<lambda>_. Done) (transaction (se_storage env)
      (change_body n (\<lambda>w. w\<lparr>iw_intent := acknowledged os' (iw_intent w), iw_acknowledged_at := Some (se_now env)\<rparr>)) db))
      (spec_change n (acknowledged os') (sql_view db))" for os'
    by (rule change_implements [OF db]) (simp_all add: active_intent_states_def)
  with Acknowledge db show ?thesis
    using refused_implements by (cases "normalise_order_ids os") (simp_all add: sql_acknowledge_def sql_good_def)
next
  case (MarkUnknown n)
  have "implements db (reply_with (\<lambda>_. Done) (transaction (se_storage env)
      (change_body n (\<lambda>w. w\<lparr>iw_intent := unknown_outcome (iw_intent w)\<rparr>)) db)) (spec_change n unknown_outcome (sql_view db))"
    by (rule change_implements [OF db]) (simp_all add: active_intent_states_def)
  with MarkUnknown show ?thesis by (simp add: sql_mark_unknown_def)
qed (use c in \<open>simp_all only: activate_implements [OF db] targets_implement [OF db] deactivate_implements [OF db]
    reserve_implements [OF db] release_implements [OF db] settle_implements [OF db] queries_implement [OF db]\<close>)

lemma sql_exec_outside:
  assumes db: "sql_good db" and c: "\<not> within_contract c (sql_view db)"
  shows "tables_ok (fst (sql_exec env c db)) \<and> sql_view (fst (sql_exec env c db)) = sql_view db"
proof (cases c)
  case (Reserve a)
  with reserve_outside [of a db env] c db show ?thesis by (simp add: sql_good_def)
next
  case (Release n)
  with release_outside [OF db, of n env] c show ?thesis by simp
next
  case (Settle sel verbs src ids)
  with c db show ?thesis by (simp add: sql_settle_def sql_good_def)
next
  case (Unresolved sel verbs src)
  with c db show ?thesis by (simp add: sql_unresolved_def sql_good_def)
qed (use c in simp_all)

lemma sql_effect:
  assumes "sql_good db"
  shows "sql_view (fst (sql_exec env c db)) = sql_view db
     \<or> sql_view (fst (sql_exec env c db)) = fst (spec_exec (sql_numbers db) c (sql_view db))"
  using sql_exec_implements [OF assms, of c env] sql_exec_outside [OF assms, of c env]
  by (cases "within_contract c (sql_view db)") (auto simp: implements_def)

lemma sql_good_exec:
  assumes db: "sql_good db"
  shows "sql_good (fst (sql_exec env c db))"
proof -
  have "tables_ok (fst (sql_exec env c db))"
    using sql_exec_implements [OF db, of c env] sql_exec_outside [OF db, of c env]
    by (cases "within_contract c (sql_view db)") (auto simp: implements_def)
  moreover have "view_shape (sql_view (fst (sql_exec env c db)))"
    using sql_effect [OF db, of env c] shape_exec [OF sql_view_ok [OF db], of c] db by (auto simp: sql_good_def)
  ultimately show ?thesis by (simp add: sql_good_def)
qed

interpretation sql: intent_journal sql_exec sql_view sql_numbers sql_good
proof
  fix s env c
  assume s: "sql_good s"
  show "view_ok (sql_numbers s) (sql_view s)" by (rule sql_view_ok [OF s])
  show "sql_good (fst (sql_exec env c s))" by (rule sql_good_exec [OF s])
  show "sql_view (fst (sql_exec env c s)) = sql_view s
      \<or> sql_view (fst (sql_exec env c s)) = fst (spec_exec (sql_numbers s) c (sql_view s))"
    by (rule sql_effect [OF s])
  assume "within_contract c (sql_view s)" "snd (sql_exec env c s) \<noteq> Inl StorageError"
  then show "(sql_view (fst (sql_exec env c s)), snd (sql_exec env c s)) = spec_exec (sql_numbers s) c (sql_view s)"
    using sql_exec_implements [OF s, of c env] by (simp add: implements_def)
next
  fix s env a r
  assume s: "sql_good s" and new: "snd (sql_exec env (Reserve a) s) = Inr (IntentReply r True)"
  show "within_contract (Reserve a) (sql_view s)"
    using reserve_outside [of a s env] new by blast
qed

lemma sql_good_new: "sql_good sql_new"
  by (simp add: sql_good_def sql_new_def tables_ok_def view_shape_def sql_view_def)

end
