(* ===== verification/Journal_Properties.thy ===== *)
theory Journal_Properties
  imports Sqlite_Journal
begin

text \<open>
  What the emergency dispatcher gets from the durable journal, over every run and every schedule
  of storage failures, and the agreement of the two journals.
\<close>

subsection \<open>The two journals answer alike\<close>

fun replies :: "('env \<Rightarrow> journal_call \<Rightarrow> 's \<Rightarrow> ('s, journal_error, journal_reply) outcome) \<Rightarrow> ('env \<times> journal_call) list
    \<Rightarrow> 's \<Rightarrow> (journal_error + journal_reply) list" where
  "replies exec [] s = []"
| "replies exec (x # xs) s = snd (exec (fst x) (snd x) s) # replies exec xs (fst (exec (fst x) (snd x) s))"

fun obeys :: "journal_call list \<Rightarrow> memory_journal \<Rightarrow> bool" where
  "obeys [] m = True"
| "obeys (c # cs) m = (within_contract c (mem_view m) \<and> obeys cs (fst (mem_exec () c m)))"

definition healthy :: "sql_env \<Rightarrow> bool" where
  "healthy env \<longleftrightarrow> se_storage env = Works \<and> \<not> se_burn env"

text \<open>A new row takes the next number; nothing else does.\<close>

definition numbers_after :: "journal_error + journal_reply \<Rightarrow> int \<times> int \<Rightarrow> int \<times> int" where
  "numbers_after reply ids =
     (case reply of
        Inr (EpisodeReply e True) \<Rightarrow> (fst ids + 1, snd ids)
      | Inr (IntentReply r True) \<Rightarrow> (fst ids, snd ids + 1)
      | _ \<Rightarrow> ids)"

lemma numbers_after_simps [simp]:
  "numbers_after (Inl e) ids = ids" "numbers_after (Inr (EpisodeReply x new)) ids = (if new then (fst ids + 1, snd ids) else ids)"
  "numbers_after (Inr (IntentReply r new)) ids = (if new then (fst ids, snd ids + 1) else ids)"
  "numbers_after (Inr (TargetsReply x)) ids = ids" "numbers_after (Inr Done) ids = ids" "numbers_after (Inr (SettleReply b)) ids = ids"
  "numbers_after (Inr (IntentsReply rs)) ids = ids" "numbers_after (Inr (SourcesReply S)) ids = ids"
  "numbers_after (Inr (EpisodesReply es)) ids = ids" "numbers_after (Inr (EpisodeOption eo)) ids = ids"
  by (simp_all add: numbers_after_def)

lemma after_split: "P (after r s f) \<longleftrightarrow> (\<forall>e. r = Inl e \<longrightarrow> P (s, Inl e)) \<and> (\<forall>x. r = Inr x \<longrightarrow> P (f x))"
  by (cases r) simp_all

lemma mem_numbers_exec: "mem_numbers (fst (mem_exec u c m)) = numbers_after (snd (mem_exec u c m)) (mem_numbers m)"
proof (cases c)
  case (Activate a)
  then show ?thesis
    by (auto simp: mem_activate_episode_def mem_numbers_def Let_def reply_with_def split: after_split option.splits)
next
  case (RecordTargets e sels)
  then show ?thesis
    by (auto simp: mem_record_episode_targets_def mem_numbers_def Let_def reply_with_def split: after_split option.splits)
next
  case (Deactivate es)
  then show ?thesis
    by (auto simp: mem_deactivate_episodes_def mem_numbers_def reply_with_def split: after_split)
next
  case (Reserve a)
  then show ?thesis
    by (auto simp: mem_reserve_def mem_numbers_def Let_def reply_with_def split: after_split option.splits)
qed (auto simp: mem_acknowledge_def mem_mark_unknown_def mem_change_def mem_release_def mem_settle_def mem_unresolved_def
    mem_blocking_sources_def mem_active_episodes_def mem_active_episode_def mem_numbers_def Let_def reply_with_def
    split: after_split option.splits)

lemma for_each_seq:
  "for_each (settle_episode now) es db = Inr db' \<Longrightarrow> jd_episode_seq db' = jd_episode_seq db \<and> jd_intent_seq db' = jd_intent_seq db"
  by (induction es arbitrary: db) (auto simp: settle_episode_def update_episodes_def split: if_splits)

lemma insert_targets_seq:
  "fold (insert_target n) sels (db, k) = (db', k') \<Longrightarrow> jd_episode_seq db' = jd_episode_seq db \<and> jd_intent_seq db' = jd_intent_seq db"
  by (induction sels arbitrary: db k) (auto simp: insert_target_def split: if_splits)

lemma transaction_works: "transaction Works f db = (if isl (snd (f db)) then (db, snd (f db)) else f db)"
  by (auto simp: transaction_def atomically_def split: prod.splits sum.splits)

lemma bind_res_split: "P (bind_res r f) \<longleftrightarrow> (\<forall>e. r = Inl e \<longrightarrow> P (Inl e)) \<and> (\<forall>x. r = Inr x \<longrightarrow> P (f x))"
  by (cases r) simp_all

lemma sql_numbers_exec:
  assumes "healthy env"
  shows "sql_numbers (fst (sql_exec env c db)) = numbers_after (snd (sql_exec env c db)) (sql_numbers db)"
proof -
  have w: "se_storage env = Works" "\<not> se_burn env" using assms by (simp_all add: healthy_def)
  show ?thesis
  proof (cases c)
    case (Activate a)
    then show ?thesis
      by (auto simp: sql_activate_episode_def w transaction_works activate_body_def sql_numbers_def Let_def reply_with_def conflict_def
          insert_episode_def update_episodes_def split: after_split option.splits)
  next
    case (RecordTargets e sels)
    then show ?thesis
      by (auto simp: sql_record_episode_targets_def w transaction_works targets_body_def sql_numbers_def reply_with_def conflict_def
          update_episodes_def dest: insert_targets_seq split: after_split option.splits prod.splits)
  next
    case (Deactivate es)
    then show ?thesis
      by (auto simp: sql_deactivate_episodes_def w transaction_works deactivate_body_def sql_numbers_def reply_with_def conflict_def
          dest: for_each_seq split: after_split sum.splits)
  next
    case (Reserve a)
    then show ?thesis
      by (auto simp: sql_reserve_def w transaction_works reserve_body_def sql_numbers_def Let_def reply_with_def conflict_def
          insert_or_ignore_intent_def split: after_split bind_res_split option.splits)
  next
    case (Settle sel verbs src ns)
    then show ?thesis
      by (auto simp: sql_settle_def w transaction_works settle_body_def sql_numbers_def Let_def reply_with_def conflict_def
          update_intents_def)
  next
    case (Unresolved sel verbs src)
    then show ?thesis
      by (cases "records_of (open_rows_of sel verbs src db)")
         (auto simp: sql_unresolved_def w transaction_works sql_numbers_def reply_with_def split: option.splits)
  qed (auto simp: sql_acknowledge_def sql_mark_unknown_def sql_release_def sql_blocking_sources_def sql_active_episodes_def
      sql_active_episode_def change_body_def update_intents_def w transaction_works sql_numbers_def reply_with_def split: after_split option.splits)
qed


lemma validation_errors:
  "validate_episode_fields a \<noteq> Inl StorageError" "validate_episode_snapshot e \<noteq> Inl StorageError"
  "normalise_affected_selectors sels \<noteq> Inl StorageError" "validate_reserve q \<noteq> Inl StorageError"
  "normalise_order_ids os \<noteq> Inl StorageError" "renews a e \<noteq> Inl StorageError"
  by (auto simp: validate_episode_fields_def validate_episode_snapshot_def normalise_affected_selectors_def validate_reserve_def
      validate_record_fields_def validate_optional_token_def normalise_order_ids_def renews_def session_after_def Let_def require_def
      split: bind_res_split option.splits)

lemma expected_errors: "validate_expected es \<noteq> Inl StorageError"
proof -
  have "for_each (\<lambda>e _. validate_episode_snapshot e) es u \<noteq> Inl StorageError" for u
  proof (induction es arbitrary: u)
    case (Cons e es)
    then show ?case using validation_errors(2) [of e] by (cases "validate_episode_snapshot e") auto
  qed simp
  then show ?thesis by (auto simp: validate_expected_def require_def split: bind_res_split)
qed

lemma settle_errors: "for_each (settle_episode now) es db \<noteq> Inl StorageError"
proof (induction es arbitrary: db)
  case (Cons e es)
  have "settle_episode now e db \<noteq> Inl StorageError" by (simp add: settle_episode_def split: prod.splits)
  with Cons show ?case by (cases "settle_episode now e db") auto
qed simp

lemma record_errors: "record_of w \<noteq> Inl StorageError" "records_of ws \<noteq> Inl StorageError"
proof -
  show "record_of w \<noteq> Inl StorageError" for w
    using validation_errors(5) by (auto simp: record_of_def split: bind_res_split)
  then show "records_of ws \<noteq> Inl StorageError" by (induction ws) (auto split: bind_res_split)
qed

lemma map_sum_storage [simp]: "map_sum id g r = Inl StorageError \<longleftrightarrow> r = Inl StorageError"
  by (cases r) simp_all

text \<open>Storage that works never shows up as a failure.\<close>

lemma healthy_storage:
  assumes "healthy env"
  shows "snd (sql_exec env c db) \<noteq> Inl StorageError"
proof -
  have w: "se_storage env = Works" using assms by (simp add: healthy_def)
  note errs = validation_errors expected_errors settle_errors record_errors
  show ?thesis
  proof (cases c)
    case (Activate a)
    then show ?thesis using errs
      by (auto simp: sql_activate_episode_def w transaction_works activate_body_def Let_def reply_with_def conflict_def
          split: after_split option.splits prod.splits)
  next
    case (RecordTargets e sels)
    then show ?thesis using errs
      by (auto simp: sql_record_episode_targets_def w transaction_works targets_body_def reply_with_def conflict_def
          split: after_split option.splits prod.splits)
  next
    case (Deactivate es)
    then show ?thesis using errs
      by (auto simp: sql_deactivate_episodes_def w transaction_works deactivate_body_def reply_with_def conflict_def
          split: after_split sum.splits)
  next
    case (Reserve a)
    then show ?thesis using errs
      by (auto simp: sql_reserve_def w transaction_works reserve_body_def Let_def reply_with_def conflict_def
          split: after_split bind_res_split option.splits prod.splits)
  next
    case (Settle sel verbs src ns)
    then show ?thesis
      by (auto simp: sql_settle_def w transaction_works settle_body_def Let_def reply_with_def conflict_def split: prod.splits)
  next
    case (Unresolved sel verbs src)
    then show ?thesis using errs by (auto simp: sql_unresolved_def w transaction_works reply_with_def)
  qed (use errs in \<open>auto simp: sql_acknowledge_def sql_mark_unknown_def sql_release_def sql_blocking_sources_def sql_active_episodes_def
      sql_active_episode_def change_body_def w transaction_works reply_with_def split: after_split prod.splits\<close>)
qed

lemma journals_in_step:
  assumes "mem_good m" and "sql_good db" and "mem_view m = sql_view db" and "mem_numbers m = sql_numbers db"
    and "healthy env" and "within_contract c (mem_view m)"
  shows "snd (sql_exec env c db) = snd (mem_exec u c m)"
    and "mem_view (fst (mem_exec u c m)) = sql_view (fst (sql_exec env c db))"
    and "mem_numbers (fst (mem_exec u c m)) = sql_numbers (fst (sql_exec env c db))"
proof -
  have "(sql_view (fst (sql_exec env c db)), snd (sql_exec env c db)) = spec_exec (sql_numbers db) c (sql_view db)"
    using assms healthy_storage by (intro sql.answer) simp_all
  moreover have "(mem_view (fst (mem_exec u c m)), snd (mem_exec u c m)) = spec_exec (mem_numbers m) c (mem_view m)"
    using mem_exec_follows [OF assms(1)] by (simp add: follows_def)
  ultimately show eq: "snd (sql_exec env c db) = snd (mem_exec u c m)"
    "mem_view (fst (mem_exec u c m)) = sql_view (fst (sql_exec env c db))"
    using assms(3,4) by (metis prod.inject)+
  show "mem_numbers (fst (mem_exec u c m)) = sql_numbers (fst (sql_exec env c db))"
    using eq(1) assms(4) by (simp add: mem_numbers_exec sql_numbers_exec [OF assms(5)])
qed


subsection \<open>Latches and write-ahead intents of the durable journal\<close>

text \<open>The states a journal file can be in: any calls on an empty one, with any failures.\<close>

definition stored :: "(sql_env \<times> journal_call) list \<Rightarrow> journal_db" where
  "stored xs = journal_run sql_exec xs sql_new"

lemma sql_good_stored: "sql_good (stored xs)"
  unfolding stored_def by (rule sql.good_run [OF sql_good_new])

lemma activated_place:
  assumes "sql_good db" and "snd (sql_exec env (Activate a) db) = Inr (EpisodeReply e new)"
  shows "(er_source a, er_selector a) \<in> episode_place ` set (jv_episodes (sql_view (fst (sql_exec env (Activate a) db))))"
proof -
  have spec: "(sql_view (fst (sql_exec env (Activate a) db)), Inr (EpisodeReply e new)) = spec_activate (fst (sql_numbers db)) a (sql_view db)"
    using sql.answer [OF assms(1), of "Activate a" env] assms(2) by simp
  show ?thesis
  proof (cases "find_episode (er_source a) (er_selector a) (jv_episodes (sql_view db))")
    case None
    with spec have "sql_view (fst (sql_exec env (Activate a) db))
        = (sql_view db)\<lparr>jv_episodes := jv_episodes (sql_view db) @ [new_episode (fst (sql_numbers db)) a]\<rparr>"
      by (cases "validate_episode_fields a") (simp_all add: spec_activate_def)
    then show ?thesis by (simp add: new_episode_def episode_place_def)
  next
    case (Some x)
    then have x: "x \<in> set (jv_episodes (sql_view db))" "episode_place x = (er_source a, er_selector a)"
      by (auto dest: find_episode_Some simp: episode_place_def)
    then have "(er_source a, er_selector a) \<in> episode_place ` set (jv_episodes (sql_view db))" by force
    moreover have "\<not> resets (er_source a, er_selector a) (Activate a)" by (simp add: resets_def)
    ultimately show ?thesis using sql.place_kept [OF assms(1)] by blast
  qed
qed

text \<open>
  An emergency latch survives everything but its own reset. After \<open>activate_episode\<close> was
  answered, and whatever calls follow, whichever of them fail before or after their commit, the
  account (or, for the selector \<open>*\<close>, every account) stays blocked by the source of the episode as
  long as no reset names this episode.
\<close>

theorem latch_blocks_until_reset:
  assumes "snd (sql_exec env (Activate a) (stored xs)) = Inr (EpisodeReply e new)"
    and "list_all (\<lambda>x. \<not> resets (er_source a, er_selector a) (snd x)) ys"
    and "er_selector a = ''*'' \<or> er_selector a = sel" and "canonical_selector sel" and "se_storage env' = Works"
  shows "\<exists>S. snd (sql_exec env' (BlockingSources sel)
       (journal_run sql_exec ys (fst (sql_exec env (Activate a) (stored xs))))) = Inr (SourcesReply S) \<and> er_source a \<in> S"
proof -
  let ?db = "fst (sql_exec env (Activate a) (stored xs))"
  let ?db' = "journal_run sql_exec ys ?db"
  have good: "sql_good ?db" by (rule sql_good_exec [OF sql_good_stored])
  have "(er_source a, er_selector a) \<in> episode_place ` set (jv_episodes (sql_view ?db'))"
    by (rule sql.latch_until_reset [OF good activated_place [OF sql_good_stored assms(1)] assms(2)])
  then obtain x where x: "x \<in> set (jv_episodes (sql_view ?db'))" "ep_source x = er_source a" "ep_selector x = er_selector a"
    by (auto simp: episode_place_def)
  then have "er_source a \<in> blocking_in sel (jv_episodes (sql_view ?db'))" using assms(3) by (force simp: blocking_in_def)
  moreover have "implements ?db' (sql_exec env' (BlockingSources sel) ?db') (spec_exec (sql_numbers ?db') (BlockingSources sel) (sql_view ?db'))"
    by (rule queries_implement(2) [OF sql.good_run [OF good]])
  moreover have "snd (sql_exec env' (BlockingSources sel) ?db') \<noteq> Inl StorageError"
    using assms(4,5) by (simp add: sql_blocking_sources_def transaction_works reply_with_def)
  ultimately show ?thesis using assms(4) by (auto simp: implements_def)
qed

text \<open>
  C22. A latch is never lifted over open broker intents: when a call makes an active episode of the
  journal disappear, it is a reset that names exactly the stored record of the episode, and no
  intent of its source (for \<open>l5\<close> on any account, for \<open>mtm\<close> on the accounts of the reset) is
  unresolved.
\<close>

theorem reset_only_when_settled:
  assumes "e \<in> set (jv_episodes (sql_view (stored xs)))"
    and "episode_place e \<notin> episode_place ` set (jv_episodes (sql_view (fst (sql_exec env c (stored xs)))))"
  shows "\<exists>es. c = Deactivate es \<and> e \<in> set es
     \<and> unsettled_for (ep_source e) (map ep_selector es) (jv_intents (sql_view (stored xs))) = []"
  by (rule sql.reset_needs_settled [OF sql_good_stored assms])

text \<open>
  At most one broker write per scope: however often a scope is reserved, with crashes and
  storage failures in between, at most one reservation is answered as newly created, until an
  intent is released or settled. The dispatcher writes to the broker only for such an answer.
\<close>

theorem one_broker_write_per_scope:
  assumes "list_all (\<lambda>x. \<not> resolves (snd x)) ys"
  shows "creations sql_exec k ys (stored xs) \<le> 1"
  by (rule sql.scope.created_at_most_once [OF sql_good_stored assms])

subsection \<open>Where the journals differ\<close>

definition zeros :: string where
  "zeros = replicate 64 (CHR ''0'')"

definition demo_episode :: episode_request where
  "demo_episode = \<lparr>er_source = ''l5'', er_selector = ''*'', er_session_key = ''manual'', er_reason_hash = zeros\<rparr>"

definition demo_intent :: "string \<Rightarrow> intent_request" where
  "demo_intent scope = \<lparr>rq_source = ''l5'', rq_selector = ''zerodha:AB1'', rq_parent_verb = ''exit_all_positions'',
     rq_verb = ''place_reducing_order'', rq_payload_hash = zeros, rq_scope = scope, rq_target_order_id = [], rq_exit_tag = []\<rparr>"

definition demo_env :: sql_env where
  "demo_env = \<lparr>se_storage = Works, se_now = ''now'', se_burn = False\<rparr>"

definition demo_calls :: "(sql_env \<times> journal_call) list" where
  "demo_calls = map (Pair demo_env) [Activate demo_episode, Reserve (demo_intent ''s1''), Acknowledge 1 [''o1'']]"

text \<open>
  \<open>release\<close> drops an acknowledged intent from the in-memory journal; the durable journal only
  drops one that is still merely reserved.
\<close>

lemma release_differs:
  "length (jv_intents (mem_view (journal_run mem_exec (map (\<lambda>x. ((), snd x)) demo_calls @ [((), Release 1)]) mem_new))) = 0
   \<and> length (jv_intents (sql_view (journal_run sql_exec (demo_calls @ [(demo_env, Release 1)]) sql_new))) = 1"
  by code_simp

text \<open>
  A scope reserved ad hoc and reserved again by a source without an active episode is answered
  with the existing intent in memory and refused by the durable journal.
\<close>

lemma reserve_differs:
  "let a = (demo_intent ''s1''); calls = [Reserve (a\<lparr>rq_source := ''adhoc''\<rparr>), Reserve a]
   in map isl (replies mem_exec (map (Pair ()) calls) mem_new) = [False, False]
      \<and> map isl (replies sql_exec (map (Pair demo_env) calls) sql_new) = [False, True]"
  by code_simp

subsection \<open>Witnesses\<close>


theorem one_broker_write_per_scope_witness:
  "creations sql_exec (intent_key (demo_intent ''s1'')) (demo_calls @ demo_calls) (stored []) = 1"
proof -
  have "creations sql_exec (intent_key (demo_intent ''s1'')) (demo_calls @ demo_calls) (stored []) \<le> 1"
    by (rule one_broker_write_per_scope) code_simp
  moreover have "creations sql_exec (intent_key (demo_intent ''s1'')) (demo_calls @ demo_calls) (stored []) \<noteq> 0" by code_simp
  ultimately show ?thesis by simp
qed

theorem latch_blocks_until_reset_witness:
  "\<exists>S. snd (sql_exec demo_env (BlockingSources ''zerodha:AB1'')
     (journal_run sql_exec [(demo_env\<lparr>se_storage := Fails_before\<rparr>, Deactivate []), (demo_env\<lparr>se_storage := Fails_after\<rparr>, Reserve (demo_intent ''s1''))]
       (fst (sql_exec demo_env (Activate demo_episode) (stored []))))) = Inr (SourcesReply S) \<and> ''l5'' \<in> S"
proof -
  have "snd (sql_exec demo_env (Activate demo_episode) (stored [])) = Inr (EpisodeReply (new_episode 1 demo_episode) True)"
    by code_simp
  from latch_blocks_until_reset [OF this, of "[(demo_env\<lparr>se_storage := Fails_before\<rparr>, Deactivate []),
      (demo_env\<lparr>se_storage := Fails_after\<rparr>, Reserve (demo_intent ''s1''))]" "''zerodha:AB1''" demo_env]
  show ?thesis
    by (simp add: resets_def demo_episode_def demo_env_def canonical_selector_def py_strip_def is_space_def)
qed

theorem reset_only_when_settled_witness:
  "\<exists>es. Deactivate [new_episode 1 demo_episode] = Deactivate es \<and> new_episode 1 demo_episode \<in> set es
     \<and> unsettled_for (ep_source (new_episode 1 demo_episode)) (map ep_selector es)
         (jv_intents (sql_view (stored [(demo_env, Activate demo_episode)]))) = []"
proof (rule reset_only_when_settled)
  show "new_episode 1 demo_episode \<in> set (jv_episodes (sql_view (stored [(demo_env, Activate demo_episode)])))" by code_simp
  show "episode_place (new_episode 1 demo_episode) \<notin> episode_place ` set (jv_episodes (sql_view
      (fst (sql_exec demo_env (Deactivate [new_episode 1 demo_episode]) (stored [(demo_env, Activate demo_episode)])))))"
    by code_simp
qed

end
