(* ===== verification/Dispatch_Journal.thy ===== *)
theory Dispatch_Journal
  imports Journal_Properties "HOL-Library.Sublist"
begin

text \<open>
  \<open>emergency_intents.EmergencyDispatchIntentJournal\<close>: the journal the emergency dispatcher works
  with. Calls are mirrored into an in-memory fallback; when the storage of the durable journal
  fails, the dispatcher goes on with the fallback alone. Conflicts and invalid arguments are never
  degraded, and resets always go to the durable journal.
\<close>

subsection \<open>State\<close>

record dispatch_journal =
  dj_primary :: journal_db
  dj_fallback :: memory_journal
  dj_degraded :: bool
  dj_intent_ids :: "(int \<times> int) list"
  dj_episode_ids :: "(int \<times> int) list"

record dispatch_env =
  de_sql :: sql_env
  de_today :: string

type_synonym 'a dispatched = "(dispatch_journal, journal_error, 'a) outcome"

definition dispatch_new :: "journal_db \<Rightarrow> dispatch_journal" where
  "dispatch_new db = \<lparr>dj_primary = db, dj_fallback = mem_new, dj_degraded = False, dj_intent_ids = [], dj_episode_ids = []\<rparr>"

definition FALLBACK_REASON_HASH :: string where
  "FALLBACK_REASON_HASH = replicate 64 (CHR ''0'')"

fun non_storage_failure :: "journal_error \<Rightarrow> bool" where
  "non_storage_failure (EmergencyIntentConflict w) = True"
| "non_storage_failure (UnknownIntent n) = True"
| "non_storage_failure (JournalValueError w) = True"
| "non_storage_failure (JournalRuntimeError w) = False"
| "non_storage_failure StorageError = False"

definition on_fallback :: "(memory_journal \<Rightarrow> (memory_journal, journal_error, 'a) outcome) \<Rightarrow> dispatch_journal \<Rightarrow> 'a dispatched" where
  "on_fallback f d = (case f (dj_fallback d) of (m, r) \<Rightarrow> (d\<lparr>dj_fallback := m\<rparr>, r))"

definition on_primary :: "(journal_db \<Rightarrow> (journal_db, journal_error, 'a) outcome) \<Rightarrow> dispatch_journal \<Rightarrow> 'a dispatched" where
  "on_primary f d = (case f (dj_primary d) of (db, r) \<Rightarrow> (d\<lparr>dj_primary := db\<rparr>, r))"

text \<open>\<open>_degrade\<close>: raise again what is no failure of the storage, otherwise degrade and go on.\<close>

definition degrade :: "journal_error \<Rightarrow> dispatch_journal \<Rightarrow> unit dispatched" where
  "degrade e d = (if non_storage_failure e then (d, Inl e) else (d\<lparr>dj_degraded := True\<rparr>, Inr ()))"

definition try_primary :: "(journal_db \<Rightarrow> (journal_db, journal_error, 'a) outcome) \<Rightarrow> (dispatch_journal \<Rightarrow> 'b dispatched)
    \<Rightarrow> (dispatch_journal \<Rightarrow> 'a \<Rightarrow> 'b dispatched) \<Rightarrow> dispatch_journal \<Rightarrow> 'b dispatched" where
  "try_primary f failed succeeded d =
     (case on_primary f d of
        (d', Inl e) \<Rightarrow> bind_out (degrade e d') (\<lambda>d'' _. failed d'')
      | (d', Inr x) \<Rightarrow> succeeded d' x)"

fun each :: "('x \<Rightarrow> dispatch_journal \<Rightarrow> 'y dispatched) \<Rightarrow> 'x list \<Rightarrow> dispatch_journal \<Rightarrow> 'y list dispatched" where
  "each f [] d = (d, Inr [])"
| "each f (x # xs) d = bind_out (f x d) (\<lambda>d y. bind_out (each f xs d) (\<lambda>d ys. (d, Inr (y # ys))))"

subsection \<open>Mirroring\<close>

definition mirror_episode :: "episode \<Rightarrow> dispatch_journal \<Rightarrow> episode dispatched" where
  "mirror_episode e d =
     bind_out (on_fallback (mem_activate_episode \<lparr>er_source = ep_source e, er_selector = ep_selector e, er_session_key = ep_session_key e,
         er_reason_hash = FALLBACK_REASON_HASH\<rparr>) d) (\<lambda>d r.
     bind_out (if ep_targets e \<noteq> [] then on_fallback (mem_record_episode_targets (fst r) (ep_targets e)) d else (d, Inr (fst r))) (\<lambda>d fb.
       (d\<lparr>dj_episode_ids := AList.update (ep_id e) (ep_id fb) (dj_episode_ids d)\<rparr>, Inr fb)))"

definition fallback_episode :: "episode \<Rightarrow> dispatch_journal \<Rightarrow> episode dispatched" where
  "fallback_episode e d =
     bind_out (on_fallback (mem_active_episode (ep_source e) (ep_selector e)) d) (\<lambda>d r.
       case r of Some fb \<Rightarrow> (d, Inr fb) | None \<Rightarrow> mirror_episode e d)"

definition mirror_intent :: "string \<Rightarrow> intent \<Rightarrow> dispatch_journal \<Rightarrow> intent dispatched" where
  "mirror_intent today r d =
     (let src = rq_source (ei_request r); sel = if src = ''l5'' then ''*'' else rq_selector (ei_request r)
      in bind_out
           (if src \<noteq> ''adhoc'' then
              bind_out (on_fallback (mem_active_episode src sel) d) (\<lambda>d found.
                case found of
                  Some e \<Rightarrow> (d, Inr ())
                | None \<Rightarrow>
                    bind_out (on_fallback (mem_activate_episode \<lparr>er_source = src, er_selector = sel,
                      er_session_key = (if src = ''l5'' then ''manual'' else today), er_reason_hash = FALLBACK_REASON_HASH\<rparr>) d) (\<lambda>d _. (d, Inr ())))
            else (d, Inr ())) (\<lambda>d _.
         bind_out (on_fallback (mem_reserve (ei_request r)) d) (\<lambda>d fb.
         let d = d\<lparr>dj_intent_ids := AList.update (ei_id r) (ei_id (fst fb)) (dj_intent_ids d)\<rparr>
         in bind_out
              (if ei_state r = Acknowledged then on_fallback (mem_acknowledge (ei_id (fst fb)) (ei_order_ids r)) d
               else if ei_state r = Outcome_unknown then on_fallback (mem_mark_unknown (ei_id (fst fb))) d
               else (d, Inr ())) (\<lambda>d _. (d, Inr (fst fb))))))"

definition fallback_intent_id :: "int \<Rightarrow> dispatch_journal \<Rightarrow> int" where
  "fallback_intent_id n d = (case map_of (dj_intent_ids d) n of None \<Rightarrow> n | Some k \<Rightarrow> k)"

subsection \<open>Operations\<close>

definition dispatch_activate_episode :: "dispatch_env \<Rightarrow> episode_request \<Rightarrow> dispatch_journal \<Rightarrow> (episode \<times> bool) dispatched" where
  "dispatch_activate_episode env a d =
     bind_out (on_fallback (mem_activate_episode a) d) (\<lambda>d fb.
       if dj_degraded d then (d, Inr fb)
       else try_primary (sql_activate_episode (de_sql env) a) (\<lambda>d. (d, Inr fb))
              (\<lambda>d p. (d\<lparr>dj_episode_ids := AList.update (ep_id (fst p)) (ep_id (fst fb)) (dj_episode_ids d)\<rparr>, Inr p)) d)"

definition dispatch_active_episodes :: "dispatch_env \<Rightarrow> string option \<Rightarrow> dispatch_journal \<Rightarrow> (episode list) dispatched" where
  "dispatch_active_episodes env src d =
     (if dj_degraded d then on_fallback (mem_active_episodes src) d
      else try_primary (sql_active_episodes (de_sql env) src) (on_fallback (mem_active_episodes src))
             (\<lambda>d es. bind_out (each mirror_episode es d) (\<lambda>d _. (d, Inr es))) d)"

definition dispatch_active_episode :: "dispatch_env \<Rightarrow> string \<Rightarrow> string \<Rightarrow> dispatch_journal \<Rightarrow> (episode option) dispatched" where
  "dispatch_active_episode env src sel d =
     (if dj_degraded d then on_fallback (mem_active_episode src sel) d
      else try_primary (sql_active_episode (de_sql env) src sel) (on_fallback (mem_active_episode src sel))
             (\<lambda>d found. case found of None \<Rightarrow> (d, Inr None) | Some e \<Rightarrow> bind_out (mirror_episode e d) (\<lambda>d _. (d, Inr (Some e)))) d)"

definition dispatch_record_episode_targets :: "dispatch_env \<Rightarrow> episode \<Rightarrow> string list \<Rightarrow> dispatch_journal \<Rightarrow> episode dispatched" where
  "dispatch_record_episode_targets env expected sels d =
     bind_out (fallback_episode expected d) (\<lambda>d fe.
     bind_out (on_fallback (mem_record_episode_targets fe sels) d) (\<lambda>d fb.
       if dj_degraded d then (d, Inr fb)
       else try_primary (sql_record_episode_targets (de_sql env) expected sels) (\<lambda>d. (d, Inr fb))
              (\<lambda>d p. (d\<lparr>dj_episode_ids := AList.update (ep_id p) (ep_id fb) (dj_episode_ids d)\<rparr>, Inr p)) d))"

definition dispatch_blocking_sources :: "dispatch_env \<Rightarrow> string \<Rightarrow> dispatch_journal \<Rightarrow> (string set) dispatched" where
  "dispatch_blocking_sources env sel d =
     (if dj_degraded d then on_fallback (mem_blocking_sources sel) d
      else try_primary (sql_blocking_sources (de_sql env) sel) (on_fallback (mem_blocking_sources sel)) (\<lambda>d S. (d, Inr S)) d)"

definition dispatch_deactivate_episodes :: "dispatch_env \<Rightarrow> episode list \<Rightarrow> dispatch_journal \<Rightarrow> unit dispatched" where
  "dispatch_deactivate_episodes env es d =
     bind_out (on_primary (sql_deactivate_episodes (de_sql env) es) d) (\<lambda>d _.
     bind_out (each fallback_episode es d) (\<lambda>d translated.
       on_fallback (mem_deactivate_episodes translated) d))"

definition dispatch_unresolved :: "dispatch_env \<Rightarrow> string \<Rightarrow> string list \<Rightarrow> string option \<Rightarrow> dispatch_journal \<Rightarrow> (intent list) dispatched" where
  "dispatch_unresolved env sel verbs src d =
     (if dj_degraded d then on_fallback (mem_unresolved sel verbs src) d
      else try_primary (sql_unresolved (de_sql env) sel verbs src) (on_fallback (mem_unresolved sel verbs src))
             (\<lambda>d rs. bind_out (each (mirror_intent (de_today env)) rs d) (\<lambda>d _. (d, Inr rs))) d)"

definition dispatch_reserve :: "dispatch_env \<Rightarrow> intent_request \<Rightarrow> dispatch_journal \<Rightarrow> (intent \<times> bool) dispatched" where
  "dispatch_reserve env a d =
     bind_out (on_fallback (mem_reserve a) d) (\<lambda>d fb.
       if dj_degraded d then (d, Inr fb)
       else try_primary (sql_reserve (de_sql env) a) (\<lambda>d. (d, Inr fb))
              (\<lambda>d p. (d\<lparr>dj_intent_ids := AList.update (ei_id (fst p)) (ei_id (fst fb)) (dj_intent_ids d)\<rparr>, Inr p)) d)"

definition dispatch_acknowledge :: "dispatch_env \<Rightarrow> int \<Rightarrow> string list \<Rightarrow> dispatch_journal \<Rightarrow> unit dispatched" where
  "dispatch_acknowledge env n os d =
     bind_out (on_fallback (mem_acknowledge (fallback_intent_id n d) os) d) (\<lambda>d _.
       if dj_degraded d then (d, Inr ())
       else try_primary (sql_acknowledge (de_sql env) n os) (\<lambda>d. (d, Inr ())) (\<lambda>d _. (d, Inr ())) d)"

definition dispatch_mark_unknown :: "dispatch_env \<Rightarrow> int \<Rightarrow> dispatch_journal \<Rightarrow> unit dispatched" where
  "dispatch_mark_unknown env n d =
     bind_out (on_fallback (mem_mark_unknown (fallback_intent_id n d)) d) (\<lambda>d _.
       if dj_degraded d then (d, Inr ())
       else try_primary (sql_mark_unknown (de_sql env) n) (\<lambda>d. (d, Inr ())) (\<lambda>d _. (d, Inr ())) d)"

definition dispatch_release :: "dispatch_env \<Rightarrow> int \<Rightarrow> dispatch_journal \<Rightarrow> unit dispatched" where
  "dispatch_release env n d =
     (let k = fallback_intent_id n d
      in bind_out (if dj_degraded d then (d, Inr ())
                   else try_primary (sql_release (de_sql env) n) (\<lambda>d. (d, Inr ())) (\<lambda>d _. (d, Inr ())) d) (\<lambda>d _.
           on_fallback (mem_release k) d))"

definition dispatch_settle :: "dispatch_env \<Rightarrow> string \<Rightarrow> string list \<Rightarrow> string \<Rightarrow> int list \<Rightarrow> dispatch_journal \<Rightarrow> bool dispatched" where
  "dispatch_settle env sel verbs src ids d =
     (let ks = map (\<lambda>n. fallback_intent_id n d) ids
      in if dj_degraded d then on_fallback (mem_settle sel verbs src ks) d
         else try_primary (sql_settle (de_sql env) sel verbs src ids) (on_fallback (mem_settle sel verbs src ks))
                (\<lambda>d settled. if \<not> settled then (d, Inr False) else on_fallback (mem_settle sel verbs src ks) d) d)"

fun dispatch_exec :: "dispatch_env \<Rightarrow> journal_call \<Rightarrow> dispatch_journal \<Rightarrow> journal_reply dispatched" where
  "dispatch_exec env (Activate a) d = reply_with (\<lambda>(e, new). EpisodeReply e new) (dispatch_activate_episode env a d)"
| "dispatch_exec env (RecordTargets e sels) d = reply_with TargetsReply (dispatch_record_episode_targets env e sels d)"
| "dispatch_exec env (Deactivate es) d = reply_with (\<lambda>_. Done) (dispatch_deactivate_episodes env es d)"
| "dispatch_exec env (Reserve a) d = reply_with (\<lambda>(r, new). IntentReply r new) (dispatch_reserve env a d)"
| "dispatch_exec env (Acknowledge n os) d = reply_with (\<lambda>_. Done) (dispatch_acknowledge env n os d)"
| "dispatch_exec env (MarkUnknown n) d = reply_with (\<lambda>_. Done) (dispatch_mark_unknown env n d)"
| "dispatch_exec env (Release n) d = reply_with (\<lambda>_. Done) (dispatch_release env n d)"
| "dispatch_exec env (Settle sel verbs src ns) d = reply_with SettleReply (dispatch_settle env sel verbs src ns d)"
| "dispatch_exec env (Unresolved sel verbs src) d = reply_with IntentsReply (dispatch_unresolved env sel verbs src d)"
| "dispatch_exec env (BlockingSources sel) d = reply_with SourcesReply (dispatch_blocking_sources env sel d)"
| "dispatch_exec env (ActiveEpisodes src) d = reply_with EpisodesReply (dispatch_active_episodes env src d)"
| "dispatch_exec env (ActiveEpisode src sel) d = reply_with EpisodeOption (dispatch_active_episode env src sel d)"

subsection \<open>What the fallback does\<close>

definition mem_path :: "(journal_call \<Rightarrow> bool) \<Rightarrow> memory_journal \<Rightarrow> memory_journal \<Rightarrow> bool" where
  "mem_path P = (\<lambda>m m'. \<exists>c. P c \<and> m' = fst (mem_exec () c m))\<^sup>*\<^sup>*"

definition rightful :: "journal_error + 'a \<Rightarrow> bool" where
  "rightful r = (case r of Inl e \<Rightarrow> non_storage_failure e | Inr x \<Rightarrow> True)"

text \<open>Code that only touches the fallback and the number maps, and never fails for storage.\<close>

definition quiet :: "(journal_call \<Rightarrow> bool) \<Rightarrow> dispatch_journal \<Rightarrow> 'a dispatched \<Rightarrow> bool" where
  "quiet P d r \<longleftrightarrow> dj_primary (fst r) = dj_primary d \<and> dj_degraded (fst r) = dj_degraded d
     \<and> mem_path P (dj_fallback d) (dj_fallback (fst r)) \<and> rightful (snd r)"

lemma rightful_simps [simp]: "rightful (Inl e) = non_storage_failure e" "rightful (Inr x)"
  by (simp_all add: rightful_def)

lemma rightful_after: "rightful r \<Longrightarrow> (\<And>x. r = Inr x \<Longrightarrow> rightful (snd (f x))) \<Longrightarrow> rightful (snd (after r s f))"
  by (cases r) simp_all

lemma rightful_bind: "rightful r \<Longrightarrow> (\<And>x. r = Inr x \<Longrightarrow> rightful (f x)) \<Longrightarrow> rightful (bind_res r f)"
  by (cases r) simp_all

lemma rightful_reply [simp]: "rightful (snd (reply_with f r)) = rightful (snd r)"
  by (cases "snd r") (simp_all add: reply_with_def rightful_def)

lemma rightful_require: "non_storage_failure e \<Longrightarrow> rightful (require b e)"
  by (simp add: require_def)

lemma rightful_validation:
  "rightful (validate_episode_fields a)" "rightful (validate_episode_snapshot e)" "rightful (normalise_affected_selectors sels)"
  "rightful (validate_reserve q)" "rightful (normalise_order_ids os)" "rightful (renews a e)"
  by (auto simp: validate_episode_fields_def validate_episode_snapshot_def normalise_affected_selectors_def validate_reserve_def
      validate_record_fields_def validate_optional_token_def normalise_order_ids_def renews_def session_after_def Let_def require_def rightful_def
      split: bind_res_split option.splits sum.splits)

lemma rightful_expected: "rightful (validate_expected es)"
proof -
  have "rightful (for_each (\<lambda>e _. validate_episode_snapshot e) es u)" for u
    by (induction es arbitrary: u) (auto intro!: rightful_bind rightful_validation)
  then show ?thesis by (auto simp: validate_expected_def intro!: rightful_bind rightful_require)
qed

lemma mem_path_refl [simp]: "mem_path P m m"
  by (simp add: mem_path_def)

lemma mem_path_trans: "mem_path P a b \<Longrightarrow> mem_path P b c \<Longrightarrow> mem_path P a c"
  unfolding mem_path_def by (rule rtranclp_trans)

lemma mem_path_step: "P c \<Longrightarrow> mem_path P m (fst (mem_exec u c m))"
  unfolding mem_path_def by (rule r_into_rtranclp) auto

lemma mem_path_good: "mem_path P m m' \<Longrightarrow> mem_good m \<Longrightarrow> mem_good m'"
  unfolding mem_path_def by (induction rule: rtranclp_induct) (auto intro: mem_good_exec)

lemma mem_rightful: "rightful (snd (mem_exec u c m))"
  by (cases c)
     (auto simp: mem_activate_episode_def mem_record_episode_targets_def mem_deactivate_episodes_def mem_reserve_def mem_change_def
        mem_acknowledge_def mem_mark_unknown_def mem_release_def mem_settle_def mem_unresolved_def mem_blocking_sources_def
        mem_active_episodes_def mem_active_episode_def Let_def split: option.splits
        intro!: rightful_after rightful_validation rightful_expected)

lemma quiet_return: "quiet P d (d, Inr x)"
  by (simp add: quiet_def)

lemma quiet_maps:
  "quiet P d (d', r) \<Longrightarrow> quiet P d (d'\<lparr>dj_intent_ids := is'\<rparr>, r)" "quiet P d (d', r) \<Longrightarrow> quiet P d (d'\<lparr>dj_episode_ids := is'\<rparr>, r)"
  by (simp_all add: quiet_def)

lemma quiet_fallback:
  assumes "P c" and "\<And>m. mem_exec () c m = reply_with g (f m)"
  shows "quiet P d (on_fallback f d)"
proof -
  obtain m r where m: "f (dj_fallback d) = (m, r)" by (cases "f (dj_fallback d)")
  have "fst (mem_exec () c (dj_fallback d)) = m" using assms(2) [of "dj_fallback d"] m by simp
  then have "mem_path P (dj_fallback d) m" using mem_path_step [of P c "dj_fallback d" "()"] assms(1) by simp
  moreover have "rightful r"
    using mem_rightful [of "()" c "dj_fallback d"] assms(2) [of "dj_fallback d"] m by simp
  ultimately show ?thesis by (simp add: quiet_def on_fallback_def m)
qed

lemma quiet_bind:
  assumes "quiet P d r" and "\<And>d' x. r = (d', Inr x) \<Longrightarrow> quiet P d' (g d' x)"
  shows "quiet P d (bind_out r g)"
proof -
  obtain d' s where r: "r = (d', s)" by (cases r)
  show ?thesis
  proof (cases s)
    case (Inl e)
    with assms(1) r show ?thesis by (simp add: quiet_def)
  next
    case (Inr x)
    with assms r have "quiet P d' (g d' x)" "quiet P d (d', Inr x)" by simp_all
    with r Inr show ?thesis by (auto simp: quiet_def intro: mem_path_trans)
  qed
qed

lemma quiet_each:
  assumes "\<And>x d. quiet P d (f x d)"
  shows "quiet P d (each f xs d)"
  by (induction xs arbitrary: d) (auto intro!: quiet_bind quiet_return assms)

definition keeping :: "journal_call \<Rightarrow> bool" where
  "keeping c \<longleftrightarrow> \<not> resolves c"

lemma keeping_calls [simp]:
  "keeping (Activate a)" "keeping (RecordTargets e ts)" "keeping (Deactivate es)" "keeping (Reserve q)" "keeping (Acknowledge n os)"
  "keeping (MarkUnknown n)" "keeping (Unresolved s vs src)" "keeping (BlockingSources s)" "keeping (ActiveEpisodes so)" "keeping (ActiveEpisode s1 s2)"
  by (simp_all add: keeping_def resolves_def)

lemma quiet_mem [intro!]:
  "quiet keeping d (on_fallback (mem_activate_episode a) d)" "quiet keeping d (on_fallback (mem_record_episode_targets e ts) d)"
  "quiet keeping d (on_fallback (mem_deactivate_episodes es) d)" "quiet keeping d (on_fallback (mem_reserve q) d)"
  "quiet keeping d (on_fallback (mem_acknowledge n os) d)" "quiet keeping d (on_fallback (mem_mark_unknown n) d)"
  "quiet keeping d (on_fallback (mem_unresolved s vs src) d)" "quiet keeping d (on_fallback (mem_blocking_sources s) d)"
  "quiet keeping d (on_fallback (mem_active_episodes so) d)" "quiet keeping d (on_fallback (mem_active_episode s1 s2) d)"
  by (rule quiet_fallback [where c = "Activate a"], simp, simp)
     (rule quiet_fallback [where c = "RecordTargets e ts"], simp, simp,
      rule quiet_fallback [where c = "Deactivate es"], simp, simp, rule quiet_fallback [where c = "Reserve q"], simp, simp,
      rule quiet_fallback [where c = "Acknowledge n os"], simp, simp, rule quiet_fallback [where c = "MarkUnknown n"], simp, simp,
      rule quiet_fallback [where c = "Unresolved s vs src"], simp, simp, rule quiet_fallback [where c = "BlockingSources s"], simp, simp,
      rule quiet_fallback [where c = "ActiveEpisodes so"], simp, simp, rule quiet_fallback [where c = "ActiveEpisode s1 s2"], simp, simp)

lemma quiet_mirror_episode: "quiet keeping d (mirror_episode e d)"
  unfolding mirror_episode_def by (intro quiet_bind quiet_mem) (auto intro!: quiet_maps quiet_return)

lemma quiet_fallback_episode: "quiet keeping d (fallback_episode e d)"
  unfolding fallback_episode_def
  by (intro quiet_bind quiet_mem) (auto intro: quiet_return quiet_mirror_episode split: option.splits)

lemma quiet_ids: "quiet P (d\<lparr>dj_intent_ids := x\<rparr>) r \<Longrightarrow> quiet P d r"
  by (simp add: quiet_def)

lemma quiet_mirror_intent: "quiet keeping d (mirror_intent today r d)"
proof -
  have settle: "quiet keeping d (bind_out
      (if ei_state r = Acknowledged then on_fallback (mem_acknowledge n (ei_order_ids r)) d
       else if ei_state r = Outcome_unknown then on_fallback (mem_mark_unknown n) d else (d, Inr ())) (\<lambda>d _. (d, Inr x)))" for d n and x :: intent
    by (rule quiet_bind) (auto intro: quiet_return)
  have latch: "quiet keeping d (if b then bind_out (on_fallback (mem_active_episode src sel) d) (\<lambda>d found.
      case found of Some e \<Rightarrow> (d, Inr ()) | None \<Rightarrow> bind_out (on_fallback (mem_activate_episode a) d) (\<lambda>d _. (d, Inr ())))
      else (d, Inr ()))" for b d src sel a
  proof -
    have "quiet keeping d (bind_out (on_fallback (mem_activate_episode a) d) (\<lambda>d _. (d, Inr ())))" for d
      by (rule quiet_bind) (auto intro: quiet_return)
    then have "quiet keeping d (bind_out (on_fallback (mem_active_episode src sel) d) (\<lambda>d found.
        case found of Some e \<Rightarrow> (d, Inr ()) | None \<Rightarrow> bind_out (on_fallback (mem_activate_episode a) d) (\<lambda>d _. (d, Inr ()))))"
      by (intro quiet_bind quiet_mem) (auto intro: quiet_return split: option.split)
    then show ?thesis by (auto intro: quiet_return)
  qed
  show ?thesis
    unfolding mirror_intent_def Let_def
    by (rule quiet_bind [OF latch], rule quiet_bind, rule quiet_mem, rule quiet_ids, rule settle)
qed

subsection \<open>What a call does to the durable journal\<close>

text \<open>
  A served call: the durable journal gets the call itself or nothing, and nothing at all once the
  dispatcher is degraded; degrading is for good; the fallback moves by calls of \<open>P\<close>.
\<close>

definition served :: "(journal_db \<Rightarrow> journal_db) \<Rightarrow> (journal_call \<Rightarrow> bool) \<Rightarrow> dispatch_journal \<Rightarrow> 'a dispatched \<Rightarrow> bool" where
  "served F P d r \<longleftrightarrow>
     (dj_primary (fst r) = dj_primary d \<or> \<not> dj_degraded d \<and> dj_primary (fst r) = F (dj_primary d))
     \<and> (dj_degraded d \<longrightarrow> dj_degraded (fst r)) \<and> mem_path P (dj_fallback d) (dj_fallback (fst r)) \<and> rightful (snd r)"

lemma served_quiet: "quiet P d r \<Longrightarrow> served F P d r"
  by (simp add: quiet_def served_def)

lemma quiet_any: "quiet P d r \<Longrightarrow> quiet (\<lambda>_. True) d r"
  unfolding quiet_def mem_path_def by (auto elim: mono_rtranclp [rule_format, rotated])

lemma served_after_quiet:
  assumes "quiet P d r" and "\<And>d' x. dj_degraded d' = dj_degraded d \<Longrightarrow> r = (d', Inr x) \<Longrightarrow> served F P d' (g d' x)"
  shows "served F P d (bind_out r g)"
proof -
  obtain d' s where r: "r = (d', s)" by (cases r)
  have q: "dj_degraded d' = dj_degraded d" "dj_primary d' = dj_primary d" "mem_path P (dj_fallback d) (dj_fallback d')"
    using assms(1) r by (simp_all add: quiet_def)
  show ?thesis
  proof (cases s)
    case (Inl e)
    with assms(1) r show ?thesis by (simp add: quiet_def served_def)
  next
    case (Inr x)
    with assms r q have "served F P d' (g d' x)" by simp
    with r Inr q show ?thesis by (auto simp: served_def intro: mem_path_trans)
  qed
qed

lemma served_then_quiet:
  assumes "served F P d r" and "\<And>d' x. quiet P d' (g d' x)"
  shows "served F P d (bind_out r g)"
proof -
  obtain d' s where r: "r = (d', s)" by (cases r)
  show ?thesis
  proof (cases s)
    case (Inl e)
    with assms(1) r show ?thesis by (simp add: served_def)
  next
    case (Inr x)
    have "quiet P d' (g d' x)" by (rule assms(2))
    with assms(1) r Inr show ?thesis by (auto simp: served_def quiet_def intro: mem_path_trans)
  qed
qed

lemma served_try:
  assumes "\<not> dj_degraded d" and "\<And>db. F db = fst (f db)"
    and "\<And>d'. quiet P d' (failed d')" and "\<And>d' x. quiet P d' (succeeded d' x)"
  shows "served F P d (try_primary f failed succeeded d)"
proof -
  obtain db s where f: "f (dj_primary d) = (db, s)" by (cases "f (dj_primary d)")
  then have F: "F (dj_primary d) = db" by (simp add: assms(2))
  show ?thesis
  proof (cases s)
    case (Inl e)
    have "quiet P (d\<lparr>dj_primary := db, dj_degraded := True\<rparr>) (failed (d\<lparr>dj_primary := db, dj_degraded := True\<rparr>))" by (rule assms(3))
    with Inl f F assms(1) show ?thesis by (auto simp: try_primary_def on_primary_def degrade_def served_def quiet_def)
  next
    case (Inr x)
    have "quiet P (d\<lparr>dj_primary := db\<rparr>) (succeeded (d\<lparr>dj_primary := db\<rparr>) x)" by (rule assms(4))
    with Inr f F assms(1) show ?thesis by (auto simp: try_primary_def on_primary_def served_def quiet_def)
  qed
qed

lemma served_guarded:
  "(dj_degraded d \<Longrightarrow> quiet P d a) \<Longrightarrow> (\<not> dj_degraded d \<Longrightarrow> served F P d b) \<Longrightarrow> served F P d (if dj_degraded d then a else b)"
  by (simp add: served_quiet)

lemmas served_rules = served_after_quiet served_guarded served_try

lemma served_reply: "served F P d (reply_with g r) = served F P d r"
  by (simp add: served_def)

lemma quiet_put:
  "quiet P d (d\<lparr>dj_intent_ids := x\<rparr>, Inr y)" "quiet P d (d\<lparr>dj_episode_ids := x\<rparr>, Inr y)"
  by (simp_all add: quiet_def)

lemmas quiet_steps = quiet_return quiet_put quiet_mem quiet_mirror_episode quiet_mirror_intent quiet_fallback_episode
lemmas served_steps = quiet_steps [THEN served_quiet]

definition fallback_calls :: "journal_call \<Rightarrow> journal_call \<Rightarrow> bool" where
  "fallback_calls c = (if resolves c then (\<lambda>_. True) else keeping)"

lemma fallback_calls_simps [simp]:
  "fallback_calls (Activate a) = keeping" "fallback_calls (RecordTargets e ts) = keeping" "fallback_calls (Reserve q) = keeping"
  "fallback_calls (Acknowledge n os) = keeping" "fallback_calls (MarkUnknown n) = keeping" "fallback_calls (Unresolved s vs src) = keeping"
  "fallback_calls (BlockingSources s) = keeping" "fallback_calls (ActiveEpisodes so) = keeping" "fallback_calls (ActiveEpisode s1 s2) = keeping"
  "fallback_calls (Release n) = (\<lambda>_. True)" "fallback_calls (Settle s2 vs2 src2 ns) = (\<lambda>_. True)"
  by (simp_all add: fallback_calls_def resolves_def)

lemma quiet_mirroring:
  "quiet keeping d (bind_out (each mirror_episode es d) (\<lambda>d _. (d, Inr y)))"
  "quiet keeping d (bind_out (each (mirror_intent today) rs d) (\<lambda>d _. (d, Inr y)))"
  "quiet keeping d (bind_out (mirror_episode e d) (\<lambda>d _. (d, Inr y)))"
  by (rule quiet_bind, auto intro: quiet_each quiet_steps)+

lemma quiet_resolutions:
  "quiet (\<lambda>_. True) d (on_fallback (mem_release n) d)" "quiet (\<lambda>_. True) d (on_fallback (mem_settle sel verbs src ks) d)"
  by (rule quiet_fallback [where c = "Release n"], simp, simp) (rule quiet_fallback [where c = "Settle sel verbs src ks"], simp, simp)

lemma served_exec:
  assumes "\<And>es. c \<noteq> Deactivate es"
  shows "served (\<lambda>db. fst (sql_exec (de_sql env) c db)) (fallback_calls c) d (dispatch_exec env c d)"
proof (cases c)
  case (Activate a)
  then show ?thesis
    by (auto simp: served_reply dispatch_activate_episode_def intro!: served_rules quiet_steps)
next
  case (RecordTargets e sels)
  then show ?thesis
    by (auto simp: served_reply dispatch_record_episode_targets_def intro!: served_rules quiet_steps)
next
  case (Reserve a)
  then show ?thesis
    by (auto simp: served_reply dispatch_reserve_def intro!: served_rules quiet_steps)
next
  case (Acknowledge n os)
  then show ?thesis
    by (auto simp: served_reply dispatch_acknowledge_def intro!: served_rules quiet_steps)
next
  case (MarkUnknown n)
  then show ?thesis
    by (auto simp: served_reply dispatch_mark_unknown_def intro!: served_rules quiet_steps)
next
  case (Release n)
  then show ?thesis
    by (auto simp: served_reply dispatch_release_def Let_def intro!: served_then_quiet quiet_resolutions served_quiet [OF quiet_resolutions(1)] served_guarded served_try quiet_return)
next
  case (Settle sel verbs src ns)
  then show ?thesis
    by (auto simp: served_reply dispatch_settle_def Let_def
        intro!: served_guarded served_try quiet_resolutions served_quiet [OF quiet_resolutions(2)] quiet_return)
next
  case (Unresolved sel verbs src)
  then show ?thesis
    by (auto simp: served_reply dispatch_unresolved_def intro!: served_guarded served_try quiet_mirroring quiet_steps served_steps)
next
  case (BlockingSources sel)
  then show ?thesis
    by (auto simp: served_reply dispatch_blocking_sources_def intro!: served_guarded served_try quiet_steps served_steps)
next
  case (ActiveEpisodes src)
  then show ?thesis
    by (auto simp: served_reply dispatch_active_episodes_def intro!: served_guarded served_try quiet_mirroring quiet_steps served_steps)
next
  case (ActiveEpisode src sel)
  then show ?thesis
    by (auto simp: served_reply dispatch_active_episode_def intro!: served_guarded served_try quiet_mirroring quiet_steps served_steps split: option.split)
qed (use assms in blast)

text \<open>A reset goes to the durable journal first, degraded or not.\<close>

lemma reset_exec:
  "dj_primary (fst (dispatch_exec env (Deactivate es) d)) = fst (sql_exec (de_sql env) (Deactivate es) (dj_primary d))
   \<and> dj_degraded (fst (dispatch_exec env (Deactivate es) d)) = dj_degraded d
   \<and> mem_path keeping (dj_fallback d) (dj_fallback (fst (dispatch_exec env (Deactivate es) d)))"
proof -
  obtain db s where f: "sql_deactivate_episodes (de_sql env) es (dj_primary d) = (db, s)"
    by (cases "sql_deactivate_episodes (de_sql env) es (dj_primary d)")
  have "quiet keeping d' (bind_out (each fallback_episode es d') (\<lambda>d t. on_fallback (mem_deactivate_episodes t) d))" for d'
    by (rule quiet_bind) (auto intro: quiet_each quiet_steps)
  then have "quiet keeping (d\<lparr>dj_primary := db\<rparr>)
      (bind_out (each fallback_episode es (d\<lparr>dj_primary := db\<rparr>)) (\<lambda>d t. on_fallback (mem_deactivate_episodes t) d))" .
  then show ?thesis
    by (cases s) (simp_all add: dispatch_deactivate_episodes_def on_primary_def f quiet_def)
qed

subsection \<open>Emergencies go on without storage\<close>

text \<open>
  C24. The storage never vetoes an emergency. Whatever state the dispatcher is in and however the
  storage of the durable journal fails during a call, only a reset can come back with a storage or
  runtime failure; every other call is answered, or refused for a conflict, an unknown intent or an
  invalid argument.
\<close>

theorem storage_never_vetoes:
  assumes "snd (dispatch_exec env c d) = Inl e" and "\<not> non_storage_failure e"
  shows "\<exists>es. c = Deactivate es"
proof (rule ccontr)
  assume no: "\<nexists>es. c = Deactivate es"
  have "served (\<lambda>db. fst (sql_exec (de_sql env) c db)) (fallback_calls c) d (dispatch_exec env c d)"
    by (rule served_exec) (use no in auto)
  with assms show False by (simp add: served_def)
qed

definition durable_call :: "dispatch_env \<times> journal_call \<Rightarrow> sql_env \<times> journal_call" where
  "durable_call x = (de_sql (fst x), snd x)"

fun is_reset :: "journal_call \<Rightarrow> bool" where
  "is_reset (Deactivate es) = True"
| "is_reset c = False"

lemma is_reset_iff: "is_reset c \<longleftrightarrow> (\<exists>es. c = Deactivate es)"
  by (cases c) auto

lemma forwarded_step:
  "dj_primary (fst (dispatch_exec env c d)) = dj_primary d
   \<or> (dj_degraded d \<longrightarrow> is_reset c) \<and> dj_primary (fst (dispatch_exec env c d)) = fst (sql_exec (de_sql env) c (dj_primary d))"
proof (cases "is_reset c")
  case True
  then show ?thesis using reset_exec by (auto simp: is_reset_iff)
next
  case False
  then have "served (\<lambda>db. fst (sql_exec (de_sql env) c db)) (fallback_calls c) d (dispatch_exec env c d)"
    by (intro served_exec) (auto simp: is_reset_iff)
  then show ?thesis by (auto simp: served_def)
qed

lemma degraded_stays: "dj_degraded d \<Longrightarrow> dj_degraded (fst (dispatch_exec env c d))"
proof (cases "is_reset c")
  case True
  then show "dj_degraded d \<Longrightarrow> ?thesis" using reset_exec by (auto simp: is_reset_iff)
next
  case False
  then have "served (\<lambda>db. fst (sql_exec (de_sql env) c db)) (fallback_calls c) d (dispatch_exec env c d)"
    by (intro served_exec) (auto simp: is_reset_iff)
  then show "dj_degraded d \<Longrightarrow> ?thesis" by (simp add: served_def)
qed

text \<open>
  The durable journal sees exactly a part of the dispatcher's calls, in their order: whatever a
  run of the dispatcher does, with any failures, the durable journal ends in a state that it reaches
  by itself under a subsequence of the calls of the run. Once the dispatcher is degraded this part
  consists of resets only, so no intent is settled or released behind the storage's back.
\<close>

theorem durable_runs_a_part:
  "\<exists>ys. subseq ys (map durable_call xs) \<and> (dj_degraded d \<longrightarrow> list_all (\<lambda>y. is_reset (snd y)) ys)
     \<and> dj_primary (journal_run dispatch_exec xs d) = journal_run sql_exec ys (dj_primary d)"
proof (induction xs arbitrary: d)
  case Nil
  show ?case by (rule exI [of _ "[]"]) simp
next
  case (Cons x xs)
  obtain ys where ys: "subseq ys (map durable_call xs)"
    "dj_degraded (fst (dispatch_exec (fst x) (snd x) d)) \<longrightarrow> list_all (\<lambda>y. is_reset (snd y)) ys"
    "dj_primary (journal_run dispatch_exec (x # xs) d) = journal_run sql_exec ys (dj_primary (fst (dispatch_exec (fst x) (snd x) d)))"
    using Cons [of "fst (dispatch_exec (fst x) (snd x) d)"] by auto
  from forwarded_step [of "fst x" "snd x" d] show ?case
  proof
    assume "dj_primary (fst (dispatch_exec (fst x) (snd x) d)) = dj_primary d"
    with ys degraded_stays [of d "fst x" "snd x"] show ?thesis by (intro exI [of _ ys]) auto
  next
    assume "(dj_degraded d \<longrightarrow> is_reset (snd x))
      \<and> dj_primary (fst (dispatch_exec (fst x) (snd x) d)) = fst (sql_exec (de_sql (fst x)) (snd x) (dj_primary d))"
    with ys degraded_stays [of d "fst x" "snd x"] show ?thesis
      by (intro exI [of _ "durable_call x # ys"]) (auto simp: durable_call_def [of x])
  qed
qed

subsection \<open>One broker write per scope, degraded or not\<close>

definition dispatch_good :: "dispatch_journal \<Rightarrow> bool" where
  "dispatch_good d \<longleftrightarrow> sql_good (dj_primary d) \<and> mem_good (dj_fallback d)"

definition held :: "intent_key \<Rightarrow> dispatch_journal \<Rightarrow> bool" where
  "held k d \<longleftrightarrow> k \<in> key_of ` set (jv_intents (mem_view (dj_fallback d)))
     \<and> (dj_degraded d \<or> k \<in> key_of ` set (jv_intents (sql_view (dj_primary d))))"

lemma exec_fallback_path: "mem_path (fallback_calls c) (dj_fallback d) (dj_fallback (fst (dispatch_exec env c d)))"
proof (cases "is_reset c")
  case True
  then show ?thesis using reset_exec by (auto simp: is_reset_iff fallback_calls_def resolves_def)
next
  case False
  then have "served (\<lambda>db. fst (sql_exec (de_sql env) c db)) (fallback_calls c) d (dispatch_exec env c d)"
    by (intro served_exec) (auto simp: is_reset_iff)
  then show ?thesis by (simp add: served_def)
qed

lemma dispatch_good_new: "sql_good db \<Longrightarrow> dispatch_good (dispatch_new db)"
  by (simp add: dispatch_good_def dispatch_new_def mem_good_new)

lemma dispatch_good_exec: "dispatch_good d \<Longrightarrow> dispatch_good (fst (dispatch_exec env c d))"
  using forwarded_step [of env c d] exec_fallback_path [of c d env]
  by (auto simp: dispatch_good_def intro: mem_path_good sql_good_exec)

lemma mem_path_key:
  assumes "mem_path keeping m m'" and "mem_good m" and "k \<in> key_of ` set (jv_intents (mem_view m))"
  shows "k \<in> key_of ` set (jv_intents (mem_view m'))"
proof -
  have "mem_good m' \<and> k \<in> key_of ` set (jv_intents (mem_view m'))"
    using assms unfolding mem_path_def
  proof (induction rule: rtranclp_induct)
    case (step b c)
    then obtain call where call: "keeping call" "c = fst (mem_exec () call b)" by blast
    with step show ?case using mem.key_kept [of b k call "()"] by (auto simp: mem_good_exec keeping_def)
  qed simp
  then show ?thesis ..
qed

lemma held_kept:
  assumes "dispatch_good d" and "held k d" and "\<not> resolves c"
  shows "held k (fst (dispatch_exec env c d))"
proof -
  let ?d = "fst (dispatch_exec env c d)"
  have "mem_path keeping (dj_fallback d) (dj_fallback ?d)"
    using exec_fallback_path [of c d env] assms(3) by (simp add: fallback_calls_def)
  then have "k \<in> key_of ` set (jv_intents (mem_view (dj_fallback ?d)))"
    using assms(1,2) by (auto simp: dispatch_good_def held_def intro: mem_path_key)
  moreover have "dj_degraded ?d \<or> k \<in> key_of ` set (jv_intents (sql_view (dj_primary ?d)))"
    using assms degraded_stays [of d env c] forwarded_step [of env c d] sql.key_kept [of "dj_primary d" k c "de_sql env"]
    by (auto simp: held_def dispatch_good_def)
  ultimately show ?thesis by (simp add: held_def)
qed

text \<open>An answer \<open>created\<close> comes from one of the two journals, and the scope is held afterwards.\<close>

lemma reserve_answer:
  assumes "dispatch_good d" and "dispatch_reserve env a d = (d', Inr (r, new))"
  shows "(\<exists>m. mem_reserve a (dj_fallback d) = (m, Inr (r, new)) \<and> dj_fallback d' = m \<and> dj_degraded d')
    \<or> (\<exists>m fb db. mem_reserve a (dj_fallback d) = (m, Inr fb) \<and> dj_fallback d' = m \<and> \<not> dj_degraded d
        \<and> sql_reserve (de_sql env) a (dj_primary d) = (db, Inr (r, new)) \<and> dj_primary d' = db)"
proof -
  obtain m s where m: "mem_reserve a (dj_fallback d) = (m, s)" by (cases "mem_reserve a (dj_fallback d)")
  obtain db t where db: "sql_reserve (de_sql env) a (dj_primary d) = (db, t)" by (cases "sql_reserve (de_sql env) a (dj_primary d)")
  show ?thesis
    using assms(2) m db
    by (cases s; cases t)
       (auto simp: dispatch_reserve_def on_fallback_def try_primary_def on_primary_def degrade_def split: if_splits)
qed

lemma mem_reserve_key:
  assumes "mem_good m" and "mem_reserve a m = (m', Inr fb)"
  shows "intent_key a \<in> key_of ` set (jv_intents (mem_view m'))"
proof -
  have ex: "mem_exec () (Reserve a) m = (m', Inr (case fb of (r, new) \<Rightarrow> IntentReply r new))" using assms(2) by simp
  show ?thesis
  proof (cases "map_of (mj_records m) (intent_key a)")
    case None
    then have "snd fb" using assms(2) by (cases "validate_reserve a") (auto simp: mem_reserve_def Let_def split: if_splits)
    then have "creates_key (intent_key a) (Reserve a) (snd (mem_exec () (Reserve a) m))"
      using ex by (cases fb) (simp add: creates_key_def)
    from mem.created_effect(2) [OF assms(1) this] show ?thesis unfolding ex by simp
  next
    case (Some x)
    then have "m' = m" using assms(2) by (cases "validate_reserve a") (auto simp: mem_reserve_def)
    moreover have "find_intent (intent_key a) (jv_intents (mem_view m)) = Some x"
      using Some mem_good_facts(6) [OF assms(1)] by simp
    ultimately show ?thesis by (force simp: find_intent_def find_Some_iff in_set_conv_nth image_iff)
  qed
qed

lemma reserve_held:
  assumes "dispatch_good d" and "creates_key k c (snd (dispatch_exec env c d))"
  shows "\<not> held k d \<and> held k (fst (dispatch_exec env c d))"
proof -
  obtain a r where c: "c = Reserve a" "intent_key a = k" "snd (dispatch_exec env (Reserve a) d) = Inr (IntentReply r True)"
    using assms(2) by (auto simp: creates_key_def split: journal_call.splits sum.splits journal_reply.splits bool.splits)
  obtain d' s where d': "dispatch_reserve env a d = (d', s)" by (cases "dispatch_reserve env a d")
  with c have s: "s = Inr (r, True)" by (cases s) auto
  have good: "sql_good (dj_primary d)" "mem_good (dj_fallback d)" using assms(1) by (simp_all add: dispatch_good_def)
  from reserve_answer [OF assms(1) d' [unfolded s]] show ?thesis
  proof (elim disjE exE conjE)
    fix m assume m: "mem_reserve a (dj_fallback d) = (m, Inr (r, True))" "dj_fallback d' = m" "dj_degraded d'"
    then have "creates_key k (Reserve a) (snd (mem_exec () (Reserve a) (dj_fallback d)))" using c by (simp add: creates_key_def)
    from mem.created_effect [OF good(2) this] m c d' show ?thesis by (simp add: held_def)
  next
    fix m fb db assume m: "mem_reserve a (dj_fallback d) = (m, Inr fb)" "dj_fallback d' = m" "\<not> dj_degraded d"
      "sql_reserve (de_sql env) a (dj_primary d) = (db, Inr (r, True))" "dj_primary d' = db"
    then have "creates_key k (Reserve a) (snd (sql_exec (de_sql env) (Reserve a) (dj_primary d)))" using c by (simp add: creates_key_def)
    from sql.created_effect [OF good(1) this] mem_reserve_key [OF good(2) m(1)] m c d' show ?thesis by (simp add: held_def)
  qed
qed

interpretation dispatcher: scope_guard dispatch_exec dispatch_good held
  by unfold_locales (simp_all add: dispatch_good_exec reserve_held held_kept)

lemma dispatch_good_run: "dispatch_good d \<Longrightarrow> dispatch_good (journal_run dispatch_exec xs d)"
  by (induction xs arbitrary: d) (simp_all add: dispatch_good_exec)

text \<open>
  C23. The dispatcher hands out a scope for a broker write at most once between resolutions, also
  when its storage fails in the middle: it starts on a journal file in any state, has served any
  calls, and may degrade at any call; of the reservations of a scope that follow, at most one is
  answered as newly created until an intent is released or settled.
\<close>

theorem dispatcher_writes_once:
  assumes "list_all (\<lambda>x. \<not> resolves (snd x)) zs"
  shows "creations dispatch_exec k zs (journal_run dispatch_exec ys (dispatch_new (stored xs))) \<le> 1"
  by (rule dispatcher.created_at_most_once [OF dispatch_good_run [OF dispatch_good_new [OF sql_good_stored]] assms])

subsection \<open>Numbers after a restart\<close>

text \<open>
  A dispatcher restarted on a journal whose open intents are 2 and 3 mirrors them as 1 and 2. Once
  it is degraded it answers with the fallback's numbers, but translates the numbers it is given as
  if they were the durable ones.
\<close>

definition demo_today :: dispatch_env where
  "demo_today = \<lparr>de_sql = demo_env, de_today = ''2026-01-05''\<rparr>"

definition demo_broken :: dispatch_env where
  "demo_broken = demo_today\<lparr>de_sql := demo_env\<lparr>se_storage := Fails_before\<rparr>\<rparr>"

definition demo_scope :: "string \<Rightarrow> journal_call" where
  "demo_scope s = Reserve (demo_intent s)"

definition demo_open :: journal_call where
  "demo_open = Unresolved ''zerodha:AB1'' [''exit_all_positions''] (Some ''l5'')"

definition demo_file :: journal_db where
  "demo_file = stored (map (Pair demo_env) [Activate demo_episode, demo_scope ''s1'',
     Settle ''zerodha:AB1'' [''exit_all_positions''] ''l5'' [1], demo_scope ''s2'', demo_scope ''s3''])"

definition demo_restarted :: dispatch_journal where
  "demo_restarted = journal_run dispatch_exec
     [(demo_today, ActiveEpisodes None), (demo_today, demo_open), (demo_broken, BlockingSources ''zerodha:AB1'')] (dispatch_new demo_file)"

definition numbers_open :: "dispatch_journal \<Rightarrow> (int \<times> string \<times> intent_state) list" where
  "numbers_open d = (case snd (dispatch_exec demo_broken demo_open d) of
      Inr (IntentsReply rs) \<Rightarrow> map (\<lambda>r. (ei_id r, rq_scope (ei_request r), ei_state r)) rs | _ \<Rightarrow> [])"

lemma degraded_numbers_mixed:
  "numbers_open demo_restarted = [(1, ''s2'', Reserved), (2, ''s3'', Reserved)]"
  "snd (dispatch_exec demo_broken (Settle ''zerodha:AB1'' [''exit_all_positions''] ''l5'' [1, 2]) demo_restarted) = Inr (SettleReply False)"
  "numbers_open (fst (dispatch_exec demo_broken (Acknowledge 2 [''o3'']) demo_restarted))
     = [(1, ''s2'', Acknowledged), (2, ''s3'', Reserved)]"
  by code_simp+

text \<open>
  A restarted dispatcher asks its empty fallback first, so it refuses a reservation which the durable
  journal accepts, until the active episodes have been read once.
\<close>

lemma restart_needs_episodes:
  "isl (snd (dispatch_exec demo_today (demo_scope ''s4'') (dispatch_new demo_file)))
   \<and> \<not> isl (snd (sql_exec demo_env (demo_scope ''s4'') demo_file))
   \<and> \<not> isl (snd (dispatch_exec demo_today (demo_scope ''s4'')
       (fst (dispatch_exec demo_today (ActiveEpisodes None) (dispatch_new demo_file)))))"
  by code_simp

subsection \<open>Witnesses\<close>

theorem storage_never_vetoes_witness:
  "snd (dispatch_exec demo_broken (Deactivate [new_episode 1 demo_episode]) demo_restarted) = Inl StorageError
   \<and> (\<exists>es. Deactivate [new_episode 1 demo_episode] = Deactivate es)"
proof -
  have "snd (dispatch_exec demo_broken (Deactivate [new_episode 1 demo_episode]) demo_restarted) = Inl StorageError" by code_simp
  from storage_never_vetoes [OF this] this show ?thesis by simp
qed

theorem durable_runs_a_part_witness:
  "dj_degraded demo_restarted \<and> (\<exists>ys. subseq ys (map durable_call [(demo_today, demo_scope ''s4''), (demo_today, Release 2)])
     \<and> list_all (\<lambda>y. is_reset (snd y)) ys
     \<and> dj_primary (journal_run dispatch_exec [(demo_today, demo_scope ''s4''), (demo_today, Release 2)] demo_restarted)
         = journal_run sql_exec ys (dj_primary demo_restarted))"
proof -
  have "dj_degraded demo_restarted" by code_simp
  then show ?thesis using durable_runs_a_part [of "[(demo_today, demo_scope ''s4''), (demo_today, Release 2)]" demo_restarted] by blast
qed

theorem dispatcher_writes_once_witness:
  "creations dispatch_exec (intent_key (demo_intent ''s4''))
     [(demo_today, ActiveEpisodes None), (demo_today, demo_scope ''s4''), (demo_broken, demo_scope ''s4''), (demo_today, demo_scope ''s4'')]
     (journal_run dispatch_exec [(demo_today, ActiveEpisodes None)] (dispatch_new (stored [(demo_env, Activate demo_episode)]))) = 1"
  (is "creations _ _ ?zs ?d = 1")
proof -
  have "creations dispatch_exec (intent_key (demo_intent ''s4'')) ?zs ?d \<le> 1"
    by (rule dispatcher_writes_once) code_simp
  moreover have "creations dispatch_exec (intent_key (demo_intent ''s4'')) ?zs ?d \<noteq> 0" by code_simp
  ultimately show ?thesis by linarith
qed

end
