(* ===== verification/Py_Floats.thy ===== *)
theory Py_Floats
  imports Py_Numbers
begin

text \<open>
  Arithmetic and comparison of Python floats, on the values of \<open>Py_Numbers\<close>: each operation rounds
  its exact result to a double. The sign of zero is not kept: no comparison sees it, and a division
  by zero raises. Also \<open>str\<close> of a float and the compensated \<open>sum\<close> of Python 3.14.
\<close>

subsection \<open>Conversion\<close>

datatype float_error = FloatTypeError | FloatValueError | FloatOverflowError

fun to_float :: "pyval \<Rightarrow> float_error + fnum" where
  "to_float PNone = Inl FloatTypeError"
| "to_float (PBool b) = Inr (Fin (if b then 1 else 0))"
| "to_float (PInt i) = (case round64 (of_int i) of Fin r \<Rightarrow> Inr (Fin r) | _ \<Rightarrow> Inl FloatOverflowError)"
| "to_float (PFloat f s) = Inr f"
| "to_float (PStr s) = (case py_float s of None \<Rightarrow> Inl FloatValueError | Some f \<Rightarrow> Inr f)"

fun is_finite_float :: "fnum \<Rightarrow> bool" where
  "is_finite_float (Fin r) = True"
| "is_finite_float f = False"

subsection \<open>Comparison\<close>

fun f_less :: "fnum \<Rightarrow> fnum \<Rightarrow> bool" where
  "f_less (Fin a) (Fin b) = (a < b)"
| "f_less (Fin a) PosInf = True"
| "f_less NegInf (Fin b) = True"
| "f_less NegInf PosInf = True"
| "f_less _ _ = False"

definition f_le :: "fnum \<Rightarrow> fnum \<Rightarrow> bool" where
  "f_le a b \<longleftrightarrow> f_less a b \<or> a = b \<and> a \<noteq> NotANum"

lemma f_le_Fin [simp]: "f_le (Fin a) (Fin b) = (a \<le> b)"
  by (auto simp: f_le_def)

lemma f_less_irrefl [simp]: "\<not> f_less a a"
  by (cases a) simp_all

lemma f_less_trans: "f_less a b \<Longrightarrow> f_less b c \<Longrightarrow> f_less a c"
  by (cases a; cases b; cases c) simp_all

lemma f_le_trans: "f_le a b \<Longrightarrow> f_le b c \<Longrightarrow> f_le a c"
  by (auto simp: f_le_def intro: f_less_trans)

lemma f_not_le: "a \<noteq> NotANum \<Longrightarrow> b \<noteq> NotANum \<Longrightarrow> \<not> f_le a b \<longleftrightarrow> f_less b a"
  by (cases a; cases b) (auto simp: f_le_def)

subsection \<open>Arithmetic\<close>

fun f_sign :: "fnum \<Rightarrow> rat" where
  "f_sign (Fin a) = sgn a"
| "f_sign PosInf = 1"
| "f_sign NegInf = - 1"
| "f_sign NotANum = 0"

definition infinity_of :: "rat \<Rightarrow> fnum" where
  "infinity_of s = (if s < 0 then NegInf else if s = 0 then NotANum else PosInf)"

fun f_neg :: "fnum \<Rightarrow> fnum" where
  "f_neg (Fin a) = Fin (- a)"
| "f_neg PosInf = NegInf"
| "f_neg NegInf = PosInf"
| "f_neg NotANum = NotANum"

fun f_abs :: "fnum \<Rightarrow> fnum" where
  "f_abs (Fin a) = Fin \<bar>a\<bar>"
| "f_abs NotANum = NotANum"
| "f_abs f = PosInf"

fun f_add :: "fnum \<Rightarrow> fnum \<Rightarrow> fnum" where
  "f_add (Fin a) (Fin b) = round64 (a + b)"
| "f_add NotANum b = NotANum"
| "f_add a NotANum = NotANum"
| "f_add (Fin a) b = b"
| "f_add a (Fin b) = a"
| "f_add a b = (if a = b then a else NotANum)"

definition f_sub :: "fnum \<Rightarrow> fnum \<Rightarrow> fnum" where
  "f_sub a b = f_add a (f_neg b)"

fun f_mul :: "fnum \<Rightarrow> fnum \<Rightarrow> fnum" where
  "f_mul (Fin a) (Fin b) = round64 (a * b)"
| "f_mul NotANum b = NotANum"
| "f_mul a NotANum = NotANum"
| "f_mul a b = infinity_of (f_sign a * f_sign b)"

text \<open>\<open>None\<close>: \<open>ZeroDivisionError\<close>.\<close>

fun f_div :: "fnum \<Rightarrow> fnum \<Rightarrow> fnum option" where
  "f_div (Fin a) (Fin b) = (if b = 0 then None else Some (round64 (a / b)))"
| "f_div NotANum b = (if b = Fin 0 then None else Some NotANum)"
| "f_div a NotANum = Some NotANum"
| "f_div (Fin a) b = Some (Fin 0)"
| "f_div a (Fin b) = (if b = 0 then None else Some (infinity_of (f_sign a * sgn b)))"
| "f_div a b = Some NotANum"

text \<open>\<open>int(x)\<close> of a float; \<open>None\<close> is the \<open>ValueError\<close> or \<open>OverflowError\<close> of nan and infinities.\<close>

fun f_trunc :: "fnum \<Rightarrow> int option" where
  "f_trunc (Fin r) = Some (if 0 \<le> r then \<lfloor>r\<rfloor> else \<lceil>r\<rceil>)"
| "f_trunc f = None"

text \<open>\<open>math.isclose\<close>.\<close>

definition f_isclose :: "fnum \<Rightarrow> fnum \<Rightarrow> fnum \<Rightarrow> fnum \<Rightarrow> bool" where
  "f_isclose rel tol a b \<longleftrightarrow>
     a \<noteq> NotANum \<and> b \<noteq> NotANum \<and>
     (a = b \<or> a \<notin> {PosInf, NegInf} \<and> b \<notin> {PosInf, NegInf} \<and>
       (let diff = f_abs (f_sub b a)
        in f_le diff (f_abs (f_mul rel b)) \<or> f_le diff (f_abs (f_mul rel a)) \<or> f_le diff tol))"

subsection \<open>Text\<close>

text \<open>The decimal exponent of a positive number: \<open>10 ^ e \<le> r < 10 ^ (e + 1)\<close>.\<close>

definition decimal_exponent :: "rat \<Rightarrow> int" where
  "decimal_exponent r =
     (let (p, q) = quotient_of r; e = int (ndigits 10 p) - int (ndigits 10 q)
      in if scaled10 1 e \<le> r then e else e - 1)"

text \<open>
  The numbers with \<open>k\<close> significant digits around \<open>r\<close> that read back as \<open>r\<close>, the nearer one first;
  \<open>float.__repr__\<close> prints the first found for the least \<open>k\<close>. Seventeen digits are enough for a double.
\<close>

definition short_digits :: "rat \<Rightarrow> nat \<Rightarrow> (int \<times> int) list" where
  "short_digits r k =
     (let e = decimal_exponent r + 1 - int k; x = r * scaled10 1 (- e); near = (\<lambda>m. round64 (scaled10 m e) = Fin r)
      in map (\<lambda>m. (m, e)) (filter near (if \<bar>x - of_int \<lceil>x\<rceil>\<bar> < \<bar>x - of_int \<lfloor>x\<rfloor>\<bar> then [\<lceil>x\<rceil>, \<lfloor>x\<rfloor>] else [\<lfloor>x\<rfloor>, \<lceil>x\<rceil>])))"

definition shown_digits :: "int \<Rightarrow> string" where
  "shown_digits m = rev (dropWhile (\<lambda>c. c = CHR ''0'') (rev (show_int m)))"

definition layout_digits :: "string \<Rightarrow> int \<Rightarrow> string" where
  "layout_digits ds point =
     (if -4 < point \<and> point \<le> 16 then
        (if point \<le> 0 then ''0.'' @ replicate (nat (- point)) CHR ''0'' @ ds
         else if int (length ds) \<le> point then ds @ replicate (nat point - length ds) CHR ''0'' @ ''.0''
         else take (nat point) ds @ ''.'' @ drop (nat point) ds)
      else (let e = point - 1
            in take 1 ds @ (if length ds = 1 then [] else ''.'' @ drop 1 ds) @ ''e'' @ (if e < 0 then ''-'' else ''+'')
               @ (if \<bar>e\<bar> < 10 then ''0'' else []) @ show_int \<bar>e\<bar>))"

fun shortest :: "rat \<Rightarrow> nat list \<Rightarrow> (int \<times> int) option" where
  "shortest r [] = None"
| "shortest r (k # ks) = (case short_digits r k of [] \<Rightarrow> shortest r ks | d # _ \<Rightarrow> Some d)"

definition repr_pos :: "rat \<Rightarrow> string" where
  "repr_pos r =
     (case shortest r [1..<18] of
        None \<Rightarrow> []
      | Some (m, e) \<Rightarrow> layout_digits (shown_digits m) (int (length (show_int m)) + e))"

fun float_repr :: "fnum \<Rightarrow> string" where
  "float_repr (Fin r) = (if r = 0 then ''0.0'' else if r < 0 then ''-'' @ repr_pos (- r) else repr_pos r)"
| "float_repr PosInf = ''inf''"
| "float_repr NegInf = ''-inf''"
| "float_repr NotANum = ''nan''"

subsection \<open>sum\<close>

fun compensated :: "fnum \<Rightarrow> fnum \<Rightarrow> fnum list \<Rightarrow> fnum" where
  "compensated a c [] = (if c \<noteq> Fin 0 \<and> is_finite_float c then f_add a c else a)"
| "compensated a c (x # xs) =
     (let t = f_add a x
      in compensated t (f_add c (if f_le (f_abs x) (f_abs a) then f_add (f_sub a t) x else f_add (f_sub x t) a)) xs)"

fun py_sum :: "fnum list \<Rightarrow> fnum" where
  "py_sum [] = Fin 0"
| "py_sum (x # xs) = compensated x (Fin 0) xs"

subsection \<open>Whole numbers\<close>

text \<open>Sums of whole numbers below \<open>2 ^ 53\<close> are exact.\<close>

lemma f_add_int: "\<bar>a + b\<bar> < 2 ^ 53 \<Longrightarrow> f_add (Fin (of_int a)) (Fin (of_int b)) = Fin (of_int (a + b))"
  using round64_of_int [of "a + b"] by simp

lemma is_integer_of_int [simp]: "is_integer (Fin (of_int n))"
  by simp

lemma int_of_float_of_int [simp]: "int_of_float (Fin (of_int n)) = n"
  by simp

end
