(* ===== verification/Daily_Loss.thy ===== *)
theory Daily_Loss
  imports Py_Floats Iso_Time Sql_Store
begin

text \<open>
  Layer 4 of the safety system: \<open>daily_pnl_state.py\<close> (the frozen opening capital and the pause and
  hard-stop latches of an account in a session, in memory and in SQLite) and
  \<open>safety.DailyPnLLimits\<close>, which is written against the store protocol. The locale states what the
  limits need of a store; both stores interpret it.
\<close>

subsection \<open>Records and validation\<close>

datatype daily_error =
  DailyPnLStateError string
| SelectorError string
| FloatOverflow
| DateOverflow
| DailyAssertionError
| DailyStorageError

record daily_state =
  ds_selector :: string
  ds_session :: string
  ds_capital :: rat
  ds_paused :: bool
  ds_killed :: bool
  ds_revision :: int

type_synonym daily_key = "string \<times> string"

text \<open>\<open>request_context.parse_selector\<close>.\<close>

definition parse_selector :: "string \<Rightarrow> (string \<times> string) option" where
  "parse_selector s =
     (let a = takeWhile (\<lambda>c. c \<noteq> CHR '':'') s; rest = dropWhile (\<lambda>c. c \<noteq> CHR '':'') s
      in if rest = [] \<or> a = [] \<or> tl rest = [] then None else Some (a, tl rest))"

definition normalise_identity :: "string \<Rightarrow> string \<Rightarrow> daily_error + daily_key" where
  "normalise_identity sel ses =
     (let canonical = py_strip sel; session = py_strip ses
      in case parse_selector canonical of
           None \<Rightarrow> Inl (SelectorError canonical)
         | Some p \<Rightarrow> if session = [] then Inl (DailyPnLStateError ''daily P&L session key is required'') else Inr (canonical, session))"

definition positive_capital :: "pyval \<Rightarrow> daily_error + rat" where
  "positive_capital v =
     (case to_float v of
        Inl FloatOverflowError \<Rightarrow> Inl FloatOverflow
      | Inl e \<Rightarrow> Inl (DailyPnLStateError ''opening risk capital is invalid'')
      | Inr (Fin r) \<Rightarrow> if r \<le> 0 then Inl (DailyPnLStateError ''positive opening risk capital is required'') else Inr r
      | Inr f \<Rightarrow> Inl (DailyPnLStateError ''positive opening risk capital is required''))"

definition same_capital :: "rat \<Rightarrow> rat \<Rightarrow> bool" where
  "same_capital a b = f_isclose (round64 (1 / 1000000000)) (round64 (1 / 100)) (Fin a) (Fin b)"

definition frozen_state :: "daily_key \<Rightarrow> rat \<Rightarrow> daily_state" where
  "frozen_state k c = \<lparr>ds_selector = fst k, ds_session = snd k, ds_capital = c, ds_paused = False, ds_killed = False, ds_revision = 1\<rparr>"

definition latched :: "bool \<Rightarrow> bool \<Rightarrow> daily_state \<Rightarrow> daily_state" where
  "latched p k st = st\<lparr>ds_paused := ds_paused st \<or> p, ds_killed := ds_killed st \<or> k, ds_revision := ds_revision st + 1\<rparr>"

definition unlatched :: "daily_state \<Rightarrow> daily_state" where
  "unlatched st = st\<lparr>ds_paused := False, ds_killed := False, ds_revision := ds_revision st + 1\<rparr>"

definition not_frozen :: daily_error where
  "not_frozen = DailyPnLStateError ''opening risk capital has not been frozen for this session''"

definition already_frozen :: daily_error where
  "already_frozen = DailyPnLStateError ''opening risk capital is already frozen for this session''"

subsection \<open>The store in memory\<close>

type_synonym daily_states = "(daily_key \<times> daily_state) list"

definition daily_mem_resolve :: "string \<Rightarrow> string \<Rightarrow> pyval \<Rightarrow> daily_states \<Rightarrow> (daily_states, daily_error, daily_state) outcome" where
  "daily_mem_resolve sel ses observed m =
     bind_out (m, normalise_identity sel ses) (\<lambda>m k.
       case map_of m k of
         Some st \<Rightarrow> (m, Inr st)
       | None \<Rightarrow> bind_out (m, positive_capital observed) (\<lambda>m c. (AList.update k (frozen_state k c) m, Inr (frozen_state k c))))"

definition daily_mem_configure :: "string \<Rightarrow> string \<Rightarrow> pyval \<Rightarrow> daily_states \<Rightarrow> (daily_states, daily_error, daily_state) outcome" where
  "daily_mem_configure sel ses capital m =
     bind_out (m, normalise_identity sel ses) (\<lambda>m k.
     bind_out (m, positive_capital capital) (\<lambda>m c.
       case map_of m k of
         Some st \<Rightarrow> if \<not> same_capital (ds_capital st) c then (m, Inl already_frozen) else (m, Inr st)
       | None \<Rightarrow> (AList.update k (frozen_state k c) m, Inr (frozen_state k c))))"

definition daily_mem_latch :: "string \<Rightarrow> string \<Rightarrow> bool \<Rightarrow> bool \<Rightarrow> daily_states \<Rightarrow> (daily_states, daily_error, daily_state) outcome" where
  "daily_mem_latch sel ses paused killed m =
     bind_out (m, normalise_identity sel ses) (\<lambda>m k.
       case map_of m k of
         None \<Rightarrow> (m, Inl not_frozen)
       | Some st \<Rightarrow> (AList.update k (latched paused killed st) m, Inr (latched paused killed st)))"

definition daily_mem_reset :: "string \<Rightarrow> string \<Rightarrow> daily_states \<Rightarrow> (daily_states, daily_error, daily_state) outcome" where
  "daily_mem_reset sel ses m =
     bind_out (m, normalise_identity sel ses) (\<lambda>m k.
       case map_of m k of
         None \<Rightarrow> (m, Inl not_frozen)
       | Some st \<Rightarrow> (AList.update k (unlatched st) m, Inr (unlatched st)))"

definition daily_mem_get :: "string \<Rightarrow> string \<Rightarrow> daily_states \<Rightarrow> (daily_states, daily_error, daily_state option) outcome" where
  "daily_mem_get sel ses m = bind_out (m, normalise_identity sel ses) (\<lambda>m k. (m, Inr (map_of m k)))"

definition key_less :: "daily_key \<Rightarrow> daily_key \<Rightarrow> bool" where
  "key_less a b \<longleftrightarrow> text_less (fst a) (fst b) \<or> fst a = fst b \<and> text_less (snd a) (snd b)"

definition daily_mem_list_session :: "string \<Rightarrow> daily_states \<Rightarrow> (daily_states, daily_error, daily_state list) outcome" where
  "daily_mem_list_session ses m =
     (if py_strip ses = [] then (m, Inl (DailyPnLStateError ''daily P&L session key is required''))
      else (m, Inr (map (\<lambda>k. the (map_of m k)) (filter (\<lambda>k. snd k = py_strip ses) (sort_by key_less (map fst m))))))"

subsection \<open>The store in SQLite\<close>

record daily_row =
  dr_state :: daily_state
  dr_updated_at :: string

type_synonym daily_db = "daily_row list"

record daily_env =
  de_storage :: storage
  de_now :: string

abbreviation row_key :: "daily_row \<Rightarrow> daily_key" where
  "row_key w \<equiv> (ds_selector (dr_state w), ds_session (dr_state w))"

definition select_row :: "daily_key \<Rightarrow> daily_db \<Rightarrow> daily_row option" where
  "select_row k db = find (\<lambda>w. row_key w = k) db"

definition update_row :: "daily_env \<Rightarrow> daily_key \<Rightarrow> (daily_state \<Rightarrow> daily_state) \<Rightarrow> daily_db \<Rightarrow> daily_db" where
  "update_row env k f db = map (\<lambda>w. if row_key w = k then \<lparr>dr_state = f (dr_state w), dr_updated_at = de_now env\<rparr> else w) db"

definition insert_row :: "daily_env \<Rightarrow> daily_key \<Rightarrow> rat \<Rightarrow> daily_db \<Rightarrow> daily_db" where
  "insert_row env k c db = db @ [\<lparr>dr_state = frozen_state k c, dr_updated_at = de_now env\<rparr>]"

text \<open>\<open>assert row is not None\<close>; \<open>_record\<close> is the state of the row.\<close>

definition record_of_row :: "daily_key \<Rightarrow> daily_db \<Rightarrow> (daily_db, daily_error, daily_state) outcome" where
  "record_of_row k db = (case select_row k db of None \<Rightarrow> (db, Inl DailyAssertionError) | Some w \<Rightarrow> (db, Inr (dr_state w)))"

definition resolve_row :: "daily_env \<Rightarrow> daily_key \<Rightarrow> pyval \<Rightarrow> daily_db \<Rightarrow> (daily_db, daily_error, daily_state) outcome" where
  "resolve_row env k observed db =
     (case select_row k db of
        Some w \<Rightarrow> record_of_row k db
      | None \<Rightarrow> bind_out (db, positive_capital observed) (\<lambda>db c. record_of_row k (insert_row env k c db)))"

definition daily_sql_resolve :: "daily_env \<Rightarrow> string \<Rightarrow> string \<Rightarrow> pyval \<Rightarrow> daily_db \<Rightarrow> (daily_db, daily_error, daily_state) outcome" where
  "daily_sql_resolve env sel ses observed db =
     bind_out (db, normalise_identity sel ses) (\<lambda>db k. atomically DailyStorageError (de_storage env) (resolve_row env k observed) db)"

definition configure_row :: "daily_env \<Rightarrow> daily_key \<Rightarrow> rat \<Rightarrow> daily_db \<Rightarrow> (daily_db, daily_error, daily_state) outcome" where
  "configure_row env k c db =
     (case select_row k db of
        None \<Rightarrow> record_of_row k (insert_row env k c db)
      | Some w \<Rightarrow> if \<not> same_capital (ds_capital (dr_state w)) c then (db, Inl already_frozen) else record_of_row k db)"

definition daily_sql_configure :: "daily_env \<Rightarrow> string \<Rightarrow> string \<Rightarrow> pyval \<Rightarrow> daily_db \<Rightarrow> (daily_db, daily_error, daily_state) outcome" where
  "daily_sql_configure env sel ses capital db =
     bind_out (db, normalise_identity sel ses) (\<lambda>db k.
     bind_out (db, positive_capital capital) (\<lambda>db c. atomically DailyStorageError (de_storage env) (configure_row env k c) db))"

definition change_row_state :: "daily_env \<Rightarrow> daily_key \<Rightarrow> (daily_state \<Rightarrow> daily_state) \<Rightarrow> daily_db \<Rightarrow> (daily_db, daily_error, daily_state) outcome" where
  "change_row_state env k f db =
     (case select_row k db of
        None \<Rightarrow> (db, Inl not_frozen)
      | Some w \<Rightarrow> record_of_row k (update_row env k f db))"

definition daily_sql_latch :: "daily_env \<Rightarrow> string \<Rightarrow> string \<Rightarrow> bool \<Rightarrow> bool \<Rightarrow> daily_db \<Rightarrow> (daily_db, daily_error, daily_state) outcome" where
  "daily_sql_latch env sel ses paused killed db =
     bind_out (db, normalise_identity sel ses) (\<lambda>db k.
       atomically DailyStorageError (de_storage env) (change_row_state env k (latched paused killed)) db)"

definition daily_sql_reset :: "daily_env \<Rightarrow> string \<Rightarrow> string \<Rightarrow> daily_db \<Rightarrow> (daily_db, daily_error, daily_state) outcome" where
  "daily_sql_reset env sel ses db =
     bind_out (db, normalise_identity sel ses) (\<lambda>db k.
       atomically DailyStorageError (de_storage env) (change_row_state env k unlatched) db)"

definition daily_sql_get :: "daily_env \<Rightarrow> string \<Rightarrow> string \<Rightarrow> daily_db \<Rightarrow> (daily_db, daily_error, daily_state option) outcome" where
  "daily_sql_get env sel ses db =
     bind_out (db, normalise_identity sel ses) (\<lambda>db k.
       atomically DailyStorageError (de_storage env) (\<lambda>db. (db, Inr (map_option dr_state (select_row k db)))) db)"

definition daily_sql_list_session :: "daily_env \<Rightarrow> string \<Rightarrow> daily_db \<Rightarrow> (daily_db, daily_error, daily_state list) outcome" where
  "daily_sql_list_session env ses db =
     (if py_strip ses = [] then (db, Inl (DailyPnLStateError ''daily P&L session key is required''))
      else atomically DailyStorageError (de_storage env) (\<lambda>db.
        (db, Inr (sort_by (\<lambda>a b. text_less (ds_selector a) (ds_selector b))
           (filter (\<lambda>st. ds_session st = py_strip ses) (map dr_state db))))) db)"

text \<open>The store protocol, and the two objects that have it.\<close>

record ('env, 's) state_store =
  st_resolve :: "'env \<Rightarrow> string \<Rightarrow> string \<Rightarrow> pyval \<Rightarrow> 's \<Rightarrow> ('s, daily_error, daily_state) outcome"
  st_configure :: "'env \<Rightarrow> string \<Rightarrow> string \<Rightarrow> pyval \<Rightarrow> 's \<Rightarrow> ('s, daily_error, daily_state) outcome"
  st_latch :: "'env \<Rightarrow> string \<Rightarrow> string \<Rightarrow> bool \<Rightarrow> bool \<Rightarrow> 's \<Rightarrow> ('s, daily_error, daily_state) outcome"
  st_reset :: "'env \<Rightarrow> string \<Rightarrow> string \<Rightarrow> 's \<Rightarrow> ('s, daily_error, daily_state) outcome"
  st_get :: "'env \<Rightarrow> string \<Rightarrow> string \<Rightarrow> 's \<Rightarrow> ('s, daily_error, daily_state option) outcome"
  st_list_session :: "'env \<Rightarrow> string \<Rightarrow> 's \<Rightarrow> ('s, daily_error, daily_state list) outcome"

definition memory_store :: "(unit, daily_states) state_store" where
  "memory_store = \<lparr>st_resolve = (\<lambda>_. daily_mem_resolve), st_configure = (\<lambda>_. daily_mem_configure), st_latch = (\<lambda>_. daily_mem_latch),
     st_reset = (\<lambda>_. daily_mem_reset), st_get = (\<lambda>_. daily_mem_get), st_list_session = (\<lambda>_. daily_mem_list_session)\<rparr>"

definition sqlite_store :: "(daily_env, daily_db) state_store" where
  "sqlite_store = \<lparr>st_resolve = daily_sql_resolve, st_configure = daily_sql_configure, st_latch = daily_sql_latch,
     st_reset = daily_sql_reset, st_get = daily_sql_get, st_list_session = daily_sql_list_session\<rparr>"

subsection \<open>DailyPnLLimits\<close>

text \<open>
  A verdict of a layer. Sentences that show formatted numbers are kept as the sentence with a
  \<open>{}\<close> for each number and the numbers; long dashes are written as \<open>-\<close>.
\<close>

record safety_result =
  sr_passed :: bool
  sr_layer :: string
  sr_reason :: string
  sr_numbers :: "fnum list"

definition pass_result :: "string \<Rightarrow> safety_result" where
  "pass_result layer = \<lparr>sr_passed = True, sr_layer = layer, sr_reason = [], sr_numbers = []\<rparr>"

definition fail_result :: "string \<Rightarrow> string \<Rightarrow> fnum list \<Rightarrow> safety_result" where
  "fail_result layer why ns = \<lparr>sr_passed = False, sr_layer = layer, sr_reason = why, sr_numbers = ns\<rparr>"

lemma verdict_simps [simp]: "sr_passed (pass_result l)" "\<not> sr_passed (fail_result l w ns)" "sr_reason (fail_result l w ns) = w"
  "sr_reason (pass_result l) = []"
  by (simp_all add: pass_result_def fail_result_def)

text \<open>A \<open>datetime\<close>: naive, or aware with its offset from UTC in minutes.\<close>

datatype moment = Naive datetime | Aware datetime int

definition date_text :: "datetime \<Rightarrow> string" where
  "date_text t = pad 4 (dt_year t) @ ''-'' @ pad 2 (dt_month t) @ ''-'' @ pad 2 (dt_day t)"

fun session_key :: "moment \<Rightarrow> string option" where
  "session_key (Naive t) = Some (date_text t)"
| "session_key (Aware t offset) = map_option date_text (add_minutes t (330 - offset))"

record 's daily_limits =
  dl_pause_pct :: fnum
  dl_kill_pct :: fnum
  dl_store :: 's
  dl_faults :: "daily_key list"

type_synonym ('s, 'a) limited = "('s daily_limits, daily_error, 'a) outcome"

definition l4_fail :: "string \<Rightarrow> fnum list \<Rightarrow> safety_result" where
  "l4_fail = fail_result ''L4_PNL''"

definition in_session :: "moment \<Rightarrow> (string \<Rightarrow> 's daily_limits \<Rightarrow> ('s, 'a) limited) \<Rightarrow> 's daily_limits \<Rightarrow> ('s, 'a) limited" where
  "in_session tm f d = (case session_key tm of None \<Rightarrow> (d, Inl DateOverflow) | Some ses \<Rightarrow> f ses d)"

definition on_store :: "('s \<Rightarrow> ('s, daily_error, 'a) outcome) \<Rightarrow> 's daily_limits \<Rightarrow> ('s, 'a) limited" where
  "on_store f d = (case f (dl_store d) of (s, r) \<Rightarrow> (d\<lparr>dl_store := s\<rparr>, r))"

text \<open>The loss in percent of the opening capital, which is positive.\<close>

definition loss_pct :: "rat \<Rightarrow> rat \<Rightarrow> fnum" where
  "loss_pct pnl capital = (if pnl < 0 then f_mul (round64 (- pnl / capital)) (Fin 100) else Fin 0)"

definition latch_or_fault :: "('env, 's) state_store \<Rightarrow> 'env \<Rightarrow> string \<Rightarrow> string \<Rightarrow> bool \<Rightarrow> bool \<Rightarrow> 's daily_limits \<Rightarrow> 's daily_limits" where
  "latch_or_fault store env sel ses paused killed d =
     (case on_store (st_latch store env sel ses paused killed) d of
        (d', Inl e) \<Rightarrow> d'\<lparr>dl_faults := List.insert (sel, ses) (dl_faults d')\<rparr>
      | (d', Inr st) \<Rightarrow> d')"

definition hard_stop_sentence :: string where
  "hard_stop_sentence = ''Hard stop triggered: daily loss {}% exceeds {}%''"

definition pause_sentence :: string where
  "pause_sentence = ''Pause triggered: daily loss {}% exceeds {}%''"

definition judge_loss :: "('env, 's) state_store \<Rightarrow> 'env \<Rightarrow> rat \<Rightarrow> string \<Rightarrow> string \<Rightarrow> daily_state \<Rightarrow> 's daily_limits \<Rightarrow> 's daily_limits \<times> safety_result" where
  "judge_loss store env pnl sel ses st d =
     (let loss = loss_pct pnl (ds_capital st)
      in if ds_killed st then (d, l4_fail ''Daily-loss hard stop active - manual reset required'' [])
         else if ds_paused st then (d, l4_fail ''Trading paused due to daily P&L limit - manual reset required'' [])
         else if f_le (dl_kill_pct d) loss
         then (latch_or_fault store env sel ses False True d, l4_fail hard_stop_sentence [loss, dl_kill_pct d])
         else if f_le (dl_pause_pct d) loss
         then (latch_or_fault store env sel ses True False d, l4_fail pause_sentence [loss, dl_pause_pct d])
         else (d, pass_result ''L4_PNL''))"

definition check_finite_pnl :: "('env, 's) state_store \<Rightarrow> 'env \<times> 'env \<Rightarrow> rat \<Rightarrow> pyval \<Rightarrow> string \<Rightarrow> string \<Rightarrow> 's daily_limits \<Rightarrow> ('s, safety_result) limited" where
  "check_finite_pnl store envs pnl starting sel ses d =
     (if (sel, ses) \<in> set (dl_faults d)
      then (d, Inr (l4_fail ''Durable daily-loss latch is unavailable - manual reset required'' []))
      else (case on_store (st_resolve store (fst envs) sel ses starting) d of
              (d', Inl e) \<Rightarrow>
                if e \<in> {FloatOverflow, DailyAssertionError} then (d', Inl e)
                else (d', Inr (l4_fail ''Opening risk capital or durable daily-loss state is unavailable'' []))
            | (d', Inr st) \<Rightarrow> (case judge_loss store (snd envs) pnl sel ses st d' of (d'', r) \<Rightarrow> (d'', Inr r))))"

definition pnl_validate :: "('env, 's) state_store \<Rightarrow> 'env \<times> 'env \<Rightarrow> pyval \<Rightarrow> pyval \<Rightarrow> string \<Rightarrow> moment \<Rightarrow> 's daily_limits \<Rightarrow> ('s, safety_result) limited" where
  "pnl_validate store envs daily_pnl starting sel tm =
     in_session tm (\<lambda>ses d.
       case to_float daily_pnl of
         Inl FloatOverflowError \<Rightarrow> (d, Inl FloatOverflow)
       | Inr (Fin pnl) \<Rightarrow> check_finite_pnl store envs pnl starting sel ses d
       | _ \<Rightarrow> (d, Inr (l4_fail ''Current daily P&L is unavailable'' [])))"

definition limits_configure :: "('env, 's) state_store \<Rightarrow> 'env \<Rightarrow> string \<Rightarrow> pyval \<Rightarrow> moment \<Rightarrow> 's daily_limits \<Rightarrow> ('s, daily_state) limited" where
  "limits_configure store env sel capital tm = in_session tm (\<lambda>ses. on_store (st_configure store env sel ses capital))"

definition limits_reset :: "('env, 's) state_store \<Rightarrow> 'env \<Rightarrow> string \<Rightarrow> moment \<Rightarrow> 's daily_limits \<Rightarrow> ('s, daily_state) limited" where
  "limits_reset store env sel tm =
     in_session tm (\<lambda>ses d. bind_out (on_store (st_reset store env sel ses) d) (\<lambda>d st.
       (d\<lparr>dl_faults := filter (\<lambda>k. k \<noteq> (sel, ses)) (dl_faults d)\<rparr>, Inr st)))"

definition limits_state :: "('env, 's) state_store \<Rightarrow> 'env \<Rightarrow> string \<Rightarrow> moment \<Rightarrow> 's daily_limits \<Rightarrow> ('s, daily_state option) limited" where
  "limits_state store env sel tm = in_session tm (\<lambda>ses. on_store (st_get store env sel ses))"

definition limits_states :: "('env, 's) state_store \<Rightarrow> 'env \<Rightarrow> moment \<Rightarrow> 's daily_limits \<Rightarrow> ('s, daily_state list) limited" where
  "limits_states store env tm = in_session tm (\<lambda>ses. on_store (st_list_session store env ses))"

definition is_paused :: "('env, 's) state_store \<Rightarrow> 'env \<Rightarrow> moment \<Rightarrow> 's daily_limits \<Rightarrow> ('s, bool) limited" where
  "is_paused store env now d = bind_out (limits_states store env now d) (\<lambda>d sts. (d, Inr (list_ex ds_paused sts)))"

definition is_killed :: "('env, 's) state_store \<Rightarrow> 'env \<Rightarrow> moment \<Rightarrow> 's daily_limits \<Rightarrow> ('s, bool) limited" where
  "is_killed store env now d = bind_out (limits_states store env now d) (\<lambda>d sts. (d, Inr (list_ex ds_killed sts)))"

text \<open>
  The life of the layer: calls, and restarts of the process, which bind fresh limits to the same
  store.
\<close>

datatype 'env limits_op =
  Validate "'env \<times> 'env" pyval pyval string moment
| ConfigureCapital 'env string pyval moment
| ResetLatches 'env string moment
| Restart

fun limits_exec :: "('env, 's) state_store \<Rightarrow> 's daily_limits \<Rightarrow> 'env limits_op \<Rightarrow> 's daily_limits" where
  "limits_exec store d (Validate envs pnl starting sel tm) = fst (pnl_validate store envs pnl starting sel tm d)"
| "limits_exec store d (ConfigureCapital env sel capital tm) = fst (limits_configure store env sel capital tm d)"
| "limits_exec store d (ResetLatches env sel tm) = fst (limits_reset store env sel tm d)"
| "limits_exec store d Restart = d\<lparr>dl_faults := []\<rparr>"

subsection \<open>What a store promises\<close>

definition daily_ok :: "daily_states \<Rightarrow> bool" where
  "daily_ok m \<longleftrightarrow> distinct (map fst m) \<and> list_all (\<lambda>(k, st). k = (ds_selector st, ds_session st) \<and> 0 < ds_capital st \<and> 1 \<le> ds_revision st) m"

definition barred :: "daily_key \<Rightarrow> daily_states \<Rightarrow> bool" where
  "barred k m = (case map_of m k of None \<Rightarrow> False | Some st \<Rightarrow> ds_paused st \<or> ds_killed st)"

definition capital_of :: "daily_key \<Rightarrow> daily_states \<Rightarrow> rat option" where
  "capital_of k m = map_option ds_capital (map_of m k)"

locale daily_store =
  fixes store :: "('env, 's) state_store"
    and good :: "'s \<Rightarrow> bool"
    and states :: "'s \<Rightarrow> daily_states"
  assumes resolve: "store_refines DailyStorageError good states (st_resolve store env sel ses v) (daily_mem_resolve sel ses v)"
    and configure: "store_refines DailyStorageError good states (st_configure store env sel ses v) (daily_mem_configure sel ses v)"
    and latch: "store_refines DailyStorageError good states (st_latch store env sel ses p k) (daily_mem_latch sel ses p k)"
    and reset: "store_refines DailyStorageError good states (st_reset store env sel ses) (daily_mem_reset sel ses)"

lemma state_changes [simp]:
  "ds_capital (latched p k st) = ds_capital st" "ds_capital (unlatched st) = ds_capital st" "ds_capital (frozen_state key c) = c"
  "ds_paused (latched p k st) = (ds_paused st \<or> p)" "ds_killed (latched p k st) = (ds_killed st \<or> k)"
  "\<not> ds_paused (unlatched st)" "\<not> ds_killed (unlatched st)" "\<not> ds_paused (frozen_state key c)" "\<not> ds_killed (frozen_state key c)"
  "ds_selector (latched p k st) = ds_selector st" "ds_session (latched p k st) = ds_session st"
  "ds_selector (unlatched st) = ds_selector st" "ds_session (unlatched st) = ds_session st"
  "ds_selector (frozen_state key c) = fst key" "ds_session (frozen_state key c) = snd key"
  "ds_revision (latched p k st) = ds_revision st + 1" "ds_revision (unlatched st) = ds_revision st + 1" "ds_revision (frozen_state key c) = 1"
  by (simp_all add: latched_def unlatched_def frozen_state_def)

lemmas daily_mem_defs = daily_mem_resolve_def daily_mem_configure_def daily_mem_latch_def daily_mem_reset_def

lemma bind_pure_split: "P (bind_out (s, r) f) \<longleftrightarrow> (\<forall>e. r = Inl e \<longrightarrow> P (s, Inl e)) \<and> (\<forall>x. r = Inr x \<longrightarrow> P (f s x))"
  by (cases r) simp_all

lemma map_of_update_cases: "map_of (AList.update k v m) k' = (if k' = k then Some v else map_of m k')"
  by simp

text \<open>An open latch stays, apart from its own reset; the opening capital stays, whatever is called.\<close>

lemma barred_kept:
  assumes "barred k m"
  shows "barred k (fst (daily_mem_resolve sel ses v m))" "barred k (fst (daily_mem_configure sel ses v m))"
    "barred k (fst (daily_mem_latch sel ses p q m))"
    "normalise_identity sel ses \<noteq> Inr k \<Longrightarrow> barred k (fst (daily_mem_reset sel ses m))"
  using assms
  by (auto simp: barred_def daily_mem_defs map_of_update_cases split: bind_pure_split option.splits if_splits)

lemma capital_kept:
  assumes "capital_of k m = Some c"
  shows "capital_of k (fst (daily_mem_resolve sel ses v m)) = Some c" "capital_of k (fst (daily_mem_configure sel ses v m)) = Some c"
    "capital_of k (fst (daily_mem_latch sel ses p q m)) = Some c" "capital_of k (fst (daily_mem_reset sel ses m)) = Some c"
  using assms
  by (auto simp: capital_of_def daily_mem_defs map_of_update_cases split: bind_pure_split option.splits if_splits)

lemma latch_bars:
  assumes "snd (daily_mem_latch sel ses p q m) = Inr st" and "p \<or> q"
  shows "\<exists>k. normalise_identity sel ses = Inr k \<and> barred k (fst (daily_mem_latch sel ses p q m))"
  using assms
  by (cases "normalise_identity sel ses") (auto simp: barred_def daily_mem_latch_def map_of_update_cases split: option.splits)

lemma resolve_reads:
  assumes "snd (daily_mem_resolve sel ses v m) = Inr st"
  shows "\<exists>k. normalise_identity sel ses = Inr k \<and> map_of (fst (daily_mem_resolve sel ses v m)) k = Some st
     \<and> (map_of m k = Some st \<or> map_of m k = None \<and> \<not> ds_paused st \<and> \<not> ds_killed st)"
  using assms
  by (cases "normalise_identity sel ses"; cases "positive_capital v")
     (auto simp: daily_mem_resolve_def map_of_update_cases split: option.splits)

lemma refined_keeps:
  assumes "store_refines e good states f g" and "good s" and "P (states s)" and "P (states s) \<Longrightarrow> P (fst (g (states s)))"
  shows "P (states (fst (f s)))"
  using store_refinesD(2) [OF assms(1,2)] assms(3,4) by auto

subsection \<open>The limits over any store\<close>

definition lifts :: "string \<Rightarrow> string \<Rightarrow> 'env limits_op \<Rightarrow> bool" where
  "lifts sel ses op =
     (case op of
        ResetLatches env sel' tm \<Rightarrow>
          (case session_key tm of None \<Rightarrow> False | Some ses' \<Rightarrow> normalise_identity sel' ses' = normalise_identity sel ses)
      | _ \<Rightarrow> False)"

lemma on_store_fields [simp]:
  "dl_store (fst (on_store f d)) = fst (f (dl_store d))" "dl_faults (fst (on_store f d)) = dl_faults d"
  "snd (on_store f d) = snd (f (dl_store d))" "dl_pause_pct (fst (on_store f d)) = dl_pause_pct d" "dl_kill_pct (fst (on_store f d)) = dl_kill_pct d"
  by (simp_all add: on_store_def split: prod.splits)

text \<open>An account that a breach has shut out of the session.\<close>

definition blocked :: "('s \<Rightarrow> daily_states) \<Rightarrow> string \<Rightarrow> string \<Rightarrow> 's daily_limits \<Rightarrow> bool" where
  "blocked states sel ses d \<longleftrightarrow> (sel, ses) \<in> set (dl_faults d)
     \<or> (case normalise_identity sel ses of Inl e \<Rightarrow> False | Inr k \<Rightarrow> barred k (states (dl_store d)))"

context daily_store
begin

text \<open>Every call works on the store through the protocol, so what the protocol keeps is kept.\<close>

lemma latch_or_fault_store:
  "dl_store (latch_or_fault store env sel ses p q d) = fst (st_latch store env sel ses p q (dl_store d))"
  "set (dl_faults d) \<subseteq> set (dl_faults (latch_or_fault store env sel ses p q d))"
  by (auto simp: latch_or_fault_def on_store_def split: prod.splits sum.splits)

lemma validate_store:
  "dl_store (fst (pnl_validate store envs pnl starting sel tm d)) = dl_store d
   \<or> (\<exists>ses. let s = fst (st_resolve store (fst envs) sel ses starting (dl_store d))
       in dl_store (fst (pnl_validate store envs pnl starting sel tm d)) = s
        \<or> (\<exists>p q. dl_store (fst (pnl_validate store envs pnl starting sel tm d)) = fst (st_latch store (snd envs) sel ses p q s)))"
proof -
  have judge: "dl_store (fst (judge_loss store env x sel ses st d)) = dl_store d
      \<or> (\<exists>p q. dl_store (fst (judge_loss store env x sel ses st d)) = fst (st_latch store env sel ses p q (dl_store d)))" for env x ses st d
    by (auto simp: judge_loss_def Let_def latch_or_fault_store)
  have "dl_store (fst (check_finite_pnl store envs x starting sel ses d)) = dl_store d
      \<or> (let s = fst (st_resolve store (fst envs) sel ses starting (dl_store d))
         in dl_store (fst (check_finite_pnl store envs x starting sel ses d)) = s
          \<or> (\<exists>p q. dl_store (fst (check_finite_pnl store envs x starting sel ses d)) = fst (st_latch store (snd envs) sel ses p q s)))" for x ses
  proof (cases "on_store (st_resolve store (fst envs) sel ses starting) d")
    case (Pair d' r)
    then have d': "dl_store d' = fst (st_resolve store (fst envs) sel ses starting (dl_store d))"
      using on_store_fields(1) [of "st_resolve store (fst envs) sel ses starting" d] by simp
    show ?thesis
    proof (cases r)
      case (Inl e)
      with Pair d' show ?thesis by (simp add: check_finite_pnl_def Let_def)
    next
      case (Inr st)
      with Pair d' judge [of "snd envs" x ses st d'] show ?thesis
        by (cases "judge_loss store (snd envs) x sel ses st d'") (auto simp: check_finite_pnl_def Let_def)
    qed
  qed
  then show ?thesis
    by (auto simp: pnl_validate_def in_session_def Let_def split: option.splits sum.splits float_error.splits fnum.splits) blast
qed

lemma exec_keeps:
  assumes "good (dl_store d)" and "P (states (dl_store d))"
    and "\<And>m sel ses v. P m \<Longrightarrow> P (fst (daily_mem_resolve sel ses v m))" and "\<And>m sel ses v. P m \<Longrightarrow> P (fst (daily_mem_configure sel ses v m))"
    and "\<And>m sel ses p q. P m \<Longrightarrow> P (fst (daily_mem_latch sel ses p q m))"
    and "\<And>m env sel tm ses. op = ResetLatches env sel tm \<Longrightarrow> session_key tm = Some ses \<Longrightarrow> P m \<Longrightarrow> P (fst (daily_mem_reset sel ses m))"
  shows "good (dl_store (limits_exec store d op)) \<and> P (states (dl_store (limits_exec store d op)))"
proof -
  have step: "good (fst (f s)) \<and> P (states (fst (f s)))"
    if "store_refines DailyStorageError good states f g" "good s" "P (states s)" "\<And>m. P m \<Longrightarrow> P (fst (g m))" for f g s
    using store_refinesD(1,2) [OF that(1,2)] that(3,4) by auto
  note resolved = step [OF resolve _ _ assms(3)] and configured = step [OF configure _ _ assms(4)] and latches = step [OF latch _ _ assms(5)]
  show ?thesis
  proof (cases op)
    case (Validate envs pnl starting sel tm)
    have r: "good (fst (st_resolve store (fst envs) sel ses starting (dl_store d))) \<and> P (states (fst (st_resolve store (fst envs) sel ses starting (dl_store d))))" for ses
      by (rule resolved [OF assms(1,2)])
    then have "good (fst (st_latch store (snd envs) sel ses p q (fst (st_resolve store (fst envs) sel ses starting (dl_store d)))))
      \<and> P (states (fst (st_latch store (snd envs) sel ses p q (fst (st_resolve store (fst envs) sel ses starting (dl_store d))))))" for ses p q
      using latches by blast
    with r assms(1,2) Validate validate_store [of envs pnl starting sel tm d] show ?thesis by (auto simp: Let_def)
  next
    case (ConfigureCapital env sel capital tm)
    then show ?thesis using assms(1,2) configured by (auto simp: limits_configure_def in_session_def split: option.splits)
  next
    case (ResetLatches env sel tm)
    then have "good (fst (st_reset store env sel ses (dl_store d))) \<and> P (states (fst (st_reset store env sel ses (dl_store d))))"
      if "session_key tm = Some ses" for ses
      using step [OF reset assms(1,2) assms(6) [OF ResetLatches that]] by blast
    then show ?thesis using assms(1,2) ResetLatches
      by (auto simp: limits_reset_def in_session_def fst_bind_out split: option.splits sum.splits)
  qed (use assms(1,2) in simp)
qed

lemma good_limits: "good (dl_store d) \<Longrightarrow> good (dl_store (limits_exec store d op))"
  using exec_keeps [of d "\<lambda>_. True" op] by simp

lemma barred_exec:
  assumes "good (dl_store d)" and "barred k (states (dl_store d))" and "normalise_identity sel ses = Inr k" and "\<not> lifts sel ses op"
  shows "barred k (states (dl_store (limits_exec store d op)))"
proof -
  have "good (dl_store (limits_exec store d op)) \<and> barred k (states (dl_store (limits_exec store d op)))"
    by (rule exec_keeps [where P = "barred k", OF assms(1,2)]) (use assms(3,4) in \<open>auto intro: barred_kept simp: lifts_def\<close>)
  then show ?thesis ..
qed

lemma capital_exec:
  assumes "good (dl_store d)" and "capital_of k (states (dl_store d)) = Some c"
  shows "capital_of k (states (dl_store (limits_exec store d op))) = Some c"
proof -
  have "good (dl_store (limits_exec store d op)) \<and> capital_of k (states (dl_store (limits_exec store d op))) = Some c"
    by (rule exec_keeps [where P = "\<lambda>m. capital_of k m = Some c", OF assms]) (auto intro: capital_kept)
  then show ?thesis ..
qed

lemma fault_exec:
  assumes "(sel, ses) \<in> set (dl_faults d)" and "\<not> lifts sel ses op" and "op \<noteq> Restart"
  shows "(sel, ses) \<in> set (dl_faults (limits_exec store d op))"
proof (cases op)
  case (Validate envs pnl starting sel' tm)
  have "dl_faults d \<noteq> [] \<Longrightarrow> set (dl_faults d) \<subseteq> set (dl_faults (fst (judge_loss store env x sel' ses' st d)))" for env x ses' st d
    using latch_or_fault_store(2) by (fastforce simp: judge_loss_def Let_def)
  then have "set (dl_faults d) \<subseteq> set (dl_faults (fst (check_finite_pnl store envs x starting sel' ses' d)))" for x ses'
    using assms(1) latch_or_fault_store(2)
    by (fastforce simp: check_finite_pnl_def on_store_def judge_loss_def Let_def split: prod.splits sum.splits)
  with Validate assms(1) show ?thesis
    by (auto simp: pnl_validate_def in_session_def split: option.splits sum.splits float_error.splits fnum.splits)
next
  case (ConfigureCapital env sel' capital tm)
  with assms show ?thesis by (auto simp: limits_configure_def in_session_def split: option.splits)
next
  case (ResetLatches env sel' tm)
  with assms show ?thesis
    by (auto simp: limits_reset_def in_session_def fst_bind_out lifts_def split: option.splits sum.splits)
qed (use assms in simp)

lemma blocked_never_passes:
  assumes "good (dl_store d)" and "blocked states sel ses d" and "session_key tm = Some ses"
    and "pnl_validate store envs pnl starting sel tm d = (d', Inr r)"
  shows "\<not> sr_passed r"
proof -
  have "\<not> sr_passed r" if check: "check_finite_pnl store envs x starting sel ses d = (d', Inr r)" for x
  proof (cases "(sel, ses) \<in> set (dl_faults d)")
    case True
    with check show ?thesis by (auto simp: check_finite_pnl_def l4_fail_def)
  next
    case False
    with assms(2) obtain k where k: "normalise_identity sel ses = Inr k" "barred k (states (dl_store d))" by (auto simp: blocked_def split: sum.splits)
    obtain s res where res: "st_resolve store (fst envs) sel ses starting (dl_store d) = (s, res)"
      by (cases "st_resolve store (fst envs) sel ses starting (dl_store d)")
    show ?thesis
    proof (cases res)
      case (Inl e)
      with check res False show ?thesis by (auto simp: check_finite_pnl_def on_store_def l4_fail_def split: if_splits)
    next
      case (Inr st)
      have "(states s, Inr st) = daily_mem_resolve sel ses starting (states (dl_store d))"
        using store_refinesD(3) [OF resolve assms(1), of "fst envs" sel ses starting] res Inr by simp
      then have "map_of (states (dl_store d)) k = Some st"
        using resolve_reads [of sel ses starting "states (dl_store d)" st] k by (auto simp: barred_def split: option.splits) (metis snd_conv)+
      then have "ds_paused st \<or> ds_killed st" using k(2) by (simp add: barred_def)
      with check res Inr False show ?thesis
        by (auto simp: check_finite_pnl_def on_store_def judge_loss_def l4_fail_def Let_def split: if_splits)
    qed
  qed
  with assms(3,4) show ?thesis
    by (auto simp: pnl_validate_def in_session_def l4_fail_def split: sum.splits float_error.splits fnum.splits)
qed

end

subsection \<open>Both stores keep the promise\<close>

definition db_states :: "daily_db \<Rightarrow> daily_states" where
  "db_states db = map (\<lambda>w. (row_key w, dr_state w)) db"

definition daily_good :: "daily_db \<Rightarrow> bool" where
  "daily_good db \<longleftrightarrow> daily_ok (db_states db)"

interpretation mem_store: daily_store memory_store "\<lambda>_. True" id
  by unfold_locales (simp_all add: memory_store_def store_refines_refl)

lemma select_row_view: "map_of (db_states db) k = map_option dr_state (select_row k db)"
  by (induction db) (auto simp: db_states_def select_row_def)

lemma select_row_None: "select_row k db = None \<longleftrightarrow> k \<notin> fst ` set (db_states db)"
  by (auto simp: select_row_def db_states_def find_None_iff image_iff)

lemma insert_row_view:
  assumes "select_row k db = None"
  shows "db_states (insert_row env k c db) = AList.update k (frozen_state k c) (db_states db)"
proof -
  have "k \<notin> fst ` set (db_states db)" using assms by (simp add: select_row_None)
  then show ?thesis by (subst update_new_key) (simp_all add: db_states_def insert_row_def frozen_state_def)
qed

lemma update_row_view:
  assumes "distinct (map fst (db_states db))" and "select_row k db = Some w"
    and "\<And>st. ds_selector (f st) = ds_selector st \<and> ds_session (f st) = ds_session st"
  shows "db_states (update_row env k f db) = AList.update k (f (dr_state w)) (db_states db)"
  using assms(1,2)
proof (induction db)
  case (Cons x db)
  show ?case
  proof (cases "row_key x = k")
    case True
    then have "w = x" using Cons.prems(2) by (simp add: select_row_def)
    have "row_key y \<noteq> k" if "y \<in> set db" for y
      using Cons.prems(1) True that by (auto simp: db_states_def image_iff)
    then have "update_row env k f db = db" by (auto simp: update_row_def intro: map_idI)
    then show ?thesis using True assms(3) \<open>w = x\<close> by (simp add: db_states_def update_row_def)
  next
    case False
    with Cons have "db_states (update_row env k f db) = AList.update k (f (dr_state w)) (db_states db)"
      by (simp add: db_states_def select_row_def)
    with False show ?thesis by (simp add: db_states_def update_row_def)
  qed
qed (simp add: select_row_def)

lemma record_of_row_view:
  assumes "map_of (db_states db) k = Some st"
  shows "record_of_row k db = (db, Inr st)"
  using assms by (auto simp: record_of_row_def select_row_view split: option.splits)

lemma daily_ok_update:
  assumes "daily_ok m" and "k = (ds_selector st, ds_session st)" and "0 < ds_capital st" and "1 \<le> ds_revision st"
  shows "daily_ok (AList.update k st m)"
  using assms by (simp add: daily_ok_def distinct_update list_all_update)

lemma daily_ok_lookup: "daily_ok m \<Longrightarrow> map_of m k = Some st \<Longrightarrow> k = (ds_selector st, ds_session st) \<and> 0 < ds_capital st \<and> 1 \<le> ds_revision st"
  by (auto simp: daily_ok_def list_all_iff dest!: map_of_SomeD)

lemma positive_capital_pos: "positive_capital v = Inr c \<Longrightarrow> 0 < c"
  by (auto simp: positive_capital_def split: sum.splits float_error.splits fnum.splits if_splits)

lemma inserted_ok:
  assumes "daily_good db" and "select_row k db = None" and "0 < c"
  shows "daily_good (insert_row env k c db)" and "record_of_row k (insert_row env k c db) = (insert_row env k c db, Inr (frozen_state k c))"
  using assms by (simp_all add: daily_good_def insert_row_view daily_ok_update record_of_row_view)

lemma changed_ok:
  assumes "daily_good db" and "select_row k db = Some w" and "\<And>st. ds_selector (f st) = ds_selector st \<and> ds_session (f st) = ds_session st"
    and "\<And>st. ds_capital (f st) = ds_capital st \<and> ds_revision (f st) = ds_revision st + 1"
  shows "daily_good (update_row env k f db)" and "record_of_row k (update_row env k f db) = (update_row env k f db, Inr (f (dr_state w)))"
    and "db_states (update_row env k f db) = AList.update k (f (dr_state w)) (db_states db)"
proof -
  have ok: "daily_ok (db_states db)" using assms(1) by (simp add: daily_good_def)
  then show view: "db_states (update_row env k f db) = AList.update k (f (dr_state w)) (db_states db)"
    by (intro update_row_view assms(2,3)) (simp add: daily_ok_def)
  have "map_of (db_states db) k = Some (dr_state w)" using assms(2) by (simp add: select_row_view)
  from daily_ok_lookup [OF ok this] have "k = (ds_selector (dr_state w), ds_session (dr_state w)) \<and> 0 < ds_capital (dr_state w) \<and> 1 \<le> ds_revision (dr_state w)" .
  then show "daily_good (update_row env k f db)"
    using assms(3,4) ok unfolding daily_good_def view by (intro daily_ok_update) auto
  show "record_of_row k (update_row env k f db) = (update_row env k f db, Inr (f (dr_state w)))"
    by (rule record_of_row_view) (simp add: view)
qed

lemma resolve_row_refines:
  "store_refines DailyStorageError daily_good db_states (resolve_row env k v) (\<lambda>m. case map_of m k of
      Some st \<Rightarrow> (m, Inr st)
    | None \<Rightarrow> bind_out (m, positive_capital v) (\<lambda>m c. (AList.update k (frozen_state k c) m, Inr (frozen_state k c))))"
  (is "store_refines _ _ _ _ ?g")
proof (rule store_refinesI)
  fix db assume good: "daily_good db"
  have "daily_good (fst (resolve_row env k v db)) \<and> (db_states (fst (resolve_row env k v db)), snd (resolve_row env k v db)) = ?g (db_states db)"
  proof (cases "select_row k db")
    case None
    with good show ?thesis
      by (cases "positive_capital v")
         (simp_all add: resolve_row_def select_row_view inserted_ok positive_capital_pos insert_row_view)
  next
    case (Some w)
    then have "record_of_row k db = (db, Inr (dr_state w))" by (simp add: record_of_row_view select_row_view)
    with Some good show ?thesis by (simp add: resolve_row_def select_row_view)
  qed
  then show "daily_good (fst (resolve_row env k v db))"
    "(db_states (fst (resolve_row env k v db)), snd (resolve_row env k v db)) = ?g (db_states db)" by auto
qed

lemma configure_row_refines:
  assumes "0 < c"
  shows "store_refines DailyStorageError daily_good db_states (configure_row env k c) (\<lambda>m. case map_of m k of
      Some st \<Rightarrow> if \<not> same_capital (ds_capital st) c then (m, Inl already_frozen) else (m, Inr st)
    | None \<Rightarrow> (AList.update k (frozen_state k c) m, Inr (frozen_state k c)))"
  (is "store_refines _ _ _ _ ?g")
proof (rule store_refinesI)
  fix db assume good: "daily_good db"
  have "daily_good (fst (configure_row env k c db)) \<and> (db_states (fst (configure_row env k c db)), snd (configure_row env k c db)) = ?g (db_states db)"
  proof (cases "select_row k db")
    case None
    with good assms show ?thesis by (simp add: configure_row_def select_row_view inserted_ok insert_row_view)
  next
    case (Some w)
    then have "record_of_row k db = (db, Inr (dr_state w))" by (simp add: record_of_row_view select_row_view)
    with Some good show ?thesis by (simp add: configure_row_def select_row_view)
  qed
  then show "daily_good (fst (configure_row env k c db))"
    "(db_states (fst (configure_row env k c db)), snd (configure_row env k c db)) = ?g (db_states db)" by auto
qed

lemma change_row_refines:
  assumes "\<And>st. ds_selector (f st) = ds_selector st \<and> ds_session (f st) = ds_session st"
    and "\<And>st. ds_capital (f st) = ds_capital st \<and> ds_revision (f st) = ds_revision st + 1"
  shows "store_refines DailyStorageError daily_good db_states (change_row_state env k f) (\<lambda>m. case map_of m k of
      None \<Rightarrow> (m, Inl not_frozen) | Some st \<Rightarrow> (AList.update k (f st) m, Inr (f st)))"
  (is "store_refines _ _ _ _ ?g")
proof (rule store_refinesI)
  fix db assume good: "daily_good db"
  have "daily_good (fst (change_row_state env k f db)) \<and> (db_states (fst (change_row_state env k f db)), snd (change_row_state env k f db)) = ?g (db_states db)"
    using good by (cases "select_row k db") (simp_all add: change_row_state_def select_row_view changed_ok assms)
  then show "daily_good (fst (change_row_state env k f db))"
    "(db_states (fst (change_row_state env k f db)), snd (change_row_state env k f db)) = ?g (db_states db)" by auto
qed

lemma rows_raise_no_storage:
  "snd (resolve_row env k v db) \<noteq> Inl DailyStorageError" "snd (configure_row env k c db) \<noteq> Inl DailyStorageError"
  "snd (change_row_state env k f db) \<noteq> Inl DailyStorageError"
proof -
  have "positive_capital v \<noteq> Inl DailyStorageError"
    by (auto simp: positive_capital_def split: sum.splits float_error.splits fnum.splits)
  then show "snd (resolve_row env k v db) \<noteq> Inl DailyStorageError" "snd (configure_row env k c db) \<noteq> Inl DailyStorageError"
    "snd (change_row_state env k f db) \<noteq> Inl DailyStorageError"
    by (auto simp: resolve_row_def configure_row_def change_row_state_def record_of_row_def already_frozen_def not_frozen_def
        split: option.splits bind_pure_split)
qed

interpretation sql_store: daily_store sqlite_store daily_good db_states
proof unfold_locales
  fix env :: daily_env and sel ses :: string and v :: pyval and p q :: bool
  show "store_refines DailyStorageError daily_good db_states (st_resolve sqlite_store env sel ses v) (daily_mem_resolve sel ses v)"
    unfolding sqlite_store_def daily_sql_resolve_def daily_mem_resolve_def state_store.simps
    by (rule store_refines_bind, rule store_refines_atomically [OF resolve_row_refines])
       (auto simp: rows_raise_no_storage split: option.splits bind_pure_split)
  show "store_refines DailyStorageError daily_good db_states (st_configure sqlite_store env sel ses v) (daily_mem_configure sel ses v)"
    unfolding sqlite_store_def daily_sql_configure_def daily_mem_configure_def state_store.simps
    by (rule store_refines_bind, rule store_refines_bind, rule store_refines_atomically [OF configure_row_refines])
       (auto simp: rows_raise_no_storage positive_capital_pos split: option.splits if_splits)
  show "store_refines DailyStorageError daily_good db_states (st_latch sqlite_store env sel ses p q) (daily_mem_latch sel ses p q)"
    unfolding sqlite_store_def daily_sql_latch_def daily_mem_latch_def state_store.simps
    by (rule store_refines_bind, rule store_refines_atomically [OF change_row_refines])
       (auto simp: rows_raise_no_storage split: option.splits)
  show "store_refines DailyStorageError daily_good db_states (st_reset sqlite_store env sel ses) (daily_mem_reset sel ses)"
    unfolding sqlite_store_def daily_sql_reset_def daily_mem_reset_def state_store.simps
    by (rule store_refines_bind, rule store_refines_atomically [OF change_row_refines])
       (auto simp: rows_raise_no_storage split: option.splits)
qed

subsection \<open>Listing a session\<close>

lemma insert_by_cong: "(\<And>y. y \<in> set ys \<Longrightarrow> before y x = before' y x) \<Longrightarrow> insert_by before x ys = insert_by before' x ys"
  by (induction ys) auto

lemma sort_by_cong:
  assumes "\<And>x y. x \<in> set xs \<Longrightarrow> y \<in> set xs \<Longrightarrow> before x y = before' x y"
  shows "sort_by before xs = sort_by before' xs"
  using assms
proof (induction xs)
  case (Cons x xs)
  then have "sort_by before xs = sort_by before' xs" by simp
  moreover have "insert_by before x (sort_by before' xs) = insert_by before' x (sort_by before' xs)"
    by (rule insert_by_cong) (use Cons.prems in auto)
  ultimately show ?case by (simp add: sort_by_def)
qed (simp add: sort_by_def)

lemma sort_by_map: "sort_by before (map f xs) = map f (sort_by (\<lambda>x y. before (f x) (f y)) xs)"
proof (induction xs)
  case (Cons x xs)
  have "insert_by before (f x) (map f ys) = map f (insert_by (\<lambda>x y. before (f x) (f y)) x ys)" for ys
    by (induction ys) auto
  with Cons show ?case by (simp add: sort_by_def)
qed (simp add: sort_by_def)

lemma key_less_order:
  "key_less a b \<or> a = b \<or> key_less b a" "key_less a b \<Longrightarrow> key_less b c \<Longrightarrow> key_less a c" "\<not> key_less a a"
  using text_less_linear [of "fst a" "fst b"] text_less_linear [of "snd a" "snd b"]
  by (auto simp: key_less_def prod_eq_iff intro: text_less_trans)

lemma filter_sort_keys:
  assumes "distinct ks"
  shows "filter P (sort_by key_less ks) = sort_by key_less (filter P ks)"
proof (rule strict_sorted_unique [of key_less])
  show "sorted_wrt key_less (filter P (sort_by key_less ks))"
    by (rule sorted_wrt_filter) (rule strict_sort_by [OF key_less_order(1) key_less_order(2) assms])
  show "sorted_wrt key_less (sort_by key_less (filter P ks))"
    by (rule strict_sort_by [OF key_less_order(1) key_less_order(2)]) (simp_all add: assms)
qed (auto simp: key_less_order(3) intro: key_less_order(2))

lemma list_session_agree:
  assumes "daily_good db" and "de_storage env = Works"
  shows "(db_states (fst (daily_sql_list_session env ses db)), snd (daily_sql_list_session env ses db)) = daily_mem_list_session ses (db_states db)"
proof -
  let ?m = "db_states db"
  let ?f = "\<lambda>k. the (map_of ?m k)"
  let ?ks = "filter (\<lambda>k. snd k = py_strip ses) (map fst ?m)"
  have ok: "distinct (map fst ?m)" "daily_ok ?m" using assms(1) by (simp_all add: daily_good_def daily_ok_def)
  have lookup: "?f (fst x) = snd x" if "x \<in> set ?m" for x using ok(1) that by (cases x) simp
  have selector: "ds_selector (?f k) = fst k" if "k \<in> set (map fst ?m)" for k
    using ok(2) that lookup by (auto simp: daily_ok_def list_all_iff)
  have "filter (\<lambda>st. ds_session st = py_strip ses) (map dr_state db) = map ?f ?ks"
  proof -
    have "filter (\<lambda>st. ds_session st = py_strip ses) (map dr_state db) = map snd (filter (\<lambda>x. snd (fst x) = py_strip ses) ?m)"
      by (simp add: db_states_def filter_map comp_def)
    also have "\<dots> = map (\<lambda>x. ?f (fst x)) (filter (\<lambda>x. snd (fst x) = py_strip ses) ?m)"
      by (rule map_cong) (auto simp: lookup)
    finally show ?thesis by (simp add: filter_map comp_def)
  qed
  then have "sort_by (\<lambda>a b. text_less (ds_selector a) (ds_selector b)) (filter (\<lambda>st. ds_session st = py_strip ses) (map dr_state db))
      = map ?f (sort_by (\<lambda>a b. text_less (ds_selector (?f a)) (ds_selector (?f b))) ?ks)"
    by (simp add: sort_by_map)
  also have "sort_by (\<lambda>a b. text_less (ds_selector (?f a)) (ds_selector (?f b))) ?ks = sort_by key_less ?ks"
    by (rule sort_by_cong) (auto simp: key_less_def selector simp del: set_map)
  also have "\<dots> = filter (\<lambda>k. snd k = py_strip ses) (sort_by key_less (map fst ?m))"
    by (rule filter_sort_keys [OF ok(1), symmetric])
  finally show ?thesis
    by (simp add: daily_sql_list_session_def daily_mem_list_session_def atomically_def assms(2))
qed

subsection \<open>A breach blocks until the reset\<close>

lemma sentences_differ [simp]:
  "hard_stop_sentence \<noteq> []" "pause_sentence \<noteq> []" "hard_stop_sentence \<noteq> pause_sentence" "pause_sentence \<noteq> hard_stop_sentence"
  by (simp_all add: hard_stop_sentence_def pause_sentence_def)

definition triggers :: "safety_result \<Rightarrow> bool" where
  "triggers r \<longleftrightarrow> sr_reason r = hard_stop_sentence \<or> sr_reason r = pause_sentence"

context daily_store
begin

lemma triggered_latch:
  assumes "pnl_validate store envs pnl starting sel tm d = (d', Inr r)" and "triggers r" and "session_key tm = Some ses"
  shows "\<exists>d1 st p q. on_store (st_resolve store (fst envs) sel ses starting) d = (d1, Inr st) \<and> (p \<or> q)
     \<and> d' = latch_or_fault store (snd envs) sel ses p q d1"
proof -
  obtain x where check: "check_finite_pnl store envs x starting sel ses d = (d', Inr r)"
    using assms by (auto simp: pnl_validate_def in_session_def triggers_def l4_fail_def hard_stop_sentence_def pause_sentence_def
        split: sum.splits float_error.splits fnum.splits)
  obtain d1 res where res: "on_store (st_resolve store (fst envs) sel ses starting) d = (d1, res)"
    by (cases "on_store (st_resolve store (fst envs) sel ses starting) d")
  show ?thesis
  proof (cases res)
    case (Inl e)
    with check res assms(2) show ?thesis
      by (auto simp: check_finite_pnl_def triggers_def l4_fail_def hard_stop_sentence_def pause_sentence_def split: if_splits)
  next
    case (Inr st)
    with check res assms(2) have "judge_loss store (snd envs) x sel ses st d1 = (d', r)"
      by (auto simp: check_finite_pnl_def triggers_def l4_fail_def hard_stop_sentence_def pause_sentence_def split: if_splits prod.splits)
    then have "\<exists>p q. (p \<or> q) \<and> d' = latch_or_fault store (snd envs) sel ses p q d1"
      using assms(2)
      by (auto simp: judge_loss_def Let_def triggers_def l4_fail_def hard_stop_sentence_def pause_sentence_def split: if_splits)
    with res Inr show ?thesis by blast
  qed
qed

lemma triggered_blocks:
  assumes "good (dl_store d)" and "pnl_validate store envs pnl starting sel tm d = (d', Inr r)" and "triggers r" and "session_key tm = Some ses"
  shows "blocked states sel ses d'"
proof -
  obtain d1 st p q where d1: "on_store (st_resolve store (fst envs) sel ses starting) d = (d1, Inr st)" "p \<or> q"
    "d' = latch_or_fault store (snd envs) sel ses p q d1"
    using triggered_latch [OF assms(2-4)] by blast
  have good: "good (dl_store d1)"
    using store_refinesD(1) [OF resolve assms(1), of "fst envs" sel ses starting] d1(1) on_store_fields(1)
    by (metis fst_conv)
  obtain s res where res: "st_latch store (snd envs) sel ses p q (dl_store d1) = (s, res)"
    by (cases "st_latch store (snd envs) sel ses p q (dl_store d1)")
  show ?thesis
  proof (cases res)
    case (Inl e)
    with d1 res show ?thesis by (simp add: blocked_def latch_or_fault_def on_store_def)
  next
    case (Inr st')
    have "(states s, Inr st') = daily_mem_latch sel ses p q (states (dl_store d1))"
      using store_refinesD(3) [OF latch good, of "snd envs" sel ses p q] res Inr by simp
    then obtain k where "normalise_identity sel ses = Inr k" "barred k (states s)"
      using latch_bars [of sel ses p q "states (dl_store d1)" st'] d1(2) by (metis fst_conv snd_conv)
    with d1 res Inr show ?thesis by (simp add: blocked_def latch_or_fault_def on_store_def)
  qed
qed

lemma blocked_exec:
  assumes "good (dl_store d)" and "blocked states sel ses d" and "\<not> lifts sel ses op" and "op \<noteq> Restart"
  shows "blocked states sel ses (limits_exec store d op)"
proof (cases "(sel, ses) \<in> set (dl_faults d)")
  case True
  from fault_exec [OF this assms(3,4)] show ?thesis by (simp add: blocked_def)
next
  case False
  with assms(2) obtain k where k: "normalise_identity sel ses = Inr k" "barred k (states (dl_store d))"
    by (auto simp: blocked_def split: sum.splits)
  from barred_exec [OF assms(1) k(2,1) assms(3)] k(1) show ?thesis by (simp add: blocked_def)
qed

lemma good_limits_run: "good (dl_store d) \<Longrightarrow> good (dl_store (foldl (limits_exec store) d ops))"
  by (induction ops arbitrary: d) (simp_all add: good_limits)

lemma blocked_run:
  assumes "good (dl_store d)" and "blocked states sel ses d" and "list_all (\<lambda>op. \<not> lifts sel ses op) ops" and "Restart \<notin> set ops"
  shows "blocked states sel ses (foldl (limits_exec store) d ops)"
  using assms
proof (induction ops arbitrary: d)
  case (Cons op ops)
  then have "blocked states sel ses (limits_exec store d op)" by (intro blocked_exec) auto
  with Cons show ?case by (simp add: good_limits)
qed simp

lemma barred_run:
  assumes "good (dl_store d)" and "barred k (states (dl_store d))" and "normalise_identity sel ses = Inr k"
    and "list_all (\<lambda>op. \<not> lifts sel ses op) ops"
  shows "barred k (states (dl_store (foldl (limits_exec store) d ops)))"
  using assms
proof (induction ops arbitrary: d)
  case (Cons op ops)
  then have "barred k (states (dl_store (limits_exec store d op)))" by (intro barred_exec) auto
  with Cons show ?case by (simp add: good_limits)
qed simp

lemma capital_run:
  assumes "good (dl_store d)" and "capital_of k (states (dl_store d)) = Some c"
  shows "capital_of k (states (dl_store (foldl (limits_exec store) d ops))) = Some c"
  using assms by (induction ops arbitrary: d) (simp_all add: good_limits capital_exec)

end

text \<open>The states an account file can be in: any calls and restarts from an empty one, with any failures.\<close>

definition limits_new :: "fnum \<Rightarrow> fnum \<Rightarrow> 's \<Rightarrow> 's daily_limits" where
  "limits_new pause kill s = \<lparr>dl_pause_pct = pause, dl_kill_pct = kill, dl_store = s, dl_faults = []\<rparr>"

definition sql_limits :: "fnum \<Rightarrow> fnum \<Rightarrow> daily_env limits_op list \<Rightarrow> daily_db daily_limits" where
  "sql_limits pause kill ops = foldl (limits_exec sqlite_store) (limits_new pause kill []) ops"

lemma sql_limits_good: "daily_good (dl_store (sql_limits pause kill ops))"
  unfolding sql_limits_def
  by (rule sql_store.good_limits_run) (simp add: limits_new_def daily_good_def db_states_def daily_ok_def)

lemma latch_commits:
  assumes "daily_good db" and "normalise_identity sel ses = Inr k" and "map_of (db_states db) k = Some st"
    and "de_storage env \<noteq> Fails_before" and "p \<or> q"
  shows "barred k (db_states (fst (daily_sql_latch env sel ses p q db)))"
proof -
  obtain w where w: "select_row k db = Some w" using assms(3) by (auto simp: select_row_view)
  have ok: "record_of_row k (update_row env k (latched p q) db) = (update_row env k (latched p q) db, Inr (latched p q (dr_state w)))"
    "db_states (update_row env k (latched p q) db) = AList.update k (latched p q (dr_state w)) (db_states db)"
    by (rule changed_ok [OF assms(1) w]; simp)+
  have "fst (daily_sql_latch env sel ses p q db) = update_row env k (latched p q) db"
    using assms(2,4) w ok(1) by (cases "de_storage env") (simp_all add: daily_sql_latch_def atomically_def change_row_state_def)
  with ok(2) assms(5) show ?thesis by (auto simp: barred_def)
qed


text \<open>
  The opening capital of an account is frozen for the session: once recorded, no later
  validation with another observed capital, no configuration, reset, restart or storage failure
  changes it, so every loss of the session is measured against the same capital.
\<close>

theorem opening_capital_is_frozen:
  assumes "capital_of k (db_states (dl_store (sql_limits pause kill ops))) = Some c"
  shows "capital_of k (db_states (dl_store (sql_limits pause kill (ops @ ops')))) = Some c"
  using sql_store.capital_run [OF sql_limits_good assms] by (simp add: sql_limits_def)

text \<open>
  What passes is within the limits: an order passes the layer only when its reported profit is a
  finite number, the account is known, neither paused nor stopped, no failed latch is pending, and
  its loss in percent of the frozen opening capital is below both limits.
\<close>

theorem passing_means_within_limits:
  assumes "pnl_validate sqlite_store envs pnl starting sel tm (sql_limits pause kill ops) = (d, Inr r)" and "sr_passed r"
    and "session_key tm = Some ses"
  shows "\<exists>x k st. to_float pnl = Inr (Fin x) \<and> normalise_identity sel ses = Inr k \<and> map_of (db_states (dl_store d)) k = Some st
     \<and> \<not> ds_paused st \<and> \<not> ds_killed st \<and> 0 < ds_capital st \<and> (sel, ses) \<notin> set (dl_faults d)
     \<and> \<not> f_le (dl_pause_pct d) (loss_pct x (ds_capital st)) \<and> \<not> f_le (dl_kill_pct d) (loss_pct x (ds_capital st))"
proof -
  let ?d0 = "sql_limits pause kill ops"
  obtain x where x: "to_float pnl = Inr (Fin x)" "check_finite_pnl sqlite_store envs x starting sel ses ?d0 = (d, Inr r)"
    using assms by (auto simp: pnl_validate_def in_session_def l4_fail_def split: sum.splits float_error.splits fnum.splits)
  then have nofault: "(sel, ses) \<notin> set (dl_faults ?d0)" using assms(2) by (auto simp: check_finite_pnl_def l4_fail_def split: if_splits)
  obtain db res where res: "daily_sql_resolve (fst envs) sel ses starting (dl_store ?d0) = (db, res)"
    by (cases "daily_sql_resolve (fst envs) sel ses starting (dl_store ?d0)")
  then have on: "on_store (st_resolve sqlite_store (fst envs) sel ses starting) ?d0 = (?d0\<lparr>dl_store := db\<rparr>, res)"
    by (simp add: on_store_def sqlite_store_def)
  show ?thesis
  proof (cases res)
    case (Inl e)
    with x(2) on nofault assms(2) show ?thesis by (auto simp: check_finite_pnl_def l4_fail_def split: if_splits)
  next
    case (Inr st)
    have judge: "judge_loss sqlite_store (snd envs) x sel ses st (?d0\<lparr>dl_store := db\<rparr>) = (d, r)"
      using x(2) on nofault Inr by (auto simp: check_finite_pnl_def split: prod.splits)
    then have d: "d = ?d0\<lparr>dl_store := db\<rparr>" "\<not> ds_paused st" "\<not> ds_killed st"
      "\<not> f_le (dl_pause_pct ?d0) (loss_pct x (ds_capital st))" "\<not> f_le (dl_kill_pct ?d0) (loss_pct x (ds_capital st))"
      using assms(2) by (auto simp: judge_loss_def Let_def l4_fail_def split: if_splits)
    note refined = store_refinesD [OF sql_store.resolve sql_limits_good, of "fst envs" sel ses starting, unfolded sqlite_store_def state_store.simps]
    have "(db_states db, Inr st) = daily_mem_resolve sel ses starting (db_states (dl_store ?d0))"
      using refined(3) [of pause kill ops] res Inr by simp
    then obtain k where k: "normalise_identity sel ses = Inr k" "map_of (db_states db) k = Some st"
      using resolve_reads [of sel ses starting "db_states (dl_store ?d0)" st] by (metis fst_conv snd_conv)
    moreover have "daily_ok (db_states db)" using refined(1) [of pause kill ops] res by (simp add: daily_good_def)
    with k(2) have "0 < ds_capital st" by (auto dest: daily_ok_lookup)
    ultimately show ?thesis using x(1) d nofault by auto
  qed
qed

lemma daily_operations_agree:
  assumes "daily_good db" and "de_storage env = Works"
  shows "(db_states (fst (daily_sql_resolve env sel ses v db)), snd (daily_sql_resolve env sel ses v db)) = daily_mem_resolve sel ses v (db_states db)"
    and "(db_states (fst (daily_sql_configure env sel ses v db)), snd (daily_sql_configure env sel ses v db)) = daily_mem_configure sel ses v (db_states db)"
    and "(db_states (fst (daily_sql_latch env sel ses p q db)), snd (daily_sql_latch env sel ses p q db)) = daily_mem_latch sel ses p q (db_states db)"
    and "(db_states (fst (daily_sql_reset env sel ses db)), snd (daily_sql_reset env sel ses db)) = daily_mem_reset sel ses (db_states db)"
    and "(db_states (fst (daily_sql_get env sel ses db)), snd (daily_sql_get env sel ses db)) = daily_mem_get sel ses (db_states db)"
    and "(db_states (fst (daily_sql_list_session env ses db)), snd (daily_sql_list_session env ses db)) = daily_mem_list_session ses (db_states db)"
proof -
  have ident: "normalise_identity sel ses \<noteq> Inl DailyStorageError" and cap: "positive_capital v \<noteq> Inl DailyStorageError"
    by (auto simp: normalise_identity_def positive_capital_def Let_def split: option.splits sum.splits float_error.splits fnum.splits)
  have works: "snd (atomically DailyStorageError Works f db) = snd (f db)" for f :: "daily_db \<Rightarrow> (daily_db, daily_error, daily_state) outcome"
    by (auto simp: atomically_def split: prod.splits sum.splits)
  have ok: "snd (daily_sql_resolve env sel ses v db) \<noteq> Inl DailyStorageError" "snd (daily_sql_configure env sel ses v db) \<noteq> Inl DailyStorageError"
    "snd (daily_sql_latch env sel ses p q db) \<noteq> Inl DailyStorageError" "snd (daily_sql_reset env sel ses db) \<noteq> Inl DailyStorageError"
    using ident cap
    by (auto simp: daily_sql_resolve_def daily_sql_configure_def daily_sql_latch_def daily_sql_reset_def assms(2) works rows_raise_no_storage
        split: bind_pure_split)
  show "(db_states (fst (daily_sql_resolve env sel ses v db)), snd (daily_sql_resolve env sel ses v db)) = daily_mem_resolve sel ses v (db_states db)"
    using store_refinesD(3) [OF sql_store.resolve assms(1), of env sel ses v] ok by (simp add: sqlite_store_def)
  show "(db_states (fst (daily_sql_configure env sel ses v db)), snd (daily_sql_configure env sel ses v db)) = daily_mem_configure sel ses v (db_states db)"
    using store_refinesD(3) [OF sql_store.configure assms(1), of env sel ses v] ok by (simp add: sqlite_store_def)
  show "(db_states (fst (daily_sql_latch env sel ses p q db)), snd (daily_sql_latch env sel ses p q db)) = daily_mem_latch sel ses p q (db_states db)"
    using store_refinesD(3) [OF sql_store.latch assms(1), of env sel ses p q] ok by (simp add: sqlite_store_def)
  show "(db_states (fst (daily_sql_reset env sel ses db)), snd (daily_sql_reset env sel ses db)) = daily_mem_reset sel ses (db_states db)"
    using store_refinesD(3) [OF sql_store.reset assms(1), of env sel ses] ok by (simp add: sqlite_store_def)
  show "(db_states (fst (daily_sql_get env sel ses db)), snd (daily_sql_get env sel ses db)) = daily_mem_get sel ses (db_states db)"
    by (cases "normalise_identity sel ses") (simp_all add: daily_sql_get_def daily_mem_get_def atomically_def assms(2) select_row_view)
  show "(db_states (fst (daily_sql_list_session env ses db)), snd (daily_sql_list_session env ses db)) = daily_mem_list_session ses (db_states db)"
    by (rule list_session_agree [OF assms])
qed

text \<open>Sequences of calls of the protocol, and what they are answered.\<close>

datatype daily_call =
  CallResolve string string pyval
| CallConfigure string string pyval
| CallLatch string string bool bool
| CallReset string string
| CallGet string string
| CallList string

datatype daily_answer = OneState daily_state | MaybeState "daily_state option" | AllStates "daily_state list"

fun store_call :: "('env, 's) state_store \<Rightarrow> 'env \<Rightarrow> 's \<Rightarrow> daily_call \<Rightarrow> 's \<times> (daily_error + daily_answer)" where
  "store_call store env s (CallResolve sel ses v) = apsnd (map_sum id OneState) (st_resolve store env sel ses v s)"
| "store_call store env s (CallConfigure sel ses v) = apsnd (map_sum id OneState) (st_configure store env sel ses v s)"
| "store_call store env s (CallLatch sel ses p k) = apsnd (map_sum id OneState) (st_latch store env sel ses p k s)"
| "store_call store env s (CallReset sel ses) = apsnd (map_sum id OneState) (st_reset store env sel ses s)"
| "store_call store env s (CallGet sel ses) = apsnd (map_sum id MaybeState) (st_get store env sel ses s)"
| "store_call store env s (CallList ses) = apsnd (map_sum id AllStates) (st_list_session store env ses s)"

fun store_answers :: "('env, 's) state_store \<Rightarrow> 's \<Rightarrow> ('env \<times> daily_call) list \<Rightarrow> (daily_error + daily_answer) list" where
  "store_answers store s [] = []"
| "store_answers store s (x # xs) =
     snd (store_call store (fst x) s (snd x)) # store_answers store (fst (store_call store (fst x) s (snd x))) xs"

lemma daily_sql_reads: "fst (daily_sql_get env sel ses db) = db" "fst (daily_sql_list_session env ses db) = db"
  by (auto simp: daily_sql_get_def daily_sql_list_session_def atomically_def Let_def bind_out_def split: sum.splits storage.splits)

lemma store_call_good: "daily_good db \<Longrightarrow> daily_good (fst (store_call sqlite_store env db c))"
  using store_refinesD(1) [OF sql_store.resolve] store_refinesD(1) [OF sql_store.configure] store_refinesD(1) [OF sql_store.latch]
    store_refinesD(1) [OF sql_store.reset]
  by (cases c) (simp_all add: sqlite_store_def daily_sql_reads)

lemma store_call_agree:
  assumes "daily_good db" and "de_storage env = Works"
  shows "store_call memory_store u (db_states db) c = apfst db_states (store_call sqlite_store env db c)"
  using daily_operations_agree [OF assms]
  by (cases c) (simp_all add: sqlite_store_def memory_store_def prod_eq_iff apfst_def apsnd_def map_prod_def split: prod.splits)

text \<open>
  C34. The SQLite store and the store in memory are the same to the layer: with working storage,
  every sequence of calls of the protocol on a fresh table is answered as by the store in memory.
\<close>

theorem daily_stores_agree:
  assumes "list_all (\<lambda>x. de_storage (fst x) = Works) calls"
  shows "store_answers sqlite_store [] calls = store_answers memory_store [] (map (\<lambda>x. ((), snd x)) calls)"
proof -
  have "store_answers sqlite_store db calls = store_answers memory_store (db_states db) (map (\<lambda>x. ((), snd x)) calls)" if "daily_good db" for db
    using that assms
  proof (induction calls arbitrary: db)
    case (Cons x calls)
    have "store_call memory_store () (db_states db) (snd x) = apfst db_states (store_call sqlite_store (fst x) db (snd x))"
      by (rule store_call_agree) (use Cons.prems in simp_all)
    with Cons show ?case by (simp add: store_call_good)
  qed simp
  from this [of "[]"] show ?thesis by (simp add: daily_good_def daily_ok_def db_states_def)
qed

subsection \<open>Witnesses\<close>

definition demo_day :: moment where
  "demo_day = Aware \<lparr>dt_year = 2026, dt_month = 1, dt_day = 4, dt_hour = 20, dt_minute = 0, dt_second = 0, dt_micro = 0\<rparr> 0"

definition demo_store_env :: daily_env where
  "demo_store_env = \<lparr>de_storage = Works, de_now = ''now''\<rparr>"

definition demo_loss :: "daily_env limits_op" where
  "demo_loss = Validate (demo_store_env, demo_store_env) (PInt (- 4000)) (PInt 100000) ''zerodha:AB1'' demo_day"

lemma session_is_the_IST_date: "session_key demo_day = Some ''2026-01-05''"
  by code_simp

text \<open>A loss of exactly the limit can round to less than the limit.\<close>

lemma loss_at_the_limit_rounds_below: "\<not> f_le (Fin 29) (loss_pct (- 29) 100)"
  by code_simp


theorem opening_capital_is_frozen_witness:
  "capital_of (''zerodha:AB1'', ''2026-01-05'') (db_states (dl_store (sql_limits (Fin 3) (Fin 15) ([demo_loss]
     @ [ResetLatches demo_store_env ''zerodha:AB1'' demo_day,
        Validate (demo_store_env, demo_store_env) (PInt 5) (PInt 7) ''zerodha:AB1'' demo_day])))) = Some 100000"
  by (rule opening_capital_is_frozen) code_simp

theorem passing_means_within_limits_witness:
  "\<exists>x k st. to_float (PInt (- 2000)) = Inr (Fin x) \<and> normalise_identity ''zerodha:AB1'' ''2026-01-05'' = Inr k
     \<and> map_of (db_states (dl_store (fst (pnl_validate sqlite_store (demo_store_env, demo_store_env) (PInt (- 2000)) (PInt 100000) ''zerodha:AB1'' demo_day
         (sql_limits (Fin 3) (Fin 15) []))))) k = Some st \<and> 0 < ds_capital st"
proof -
  let ?v = "pnl_validate sqlite_store (demo_store_env, demo_store_env) (PInt (- 2000)) (PInt 100000) ''zerodha:AB1'' demo_day (sql_limits (Fin 3) (Fin 15) [])"
  have t: "\<not> isl (snd ?v) \<and> sr_passed (projr (snd ?v))" by code_simp
  then have v: "?v = (fst ?v, Inr (projr (snd ?v)))" by (simp add: prod_eq_iff sum.expand)
  from passing_means_within_limits [OF v _ session_is_the_IST_date] t show ?thesis by blast
qed

theorem daily_stores_agree_witness:
  "let calls = [CallResolve ''zerodha:AB1'' ''s'' (PInt 100), CallLatch ''zerodha:AB1'' ''s'' True False, CallList ''s'', CallReset ''ditto:X'' ''s'']
   in store_answers sqlite_store [] (map (Pair demo_store_env) calls) = store_answers memory_store [] (map (Pair ()) calls)
      \<and> length (filter isl (store_answers memory_store [] (map (Pair ()) calls))) = 1"
proof -
  let ?calls = "[CallResolve ''zerodha:AB1'' ''s'' (PInt 100), CallLatch ''zerodha:AB1'' ''s'' True False, CallList ''s'', CallReset ''ditto:X'' ''s'']"
  have "list_all (\<lambda>x. de_storage (fst x) = Works) (map (Pair demo_store_env) ?calls)" by (simp add: demo_store_env_def)
  from daily_stores_agree [OF this] have "store_answers sqlite_store [] (map (Pair demo_store_env) ?calls) = store_answers memory_store [] (map (Pair ()) ?calls)"
    by (simp del: store_answers.simps)
  moreover have "length (filter isl (store_answers memory_store [] (map (Pair ()) ?calls))) = 1" by code_simp
  ultimately show ?thesis by (simp only: Let_def)
qed

end
