(* ===== verification/Safety_Layers.thy ===== *)
theory Safety_Layers
  imports Daily_Loss
begin

text \<open>
  The five layers every order passes: \<open>safety.SafetyConfig\<close>, \<open>OrderValidation\<close> (layer 1) with the
  market hours, \<open>PositionLimits\<close> (layer 2), \<open>PortfolioRisk\<close> (layer 3), the verdict of the kill
  switch (layer 5), and \<open>SafetySystem.check_order\<close>, which runs them around the daily-loss layer
  of \<open>Daily_Loss\<close>; also \<open>SafetyGate\<close>, the one-shot consumer of gate ids.
\<close>

subsection \<open>Orders and positions\<close>

record trade_order =
  od_symbol :: string
  od_action :: string
  od_exchange :: string
  od_product :: string
  od_pricetype :: string
  od_quantity :: string
  od_price :: string
  od_validity :: "string option"
  od_quantity1 :: "string option"

record held_position =
  hp_symbol :: string
  hp_exchange :: string
  hp_product :: string
  hp_quantity :: string

datatype layer_error = QuantityValueError | PriceValueError | PnLError daily_error

type_synonym verdict = "layer_error + safety_result"

subsection \<open>Market hours\<close>

text \<open>Times of the day in microseconds.\<close>

definition clock_time :: "int \<Rightarrow> int \<Rightarrow> int" where
  "clock_time h m = (h * 60 + m) * 60000000"

fun time_of_day :: "moment \<Rightarrow> int" where
  "time_of_day (Naive t) = clock_time (dt_hour t) (dt_minute t) + dt_second t * 1000000 + dt_micro t"
| "time_of_day (Aware t offset) = clock_time (dt_hour t) (dt_minute t) + dt_second t * 1000000 + dt_micro t"

definition MARKET_HOURS :: "(string \<times> (int \<times> int) \<times> (int \<times> int)) list" where
  "MARKET_HOURS =
     [(''NSE'', (9, 15), (15, 30)), (''BSE'', (9, 15), (15, 30)), (''NFO'', (9, 15), (15, 40)), (''BFO'', (9, 15), (15, 40)),
      (''CDS'', (9, 0), (17, 0)), (''BCD'', (9, 0), (17, 0)), (''MCX'', (9, 0), (23, 30)), (''NCDEX'', (10, 0), (17, 0)),
      (''NCO'', (9, 0), (17, 0)), (''DELTA'', (0, 0), (23, 59))]"

definition QUOTE_ONLY_EXCHANGES :: "string list" where
  "QUOTE_ONLY_EXCHANGES = [''NSE_INDEX'', ''BSE_INDEX'', ''MCX_INDEX'', ''GLOBAL_INDEX'']"

definition is_market_open :: "string \<Rightarrow> moment \<Rightarrow> bool" where
  "is_market_open exchange now =
     (if exchange \<in> set QUOTE_ONLY_EXCHANGES then False
      else if exchange = ''DELTA'' then True
      else (case map_of MARKET_HOURS exchange of
              None \<Rightarrow> False
            | Some (opens, closes) \<Rightarrow>
                clock_time (fst opens) (snd opens) \<le> time_of_day now \<and> time_of_day now < clock_time (fst closes) (snd closes)))"

definition get_expiry_time :: "string \<Rightarrow> int \<times> int" where
  "get_expiry_time exchange =
     (case map_of [(''NFO'', (15, 30)), (''BFO'', (15, 30)), (''CDS'', (12, 30)), (''BCD'', (12, 30)), (''MCX'', (23, 30)),
        (''NCO'', (17, 0)), (''DELTA'', (18, 0))] exchange of
        None \<Rightarrow> (15, 30)
      | Some t \<Rightarrow> t)"

definition show_clock :: "int \<times> int \<Rightarrow> string" where
  "show_clock t = pad 2 (fst t) @ '':'' @ pad 2 (snd t)"

definition format_market_hours :: "string \<Rightarrow> string" where
  "format_market_hours exchange =
     (case map_of MARKET_HOURS exchange of
        None \<Rightarrow> ''unknown''
      | Some (opens, closes) \<Rightarrow> show_clock opens @ ''-'' @ show_clock closes @ '' IST'')"

subsection \<open>Layer 1: the order itself\<close>

definition TRADEABLE_EXCHANGES :: "string list" where
  "TRADEABLE_EXCHANGES = [''NSE'', ''BSE'', ''NFO'', ''BFO'', ''MCX'', ''CDS'', ''BCD'', ''NCDEX'', ''NCO'', ''DELTA'']"

definition ALLOWED_VALIDITIES :: "string list" where
  "ALLOWED_VALIDITIES = [''DAY'', ''IOC'', ''GTC'', ''GTD'', ''EOS'']"

definition DEFAULT_QTY_LIMITS :: "(string \<times> int) list" where
  "DEFAULT_QTY_LIMITS = [(''NSE'', 50000), (''BSE'', 50000), (''NFO'', 5000), (''BFO'', 5000), (''MCX'', 1000), (''CDS'', 10000),
     (''BCD'', 10000), (''NCDEX'', 5000), (''NCO'', 5000)]"

record order_validation =
  ov_price_deviation_pct :: fnum
  ov_qty_limits :: "(string \<times> int) list"
  ov_check_market_hours :: bool

definition l1_fail :: "string \<Rightarrow> fnum list \<Rightarrow> safety_result" where
  "l1_fail = fail_result ''L1_ORDER''"

definition order_validation :: "fnum \<Rightarrow> (string \<times> int) list option \<Rightarrow> bool \<Rightarrow> order_validation" where
  "order_validation pct limits hours = \<lparr>ov_price_deviation_pct = pct,
     ov_qty_limits = (case limits of None \<Rightarrow> DEFAULT_QTY_LIMITS | Some [] \<Rightarrow> DEFAULT_QTY_LIMITS | Some l \<Rightarrow> l), ov_check_market_hours = hours\<rparr>"

definition exchange_cap :: "order_validation \<Rightarrow> string \<Rightarrow> int" where
  "exchange_cap v exchange = (case map_of (ov_qty_limits v) exchange of None \<Rightarrow> 50000 | Some n \<Rightarrow> n)"

text \<open>The price check of \<open>LIMIT\<close> and \<open>SL\<close> orders; \<open>None\<close>: the check has nothing against the price.\<close>

definition price_check :: "order_validation \<Rightarrow> trade_order \<Rightarrow> fnum option \<Rightarrow> layer_error + safety_result option" where
  "price_check v a ltp =
     (case ltp of
        None \<Rightarrow> Inr None
      | Some l \<Rightarrow>
          if \<not> (od_pricetype a \<in> {''LIMIT'', ''SL''} \<and> f_less (Fin 0) l) then Inr None
          else (case py_float (od_price a) of
                  None \<Rightarrow> Inl PriceValueError
                | Some p \<Rightarrow>
                    if f_less (Fin 0) p then
                      (case f_div (f_abs (f_sub p l)) l of
                         None \<Rightarrow> Inr None
                       | Some ratio \<Rightarrow>
                           (let deviation = f_mul ratio (Fin 100)
                            in if f_less (ov_price_deviation_pct v) deviation
                               then Inr (Some (l1_fail ''Price {} deviates {}% from LTP {} (max {}%)'' [p, deviation, l, ov_price_deviation_pct v]))
                               else Inr None))
                    else Inr None))"

definition second_leg_check :: "order_validation \<Rightarrow> trade_order \<Rightarrow> safety_result option" where
  "second_leg_check v a =
     (case od_quantity1 a of
        None \<Rightarrow> None
      | Some raw \<Rightarrow>
          (case parse_int raw of
             None \<Rightarrow> Some (l1_fail ''Second-leg quantity must be an integer'' [])
           | Some q \<Rightarrow>
               if q \<le> 0 then Some (l1_fail (''Second-leg quantity must be positive, got '' @ show_int q) [])
               else if exchange_cap v (od_exchange a) < q
               then Some (l1_fail (''Second-leg quantity '' @ show_int q @ '' exceeds '' @ od_exchange a @ '' limit of '' @ show_int (exchange_cap v (od_exchange a))) [])
               else None))"

definition validate_order :: "order_validation \<Rightarrow> trade_order \<Rightarrow> fnum option \<Rightarrow> moment \<Rightarrow> verdict" where
  "validate_order v a ltp now =
     (let exchange = od_exchange a; cap = exchange_cap v exchange
      in if exchange \<notin> set TRADEABLE_EXCHANGES then Inr (l1_fail (''Exchange '' @ exchange @ '' is not tradeable'') [])
         else if ov_check_market_hours v \<and> \<not> is_market_open exchange now
         then Inr (l1_fail (exchange @ '' is open '' @ format_market_hours exchange @ ''. Current time: ''
             @ show_clock (time_of_day now div 3600000000, time_of_day now div 60000000 mod 60) @ ''. Market closed.'') [])
         else if py_strip (od_symbol a) = [] then Inr (l1_fail ''Symbol is empty'' [])
         else (case parse_int (od_quantity a) of
                 None \<Rightarrow> Inl QuantityValueError
               | Some q \<Rightarrow>
                   if q \<le> 0 then Inr (l1_fail (''Quantity must be positive, got '' @ show_int q) [])
                   else if cap < q
                   then Inr (l1_fail (''Quantity '' @ show_int q @ '' exceeds '' @ exchange @ '' limit of '' @ show_int cap) [])
                   else (case second_leg_check v a of
                           Some r \<Rightarrow> Inr r
                         | None \<Rightarrow>
                             if (case od_validity a of None \<Rightarrow> False | Some x \<Rightarrow> py_upper x \<notin> set ALLOWED_VALIDITIES)
                             then Inr (l1_fail ''Validity {} is not one of [DAY, EOS, GTC, GTD, IOC]'' [])
                             else (case price_check v a ltp of
                                     Inl e \<Rightarrow> Inl e
                                   | Inr (Some r) \<Rightarrow> Inr r
                                   | Inr None \<Rightarrow> Inr (pass_result ''L1_ORDER'')))))"

subsection \<open>Layers 2 and 3: the account\<close>

record position_limits =
  pl_max_positions :: int
  pl_max_margin_pct :: fnum

definition qty_of :: "string \<Rightarrow> int" where
  "qty_of s = (case py_float s of None \<Rightarrow> 0 | Some f \<Rightarrow> (case f_trunc f of None \<Rightarrow> 0 | Some i \<Rightarrow> i))"

definition normalise_name :: "string \<Rightarrow> string" where
  "normalise_name s = py_upper (py_strip s)"

definition order_key :: "trade_order \<Rightarrow> string \<times> string \<times> string" where
  "order_key a = (normalise_name (od_symbol a), normalise_name (od_exchange a), normalise_name (od_product a))"

definition position_key :: "held_position \<Rightarrow> string \<times> string \<times> string" where
  "position_key p = (normalise_name (hp_symbol p), normalise_name (hp_exchange p), normalise_name (hp_product p))"

definition net_of :: "string \<times> string \<times> string \<Rightarrow> held_position list \<Rightarrow> int" where
  "net_of k ps = sum_list (map (\<lambda>p. qty_of (hp_quantity p)) (filter (\<lambda>p. position_key p = k) ps))"

definition is_strict_reduction :: "trade_order option \<Rightarrow> held_position list \<Rightarrow> bool" where
  "is_strict_reduction oo ps =
     (case oo of
        None \<Rightarrow> False
      | Some a \<Rightarrow>
          (let q = qty_of (od_quantity a); (s, e, p) = order_key a; net = net_of (order_key a) ps; action = normalise_name (od_action a)
           in if q \<le> 0 then False
              else if s = [] \<or> e = [] \<or> p = [] then False
              else if 0 < net then action = ''SELL'' \<and> q \<le> net
              else if net < 0 then action = ''BUY'' \<and> q \<le> \<bar>net\<bar>
              else False))"

definition open_positions :: "held_position list \<Rightarrow> held_position list" where
  "open_positions ps = filter (\<lambda>p. qty_of (hp_quantity p) \<noteq> 0) ps"

definition validate_positions :: "position_limits \<Rightarrow> held_position list \<Rightarrow> fnum \<Rightarrow> fnum \<Rightarrow> trade_order option \<Rightarrow> safety_result" where
  "validate_positions l ps used balance oo =
     (let active = open_positions ps; reduction = is_strict_reduction oo active
      in if pl_max_positions l \<le> int (length active) then
           (if reduction then pass_result ''L2_POSITION''
            else fail_result ''L2_POSITION'' (''Already at max positions ('' @ show_int (int (length active)) @ ''/'' @ show_int (pl_max_positions l) @ '')'') [])
         else (case (if f_less (Fin 0) balance then f_div used balance else None) of
                 None \<Rightarrow> pass_result ''L2_POSITION''
               | Some ratio \<Rightarrow>
                   (let margin_pct = f_mul ratio (Fin 100)
                    in if f_le (pl_max_margin_pct l) margin_pct then
                         (if reduction then pass_result ''L2_POSITION''
                          else fail_result ''L2_POSITION'' ''Margin usage {}% exceeds limit of {}%'' [margin_pct, pl_max_margin_pct l])
                       else pass_result ''L2_POSITION'')))"

record portfolio_risk =
  pr_max_net_delta :: fnum
  pr_max_net_vega :: fnum

definition validate_greeks :: "portfolio_risk \<Rightarrow> fnum \<Rightarrow> fnum \<Rightarrow> safety_result" where
  "validate_greeks p delta vega =
     (if f_less (pr_max_net_delta p) (f_abs delta)
      then fail_result ''L3_PORTFOLIO'' ''Net delta {} exceeds limit of +-{}'' [delta, pr_max_net_delta p]
      else if f_less (pr_max_net_vega p) (f_abs vega)
      then fail_result ''L3_PORTFOLIO'' ''Net vega {} exceeds limit of +-{}'' [vega, pr_max_net_vega p]
      else pass_result ''L3_PORTFOLIO'')"

subsection \<open>All layers\<close>

record 's safety_system =
  ss_l1 :: order_validation
  ss_l2 :: position_limits
  ss_l3 :: portfolio_risk
  ss_l4 :: "'s daily_limits"
  ss_kill_active :: bool
  ss_kill_reason :: string

definition validate_kill :: "'s safety_system \<Rightarrow> safety_result" where
  "validate_kill s = (if ss_kill_active s then fail_result ''L5_KILL'' (''Kill switch active: '' @ ss_kill_reason s) [] else pass_result ''L5_KILL'')"

record order_facts =
  of_selector :: string
  of_ltp :: "fnum option"
  of_positions :: "held_position list"
  of_used_margin :: fnum
  of_total_balance :: fnum
  of_net_delta :: fnum
  of_net_vega :: fnum
  of_daily_pnl :: pyval
  of_starting_capital :: pyval
  of_time :: moment

definition check_order :: "('env, 's) state_store \<Rightarrow> 'env \<times> 'env \<Rightarrow> trade_order \<Rightarrow> order_facts \<Rightarrow> 's safety_system
    \<Rightarrow> ('s safety_system, layer_error, safety_result list) outcome" where
  "check_order store envs a x s =
     (let r5 = validate_kill s
      in if \<not> sr_passed r5 then (s, Inr [r5])
         else (case pnl_validate store envs (of_daily_pnl x) (of_starting_capital x) (of_selector x) (of_time x) (ss_l4 s) of
           (d, Inl e) \<Rightarrow> (s\<lparr>ss_l4 := d\<rparr>, Inl (PnLError e))
         | (d, Inr r4) \<Rightarrow>
             (let s = s\<lparr>ss_l4 := d\<rparr>
              in if \<not> sr_passed r4 then (s, Inr [r5, r4])
                 else (case validate_order (ss_l1 s) a (of_ltp x) (of_time x) of
                   Inl e \<Rightarrow> (s, Inl e)
                 | Inr r1 \<Rightarrow>
                     if \<not> sr_passed r1 then (s, Inr [r5, r4, r1])
                     else (let r2 = validate_positions (ss_l2 s) (of_positions x) (of_used_margin x) (of_total_balance x) (Some a)
                           in if \<not> sr_passed r2 then (s, Inr [r5, r4, r1, r2])
                              else (s, Inr [r5, r4, r1, r2, validate_greeks (ss_l3 s) (of_net_delta x) (of_net_vega x)]))))))"

subsection \<open>The one-shot gate\<close>

type_synonym gate = "(string \<times> fnum) list"

definition gate_consume :: "fnum \<Rightarrow> fnum \<Rightarrow> string \<Rightarrow> gate \<Rightarrow> gate \<times> bool" where
  "gate_consume now ttl gid g =
     (let g = (if 256 < length g then filter (\<lambda>x. f_less now (snd x)) g else g)
      in case map_of g gid of
           Some e \<Rightarrow> if f_less now e then (g, False) else (AList.update gid (f_add now ttl) g, True)
         | None \<Rightarrow> (AList.update gid (f_add now ttl) g, True))"

subsection \<open>What an admitted order is\<close>

lemma verdict_layers [simp]: "sr_layer (pass_result l) = l" "sr_layer (fail_result l w ns) = l"
  by (simp_all add: pass_result_def fail_result_def)

definition layer_order :: "string list" where
  "layer_order = [''L5_KILL'', ''L4_PNL'', ''L1_ORDER'', ''L2_POSITION'', ''L3_PORTFOLIO'']"

definition admitted :: "safety_result list \<Rightarrow> bool" where
  "admitted rs \<longleftrightarrow> list_all sr_passed rs"

lemma validate_kill_layer [simp]: "sr_layer (validate_kill s) = ''L5_KILL''"
  by (simp add: validate_kill_def)

lemma validate_order_layer: "validate_order v a ltp now = Inr r \<Longrightarrow> sr_layer r = ''L1_ORDER''"
  by (auto simp: validate_order_def price_check_def second_leg_check_def l1_fail_def Let_def split: if_splits option.splits)

lemma validate_positions_layer [simp]: "sr_layer (validate_positions l ps u b oo) = ''L2_POSITION''"
  by (auto simp: validate_positions_def Let_def split: option.splits)

lemma validate_greeks_layer [simp]: "sr_layer (validate_greeks p d v) = ''L3_PORTFOLIO''"
  by (simp add: validate_greeks_def)

lemma pnl_validate_layer: "pnl_validate store envs pnl starting sel tm d = (d', Inr r) \<Longrightarrow> sr_layer r = ''L4_PNL''"
  by (auto simp: pnl_validate_def in_session_def check_finite_pnl_def judge_loss_def l4_fail_def Let_def on_store_def
      split: option.splits sum.splits float_error.splits fnum.splits if_splits prod.splits)

text \<open>The five verdicts of an order that got through, and the shape of every other answer.\<close>

lemma check_order_cases:
  assumes "check_order store envs a x s = (s', Inr rs)"
  obtains d r4 where "pnl_validate store envs (of_daily_pnl x) (of_starting_capital x) (of_selector x) (of_time x) (ss_l4 s) = (d, Inr r4)"
      "s' = s\<lparr>ss_l4 := d\<rparr>" "sr_passed (validate_kill s)" "sr_passed r4" "validate_order (ss_l1 s) a (of_ltp x) (of_time x) = Inr (pass_result ''L1_ORDER'')"
      "sr_passed (validate_positions (ss_l2 s) (of_positions x) (of_used_margin x) (of_total_balance x) (Some a))"
      "rs = [validate_kill s, r4, pass_result ''L1_ORDER'',
        validate_positions (ss_l2 s) (of_positions x) (of_used_margin x) (of_total_balance x) (Some a),
        validate_greeks (ss_l3 s) (of_net_delta x) (of_net_vega x)]"
  | qs r where "rs = qs @ [r]" "list_all sr_passed qs" "\<not> sr_passed r" "map sr_layer rs = take (length rs) layer_order"
proof -
  have pass1: "r = pass_result ''L1_ORDER''" if "validate_order (ss_l1 s) a (of_ltp x) (of_time x) = Inr r" "sr_passed r" for r
    using that by (auto simp: validate_order_def price_check_def second_leg_check_def l1_fail_def Let_def split: if_splits option.splits)
  obtain d r where pnl: "pnl_validate store envs (of_daily_pnl x) (of_starting_capital x) (of_selector x) (of_time x) (ss_l4 s) = (d, r)"
    by (cases "pnl_validate store envs (of_daily_pnl x) (of_starting_capital x) (of_selector x) (of_time x) (ss_l4 s)")
  show thesis
  proof (cases "sr_passed (validate_kill s)")
    case False
    with assms that(2) [of "[]" "validate_kill s"] show ?thesis by (auto simp: check_order_def Let_def layer_order_def)
  next
    case kill: True
    then obtain r4 where r4: "r = Inr r4" using assms pnl by (cases r) (auto simp: check_order_def Let_def)
    with pnl have l4: "sr_layer r4 = ''L4_PNL''" by (auto dest: pnl_validate_layer)
    show ?thesis
    proof (cases "sr_passed r4")
      case False
      with assms kill pnl r4 l4 that(2) [of "[validate_kill s]" r4] show ?thesis by (auto simp: check_order_def Let_def layer_order_def)
    next
      case pass4: True
      then obtain r1 where r1: "validate_order (ss_l1 s) a (of_ltp x) (of_time x) = Inr r1"
        using assms kill pnl r4 by (cases "validate_order (ss_l1 s) a (of_ltp x) (of_time x)") (auto simp: check_order_def Let_def)
      note l1 = validate_order_layer [OF r1]
      let ?r2 = "validate_positions (ss_l2 s) (of_positions x) (of_used_margin x) (of_total_balance x) (Some a)"
      show ?thesis
      proof (cases "sr_passed r1 \<and> sr_passed ?r2")
        case True
        with assms kill pnl r4 pass4 r1 pass1 [OF r1] that(1) [of d r4] show ?thesis by (auto simp: check_order_def Let_def)
      next
        case False
        with assms kill pnl r4 l4 pass4 r1 l1 that(2) [of "[validate_kill s, r4]" r1] that(2) [of "[validate_kill s, r4, r1]" ?r2] show ?thesis
          by (auto simp: check_order_def Let_def layer_order_def split: if_splits)
      qed
    qed
  qed
qed

text \<open>
  The layers run in their fixed order and stop at the first refusal: the answer lists the kill
  switch, the daily loss, the order, the positions and the portfolio, in this order and as far as
  the check got; every verdict but the last is a pass, and an order is admitted only with all five.
\<close>

theorem check_order_fail_fast:
  assumes "check_order store envs a x s = (s', Inr rs)"
  shows "rs \<noteq> [] \<and> map sr_layer rs = take (length rs) layer_order \<and> list_all sr_passed (butlast rs)
     \<and> (admitted rs \<longrightarrow> length rs = 5)"
  using assms
proof (cases rule: check_order_cases)
  case (1 d r4)
  then show ?thesis by (simp add: layer_order_def pnl_validate_layer)
next
  case (2 qs r)
  then show ?thesis by (simp add: admitted_def)
qed

lemma second_leg_ok:
  assumes "second_leg_check v a = None"
  shows "case od_quantity1 a of None \<Rightarrow> True | Some raw \<Rightarrow> \<exists>q. parse_int raw = Some q \<and> 1 \<le> q \<and> q \<le> exchange_cap v (od_exchange a)"
  using assms by (auto simp: second_leg_check_def split: option.splits if_splits)


text \<open>
  The position layer never stands in the way of an exit: an order that strictly reduces one
  position passes whatever the number of positions and the margin; any other order passes exactly
  when a slot is free and the margin used is not known to be at the limit.
\<close>

theorem reductions_pass_position_limits:
  "sr_passed (validate_positions l ps used balance oo) \<longleftrightarrow>
     is_strict_reduction oo (open_positions ps)
     \<or> int (length (open_positions ps)) < pl_max_positions l
       \<and> (case (if f_less (Fin 0) balance then f_div used balance else None) of
            None \<Rightarrow> True | Some ratio \<Rightarrow> \<not> f_le (pl_max_margin_pct l) (f_mul ratio (Fin 100)))"
  by (auto simp: validate_positions_def Let_def split: option.splits)

text \<open>A strict reduction moves the net position toward zero without passing it.\<close>

theorem strict_reduction_toward_zero:
  assumes "is_strict_reduction (Some a) ps" and "q = qty_of (od_quantity a)" and "net = net_of (order_key a) ps"
  shows "let after = (if normalise_name (od_action a) = ''BUY'' then net + q else net - q)
     in \<bar>after\<bar> < \<bar>net\<bar> \<and> 0 \<le> after * net"
proof -
  have q: "0 < q" using assms by (auto simp: is_strict_reduction_def Let_def split: if_splits prod.splits)
  have "0 < net \<and> normalise_name (od_action a) = ''SELL'' \<and> q \<le> net \<or> net < 0 \<and> normalise_name (od_action a) = ''BUY'' \<and> q \<le> \<bar>net\<bar>"
    using assms by (auto simp: is_strict_reduction_def Let_def split: if_splits prod.splits)
  then show ?thesis
  proof
    assume *: "0 < net \<and> normalise_name (od_action a) = ''SELL'' \<and> q \<le> net"
    then have "0 \<le> (net - q) * net" by simp
    with * q show ?thesis by (simp add: Let_def)
  next
    assume *: "net < 0 \<and> normalise_name (od_action a) = ''BUY'' \<and> q \<le> \<bar>net\<bar>"
    then have "0 \<le> (net + q) * net" by (intro mult_nonpos_nonpos) (auto simp: abs_if)
    moreover have "\<bar>net + q\<bar> < \<bar>net\<bar>" using * q by linarith
    ultimately show ?thesis using * by (simp add: Let_def)
  qed
qed

subsection \<open>Gate ids are one-shot\<close>

record gate_call =
  gc_now :: fnum
  gc_ttl :: fnum
  gc_id :: string

definition gate_step :: "gate \<Rightarrow> gate_call \<Rightarrow> gate" where
  "gate_step g c = fst (gate_consume (gc_now c) (gc_ttl c) (gc_id c) g)"

lemma map_of_filter_kept: "map_of g k = Some e \<Longrightarrow> P (k, e) \<Longrightarrow> map_of (filter P g) k = Some e"
proof (induction g)
  case (Cons x g)
  then show ?case by (cases x) (auto split: if_splits)
qed simp

lemma gate_step_keeps:
  assumes "map_of g gid = Some e" and "f_less (gc_now c) e"
  shows "map_of (gate_step g c) gid = Some e"
proof -
  let ?g = "if 256 < length g then filter (\<lambda>x. f_less (gc_now c) (snd x)) g else g"
  have kept: "map_of ?g gid = Some e" using assms by (simp add: map_of_filter_kept)
  show ?thesis
  proof (cases "gc_id c = gid")
    case True
    with kept assms(2) show ?thesis by (simp add: gate_step_def gate_consume_def Let_def)
  next
    case False
    with kept have "map_of (AList.update (gc_id c) v ?g) gid = Some e" for v by simp
    with kept show ?thesis
      unfolding gate_step_def gate_consume_def Let_def by (auto simp del: map_of_update_other split: option.splits)
  qed
qed

text \<open>
  A gate id is good for one broker write: once it is consumed, every further consumption before
  its marker expires is refused, whatever other ids are consumed in between and although the table
  is pruned when it grows. The marker outlives the ten seconds a safety context is valid.
\<close>

theorem gate_id_is_one_shot:
  assumes "gate_consume now ttl gid g = (g', True)" and "list_all (\<lambda>c. f_less (gc_now c) (f_add now ttl)) cs"
    and "f_less now' (f_add now ttl)"
  shows "\<not> snd (gate_consume now' ttl' gid (foldl gate_step g' cs))"
proof -
  have "map_of g' gid = Some (f_add now ttl)"
    using assms(1) by (auto simp: gate_consume_def Let_def split: option.splits if_splits)
  then have kept: "map_of (foldl gate_step g' cs) gid = Some (f_add now ttl)"
    using assms(2) by (induction cs arbitrary: g') (simp_all add: gate_step_keeps)
  let ?g = "foldl gate_step g' cs"
  have "map_of (if 256 < length ?g then filter (\<lambda>x. f_less now' (snd x)) ?g else ?g) gid = Some (f_add now ttl)"
    using kept assms(3) by (simp add: map_of_filter_kept)
  with assms(3) show ?thesis by (simp add: gate_consume_def Let_def)
qed

subsection \<open>Figures that are no numbers\<close>

text \<open>
  Layer 4 refuses a profit that is not a finite number; the other layers compare, so a margin or a
  greek that is not a number passes them, and so does a limit price \<open>nan\<close>.
\<close>

definition demo_order :: trade_order where
  "demo_order = \<lparr>od_symbol = ''SBIN'', od_action = ''BUY'', od_exchange = ''NSE'', od_product = ''MIS'', od_pricetype = ''LIMIT'',
     od_quantity = ''10'', od_price = ''100'', od_validity = None, od_quantity1 = None\<rparr>"

definition demo_l1 :: order_validation where
  "demo_l1 = order_validation (Fin 5) None True"

definition demo_open_time :: moment where
  "demo_open_time = Naive \<lparr>dt_year = 2026, dt_month = 1, dt_day = 5, dt_hour = 10, dt_minute = 0, dt_second = 0, dt_micro = 0\<rparr>"

lemma nan_passes:
  "sr_passed (validate_greeks p NotANum NotANum)"
  "int (length (open_positions ps)) < pl_max_positions l \<Longrightarrow> sr_passed (validate_positions l ps NotANum (Fin 1) oo)"
  "validate_order demo_l1 (demo_order\<lparr>od_price := ''nan''\<rparr>) (Some (Fin 100)) demo_open_time = Inr (pass_result ''L1_ORDER'')"
proof -
  show "sr_passed (validate_greeks p NotANum NotANum)" by (cases "pr_max_net_delta p"; cases "pr_max_net_vega p") (simp_all add: validate_greeks_def)
  show "sr_passed (validate_positions l ps NotANum (Fin 1) oo)" if "int (length (open_positions ps)) < pl_max_positions l"
    using that by (cases "pl_max_margin_pct l") (simp_all add: validate_positions_def f_le_def)
  show "validate_order demo_l1 (demo_order\<lparr>od_price := ''nan''\<rparr>) (Some (Fin 100)) demo_open_time = Inr (pass_result ''L1_ORDER'')"
    by code_simp
qed

subsection \<open>Witnesses\<close>

definition demo_system :: "daily_db safety_system" where
  "demo_system = \<lparr>ss_l1 = demo_l1, ss_l2 = \<lparr>pl_max_positions = 5, pl_max_margin_pct = Fin 60\<rparr>,
     ss_l3 = \<lparr>pr_max_net_delta = Fin 500, pr_max_net_vega = Fin 10000\<rparr>, ss_l4 = limits_new (Fin 3) (Fin 15) [],
     ss_kill_active = False, ss_kill_reason = []\<rparr>"

definition demo_facts :: order_facts where
  "demo_facts = \<lparr>of_selector = ''zerodha:AB1'', of_ltp = Some (Fin 101), of_positions = [], of_used_margin = Fin 10, of_total_balance = Fin 100,
     of_net_delta = Fin 0, of_net_vega = Fin 0, of_daily_pnl = PInt 0, of_starting_capital = PInt 100000, of_time = demo_open_time\<rparr>"

definition demo_check :: "(daily_db safety_system, layer_error, safety_result list) outcome" where
  "demo_check = check_order sqlite_store (demo_store_env, demo_store_env) demo_order demo_facts demo_system"

lemma demo_check_eq: "check_order sqlite_store (demo_store_env, demo_store_env) demo_order demo_facts demo_system = (fst demo_check, Inr (projr (snd demo_check)))"
  and demo_check_admits: "admitted (projr (snd demo_check))"
proof -
  have "\<not> isl (snd demo_check) \<and> admitted (projr (snd demo_check))" by code_simp
  then show "check_order sqlite_store (demo_store_env, demo_store_env) demo_order demo_facts demo_system = (fst demo_check, Inr (projr (snd demo_check)))"
    "admitted (projr (snd demo_check))"
    by (simp_all add: demo_check_def [symmetric] prod_eq_iff sum.expand)
qed

theorem check_order_fail_fast_witness: "length (projr (snd demo_check)) = 5"
  using check_order_fail_fast [OF demo_check_eq] demo_check_admits by blast


theorem gate_id_is_one_shot_witness:
  "\<not> snd (gate_consume (Fin 1005) (Fin 60) ''g1'' (foldl gate_step (fst (gate_consume (Fin 1000) (Fin 60) ''g1'' []))
     [\<lparr>gc_now = Fin 1001, gc_ttl = Fin 60, gc_id = ''g2''\<rparr>]))"
proof (rule gate_id_is_one_shot)
  show "gate_consume (Fin 1000) (Fin 60) ''g1'' [] = (fst (gate_consume (Fin 1000) (Fin 60) ''g1'' []), True)"
    by (simp add: gate_consume_def)
  show "list_all (\<lambda>c. f_less (gc_now c) (f_add (Fin 1000) (Fin 60))) [\<lparr>gc_now = Fin 1001, gc_ttl = Fin 60, gc_id = ''g2''\<rparr>]" by code_simp
  show "f_less (Fin 1005) (f_add (Fin 1000) (Fin 60))" by code_simp
qed

theorem strict_reduction_toward_zero_witness:
  "let after = (20 :: int) - 10 in \<bar>after\<bar> < \<bar>20\<bar> \<and> 0 \<le> after * 20"
proof -
  let ?a = "demo_order\<lparr>od_action := ''SELL''\<rparr>"
  let ?ps = "[\<lparr>hp_symbol = ''SBIN'', hp_exchange = ''NSE'', hp_product = ''MIS'', hp_quantity = ''20''\<rparr>]"
  have "is_strict_reduction (Some ?a) ?ps" "10 = qty_of (od_quantity ?a)" "20 = net_of (order_key ?a) ?ps"
    "normalise_name (od_action ?a) = ''SELL''" by code_simp+
  from strict_reduction_toward_zero [OF this(1,2,3)] this(4) show ?thesis by simp
qed

end
