(* ===== verification/Safety_Config.thy ===== *)
theory Safety_Config
  imports Safety_Layers
begin

text \<open>
  \<open>safety.SafetyConfig\<close>: the strict configuration of the layers, its mapping form for the settings
  file, and how \<open>SafetySystem\<close> publishes a new one: persisted first, then applied.
\<close>

subsection \<open>Validation\<close>

text \<open>A value of a settings mapping: a scalar, or the mapping of the quantity limits.\<close>

datatype config_value = Scalar pyval | Limits "(pyval \<times> pyval) list"

type_synonym settings = "(string \<times> config_value) list"

datatype config_error = ConfigValueError string | ConfigOverflow | PersistFailed

record safety_config =
  sc_price_deviation_pct :: fnum
  sc_qty_limits :: "(string \<times> int) list"
  sc_max_positions :: int
  sc_max_margin_pct :: fnum
  sc_max_net_delta :: fnum
  sc_max_net_vega :: fnum
  sc_pnl_pause_pct :: fnum
  sc_pnl_kill_pct :: fnum
  sc_check_market_hours :: bool

definition in_range :: "string \<Rightarrow> fnum \<Rightarrow> fnum option \<Rightarrow> config_error + fnum" where
  "in_range name f maximum =
     (if \<not> is_finite_float f \<or> f_less f (Fin 0) \<or> (case maximum of None \<Rightarrow> False | Some m \<Rightarrow> f_less m f)
      then Inl (ConfigValueError (name @ '' is outside its permitted range'')) else Inr f)"

fun finite_number :: "string \<Rightarrow> config_value \<Rightarrow> fnum option \<Rightarrow> config_error + fnum" where
  "finite_number name (Scalar (PInt i)) maximum =
     (case to_float (PInt i) of Inl e \<Rightarrow> Inl ConfigOverflow | Inr f \<Rightarrow> in_range name f maximum)"
| "finite_number name (Scalar (PFloat f s)) maximum = in_range name f maximum"
| "finite_number name v maximum = Inl (ConfigValueError (name @ '' must be numeric''))"

fun position_count :: "config_value \<Rightarrow> config_error + int" where
  "position_count (Scalar (PInt i)) = (if i < 0 then Inl (ConfigValueError ''max_positions cannot be negative'') else Inr i)"
| "position_count v = Inl (ConfigValueError ''max_positions must be an integer'')"

fun hours_flag :: "config_value \<Rightarrow> config_error + bool" where
  "hours_flag (Scalar (PBool b)) = Inr b"
| "hours_flag v = Inl (ConfigValueError ''check_market_hours must be a boolean'')"

definition put_quantity_limit :: "pyval \<times> pyval \<Rightarrow> (string \<times> int) list \<Rightarrow> config_error + (string \<times> int) list" where
  "put_quantity_limit kv acc =
     (let exchange = py_upper (py_strip (py_str (fst kv)))
      in if exchange = [] then Inl (ConfigValueError ''qty_limits contains an empty exchange'')
         else (case snd kv of
                 PInt n \<Rightarrow> if n \<le> 0 then Inl (ConfigValueError (''qty_limits.'' @ exchange @ '' must be a positive integer''))
                          else Inr (AList.update exchange n acc)
               | _ \<Rightarrow> Inl (ConfigValueError (''qty_limits.'' @ exchange @ '' must be a positive integer''))))"

fun quantity_limits :: "config_value \<Rightarrow> config_error + (string \<times> int) list" where
  "quantity_limits (Limits kvs) =
     (if kvs = [] then Inl (ConfigValueError ''qty_limits must be a non-empty mapping'') else for_each put_quantity_limit kvs [])"
| "quantity_limits v = Inl (ConfigValueError ''qty_limits must be a non-empty mapping'')"

text \<open>\<open>__post_init__\<close>, with the fields as a mapping that has all of them.\<close>

definition post_init :: "(string \<Rightarrow> config_value) \<Rightarrow> config_error + safety_config" where
  "post_init v =
     bind_res (finite_number ''price_deviation_pct'' (v ''price_deviation_pct'') (Some (Fin 100))) (\<lambda>deviation.
     bind_res (position_count (v ''max_positions'')) (\<lambda>positions.
     bind_res (finite_number ''max_margin_pct'' (v ''max_margin_pct'') (Some (Fin 100))) (\<lambda>margin.
     bind_res (finite_number ''max_net_delta'' (v ''max_net_delta'') None) (\<lambda>delta.
     bind_res (finite_number ''max_net_vega'' (v ''max_net_vega'') None) (\<lambda>vega.
     bind_res (finite_number ''pnl_pause_pct'' (v ''pnl_pause_pct'') None) (\<lambda>pause.
     bind_res (finite_number ''pnl_kill_pct'' (v ''pnl_kill_pct'') None) (\<lambda>kill.
     bind_res (require (f_less (Fin 0) pause \<and> f_less pause kill)
       (ConfigValueError ''pnl_kill_pct must be greater than the positive pnl_pause_pct'')) (\<lambda>_.
     bind_res (hours_flag (v ''check_market_hours'')) (\<lambda>hours.
     bind_res (quantity_limits (v ''qty_limits'')) (\<lambda>limits.
       Inr \<lparr>sc_price_deviation_pct = deviation, sc_qty_limits = limits, sc_max_positions = positions, sc_max_margin_pct = margin,
            sc_max_net_delta = delta, sc_max_net_vega = vega, sc_pnl_pause_pct = pause, sc_pnl_kill_pct = kill, sc_check_market_hours = hours\<rparr>))))))))))"

definition config_fields :: "string list" where
  "config_fields = [''price_deviation_pct'', ''qty_limits'', ''max_positions'', ''max_margin_pct'', ''max_net_delta'', ''max_net_vega'',
     ''pnl_pause_pct'', ''pnl_kill_pct'', ''check_market_hours'']"

definition from_mapping :: "settings \<Rightarrow> config_error + safety_config" where
  "from_mapping m =
     (let missing = sort_by text_less (filter (\<lambda>f. f \<notin> fst ` set m) config_fields);
          unknown = sort_by text_less (filter (\<lambda>f. f \<notin> set config_fields) (map fst m));
          details = (if missing \<noteq> [] then [''missing '' @ py_join '', '' missing] else []) @ (if unknown \<noteq> [] then [''unknown '' @ py_join '', '' unknown] else [])
      in if details \<noteq> [] then Inl (ConfigValueError (''invalid safety configuration: '' @ py_join ''; '' details))
         else post_init (\<lambda>f. case map_of m f of None \<Rightarrow> Scalar PNone | Some x \<Rightarrow> x))"

text \<open>The text of a float is not read back.\<close>

definition to_mapping :: "safety_config \<Rightarrow> settings" where
  "to_mapping c =
     [(''price_deviation_pct'', Scalar (PFloat (sc_price_deviation_pct c) [])), (''qty_limits'', Limits (map (\<lambda>(k, n). (PStr k, PInt n)) (sc_qty_limits c))),
      (''max_positions'', Scalar (PInt (sc_max_positions c))), (''max_margin_pct'', Scalar (PFloat (sc_max_margin_pct c) [])),
      (''max_net_delta'', Scalar (PFloat (sc_max_net_delta c) [])), (''max_net_vega'', Scalar (PFloat (sc_max_net_vega c) [])),
      (''pnl_pause_pct'', Scalar (PFloat (sc_pnl_pause_pct c) [])), (''pnl_kill_pct'', Scalar (PFloat (sc_pnl_kill_pct c) [])),
      (''check_market_hours'', Scalar (PBool (sc_check_market_hours c)))]"

subsection \<open>Publishing\<close>

definition snapshot_config :: "'s safety_system \<Rightarrow> config_error + safety_config" where
  "snapshot_config s =
     post_init (\<lambda>f. case map_of (to_mapping \<lparr>sc_price_deviation_pct = ov_price_deviation_pct (ss_l1 s), sc_qty_limits = ov_qty_limits (ss_l1 s),
        sc_max_positions = pl_max_positions (ss_l2 s), sc_max_margin_pct = pl_max_margin_pct (ss_l2 s), sc_max_net_delta = pr_max_net_delta (ss_l3 s),
        sc_max_net_vega = pr_max_net_vega (ss_l3 s), sc_pnl_pause_pct = dl_pause_pct (ss_l4 s), sc_pnl_kill_pct = dl_kill_pct (ss_l4 s),
        sc_check_market_hours = ov_check_market_hours (ss_l1 s)\<rparr>) f of None \<Rightarrow> Scalar PNone | Some x \<Rightarrow> x)"

definition publish :: "safety_config \<Rightarrow> 's safety_system \<Rightarrow> 's safety_system" where
  "publish c s = s\<lparr>ss_l1 := \<lparr>ov_price_deviation_pct = sc_price_deviation_pct c, ov_qty_limits = sc_qty_limits c, ov_check_market_hours = sc_check_market_hours c\<rparr>,
     ss_l2 := \<lparr>pl_max_positions = sc_max_positions c, pl_max_margin_pct = sc_max_margin_pct c\<rparr>,
     ss_l3 := \<lparr>pr_max_net_delta = sc_max_net_delta c, pr_max_net_vega = sc_max_net_vega c\<rparr>,
     ss_l4 := (ss_l4 s)\<lparr>dl_pause_pct := sc_pnl_pause_pct c, dl_kill_pct := sc_pnl_kill_pct c\<rparr>\<rparr>"

text \<open>\<open>persist\<close> is the outcome of the callback that writes the settings file.\<close>

definition persist_and_apply_config :: "bool \<Rightarrow> safety_config \<Rightarrow> 's safety_system \<Rightarrow> ('s safety_system, config_error, unit) outcome" where
  "persist_and_apply_config persist c s = (if persist then (publish c s, Inr ()) else (s, Inl PersistFailed))"

definition update_and_persist_config :: "bool \<Rightarrow> settings \<Rightarrow> 's safety_system \<Rightarrow> ('s safety_system, config_error, safety_config) outcome" where
  "update_and_persist_config persist updates s =
     (if updates = [] then (s, Inl (ConfigValueError ''safety configuration update must be a non-empty mapping''))
      else bind_out (s, snapshot_config s) (\<lambda>s current.
           bind_out (s, from_mapping (fold (\<lambda>(k, v). AList.update k v) updates (to_mapping current))) (\<lambda>s candidate.
           bind_out (persist_and_apply_config persist candidate s) (\<lambda>s _. (s, Inr candidate)))))"

subsection \<open>Round trip and publication\<close>

definition config_ok :: "safety_config \<Rightarrow> bool" where
  "config_ok c \<longleftrightarrow>
     list_all (\<lambda>f. is_finite_float f \<and> f_le (Fin 0) f) [sc_price_deviation_pct c, sc_max_margin_pct c, sc_max_net_delta c, sc_max_net_vega c,
       sc_pnl_pause_pct c, sc_pnl_kill_pct c]
     \<and> f_le (sc_price_deviation_pct c) (Fin 100) \<and> f_le (sc_max_margin_pct c) (Fin 100) \<and> 0 \<le> sc_max_positions c
     \<and> f_less (Fin 0) (sc_pnl_pause_pct c) \<and> f_less (sc_pnl_pause_pct c) (sc_pnl_kill_pct c)
     \<and> sc_qty_limits c \<noteq> [] \<and> distinct (map fst (sc_qty_limits c))
     \<and> list_all (\<lambda>(k, n). k \<noteq> [] \<and> py_upper (py_strip k) = k \<and> 0 < n) (sc_qty_limits c)"

lemma in_range_Inr: "in_range name f m = Inr g \<longleftrightarrow> g = f \<and> is_finite_float f \<and> f_le (Fin 0) f \<and> (case m of None \<Rightarrow> True | Some b \<Rightarrow> \<not> f_less b f)"
  by (cases f) (auto simp: in_range_def split: option.splits if_splits)

lemma finite_number_Inr:
  assumes "finite_number name v m = Inr f"
  shows "is_finite_float f \<and> f_le (Fin 0) f \<and> (case m of None \<Rightarrow> True | Some b \<Rightarrow> \<not> f_less b f)"
  using assms by (induction name v m rule: finite_number.induct) (auto simp: in_range_Inr split: sum.splits)

lemma put_quantity_limit_ok:
  assumes "put_quantity_limit kv acc = Inr acc'" and "distinct (map fst acc)" and "list_all (\<lambda>(k, n). k \<noteq> [] \<and> py_upper (py_strip k) = k \<and> 0 < n) acc"
  shows "acc' \<noteq> [] \<and> distinct (map fst acc') \<and> list_all (\<lambda>(k, n). k \<noteq> [] \<and> py_upper (py_strip k) = k \<and> 0 < n) acc'"
proof -
  have "py_upper (py_strip (py_upper (py_strip s))) = py_upper (py_strip s)" for s by (simp add: py_strip_upper)
  with assms show ?thesis
    by (auto simp: put_quantity_limit_def Let_def distinct_update intro!: list_all_update split: if_splits pyval.splits)
qed

lemma quantity_limits_ok:
  assumes "quantity_limits v = Inr l"
  shows "l \<noteq> [] \<and> distinct (map fst l) \<and> list_all (\<lambda>(k, n). k \<noteq> [] \<and> py_upper (py_strip k) = k \<and> 0 < n) l"
proof (cases v)
  case (Limits kvs)
  have "distinct (map fst l) \<and> list_all (\<lambda>(k, n). k \<noteq> [] \<and> py_upper (py_strip k) = k \<and> 0 < n) l \<and> (kvs \<noteq> [] \<or> acc \<noteq> [] \<longrightarrow> l \<noteq> [])"
    if "for_each put_quantity_limit kvs acc = Inr l" "distinct (map fst acc)" "list_all (\<lambda>(k, n). k \<noteq> [] \<and> py_upper (py_strip k) = k \<and> 0 < n) acc" for acc
    using that
  proof (induction kvs arbitrary: acc)
    case (Cons kv kvs)
    then obtain acc' where acc': "put_quantity_limit kv acc = Inr acc'" "for_each put_quantity_limit kvs acc' = Inr l"
      by (auto simp: bind_res_eq_Inr)
    with Cons put_quantity_limit_ok [OF acc'(1) Cons.prems(2,3)] show ?case by blast
  qed simp
  from this [of "[]"] Limits assms show ?thesis by (simp split: if_splits)
qed (use assms in auto)

lemma post_init_ok: "post_init v = Inr c \<Longrightarrow> config_ok c"
proof -
  assume "post_init v = Inr c"
  then obtain deviation positions margin delta vega pause kill hours limits
    where h: "finite_number ''price_deviation_pct'' (v ''price_deviation_pct'') (Some (Fin 100)) = Inr deviation"
      "position_count (v ''max_positions'') = Inr positions" "finite_number ''max_margin_pct'' (v ''max_margin_pct'') (Some (Fin 100)) = Inr margin"
      "finite_number ''max_net_delta'' (v ''max_net_delta'') None = Inr delta" "finite_number ''max_net_vega'' (v ''max_net_vega'') None = Inr vega"
      "finite_number ''pnl_pause_pct'' (v ''pnl_pause_pct'') None = Inr pause" "finite_number ''pnl_kill_pct'' (v ''pnl_kill_pct'') None = Inr kill"
      "f_less (Fin 0) pause \<and> f_less pause kill" "quantity_limits (v ''qty_limits'') = Inr limits"
      "c = \<lparr>sc_price_deviation_pct = deviation, sc_qty_limits = limits, sc_max_positions = positions, sc_max_margin_pct = margin,
            sc_max_net_delta = delta, sc_max_net_vega = vega, sc_pnl_pause_pct = pause, sc_pnl_kill_pct = kill, sc_check_market_hours = hours\<rparr>"
    unfolding post_init_def by (auto simp: require_def split: if_splits)
  have "0 \<le> positions" using h(2) by (cases "v ''max_positions''" rule: position_count.cases) (auto split: if_splits)
  moreover have le: "f_le f (Fin 100)" if "is_finite_float f" "\<not> f_less (Fin 100) f" for f using that by (cases f) auto
  ultimately show ?thesis
    using finite_number_Inr [OF h(1)] finite_number_Inr [OF h(3)] finite_number_Inr [OF h(4)] finite_number_Inr [OF h(5)]
      finite_number_Inr [OF h(6)] finite_number_Inr [OF h(7)] h(8,10) quantity_limits_ok [OF h(9)]
    by (simp add: config_ok_def)
qed

lemma put_known_limit:
  assumes "k \<noteq> []" and "py_upper (py_strip k) = k" and "0 < n"
  shows "put_quantity_limit (PStr k, PInt n) acc = Inr (AList.update k n acc)"
proof -
  have "py_strip k \<noteq> []" using assms(1,2) by (metis py_upper_Nil_iff)
  with assms show ?thesis by (simp add: put_quantity_limit_def Let_def)
qed

lemma quantity_limits_round_trip:
  assumes "l \<noteq> []" and "distinct (map fst l)" and "list_all (\<lambda>(k, n). k \<noteq> [] \<and> py_upper (py_strip k) = k \<and> 0 < n) l"
  shows "quantity_limits (Limits (map (\<lambda>(k, n). (PStr k, PInt n)) l)) = Inr l"
proof -
  have "for_each put_quantity_limit (map (\<lambda>(k, n). (PStr k, PInt n)) l) acc = Inr (fold (\<lambda>(k, n). AList.update k n) l acc)" for acc
    using assms(3)
  proof (induction l arbitrary: acc)
    case (Cons kn l)
    then show ?case by (cases kn) (simp add: put_known_limit)
  qed simp
  with assms(1) fold_update_distinct [of "[]" l] assms(2) show ?thesis by simp
qed

lemma finite_number_float:
  assumes "is_finite_float f" and "f_le (Fin 0) f" and "case m of None \<Rightarrow> True | Some b \<Rightarrow> f_le f b"
  shows "finite_number name (Scalar (PFloat f [])) m = Inr f"
  using assms by (cases f) (auto simp: in_range_def f_le_def split: option.splits dest: f_less_trans)

lemma post_init_mapping:
  assumes "config_ok c"
  shows "post_init (\<lambda>f. case map_of (to_mapping c) f of None \<Rightarrow> Scalar PNone | Some x \<Rightarrow> x) = Inr c"
proof -
  define v where "v = (\<lambda>f. case map_of (to_mapping c) f of None \<Rightarrow> Scalar PNone | Some x \<Rightarrow> x)"
  have fields: "v ''price_deviation_pct'' = Scalar (PFloat (sc_price_deviation_pct c) [])" "v ''max_positions'' = Scalar (PInt (sc_max_positions c))"
    "v ''qty_limits'' = Limits (map (\<lambda>(k, n). (PStr k, PInt n)) (sc_qty_limits c))" "v ''max_margin_pct'' = Scalar (PFloat (sc_max_margin_pct c) [])"
    "v ''max_net_delta'' = Scalar (PFloat (sc_max_net_delta c) [])" "v ''max_net_vega'' = Scalar (PFloat (sc_max_net_vega c) [])"
    "v ''pnl_pause_pct'' = Scalar (PFloat (sc_pnl_pause_pct c) [])" "v ''pnl_kill_pct'' = Scalar (PFloat (sc_pnl_kill_pct c) [])"
    "v ''check_market_hours'' = Scalar (PBool (sc_check_market_hours c))"
    by (simp_all add: v_def to_mapping_def)
  have numbers: "finite_number n (Scalar (PFloat (sc_price_deviation_pct c) [])) (Some (Fin 100)) = Inr (sc_price_deviation_pct c)"
    "finite_number n (Scalar (PFloat (sc_max_margin_pct c) [])) (Some (Fin 100)) = Inr (sc_max_margin_pct c)"
    "finite_number n (Scalar (PFloat (sc_max_net_delta c) [])) None = Inr (sc_max_net_delta c)"
    "finite_number n (Scalar (PFloat (sc_max_net_vega c) [])) None = Inr (sc_max_net_vega c)"
    "finite_number n (Scalar (PFloat (sc_pnl_pause_pct c) [])) None = Inr (sc_pnl_pause_pct c)"
    "finite_number n (Scalar (PFloat (sc_pnl_kill_pct c) [])) None = Inr (sc_pnl_kill_pct c)" for n
    using assms by (intro finite_number_float; simp add: config_ok_def)+
  have rest: "position_count (Scalar (PInt (sc_max_positions c))) = Inr (sc_max_positions c)"
    "f_less (Fin 0) (sc_pnl_pause_pct c) \<and> f_less (sc_pnl_pause_pct c) (sc_pnl_kill_pct c)"
    "quantity_limits (Limits (map (\<lambda>(k, n). (PStr k, PInt n)) (sc_qty_limits c))) = Inr (sc_qty_limits c)"
    using assms quantity_limits_round_trip [of "sc_qty_limits c"] by (simp_all add: config_ok_def)
  have "post_init v = Inr c" unfolding post_init_def fields numbers rest(1,3) using rest(2) by simp
  then show ?thesis by (simp add: v_def)
qed

text \<open>
  Settings survive the settings file: reading back the mapping of a valid configuration gives
  the same configuration, and every configuration that a mapping is accepted as is valid, with a
  positive pause limit below the hard stop and a positive quantity limit for each exchange.
\<close>

theorem config_round_trip:
  "(from_mapping m = Inr c \<longrightarrow> config_ok c) \<and> (config_ok c \<longrightarrow> from_mapping (to_mapping c) = Inr c)"
proof (intro conjI impI)
  assume "from_mapping m = Inr c"
  then show "config_ok c" by (auto simp: from_mapping_def Let_def dest: post_init_ok split: if_splits)
next
  assume ok: "config_ok c"
  have keys: "map fst (to_mapping c) = config_fields" by (simp add: to_mapping_def config_fields_def)
  then have "filter (\<lambda>f. f \<notin> fst ` set (to_mapping c)) config_fields = []" "filter (\<lambda>f. f \<notin> set config_fields) (map fst (to_mapping c)) = []"
    by (simp_all add: filter_empty_conv flip: set_map)
  then have "from_mapping (to_mapping c) = post_init (\<lambda>f. case map_of (to_mapping c) f of None \<Rightarrow> Scalar PNone | Some x \<Rightarrow> x)"
    by (simp add: from_mapping_def Let_def sort_by_def)
  then show "from_mapping (to_mapping c) = Inr c" using post_init_mapping [OF ok] by simp
qed

lemma snapshot_published: "config_ok c \<Longrightarrow> snapshot_config (publish c s) = Inr c"
  using post_init_mapping [of c] by (cases c) (simp add: snapshot_config_def publish_def)

text \<open>
  A settings update is all or nothing: it either is refused (for its values, or because the file
  could not be written) and leaves every layer as it was, or the layers are exactly the validated
  candidate that was persisted and is returned.
\<close>

theorem config_update_is_atomic:
  "case update_and_persist_config persist updates s of
     (s', Inl e) \<Rightarrow> s' = s
   | (s', Inr c) \<Rightarrow> persist \<and> config_ok c \<and> s' = publish c s \<and> snapshot_config s' = Inr c"
proof (cases "updates = []")
  case True
  then show ?thesis by (simp add: update_and_persist_config_def)
next
  case False
  show ?thesis
  proof (cases "snapshot_config s")
    case (Inl e)
    with False show ?thesis by (simp add: update_and_persist_config_def)
  next
    case (Inr current)
    show ?thesis
    proof (cases "from_mapping (fold (\<lambda>(k, v). AList.update k v) updates (to_mapping current))")
      case Inl': (Inl e)
      with False Inr show ?thesis by (simp add: update_and_persist_config_def)
    next
      case Inr': (Inr c)
      then have "config_ok c" using post_init_ok by (auto simp: from_mapping_def Let_def split: if_splits)
      with False Inr Inr' snapshot_published [of c s] show ?thesis
        by (cases persist) (simp_all add: update_and_persist_config_def persist_and_apply_config_def)
    qed
  qed
qed

theorem config_round_trip_witness:
  "config_ok \<lparr>sc_price_deviation_pct = Fin 5, sc_qty_limits = DEFAULT_QTY_LIMITS, sc_max_positions = 5, sc_max_margin_pct = Fin 60,
     sc_max_net_delta = Fin 500, sc_max_net_vega = Fin 10000, sc_pnl_pause_pct = Fin 3, sc_pnl_kill_pct = Fin 15, sc_check_market_hours = True\<rparr>"
  (is "config_ok ?c")
proof -
  have "from_mapping (to_mapping ?c) = Inr ?c" by code_simp
  with config_round_trip [of "to_mapping ?c" ?c] show ?thesis by blast
qed

end
