(* ===== verification/Trading_Guards.thy ===== *)
theory Trading_Guards
  imports Safety_Layers
begin

text \<open>
  The guards beside the layers: \<open>safety.OvertradingGuard\<close> (cooldown and daily count per symbol, pause
  after a streak of losses) and \<open>safety.IntradayAllowList\<close>. Times are IST datetimes; the reading of
  the clock is an argument.
\<close>

subsection \<open>OvertradingGuard\<close>

record overtrading_config =
  oc_cooldown_seconds :: int
  oc_max_consecutive_losses :: int
  oc_loss_pause_seconds :: int
  oc_max_hold_hours :: fnum
  oc_daily_trade_limit :: int

definition default_overtrading :: overtrading_config where
  "default_overtrading = \<lparr>oc_cooldown_seconds = 60, oc_max_consecutive_losses = 3, oc_loss_pause_seconds = 300, oc_max_hold_hours = Fin 6,
     oc_daily_trade_limit = 10\<rparr>"

record symbol_state =
  sy_last_order_at :: "datetime option"
  sy_daily_trade_count :: int
  sy_last_count_reset_date :: string

record overtrading_guard =
  og_symbols :: "(string \<times> symbol_state) list"
  og_consecutive_losses :: int
  og_pause_until :: "int option"

definition new_guard :: overtrading_guard where
  "new_guard = \<lparr>og_symbols = [], og_consecutive_losses = 0, og_pause_until = None\<rparr>"

definition fresh_symbol :: symbol_state where
  "fresh_symbol = \<lparr>sy_last_order_at = None, sy_daily_trade_count = 0, sy_last_count_reset_date = []\<rparr>"

definition symbol_of :: "string \<Rightarrow> overtrading_guard \<Rightarrow> symbol_state" where
  "symbol_of name g = (case map_of (og_symbols g) name of None \<Rightarrow> fresh_symbol | Some st \<Rightarrow> st)"

definition put_symbol :: "string \<Rightarrow> symbol_state \<Rightarrow> overtrading_guard \<Rightarrow> overtrading_guard" where
  "put_symbol name st g = g\<lparr>og_symbols := AList.update name st (og_symbols g)\<rparr>"

definition total_seconds :: "int \<Rightarrow> fnum" where
  "total_seconds us = round64 (of_int us / 1000000)"

definition whole_seconds :: "fnum \<Rightarrow> string" where
  "whole_seconds f = (case f_trunc f of None \<Rightarrow> [] | Some n \<Rightarrow> show_int n)"

definition reset_daily_count_if_needed :: "datetime \<Rightarrow> symbol_state \<Rightarrow> symbol_state" where
  "reset_daily_count_if_needed now st =
     (if sy_last_count_reset_date st \<noteq> date_text now
      then st\<lparr>sy_daily_trade_count := 0, sy_last_count_reset_date := date_text now\<rparr> else st)"

definition paused_at :: "datetime \<Rightarrow> overtrading_guard \<Rightarrow> bool" where
  "paused_at now g = (case og_pause_until g of None \<Rightarrow> False | Some p \<Rightarrow> instant now < p)"

definition cooling :: "overtrading_config \<Rightarrow> datetime \<Rightarrow> symbol_state \<Rightarrow> bool" where
  "cooling cfg now st =
     (case sy_last_order_at st of
        None \<Rightarrow> False
      | Some prev \<Rightarrow> f_less (total_seconds (instant now - instant prev)) (Fin (of_int (oc_cooldown_seconds cfg))))"

definition trade_verdict :: "overtrading_config \<Rightarrow> string \<Rightarrow> datetime \<Rightarrow> symbol_state \<Rightarrow> bool \<times> string" where
  "trade_verdict cfg name now st =
     (if cooling cfg now st
      then (False, name @ '': cooldown active - next order allowed in ''
              @ whole_seconds (f_sub (Fin (of_int (oc_cooldown_seconds cfg))) (total_seconds (instant now - instant (the (sy_last_order_at st))))) @ ''s'')
      else if 0 < oc_daily_trade_limit cfg \<and> oc_daily_trade_limit cfg \<le> sy_daily_trade_count st
      then (False, name @ '': daily trade limit of '' @ show_int (oc_daily_trade_limit cfg) @ '' reached'')
      else (True, []))"

definition can_trade :: "overtrading_config \<Rightarrow> string \<Rightarrow> datetime \<Rightarrow> overtrading_guard \<Rightarrow> overtrading_guard \<times> bool \<times> string" where
  "can_trade cfg name now g =
     (if paused_at now g
      then (g, False, ''Trading paused after '' @ show_int (og_consecutive_losses g) @ '' consecutive losses - resumes in ''
              @ whole_seconds (total_seconds (the (og_pause_until g) - instant now)) @ ''s'')
      else (let st = reset_daily_count_if_needed now (symbol_of name g)
            in (put_symbol name st g, trade_verdict cfg name now st)))"

definition check_hold_duration :: "overtrading_config \<Rightarrow> string \<Rightarrow> datetime \<Rightarrow> datetime \<Rightarrow> bool \<times> string \<times> fnum list" where
  "check_hold_duration cfg name opened now =
     (case f_div (total_seconds (instant now - instant opened)) (Fin 3600) of
        None \<Rightarrow> (False, [], [])
      | Some hours \<Rightarrow>
          if f_less (oc_max_hold_hours cfg) hours
          then (True, name @ '': position held for {}h (warning limit {}h)'', [hours, oc_max_hold_hours cfg]) else (False, [], []))"

definition record_order :: "string \<Rightarrow> datetime \<Rightarrow> overtrading_guard \<Rightarrow> overtrading_guard" where
  "record_order name now g =
     (let st = reset_daily_count_if_needed now (symbol_of name g)
      in put_symbol name (st\<lparr>sy_last_order_at := Some now, sy_daily_trade_count := sy_daily_trade_count st + 1\<rparr>) g)"

definition record_trade_result :: "overtrading_config \<Rightarrow> fnum \<Rightarrow> datetime \<Rightarrow> overtrading_guard \<Rightarrow> overtrading_guard" where
  "record_trade_result cfg pnl now g =
     (if f_less pnl (Fin 0)
      then (let g = g\<lparr>og_consecutive_losses := og_consecutive_losses g + 1\<rparr>
            in if oc_max_consecutive_losses cfg \<le> og_consecutive_losses g
               then g\<lparr>og_pause_until := Some (instant now + oc_loss_pause_seconds cfg * 1000000)\<rparr> else g)
      else g\<lparr>og_consecutive_losses := 0\<rparr>)"

definition reset_daily :: "overtrading_guard \<Rightarrow> overtrading_guard" where
  "reset_daily g = g\<lparr>og_symbols := map (\<lambda>(s, st). (s, st\<lparr>sy_daily_trade_count := 0, sy_last_count_reset_date := []\<rparr>)) (og_symbols g)\<rparr>"

subsection \<open>IntradayAllowList\<close>

type_synonym allow_list = "string set"

definition new_allow_list :: "string list \<Rightarrow> allow_list" where
  "new_allow_list scrips = set (map py_upper scrips)"

definition is_allowed_intraday :: "allow_list \<Rightarrow> string \<Rightarrow> string \<Rightarrow> string \<Rightarrow> bool \<times> string" where
  "is_allowed_intraday al name exchange prd =
     (if py_upper prd \<noteq> ''MIS'' then (True, [])
      else if py_upper name \<in> al
      then (False, name @ '' is blocked for intraday (MIS) trading. Use CNC/NRML or remove it from the blocked list in Settings.'')
      else (True, []))"

definition allow_list_add :: "string \<Rightarrow> allow_list \<Rightarrow> allow_list" where
  "allow_list_add name al = insert (py_upper name) al"

definition allow_list_remove :: "string \<Rightarrow> allow_list \<Rightarrow> allow_list" where
  "allow_list_remove name al = al - {py_upper name}"

definition update_blocked :: "string list \<Rightarrow> allow_list \<Rightarrow> allow_list" where
  "update_blocked symbols al = set (map py_upper symbols)"

definition is_blocked :: "string \<Rightarrow> allow_list \<Rightarrow> bool" where
  "is_blocked name al \<longleftrightarrow> py_upper name \<in> al"

text \<open>Blocking does not depend on the case of a symbol, and only concerns intraday orders.\<close>

lemma blocked_list_laws:
  "is_blocked name (allow_list_add name' al) = (py_upper name = py_upper name' \<or> is_blocked name al)"
  "is_blocked name (allow_list_remove name' al) = (py_upper name \<noteq> py_upper name' \<and> is_blocked name al)"
  "is_blocked name (update_blocked names al) = (py_upper name \<in> py_upper ` set names)"
  "fst (is_allowed_intraday al name ex prd) = (py_upper prd = ''MIS'' \<longrightarrow> \<not> is_blocked name al)"
  by (auto simp: is_blocked_def allow_list_add_def allow_list_remove_def update_blocked_def is_allowed_intraday_def)

subsection \<open>What the guard enforces\<close>

text \<open>A caller that asks first and records what it places; the list is the orders placed, latest first.\<close>

datatype guard_event = Attempt string datetime | Outcome fnum datetime

definition guard_step :: "overtrading_config \<Rightarrow> overtrading_guard \<times> (string \<times> datetime) list \<Rightarrow> guard_event \<Rightarrow> overtrading_guard \<times> (string \<times> datetime) list" where
  "guard_step cfg gl ev =
     (case ev of
        Attempt name now \<Rightarrow>
          (case can_trade cfg name now (fst gl) of
             (g, ok, why) \<Rightarrow> if ok then (record_order name now g, (name, now) # snd gl) else (g, snd gl))
      | Outcome pnl now \<Rightarrow> (record_trade_result cfg pnl now (fst gl), snd gl))"

fun event_date :: "guard_event \<Rightarrow> string" where
  "event_date (Attempt name now) = date_text now"
| "event_date (Outcome pnl now) = date_text now"

definition placed_on :: "string \<Rightarrow> string \<Rightarrow> (string \<times> datetime) list \<Rightarrow> int" where
  "placed_on name day placed = int (length (filter (\<lambda>x. fst x = name \<and> date_text (snd x) = day) placed))"

definition spaced :: "overtrading_config \<Rightarrow> (string \<times> datetime) list \<Rightarrow> bool" where
  "spaced cfg placed \<longleftrightarrow> (\<forall>name. successively (\<lambda>later earlier. \<not> f_less (total_seconds (instant later - instant earlier)) (Fin (of_int (oc_cooldown_seconds cfg))))
     (map snd (filter (\<lambda>x. fst x = name) placed)))"

lemma symbol_of_put [simp]: "symbol_of s (put_symbol s' st g) = (if s = s' then st else symbol_of s g)"
  by (simp add: symbol_of_def put_symbol_def)

lemma symbol_of_result [simp]: "symbol_of s (record_trade_result cfg pnl now g) = symbol_of s g"
  by (simp add: symbol_of_def record_trade_result_def Let_def)

lemma text_less_antisym: "text_less a b \<Longrightarrow> \<not> text_less b a"
  using text_less_trans text_less_irrefl by blast

lemma text_less_le_trans: "\<not> text_less b a \<Longrightarrow> text_less b c \<Longrightarrow> text_less a c \<or> a = b \<and> text_less a c"
  using text_less_linear [of a b] text_less_trans by blast

lemma placed_on_Cons: "placed_on s d (x # placed) = placed_on s d placed + (if fst x = s \<and> date_text (snd x) = d then 1 else 0)"
  by (simp add: placed_on_def)

definition symbol_inv :: "overtrading_config \<Rightarrow> string \<Rightarrow> string \<Rightarrow> symbol_state \<Rightarrow> (string \<times> datetime) list \<Rightarrow> bool" where
  "symbol_inv cfg day name st placed \<longleftrightarrow>
     sy_last_order_at st = (case filter (\<lambda>x. fst x = name) placed of [] \<Rightarrow> None | x # xs \<Rightarrow> Some (snd x))
     \<and> placed_on name (sy_last_count_reset_date st) placed = sy_daily_trade_count st
     \<and> (\<forall>x \<in> set placed. fst x = name \<longrightarrow> \<not> text_less (sy_last_count_reset_date st) (date_text (snd x)))
     \<and> \<not> text_less day (sy_last_count_reset_date st)
     \<and> (0 < oc_daily_trade_limit cfg \<longrightarrow> (\<forall>d. placed_on name d placed \<le> oc_daily_trade_limit cfg))"

definition guard_inv :: "overtrading_config \<Rightarrow> string \<Rightarrow> overtrading_guard \<times> (string \<times> datetime) list \<Rightarrow> bool" where
  "guard_inv cfg day gl \<longleftrightarrow> (\<forall>name. symbol_inv cfg day name (symbol_of name (fst gl)) (snd gl)) \<and> spaced cfg (snd gl)"

lemma symbol_inv_later:
  assumes "symbol_inv cfg day name st placed" and "\<not> text_less day' day"
  shows "symbol_inv cfg day' name st placed"
proof -
  have "\<not> text_less day' (sy_last_count_reset_date st)"
    using assms text_less_linear [of day day'] by (auto simp: symbol_inv_def dest: text_less_trans)
  with assms(1) show ?thesis by (simp add: symbol_inv_def)
qed

lemma symbol_inv_reset:
  assumes "symbol_inv cfg (date_text now) name st placed"
  shows "symbol_inv cfg (date_text now) name (reset_daily_count_if_needed now st) placed
     \<and> sy_last_count_reset_date (reset_daily_count_if_needed now st) = date_text now"
proof (cases "sy_last_count_reset_date st = date_text now")
  case True
  with assms show ?thesis by (simp add: reset_daily_count_if_needed_def)
next
  case False
  then have less: "text_less (sy_last_count_reset_date st) (date_text now)"
    using assms text_less_linear [of "sy_last_count_reset_date st" "date_text now"] by (auto simp: symbol_inv_def)
  have before: "text_less (date_text (snd x)) (date_text now)" if "x \<in> set placed" "fst x = name" for x
    using that assms less text_less_linear [of "sy_last_count_reset_date st" "date_text (snd x)"]
    by (auto simp: symbol_inv_def dest: text_less_trans)
  have "date_text (snd x) \<noteq> date_text now" if "x \<in> set placed" "fst x = name" for x using before [OF that] by auto
  then have "placed_on name (date_text now) placed = 0" by (auto simp: placed_on_def filter_empty_conv)
  moreover have "\<not> text_less (date_text now) (date_text (snd x))" if "x \<in> set placed" "fst x = name" for x
    using before [OF that] by (rule text_less_antisym)
  ultimately show ?thesis using assms False by (simp add: symbol_inv_def reset_daily_count_if_needed_def)
qed

lemma symbol_inv_other: "fst x \<noteq> name \<Longrightarrow> symbol_inv cfg day name st (x # placed) = symbol_inv cfg day name st placed"
  by (simp add: symbol_inv_def placed_on_Cons)

lemma symbol_inv_place:
  assumes "symbol_inv cfg (date_text now) name st placed" and "sy_last_count_reset_date st = date_text now"
    and "\<not> (0 < oc_daily_trade_limit cfg \<and> oc_daily_trade_limit cfg \<le> sy_daily_trade_count st)"
  shows "symbol_inv cfg (date_text now) name (st\<lparr>sy_last_order_at := Some now, sy_daily_trade_count := sy_daily_trade_count st + 1\<rparr>) ((name, now) # placed)"
proof -
  have count: "placed_on name (date_text now) placed = sy_daily_trade_count st" using assms(1,2) by (simp add: symbol_inv_def)
  then have "placed_on name d ((name, now) # placed) \<le> oc_daily_trade_limit cfg" if "0 < oc_daily_trade_limit cfg" for d
    using assms(1,3) that by (auto simp: symbol_inv_def placed_on_Cons)
  with assms count show ?thesis by (simp add: symbol_inv_def placed_on_Cons)
qed

lemma spaced_place:
  assumes "spaced cfg placed" and "\<not> cooling cfg now st" and "sy_last_order_at st = (case filter (\<lambda>x. fst x = name) placed of [] \<Rightarrow> None | x # xs \<Rightarrow> Some (snd x))"
  shows "spaced cfg ((name, now) # placed)"
proof -
  have "\<not> f_less (total_seconds (instant now - instant (snd y))) (Fin (of_int (oc_cooldown_seconds cfg)))"
    if "filter (\<lambda>x. fst x = name) placed = y # ys" for y ys
    using assms(2,3) that by (simp add: cooling_def)
  then show ?thesis using assms(1)
    by (cases "filter (\<lambda>x. fst x = name) placed") (auto simp: spaced_def successively_Cons split: list.splits)
qed

lemma guard_step_inv:
  assumes "guard_inv cfg day gl" and "\<not> text_less (event_date ev) day"
  shows "guard_inv cfg (event_date ev) (guard_step cfg gl ev)"
proof -
  obtain g placed where gl: "gl = (g, placed)" by (cases gl)
  have inv: "symbol_inv cfg (event_date ev) n (symbol_of n g) placed" "spaced cfg placed" for n
    using assms by (auto simp: guard_inv_def gl intro: symbol_inv_later)
  show ?thesis
  proof (cases ev)
    case (Outcome pnl now)
    with inv gl show ?thesis by (simp add: guard_inv_def guard_step_def)
  next
    case (Attempt name now)
    let ?st = "reset_daily_count_if_needed now (symbol_of name g)"
    have st: "symbol_inv cfg (date_text now) name ?st placed" "sy_last_count_reset_date ?st = date_text now"
      using symbol_inv_reset [of cfg now name "symbol_of name g" placed] inv(1) [of name] Attempt by simp_all
    consider "paused_at now g" | "\<not> paused_at now g" "\<not> fst (trade_verdict cfg name now ?st)" | "\<not> paused_at now g" "fst (trade_verdict cfg name now ?st)"
      by blast
    then show ?thesis
    proof cases
      case 1
      with inv gl Attempt show ?thesis by (simp add: guard_inv_def guard_step_def can_trade_def)
    next
      case 2
      then have "guard_step cfg gl ev = (put_symbol name ?st g, placed)"
        using gl Attempt by (auto simp: guard_step_def can_trade_def Let_def split: prod.splits)
      with inv st Attempt show ?thesis by (simp add: guard_inv_def)
    next
      case 3
      have step: "guard_step cfg gl ev = (record_order name now (put_symbol name ?st g), (name, now) # placed)"
        using 3 gl Attempt by (auto simp: guard_step_def can_trade_def Let_def split: prod.splits)
      have again: "reset_daily_count_if_needed now ?st = ?st" by (simp add: reset_daily_count_if_needed_def)
      have ok: "\<not> cooling cfg now ?st" "\<not> (0 < oc_daily_trade_limit cfg \<and> oc_daily_trade_limit cfg \<le> sy_daily_trade_count ?st)"
        using 3(2) by (auto simp: trade_verdict_def split: if_splits)
      have "symbol_inv cfg (date_text now) n (symbol_of n (record_order name now (put_symbol name ?st g))) ((name, now) # placed)" for n
        using symbol_inv_place [OF st ok(2)] inv(1) [of n] Attempt
        by (cases "n = name") (simp_all add: record_order_def Let_def again symbol_inv_other)
      moreover have "spaced cfg ((name, now) # placed)"
        by (rule spaced_place [OF inv(2) ok(1)]) (use st(1) in \<open>simp add: symbol_inv_def\<close>)
      ultimately have "guard_inv cfg (date_text now) (guard_step cfg gl ev)" unfolding guard_inv_def step by simp
      then show ?thesis by (simp add: Attempt)
    qed
  qed
qed

lemma guard_inv_run:
  assumes "guard_inv cfg day gl" and "sorted_wrt (\<lambda>a b. \<not> text_less (event_date b) (event_date a)) evs"
    and "\<And>ev. ev \<in> set evs \<Longrightarrow> \<not> text_less (event_date ev) day"
  shows "\<exists>day'. guard_inv cfg day' (foldl (guard_step cfg) gl evs)"
  using assms
proof (induction evs arbitrary: day gl)
  case (Cons ev evs)
  have "guard_inv cfg (event_date ev) (guard_step cfg gl ev)" using Cons.prems by (intro guard_step_inv) auto
  from Cons.IH [OF this] Cons.prems show ?case by simp
qed auto

text \<open>
  No overtrading: however often a caller asks, on a clock whose date does not go back, the orders
  that the guard lets through for a symbol number at most the daily limit on each day, and each
  comes at least the cooldown after the one before, with losses and pauses in between. (Calls of
  \<open>reset_daily\<close> inside a day restart its count and are not part of these runs.)
\<close>

theorem overtrading_is_bounded:
  assumes "sorted_wrt (\<lambda>a b. \<not> text_less (event_date b) (event_date a)) evs"
  shows "let placed = snd (foldl (guard_step cfg) (new_guard, []) evs)
     in spaced cfg placed \<and> (0 < oc_daily_trade_limit cfg \<longrightarrow> placed_on name day placed \<le> oc_daily_trade_limit cfg)"
proof -
  have "guard_inv cfg [] (new_guard, [])"
    by (simp add: guard_inv_def symbol_inv_def spaced_def symbol_of_def new_guard_def fresh_symbol_def placed_on_def)
  then obtain d where "guard_inv cfg d (foldl (guard_step cfg) (new_guard, []) evs)"
    using guard_inv_run [OF _ assms] by fastforce
  then show ?thesis by (simp add: guard_inv_def symbol_inv_def)
qed

definition demo_at :: "int \<Rightarrow> datetime" where
  "demo_at m = \<lparr>dt_year = 2026, dt_month = 1, dt_day = 5, dt_hour = 10, dt_minute = m, dt_second = 0, dt_micro = 0\<rparr>"

theorem overtrading_is_bounded_witness:
  "let placed = snd (foldl (guard_step (default_overtrading\<lparr>oc_daily_trade_limit := 1\<rparr>)) (new_guard, [])
      [Attempt ''NIFTY'' (demo_at 0), Outcome (Fin (- 1)) (demo_at 1), Attempt ''NIFTY'' (demo_at 5)])
   in placed_on ''NIFTY'' ''2026-01-05'' placed = 1"
proof -
  let ?cfg = "default_overtrading\<lparr>oc_daily_trade_limit := 1\<rparr>"
  let ?evs = "[Attempt ''NIFTY'' (demo_at 0), Outcome (Fin (- 1)) (demo_at 1), Attempt ''NIFTY'' (demo_at 5)]"
  have "sorted_wrt (\<lambda>a b. \<not> text_less (event_date b) (event_date a)) ?evs" by code_simp
  from overtrading_is_bounded [OF this, of ?cfg "''NIFTY''" "''2026-01-05''"]
  have "placed_on ''NIFTY'' ''2026-01-05'' (snd (foldl (guard_step ?cfg) (new_guard, []) ?evs)) \<le> 1"
    by (simp add: Let_def)
  moreover have "placed_on ''NIFTY'' ''2026-01-05'' (snd (foldl (guard_step ?cfg) (new_guard, []) ?evs)) \<noteq> 0" by code_simp
  moreover have "0 \<le> placed_on n d xs" for n d xs by (simp add: placed_on_def)
  ultimately show ?thesis unfolding Let_def by (metis int_one_le_iff_zero_less order_antisym order_less_le)
qed

end
