(* ===== verification/Emergency_Results.thy ===== *)
theory Emergency_Results
  imports Py_Prelude
begin

text \<open>
  The values the emergency code of \<open>safety.py\<close> passes around: write policies, broker targets, the
  outcome of one verb on one account, and the aggregate result of a dispatch with the checks of
  its constructor.
\<close>

subsection \<open>Policies and targets\<close>

definition POLICY_VERBS :: "string list" where
  "POLICY_VERBS = [''cancel_all_orders'', ''exit_all_positions'']"

record write_policy =
  wp_name :: string
  wp_verbs :: "string list"

definition policy_valid :: "write_policy \<Rightarrow> bool" where
  "policy_valid p \<longleftrightarrow> py_strip (wp_name p) \<noteq> [] \<and> wp_verbs p \<noteq> [] \<and> distinct (wp_verbs p) \<and> set (wp_verbs p) \<subseteq> set POLICY_VERBS"

definition L5_EMERGENCY_POLICY :: write_policy where
  "L5_EMERGENCY_POLICY = \<lparr>wp_name = ''l5_emergency_flatten'', wp_verbs = [''cancel_all_orders'', ''exit_all_positions'']\<rparr>"

definition MTM_EMERGENCY_POLICY :: write_policy where
  "MTM_EMERGENCY_POLICY = \<lparr>wp_name = ''mtm_loss_flatten'', wp_verbs = [''cancel_all_orders'', ''exit_all_positions'']\<rparr>"

datatype scope_error = SafetyBypass string

definition emergency_selector_scope :: "string option \<Rightarrow> string option \<Rightarrow> scope_error + string" where
  "emergency_selector_scope adapter account =
     (case (adapter, account) of
        (None, None) \<Rightarrow> Inr []
      | (Some ad, Some ac) \<Rightarrow>
          if py_strip ad = [] \<or> py_strip ad \<noteq> ad then Inl (SafetyBypass ''emergency selector adapter_id is missing or non-canonical'')
          else if py_strip ac = [] \<or> py_strip ac \<noteq> ac then Inl (SafetyBypass ''emergency selector account_id is missing or non-canonical'')
          else Inr (py_strip ad @ '':'' @ py_strip ac)
      | _ \<Rightarrow> Inl (SafetyBypass ''emergency selector requires both adapter_id and account_id''))"

record broker_target =
  bt_selector :: string
  bt_mode :: string
  bt_jti :: string
  bt_actor_id :: string
  bt_adapter_id :: string
  bt_account_id :: string

definition target_valid :: "broker_target \<Rightarrow> bool" where
  "target_valid t \<longleftrightarrow>
     py_strip (bt_adapter_id t) \<noteq> [] \<and> py_strip (bt_adapter_id t) = bt_adapter_id t
     \<and> py_strip (bt_account_id t) \<noteq> [] \<and> py_strip (bt_account_id t) = bt_account_id t
     \<and> bt_mode t = ''live'' \<and> bt_jti t \<noteq> [] \<and> bt_actor_id t \<noteq> []
     \<and> bt_selector t = bt_adapter_id t @ '':'' @ bt_account_id t"

subsection \<open>Outcomes and results\<close>

record verb_outcome =
  vo_verb :: string
  vo_succeeded :: bool
  vo_attempted :: bool
  vo_failure_code :: string
  vo_selector :: string

definition outcome_valid :: "verb_outcome \<Rightarrow> bool" where
  "outcome_valid x \<longleftrightarrow> vo_verb x \<in> set POLICY_VERBS
     \<and> \<not> (vo_succeeded x \<and> (\<not> vo_attempted x \<or> vo_failure_code x \<noteq> []))
     \<and> \<not> (\<not> vo_succeeded x \<and> vo_failure_code x = [])
     \<and> \<not> (vo_selector x \<noteq> [] \<and> CHR '':'' \<notin> set (vo_selector x))"

record dispatch_result =
  dr_policy :: write_policy
  dr_outcomes :: "verb_outcome list"

text \<open>The verbs of each selector, in order: a dictionary of lists filled by \<open>setdefault\<close>.\<close>

fun grouped_verbs :: "verb_outcome list \<Rightarrow> (string \<times> string list) list \<Rightarrow> (string \<times> string list) list" where
  "grouped_verbs [] g = g"
| "grouped_verbs (x # xs) g =
     grouped_verbs xs (AList.update (vo_selector x) ((case map_of g (vo_selector x) of None \<Rightarrow> [] | Some vs \<Rightarrow> vs) @ [vo_verb x]) g)"

definition result_valid :: "dispatch_result \<Rightarrow> bool" where
  "result_valid r \<longleftrightarrow> dr_outcomes r \<noteq> [] \<and> list_all (\<lambda>g. snd g = wp_verbs (dr_policy r)) (grouped_verbs (dr_outcomes r) [])"

definition make_result :: "write_policy \<Rightarrow> verb_outcome list \<Rightarrow> dispatch_result option" where
  "make_result p xs = (let r = \<lparr>dr_policy = p, dr_outcomes = xs\<rparr> in if result_valid r then Some r else None)"

definition failed_outcomes :: "write_policy \<Rightarrow> string \<Rightarrow> bool \<Rightarrow> string \<Rightarrow> verb_outcome list" where
  "failed_outcomes p code attempted sel =
     map (\<lambda>v. \<lparr>vo_verb = v, vo_succeeded = False, vo_attempted = attempted, vo_failure_code = code, vo_selector = sel\<rparr>) (wp_verbs p)"

definition failed_result :: "write_policy \<Rightarrow> string \<Rightarrow> bool \<Rightarrow> string \<Rightarrow> dispatch_result" where
  "failed_result p code attempted sel = \<lparr>dr_policy = p, dr_outcomes = failed_outcomes p code attempted sel\<rparr>"

definition result_complete :: "dispatch_result \<Rightarrow> bool" where
  "result_complete r \<longleftrightarrow> dr_outcomes r \<noteq> [] \<and> list_all vo_succeeded (dr_outcomes r)"

definition failure_codes :: "dispatch_result \<Rightarrow> string list" where
  "failure_codes r = map vo_failure_code (filter (\<lambda>x. \<not> vo_succeeded x) (dr_outcomes r))"

definition selectors_of :: "dispatch_result \<Rightarrow> string list" where
  "selectors_of r = rev (remdups (rev (map vo_selector (dr_outcomes r))))"

definition target_count :: "dispatch_result \<Rightarrow> nat" where
  "target_count r = length (selectors_of r)"

definition completed_target_count :: "dispatch_result \<Rightarrow> nat" where
  "completed_target_count r =
     length (filter (\<lambda>s. list_all (\<lambda>x. vo_selector x = s \<longrightarrow> vo_succeeded x) (dr_outcomes r)) (selectors_of r))"

definition verb_succeeded :: "string \<Rightarrow> dispatch_result \<Rightarrow> bool" where
  "verb_succeeded v r =
     (let matching = filter (\<lambda>x. vo_verb x = v) (dr_outcomes r) in matching \<noteq> [] \<and> list_all vo_succeeded matching)"

subsection \<open>What the checks of the constructor say\<close>

lemma policies_valid: "policy_valid L5_EMERGENCY_POLICY" "policy_valid MTM_EMERGENCY_POLICY"
  by code_simp+

lemma grouped_verbs_lookup:
  "map_of (grouped_verbs xs g) s =
     (case map (vo_verb) (filter (\<lambda>x. vo_selector x = s) xs) of
        [] \<Rightarrow> map_of g s
      | v # vs \<Rightarrow> Some ((case map_of g s of None \<Rightarrow> [] | Some ws \<Rightarrow> ws) @ v # vs))"
  by (induction xs arbitrary: g) (auto split: list.splits option.splits)

lemma grouped_verbs_distinct: "distinct (map fst g) \<Longrightarrow> distinct (map fst (grouped_verbs xs g))"
  by (induction xs arbitrary: g) (simp_all add: distinct_update)

text \<open>A result is valid when every selector in it has exactly the verbs of the policy, in order.\<close>

lemma grouped_verbs_from_empty:
  "map_of (grouped_verbs xs []) s =
     (if s \<in> vo_selector ` set xs then Some (map vo_verb (filter (\<lambda>x. vo_selector x = s) xs)) else None)"
proof (cases "filter (\<lambda>x. vo_selector x = s) xs")
  case Nil
  then have "s \<notin> vo_selector ` set xs" by (auto simp: filter_empty_conv)
  with Nil show ?thesis by (simp add: grouped_verbs_lookup)
next
  case (Cons y ys)
  then have "y \<in> set xs \<and> vo_selector y = s" by (auto simp: filter_eq_Cons_iff)
  with Cons show ?thesis by (auto simp: grouped_verbs_lookup)
qed

lemma result_valid_iff:
  "result_valid r \<longleftrightarrow> dr_outcomes r \<noteq> []
     \<and> (\<forall>s \<in> vo_selector ` set (dr_outcomes r). map vo_verb (filter (\<lambda>x. vo_selector x = s) (dr_outcomes r)) = wp_verbs (dr_policy r))"
proof -
  let ?g = "grouped_verbs (dr_outcomes r) []"
  have "list_all (\<lambda>g. snd g = vs) ?g \<longleftrightarrow> (\<forall>s ws. map_of ?g s = Some ws \<longrightarrow> ws = vs)" for vs
    using grouped_verbs_distinct [of "[]" "dr_outcomes r"] by (auto simp: list_all_iff dest: map_of_SomeD)
  then show ?thesis by (auto simp: result_valid_def grouped_verbs_from_empty)
qed

end
