(* ===== verification/Kill_Switch.thy ===== *)
theory Kill_Switch
  imports Emergency_Results Journal_Spec
begin

text \<open>
  Layer 5, \<open>safety.KillSwitch\<close>: normal broker writes are admitted and counted, an activation latches
  the switch, drains the writes in flight, reserves accounts, sweeps them through the dispatcher
  and merges the outcomes; a reset lifts the latch when all work is over. The journal is any
  implementation of the protocol, given by its \<open>exec\<close> function. Everything under the condition
  variable is one step. What the dispatcher and the routing lease answer, and whether a deadline
  has passed, are arguments.
\<close>

subsection \<open>The switch\<close>

datatype kill_error =
  KillSwitchActive
| JournalUnavailable
| JournalRaised journal_error
| WorkInProgress
| ActionsIncomplete
| EpisodeMissing
| AuthorisationUnverified
| NotAuthorised
| AggregateInvalid

text \<open>Whether the dispatcher class has \<open>prepare_targets\<close> and \<open>dispatch_prepared\<close>.\<close>

datatype dispatcher_kind = Plain_dispatcher | Prepared_dispatcher

record 'j kill_switch =
  ks_active :: bool
  ks_reason :: string
  ks_dispatcher :: "dispatcher_kind option"
  ks_journal :: "'j option"
  ks_last :: "dispatch_result option"
  ks_outcomes :: "((string \<times> string) \<times> int \<times> verb_outcome) list"
  ks_sequence :: int
  ks_full_scope :: int
  ks_dispatches :: int
  ks_selectors :: "string set"
  ks_writes :: int

type_synonym ('env, 'j) journal_exec = "'env \<Rightarrow> journal_call \<Rightarrow> 'j \<Rightarrow> ('j, journal_error, journal_reply) outcome"

definition new_switch :: "dispatcher_kind option \<Rightarrow> 'j kill_switch" where
  "new_switch d = \<lparr>ks_active = False, ks_reason = [], ks_dispatcher = d, ks_journal = None, ks_last = None, ks_outcomes = [],
     ks_sequence = 0, ks_full_scope = 0, ks_dispatches = 0, ks_selectors = {}, ks_writes = 0\<rparr>"

definition last_emergency_result :: "'j kill_switch \<Rightarrow> dispatch_result option" where
  "last_emergency_result ks =
     (if ks_dispatches ks \<noteq> 0 then Some (failed_result L5_EMERGENCY_POLICY ''dispatch_in_progress'' False []) else ks_last ks)"

definition restored :: "'j kill_switch \<Rightarrow> 'j kill_switch" where
  "restored ks = ks\<lparr>ks_active := True, ks_reason := (if ks_reason ks = [] then ''restored durable emergency episode'' else ks_reason ks)\<rparr>"

fun reply_sources :: "journal_reply \<Rightarrow> string set" where
  "reply_sources (SourcesReply S) = S"
| "reply_sources _ = {}"

fun reply_episodes :: "journal_reply \<Rightarrow> episode list" where
  "reply_episodes (EpisodesReply es) = es"
| "reply_episodes _ = []"

fun reply_episode :: "journal_reply \<Rightarrow> episode option" where
  "reply_episode (EpisodeOption e) = e"
| "reply_episode _ = None"

definition bind_emergency_dispatcher :: "dispatcher_kind option \<Rightarrow> 'j kill_switch \<Rightarrow> 'j kill_switch" where
  "bind_emergency_dispatcher d ks = ks\<lparr>ks_dispatcher := d\<rparr>"

definition bind_emergency_journal :: "('env, 'j) journal_exec \<Rightarrow> 'env \<Rightarrow> 'j option \<Rightarrow> 'j kill_switch \<Rightarrow> ('j kill_switch, kill_error, unit) outcome" where
  "bind_emergency_journal jx env jo ks =
     (case jo of
        None \<Rightarrow> (ks\<lparr>ks_journal := None\<rparr>, Inr ())
      | Some j \<Rightarrow>
          (case jx env (ActiveEpisodes (Some ''l5'')) j of
             (j', Inl e) \<Rightarrow> (ks, Inl (JournalRaised e))
           | (j', Inr r) \<Rightarrow>
               (let ks = ks\<lparr>ks_journal := Some j'\<rparr> in (if reply_episodes r \<noteq> [] then restored ks else ks, Inr ()))))"

subsection \<open>Normal writes\<close>

definition count_write :: "'j kill_switch \<Rightarrow> ('j kill_switch, kill_error, unit) outcome" where
  "count_write ks = (if ks_active ks then (ks, Inl KillSwitchActive) else (ks\<lparr>ks_writes := ks_writes ks + 1\<rparr>, Inr ()))"

definition admit_write :: "('env, 'j) journal_exec \<Rightarrow> 'env \<Rightarrow> string \<Rightarrow> 'j kill_switch \<Rightarrow> ('j kill_switch, kill_error, unit) outcome" where
  "admit_write jx env sel ks =
     (case ks_journal ks of
        None \<Rightarrow> count_write ks
      | Some j \<Rightarrow>
          (case jx env (BlockingSources sel) j of
             (j', Inl e) \<Rightarrow> (ks\<lparr>ks_journal := Some j'\<rparr>, Inl JournalUnavailable)
           | (j', Inr r) \<Rightarrow>
               (let ks = ks\<lparr>ks_journal := Some j'\<rparr> in count_write (if ''l5'' \<in> reply_sources r then restored ks else ks))))"

definition leave_write :: "'j kill_switch \<Rightarrow> 'j kill_switch" where
  "leave_write ks = ks\<lparr>ks_writes := ks_writes ks - 1\<rparr>"

subsection \<open>Activation: the latch\<close>

record activation_request =
  rq_reason :: string
  rq_dispatcher :: "dispatcher_kind option"
  rq_replace_scope :: bool
  rq_prepared_targets :: "broker_target list option"

record activation =
  ac_sequence :: int
  ac_replace_scope :: bool
  ac_dispatcher :: "dispatcher_kind option"
  ac_prepared_targets :: "broker_target list option"
  ac_journal_ready :: bool

definition l5_request :: "string \<Rightarrow> episode_request" where
  "l5_request hash = \<lparr>er_source = ''l5'', er_selector = ''*'', er_session_key = ''manual'', er_reason_hash = hash\<rparr>"

text \<open>
  \<open>hash\<close> is the SHA-256 digest of the reason; \<open>ensured\<close> is whether the dispatcher has
  \<open>ensure_degraded_episode\<close> and it answers true.
\<close>

definition activate_latch :: "('env, 'j) journal_exec \<Rightarrow> 'env \<Rightarrow> string \<Rightarrow> bool \<Rightarrow> activation_request \<Rightarrow> 'j kill_switch \<Rightarrow> 'j kill_switch \<times> activation" where
  "activate_latch jx env hash ensured rq ks =
     (let n = ks_sequence ks + 1;
          ks = ks\<lparr>ks_active := True, ks_reason := rq_reason rq, ks_dispatches := ks_dispatches ks + 1, ks_sequence := n,
                  ks_full_scope := (if rq_replace_scope rq then n else ks_full_scope ks)\<rparr>;
          d = (case rq_dispatcher rq of Some d \<Rightarrow> Some d | None \<Rightarrow> ks_dispatcher ks);
          a = \<lparr>ac_sequence = n, ac_replace_scope = rq_replace_scope rq, ac_dispatcher = d, ac_prepared_targets = rq_prepared_targets rq,
               ac_journal_ready = True\<rparr>
      in case ks_journal ks of
           None \<Rightarrow> (ks, a)
         | Some j \<Rightarrow>
             (case jx env (Activate (l5_request hash)) j of
                (j', Inr r) \<Rightarrow> (ks\<lparr>ks_journal := Some j'\<rparr>, a)
              | (j', Inl e) \<Rightarrow> (ks\<lparr>ks_journal := Some j'\<rparr>, a\<lparr>ac_journal_ready := d \<noteq> None \<and> ensured\<rparr>)))"

subsection \<open>Activation: reserving and sweeping accounts\<close>

record coordination =
  co_prepared :: "broker_target list"
  co_pending :: "broker_target list"
  co_waited :: "string set"
  co_owned :: "string list"
  co_authoritative :: "string list"
  co_outcomes :: "(string \<times> verb_outcome list) list"

datatype phase =
  Draining
| Plain_dispatch
| Coordinating coordination
| Sweeping coordination "broker_target list"
| Merging dispatch_result "string list" "string list option"

text \<open>What entering the routing lease and \<open>prepare_targets\<close> come to.\<close>

datatype preparation = Lease_unavailable | Lease_raises | Prepare_raises | Not_targets | Targets "broker_target list"

abbreviation l5_failed :: "string \<Rightarrow> bool \<Rightarrow> phase" where
  "l5_failed code attempted \<equiv> Merging (failed_result L5_EMERGENCY_POLICY code attempted []) [] None"

definition coordinate :: "broker_target list \<Rightarrow> phase" where
  "coordinate ts =
     (if ts = [] then l5_failed ''target_unavailable'' False
      else if \<not> distinct (map bt_selector ts) then l5_failed ''target_unavailable'' False
      else Coordinating \<lparr>co_prepared = ts, co_pending = ts, co_waited = {}, co_owned = [], co_authoritative = [], co_outcomes = []\<rparr>)"

definition begin_dispatch :: "activation \<Rightarrow> bool \<Rightarrow> preparation \<Rightarrow> phase" where
  "begin_dispatch a drained prep =
     (if \<not> ac_journal_ready a then l5_failed ''intent_journal_unavailable'' False
      else if \<not> drained then l5_failed ''normal_write_drain_timeout'' False
      else case ac_dispatcher a of
             None \<Rightarrow> l5_failed ''dispatcher_unavailable'' False
           | Some Plain_dispatcher \<Rightarrow>
               (case ac_prepared_targets a of
                  Some ts \<Rightarrow> l5_failed ''dispatch_failed'' True
                | None \<Rightarrow>
                    (case prep of
                       Lease_unavailable \<Rightarrow> l5_failed ''generation_lease_unavailable'' False
                     | Lease_raises \<Rightarrow> l5_failed ''dispatch_failed'' True
                     | _ \<Rightarrow> Plain_dispatch))
           | Some Prepared_dispatcher \<Rightarrow>
               (case ac_prepared_targets a of
                  Some ts \<Rightarrow> coordinate ts
                | None \<Rightarrow>
                    (case prep of
                       Lease_unavailable \<Rightarrow> l5_failed ''generation_lease_unavailable'' False
                     | Lease_raises \<Rightarrow> l5_failed ''dispatch_failed'' True
                     | Prepare_raises \<Rightarrow> l5_failed ''target_unavailable'' False
                     | Not_targets \<Rightarrow> l5_failed ''target_unavailable'' False
                     | Targets ts \<Rightarrow> coordinate ts)))"

text \<open>The answer of \<open>dispatch\<close> and of \<open>dispatch_prepared\<close>; anything that is no result counts as raised.\<close>

datatype dispatch_answer = Answer_lease_unavailable | Answer_raises | Answer_result dispatch_result

definition finish_plain :: "dispatch_answer \<Rightarrow> phase" where
  "finish_plain ans =
     (case ans of
        Answer_lease_unavailable \<Rightarrow> l5_failed ''generation_lease_unavailable'' False
      | Answer_raises \<Rightarrow> l5_failed ''dispatch_failed'' True
      | Answer_result r \<Rightarrow> if dr_policy r = L5_EMERGENCY_POLICY then Merging r [] None else l5_failed ''dispatch_failed'' True)"

definition selector_complete :: "'j kill_switch \<Rightarrow> string \<Rightarrow> bool" where
  "selector_complete ks s =
     list_all (\<lambda>v. case map_of (ks_outcomes ks) (s, v) of None \<Rightarrow> False | Some (n, x) \<Rightarrow> vo_succeeded x) (wp_verbs L5_EMERGENCY_POLICY)"

definition stored_outcomes :: "'j kill_switch \<Rightarrow> string \<Rightarrow> verb_outcome list" where
  "stored_outcomes ks s = map (\<lambda>v. snd (the (map_of (ks_outcomes ks) (s, v)))) (wp_verbs L5_EMERGENCY_POLICY)"

text \<open>One pass over the pending targets: who still waits, who has been served by another activation, who is free.\<close>

fun sort_pending :: "'j kill_switch \<Rightarrow> broker_target list \<Rightarrow> coordination \<Rightarrow> coordination \<times> broker_target list \<times> broker_target list" where
  "sort_pending ks [] c = (c, [], [])"
| "sort_pending ks (t # ts) c =
     (let s = bt_selector t
      in if s \<in> ks_selectors ks then
           (case sort_pending ks ts (c\<lparr>co_waited := insert s (co_waited c)\<rparr>) of (c', still, free) \<Rightarrow> (c', t # still, free))
         else if s \<in> co_waited c \<and> selector_complete ks s then
           sort_pending ks ts (c\<lparr>co_outcomes := AList.update s (stored_outcomes ks s) (co_outcomes c)\<rparr>)
         else (case sort_pending ks ts c of (c', still, free) \<Rightarrow> (c', still, t # free)))"

definition failed_for_targets :: "broker_target list \<Rightarrow> string \<Rightarrow> bool \<Rightarrow> verb_outcome list" where
  "failed_for_targets ts code attempted =
     concat (map (\<lambda>t. failed_outcomes L5_EMERGENCY_POLICY code attempted (bt_selector t)) ts)"

definition of_selector_in :: "string \<Rightarrow> verb_outcome list \<Rightarrow> verb_outcome list" where
  "of_selector_in s xs = filter (\<lambda>x. vo_selector x = s) xs"

definition time_out :: "broker_target list \<Rightarrow> coordination \<Rightarrow> coordination" where
  "time_out ts c =
     c\<lparr>co_pending := [],
       co_outcomes := fold (\<lambda>t. AList.update (bt_selector t)
         (of_selector_in (bt_selector t) (failed_for_targets ts ''dispatch_in_progress_timeout'' False))) ts (co_outcomes c)\<rparr>"

definition reserve_round :: "bool \<Rightarrow> 'j kill_switch \<Rightarrow> coordination \<Rightarrow> 'j kill_switch \<times> phase" where
  "reserve_round late ks c =
     (case sort_pending ks (co_pending c) c of
        (c', still, free) \<Rightarrow>
          if free \<noteq> [] then
            (ks\<lparr>ks_selectors := ks_selectors ks \<union> set (map bt_selector free)\<rparr>,
             Sweeping (c'\<lparr>co_pending := still, co_owned := co_owned c' @ map bt_selector free,
                         co_authoritative := co_authoritative c' @ map bt_selector free\<rparr>) free)
          else if still \<noteq> [] then (ks, Coordinating (if late then time_out still c' else c'\<lparr>co_pending := still\<rparr>))
          else (ks, Coordinating (c'\<lparr>co_pending := []\<rparr>)))"

definition batch_outcomes :: "dispatch_answer \<Rightarrow> broker_target list \<Rightarrow> verb_outcome list" where
  "batch_outcomes ans ts =
     (case ans of
        Answer_result r \<Rightarrow> if dr_policy r = L5_EMERGENCY_POLICY then dr_outcomes r else failed_for_targets ts ''dispatch_failed'' True
      | _ \<Rightarrow> failed_for_targets ts ''dispatch_failed'' True)"

definition checked_outcomes :: "verb_outcome list \<Rightarrow> broker_target \<Rightarrow> verb_outcome list" where
  "checked_outcomes xs t =
     (let own = of_selector_in (bt_selector t) xs
      in if map vo_verb own \<noteq> wp_verbs L5_EMERGENCY_POLICY then failed_for_targets [t] ''invalid_dispatch_result'' True else own)"

definition take_answer :: "dispatch_answer \<Rightarrow> broker_target list \<Rightarrow> coordination \<Rightarrow> coordination" where
  "take_answer ans ts c =
     c\<lparr>co_outcomes := fold (\<lambda>t. AList.update (bt_selector t) (checked_outcomes (batch_outcomes ans ts) t)) ts (co_outcomes c)\<rparr>"

definition assemble :: "coordination \<Rightarrow> dispatch_result option" where
  "assemble c =
     (case those (map (\<lambda>t. map_of (co_outcomes c) (bt_selector t)) (co_prepared c)) of
        None \<Rightarrow> None
      | Some xss \<Rightarrow> make_result L5_EMERGENCY_POLICY (concat xss))"

text \<open>The exception handler of \<open>activate\<close>: the reserved accounts, or the whole scope, have failed.\<close>

definition dispatch_failed :: "string list \<Rightarrow> phase" where
  "dispatch_failed owned =
     (if owned \<noteq> []
      then Merging \<lparr>dr_policy = L5_EMERGENCY_POLICY,
             dr_outcomes = concat (map (failed_outcomes L5_EMERGENCY_POLICY ''dispatch_failed'' True) (sorted_set owned))\<rparr> owned (Some owned)
      else l5_failed ''dispatch_failed'' True)"

text \<open>Leaving the lease can still fail; a given target list is swept without a lease.\<close>

datatype lease_exit = Lease_left | Lease_exit_unavailable | Lease_exit_raises

definition finish_coordination :: "lease_exit \<Rightarrow> coordination \<Rightarrow> phase" where
  "finish_coordination ex c =
     (case ex of
        Lease_exit_unavailable \<Rightarrow> Merging (failed_result L5_EMERGENCY_POLICY ''generation_lease_unavailable'' False []) (co_owned c) None
      | Lease_exit_raises \<Rightarrow> dispatch_failed (co_owned c)
      | Lease_left \<Rightarrow>
          (case assemble c of
             Some r \<Rightarrow> Merging r (co_owned c) (Some (co_authoritative c))
           | None \<Rightarrow> dispatch_failed (co_owned c)))"

subsection \<open>Activation: merging the outcomes\<close>

definition put_outcome :: "int \<Rightarrow> int \<Rightarrow> string list option \<Rightarrow> verb_outcome \<Rightarrow> ((string \<times> string) \<times> int \<times> verb_outcome) list
    \<Rightarrow> ((string \<times> string) \<times> int \<times> verb_outcome) list" where
  "put_outcome n full auth x m =
     (if (case auth of None \<Rightarrow> False | Some S \<Rightarrow> vo_selector x \<notin> set S) then m
      else if vo_selector x = [] \<and> n < full then m
      else (case map_of m (vo_selector x, vo_verb x) of
              None \<Rightarrow> AList.update (vo_selector x, vo_verb x) (n, x) m
            | Some (k, y) \<Rightarrow> if k \<le> n then AList.update (vo_selector x, vo_verb x) (n, x) m else m))"

definition merge_outcomes :: "activation \<Rightarrow> dispatch_result \<Rightarrow> string list option \<Rightarrow> 'j kill_switch \<Rightarrow> 'j kill_switch" where
  "merge_outcomes a r auth ks =
     (let target_bound = list_ex (\<lambda>x. vo_selector x \<noteq> []) (dr_outcomes r);
          m = (if ac_replace_scope a \<and> target_bound
               then filter (\<lambda>(k, n, x). \<not> (fst k = [] \<and> n \<le> ac_sequence a)) (ks_outcomes ks) else ks_outcomes ks)
      in ks\<lparr>ks_outcomes := fold (put_outcome (ac_sequence a) (ks_full_scope ks) auth) (dr_outcomes r) m\<rparr>)"

fun grouped_outcomes :: "verb_outcome list \<Rightarrow> (string \<times> (string \<times> verb_outcome) list) list \<Rightarrow> (string \<times> (string \<times> verb_outcome) list) list" where
  "grouped_outcomes [] g = g"
| "grouped_outcomes (x # xs) g =
     grouped_outcomes xs (AList.update (vo_selector x)
       (AList.update (vo_verb x) x (case map_of g (vo_selector x) of None \<Rightarrow> [] | Some m \<Rightarrow> m)) g)"

definition aggregate :: "'j kill_switch \<Rightarrow> kill_error + dispatch_result option" where
  "aggregate ks =
     (let g = grouped_outcomes (map (\<lambda>(k, n, x). x) (ks_outcomes ks)) []
      in if g = [] then Inr None
         else (case those (concat (map (\<lambda>(s, m). map (map_of m) (wp_verbs L5_EMERGENCY_POLICY)) g)) of
                 None \<Rightarrow> Inl AggregateInvalid
               | Some xs \<Rightarrow> (case make_result L5_EMERGENCY_POLICY xs of None \<Rightarrow> Inl AggregateInvalid | Some r \<Rightarrow> Inr (Some r))))"

definition merge_result :: "activation \<Rightarrow> dispatch_result \<Rightarrow> string list \<Rightarrow> string list option \<Rightarrow> 'j kill_switch
    \<Rightarrow> ('j kill_switch, kill_error, dispatch_result) outcome" where
  "merge_result a r owned auth ks =
     (let ks = merge_outcomes a r auth ks
      in case aggregate ks of
           Inl e \<Rightarrow> (ks, Inl e)
         | Inr agg \<Rightarrow>
             (let result = (case agg of None \<Rightarrow> r | Some x \<Rightarrow> x)
              in (ks\<lparr>ks_last := Some result, ks_selectors := ks_selectors ks - set owned, ks_dispatches := ks_dispatches ks - 1\<rparr>, Inr result)))"

subsection \<open>Reset\<close>

text \<open>\<open>wait_for_idle\<close> once its deadline has passed, and the authorisation callback: \<open>None\<close> when it raises.\<close>

definition wait_for_idle :: "'j kill_switch \<Rightarrow> kill_error + unit" where
  "wait_for_idle ks = require (ks_dispatches ks = 0 \<and> ks_writes ks = 0) WorkInProgress"

definition affected_selectors :: "episode option \<Rightarrow> 'j kill_switch \<Rightarrow> string set" where
  "affected_selectors e ks =
     {s \<in> fst ` fst ` set (ks_outcomes ks). s \<noteq> []} \<union> (case e of None \<Rightarrow> {} | Some e \<Rightarrow> set (ep_targets e))"

definition authorise_reset :: "(string set \<Rightarrow> bool option) option \<Rightarrow> string set \<Rightarrow> kill_error + unit" where
  "authorise_reset authorise S =
     (case authorise of
        None \<Rightarrow> Inr ()
      | Some f \<Rightarrow> (case f S of None \<Rightarrow> Inl AuthorisationUnverified | Some ok \<Rightarrow> require ok NotAuthorised))"

definition lift_latch :: "'j kill_switch \<Rightarrow> 'j kill_switch" where
  "lift_latch ks = ks\<lparr>ks_active := False, ks_reason := [], ks_outcomes := []\<rparr>"

definition find_l5_episode :: "('env, 'j) journal_exec \<Rightarrow> 'env \<Rightarrow> 'j kill_switch \<Rightarrow> ('j kill_switch, kill_error, episode option) outcome" where
  "find_l5_episode jx env ks =
     (case ks_journal ks of
        None \<Rightarrow> (ks, Inr None)
      | Some j \<Rightarrow>
          (case jx env (ActiveEpisode ''l5'' ''*'') j of
             (j', Inl e) \<Rightarrow> (ks\<lparr>ks_journal := Some j'\<rparr>, Inl JournalUnavailable)
           | (j', Inr r) \<Rightarrow>
               (ks\<lparr>ks_journal := Some j'\<rparr>, if ks_active ks \<and> reply_episode r = None then Inl EpisodeMissing else Inr (reply_episode r))))"

definition deactivate_l5 :: "('env, 'j) journal_exec \<Rightarrow> 'env \<Rightarrow> episode option \<Rightarrow> 'j kill_switch \<Rightarrow> ('j kill_switch, kill_error, unit) outcome" where
  "deactivate_l5 jx env eo ks =
     (case (ks_journal ks, eo) of
        (Some j, Some e) \<Rightarrow>
          (case jx env (Deactivate [e]) j of
             (j', Inl (EmergencyIntentConflict why)) \<Rightarrow> (ks\<lparr>ks_journal := Some j'\<rparr>, Inl (JournalRaised (EmergencyIntentConflict why)))
           | (j', Inl err) \<Rightarrow> (ks\<lparr>ks_journal := Some j'\<rparr>, Inl JournalUnavailable)
           | (j', Inr r) \<Rightarrow> (ks\<lparr>ks_journal := Some j'\<rparr>, Inr ()))
      | _ \<Rightarrow> (ks, Inr ()))"

definition reset_switch :: "('env, 'j) journal_exec \<Rightarrow> 'env \<times> 'env \<Rightarrow> bool \<Rightarrow> (string set \<Rightarrow> bool option) option \<Rightarrow> 'j kill_switch
    \<Rightarrow> ('j kill_switch, kill_error, unit) outcome" where
  "reset_switch jx envs require_complete authorise ks =
     bind_out (ks, wait_for_idle ks) (\<lambda>ks _.
       if require_complete \<and> ks_active ks \<and> (case ks_last ks of None \<Rightarrow> True | Some r \<Rightarrow> \<not> result_complete r)
       then (ks, Inl ActionsIncomplete)
       else bind_out (find_l5_episode jx (fst envs) ks) (\<lambda>ks e.
            bind_out (ks, authorise_reset authorise (affected_selectors e ks)) (\<lambda>ks _.
            bind_out (deactivate_l5 jx (snd envs) e ks) (\<lambda>ks _. (lift_latch ks, Inr ())))))"

subsection \<open>The merged outcomes are always complete per account\<close>

abbreviation l5_verbs :: "string list" where
  "l5_verbs \<equiv> wp_verbs L5_EMERGENCY_POLICY"

lemma l5_verbs_eq: "l5_verbs = [''cancel_all_orders'', ''exit_all_positions'']"
  by (simp add: L5_EMERGENCY_POLICY_def)

definition l5_result :: "dispatch_result \<Rightarrow> bool" where
  "l5_result r \<longleftrightarrow> result_valid r \<and> dr_policy r = L5_EMERGENCY_POLICY"

text \<open>
  The merged outcomes: one entry per account and verb, each under its own account and verb; an
  account has either no entry or one for every verb of the policy, all of the same activation.
\<close>

definition keyed_right :: "string list \<Rightarrow> ((string \<times> string) \<times> int \<times> verb_outcome) list \<Rightarrow> bool" where
  "keyed_right V m \<longleftrightarrow> distinct (map fst m) \<and> (\<forall>k n x. map_of m k = Some (n, x) \<longrightarrow> k = (vo_selector x, vo_verb x) \<and> snd k \<in> set V)"

definition paired :: "((string \<times> string) \<times> int \<times> verb_outcome) list \<Rightarrow> bool" where
  "paired m \<longleftrightarrow> keyed_right l5_verbs m
     \<and> (\<forall>s v w. v \<in> set l5_verbs \<longrightarrow> w \<in> set l5_verbs \<longrightarrow> map_option fst (map_of m (s, v)) = map_option fst (map_of m (s, w)))"

definition accepts :: "int \<Rightarrow> string list option \<Rightarrow> int \<Rightarrow> string \<Rightarrow> bool" where
  "accepts full auth n s \<longleftrightarrow> \<not> (case auth of None \<Rightarrow> False | Some S \<Rightarrow> s \<notin> set S) \<and> \<not> (s = [] \<and> n < full)"

definition later :: "int \<Rightarrow> int option \<Rightarrow> int" where
  "later n mo = (case mo of None \<Rightarrow> n | Some k \<Rightarrow> max k n)"

lemma put_outcome_lookup:
  "map_of (put_outcome n full auth x m) k =
     (if k = (vo_selector x, vo_verb x) \<and> accepts full auth n (vo_selector x) \<and> (case map_of m k of None \<Rightarrow> True | Some (i, y) \<Rightarrow> i \<le> n)
      then Some (n, x) else map_of m k)"
  by (auto simp: put_outcome_def accepts_def split: option.splits)

lemma put_outcome_sequence:
  "map_option fst (map_of (put_outcome n full auth x m) k) =
     (if k = (vo_selector x, vo_verb x) \<and> accepts full auth n (vo_selector x) then Some (later n (map_option fst (map_of m k)))
      else map_option fst (map_of m k))"
  by (auto simp: put_outcome_lookup later_def split: option.splits)

lemma merged_sequence:
  "map_option fst (map_of (fold (put_outcome n full auth) xs m) k) =
     (if k \<in> (\<lambda>x. (vo_selector x, vo_verb x)) ` set xs \<and> accepts full auth n (fst k) then Some (later n (map_option fst (map_of m k)))
      else map_option fst (map_of m k))"
proof (induction xs arbitrary: m)
  case (Cons x xs)
  have "later n (Some (later n mo)) = later n mo" for mo by (auto simp: later_def split: option.splits)
  with Cons show ?case by (auto simp: put_outcome_sequence)
qed simp

lemma keyed_right_put:
  assumes "keyed_right V m" and "vo_verb y \<in> set V"
  shows "keyed_right V (put_outcome n full auth y m)"
proof -
  have "distinct (map fst (put_outcome n full auth y m))"
    using assms(1) by (auto simp: keyed_right_def put_outcome_def distinct_update split: option.splits)
  moreover have "k = (vo_selector x, vo_verb x) \<and> snd k \<in> set V" if k: "map_of (put_outcome n full auth y m) k = Some (i, x)" for k i x
  proof (cases "map_of (put_outcome n full auth y m) k = map_of m k")
    case True
    with k assms(1) show ?thesis unfolding keyed_right_def by metis
  next
    case False
    then have "k = (vo_selector y, vo_verb y)" "map_of (put_outcome n full auth y m) k = Some (n, y)"
      unfolding put_outcome_lookup by (metis (no_types, lifting))+
    with k assms(2) show ?thesis by simp
  qed
  ultimately show ?thesis unfolding keyed_right_def by blast
qed

lemma keyed_right_merged: "keyed_right V m \<Longrightarrow> vo_verb ` set ys \<subseteq> set V \<Longrightarrow> keyed_right V (fold (put_outcome n full auth) ys m)"
  by (induction ys arbitrary: m) (simp_all add: keyed_right_put)

lemma l5_result_verbs:
  assumes "l5_result r"
  shows "vo_verb ` set (dr_outcomes r) \<subseteq> set l5_verbs"
    and "v \<in> set l5_verbs \<Longrightarrow> (s, v) \<in> (\<lambda>x. (vo_selector x, vo_verb x)) ` set (dr_outcomes r) \<longleftrightarrow> s \<in> vo_selector ` set (dr_outcomes r)"
proof -
  have verbs: "vo_verb ` {x \<in> set (dr_outcomes r). vo_selector x = s} = set l5_verbs" if "s \<in> vo_selector ` set (dr_outcomes r)" for s
  proof -
    have "map vo_verb (filter (\<lambda>x. vo_selector x = s) (dr_outcomes r)) = l5_verbs"
      using assms that unfolding l5_result_def result_valid_iff by auto
    then have "set (map vo_verb (filter (\<lambda>x. vo_selector x = s) (dr_outcomes r))) = set l5_verbs" by (rule arg_cong)
    then show ?thesis by simp
  qed
  then show "vo_verb ` set (dr_outcomes r) \<subseteq> set l5_verbs" by force
  assume v: "v \<in> set l5_verbs"
  show "(s, v) \<in> (\<lambda>x. (vo_selector x, vo_verb x)) ` set (dr_outcomes r) \<longleftrightarrow> s \<in> vo_selector ` set (dr_outcomes r)"
  proof
    assume "s \<in> vo_selector ` set (dr_outcomes r)"
    with v verbs have "v \<in> vo_verb ` {x \<in> set (dr_outcomes r). vo_selector x = s}" by simp
    then show "(s, v) \<in> (\<lambda>x. (vo_selector x, vo_verb x)) ` set (dr_outcomes r)" by auto
  qed auto
qed

lemma map_of_filter_keys:
  assumes "distinct (map fst m)"
  shows "map_of (filter (\<lambda>(k, v). P k v) m) k = (case map_of m k of None \<Rightarrow> None | Some v \<Rightarrow> if P k v then Some v else None)"
  using assms
proof (induction m)
  case (Cons a m)
  obtain k' v where a: "a = (k', v)" by (cases a)
  have "map_of m k' = None" using Cons.prems a by (simp add: map_of_eq_None_iff)
  with Cons a show ?case by (auto split: option.splits)
qed simp

lemma paired_filter:
  assumes "paired m"
  shows "paired (filter (\<lambda>(k, n, x). \<not> (fst k = [] \<and> n \<le> i)) m)"
proof -
  have dist: "distinct (map fst m)" using assms by (simp add: paired_def keyed_right_def)
  have split: "(\<lambda>(k, n, x). \<not> (fst k = [] \<and> n \<le> i)) = (\<lambda>(k, v :: int \<times> verb_outcome). \<not> (fst k = [] \<and> fst v \<le> i))"
    for i :: int by auto
  let ?f = "filter (\<lambda>(k, v). \<not> (fst k = [] \<and> fst v \<le> i)) m"
  have seq: "map_option fst (map_of ?f (s, v)) = Option.bind (map_option fst (map_of m (s, v))) (\<lambda>n. if s = [] \<and> n \<le> i then None else Some n)" for s v
    unfolding map_of_filter_keys [OF dist] by (auto split: option.splits)
  have "map_option fst (map_of ?f (s, v)) = map_option fst (map_of ?f (s, w))" if "v \<in> set l5_verbs" "w \<in> set l5_verbs" for s v w
  proof -
    have "map_option fst (map_of m (s, v)) = map_option fst (map_of m (s, w))" using assms that unfolding paired_def by blast
    then show ?thesis unfolding seq by (rule arg_cong)
  qed
  moreover have "keyed_right l5_verbs (filter (\<lambda>(k, v). \<not> (fst k = [] \<and> fst v \<le> i)) m)"
    using assms dist by (auto simp: paired_def keyed_right_def map_of_filter_keys distinct_map_filter split: option.splits if_splits)
  ultimately show ?thesis unfolding split paired_def by blast
qed

lemma paired_merge:
  assumes "paired (ks_outcomes ks)" and "l5_result r"
  shows "paired (ks_outcomes (merge_outcomes a r auth ks))"
proof -
  define m where "m = (if ac_replace_scope a \<and> list_ex (\<lambda>x. vo_selector x \<noteq> []) (dr_outcomes r)
      then filter (\<lambda>(k, n, x). \<not> (fst k = [] \<and> n \<le> ac_sequence a)) (ks_outcomes ks) else ks_outcomes ks)"
  have m: "paired m" using assms(1) paired_filter by (simp add: m_def)
  have "keyed_right l5_verbs (fold (put_outcome (ac_sequence a) (ks_full_scope ks) auth) (dr_outcomes r) m)"
    using m l5_result_verbs(1) [OF assms(2)] by (intro keyed_right_merged) (auto simp: paired_def)
  moreover have "map_option fst (map_of (fold (put_outcome (ac_sequence a) (ks_full_scope ks) auth) (dr_outcomes r) m) (s, v))
      = map_option fst (map_of (fold (put_outcome (ac_sequence a) (ks_full_scope ks) auth) (dr_outcomes r) m) (s, w))"
    if "v \<in> set l5_verbs" "w \<in> set l5_verbs" for s v w
  proof -
    have "map_option fst (map_of m (s, v)) = map_option fst (map_of m (s, w))" using m that unfolding paired_def by blast
    then show ?thesis using that l5_result_verbs(2) [OF assms(2)] by (simp add: merged_sequence)
  qed
  moreover have "ks_outcomes (merge_outcomes a r auth ks) = fold (put_outcome (ac_sequence a) (ks_full_scope ks) auth) (dr_outcomes r) m"
    by (simp add: merge_outcomes_def Let_def m_def)
  ultimately show ?thesis unfolding paired_def by metis
qed

text \<open>Results put together account by account.\<close>

definition piece_of :: "string \<Rightarrow> verb_outcome list \<Rightarrow> bool" where
  "piece_of s xs \<longleftrightarrow> map vo_verb xs = l5_verbs \<and> list_all (\<lambda>x. vo_selector x = s) xs"

lemma piece_of_nonempty: "piece_of s xs \<Longrightarrow> xs \<noteq> []"
  by (auto simp: piece_of_def l5_verbs_eq)

lemma filter_pieces:
  assumes "distinct (map fst ps)" and "list_all (\<lambda>(s, xs). piece_of s xs) ps" and "(s, xs) \<in> set ps"
  shows "filter (\<lambda>x. vo_selector x = s) (concat (map snd ps)) = xs"
  using assms
proof (induction ps)
  case (Cons p ps)
  obtain s' ys where p: "p = (s', ys)" by (cases p)
  have others: "filter (\<lambda>x. vo_selector x = s') (concat (map snd ps)) = []"
  proof -
    have "vo_selector x \<noteq> s'" if "(s2, zs) \<in> set ps" "x \<in> set zs" for s2 zs x
    proof -
      have "piece_of s2 zs" using Cons.prems(2) that(1) by (auto simp: list_all_iff)
      then have "vo_selector x = s2" using that(2) by (simp add: piece_of_def list_all_iff)
      moreover have "s2 \<in> fst ` set ps" using that(1) by (rule rev_image_eqI) simp
      ultimately show ?thesis using Cons.prems(1) p by auto
    qed
    then show ?thesis by (fastforce simp: filter_empty_conv)
  qed
  show ?case
  proof (cases "s = s'")
    case True
    then have "xs = ys" using Cons.prems(1,3) p by (force simp: image_iff)
    moreover have "filter (\<lambda>x. vo_selector x = s') ys = ys" using Cons.prems(2) p by (auto simp: piece_of_def list_all_iff filter_id_conv)
    ultimately show ?thesis using others True p by simp
  next
    case False
    then have "filter (\<lambda>x. vo_selector x = s) ys = []" using Cons.prems(2) p by (auto simp: piece_of_def list_all_iff filter_empty_conv)
    with False Cons p show ?thesis by simp
  qed
qed simp

lemma pieces_result:
  assumes "ps \<noteq> []" and "distinct (map fst ps)" and "list_all (\<lambda>(s, xs). piece_of s xs) ps"
  shows "l5_result \<lparr>dr_policy = L5_EMERGENCY_POLICY, dr_outcomes = concat (map snd ps)\<rparr>"
proof -
  have "concat (map snd ps) \<noteq> []" using assms(1,3) piece_of_nonempty by (cases ps) (auto simp: split_beta)
  moreover have "map vo_verb (filter (\<lambda>x. vo_selector x = vo_selector y) (concat (map snd ps))) = l5_verbs"
    if y: "y \<in> set (concat (map snd ps))" for y
  proof -
    from y obtain s xs where p: "(s, xs) \<in> set ps" "y \<in> set xs" by auto
    with assms(3) have "piece_of s xs" by (auto simp: list_all_iff)
    with p filter_pieces [OF assms(2,3) p(1)] show ?thesis by (auto simp: piece_of_def list_all_iff)
  qed
  ultimately show ?thesis by (auto simp: l5_result_def result_valid_iff)
qed

lemma failed_piece: "piece_of s (failed_outcomes L5_EMERGENCY_POLICY code b s)"
  by (simp add: piece_of_def failed_outcomes_def list_all_iff comp_def)

lemma failed_l5_result: "l5_result (failed_result L5_EMERGENCY_POLICY code b s)"
  using pieces_result [of "[(s, failed_outcomes L5_EMERGENCY_POLICY code b s)]"] by (simp add: failed_result_def failed_piece)

lemma make_l5_result: "make_result L5_EMERGENCY_POLICY xs = Some r \<Longrightarrow> l5_result r"
  by (auto simp: make_result_def l5_result_def Let_def split: if_splits)

definition group_lookup :: "(string \<times> (string \<times> verb_outcome) list) list \<Rightarrow> string \<Rightarrow> string \<Rightarrow> verb_outcome option" where
  "group_lookup g s v = Option.bind (map_of g s) (\<lambda>m. map_of m v)"

lemma grouped_outcomes_lookup:
  "group_lookup (grouped_outcomes xs g) s v =
     (case filter (\<lambda>x. vo_selector x = s \<and> vo_verb x = v) xs of [] \<Rightarrow> group_lookup g s v | y # ys \<Rightarrow> Some (List.last (y # ys)))"
proof (induction xs arbitrary: g)
  case (Cons x xs)
  have "group_lookup (AList.update (vo_selector x) (AList.update (vo_verb x) x (case map_of g (vo_selector x) of None \<Rightarrow> [] | Some m \<Rightarrow> m)) g) s v
     = (if vo_selector x = s \<and> vo_verb x = v then Some x else group_lookup g s v)"
    by (auto simp: group_lookup_def update_conv' split: option.splits)
  with Cons show ?case by (auto split: list.splits)
qed simp

lemma grouped_outcomes_keys:
  "fst ` set (grouped_outcomes xs g) = vo_selector ` set xs \<union> fst ` set g"
  "distinct (map fst g) \<Longrightarrow> distinct (map fst (grouped_outcomes xs g))"
  by (induction xs arbitrary: g) (auto simp: dom_update distinct_update)

lemma those_map_Some: "(\<And>x. x \<in> set xs \<Longrightarrow> f x = Some (g x)) \<Longrightarrow> those (map f xs) = Some (map g xs)"
  by (induction xs) auto

lemma keyed_rightD: "keyed_right V m \<Longrightarrow> map_of m k = Some (n, x) \<Longrightarrow> k = (vo_selector x, vo_verb x) \<and> snd k \<in> set V"
  unfolding keyed_right_def by blast

lemma pairedD:
  assumes "paired m" and "map_of m (s, v) = Some (n, x)" and "v \<in> set l5_verbs" and "w \<in> set l5_verbs"
  shows "\<exists>y. map_of m (s, w) = Some (n, y)"
proof -
  have "map_option fst (map_of m (s, w)) = map_option fst (map_of m (s, v))" using assms(1,3,4) unfolding paired_def by blast
  then have "map_option fst (map_of m (s, w)) = Some n" by (simp add: assms(2))
  then show ?thesis by auto
qed

lemma grouped_full:
  assumes "paired m" and "s \<in> vo_selector ` set (map (\<lambda>(k, n, x). x) m)" and "v \<in> set l5_verbs"
  shows "\<exists>z. group_lookup (grouped_outcomes (map (\<lambda>(k, n, x). x) m) []) s v = Some z \<and> vo_selector z = s \<and> vo_verb z = v"
proof -
  let ?xs = "map (\<lambda>(k, n, x). x) m"
  have right: "keyed_right l5_verbs m" and dist: "distinct (map fst m)" using assms(1) by (simp_all add: paired_def keyed_right_def)
  obtain x where x: "s = vo_selector x" "x \<in> set ?xs" using assms(2) by (rule imageE)
  then obtain k n where "(k, n, x) \<in> set m" by auto
  then have kx: "map_of m k = Some (n, x)" using dist by simp
  have k: "k = (s, vo_verb x) \<and> vo_verb x \<in> set l5_verbs" using keyed_rightD [OF right kx] x(1) by auto
  with kx have "map_of m (s, vo_verb x) = Some (n, x)" by simp
  from pairedD [OF assms(1) this _ assms(3)] k obtain y where y: "map_of m (s, v) = Some (n, y)" by blast
  have "((s, v), n, y) \<in> set m" using y by (rule map_of_SomeD)
  then have "y \<in> set ?xs" by force
  moreover have "vo_selector y = s" "vo_verb y = v" using keyed_rightD [OF right y] by simp_all
  ultimately have "filter (\<lambda>x. vo_selector x = s \<and> vo_verb x = v) ?xs \<noteq> []" unfolding filter_empty_conv by blast
  then obtain z zs where zs: "filter (\<lambda>x. vo_selector x = s \<and> vo_verb x = v) ?xs = z # zs"
    by (cases "filter (\<lambda>x. vo_selector x = s \<and> vo_verb x = v) ?xs") auto
  have "List.last (z # zs) \<in> set (filter (\<lambda>x. vo_selector x = s \<and> vo_verb x = v) ?xs)" unfolding zs by (rule last_in_set) simp
  then have "vo_selector (List.last (z # zs)) = s" "vo_verb (List.last (z # zs)) = v" by (simp_all del: last.simps)
  then show ?thesis unfolding grouped_outcomes_lookup zs by (simp del: last.simps)
qed

text \<open>The aggregate of the merged outcomes can always be built, and is a valid result.\<close>

lemma aggregate_succeeds:
  assumes "paired (ks_outcomes ks)"
  shows "\<exists>ro. aggregate ks = Inr ro \<and> (\<forall>r. ro = Some r \<longrightarrow> l5_result r)"
proof -
  define xs where "xs = map (\<lambda>(k, n, x). x) (ks_outcomes ks)"
  define g where "g = grouped_outcomes xs []"
  define ps where "ps = map (\<lambda>(s, m). (s, map (\<lambda>v. the (map_of m v)) l5_verbs)) g"
  have dist: "distinct (map fst g)" unfolding g_def by (rule grouped_outcomes_keys(2)) simp
  have full: "\<exists>z. map_of m v = Some z \<and> vo_selector z = s \<and> vo_verb z = v" if p: "(s, m) \<in> set g" and v: "v \<in> set l5_verbs" for s m v
  proof -
    have "fst (s, m) \<in> fst ` set g" using p by (rule imageI)
    then have "s \<in> vo_selector ` set xs" unfolding g_def grouped_outcomes_keys(1) by simp
    from grouped_full [OF assms this [unfolded xs_def] v] show ?thesis
      using p dist by (simp add: group_lookup_def g_def xs_def)
  qed
  have "l5_result \<lparr>dr_policy = L5_EMERGENCY_POLICY, dr_outcomes = concat (map snd ps)\<rparr>" if "g \<noteq> []"
  proof (rule pieces_result)
    show "ps \<noteq> []" using that by (simp add: ps_def)
    show "distinct (map fst ps)" using dist by (simp add: ps_def comp_def split_beta)
    have "piece_of s (map (\<lambda>v. the (map_of m v)) l5_verbs)" if "(s, m) \<in> set g" for s m
      unfolding piece_of_def map_map
      using full [OF that] by (fastforce simp: list_all_iff comp_def intro!: map_idI)
    then show "list_all (\<lambda>(s, xs). piece_of s xs) ps" by (auto simp: ps_def list_all_iff)
  qed
  moreover have "those (concat (map (\<lambda>(s, m). map (map_of m) l5_verbs) g)) = Some (concat (map snd ps))"
  proof -
    have "map (map_of m) l5_verbs = map Some (map (\<lambda>v. the (map_of m v)) l5_verbs)" if "(s, m) \<in> set g" for s m
      using full [OF that] by force
    then have "concat (map (\<lambda>(s, m). map (map_of m) l5_verbs) g) = map Some (concat (map snd ps))"
      unfolding ps_def map_concat map_map by (intro arg_cong [where f = concat] map_cong) (auto simp: comp_def)
    then show ?thesis using those_map_Some [of "concat (map snd ps)" Some id] by simp
  qed
  ultimately show ?thesis
    by (cases "g = []") (simp_all add: aggregate_def Let_def make_result_def l5_result_def flip: xs_def g_def)
qed

end
