(* ===== verification/Kill_Switch_Runs.thy ===== *)
theory Kill_Switch_Runs
  imports Kill_Switch Journal_Properties
begin

text \<open>
  All interleavings of the threads that use one kill switch: normal writes entering and leaving,
  activations in their phases, resets, other users of the journal, and restarts of the process.
  The invariant of these worlds and what follows from it: sweeps and normal writes exclude each
  other, no account is swept twice at once, no step fails inside, every activation can finish,
  and a durable latch holds across restarts until it is reset.
\<close>

subsection \<open>Worlds and steps\<close>

record 'j kill_world =
  kw_switch :: "'j kill_switch"
  kw_writes :: "string list"
  kw_threads :: "nat \<Rightarrow> (activation \<times> phase) option"

datatype kill_label =
  Admitted string
| Refused string
| Left string
| Latched nat
| Waited nat
| Internal nat
| Reset_done
| Reset_refused
| Bound
| Journal_called journal_call
| Restarted

text \<open>A round after which targets are still pending has gone back to wait.\<close>

fun round_label :: "nat \<Rightarrow> phase \<Rightarrow> kill_label" where
  "round_label i (Coordinating c) = (if co_pending c = [] then Internal i else Waited i)"
| "round_label i _ = Internal i"

definition answer_valid :: "dispatch_answer \<Rightarrow> bool" where
  "answer_valid ans \<longleftrightarrow> (case ans of Answer_result r \<Rightarrow> result_valid r | _ \<Rightarrow> True)"

abbreviation at_phase :: "'j kill_world \<Rightarrow> nat \<Rightarrow> activation \<Rightarrow> phase \<Rightarrow> bool" where
  "at_phase w i a ph \<equiv> kw_threads w i = Some (a, ph)"

abbreviation to_phase :: "nat \<Rightarrow> activation \<Rightarrow> phase \<Rightarrow> 'j kill_world \<Rightarrow> 'j kill_world" where
  "to_phase i a ph w \<equiv> w\<lparr>kw_threads := (kw_threads w)(i \<mapsto> (a, ph))\<rparr>"

text \<open>
  A thread that waits on the condition does nothing until it can go on; a step after its deadline
  is the variant with \<open>late\<close> (or the drain timeout), which may be taken at any time.
\<close>

inductive kill_step :: "('env, 'j) journal_exec \<Rightarrow> 'j kill_world \<Rightarrow> kill_label \<Rightarrow> 'j kill_world \<Rightarrow> bool" for jx where
  admit: "admit_write jx env sel (kw_switch w) = (ks, Inr u) \<Longrightarrow>
    kill_step jx w (Admitted sel) (w\<lparr>kw_switch := ks, kw_writes := sel # kw_writes w\<rparr>)"
| refuse: "admit_write jx env sel (kw_switch w) = (ks, Inl e) \<Longrightarrow> kill_step jx w (Refused sel) (w\<lparr>kw_switch := ks\<rparr>)"
| leave: "sel \<in> set (kw_writes w) \<Longrightarrow>
    kill_step jx w (Left sel) (w\<lparr>kw_switch := leave_write (kw_switch w), kw_writes := remove1 sel (kw_writes w)\<rparr>)"
| latch: "kw_threads w i = None \<Longrightarrow> activate_latch jx env hash ensured rq (kw_switch w) = (ks, a) \<Longrightarrow>
    kill_step jx w (Latched i) (w\<lparr>kw_switch := ks, kw_threads := (kw_threads w)(i \<mapsto> (a, Draining))\<rparr>)"
| drained: "at_phase w i a Draining \<Longrightarrow> ks_writes (kw_switch w) = 0 \<Longrightarrow>
    kill_step jx w (Internal i) (to_phase i a (begin_dispatch a True prep) w)"
| drain_timeout: "at_phase w i a Draining \<Longrightarrow> ks_writes (kw_switch w) \<noteq> 0 \<Longrightarrow>
    kill_step jx w (Internal i) (to_phase i a (begin_dispatch a False prep) w)"
| plain: "at_phase w i a Plain_dispatch \<Longrightarrow> answer_valid ans \<Longrightarrow>
    kill_step jx w (Internal i) (to_phase i a (finish_plain ans) w)"
| round: "at_phase w i a (Coordinating c) \<Longrightarrow> co_pending c \<noteq> [] \<Longrightarrow> reserve_round late (kw_switch w) c = (ks, ph) \<Longrightarrow>
    kill_step jx w (round_label i ph) (to_phase i a ph (w\<lparr>kw_switch := ks\<rparr>))"
| swept: "at_phase w i a (Sweeping c ts) \<Longrightarrow> answer_valid ans \<Longrightarrow>
    kill_step jx w (Internal i) (to_phase i a (Coordinating (take_answer ans ts c)) w)"
| assembled: "at_phase w i a (Coordinating c) \<Longrightarrow> co_pending c = [] \<Longrightarrow>
    kill_step jx w (Internal i) (to_phase i a (finish_coordination ex c) w)"
| merged: "at_phase w i a (Merging r owned auth) \<Longrightarrow> merge_result a r owned auth (kw_switch w) = (ks, res) \<Longrightarrow>
    kill_step jx w (Internal i) (w\<lparr>kw_switch := ks, kw_threads := (kw_threads w)(i := None)\<rparr>)"
| reset: "reset_switch jx envs rc authorise (kw_switch w) = (ks, Inr u) \<Longrightarrow> kill_step jx w Reset_done (w\<lparr>kw_switch := ks\<rparr>)"
| reset_refused: "reset_switch jx envs rc authorise (kw_switch w) = (ks, Inl e) \<Longrightarrow> kill_step jx w Reset_refused (w\<lparr>kw_switch := ks\<rparr>)"
| bind: "kill_step jx w Bound (w\<lparr>kw_switch := bind_emergency_dispatcher d (kw_switch w)\<rparr>)"
| journal: "ks_journal (kw_switch w) = Some j \<Longrightarrow>
    kill_step jx w (Journal_called c) (w\<lparr>kw_switch := (kw_switch w)\<lparr>ks_journal := Some (fst (jx env c j))\<rparr>\<rparr>)"
| restart: "bind_emergency_journal jx env (ks_journal (kw_switch w)) (new_switch d) = (ks, Inr u) \<Longrightarrow>
    kill_step jx w Restarted \<lparr>kw_switch = ks, kw_writes = [], kw_threads = Map.empty\<rparr>"

inductive kill_run :: "('env, 'j) journal_exec \<Rightarrow> 'j kill_world \<Rightarrow> kill_label list \<Rightarrow> 'j kill_world \<Rightarrow> bool" for jx where
  start: "kill_run jx w [] w"
| next_step: "kill_run jx w ls w' \<Longrightarrow> kill_step jx w' l w'' \<Longrightarrow> kill_run jx w (ls @ [l]) w''"

definition fresh_world :: "dispatcher_kind option \<Rightarrow> 'j option \<Rightarrow> 'j kill_world" where
  "fresh_world d jo = \<lparr>kw_switch = (new_switch d)\<lparr>ks_journal := jo\<rparr>, kw_writes = [], kw_threads = Map.empty\<rparr>"

subsection \<open>The invariant\<close>

fun dispatching :: "phase \<Rightarrow> bool" where
  "dispatching (Coordinating c) \<longleftrightarrow> True"
| "dispatching (Sweeping c ts) \<longleftrightarrow> True"
| "dispatching Plain_dispatch \<longleftrightarrow> True"
| "dispatching _ \<longleftrightarrow> False"

fun owned_by :: "phase \<Rightarrow> string set" where
  "owned_by (Coordinating c) = set (co_owned c)"
| "owned_by (Sweeping c ts) = set (co_owned c)"
| "owned_by (Merging r owned auth) = set owned"
| "owned_by _ = {}"

fun sweeping :: "phase \<Rightarrow> string set" where
  "sweeping (Sweeping c ts) = set (map bt_selector ts)"
| "sweeping _ = {}"

text \<open>Every prepared account is pending, being swept, or has its outcomes.\<close>

definition coordination_ok :: "string set \<Rightarrow> coordination \<Rightarrow> bool" where
  "coordination_ok now c \<longleftrightarrow>
     co_prepared c \<noteq> [] \<and> distinct (map bt_selector (co_prepared c)) \<and> distinct (map bt_selector (co_pending c))
     \<and> bt_selector ` set (co_pending c) \<subseteq> bt_selector ` set (co_prepared c)
     \<and> (\<forall>s xs. map_of (co_outcomes c) s = Some xs \<longrightarrow> piece_of s xs)
     \<and> bt_selector ` set (co_prepared c) \<subseteq> bt_selector ` set (co_pending c) \<union> now \<union> dom (map_of (co_outcomes c))"

fun phase_ok :: "phase \<Rightarrow> bool" where
  "phase_ok (Coordinating c) \<longleftrightarrow> coordination_ok {} c"
| "phase_ok (Sweeping c ts) \<longleftrightarrow> coordination_ok (set (map bt_selector ts)) c \<and> set (map bt_selector ts) \<subseteq> set (co_owned c)"
| "phase_ok (Merging r owned auth) \<longleftrightarrow> l5_result r"
| "phase_ok _ \<longleftrightarrow> True"

definition threads_of :: "'j kill_world \<Rightarrow> nat set" where
  "threads_of w = dom (kw_threads w)"

definition counters_ok :: "'j kill_world \<Rightarrow> bool" where
  "counters_ok w \<longleftrightarrow> finite (dom (kw_threads w)) \<and> ks_writes (kw_switch w) = int (length (kw_writes w))
     \<and> ks_dispatches (kw_switch w) = int (card (dom (kw_threads w)))
     \<and> (dom (kw_threads w) \<noteq> {} \<longrightarrow> ks_active (kw_switch w))"

definition exclusion_ok :: "'j kill_world \<Rightarrow> bool" where
  "exclusion_ok w \<longleftrightarrow> (\<forall>i a ph. at_phase w i a ph \<longrightarrow> dispatching ph \<longrightarrow> kw_writes w = [])"

definition ownership_ok :: "'j kill_world \<Rightarrow> bool" where
  "ownership_ok w \<longleftrightarrow>
     (\<forall>i a ph. at_phase w i a ph \<longrightarrow> owned_by ph \<subseteq> ks_selectors (kw_switch w))
     \<and> (\<forall>i j a b ph qh. at_phase w i a ph \<longrightarrow> at_phase w j b qh \<longrightarrow> i \<noteq> j \<longrightarrow> owned_by ph \<inter> owned_by qh = {})"

definition shapes_ok :: "'j kill_world \<Rightarrow> bool" where
  "shapes_ok w \<longleftrightarrow> paired (ks_outcomes (kw_switch w)) \<and> (\<forall>i a ph. at_phase w i a ph \<longrightarrow> phase_ok ph)"

definition kill_inv :: "'j kill_world \<Rightarrow> bool" where
  "kill_inv w \<longleftrightarrow> counters_ok w \<and> exclusion_ok w \<and> ownership_ok w \<and> shapes_ok w"

subsection \<open>What the operations keep\<close>

definition same_work :: "'j kill_switch \<Rightarrow> 'j kill_switch \<Rightarrow> bool" where
  "same_work ks ks' \<longleftrightarrow> ks_dispatches ks' = ks_dispatches ks \<and> ks_selectors ks' = ks_selectors ks \<and> ks_writes ks' = ks_writes ks
     \<and> ks_outcomes ks' = ks_outcomes ks \<and> (ks_active ks \<longrightarrow> ks_active ks')"

lemma same_work_refl [simp]: "same_work ks ks" "same_work ks (ks\<lparr>ks_journal := jo\<rparr>)" "same_work ks (bind_emergency_dispatcher d ks)"
  "same_work ks (restored (ks\<lparr>ks_journal := jo\<rparr>))" "same_work ks (restored ks)"
  by (simp_all add: same_work_def bind_emergency_dispatcher_def restored_def)

lemma same_work_trans: "same_work ks ks' \<Longrightarrow> same_work ks' ks'' \<Longrightarrow> same_work ks ks''"
  by (simp add: same_work_def)

lemma admit_refused: "admit_write jx env sel ks = (ks', Inl e) \<Longrightarrow> same_work ks ks'"
  by (auto simp: admit_write_def count_write_def Let_def split: option.splits prod.splits sum.splits if_splits)

lemma admit_write_counts:
  assumes "admit_write jx env sel ks = (ks', Inr u)"
  shows "\<not> ks_active ks" and "same_work ks (ks'\<lparr>ks_writes := ks_writes ks\<rparr>)" and "ks_writes ks' = ks_writes ks + 1"
  using assms
  by (auto simp: admit_write_def count_write_def restored_def same_work_def Let_def split: option.splits prod.splits sum.splits if_splits)

lemma find_l5_episode_work: "same_work ks (fst (find_l5_episode jx env ks))"
  by (auto simp: find_l5_episode_def split: option.splits prod.splits sum.splits)

lemma deactivate_l5_work: "same_work ks (fst (deactivate_l5 jx env e ks))"
  by (auto simp: deactivate_l5_def split: option.splits prod.splits sum.splits journal_error.splits)

lemma same_work_bind:
  assumes "same_work ks (fst r)" and "\<And>ks' x. same_work ks ks' \<Longrightarrow> f ks' x = (ks'', Inl e) \<Longrightarrow> same_work ks ks''" and "bind_out r f = (ks'', Inl e)"
  shows "same_work ks ks''"
  using assms by (cases r) (auto simp: bind_out_def split: sum.splits)

lemma reset_refused_work:
  assumes "reset_switch jx envs rc authorise ks = (ks', Inl e)"
  shows "same_work ks ks'"
  using assms unfolding reset_switch_def
proof (rule same_work_bind [rotated 2])
  fix ks1 u
  assume ks1: "same_work ks ks1"
  assume "(if rc \<and> ks_active ks1 \<and> (case ks_last ks1 of None \<Rightarrow> True | Some r \<Rightarrow> \<not> result_complete r) then (ks1, Inl ActionsIncomplete)
      else bind_out (find_l5_episode jx (fst envs) ks1) (\<lambda>ks e.
        bind_out (ks, authorise_reset authorise (affected_selectors e ks)) (\<lambda>ks _.
        bind_out (deactivate_l5 jx (snd envs) e ks) (\<lambda>ks _. (lift_latch ks, Inr ()))))) = (ks', Inl e)" (is "(if ?c then _ else ?b) = _")
  then consider "ks' = ks1" | "?b = (ks', Inl e)" by (auto split: if_splits)
  then show "same_work ks ks'"
  proof cases
    case 2
    then show ?thesis
    proof (rule same_work_bind [rotated 2])
      show "same_work ks (fst (find_l5_episode jx (fst envs) ks1))" using same_work_trans [OF ks1 find_l5_episode_work] .
      fix ks2 x
      assume ks2: "same_work ks ks2" and "bind_out (ks2, authorise_reset authorise (affected_selectors x ks2))
        (\<lambda>ks _. bind_out (deactivate_l5 jx (snd envs) x ks) (\<lambda>ks _. (lift_latch ks, Inr ()))) = (ks', Inl e)"
      from this(2) show "same_work ks ks'"
      proof (rule same_work_bind [rotated 2])
        fix ks3 v
        assume ks3: "same_work ks ks3" and "bind_out (deactivate_l5 jx (snd envs) x ks3) (\<lambda>ks _. (lift_latch ks, Inr ())) = (ks', Inl e)"
        from this(2) show "same_work ks ks'"
          by (rule same_work_bind [rotated 2]) (use same_work_trans [OF ks3 deactivate_l5_work] in auto)
      qed (use ks2 in simp)
    qed
  qed (use ks1 in simp)
qed simp

lemma reset_done_work:
  assumes "reset_switch jx envs rc authorise ks = (ks', Inr u)"
  shows "ks_dispatches ks = 0" and "ks_writes ks = 0" and "ks_dispatches ks' = 0" and "ks_writes ks' = 0"
    and "ks_outcomes ks' = []" and "ks_selectors ks' = ks_selectors ks" and "\<not> ks_active ks'"
proof -
  obtain ks1 r1 where 1: "find_l5_episode jx (fst envs) ks = (ks1, r1)" by fastforce
  have idle: "wait_for_idle ks = Inr ()" using assms by (auto simp: reset_switch_def bind_out_def split: sum.splits)
  then show "ks_dispatches ks = 0" "ks_writes ks = 0" by (auto simp: wait_for_idle_def require_def split: if_splits)
  obtain ks2 x where 2: "deactivate_l5 jx (snd envs) x ks1 = (ks2, Inr ())" "ks' = lift_latch ks2"
    using assms 1 by (auto simp: reset_switch_def bind_out_def split: sum.splits prod.splits if_splits)
  have "same_work ks ks2"
    using find_l5_episode_work [of ks jx "fst envs"] deactivate_l5_work [of ks1 jx "snd envs" x] 1 2(1) same_work_trans by fastforce
  with 2(2) \<open>ks_dispatches ks = 0\<close> \<open>ks_writes ks = 0\<close>
  show "ks_dispatches ks' = 0" "ks_writes ks' = 0" "ks_outcomes ks' = []" "ks_selectors ks' = ks_selectors ks" "\<not> ks_active ks'"
    by (simp_all add: same_work_def lift_latch_def)
qed

lemma activate_latch_work:
  assumes "activate_latch jx env hash ensured rq ks = (ks', a)"
  shows "ks_active ks'" and "ks_dispatches ks' = ks_dispatches ks + 1" and "ks_selectors ks' = ks_selectors ks" and "ks_writes ks' = ks_writes ks"
    and "ks_outcomes ks' = ks_outcomes ks"
  using assms by (auto simp: activate_latch_def Let_def split: option.splits prod.splits sum.splits)

subsection \<open>Coordination\<close>

lemma stored_piece:
  assumes "paired (ks_outcomes ks)" and "selector_complete ks s"
  shows "piece_of s (stored_outcomes ks s)"
proof -
  have right: "keyed_right l5_verbs (ks_outcomes ks)" using assms(1) by (simp add: paired_def)
  have "vo_verb (snd (the (map_of (ks_outcomes ks) (s, v)))) = v \<and> vo_selector (snd (the (map_of (ks_outcomes ks) (s, v)))) = s"
    if v: "v \<in> set l5_verbs" for v
  proof -
    have "(case map_of (ks_outcomes ks) (s, v) of None \<Rightarrow> False | Some (n, x) \<Rightarrow> vo_succeeded x)"
      using assms(2) v by (simp add: selector_complete_def list_all_iff)
    then obtain n x where nx: "map_of (ks_outcomes ks) (s, v) = Some (n, x)" by (auto split: option.splits)
    then show ?thesis using keyed_rightD [OF right nx] by simp
  qed
  then show ?thesis by (auto simp: piece_of_def stored_outcomes_def list_all_iff comp_def intro!: map_idI)
qed

text \<open>Sorting the pending targets leaves the rest of the job alone, splits them, and serves only whole pieces.\<close>

definition sorted_ok :: "'j kill_switch \<Rightarrow> broker_target list \<Rightarrow> coordination \<Rightarrow> coordination \<times> broker_target list \<times> broker_target list \<Rightarrow> bool" where
  "sorted_ok ks ts c r \<longleftrightarrow> (case r of (c', still, free) \<Rightarrow>
     co_prepared c' = co_prepared c \<and> co_owned c' = co_owned c \<and> co_authoritative c' = co_authoritative c
     \<and> distinct (map bt_selector still) \<and> distinct (map bt_selector free)
     \<and> bt_selector ` set free \<inter> ks_selectors ks = {}
     \<and> bt_selector ` set still \<subseteq> bt_selector ` set ts \<and> bt_selector ` set free \<subseteq> bt_selector ` set ts
     \<and> length still + length free \<le> length ts)"

definition served_ok :: "broker_target list \<Rightarrow> coordination \<Rightarrow> coordination \<times> broker_target list \<times> broker_target list \<Rightarrow> bool" where
  "served_ok ts c r \<longleftrightarrow> (case r of (c', still, free) \<Rightarrow>
     (\<forall>s xs. map_of (co_outcomes c') s = Some xs \<longrightarrow> map_of (co_outcomes c) s = Some xs \<or> piece_of s xs)
     \<and> dom (map_of (co_outcomes c)) \<subseteq> dom (map_of (co_outcomes c'))
     \<and> bt_selector ` set ts \<subseteq> bt_selector ` set still \<union> bt_selector ` set free \<union> dom (map_of (co_outcomes c')))"

lemma sort_pending_sorted: "distinct (map bt_selector ts) \<Longrightarrow> sorted_ok ks ts c (sort_pending ks ts c)"
proof (induction ts arbitrary: c)
  case (Cons t ts)
  then have ih: "sorted_ok ks ts c' (sort_pending ks ts c')" for c' by simp
  have t: "bt_selector t \<notin> bt_selector ` set ts" using Cons.prems by simp
  show ?case
    using ih [of "c\<lparr>co_waited := insert (bt_selector t) (co_waited c)\<rparr>"] ih [of c] t
      ih [of "c\<lparr>co_outcomes := AList.update (bt_selector t) (stored_outcomes ks (bt_selector t)) (co_outcomes c)\<rparr>"]
    by (auto simp: sorted_ok_def Let_def split: prod.splits)
qed (simp add: sorted_ok_def)

lemma served_ok_waited: "served_ok ts (c\<lparr>co_waited := W\<rparr>) r = served_ok ts c r"
  by (simp add: served_ok_def)

lemma served_ok_put:
  assumes "served_ok ts (c\<lparr>co_outcomes := AList.update s xs (co_outcomes c)\<rparr>) r" and "piece_of s xs" and "bt_selector t = s"
  shows "served_ok (t # ts) c r"
proof -
  obtain c' still free where r: "r = (c', still, free)" by (cases r) auto
  have "map_of (AList.update s xs (co_outcomes c)) k = (if k = s then Some xs else map_of (co_outcomes c) k)" for k by (simp add: update_conv')
  with assms show ?thesis unfolding served_ok_def r by (auto split: if_splits simp: subset_iff dom_def)
qed

lemma sort_pending_served: "paired (ks_outcomes ks) \<Longrightarrow> served_ok ts c (sort_pending ks ts c)"
proof (induction ts arbitrary: c)
  case (Cons t ts)
  then have ih: "served_ok ts c' (sort_pending ks ts c')" for c' by simp
  consider "bt_selector t \<in> ks_selectors ks"
    | "bt_selector t \<notin> ks_selectors ks" "bt_selector t \<in> co_waited c \<and> selector_complete ks (bt_selector t)"
    | "bt_selector t \<notin> ks_selectors ks" "\<not> (bt_selector t \<in> co_waited c \<and> selector_complete ks (bt_selector t))" by blast
  then show ?case
  proof cases
    case 1
    with ih [of "c\<lparr>co_waited := insert (bt_selector t) (co_waited c)\<rparr>"] show ?thesis
      by (auto simp: Let_def served_ok_waited served_ok_def split: prod.splits)
  next
    case 2
    then have "piece_of (bt_selector t) (stored_outcomes ks (bt_selector t))" using stored_piece [OF Cons.prems] by blast
    from served_ok_put [OF ih this refl] 2 show ?thesis by (simp add: Let_def)
  next
    case 3
    with ih [of c] show ?thesis by (auto simp: Let_def served_ok_def split: prod.splits)
  qed
qed (simp add: served_ok_def)

lemma fold_update_lookup:
  "map_of (fold (\<lambda>t. AList.update (bt_selector t) (g (bt_selector t))) ts m) s = (if s \<in> bt_selector ` set ts then Some (g s) else map_of m s)"
  by (induction ts arbitrary: m) (auto simp: update_conv')

lemma failed_for_targets_piece:
  assumes "distinct (map bt_selector ts)" and "s \<in> bt_selector ` set ts"
  shows "piece_of s (of_selector_in s (failed_for_targets ts code b))"
proof -
  define ps where "ps = map (\<lambda>t. (bt_selector t, failed_outcomes L5_EMERGENCY_POLICY code b (bt_selector t))) ts"
  have "filter (\<lambda>x. vo_selector x = s) (concat (map snd ps)) = failed_outcomes L5_EMERGENCY_POLICY code b s"
    by (rule filter_pieces) (use assms in \<open>auto simp: ps_def comp_def list_all_iff failed_piece\<close>)
  moreover have "concat (map snd ps) = failed_for_targets ts code b" by (simp add: ps_def failed_for_targets_def comp_def)
  ultimately show ?thesis by (simp add: of_selector_in_def failed_piece)
qed

lemma checked_piece: "piece_of (bt_selector t) (checked_outcomes xs t)"
proof (cases "map vo_verb (of_selector_in (bt_selector t) xs) = l5_verbs")
  case True
  then show ?thesis by (simp add: checked_outcomes_def Let_def piece_of_def) (simp add: of_selector_in_def list_all_iff)
qed (simp add: checked_outcomes_def Let_def failed_for_targets_def failed_piece)

lemma coordination_okI:
  assumes "coordination_ok now c" and "co_prepared c' = co_prepared c" and "distinct (map bt_selector (co_pending c'))"
    and "bt_selector ` set (co_pending c') \<subseteq> bt_selector ` set (co_pending c)"
    and "\<And>s xs. map_of (co_outcomes c') s = Some xs \<Longrightarrow> map_of (co_outcomes c) s = Some xs \<or> piece_of s xs"
    and "bt_selector ` set (co_pending c) \<union> now \<union> dom (map_of (co_outcomes c))
      \<subseteq> bt_selector ` set (co_pending c') \<union> now' \<union> dom (map_of (co_outcomes c'))"
  shows "coordination_ok now' c'"
proof -
  have ok: "co_prepared c \<noteq> []" "distinct (map bt_selector (co_prepared c))"
    "bt_selector ` set (co_pending c) \<subseteq> bt_selector ` set (co_prepared c)"
    "\<And>s xs. map_of (co_outcomes c) s = Some xs \<Longrightarrow> piece_of s xs"
    "bt_selector ` set (co_prepared c) \<subseteq> bt_selector ` set (co_pending c) \<union> now \<union> dom (map_of (co_outcomes c))"
    using assms(1) by (simp_all add: coordination_ok_def)
  have "piece_of s xs" if "map_of (co_outcomes c') s = Some xs" for s xs using assms(5) [OF that] ok(4) by blast
  with ok(1,2) assms(2,3) subset_trans [OF assms(4) ok(3)] subset_trans [OF ok(5) assms(6)] show ?thesis
    by (simp add: coordination_ok_def)
qed

lemma time_out_ok:
  assumes "coordination_ok {} c" and "distinct (map bt_selector ts)" and "co_pending c = ts"
  shows "coordination_ok {} (time_out ts c)"
proof -
  let ?g = "\<lambda>s. of_selector_in s (failed_for_targets ts ''dispatch_in_progress_timeout'' False)"
  have look: "map_of (co_outcomes (time_out ts c)) s = (if s \<in> bt_selector ` set ts then Some (?g s) else map_of (co_outcomes c) s)" for s
    by (simp add: time_out_def fold_update_lookup [where g = ?g])
  show ?thesis
  proof (rule coordination_okI [OF assms(1)])
    fix s xs
    assume "map_of (co_outcomes (time_out ts c)) s = Some xs"
    then show "map_of (co_outcomes c) s = Some xs \<or> piece_of s xs"
      using failed_for_targets_piece [OF assms(2)] by (auto simp: look split: if_splits)
  next
    show "bt_selector ` set (co_pending c) \<union> {} \<union> dom (map_of (co_outcomes c))
        \<subseteq> bt_selector ` set (co_pending (time_out ts c)) \<union> {} \<union> dom (map_of (co_outcomes (time_out ts c)))"
      using assms(3) by (auto simp: dom_def look)
  qed (simp_all add: time_out_def)
qed

lemma take_answer_ok:
  assumes "coordination_ok (set (map bt_selector ts)) c"
  shows "coordination_ok {} (take_answer ans ts c)"
proof -
  let ?xs = "batch_outcomes ans ts"
  define g where "g s = (let own = of_selector_in s ?xs in if map vo_verb own \<noteq> l5_verbs
      then failed_outcomes L5_EMERGENCY_POLICY ''invalid_dispatch_result'' True s else own)" for s
  have g: "checked_outcomes ?xs t = g (bt_selector t)" for t
    by (simp add: checked_outcomes_def g_def failed_for_targets_def Let_def)
  have look: "map_of (co_outcomes (take_answer ans ts c)) s = (if s \<in> bt_selector ` set ts then Some (g s) else map_of (co_outcomes c) s)" for s
    by (simp add: take_answer_def g fold_update_lookup [where g = g])
  show ?thesis
  proof (rule coordination_okI [OF assms])
    fix s xs
    assume "map_of (co_outcomes (take_answer ans ts c)) s = Some xs"
    then consider t where "t \<in> set ts" "s = bt_selector t" "xs = g (bt_selector t)" | "map_of (co_outcomes c) s = Some xs"
      unfolding look by (auto split: if_splits)
    then show "map_of (co_outcomes c) s = Some xs \<or> piece_of s xs"
      using checked_piece [of _ ?xs] by cases (auto simp flip: g)
  next
    show "distinct (map bt_selector (co_pending (take_answer ans ts c)))" using assms by (simp add: take_answer_def coordination_ok_def)
    have "co_pending (take_answer ans ts c) = co_pending c" by (simp add: take_answer_def)
    then show "bt_selector ` set (co_pending c) \<union> set (map bt_selector ts) \<union> dom (map_of (co_outcomes c))
        \<subseteq> bt_selector ` set (co_pending (take_answer ans ts c)) \<union> {} \<union> dom (map_of (co_outcomes (take_answer ans ts c)))"
      by (auto simp: dom_def look)
  qed (simp_all add: take_answer_def)
qed

lemma reserve_round_ok:
  assumes "coordination_ok {} c" and "paired (ks_outcomes ks)" and "reserve_round late ks c = (ks', ph)"
  shows "phase_ok ph"
    and "ks' = ks\<lparr>ks_selectors := ks_selectors ks \<union> sweeping ph\<rparr>"
    and "sweeping ph \<inter> ks_selectors ks = {}" and "owned_by ph = set (co_owned c) \<union> sweeping ph" and "dispatching ph"
proof -
  obtain c' still free where s: "sort_pending ks (co_pending c) c = (c', still, free)" by (metis prod_cases3)
  have d: "distinct (map bt_selector (co_pending c))" using assms(1) by (simp add: coordination_ok_def)
  have so: "sorted_ok ks (co_pending c) c (c', still, free)" using sort_pending_sorted [OF d, of ks c] s by simp
  have se: "served_ok (co_pending c) c (c', still, free)" using sort_pending_served [OF assms(2), of "co_pending c" c] s by simp
  have still: "coordination_ok (bt_selector ` set free) (c'\<lparr>co_pending := still, co_owned := ow, co_authoritative := au\<rparr>)" for ow au
    by (rule coordination_okI [OF assms(1)]) (use so se in \<open>auto simp: sorted_ok_def served_ok_def\<close>)
  consider "free \<noteq> []" | "free = []" "still \<noteq> []" | "free = []" "still = []" by blast
  then have "phase_ok ph \<and> ks' = ks\<lparr>ks_selectors := ks_selectors ks \<union> sweeping ph\<rparr> \<and> sweeping ph \<inter> ks_selectors ks = {}
      \<and> owned_by ph = set (co_owned c) \<union> sweeping ph \<and> dispatching ph"
  proof cases
    case 1
    with assms(3) s still so show ?thesis by (auto simp: reserve_round_def sorted_ok_def)
  next
    case 2
    have rest: "coordination_ok {} (c'\<lparr>co_pending := still\<rparr>)" using still [where ow = "co_owned c'" and au = "co_authoritative c'"] 2(1) by simp
    have "time_out still c' = time_out still (c'\<lparr>co_pending := still\<rparr>)" by (simp add: time_out_def)
    with time_out_ok [OF rest] so have "coordination_ok {} (time_out still c')" by (simp add: sorted_ok_def)
    moreover have "co_owned (time_out still c') = co_owned c'" by (simp add: time_out_def)
    ultimately show ?thesis using rest 2 assms(3) s so by (cases late) (auto simp: reserve_round_def sorted_ok_def)
  next
    case 3
    with assms(3) s still [where ow = "co_owned c'" and au = "co_authoritative c'"] so show ?thesis by (auto simp: reserve_round_def sorted_ok_def)
  qed
  then show "phase_ok ph" "ks' = ks\<lparr>ks_selectors := ks_selectors ks \<union> sweeping ph\<rparr>" "sweeping ph \<inter> ks_selectors ks = {}"
    "owned_by ph = set (co_owned c) \<union> sweeping ph" "dispatching ph" by auto
qed

lemma assemble_ok:
  assumes "coordination_ok {} c" and "co_pending c = []"
  shows "\<exists>r. assemble c = Some r \<and> l5_result r"
proof -
  define ps where "ps = map (\<lambda>t. (bt_selector t, the (map_of (co_outcomes c) (bt_selector t)))) (co_prepared c)"
  have all: "\<exists>xs. map_of (co_outcomes c) (bt_selector t) = Some xs \<and> piece_of (bt_selector t) xs" if "t \<in> set (co_prepared c)" for t
  proof -
    have "bt_selector t \<in> dom (map_of (co_outcomes c))" using assms that unfolding coordination_ok_def by auto
    with assms(1) show ?thesis unfolding coordination_ok_def by blast
  qed
  have "l5_result \<lparr>dr_policy = L5_EMERGENCY_POLICY, dr_outcomes = concat (map snd ps)\<rparr>"
  proof (rule pieces_result)
    show "ps \<noteq> []" "distinct (map fst ps)" using assms(1) by (simp_all add: ps_def coordination_ok_def comp_def)
    have "piece_of (bt_selector t) (the (map_of (co_outcomes c) (bt_selector t)))" if "t \<in> set (co_prepared c)" for t
      using all [OF that] by auto
    then show "list_all (\<lambda>(s, xs). piece_of s xs) ps" by (simp add: ps_def list_all_iff)
  qed
  moreover have "those (map (\<lambda>t. map_of (co_outcomes c) (bt_selector t)) (co_prepared c)) = Some (map snd ps)"
    unfolding ps_def map_map comp_def snd_conv by (rule those_map_Some) (use all in \<open>metis option.sel\<close>)
  ultimately show ?thesis by (simp add: assemble_def make_result_def l5_result_def Let_def)
qed

subsection \<open>The phases\<close>

lemma begin_dispatch_ok:
  "phase_ok (begin_dispatch a drained prep) \<and> owned_by (begin_dispatch a drained prep) = {} \<and> (dispatching (begin_dispatch a drained prep) \<longrightarrow> drained)"
proof -
  have "phase_ok (coordinate ts) \<and> owned_by (coordinate ts) = {}" for ts
    by (auto simp: coordinate_def coordination_ok_def failed_l5_result)
  then show ?thesis
    by (auto simp: begin_dispatch_def failed_l5_result split: option.splits dispatcher_kind.splits preparation.splits)
qed

lemma finish_plain_ok: "answer_valid ans \<Longrightarrow> phase_ok (finish_plain ans) \<and> owned_by (finish_plain ans) = {} \<and> \<not> dispatching (finish_plain ans)"
  by (auto simp: finish_plain_def answer_valid_def failed_l5_result l5_result_def split: dispatch_answer.splits)
    (use failed_l5_result in \<open>auto simp: l5_result_def\<close>)

lemma distinct_if_sorted_wrt: "sorted_wrt R xs \<Longrightarrow> (\<And>x. \<not> R x x) \<Longrightarrow> distinct xs"
  by (induction xs) auto

lemma dispatch_failed_ok: "phase_ok (dispatch_failed owned) \<and> owned_by (dispatch_failed owned) = set owned \<and> \<not> dispatching (dispatch_failed owned)"
proof (cases "owned = []")
  case False
  define ps where "ps = map (\<lambda>s. (s, failed_outcomes L5_EMERGENCY_POLICY ''dispatch_failed'' True s)) (sorted_set owned)"
  have "distinct (sorted_set owned)" using distinct_if_sorted_wrt [OF sorted_set_strict] text_less_irrefl by blast
  moreover have "sorted_set owned \<noteq> []" using False set_sorted_set [of owned] by (metis set_empty)
  ultimately have "l5_result \<lparr>dr_policy = L5_EMERGENCY_POLICY, dr_outcomes = concat (map snd ps)\<rparr>"
    by (intro pieces_result) (auto simp: ps_def comp_def list_all_iff failed_piece)
  moreover have "concat (map snd ps) = concat (map (failed_outcomes L5_EMERGENCY_POLICY ''dispatch_failed'' True) (sorted_set owned))"
    by (simp add: ps_def comp_def)
  ultimately show ?thesis using False by (simp add: dispatch_failed_def)
qed (simp add: dispatch_failed_def failed_l5_result)

lemma finish_coordination_ok:
  assumes "coordination_ok {} c" and "co_pending c = []"
  shows "phase_ok (finish_coordination ex c) \<and> owned_by (finish_coordination ex c) = set (co_owned c) \<and> \<not> dispatching (finish_coordination ex c)"
proof -
  obtain r where r: "assemble c = Some r" "l5_result r" using assemble_ok [OF assms] by blast
  show ?thesis
  proof (cases ex)
    case Lease_exit_raises
    then show ?thesis using dispatch_failed_ok [of "co_owned c"] by (simp add: finish_coordination_def)
  qed (simp_all add: finish_coordination_def r failed_l5_result)
qed

lemma merge_result_ok:
  assumes "l5_result r" and "paired (ks_outcomes ks)"
  shows "\<exists>ks' x. merge_result a r owned auth ks = (ks', Inr x) \<and> l5_result x \<and> paired (ks_outcomes ks')
     \<and> ks_dispatches ks' = ks_dispatches ks - 1 \<and> ks_selectors ks' = ks_selectors ks - set owned \<and> ks_writes ks' = ks_writes ks
     \<and> ks_active ks' = ks_active ks \<and> ks_last ks' = Some x \<and> ks_journal ks' = ks_journal ks"
proof -
  have m: "paired (ks_outcomes (merge_outcomes a r auth ks))" by (rule paired_merge [OF assms(2,1)])
  obtain ro where ro: "aggregate (merge_outcomes a r auth ks) = Inr ro" "\<And>x. ro = Some x \<Longrightarrow> l5_result x"
    using aggregate_succeeds [OF m] by blast
  then show ?thesis using m assms(1) by (cases ro) (simp_all add: merge_result_def merge_outcomes_def Let_def)
qed

subsection \<open>Every step keeps the invariant\<close>

lemma kill_invD:
  assumes "kill_inv w"
  shows "finite (dom (kw_threads w))" "ks_writes (kw_switch w) = int (length (kw_writes w))"
    "ks_dispatches (kw_switch w) = int (card (dom (kw_threads w)))"
    "\<And>i. kw_threads w i \<noteq> None \<Longrightarrow> ks_active (kw_switch w)"
    "\<And>i a ph. at_phase w i a ph \<Longrightarrow> dispatching ph \<Longrightarrow> kw_writes w = []"
    "\<And>i a ph. at_phase w i a ph \<Longrightarrow> owned_by ph \<subseteq> ks_selectors (kw_switch w)"
    "\<And>i j a b ph qh. at_phase w i a ph \<Longrightarrow> at_phase w j b qh \<Longrightarrow> i \<noteq> j \<Longrightarrow> owned_by ph \<inter> owned_by qh = {}"
    "paired (ks_outcomes (kw_switch w))" "\<And>i a ph. at_phase w i a ph \<Longrightarrow> phase_ok ph"
proof -
  have inv: "counters_ok w" "exclusion_ok w" "ownership_ok w" "shapes_ok w" using assms by (simp_all add: kill_inv_def)
  show "finite (dom (kw_threads w))" "ks_writes (kw_switch w) = int (length (kw_writes w))"
    "ks_dispatches (kw_switch w) = int (card (dom (kw_threads w)))" using inv(1) by (simp_all add: counters_ok_def)
  show "ks_active (kw_switch w)" if "kw_threads w i \<noteq> None" for i using inv(1) that unfolding counters_ok_def by blast
  show "kw_writes w = []" if "at_phase w i a ph" "dispatching ph" for i a ph using inv(2) that unfolding exclusion_ok_def by blast
  show "owned_by ph \<subseteq> ks_selectors (kw_switch w)" if "at_phase w i a ph" for i a ph using inv(3) that unfolding ownership_ok_def by blast
  show "owned_by ph \<inter> owned_by qh = {}" if "at_phase w i a ph" "at_phase w j b qh" "i \<noteq> j" for i j a b ph qh
    using inv(3) that unfolding ownership_ok_def by blast
  show "paired (ks_outcomes (kw_switch w))" using inv(4) by (simp add: shapes_ok_def)
  show "phase_ok ph" if "at_phase w i a ph" for i a ph using inv(4) that unfolding shapes_ok_def by blast
qed

text \<open>A thread moves to another phase, and may take selectors that were free.\<close>

lemma kill_inv_phase:
  assumes w: "kill_inv w" and i: "at_phase w i a ph" and ph': "phase_ok ph'" "dispatching ph' \<Longrightarrow> kw_writes w = []"
    and own: "owned_by ph' = owned_by ph \<union> new" "new \<inter> ks_selectors (kw_switch w) = {}"
  shows "kill_inv (to_phase i a ph' (w\<lparr>kw_switch := (kw_switch w)\<lparr>ks_selectors := ks_selectors (kw_switch w) \<union> new\<rparr>\<rparr>))" (is "kill_inv ?w")
proof -
  note inv = kill_invD [OF w]
  have dom: "dom (kw_threads ?w) = dom (kw_threads w)" using i by auto
  have "counters_ok ?w" using inv(1-4) i unfolding counters_ok_def dom by auto
  moreover have "exclusion_ok ?w" using inv(5) ph'(2) by (auto simp: exclusion_ok_def)
  moreover have "ownership_ok ?w"
  proof -
    have other: "owned_by qh \<inter> owned_by ph' = {}" if "at_phase w j b qh" "i \<noteq> j" for j b qh
      using inv(6) [OF that(1)] inv(7) [OF i that] own by blast
    have phases: "at_phase ?w j b qh \<longleftrightarrow> (if j = i then b = a \<and> qh = ph' else at_phase w j b qh)" for j b qh by auto
    have "owned_by qh \<subseteq> ks_selectors (kw_switch ?w)" if "at_phase ?w j b qh" for j b qh
      using that inv(6) [of j b qh] inv(6) [OF i] own(1) unfolding phases by (auto split: if_splits)
    moreover have "owned_by qh \<inter> owned_by rh = {}" if "at_phase ?w j b qh" "at_phase ?w k d rh" "j \<noteq> k" for j k b d qh rh
      using that other [of j b qh] other [of k d rh] inv(7) [of j b qh k d rh] unfolding phases by (auto split: if_splits)
    ultimately show ?thesis unfolding ownership_ok_def by blast
  qed
  moreover have "shapes_ok ?w" using inv(8,9) ph'(1) by (auto simp: shapes_ok_def)
  ultimately show ?thesis by (simp add: kill_inv_def)
qed

lemma kill_inv_move:
  assumes "kill_inv w" and "at_phase w i a ph" and "phase_ok ph'" and "dispatching ph' \<Longrightarrow> kw_writes w = []" and "owned_by ph' = owned_by ph"
  shows "kill_inv (to_phase i a ph' w)"
  using kill_inv_phase [OF assms(1-4), of "{}"] assms(5) by simp

text \<open>The switch changes without touching what the threads share.\<close>

lemma kill_inv_switch:
  assumes "kill_inv w" and "same_work (kw_switch w) ks"
  shows "kill_inv (w\<lparr>kw_switch := ks\<rparr>)"
  using assms by (auto simp: kill_inv_def counters_ok_def exclusion_ok_def ownership_ok_def shapes_ok_def same_work_def)

lemma kill_inv_fresh: "kill_inv (fresh_world d jo)"
  by (simp add: kill_inv_def fresh_world_def new_switch_def counters_ok_def exclusion_ok_def ownership_ok_def shapes_ok_def paired_def keyed_right_def)

lemma kill_inv_admit:
  assumes "kill_inv w" and "admit_write jx env sel (kw_switch w) = (ks, Inr u)"
  shows "kill_inv (w\<lparr>kw_switch := ks, kw_writes := sel # kw_writes w\<rparr>)"
proof -
  note ad = admit_write_counts [OF assms(2)]
  note inv = kill_invD [OF assms(1)]
  have none: "kw_threads w = Map.empty" using inv(4) ad(1) by fastforce
  show ?thesis
    using inv(1-3,8) ad(2,3) none
    by (auto simp: kill_inv_def counters_ok_def exclusion_ok_def ownership_ok_def shapes_ok_def same_work_def)
qed

lemma kill_inv_leave:
  assumes "kill_inv w" and "sel \<in> set (kw_writes w)"
  shows "kill_inv (w\<lparr>kw_switch := leave_write (kw_switch w), kw_writes := remove1 sel (kw_writes w)\<rparr>)"
proof -
  have "length (remove1 sel (kw_writes w)) + 1 = length (kw_writes w)"
    using length_pos_if_in_set [OF assms(2)] assms(2) by (simp add: length_remove1)
  then have "int (length (remove1 sel (kw_writes w))) = int (length (kw_writes w)) - 1" by linarith
  with assms show ?thesis
    by (auto simp: kill_inv_def counters_ok_def exclusion_ok_def ownership_ok_def shapes_ok_def leave_write_def)
qed

lemma kill_inv_latch:
  assumes "kill_inv w" and "kw_threads w i = None" and "activate_latch jx env hash ensured rq (kw_switch w) = (ks, a)"
  shows "kill_inv (w\<lparr>kw_switch := ks, kw_threads := (kw_threads w)(i \<mapsto> (a, Draining))\<rparr>)" (is "kill_inv ?w")
proof -
  note la = activate_latch_work [OF assms(3)]
  note inv = kill_invD [OF assms(1)]
  have new: "i \<notin> dom (kw_threads w)" using assms(2) by auto
  have dom: "dom (kw_threads ?w) = insert i (dom (kw_threads w))" by simp
  have "counters_ok ?w" unfolding counters_ok_def dom using inv(1-3) la new by (simp add: card_insert_if)
  moreover have "exclusion_ok ?w" using inv(5) by (auto simp: exclusion_ok_def)
  moreover have "ownership_ok ?w" using inv(6,7) la(3) by (auto simp: ownership_ok_def split: if_splits)
  moreover have "shapes_ok ?w" using inv(8,9) la(5) by (auto simp: shapes_ok_def)
  ultimately show ?thesis by (simp add: kill_inv_def)
qed

lemma kill_inv_merged:
  assumes "kill_inv w" and i: "at_phase w i a (Merging r owned auth)" and m: "merge_result a r owned auth (kw_switch w) = (ks, res)"
  shows "kill_inv (w\<lparr>kw_switch := ks, kw_threads := (kw_threads w)(i := None)\<rparr>)" (is "kill_inv ?w")
proof -
  note inv = kill_invD [OF assms(1)]
  have r: "l5_result r" using inv(9) [OF i] by simp
  have ks: "paired (ks_outcomes ks)" "ks_dispatches ks = ks_dispatches (kw_switch w) - 1" "ks_selectors ks = ks_selectors (kw_switch w) - set owned"
    "ks_writes ks = ks_writes (kw_switch w)" "ks_active ks = ks_active (kw_switch w)"
    using merge_result_ok [OF r inv(8), of a owned auth] m by auto
  have mem: "i \<in> dom (kw_threads w)" using i by auto
  have dom: "dom (kw_threads ?w) = dom (kw_threads w) - {i}" by auto
  have "ks_active (kw_switch w)" using inv(4) [of i] i by simp
  moreover have "int (card (dom (kw_threads w) - {i})) = int (card (dom (kw_threads w))) - 1"
    using card_Diff_singleton [OF mem] card_gt_0_iff [of "dom (kw_threads w)"] inv(1) mem by (auto simp: of_nat_diff)
  ultimately have "counters_ok ?w" unfolding counters_ok_def dom using inv(1-3) ks by simp
  moreover have "exclusion_ok ?w" using inv(5) by (auto simp: exclusion_ok_def split: if_splits)
  moreover have "ownership_ok ?w"
  proof -
    have "owned_by qh \<subseteq> ks_selectors ks" if "at_phase w j b qh" "i \<noteq> j" for j b qh
      using inv(6) [OF that(1)] inv(7) [OF i that] ks(3) by auto
    then show ?thesis using inv(7) by (auto simp: ownership_ok_def split: if_splits)
  qed
  moreover have "shapes_ok ?w" using inv(9) ks(1) by (auto simp: shapes_ok_def split: if_splits)
  ultimately show ?thesis by (simp add: kill_inv_def)
qed

lemma kill_inv_reset:
  assumes "kill_inv w" and "reset_switch jx envs rc authorise (kw_switch w) = (ks, Inr u)"
  shows "kill_inv (w\<lparr>kw_switch := ks\<rparr>)"
proof -
  note inv = kill_invD [OF assms(1)]
  note re = reset_done_work [OF assms(2)]
  have "dom (kw_threads w) = {}" using inv(1,3) re(1) by simp
  then have none: "kw_threads w = Map.empty" by simp
  show ?thesis
    using inv(2) re none
    by (simp add: kill_inv_def counters_ok_def exclusion_ok_def ownership_ok_def shapes_ok_def paired_def keyed_right_def)
qed

lemma kill_inv_restart:
  assumes "bind_emergency_journal jx env jo (new_switch d) = (ks, Inr u)"
  shows "kill_inv \<lparr>kw_switch = ks, kw_writes = [], kw_threads = Map.empty\<rparr>"
proof -
  have "ks_writes ks = 0 \<and> ks_dispatches ks = 0 \<and> ks_outcomes ks = []"
    using assms by (auto simp: bind_emergency_journal_def new_switch_def restored_def Let_def split: option.splits prod.splits sum.splits if_splits)
  then show ?thesis by (simp add: kill_inv_def counters_ok_def exclusion_ok_def ownership_ok_def shapes_ok_def paired_def keyed_right_def)
qed

lemma kill_step_inv: "kill_step jx w l w' \<Longrightarrow> kill_inv w \<Longrightarrow> kill_inv w'"
proof (induction rule: kill_step.induct)
  case (drained w i a prep)
  note inv = kill_invD [OF drained(3)]
  have "kw_writes w = []" using drained(2) inv(2) by simp
  then show ?case using kill_inv_move [OF drained(3,1)] begin_dispatch_ok [of a True prep] by simp
next
  case (drain_timeout w i a prep)
  then show ?case by (intro kill_inv_move [OF drain_timeout(3,1)]) (use begin_dispatch_ok [of a False prep] in auto)
next
  case (plain w i a ans)
  then show ?case by (intro kill_inv_move [OF plain(3,1)]) (use finish_plain_ok in auto)
next
  case (round w i a c late ks ph)
  note inv = kill_invD [OF round(4)]
  have ok: "coordination_ok {} c" using inv(9) [OF round(1)] by simp
  note rr = reserve_round_ok [OF ok inv(8) round(3)]
  have "kw_writes w = []" using inv(5) [OF round(1)] by simp
  with kill_inv_phase [OF round(4,1) rr(1), of "sweeping ph"] rr show ?case by simp
next
  case (swept w i a c ts ans)
  note inv = kill_invD [OF swept(3)]
  have "coordination_ok (set (map bt_selector ts)) c" using inv(9) [OF swept(1)] by simp
  moreover have "kw_writes w = []" using inv(5) [OF swept(1)] by simp
  ultimately show ?case by (intro kill_inv_move [OF swept(3,1)]) (simp_all add: take_answer_ok, simp add: take_answer_def)
next
  case (assembled w i a c ex)
  note inv = kill_invD [OF assembled(3)]
  have "coordination_ok {} c" using inv(9) [OF assembled(1)] by simp
  from finish_coordination_ok [OF this assembled(2), of ex] show ?case by (intro kill_inv_move [OF assembled(3,1)]) simp_all
qed (auto intro: kill_inv_admit kill_inv_leave kill_inv_latch kill_inv_merged kill_inv_reset kill_inv_restart kill_inv_switch
      admit_refused reset_refused_work)

lemma kill_run_inv: "kill_run jx w ls w' \<Longrightarrow> kill_inv w \<Longrightarrow> kill_inv w'"
  by (induction rule: kill_run.induct) (auto intro: kill_step_inv)

subsection \<open>Sweeps and normal writes\<close>

text \<open>
  C25. Sweeps and normal writes exclude each other. In every world that any interleaving of normal
  writes, activations, resets, other users of the journal and restarts leads to, while an
  activation is reserving or sweeping accounts no normal write is in flight, the switch is active
  and no reset can succeed.
\<close>

theorem sweeps_exclude_writes:
  assumes "kill_run jx (fresh_world d jo) ls w" and "at_phase w i a ph" and "dispatching ph"
  shows "kw_writes w = [] \<and> ks_active (kw_switch w) \<and> snd (reset_switch jx envs rc authorise (kw_switch w)) = Inl WorkInProgress"
proof -
  note inv = kill_invD [OF kill_run_inv [OF assms(1) kill_inv_fresh]]
  have "dom (kw_threads w) \<noteq> {}" using assms(2) by auto
  then have "ks_dispatches (kw_switch w) \<noteq> 0" using inv(1,3) by simp
  then have "wait_for_idle (kw_switch w) = Inl WorkInProgress" by (simp add: wait_for_idle_def)
  then have "snd (reset_switch jx envs rc authorise (kw_switch w)) = Inl WorkInProgress" by (simp add: reset_switch_def)
  with inv(4) [of i] inv(5) [OF assms(2,3)] assms(2) show ?thesis by simp
qed

text \<open>
  C27. No account is swept twice at once: two activations that are sweeping at the same time sweep
  different accounts, and both have reserved theirs.
\<close>

theorem one_sweep_per_account:
  assumes "kill_run jx (fresh_world d jo) ls w" and "at_phase w i a (Sweeping c ts)" and "at_phase w j b (Sweeping e us)" and "i \<noteq> j"
  shows "bt_selector ` set ts \<inter> bt_selector ` set us = {} \<and> bt_selector ` set ts \<union> bt_selector ` set us \<subseteq> ks_selectors (kw_switch w)"
proof -
  note inv = kill_invD [OF kill_run_inv [OF assms(1) kill_inv_fresh]]
  have "bt_selector ` set ts \<subseteq> set (co_owned c)" "bt_selector ` set us \<subseteq> set (co_owned e)"
    using inv(9) [OF assms(2)] inv(9) [OF assms(3)] by auto
  moreover have "set (co_owned c) \<inter> set (co_owned e) = {}" using inv(7) [OF assms(2-4)] by simp
  moreover have "set (co_owned c) \<subseteq> ks_selectors (kw_switch w)" "set (co_owned e) \<subseteq> ks_selectors (kw_switch w)"
    using inv(6) [OF assms(2)] inv(6) [OF assms(3)] by auto
  ultimately show ?thesis by blast
qed

text \<open>
  C29. An activation does not fail inside: in every reachable world, an activation that has swept all
  its targets has a well-formed result, merging a result never meets an account with half of its
  outcomes, and what is published as the last result has exactly the verbs of the policy for each
  account.
\<close>

theorem activation_is_well_typed:
  assumes "kill_run jx (fresh_world d jo) ls w" and "kw_threads w i = Some (a, ph)"
  shows "case ph of
       Coordinating c \<Rightarrow> co_pending c = [] \<longrightarrow> (\<exists>r. assemble c = Some r \<and> result_valid r)
     | Merging r owned auth \<Rightarrow> (\<exists>ks x. merge_result a r owned auth (kw_switch w) = (ks, Inr x) \<and> result_valid x \<and> ks_last ks = Some x)
     | _ \<Rightarrow> True"
proof -
  note inv = kill_invD [OF kill_run_inv [OF assms(1) kill_inv_fresh]]
  show ?thesis
  proof (cases ph)
    case (Coordinating c)
    with inv(9) [OF assms(2)] assemble_ok [of c] show ?thesis by (auto simp: l5_result_def)
  next
    case (Merging r owned auth)
    with inv(9) [OF assms(2)] have "l5_result r" by simp
    from merge_result_ok [OF this inv(8), of a owned auth] Merging show ?thesis by (auto simp: l5_result_def)
  qed simp_all
qed

text \<open>
  A checked reset lifts the latch only over finished work: when \<open>reset\<close> with
  \<open>require_complete\<close> succeeds on an active switch, nothing is in flight, the last result is complete
  on every account and verb, and the authorisation, if asked for, covered every account with an
  outcome.
\<close>

theorem reset_needs_completion:
  assumes "kill_run jx (fresh_world d jo) ls w" and "ks_active (kw_switch w)"
    and "reset_switch jx envs True authorise (kw_switch w) = (ks, Inr u)"
  shows "kw_writes w = [] \<and> kw_threads w = Map.empty \<and> \<not> ks_active ks
     \<and> (\<exists>r. ks_last (kw_switch w) = Some r \<and> result_complete r)
     \<and> (case authorise of None \<Rightarrow> True
        | Some f \<Rightarrow> \<exists>S. f S = Some True \<and> {s \<in> fst ` fst ` set (ks_outcomes (kw_switch w)). s \<noteq> []} \<subseteq> S)"
proof -
  note inv = kill_invD [OF kill_run_inv [OF assms(1) kill_inv_fresh]]
  note re = reset_done_work [OF assms(3)]
  have "dom (kw_threads w) = {}" using inv(1,3) re(1) by simp
  moreover have "kw_writes w = []" using inv(2) re(2) by simp
  moreover have "\<exists>r. ks_last (kw_switch w) = Some r \<and> result_complete r"
    using assms(2,3) by (auto simp: reset_switch_def bind_out_def split: sum.splits if_splits option.splits)
  moreover have "\<exists>S. f S = Some True \<and> {s \<in> fst ` fst ` set (ks_outcomes (kw_switch w)). s \<noteq> []} \<subseteq> S" if f: "authorise = Some f" for f
  proof -
    obtain ks1 e where 1: "find_l5_episode jx (fst envs) (kw_switch w) = (ks1, Inr e)" "authorise_reset authorise (affected_selectors e ks1) = Inr ()"
      using assms(3) by (auto simp: reset_switch_def bind_out_def split: sum.splits if_splits option.splits prod.splits)
    have "ks_outcomes ks1 = ks_outcomes (kw_switch w)" using find_l5_episode_work [of "kw_switch w" jx "fst envs"] 1(1) by (simp add: same_work_def)
    moreover have "f (affected_selectors e ks1) = Some True"
      using 1(2) f by (auto simp: authorise_reset_def require_def split: option.splits if_splits)
    ultimately show ?thesis by (intro exI [of _ "affected_selectors e ks1"]) (auto simp: affected_selectors_def)
  qed
  ultimately show ?thesis using re(7) by (auto split: option.splits)
qed

subsection \<open>Every activation comes to an end\<close>

text \<open>An upper bound on the steps that an activation has left once it has drained; waiting is no step.\<close>

fun effort :: "phase \<Rightarrow> nat" where
  "effort Draining = 0"
| "effort Plain_dispatch = 2"
| "effort (Coordinating c) = 2 * length (co_pending c) + 2"
| "effort (Sweeping c ts) = 2 * length (co_pending c) + 3"
| "effort (Merging r owned auth) = 1"

definition steps_left :: "nat \<Rightarrow> 'j kill_world \<Rightarrow> nat" where
  "steps_left i w = (case kw_threads w i of None \<Rightarrow> 0 | Some (a, ph) \<Rightarrow> effort ph)"

definition past_draining :: "nat \<Rightarrow> 'j kill_world \<Rightarrow> bool" where
  "past_draining i w \<longleftrightarrow> (\<forall>a. kw_threads w i \<noteq> Some (a, Draining))"

lemma finish_effort:
  "effort (dispatch_failed owned) = 1" "effort (finish_plain ans) = 1" "effort (finish_coordination ex c) = 1"
  "dispatch_failed owned \<noteq> Draining" "finish_plain ans \<noteq> Draining" "finish_coordination ex c \<noteq> Draining"
  by (auto simp: dispatch_failed_def finish_plain_def finish_coordination_def split: dispatch_answer.splits lease_exit.splits option.splits)

lemma round_effort:
  assumes "reserve_round late ks c = (ks', ph)" and "distinct (map bt_selector (co_pending c))" and "co_pending c \<noteq> []"
  shows "effort ph \<le> effort (Coordinating c)" and "round_label i ph = Internal i \<Longrightarrow> effort ph < effort (Coordinating c)"
    and "late \<Longrightarrow> round_label i ph = Internal i" and "ph \<noteq> Draining" and "round_label i ph = Internal i \<or> round_label i ph = Waited i"
proof -
  obtain c' still free where s: "sort_pending ks (co_pending c) c = (c', still, free)" by (metis prod_cases3)
  have so: "length still + length free \<le> length (co_pending c)" using sort_pending_sorted [OF assms(2), of ks c] s by (simp add: sorted_ok_def)
  have p: "0 < length (co_pending c)" using assms(3) by simp
  consider "free \<noteq> []" | "free = []" "still \<noteq> []" late | "free = []" "still \<noteq> []" "\<not> late" | "free = []" "still = []" by blast
  then have "effort ph \<le> effort (Coordinating c) \<and> (round_label i ph = Internal i \<longrightarrow> effort ph < effort (Coordinating c))
      \<and> (late \<longrightarrow> round_label i ph = Internal i) \<and> ph \<noteq> Draining \<and> (round_label i ph = Internal i \<or> round_label i ph = Waited i)"
  proof cases
    case 1
    then have "length still < length (co_pending c)" using so by (cases free) simp_all
    with 1 assms(1) s show ?thesis by (auto simp: reserve_round_def)
  qed (use assms(1) s so p in \<open>auto simp: reserve_round_def time_out_def\<close>)
  then show "effort ph \<le> effort (Coordinating c)" "round_label i ph = Internal i \<Longrightarrow> effort ph < effort (Coordinating c)"
    "late \<Longrightarrow> round_label i ph = Internal i" "ph \<noteq> Draining" "round_label i ph = Internal i \<or> round_label i ph = Waited i" by auto
qed

lemma round_label_index: "round_label j ph = Internal i \<Longrightarrow> j = i"
  by (cases ph) (auto split: if_splits)

lemma step_effort:
  assumes "kill_step jx w l w'" and "kill_inv w" and "past_draining i w" and "l \<noteq> Latched i" and "l \<noteq> Restarted"
  shows "past_draining i w' \<and> steps_left i w' + (if l = Internal i then 1 else 0) \<le> steps_left i w"
  using assms
proof (induction rule: kill_step.induct)
  case (round w j a c late ks ph)
  have "distinct (map bt_selector (co_pending c))" using kill_invD(9) [OF round(4,1)] by (simp add: coordination_ok_def)
  note re = round_effort [OF round(3) this round(2)]
  show ?case
  proof (cases "j = i")
    case True
    with round(1) re(1,4) re(2) [of i] show ?thesis
      by (cases "round_label i ph = Internal i") (auto simp: past_draining_def steps_left_def)
  next
    case False
    then have "round_label j ph \<noteq> Internal i" using round_label_index by blast
    with False round(5) show ?thesis by (auto simp: past_draining_def steps_left_def)
  qed
qed (auto simp: past_draining_def steps_left_def finish_effort take_answer_def)

lemma can_go_on:
  assumes "kill_inv w" and "at_phase w i a ph"
  shows "\<exists>w'. kill_step jx w (Internal i) w'"
proof (cases ph)
  case Draining
  with assms(2) kill_step.drained [of w i a jx Prepare_raises] kill_step.drain_timeout [of w i a jx Prepare_raises]
  show ?thesis by (cases "ks_writes (kw_switch w) = 0") blast+
next
  case Plain_dispatch
  with assms(2) kill_step.plain [of w i a Answer_raises jx] show ?thesis by (auto simp: answer_valid_def)
next
  case (Sweeping c ts)
  with assms(2) kill_step.swept [of w i a c ts Answer_raises jx] show ?thesis by (auto simp: answer_valid_def)
next
  case (Merging r owned auth)
  obtain ks res where "merge_result a r owned auth (kw_switch w) = (ks, res)" by fastforce
  with assms(2) Merging kill_step.merged [of w i a r owned auth ks res jx] show ?thesis by blast
next
  case (Coordinating c)
  obtain ks ph' where r: "reserve_round True (kw_switch w) c = (ks, ph')" by fastforce
  show ?thesis
  proof (cases "co_pending c = []")
    case True
    with assms(2) Coordinating kill_step.assembled [of w i a c jx Lease_left] show ?thesis by blast
  next
    case False
    have "distinct (map bt_selector (co_pending c))" using kill_invD(9) [OF assms] Coordinating by (simp add: coordination_ok_def)
    then have "round_label i ph' = Internal i" using round_effort(3) [OF r _ False] by simp
    with kill_step.round [OF _ False r, of i a jx] assms(2) Coordinating show ?thesis by auto
  qed
qed

text \<open>
  C28. Every activation comes to an end. Whatever the other threads do, an activation that is still
  running can take its next step (once its deadline has passed if it waits), and from the end of
  the drain on it takes at most two steps per target and three more.
\<close>

theorem activation_comes_to_an_end:
  assumes "kill_run jx (fresh_world d jo) ls0 w" and "at_phase w i a ph" and "kill_run jx w ls w'"
    and "Latched i \<notin> set ls" and "Restarted \<notin> set ls"
  shows "(kw_threads w' i = None \<or> (\<exists>w''. kill_step jx w' (Internal i) w''))
     \<and> (ph \<noteq> Draining \<longrightarrow> count_list ls (Internal i) \<le> effort ph)"
proof -
  have inv: "kill_inv w" by (rule kill_run_inv [OF assms(1) kill_inv_fresh])
  have inv': "kill_inv w'" by (rule kill_run_inv [OF assms(3) inv])
  have "past_draining i w' \<and> steps_left i w' + count_list ls (Internal i) \<le> steps_left i w" if "past_draining i w"
    using assms(3,4,5) that inv
  proof (induction rule: kill_run.induct)
    case (next_step w ls w' l w'')
    then have ih: "past_draining i w'" "steps_left i w' + count_list ls (Internal i) \<le> steps_left i w" by auto
    have "kill_inv w'" using kill_run_inv [OF next_step.hyps(1)] next_step.prems by simp
    from step_effort [OF next_step.hyps(2) this ih(1)] next_step.prems ih(2) show ?case by auto
  qed simp
  moreover have "past_draining i w \<and> steps_left i w = effort ph" if "ph \<noteq> Draining"
    using assms(2) that by (simp add: past_draining_def steps_left_def)
  moreover have "kw_threads w' i = None \<or> (\<exists>w''. kill_step jx w' (Internal i) w'')"
    using can_go_on [OF inv'] by (cases "kw_threads w' i") auto
  ultimately show ?thesis by fastforce
qed

subsection \<open>The latch\<close>

lemma merge_result_rest:
  "ks_active (fst (merge_result a r ow au ks)) = ks_active ks" "ks_journal (fst (merge_result a r ow au ks)) = ks_journal ks"
  by (auto simp: merge_result_def merge_outcomes_def Let_def split: sum.splits)

lemma reserve_round_rest:
  "ks_active (fst (reserve_round late ks c)) = ks_active ks" "ks_journal (fst (reserve_round late ks c)) = ks_journal ks"
  by (auto simp: reserve_round_def split: prod.splits)

text \<open>What keeps a switch latched: anything but a reset and a restart.\<close>

lemma step_keeps_active:
  assumes "kill_step jx w l w'" and "ks_active (kw_switch w)" and "l \<noteq> Reset_done" and "l \<noteq> Restarted"
  shows "ks_active (kw_switch w')" and "\<not> (\<exists>sel. l = Admitted sel)"
proof -
  have "ks_active (kw_switch w') \<and> \<not> (\<exists>sel. l = Admitted sel)"
    using assms
  proof (induction rule: kill_step.induct)
    case (admit env sel w ks u)
    with admit_write_counts(1) [OF admit(1)] show ?case by simp
  next
    case (refuse env sel w ks e)
    with admit_refused [OF refuse(1)] show ?case by (simp add: same_work_def)
  next
    case (round w i a c late ks ph)
    have "round_label i ph \<noteq> Admitted sel" for sel by (cases ph) auto
    with round reserve_round_rest(1) [of late "kw_switch w" c] show ?case by simp
  next
    case (merged w i a r owned auth ks res)
    with merge_result_rest(1) [of a r owned auth "kw_switch w"] show ?case by simp
  next
    case (reset_refused envs rc authorise w ks e)
    with reset_refused_work [OF reset_refused(1)] show ?case by (simp add: same_work_def)
  next
    case (latch w i env hash ensured rq ks a)
    with activate_latch_work(1) [OF latch(2)] show ?case by simp
  qed (simp_all add: leave_write_def bind_emergency_dispatcher_def)
  then show "ks_active (kw_switch w')" "\<not> (\<exists>sel. l = Admitted sel)" by auto
qed

text \<open>
  An active switch admits no normal write: from the latch on, over every interleaving with
  failing and working journals, no normal write is admitted until a reset succeeds or the process
  ends, and the switch stays active.
\<close>

theorem active_until_reset:
  assumes "kill_run jx w ls w'" and "ks_active (kw_switch w)" and "Reset_done \<notin> set ls" and "Restarted \<notin> set ls"
  shows "Admitted sel \<notin> set ls \<and> ks_active (kw_switch w')"
  using assms
proof (induction rule: kill_run.induct)
  case (next_step w ls w' l w'')
  then have ih: "Admitted sel \<notin> set ls" "ks_active (kw_switch w')" by auto
  have "l \<noteq> Reset_done" "l \<noteq> Restarted" using next_step.prems by auto
  from step_keeps_active [OF next_step.hyps(2) ih(2) this] ih(1) show ?case by auto
qed simp

subsection \<open>Durable latches\<close>

lemma activate_latch_journal:
  assumes "activate_latch jx env hash ensured rq ks = (ks', a)" and "ks_journal ks = Some j" and "jx env (Activate (l5_request hash)) j = (j', Inr r)"
  shows "ks_journal ks' = Some j'"
  using assms by (auto simp: activate_latch_def Let_def)

text \<open>A world whose journal holds the episode of the kill switch, in any implementation of the journal.\<close>

abbreviation l5_place :: "string \<times> string" where
  "l5_place \<equiv> (''l5'', ''*'')"

definition external_reset :: "kill_label \<Rightarrow> bool" where
  "external_reset l = (case l of Journal_called c \<Rightarrow> resets l5_place c | _ \<Rightarrow> False)"

definition resetting :: "kill_label \<Rightarrow> bool" where
  "resetting l \<longleftrightarrow> l = Reset_done \<or> l = Reset_refused \<or> external_reset l"

context intent_journal
begin

definition holds_l5 :: "'s kill_switch \<Rightarrow> bool" where
  "holds_l5 ks \<longleftrightarrow> (\<exists>j. ks_journal ks = Some j \<and> good j \<and> l5_place \<in> episode_place ` set (jv_episodes (view j)))"

lemma holds_after_call:
  assumes "good j" and "l5_place \<in> episode_place ` set (jv_episodes (view j))" and "\<not> resets l5_place c" and "exec env c j = (j', r)"
  shows "good j' \<and> l5_place \<in> episode_place ` set (jv_episodes (view j'))"
  using good_exec [OF assms(1), of env c] place_kept [OF assms(1-3), of env] assms(4) by simp

lemma blocking_answer:
  assumes "good j" and "l5_place \<in> episode_place ` set (jv_episodes (view j))" and "exec env (BlockingSources sel) j = (j', Inr r)"
  shows "''l5'' \<in> reply_sources r"
proof -
  have "(view j', Inr r) = spec_exec (numbers j) (BlockingSources sel) (view j)"
    using answer [OF assms(1), of "BlockingSources sel" env] assms(3) by simp
  then have "r = SourcesReply (blocking_in sel (jv_episodes (view j)))" by (auto split: if_splits)
  with assms(2) show ?thesis by (force simp: blocking_in_def episode_place_def)
qed

lemma active_answer:
  assumes "good j" and "l5_place \<in> episode_place ` set (jv_episodes (view j))" and "exec env (ActiveEpisodes (Some ''l5'')) j = (j', Inr r)"
  shows "reply_episodes r \<noteq> []"
proof -
  have "(view j', Inr r) = spec_exec (numbers j) (ActiveEpisodes (Some ''l5'')) (view j)"
    using answer [OF assms(1), of "ActiveEpisodes (Some ''l5'')" env] assms(3) by simp
  with assms(2) show ?thesis by (force simp: episode_place_def filter_empty_conv)
qed

lemma admit_holds:
  assumes "holds_l5 ks" and "admit_write exec env sel ks = (ks', r)"
  shows "holds_l5 ks'" and "isl r"
proof -
  obtain j where j: "ks_journal ks = Some j" "good j" "l5_place \<in> episode_place ` set (jv_episodes (view j))" using assms(1) by (auto simp: holds_l5_def)
  obtain j' q where q: "exec env (BlockingSources sel) j = (j', q)" by fastforce
  have j': "good j'" "l5_place \<in> episode_place ` set (jv_episodes (view j'))"
    using holds_after_call [OF j(2,3) _ q] by (simp_all add: resets_def)
  have blocked: "''l5'' \<in> reply_sources x" if "q = Inr x" for x using blocking_answer [OF j(2,3)] q that by blast
  from assms(2) j(1) q blocked j' show "holds_l5 ks'" "isl r"
    by (auto simp: admit_write_def count_write_def restored_def holds_l5_def Let_def split: sum.splits if_splits)
qed

lemma restart_holds:
  assumes "holds_l5 ks" and "bind_emergency_journal exec env (ks_journal ks) (new_switch d) = (ks', Inr u)"
  shows "holds_l5 ks' \<and> ks_active ks'"
proof -
  obtain j where j: "ks_journal ks = Some j" "good j" "l5_place \<in> episode_place ` set (jv_episodes (view j))" using assms(1) by (auto simp: holds_l5_def)
  obtain j' q where q: "exec env (ActiveEpisodes (Some ''l5'')) j = (j', q)" by fastforce
  have j': "good j'" "l5_place \<in> episode_place ` set (jv_episodes (view j'))"
    using holds_after_call [OF j(2,3) _ q] by (simp_all add: resets_def)
  have "reply_episodes x \<noteq> []" if "q = Inr x" for x using active_answer [OF j(2,3)] q that by blast
  with assms(2) j(1) q j' show ?thesis
    by (auto simp: bind_emergency_journal_def restored_def holds_l5_def Let_def split: sum.splits)
qed

lemma latch_holds:
  assumes "holds_l5 ks" and "activate_latch exec env hash ensured rq ks = (ks', a)"
  shows "holds_l5 ks'"
proof -
  obtain j where j: "ks_journal ks = Some j" "good j" "l5_place \<in> episode_place ` set (jv_episodes (view j))" using assms(1) by (auto simp: holds_l5_def)
  obtain j' q where q: "exec env (Activate (l5_request hash)) j = (j', q)" by fastforce
  have "good j'" "l5_place \<in> episode_place ` set (jv_episodes (view j'))"
    using holds_after_call [OF j(2,3) _ q] by (simp_all add: resets_def)
  with assms(2) j(1) q show ?thesis by (auto simp: activate_latch_def holds_l5_def Let_def split: sum.splits option.splits)
qed

lemma holds_step:
  assumes "kill_step exec w l w'" and "holds_l5 (kw_switch w)" and "\<not> resetting l"
  shows "holds_l5 (kw_switch w') \<and> \<not> (\<exists>sel. l = Admitted sel)"
  using assms
proof (induction rule: kill_step.induct)
  case (admit env sel w ks u)
  with admit_holds [OF _ admit(1)] show ?case by auto
next
  case (refuse env sel w ks e)
  with admit_holds [OF _ refuse(1)] show ?case by auto
next
  case (latch w i env hash ensured rq ks a)
  with latch_holds [OF _ latch(2)] show ?case by simp
next
  case (round w i a c late ks ph)
  have "ks_journal ks = ks_journal (kw_switch w)" using round(3) reserve_round_rest(2) [of late "kw_switch w" c] by simp
  moreover have "round_label i ph \<noteq> Admitted sel" for sel by (cases ph) auto
  ultimately show ?case using round(4) by (simp add: holds_l5_def)
next
  case (merged w i a r owned auth ks res)
  have "ks_journal ks = ks_journal (kw_switch w)" using merged(2) merge_result_rest(2) [of a r owned auth "kw_switch w"] by simp
  then show ?case using merged(3) by (simp add: holds_l5_def)
next
  case (journal w j c env)
  have "\<not> resets l5_place c" using journal(3) by (simp add: resetting_def external_reset_def)
  with journal(1,2) holds_after_call [of j c env "fst (exec env c j)" "snd (exec env c j)"] show ?case by (auto simp: holds_l5_def)
next
  case (restart env w d ks u)
  with restart_holds [OF _ restart(1)] show ?case by simp
qed (auto simp: resetting_def holds_l5_def leave_write_def bind_emergency_dispatcher_def)

lemma holds_run:
  assumes "kill_run exec w ls w'" and "holds_l5 (kw_switch w)" and "list_all (\<lambda>l. \<not> resetting l) ls"
  shows "holds_l5 (kw_switch w') \<and> Admitted sel \<notin> set ls"
  using assms
proof (induction rule: kill_run.induct)
  case (next_step w ls w' l w'')
  then have ih: "holds_l5 (kw_switch w')" "Admitted sel \<notin> set ls" by auto
  with holds_step [OF next_step.hyps(2) ih(1)] next_step.prems show ?case by auto
qed simp

end

text \<open>
  C26. The latch survives the process. Once an activation has stored its episode in the SQLite journal,
  no normal write is admitted in any later interleaving, with storage failures before and after
  commits and with restarts of the process, until somebody tries to reset the switch or the
  episode.
\<close>

theorem durable_latch_blocks_writes:
  assumes "ks_journal (kw_switch w) = Some (stored xs)" and "snd (sql_exec env (Activate (l5_request hash)) (stored xs)) = Inr (EpisodeReply e new)"
    and "activate_latch sql_exec env hash ensured rq (kw_switch w) = (ks, a)" and "kw_threads w i = None"
    and "kill_run sql_exec (w\<lparr>kw_switch := ks, kw_threads := (kw_threads w)(i \<mapsto> (a, Draining))\<rparr>) ls w'"
    and "list_all (\<lambda>l. \<not> resetting l) ls"
  shows "Admitted sel \<notin> set ls"
proof -
  let ?db = "fst (sql_exec env (Activate (l5_request hash)) (stored xs))"
  have "l5_place \<in> episode_place ` set (jv_episodes (sql_view ?db))"
    using activated_place [OF sql_good_stored assms(2)] by (simp add: l5_request_def)
  moreover have "ks_journal ks = Some ?db"
    by (rule activate_latch_journal [OF assms(3,1), of _ "EpisodeReply e new"]) (simp add: prod_eq_iff assms(2) del: sql_exec.simps)
  moreover have "sql_good ?db" by (rule sql_good_exec [OF sql_good_stored])
  ultimately have "sql.holds_l5 ks" by (auto simp: sql.holds_l5_def)
  with sql.holds_run [OF assms(5) _ assms(6)] show ?thesis by simp
qed

subsection \<open>Two ways in which a reset goes wrong\<close>

definition idle_latched :: "journal_db kill_switch" where
  "idle_latched =
     (case activate_latch sql_exec demo_env zeros False \<lparr>rq_reason = ''stop'', rq_dispatcher = None, rq_replace_scope = True, rq_prepared_targets = None\<rparr>
        ((new_switch None)\<lparr>ks_journal := Some sql_new\<rparr>) of
        (ks, a) \<Rightarrow> fst (merge_result a (failed_result L5_EMERGENCY_POLICY ''dispatcher_unavailable'' False []) [] None ks))"

text \<open>
  A reset whose storage fails after the commit is refused, but the durable episode is gone: from
  then on every reset of the process is refused because the episode is missing.
\<close>

lemma reset_stuck_after_commit_failure:
  "let r = reset_switch sql_exec (demo_env, demo_env\<lparr>se_storage := Fails_after\<rparr>) False None idle_latched
   in snd r = Inl JournalUnavailable \<and> ks_active (fst r) \<and> snd (reset_switch sql_exec (demo_env, demo_env) False None (fst r)) = Inl EpisodeMissing"
  by code_simp

text \<open>
  \<open>reset\<close> keeps the last result, so the next checked reset accepts it for an episode that another
  process has opened and that this process has never swept.
\<close>

definition stale_result :: "journal_db kill_switch" where
  "stale_result = (new_switch None)\<lparr>ks_journal := Some (fst (sql_exec demo_env (Activate (l5_request zeros)) sql_new)),
     ks_last := Some \<lparr>dr_policy = L5_EMERGENCY_POLICY, dr_outcomes = map (\<lambda>v. \<lparr>vo_verb = v, vo_succeeded = True, vo_attempted = True,
       vo_failure_code = [], vo_selector = ''zerodha:AB1''\<rparr>) (wp_verbs L5_EMERGENCY_POLICY)\<rparr>\<rparr>"

lemma stale_result_allows_reset:
  "let r = admit_write sql_exec demo_env ''zerodha:AB1'' stale_result
   in snd r = Inl KillSwitchActive \<and> snd (reset_switch sql_exec (demo_env, demo_env) True None (fst r)) = Inr ()"
  by code_simp

subsection \<open>Witnesses\<close>

definition demo_target :: "string \<Rightarrow> broker_target" where
  "demo_target account = \<lparr>bt_selector = ''zerodha:'' @ account, bt_mode = ''live'', bt_jti = ''j'', bt_actor_id = ''op'',
     bt_adapter_id = ''zerodha'', bt_account_id = account\<rparr>"

definition demo_latch :: "nat \<Rightarrow> broker_target list \<Rightarrow> journal_db kill_world \<Rightarrow> journal_db kill_world" where
  "demo_latch i ts w =
     (let r = activate_latch sql_exec demo_env zeros False
          \<lparr>rq_reason = ''stop'', rq_dispatcher = Some Prepared_dispatcher, rq_replace_scope = True, rq_prepared_targets = Some ts\<rparr> (kw_switch w)
      in w\<lparr>kw_switch := fst r, kw_threads := (kw_threads w)(i \<mapsto> (snd r, Draining))\<rparr>)"

definition demo_drain :: "nat \<Rightarrow> journal_db kill_world \<Rightarrow> journal_db kill_world" where
  "demo_drain i w = (case kw_threads w i of Some (a, ph) \<Rightarrow> to_phase i a (begin_dispatch a True Not_targets) w | None \<Rightarrow> w)"

definition demo_round :: "nat \<Rightarrow> journal_db kill_world \<Rightarrow> journal_db kill_world" where
  "demo_round i w = (case kw_threads w i of
     Some (a, Coordinating c) \<Rightarrow> to_phase i a (snd (reserve_round False (kw_switch w) c)) (w\<lparr>kw_switch := fst (reserve_round False (kw_switch w) c)\<rparr>)
   | _ \<Rightarrow> w)"

lemma demo_latch_step: "kw_threads w i = None \<Longrightarrow> kill_step sql_exec w (Latched i) (demo_latch i ts w)"
  unfolding demo_latch_def Let_def by (rule kill_step.latch) simp_all

lemma demo_drain_step:
  assumes "case kw_threads w i of Some (a, Draining) \<Rightarrow> True | _ \<Rightarrow> False" and "ks_writes (kw_switch w) = 0"
  shows "kill_step sql_exec w (Internal i) (demo_drain i w)"
proof -
  obtain a ph where ph: "at_phase w i a ph" using assms(1) by (cases "kw_threads w i") auto
  with assms(1) have "at_phase w i a Draining" by (cases ph) auto
  with kill_step.drained [OF this assms(2)] show ?thesis by (simp add: demo_drain_def)
qed

lemma demo_round_step:
  assumes "case kw_threads w i of Some (a, Coordinating c) \<Rightarrow> co_pending c \<noteq> [] | _ \<Rightarrow> False"
  shows "\<exists>l. kill_step sql_exec w l (demo_round i w)"
proof -
  obtain a ph where ph: "at_phase w i a ph" using assms by (cases "kw_threads w i") auto
  with assms obtain c where c: "at_phase w i a (Coordinating c)" "co_pending c \<noteq> []" by (cases ph) auto
  from kill_step.round [OF c, of False "fst (reserve_round False (kw_switch w) c)" "snd (reserve_round False (kw_switch w) c)"]
  show ?thesis by (auto simp: demo_round_def c(1))
qed

definition demo_start :: "journal_db kill_world" where
  "demo_start = fresh_world None (Some sql_new)"

definition demo_two :: "journal_db kill_world" where
  "demo_two = demo_latch 1 [demo_target ''AB2''] (demo_latch 0 [demo_target ''AB1''] demo_start)"

definition demo_sweeps :: "journal_db kill_world" where
  "demo_sweeps = demo_round 1 (demo_round 0 (demo_drain 1 (demo_drain 0 demo_two)))"

lemma demo_two_run: "\<exists>ls. kill_run sql_exec (fresh_world None (Some sql_new)) ls demo_two"
proof -
  have "kill_step sql_exec demo_start (Latched 0) (demo_latch 0 [demo_target ''AB1''] demo_start)"
    by (rule demo_latch_step) (simp add: demo_start_def fresh_world_def)
  moreover have "kill_step sql_exec (demo_latch 0 [demo_target ''AB1''] demo_start) (Latched 1) demo_two"
    unfolding demo_two_def by (rule demo_latch_step) (simp add: demo_start_def fresh_world_def demo_latch_def Let_def)
  ultimately show ?thesis unfolding demo_start_def using kill_run.intros by blast
qed

lemma demo_sweeps_run: "\<exists>ls. kill_run sql_exec (fresh_world None (Some sql_new)) ls demo_sweeps"
proof -
  have "kill_step sql_exec demo_two (Internal 0) (demo_drain 0 demo_two)" by (rule demo_drain_step) code_simp+
  moreover have "kill_step sql_exec (demo_drain 0 demo_two) (Internal 1) (demo_drain 1 (demo_drain 0 demo_two))" by (rule demo_drain_step) code_simp+
  moreover have "\<exists>l. kill_step sql_exec (demo_drain 1 (demo_drain 0 demo_two)) l (demo_round 0 (demo_drain 1 (demo_drain 0 demo_two)))"
    by (rule demo_round_step) code_simp
  moreover have "\<exists>l. kill_step sql_exec (demo_round 0 (demo_drain 1 (demo_drain 0 demo_two))) l demo_sweeps"
    unfolding demo_sweeps_def by (rule demo_round_step) code_simp
  ultimately show ?thesis using demo_two_run kill_run.next_step by meson
qed

lemma at_some_phase: "(case kw_threads w i of None \<Rightarrow> False | Some (a, ph) \<Rightarrow> P ph) \<Longrightarrow> \<exists>a ph. at_phase w i a ph \<and> P ph"
  by (auto split: option.splits)

lemma is_sweeping: "(case ph of Sweeping c ts \<Rightarrow> P c ts | _ \<Rightarrow> False) \<Longrightarrow> \<exists>c ts. ph = Sweeping c ts \<and> P c ts"
  by (cases ph) auto

lemma is_merging: "(case ph of Merging r ow au \<Rightarrow> True | _ \<Rightarrow> False) \<Longrightarrow> \<exists>r ow au. ph = Merging r ow au"
  by (cases ph) auto

lemma demo_sweeps_phases:
  "\<exists>a b c e. at_phase demo_sweeps 0 a (Sweeping c [demo_target ''AB1'']) \<and> at_phase demo_sweeps 1 b (Sweeping e [demo_target ''AB2''])"
proof -
  have "case kw_threads demo_sweeps 0 of None \<Rightarrow> False
      | Some (a, ph) \<Rightarrow> (case ph of Sweeping c ts \<Rightarrow> ts = [demo_target ''AB1''] | _ \<Rightarrow> False)" by code_simp
  moreover have "case kw_threads demo_sweeps 1 of None \<Rightarrow> False
      | Some (a, ph) \<Rightarrow> (case ph of Sweeping c ts \<Rightarrow> ts = [demo_target ''AB2''] | _ \<Rightarrow> False)" by code_simp
  ultimately show ?thesis by (blast dest: at_some_phase is_sweeping)
qed

theorem sweeps_exclude_writes_witness:
  "kw_writes demo_sweeps = [] \<and> ks_active (kw_switch demo_sweeps)
   \<and> snd (reset_switch sql_exec (demo_env, demo_env) False None (kw_switch demo_sweeps)) = Inl WorkInProgress"
proof -
  obtain ls where run: "kill_run sql_exec (fresh_world None (Some sql_new)) ls demo_sweeps" using demo_sweeps_run by blast
  obtain a c where ph: "at_phase demo_sweeps 0 a (Sweeping c [demo_target ''AB1''])" using demo_sweeps_phases by blast
  show ?thesis by (rule sweeps_exclude_writes [OF run ph]) simp
qed

theorem one_sweep_per_account_witness:
  "\<exists>a b c e ts us. at_phase demo_sweeps 0 a (Sweeping c ts) \<and> at_phase demo_sweeps 1 b (Sweeping e us) \<and> ts \<noteq> []
     \<and> bt_selector ` set ts \<inter> bt_selector ` set us = {}"
proof -
  obtain ls where run: "kill_run sql_exec (fresh_world None (Some sql_new)) ls demo_sweeps" using demo_sweeps_run by blast
  obtain a b c e where ph: "at_phase demo_sweeps 0 a (Sweeping c [demo_target ''AB1''])" "at_phase demo_sweeps 1 b (Sweeping e [demo_target ''AB2''])"
    using demo_sweeps_phases by blast
  have "0 \<noteq> (1 :: nat)" by simp
  from one_sweep_per_account [OF run ph this] have "bt_selector ` set [demo_target ''AB1''] \<inter> bt_selector ` set [demo_target ''AB2''] = {}" ..
  then show ?thesis using ph by (intro exI conjI) (assumption | simp)+
qed

definition demo_answer :: dispatch_answer where
  "demo_answer = Answer_result \<lparr>dr_policy = L5_EMERGENCY_POLICY, dr_outcomes = map (\<lambda>v. \<lparr>vo_verb = v, vo_succeeded = True, vo_attempted = True,
     vo_failure_code = [], vo_selector = ''zerodha:AB1''\<rparr>) (wp_verbs L5_EMERGENCY_POLICY)\<rparr>"

definition demo_swept :: "journal_db kill_world" where
  "demo_swept = (let w = demo_round 0 (demo_drain 0 (demo_latch 0 [demo_target ''AB1''] demo_start))
     in case kw_threads w 0 of
          Some (a, Sweeping c ts) \<Rightarrow> to_phase 0 a (finish_coordination Lease_left (take_answer demo_answer ts c)) w
        | _ \<Rightarrow> w)"

definition demo_done :: "journal_db kill_world" where
  "demo_done = (case kw_threads demo_swept 0 of
     Some (a, Merging r owned auth) \<Rightarrow>
       demo_swept\<lparr>kw_switch := fst (merge_result a r owned auth (kw_switch demo_swept)), kw_threads := (kw_threads demo_swept)(0 := None)\<rparr>
   | _ \<Rightarrow> demo_swept)"

lemma demo_swept_run: "\<exists>ls. kill_run sql_exec (fresh_world None (Some sql_new)) ls demo_swept"
proof -
  let ?w1 = "demo_latch 0 [demo_target ''AB1''] demo_start"
  let ?w3 = "demo_round 0 (demo_drain 0 ?w1)"
  have 1: "kill_step sql_exec demo_start (Latched 0) ?w1" by (rule demo_latch_step) (simp add: demo_start_def fresh_world_def)
  have 2: "kill_step sql_exec ?w1 (Internal 0) (demo_drain 0 ?w1)" by (rule demo_drain_step) code_simp+
  have 3: "\<exists>l. kill_step sql_exec (demo_drain 0 ?w1) l ?w3" by (rule demo_round_step) code_simp
  have "case kw_threads ?w3 0 of None \<Rightarrow> False
      | Some (a, ph) \<Rightarrow> (case ph of Sweeping c ts \<Rightarrow> co_pending (take_answer demo_answer ts c) = [] | _ \<Rightarrow> False)" by code_simp
  then obtain a c ts where ph: "at_phase ?w3 0 a (Sweeping c ts)" "co_pending (take_answer demo_answer ts c) = []"
    by (blast dest: at_some_phase is_sweeping)
  have "answer_valid demo_answer" by code_simp
  note 4 = kill_step.swept [OF ph(1) this, of sql_exec]
  have 5: "kill_step sql_exec (to_phase 0 a (Coordinating (take_answer demo_answer ts c)) ?w3) (Internal 0) demo_swept"
    using kill_step.assembled [of "to_phase 0 a (Coordinating (take_answer demo_answer ts c)) ?w3" 0 a "take_answer demo_answer ts c" sql_exec Lease_left] ph
    by (simp add: demo_swept_def Let_def)
  from kill_run.start [of sql_exec demo_start] 1 2 3 4 5 show ?thesis unfolding demo_start_def using kill_run.next_step by meson
qed

lemma demo_swept_phase: "\<exists>a r ow au. at_phase demo_swept 0 a (Merging r ow au)"
proof -
  have "case kw_threads demo_swept 0 of None \<Rightarrow> False | Some (a, ph) \<Rightarrow> (case ph of Merging r ow au \<Rightarrow> True | _ \<Rightarrow> False)" by code_simp
  then show ?thesis by (blast dest: at_some_phase is_merging)
qed

theorem activation_is_well_typed_witness:
  "\<exists>a r ow au ks x. at_phase demo_swept 0 a (Merging r ow au) \<and> merge_result a r ow au (kw_switch demo_swept) = (ks, Inr x) \<and> result_valid x"
proof -
  obtain ls where run: "kill_run sql_exec (fresh_world None (Some sql_new)) ls demo_swept" using demo_swept_run by blast
  obtain a r ow au where ph: "at_phase demo_swept 0 a (Merging r ow au)" using demo_swept_phase by blast
  from activation_is_well_typed [OF run ph] ph show ?thesis by auto
qed

theorem activation_comes_to_an_end_witness:
  "\<exists>a r ow au. at_phase demo_swept 0 a (Merging r ow au) \<and> (kw_threads demo_swept 0 = None \<or> (\<exists>w. kill_step sql_exec demo_swept (Internal 0) w))"
proof -
  obtain ls where run: "kill_run sql_exec (fresh_world None (Some sql_new)) ls demo_swept" using demo_swept_run by blast
  obtain a r ow au where ph: "at_phase demo_swept 0 a (Merging r ow au)" using demo_swept_phase by blast
  have "Latched 0 \<notin> set []" "Restarted \<notin> set []" by simp_all
  from activation_comes_to_an_end [OF run ph kill_run.start this] ph show ?thesis by blast
qed

theorem reset_needs_completion_witness:
  "kw_writes demo_done = [] \<and> (\<exists>r. ks_last (kw_switch demo_done) = Some r \<and> result_complete r)"
proof -
  obtain ls where run: "kill_run sql_exec (fresh_world None (Some sql_new)) ls demo_swept" using demo_swept_run by blast
  obtain a r ow au where ph: "at_phase demo_swept 0 a (Merging r ow au)" using demo_swept_phase by blast
  obtain ks res where m: "merge_result a r ow au (kw_switch demo_swept) = (ks, res)" by fastforce
  have "demo_done = demo_swept\<lparr>kw_switch := ks, kw_threads := (kw_threads demo_swept)(0 := None)\<rparr>" using ph m by (simp add: demo_done_def)
  with kill_run.next_step [OF run kill_step.merged [OF ph m]] obtain ls' where run': "kill_run sql_exec (fresh_world None (Some sql_new)) ls' demo_done" by auto
  have act: "ks_active (kw_switch demo_done)" by code_simp
  have "\<not> isl (snd (reset_switch sql_exec (demo_env, demo_env) True None (kw_switch demo_done)))" by code_simp
  moreover obtain ks' q where q: "reset_switch sql_exec (demo_env, demo_env) True None (kw_switch demo_done) = (ks', q)" by fastforce
  ultimately have re: "reset_switch sql_exec (demo_env, demo_env) True None (kw_switch demo_done) = (ks', Inr ())" by (cases q) auto
  from reset_needs_completion [OF run' act re] show ?thesis by simp
qed

theorem active_until_reset_witness:
  "ks_active (kw_switch demo_two)
   \<and> (\<exists>w. kill_step sql_exec demo_two (Refused ''zerodha:AB1'') w \<and> ks_active (kw_switch w))"
proof -
  have act: "ks_active (kw_switch demo_two)" by code_simp
  obtain ks r where ad: "admit_write sql_exec demo_env ''zerodha:AB1'' (kw_switch demo_two) = (ks, r)" by fastforce
  have "isl (snd (admit_write sql_exec demo_env ''zerodha:AB1'' (kw_switch demo_two)))" by code_simp
  then obtain e where e: "r = Inl e" using ad by (cases r) auto
  have step: "kill_step sql_exec demo_two (Refused ''zerodha:AB1'') (demo_two\<lparr>kw_switch := ks\<rparr>)" using kill_step.refuse [of sql_exec demo_env _ demo_two ks e] ad e by simp
  have run: "kill_run sql_exec demo_two ([] @ [Refused ''zerodha:AB1'']) (demo_two\<lparr>kw_switch := ks\<rparr>)"
    by (rule kill_run.next_step [OF kill_run.start step])
  have "Reset_done \<notin> set ([] @ [Refused ''zerodha:AB1''])" "Restarted \<notin> set ([] @ [Refused ''zerodha:AB1''])" by simp_all
  from active_until_reset [OF run act this] act step show ?thesis by auto
qed

theorem durable_latch_blocks_writes_witness:
  "\<exists>w. kill_step sql_exec (demo_latch 0 [demo_target ''AB1''] demo_start) Restarted w \<and> Admitted ''zerodha:AB1'' \<notin> set [Restarted]"
proof -
  let ?rq = "\<lparr>rq_reason = ''stop'', rq_dispatcher = Some Prepared_dispatcher, rq_replace_scope = True, rq_prepared_targets = Some [demo_target ''AB1'']\<rparr>"
  let ?act = "activate_latch sql_exec demo_env zeros False ?rq (kw_switch demo_start)"
  have w: "demo_latch 0 [demo_target ''AB1''] demo_start = demo_start\<lparr>kw_switch := fst ?act, kw_threads := (kw_threads demo_start)(0 \<mapsto> (snd ?act, Draining))\<rparr>"
    by (simp add: demo_latch_def Let_def)
  obtain ks r where b: "bind_emergency_journal sql_exec demo_env (ks_journal (kw_switch (demo_latch 0 [demo_target ''AB1''] demo_start))) (new_switch None) = (ks, r)" by fastforce
  have "\<not> isl (snd (bind_emergency_journal sql_exec demo_env (ks_journal (kw_switch (demo_latch 0 [demo_target ''AB1''] demo_start))) (new_switch None)))"
    by code_simp
  then have "r = Inr ()" using b by (cases r) auto
  then have step: "kill_step sql_exec (demo_latch 0 [demo_target ''AB1''] demo_start) Restarted \<lparr>kw_switch = ks, kw_writes = [], kw_threads = Map.empty\<rparr>"
    using kill_step.restart [of sql_exec demo_env "demo_latch 0 [demo_target ''AB1''] demo_start" None ks "()"] b by simp
  have j: "ks_journal (kw_switch demo_start) = Some (stored [])" by (simp add: demo_start_def fresh_world_def stored_def)
  have "\<not> isl (snd (sql_exec demo_env (Activate (l5_request zeros)) (stored [])))" by code_simp
  moreover have "case snd (sql_exec demo_env (Activate (l5_request zeros)) (stored [])) of Inr (EpisodeReply e new) \<Rightarrow> True | _ \<Rightarrow> False" by code_simp
  ultimately obtain e new where rep: "snd (sql_exec demo_env (Activate (l5_request zeros)) (stored [])) = Inr (EpisodeReply e new)"
    by (auto split: sum.splits journal_reply.splits)
  have "kw_threads demo_start 0 = None" by (simp add: demo_start_def fresh_world_def)
  have run: "kill_run sql_exec (demo_start\<lparr>kw_switch := fst ?act, kw_threads := (kw_threads demo_start)(0 \<mapsto> (snd ?act, Draining))\<rparr>) ([] @ [Restarted])
      \<lparr>kw_switch = ks, kw_writes = [], kw_threads = Map.empty\<rparr>"
    using kill_run.next_step [OF kill_run.start step] by (simp only: w)
  have "list_all (\<lambda>l. \<not> resetting l) ([] @ [Restarted])" by (simp add: resetting_def external_reset_def)
  from durable_latch_blocks_writes [OF j rep _ \<open>kw_threads demo_start 0 = None\<close> run this, of False ?rq] step show ?thesis by auto
qed

end
