(* ===== verification/Mtm_Breaker.thy ===== *)
theory Mtm_Breaker
  imports Kill_Switch Memory_Journal Py_Floats
begin

text \<open>
  The account-level loss breaker, \<open>safety.MTMCircuitBreaker\<close>. It latches an account whose daily profit
  is at or below a limit, refuses its normal writes, waits for those in flight, flattens the account
  through the dispatcher, and is lifted by a reset or by the next trading session. The journal is any
  implementation of the protocol, given by its \<open>exec\<close> function. Everything under the condition
  variable is one step, and a reset takes its step when its wait ends. The session date, the digest of
  the reason, what the dispatcher answers and whether a deadline has passed are arguments. A check
  whose task is cancelled is not modelled.
\<close>

subsection \<open>The breaker\<close>

datatype mtm_error =
    Session_unavailable
  | Mtm_journal_unavailable
  | Mtm_journal_raised journal_error
  | Selector_refused scope_error
  | Selector_not_canonical
  | Mtm_active string
  | Mtm_state_changed
  | Mtm_work_in_progress
  | Mtm_timeout_negative

record 'j mtm_breaker =
  mb_limit :: fnum
  mb_dispatcher :: bool
  mb_journal :: "'j option"
  mb_triggered :: bool
  mb_selectors :: "string list"
  mb_session_keys :: "(string \<times> string) list"
  mb_episodes :: "(string \<times> episode) list"
  mb_dispatching :: "(string \<times> int) list"
  mb_writes :: "(string \<times> int) list"
  mb_generation :: int
  mb_last :: "dispatch_result option"

definition new_breaker :: "fnum \<Rightarrow> bool \<Rightarrow> fnum \<Rightarrow> mtm_error + 'j mtm_breaker" where
  "new_breaker limit d drain_timeout =
     (if f_less drain_timeout (Fin 0) then Inl Mtm_timeout_negative
      else Inr \<lparr>mb_limit = limit, mb_dispatcher = d, mb_journal = None, mb_triggered = False, mb_selectors = [], mb_session_keys = [], mb_episodes = [],
             mb_dispatching = [], mb_writes = [], mb_generation = 0, mb_last = None\<rparr>)"

definition mtm_bind_dispatcher :: "bool \<Rightarrow> 'j mtm_breaker \<Rightarrow> 'j mtm_breaker" where
  "mtm_bind_dispatcher d b = b\<lparr>mb_dispatcher := d\<rparr>"

text \<open>\<open>None\<close> when the provider of the session date raises.\<close>

definition current_session_key :: "string option \<Rightarrow> mtm_error + string" where
  "current_session_key k =
     (case k of None \<Rightarrow> Inl Session_unavailable | Some s \<Rightarrow> if iso_date s = None then Inl Session_unavailable else Inr s)"

definition is_prior_session :: "string \<Rightarrow> string \<Rightarrow> bool" where
  "is_prior_session s c = (case (iso_date s, iso_date c) of (Some a, Some b) \<Rightarrow> a < b | _ \<Rightarrow> False)"

fun drop_prior :: "('env, 'j) journal_exec \<Rightarrow> 'env \<Rightarrow> string \<Rightarrow> episode list \<Rightarrow> 'j \<Rightarrow> ('j, journal_error, unit) outcome" where
  "drop_prior jx env c [] j = (j, Inr ())"
| "drop_prior jx env c (e # es) j =
     (if \<not> is_prior_session (ep_session_key e) c then drop_prior jx env c es j
      else (case jx env (Deactivate [e]) j of
              (j, Inl (EmergencyIntentConflict why)) \<Rightarrow> drop_prior jx env c es j
            | (j, Inl x) \<Rightarrow> (j, Inl x)
            | (j, Inr _) \<Rightarrow> drop_prior jx env c es j))"

definition mtm_adopt :: "episode list \<Rightarrow> 'j option \<Rightarrow> 'j mtm_breaker \<Rightarrow> 'j mtm_breaker" where
  "mtm_adopt es jo b =
     b\<lparr>mb_journal := jo, mb_selectors := remdups (map ep_selector es),
       mb_session_keys := fold (\<lambda>e. AList.update (ep_selector e) (ep_session_key e)) es [],
       mb_episodes := fold (\<lambda>e. AList.update (ep_selector e) e) es [], mb_triggered := (es \<noteq> [])\<rparr>"

text \<open>When binding fails the breaker keeps what it had.\<close>

definition mtm_bind_journal :: "('env, 'j) journal_exec \<Rightarrow> 'env \<times> 'env \<times> 'env \<Rightarrow> string option \<Rightarrow> 'j option \<Rightarrow> 'j mtm_breaker
    \<Rightarrow> ('j mtm_breaker, mtm_error, unit) outcome" where
  "mtm_bind_journal jx envs k jo b =
     (case jo of
        None \<Rightarrow> (case current_session_key k of Inl e \<Rightarrow> (b, Inl e) | Inr c \<Rightarrow> (mtm_adopt [] None b, Inr ()))
      | Some j \<Rightarrow>
          (case jx (fst envs) (ActiveEpisodes (Some ''mtm'')) j of
             (j, Inl e) \<Rightarrow> (b, Inl (Mtm_journal_raised e))
           | (j, Inr r) \<Rightarrow>
               (case current_session_key k of
                  Inl e \<Rightarrow> (b, Inl e)
                | Inr c \<Rightarrow>
                    (case drop_prior jx (fst (snd envs)) c (reply_episodes r) j of
                       (j, Inl e) \<Rightarrow> (b, Inl (Mtm_journal_raised e))
                     | (j, Inr _) \<Rightarrow>
                         (case jx (snd (snd envs)) (ActiveEpisodes (Some ''mtm'')) j of
                            (j, Inl e) \<Rightarrow> (b, Inl (Mtm_journal_raised e))
                          | (j, Inr r) \<Rightarrow> (mtm_adopt (reply_episodes r) (Some j) b, Inr ()))))))"

subsection \<open>The next session\<close>

definition writes_of :: "'j mtm_breaker \<Rightarrow> string \<Rightarrow> int" where
  "writes_of b sel = (case map_of (mb_writes b) sel of None \<Rightarrow> 0 | Some n \<Rightarrow> n)"

definition unlatch :: "string \<Rightarrow> 'j mtm_breaker \<Rightarrow> 'j mtm_breaker" where
  "unlatch sel b =
     (let S = filter (\<lambda>s. s \<noteq> sel) (mb_selectors b)
      in b\<lparr>mb_selectors := S, mb_session_keys := AList.delete sel (mb_session_keys b), mb_episodes := AList.delete sel (mb_episodes b), mb_triggered := (S \<noteq> [])\<rparr>)"

definition roll_over :: "('env, 'j) journal_exec \<Rightarrow> 'env \<Rightarrow> string option \<Rightarrow> string \<Rightarrow> 'j mtm_breaker \<Rightarrow> ('j mtm_breaker, mtm_error, unit) outcome" where
  "roll_over jx env k sel b =
     (case map_of (mb_session_keys b) sel of
        None \<Rightarrow> (b, Inr ())
      | Some s \<Rightarrow>
          (case current_session_key k of
             Inl e \<Rightarrow> (b, Inl e)
           | Inr c \<Rightarrow>
               if \<not> is_prior_session s c then (b, Inr ())
               else if map_of (mb_dispatching b) sel \<noteq> None \<or> writes_of b sel \<noteq> 0 then (b, Inr ())
               else (case mb_journal b of
                       None \<Rightarrow> (unlatch sel b, Inr ())
                     | Some j \<Rightarrow>
                         (case map_of (mb_episodes b) sel of
                            None \<Rightarrow> (b, Inl Mtm_journal_unavailable)
                          | Some e \<Rightarrow>
                              (case jx env (Deactivate [e]) j of
                                 (j, Inl (EmergencyIntentConflict why)) \<Rightarrow> (b\<lparr>mb_journal := Some j\<rparr>, Inr ())
                               | (j, Inl x) \<Rightarrow> (b\<lparr>mb_journal := Some j\<rparr>, Inl Mtm_journal_unavailable)
                               | (j, Inr _) \<Rightarrow> (unlatch sel (b\<lparr>mb_journal := Some j\<rparr>), Inr ()))))))"

subsection \<open>Normal writes\<close>

definition partition_colon :: "string \<Rightarrow> string \<times> string option" where
  "partition_colon s = (takeWhile (\<lambda>c. c \<noteq> CHR '':'') s, case dropWhile (\<lambda>c. c \<noteq> CHR '':'') s of [] \<Rightarrow> None | _ # rest \<Rightarrow> Some rest)"

definition mtm_canonical_selector :: "string \<Rightarrow> mtm_error + string" where
  "mtm_canonical_selector sel =
     (case partition_colon sel of
        (adapter, None) \<Rightarrow> Inl Selector_not_canonical
      | (adapter, Some account) \<Rightarrow>
          (case emergency_selector_scope (Some adapter) (Some account) of
             Inl e \<Rightarrow> Inl (Selector_refused e)
           | Inr s \<Rightarrow> if s = sel then Inr sel else Inl Selector_not_canonical))"

definition latch_selector :: "string \<Rightarrow> 'j mtm_breaker \<Rightarrow> 'j mtm_breaker" where
  "latch_selector sel b = b\<lparr>mb_triggered := True, mb_selectors := List.insert sel (mb_selectors b)\<rparr>"

definition note_episode :: "string \<Rightarrow> episode \<Rightarrow> 'j mtm_breaker \<Rightarrow> 'j mtm_breaker" where
  "note_episode sel e b =
     b\<lparr>mb_session_keys := AList.update sel (ep_session_key e) (mb_session_keys b), mb_episodes := AList.update sel e (mb_episodes b)\<rparr>"

definition adopt_durable :: "('env, 'j) journal_exec \<Rightarrow> 'env \<times> 'env \<times> 'env \<Rightarrow> string option \<Rightarrow> string \<Rightarrow> 'j mtm_breaker \<Rightarrow> ('j mtm_breaker, mtm_error, unit) outcome" where
  "adopt_durable jx envs k sel b =
     (case mb_journal b of
        None \<Rightarrow> (b, Inr ())
      | Some j \<Rightarrow>
          (case jx (fst envs) (BlockingSources sel) j of
             (j, Inl e) \<Rightarrow> (b\<lparr>mb_journal := Some j\<rparr>, Inl Mtm_journal_unavailable)
           | (j, Inr r) \<Rightarrow>
               if ''mtm'' \<notin> reply_sources r then (b\<lparr>mb_journal := Some j\<rparr>, Inr ())
               else (case jx (fst (snd envs)) (ActiveEpisodes (Some ''mtm'')) j of
                       (j, Inl e) \<Rightarrow> (b\<lparr>mb_journal := Some j\<rparr>, Inl Mtm_journal_unavailable)
                     | (j, Inr r) \<Rightarrow>
                         (case find (\<lambda>e. ep_selector e = sel) (reply_episodes r) of
                            None \<Rightarrow> (b\<lparr>mb_journal := Some j\<rparr>, Inl Mtm_state_changed)
                          | Some e \<Rightarrow> roll_over jx (snd (snd envs)) k sel (note_episode sel e (latch_selector sel (b\<lparr>mb_journal := Some j\<rparr>)))))))"

record 'env mtm_env =
  me_first :: 'env
  me_rest :: "'env \<times> 'env \<times> 'env"
  me_key :: "string option"
  me_key2 :: "string option"

definition mtm_admit :: "('env, 'j) journal_exec \<Rightarrow> 'env mtm_env \<Rightarrow> string \<Rightarrow> 'j mtm_breaker \<Rightarrow> ('j mtm_breaker, mtm_error, unit) outcome" where
  "mtm_admit jx env sel b =
     bind_out (b, mtm_canonical_selector sel) (\<lambda>b sel.
     bind_out (roll_over jx (me_first env) (me_key env) sel b) (\<lambda>b _.
     bind_out (adopt_durable jx (me_rest env) (me_key2 env) sel b) (\<lambda>b _.
       if sel \<in> set (mb_selectors b) then (b, Inl (Mtm_active sel))
       else (b\<lparr>mb_writes := AList.update sel (writes_of b sel + 1) (mb_writes b)\<rparr>, Inr ()))))"

definition mtm_leave :: "string \<Rightarrow> 'j mtm_breaker \<Rightarrow> 'j mtm_breaker" where
  "mtm_leave sel b =
     (let remaining = writes_of b sel - 1
      in b\<lparr>mb_writes := (if 0 < remaining then AList.update sel remaining (mb_writes b) else AList.delete sel (mb_writes b))\<rparr>)"

subsection \<open>A breach\<close>

record mtm_ticket =
  mt_selector :: string
  mt_generation :: int
  mt_ready :: bool
  mt_dispatcher :: bool

fun reply_activated :: "journal_reply \<Rightarrow> episode option" where
  "reply_activated (EpisodeReply e created) = Some e"
| "reply_activated _ = None"

definition mtm_request :: "string \<Rightarrow> string \<Rightarrow> string \<Rightarrow> episode_request" where
  "mtm_request sel key hash = \<lparr>er_source = ''mtm'', er_selector = sel, er_session_key = key, er_reason_hash = hash\<rparr>"

text \<open>The durable episode; \<open>ensured\<close> is whether the dispatcher has \<open>ensure_degraded_episode\<close> and it answers true.\<close>

definition mtm_episode :: "('env, 'j) journal_exec \<Rightarrow> 'env \<Rightarrow> string \<Rightarrow> bool \<Rightarrow> string \<Rightarrow> string \<Rightarrow> 'j mtm_breaker \<Rightarrow> 'j mtm_breaker \<times> bool" where
  "mtm_episode jx env hash ensured sel key b =
     (case mb_journal b of
        None \<Rightarrow> (b\<lparr>mb_session_keys := AList.update sel key (mb_session_keys b)\<rparr>, True)
      | Some j \<Rightarrow>
          (case jx env (Activate (mtm_request sel key hash)) j of
             (j, reply) \<Rightarrow>
               (let b = b\<lparr>mb_journal := Some j\<rparr>; ready = mb_dispatcher b \<and> ensured
                in case (case reply of Inl e \<Rightarrow> None | Inr r \<Rightarrow> reply_activated r) of
                     Some e \<Rightarrow> (note_episode sel e b, True)
                   | None \<Rightarrow> (if ready then b\<lparr>mb_session_keys := AList.update sel key (mb_session_keys b)\<rparr> else b, ready))))"

definition mtm_begin :: "('env, 'j) journal_exec \<Rightarrow> 'env mtm_env \<Rightarrow> string \<Rightarrow> bool \<Rightarrow> fnum \<Rightarrow> string \<Rightarrow> 'j mtm_breaker
    \<Rightarrow> ('j mtm_breaker, mtm_error, mtm_ticket option) outcome" where
  "mtm_begin jx env hash ensured pnl sel b =
     bind_out (roll_over jx (me_first env) (me_key env) sel b) (\<lambda>b _.
       if f_less (mb_limit b) pnl then (b, Inr None)
       else (let b = latch_selector sel b
             in if map_of (mb_dispatching b) sel \<noteq> None then (b, Inr None)
                else bind_out (b, current_session_key (me_key2 env)) (\<lambda>b key.
                       (case mtm_episode jx (fst (me_rest env)) hash ensured sel key b of
                          (b, ready) \<Rightarrow>
                            (b\<lparr>mb_dispatching := AList.update sel (mb_generation b) (mb_dispatching b)\<rparr>,
                             Inr (Some \<lparr>mt_selector = sel, mt_generation = mb_generation b, mt_ready = ready, mt_dispatcher = mb_dispatcher b\<rparr>))))))"

definition check_scope :: "string option \<Rightarrow> string option \<Rightarrow> mtm_error + string" where
  "check_scope adapter account =
     (case emergency_selector_scope adapter account of
        Inl e \<Rightarrow> Inl (Selector_refused e)
      | Inr s \<Rightarrow> if s = [] then Inl Selector_not_canonical else Inr s)"

datatype mtm_answer = Mtm_raises | Mtm_no_result | Mtm_result dispatch_result

definition mtm_valid :: "string \<Rightarrow> dispatch_result \<Rightarrow> bool" where
  "mtm_valid sel r \<longleftrightarrow> dr_policy r = MTM_EMERGENCY_POLICY \<and> map vo_verb (dr_outcomes r) = wp_verbs MTM_EMERGENCY_POLICY
     \<and> set (map vo_selector (dr_outcomes r)) = {sel}"

definition mtm_answered :: "string \<Rightarrow> mtm_answer \<Rightarrow> dispatch_result" where
  "mtm_answered sel ans =
     (case ans of
        Mtm_raises \<Rightarrow> failed_result MTM_EMERGENCY_POLICY ''dispatch_failed'' True sel
      | Mtm_no_result \<Rightarrow> failed_result MTM_EMERGENCY_POLICY ''invalid_dispatch_result'' True sel
      | Mtm_result r \<Rightarrow> if mtm_valid sel r then r else failed_result MTM_EMERGENCY_POLICY ''invalid_dispatch_result'' True sel)"

datatype mtm_phase = Mtm_draining | Mtm_flattening | Mtm_finishing dispatch_result

text \<open>After the wait for normal writes; without a journal there is no wait.\<close>

definition mtm_waited :: "bool \<Rightarrow> mtm_ticket \<Rightarrow> mtm_phase" where
  "mtm_waited drained t =
     (let failed = (\<lambda>code. Mtm_finishing (failed_result MTM_EMERGENCY_POLICY code False (mt_selector t)))
      in if \<not> mt_ready t then failed ''intent_journal_unavailable''
         else if \<not> drained then failed ''normal_write_drain_timeout''
         else if \<not> mt_dispatcher t then failed ''dispatcher_unavailable''
         else Mtm_flattening)"

definition mtm_finish :: "mtm_ticket \<Rightarrow> dispatch_result \<Rightarrow> 'j mtm_breaker \<Rightarrow> 'j mtm_breaker" where
  "mtm_finish t r b =
     (let b = (if map_of (mb_dispatching b) (mt_selector t) = Some (mt_generation t)
               then b\<lparr>mb_dispatching := AList.delete (mt_selector t) (mb_dispatching b)\<rparr> else b)
      in if mb_generation b = mt_generation t then b\<lparr>mb_last := Some r\<rparr> else b)"

subsection \<open>The daily reset\<close>

definition mtm_busy :: "'j mtm_breaker \<Rightarrow> bool" where
  "mtm_busy b \<longleftrightarrow> mb_dispatching b \<noteq> [] \<or> list_ex (\<lambda>sel. writes_of b sel \<noteq> 0) (mb_selectors b)"

definition mtm_clear :: "'j mtm_breaker \<Rightarrow> 'j mtm_breaker" where
  "mtm_clear b = b\<lparr>mb_generation := mb_generation b + 1, mb_triggered := False, mb_selectors := [], mb_session_keys := [], mb_episodes := [],
     mb_dispatching := [], mb_last := None\<rparr>"

definition mtm_reset_daily :: "('env, 'j) journal_exec \<Rightarrow> 'env \<times> 'env \<Rightarrow> fnum \<Rightarrow> 'j mtm_breaker \<Rightarrow> ('j mtm_breaker, mtm_error, unit) outcome" where
  "mtm_reset_daily jx envs timeout b =
     (if f_less timeout (Fin 0) then (b, Inl Mtm_timeout_negative)
      else if mtm_busy b then (b, Inl Mtm_work_in_progress)
      else (case mb_journal b of
              None \<Rightarrow> (mtm_clear b, Inr ())
            | Some j \<Rightarrow>
                (case jx (fst envs) (ActiveEpisodes (Some ''mtm'')) j of
                   (j, Inl e) \<Rightarrow> (b\<lparr>mb_journal := Some j\<rparr>, Inl Mtm_journal_unavailable)
                 | (j, Inr r) \<Rightarrow>
                     (let current = fold (\<lambda>e. AList.update (ep_selector e) e) (reply_episodes r) []
                      in case those (map (map_of current) (sorted_set (mb_selectors b))) of
                           None \<Rightarrow> (b\<lparr>mb_journal := Some j\<rparr>, Inl Mtm_journal_unavailable)
                         | Some expected \<Rightarrow>
                             (case jx (snd envs) (Deactivate expected) j of
                                (j, Inl e) \<Rightarrow> (b\<lparr>mb_journal := Some j\<rparr>, Inl Mtm_journal_unavailable)
                              | (j, Inr _) \<Rightarrow> (mtm_clear (b\<lparr>mb_journal := Some j\<rparr>), Inr ()))))))"

subsection \<open>Threads\<close>

record 'j mtm_world =
  mw_breaker :: "'j mtm_breaker"
  mw_writes :: "string list"
  mw_threads :: "nat \<Rightarrow> (mtm_ticket \<times> mtm_phase) option"

datatype mtm_label =
    Mtm_admitted string
  | Mtm_refused string
  | Mtm_left string
  | Mtm_begun nat
  | Mtm_checked
  | Mtm_thread nat
  | Mtm_reset_done
  | Mtm_reset_refused
  | Mtm_bound
  | Mtm_journal_called journal_call

inductive mtm_step :: "('env, 'j) journal_exec \<Rightarrow> 'j mtm_world \<Rightarrow> mtm_label \<Rightarrow> 'j mtm_world \<Rightarrow> bool" for jx where
  admit: "mtm_admit jx env sel (mw_breaker w) = (b, Inr u) \<Longrightarrow> mtm_step jx w (Mtm_admitted sel) (w\<lparr>mw_breaker := b, mw_writes := sel # mw_writes w\<rparr>)"
| refuse: "mtm_admit jx env sel (mw_breaker w) = (b, Inl e) \<Longrightarrow> mtm_step jx w (Mtm_refused sel) (w\<lparr>mw_breaker := b\<rparr>)"
| leave: "sel \<in> set (mw_writes w) \<Longrightarrow> mtm_step jx w (Mtm_left sel) (w\<lparr>mw_breaker := mtm_leave sel (mw_breaker w), mw_writes := remove1 sel (mw_writes w)\<rparr>)"
| begun: "mw_threads w i = None \<Longrightarrow> mtm_begin jx env hash ensured pnl sel (mw_breaker w) = (b, Inr (Some t)) \<Longrightarrow>
    mtm_step jx w (Mtm_begun i) (w\<lparr>mw_breaker := b, mw_threads := (mw_threads w)(i \<mapsto> (t, Mtm_draining))\<rparr>)"
| check: "mtm_begin jx env hash ensured pnl sel (mw_breaker w) = (b, r) \<Longrightarrow> r = Inr None \<or> isl r \<Longrightarrow> mtm_step jx w Mtm_checked (w\<lparr>mw_breaker := b\<rparr>)"
| waited: "mw_threads w i = Some (t, Mtm_draining) \<Longrightarrow> drained \<longrightarrow> writes_of (mw_breaker w) (mt_selector t) = 0 \<Longrightarrow>
    mtm_step jx w (Mtm_thread i) (w\<lparr>mw_threads := (mw_threads w)(i \<mapsto> (t, mtm_waited drained t))\<rparr>)"
| flattened: "mw_threads w i = Some (t, Mtm_flattening) \<Longrightarrow>
    mtm_step jx w (Mtm_thread i) (w\<lparr>mw_threads := (mw_threads w)(i \<mapsto> (t, Mtm_finishing (mtm_answered (mt_selector t) ans)))\<rparr>)"
| finished: "mw_threads w i = Some (t, Mtm_finishing r) \<Longrightarrow>
    mtm_step jx w (Mtm_thread i) (w\<lparr>mw_breaker := mtm_finish t r (mw_breaker w), mw_threads := (mw_threads w)(i := None)\<rparr>)"
| reset: "mtm_reset_daily jx envs timeout (mw_breaker w) = (b, Inr u) \<Longrightarrow> mtm_step jx w Mtm_reset_done (w\<lparr>mw_breaker := b\<rparr>)"
| reset_refused: "mtm_reset_daily jx envs timeout (mw_breaker w) = (b, Inl e) \<Longrightarrow> mtm_step jx w Mtm_reset_refused (w\<lparr>mw_breaker := b\<rparr>)"
| bound: "mtm_step jx w Mtm_bound (w\<lparr>mw_breaker := mtm_bind_dispatcher d (mw_breaker w)\<rparr>)"
| journal: "mb_journal (mw_breaker w) = Some j \<Longrightarrow>
    mtm_step jx w (Mtm_journal_called c) (w\<lparr>mw_breaker := (mw_breaker w)\<lparr>mb_journal := Some (fst (jx env c j))\<rparr>\<rparr>)"

inductive mtm_run :: "('env, 'j) journal_exec \<Rightarrow> 'j mtm_world \<Rightarrow> mtm_label list \<Rightarrow> 'j mtm_world \<Rightarrow> bool" for jx where
  start: "mtm_run jx w [] w"
| next_step: "mtm_run jx w ls w' \<Longrightarrow> mtm_step jx w' l w'' \<Longrightarrow> mtm_run jx w (ls @ [l]) w''"

text \<open>The program starts with a breaker that has just been bound to its journal, with no writes and no threads.\<close>

definition mtm_started :: "'j mtm_world \<Rightarrow> bool" where
  "mtm_started w \<longleftrightarrow> mw_writes w = [] \<and> mw_threads w = Map.empty \<and> mb_writes (mw_breaker w) = [] \<and> mb_dispatching (mw_breaker w) = []"

subsection \<open>The invariant\<close>

text \<open>What an operation leaves alone: the counts, the accounts in flight and the generation; and which accounts it may unlatch.\<close>

definition same_flight :: "'j mtm_breaker \<Rightarrow> 'j mtm_breaker \<Rightarrow> bool" where
  "same_flight b b' \<longleftrightarrow> mb_writes b' = mb_writes b \<and> mb_dispatching b' = mb_dispatching b \<and> mb_generation b' = mb_generation b
     \<and> set (mb_selectors b) \<inter> dom (map_of (mb_dispatching b)) \<subseteq> set (mb_selectors b')"

lemma same_flight_refl [simp]: "same_flight b b" "same_flight b (b\<lparr>mb_journal := jo\<rparr>)" "same_flight b (latch_selector sel b)"
    "same_flight b (note_episode sel e b)" "same_flight b (b\<lparr>mb_session_keys := ks\<rparr>)" "same_flight b (mtm_bind_dispatcher d b)"
  by (auto simp: same_flight_def latch_selector_def note_episode_def mtm_bind_dispatcher_def)

lemma same_flight_trans: "same_flight b b' \<Longrightarrow> same_flight b' b'' \<Longrightarrow> same_flight b b''"
  unfolding same_flight_def by (simp only:) blast

lemma same_flight_unlatch: "map_of (mb_dispatching b) sel = None \<Longrightarrow> same_flight b (unlatch sel b)"
  by (auto simp: same_flight_def unlatch_def Let_def)

lemma roll_over_flight: "same_flight b (fst (roll_over jx env k sel b))"
proof -
  have "same_flight b (unlatch sel (b\<lparr>mb_journal := jo\<rparr>))" if "map_of (mb_dispatching b) sel = None" for jo
    using that by (intro same_flight_trans [OF same_flight_refl(2) same_flight_unlatch]) simp
  then show ?thesis
    using same_flight_unlatch [of b sel]
    by (auto simp: roll_over_def split: option.splits sum.splits prod.splits journal_error.splits)
qed

lemma adopt_durable_flight: "same_flight b (fst (adopt_durable jx envs k sel b))"
proof -
  have "same_flight b (fst (roll_over jx env k sel (note_episode sel e (latch_selector sel (b\<lparr>mb_journal := jo\<rparr>)))))" for env e jo
    by (rule same_flight_trans [OF _ roll_over_flight], rule same_flight_trans [OF _ same_flight_refl(4)], rule same_flight_trans [OF same_flight_refl(2) same_flight_refl(3)])
  then show ?thesis by (auto simp: adopt_durable_def split: option.splits sum.splits prod.splits)
qed

lemma mtm_admit_cases:
  assumes "mtm_admit jx env sel b = (b', r)"
  obtains (refused) e where "r = Inl e" "same_flight b b'"
  | (admitted) b1 where "same_flight b b1" "sel \<notin> set (mb_selectors b1)" "b' = b1\<lparr>mb_writes := AList.update sel (writes_of b1 sel + 1) (mb_writes b1)\<rparr>" "r = Inr ()"
proof (cases "mtm_canonical_selector sel")
  case (Inl e)
  then show thesis using assms by (intro refused) (auto simp: mtm_admit_def)
next
  case (Inr s)
  then have [simp]: "s = sel" by (auto simp: mtm_canonical_selector_def split: prod.splits option.splits sum.splits if_splits)
  obtain b1 r1 where r1: "roll_over jx (me_first env) (me_key env) sel b = (b1, r1)" by (cases "roll_over jx (me_first env) (me_key env) sel b")
  have f1: "same_flight b b1" using roll_over_flight [of b jx "me_first env" "me_key env" sel] r1 by simp
  show thesis
  proof (cases r1)
    case (Inl e)
    then show thesis using assms Inr r1 f1 by (intro refused) (auto simp: mtm_admit_def)
  next
    case ok1: (Inr u)
    obtain b2 r2 where r2: "adopt_durable jx (me_rest env) (me_key2 env) sel b1 = (b2, r2)" by (cases "adopt_durable jx (me_rest env) (me_key2 env) sel b1")
    have f2: "same_flight b b2" using adopt_durable_flight [of b1 jx "me_rest env" "me_key2 env" sel] r2 same_flight_trans [OF f1] by simp
    have eq: "mtm_admit jx env sel b = (case r2 of Inl e \<Rightarrow> (b2, Inl e) | Inr _ \<Rightarrow> if sel \<in> set (mb_selectors b2) then (b2, Inl (Mtm_active sel))
        else (b2\<lparr>mb_writes := AList.update sel (writes_of b2 sel + 1) (mb_writes b2)\<rparr>, Inr ()))"
      using Inr r1 ok1 r2 by (auto simp: mtm_admit_def split: sum.splits)
    show thesis
    proof (cases "isl r2 \<or> sel \<in> set (mb_selectors b2)")
      case True
      then have "b' = b2 \<and> isl r" using assms eq by (auto split: sum.splits)
      then show thesis using f2 by (intro refused [of "projl r"]) auto
    next
      case False
      then show thesis using assms eq f2 by (intro admitted [OF f2]) (auto split: sum.splits)
    qed
  qed
qed

lemma mtm_episode_flight:
  assumes "mtm_episode jx env hash ensured sel key b = (b', ready)"
  shows "same_flight b b' \<and> mb_selectors b' = mb_selectors b"
  using assms
  by (auto simp: mtm_episode_def Let_def same_flight_def note_episode_def split: option.splits prod.splits sum.splits if_splits)

lemma mtm_begin_cases:
  assumes "mtm_begin jx env hash ensured pnl sel b = (b', r)"
  obtains (quiet) "same_flight b b'" "r = Inr None \<or> isl r"
  | (ticket) b1 t where "same_flight b b1" "mt_selector t \<in> set (mb_selectors b1)" "map_of (mb_dispatching b1) (mt_selector t) = None"
      "mt_generation t = mb_generation b1" "b' = b1\<lparr>mb_dispatching := AList.update (mt_selector t) (mb_generation b1) (mb_dispatching b1)\<rparr>" "r = Inr (Some t)"
      "mt_selector t = sel"
proof -
  obtain b1 r1 where r1: "roll_over jx (me_first env) (me_key env) sel b = (b1, r1)" by (cases "roll_over jx (me_first env) (me_key env) sel b")
  have f1: "same_flight b b1" using roll_over_flight [of b jx "me_first env" "me_key env" sel] r1 by simp
  let ?l = "latch_selector sel b1"
  have fl: "same_flight b ?l" using same_flight_trans [OF f1 same_flight_refl(3)] .
  show thesis
  proof (cases "isl r1 \<or> f_less (mb_limit b1) pnl")
    case True
    then have "b' = b1 \<and> (r = Inr None \<or> isl r)" using assms r1 by (cases r1) (auto simp: mtm_begin_def)
    then show thesis using f1 by (intro quiet) auto
  next
    case False
    then obtain u where u: "r1 = Inr u" by (cases r1) auto
    show thesis
    proof (cases "map_of (mb_dispatching ?l) sel \<noteq> None \<or> isl (current_session_key (me_key2 env))")
      case True
      then have "b' = ?l \<and> (r = Inr None \<or> isl r)"
        using assms r1 u False by (cases "current_session_key (me_key2 env)") (auto simp: mtm_begin_def Let_def split: if_splits)
      then show thesis using fl by (intro quiet) auto
    next
      case go: False
      then obtain key where key: "current_session_key (me_key2 env) = Inr key" by (cases "current_session_key (me_key2 env)") auto
      obtain b2 ready where e: "mtm_episode jx (fst (me_rest env)) hash ensured sel key ?l = (b2, ready)"
        by (cases "mtm_episode jx (fst (me_rest env)) hash ensured sel key ?l")
      have f2: "same_flight ?l b2" "mb_selectors b2 = mb_selectors ?l" using mtm_episode_flight [OF e] by auto
      define t where "t = \<lparr>mt_selector = sel, mt_generation = mb_generation b2, mt_ready = ready, mt_dispatcher = mb_dispatcher b2\<rparr>"
      have "b' = b2\<lparr>mb_dispatching := AList.update sel (mb_generation b2) (mb_dispatching b2)\<rparr> \<and> r = Inr (Some t)"
        using assms r1 u False go key e by (auto simp: mtm_begin_def Let_def t_def)
      moreover have "sel \<in> set (mb_selectors b2)" unfolding f2(2) by (simp add: latch_selector_def)
      moreover have "map_of (mb_dispatching b2) sel = None" using go f2(1) by (simp add: same_flight_def)
      ultimately show thesis using same_flight_trans [OF fl f2(1)] by (intro ticket [of b2 t]) (auto simp: t_def)
    qed
  qed
qed

lemma mtm_reset_cases:
  assumes "mtm_reset_daily jx envs timeout b = (b', r)"
  obtains (refused) e where "r = Inl e" "same_flight b b'"
  | (cleared) jo where "\<not> mtm_busy b" "b' = mtm_clear (b\<lparr>mb_journal := jo\<rparr>)"
proof -
  have "(\<exists>e. r = Inl e) \<and> same_flight b b' \<or> \<not> mtm_busy b \<and> (\<exists>jo. b' = mtm_clear (b\<lparr>mb_journal := jo\<rparr>))"
  proof (cases "f_less timeout (Fin 0) \<or> mtm_busy b")
    case True
    then show ?thesis using assms by (auto simp: mtm_reset_daily_def split: if_splits)
  next
    case False
    show ?thesis
    proof (cases "mb_journal b")
      case None
      then have "b\<lparr>mb_journal := None\<rparr> = b" by simp
      moreover have "b' = mtm_clear b" using assms False None by (simp add: mtm_reset_daily_def)
      ultimately have "b' = mtm_clear (b\<lparr>mb_journal := None\<rparr>)" by (simp only:)
      then show ?thesis using False by blast
    next
      case (Some j)
      then show ?thesis using assms False
        by (auto simp: mtm_reset_daily_def Let_def split: prod.splits sum.splits option.splits)
    qed
  qed
  then show thesis using refused cleared by blast
qed

text \<open>Counts match the open writes; a thread owns the entry of its account, which is latched; a thread that flattens has no open write on its account.\<close>

definition counts_ok :: "'j mtm_world \<Rightarrow> bool" where
  "counts_ok w \<longleftrightarrow> (\<forall>sel. writes_of (mw_breaker w) sel = int (count_list (mw_writes w) sel))"

definition tickets_ok :: "'j mtm_world \<Rightarrow> bool" where
  "tickets_ok w \<longleftrightarrow> (\<forall>i t ph. mw_threads w i = Some (t, ph) \<longrightarrow>
     map_of (mb_dispatching (mw_breaker w)) (mt_selector t) = Some (mt_generation t) \<and> mt_generation t = mb_generation (mw_breaker w)
     \<and> mt_selector t \<in> set (mb_selectors (mw_breaker w)))"

definition alone_ok :: "'j mtm_world \<Rightarrow> bool" where
  "alone_ok w \<longleftrightarrow> (\<forall>i j t ph u qh. mw_threads w i = Some (t, ph) \<longrightarrow> mw_threads w j = Some (u, qh) \<longrightarrow> mt_selector t = mt_selector u \<longrightarrow> i = j)"

definition owned_ok :: "'j mtm_world \<Rightarrow> bool" where
  "owned_ok w \<longleftrightarrow> (\<forall>sel g. map_of (mb_dispatching (mw_breaker w)) sel = Some g \<longrightarrow> (\<exists>i t ph. mw_threads w i = Some (t, ph) \<and> mt_selector t = sel))"

definition drained_ok :: "'j mtm_world \<Rightarrow> bool" where
  "drained_ok w \<longleftrightarrow> (\<forall>i t. mw_threads w i = Some (t, Mtm_flattening) \<longrightarrow> writes_of (mw_breaker w) (mt_selector t) = 0)"

definition mtm_inv :: "'j mtm_world \<Rightarrow> bool" where
  "mtm_inv w \<longleftrightarrow> counts_ok w \<and> tickets_ok w \<and> alone_ok w \<and> owned_ok w \<and> drained_ok w"

lemma ticketsD:
  assumes "tickets_ok w" and "mw_threads w i = Some (t, ph)"
  shows "map_of (mb_dispatching (mw_breaker w)) (mt_selector t) = Some (mt_generation t)" "mt_generation t = mb_generation (mw_breaker w)"
    "mt_selector t \<in> set (mb_selectors (mw_breaker w))"
  using assms unfolding tickets_ok_def by blast+

lemma aloneD: "alone_ok w \<Longrightarrow> mw_threads w i = Some (t, ph) \<Longrightarrow> mw_threads w j = Some (u, qh) \<Longrightarrow> mt_selector t = mt_selector u \<Longrightarrow> i = j"
  unfolding alone_ok_def by blast

lemma aloneI:
  "(\<And>i j t ph u qh. mw_threads w i = Some (t, ph) \<Longrightarrow> mw_threads w j = Some (u, qh) \<Longrightarrow> mt_selector t = mt_selector u \<Longrightarrow> i = j) \<Longrightarrow> alone_ok w"
  unfolding alone_ok_def by (intro allI impI)

lemma writes_of_flight: "same_flight b b' \<Longrightarrow> writes_of b' sel = writes_of b sel"
  by (simp add: same_flight_def writes_of_def)

lemma mtm_inv_flight:
  assumes "mtm_inv w" and f: "same_flight (mw_breaker w) b"
  shows "mtm_inv (w\<lparr>mw_breaker := b\<rparr>)"
proof -
  from assms(1) have inv: "counts_ok w" "tickets_ok w" "alone_ok w" "owned_ok w" "drained_ok w" by (simp_all add: mtm_inv_def)
  have "mt_selector t \<in> set (mb_selectors b)" if "mw_threads w i = Some (t, ph)" for i t ph
    using ticketsD [OF inv(2) that] f unfolding same_flight_def by blast
  then have "tickets_ok (w\<lparr>mw_breaker := b\<rparr>)" using inv(2) f unfolding tickets_ok_def same_flight_def by simp
  moreover have "counts_ok (w\<lparr>mw_breaker := b\<rparr>)" "drained_ok (w\<lparr>mw_breaker := b\<rparr>)"
    using inv(1,5) writes_of_flight [OF f] by (simp_all add: counts_ok_def drained_ok_def)
  moreover have "owned_ok (w\<lparr>mw_breaker := b\<rparr>)" using inv(4) f by (simp add: owned_ok_def same_flight_def)
  ultimately show ?thesis using inv(3) by (simp add: mtm_inv_def alone_ok_def)
qed

lemma mtm_inv_admit:
  assumes "mtm_inv w" and "sel \<notin> set (mb_selectors (mw_breaker w))"
  shows "mtm_inv (w\<lparr>mw_breaker := (mw_breaker w)\<lparr>mb_writes := AList.update sel (writes_of (mw_breaker w) sel + 1) (mb_writes (mw_breaker w))\<rparr>, mw_writes := sel # mw_writes w\<rparr>)"
proof -
  let ?b = "(mw_breaker w)\<lparr>mb_writes := AList.update sel (writes_of (mw_breaker w) sel + 1) (mb_writes (mw_breaker w))\<rparr>"
  from assms(1) have inv: "counts_ok w" "tickets_ok w" "alone_ok w" "owned_ok w" "drained_ok w" by (simp_all add: mtm_inv_def)
  have w: "writes_of ?b s = (if s = sel then writes_of (mw_breaker w) sel + 1 else writes_of (mw_breaker w) s)" for s
    by (simp add: writes_of_def update_conv')
  have "mt_selector t \<noteq> sel" if "mw_threads w i = Some (t, ph)" for i t ph using ticketsD(3) [OF inv(2) that] assms(2) by auto
  then have "drained_ok (w\<lparr>mw_breaker := ?b, mw_writes := sel # mw_writes w\<rparr>)" using inv(5) unfolding drained_ok_def by (auto simp: w)
  moreover have "writes_of ?b s = int (count_list (sel # mw_writes w) s)" for s
    unfolding w using inv(1) by (auto simp: counts_ok_def)
  then have "counts_ok (w\<lparr>mw_breaker := ?b, mw_writes := sel # mw_writes w\<rparr>)" unfolding counts_ok_def by simp
  ultimately show ?thesis using inv(2-4) by (simp add: mtm_inv_def tickets_ok_def alone_ok_def owned_ok_def)
qed

lemma mtm_inv_leave:
  assumes "mtm_inv w" and "sel \<in> set (mw_writes w)"
  shows "mtm_inv (w\<lparr>mw_breaker := mtm_leave sel (mw_breaker w), mw_writes := remove1 sel (mw_writes w)\<rparr>)"
proof -
  from assms(1) have inv: "counts_ok w" "tickets_ok w" "alone_ok w" "owned_ok w" "drained_ok w" by (simp_all add: mtm_inv_def)
  have pos: "0 < writes_of (mw_breaker w) sel" using inv(1) assms(2) count_list_0_iff [of "mw_writes w" sel] by (simp add: counts_ok_def)
  have w: "writes_of (mtm_leave sel (mw_breaker w)) s = (if s = sel then writes_of (mw_breaker w) sel - 1 else writes_of (mw_breaker w) s)" for s
    using pos by (auto simp: writes_of_def mtm_leave_def Let_def update_conv' delete_conv')
  have "count_list (remove1 sel xs) s = (if s = sel then count_list xs sel - 1 else count_list xs s)" for xs :: "string list" and s
    by (induction xs) auto
  then have "counts_ok (w\<lparr>mw_breaker := mtm_leave sel (mw_breaker w), mw_writes := remove1 sel (mw_writes w)\<rparr>)"
    using inv(1) pos by (auto simp: counts_ok_def w)
  moreover have "mt_selector t \<noteq> sel" if "mw_threads w i = Some (t, Mtm_flattening)" for i t using inv(5) that pos by (auto simp: drained_ok_def)
  then have "drained_ok (w\<lparr>mw_breaker := mtm_leave sel (mw_breaker w), mw_writes := remove1 sel (mw_writes w)\<rparr>)" using inv(5) unfolding drained_ok_def by (auto simp: w)
  ultimately show ?thesis using inv(2-4) by (simp add: mtm_inv_def tickets_ok_def alone_ok_def owned_ok_def mtm_leave_def Let_def)
qed

lemma mtm_inv_begun:
  assumes "mtm_inv w" and "mw_threads w i = None" and sel: "mt_selector t \<in> set (mb_selectors (mw_breaker w))"
    and free: "map_of (mb_dispatching (mw_breaker w)) (mt_selector t) = None" and gen: "mt_generation t = mb_generation (mw_breaker w)"
  shows "mtm_inv (w\<lparr>mw_breaker := (mw_breaker w)\<lparr>mb_dispatching := AList.update (mt_selector t) (mt_generation t) (mb_dispatching (mw_breaker w))\<rparr>,
     mw_threads := (mw_threads w)(i \<mapsto> (t, Mtm_draining))\<rparr>)"
proof -
  from assms(1) have inv: "counts_ok w" "tickets_ok w" "alone_ok w" "owned_ok w" "drained_ok w" by (simp_all add: mtm_inv_def)
  let ?w = "w\<lparr>mw_breaker := (mw_breaker w)\<lparr>mb_dispatching := AList.update (mt_selector t) (mt_generation t) (mb_dispatching (mw_breaker w))\<rparr>,
     mw_threads := (mw_threads w)(i \<mapsto> (t, Mtm_draining))\<rparr>"
  have other: "mt_selector u \<noteq> mt_selector t" if "mw_threads w j = Some (u, qh)" for j u qh using ticketsD(1) [OF inv(2) that] free by auto
  have "tickets_ok ?w" unfolding tickets_ok_def
  proof (intro allI impI)
    fix j u qh
    assume j: "mw_threads ?w j = Some (u, qh)"
    show "map_of (mb_dispatching (mw_breaker ?w)) (mt_selector u) = Some (mt_generation u) \<and> mt_generation u = mb_generation (mw_breaker ?w) \<and> mt_selector u \<in> set (mb_selectors (mw_breaker ?w))"
    proof (cases "j = i")
      case True
      then show ?thesis using j sel gen by simp
    next
      case False
      then have "mw_threads w j = Some (u, qh)" using j by simp
      then show ?thesis using ticketsD [OF inv(2)] other by (simp add: update_conv')
    qed
  qed
  moreover have "alone_ok ?w" unfolding alone_ok_def
  proof (intro allI impI)
    fix j k u qh v rh
    assume "mw_threads ?w j = Some (u, qh)" "mw_threads ?w k = Some (v, rh)" "mt_selector u = mt_selector v"
    then show "j = k" using inv(3) other unfolding alone_ok_def by (cases "j = i"; cases "k = i") auto
  qed
  moreover have "owned_ok ?w" unfolding owned_ok_def
  proof (intro allI impI)
    fix s g
    assume "map_of (mb_dispatching (mw_breaker ?w)) s = Some g"
    then consider "s = mt_selector t" | h where "map_of (mb_dispatching (mw_breaker w)) s = Some h" by (auto simp: update_conv' split: if_splits)
    then show "\<exists>j u qh. mw_threads ?w j = Some (u, qh) \<and> mt_selector u = s"
    proof cases
      case 1
      then show ?thesis by (intro exI [of _ i] exI [of _ t]) simp
    next
      case (2 h)
      then obtain j u qh where "mw_threads w j = Some (u, qh)" "mt_selector u = s" using inv(4) unfolding owned_ok_def by blast
      then show ?thesis using assms(2) by (intro exI [of _ j] exI [of _ u] exI [of _ qh]) auto
    qed
  qed
  moreover have "counts_ok ?w" "drained_ok ?w" using inv(1,5) by (auto simp: counts_ok_def drained_ok_def writes_of_def)
  ultimately show ?thesis by (simp add: mtm_inv_def)
qed

lemma mtm_inv_phase:
  assumes "mtm_inv w" and "mw_threads w i = Some (t, ph)" and "ph' = Mtm_flattening \<Longrightarrow> writes_of (mw_breaker w) (mt_selector t) = 0"
  shows "mtm_inv (w\<lparr>mw_threads := (mw_threads w)(i \<mapsto> (t, ph'))\<rparr>)"
proof -
  from assms(1) have inv: "counts_ok w" "tickets_ok w" "alone_ok w" "owned_ok w" "drained_ok w" by (simp_all add: mtm_inv_def)
  let ?w = "w\<lparr>mw_threads := (mw_threads w)(i \<mapsto> (t, ph'))\<rparr>"
  have same: "\<exists>rh. mw_threads w j = Some (u, rh)" if "mw_threads ?w j = Some (u, qh)" for j u qh using that assms(2) by (cases "j = i") auto
  have "tickets_ok ?w" unfolding tickets_ok_def
  proof (intro allI impI)
    fix j u qh
    assume "mw_threads ?w j = Some (u, qh)"
    then obtain rh where "mw_threads w j = Some (u, rh)" using same by blast
    then show "map_of (mb_dispatching (mw_breaker ?w)) (mt_selector u) = Some (mt_generation u) \<and> mt_generation u = mb_generation (mw_breaker ?w) \<and> mt_selector u \<in> set (mb_selectors (mw_breaker ?w))"
      using ticketsD [OF inv(2)] by simp
  qed
  moreover have "alone_ok ?w"
  proof (rule aloneI)
    fix j k u qh v rh
    assume "mw_threads ?w j = Some (u, qh)" "mw_threads ?w k = Some (v, rh)" and sel: "mt_selector u = mt_selector v"
    then obtain x y where "mw_threads w j = Some (u, x)" "mw_threads w k = Some (v, y)" using same by meson
    then show "j = k" using sel by (rule aloneD [OF inv(3)])
  qed
  moreover have "owned_ok ?w" unfolding owned_ok_def
  proof (intro allI impI)
    fix s g
    assume "map_of (mb_dispatching (mw_breaker ?w)) s = Some g"
    then obtain j u qh where j: "mw_threads w j = Some (u, qh)" "mt_selector u = s" using inv(4) unfolding owned_ok_def by auto
    then show "\<exists>j u qh. mw_threads ?w j = Some (u, qh) \<and> mt_selector u = s"
      using assms(2) by (cases "j = i") (auto intro: exI [of _ j])
  qed
  moreover have "drained_ok ?w" using inv(5) assms(3) by (auto simp: drained_ok_def)
  ultimately show ?thesis using inv(1) by (simp add: mtm_inv_def counts_ok_def)
qed

lemma mtm_inv_finished:
  assumes "mtm_inv w" and i: "mw_threads w i = Some (t, ph)"
  shows "mtm_inv (w\<lparr>mw_breaker := mtm_finish t r (mw_breaker w), mw_threads := (mw_threads w)(i := None)\<rparr>)"
proof -
  from assms(1) have inv: "counts_ok w" "tickets_ok w" "alone_ok w" "owned_ok w" "drained_ok w" by (simp_all add: mtm_inv_def)
  let ?b = "mtm_finish t r (mw_breaker w)"
  let ?w = "w\<lparr>mw_breaker := ?b, mw_threads := (mw_threads w)(i := None)\<rparr>"
  have b: "mb_dispatching ?b = AList.delete (mt_selector t) (mb_dispatching (mw_breaker w))" "mb_writes ?b = mb_writes (mw_breaker w)"
      "mb_generation ?b = mb_generation (mw_breaker w)" "mb_selectors ?b = mb_selectors (mw_breaker w)"
    using ticketsD [OF inv(2) i] by (simp_all add: mtm_finish_def)
  have other: "mt_selector u \<noteq> mt_selector t" if "mw_threads w j = Some (u, qh)" "j \<noteq> i" for j u qh
    using aloneD [OF inv(3) that(1) i] that(2) by blast
  have "tickets_ok ?w" unfolding tickets_ok_def
  proof (intro allI impI)
    fix j u qh
    assume "mw_threads ?w j = Some (u, qh)"
    then have j: "mw_threads w j = Some (u, qh)" "j \<noteq> i" by (auto split: if_splits)
    then show "map_of (mb_dispatching (mw_breaker ?w)) (mt_selector u) = Some (mt_generation u) \<and> mt_generation u = mb_generation (mw_breaker ?w) \<and> mt_selector u \<in> set (mb_selectors (mw_breaker ?w))"
      using ticketsD [OF inv(2) j(1)] other [OF j] by (simp add: b delete_conv')
  qed
  moreover have "alone_ok ?w" by (rule aloneI) (auto split: if_splits intro: aloneD [OF inv(3)])
  moreover have "owned_ok ?w" unfolding owned_ok_def
  proof (intro allI impI)
    fix s g
    assume "map_of (mb_dispatching (mw_breaker ?w)) s = Some g"
    then have s: "s \<noteq> mt_selector t" "map_of (mb_dispatching (mw_breaker w)) s = Some g" by (auto simp: b delete_conv' split: if_splits)
    then obtain j u qh where j: "mw_threads w j = Some (u, qh)" "mt_selector u = s" using inv(4) unfolding owned_ok_def by blast
    then have "j \<noteq> i" using i s(1) by auto
    then show "\<exists>j u qh. mw_threads ?w j = Some (u, qh) \<and> mt_selector u = s" using j by (intro exI [of _ j] exI [of _ u] exI [of _ qh]) simp
  qed
  moreover have "counts_ok ?w" "drained_ok ?w" using inv(1,5) by (auto simp: counts_ok_def drained_ok_def writes_of_def b)
  ultimately show ?thesis by (simp add: mtm_inv_def)
qed

lemma mtm_inv_reset:
  assumes "mtm_inv w" and "\<not> mtm_busy (mw_breaker w)"
  shows "mtm_inv (w\<lparr>mw_breaker := mtm_clear ((mw_breaker w)\<lparr>mb_journal := jo\<rparr>)\<rparr>)"
proof -
  from assms(1) have inv: "counts_ok w" "tickets_ok w" "alone_ok w" "owned_ok w" "drained_ok w" by (simp_all add: mtm_inv_def)
  have none: "mw_threads w i = None" for i
  proof (cases "mw_threads w i")
    case (Some a)
    obtain t ph where "a = (t, ph)" by (cases a)
    then show ?thesis using ticketsD(1) [OF inv(2), of i t ph] Some assms(2) by (simp add: mtm_busy_def)
  qed
  then show ?thesis using inv(1) by (simp add: mtm_inv_def counts_ok_def tickets_ok_def alone_ok_def owned_ok_def drained_ok_def mtm_clear_def writes_of_def)
qed

lemma mtm_step_inv: "mtm_step jx w l w' \<Longrightarrow> mtm_inv w \<Longrightarrow> mtm_inv w'"
proof (induction rule: mtm_step.induct)
  case (admit env sel w b u)
  from admit.hyps show ?case
  proof (cases rule: mtm_admit_cases)
    case (admitted b1)
    have "mtm_inv (w\<lparr>mw_breaker := b1\<rparr>)" using admit.prems admitted(1) by (rule mtm_inv_flight)
    from mtm_inv_admit [OF this] show ?thesis using admitted(2,3) by simp
  qed simp
next
  case (refuse env sel w b e)
  from refuse.hyps show ?case by (cases rule: mtm_admit_cases) (use refuse.prems in \<open>simp_all add: mtm_inv_flight\<close>)
next
  case (begun w i env hash ensured pnl sel b t)
  from begun.hyps(2) show ?case
  proof (cases rule: mtm_begin_cases)
    case (ticket b1 t')
    have "mtm_inv (w\<lparr>mw_breaker := b1\<rparr>)" using begun.prems ticket(1) by (rule mtm_inv_flight)
    from mtm_inv_begun [OF this, of i t] show ?thesis using ticket begun.hyps(1) by simp
  qed simp
next
  case (check env hash ensured pnl sel w b r)
  from check.hyps(1) show ?case by (cases rule: mtm_begin_cases) (use check in \<open>auto intro: mtm_inv_flight\<close>)
next
  case (waited w i t drained)
  have "mtm_waited drained t = Mtm_flattening \<Longrightarrow> drained" by (auto simp: mtm_waited_def Let_def split: if_splits)
  then show ?case using waited by (intro mtm_inv_phase) auto
next
  case (reset envs timeout w b u)
  from reset.hyps show ?case by (cases rule: mtm_reset_cases) (use reset.prems mtm_inv_reset in auto)
next
  case (reset_refused envs timeout w b e)
  from reset_refused.hyps show ?case
    by (cases rule: mtm_reset_cases) (use reset_refused.prems mtm_inv_reset mtm_inv_flight in auto)
qed (auto intro: mtm_inv_leave mtm_inv_phase mtm_inv_finished mtm_inv_flight)

lemma mtm_run_inv:
  assumes "mtm_run jx w ls w'" and "mtm_started w"
  shows "mtm_inv w'"
proof -
  have "mtm_inv w" using assms(2) by (simp add: mtm_started_def mtm_inv_def counts_ok_def tickets_ok_def alone_ok_def owned_ok_def drained_ok_def writes_of_def)
  with assms(1) show ?thesis by (induction rule: mtm_run.induct) (auto intro: mtm_step_inv)
qed

text \<open>
  C30. While a breached account is being flattened, none of its normal writes is in flight and none is
  admitted, no second flatten of it runs, and no reset succeeds, in every interleaving of writes,
  breaches, resets and other users of the journal.
\<close>

theorem flatten_excludes_writes:
  assumes "mtm_run jx w ls w'" and "mtm_started w" and "mw_threads w' i = Some (t, Mtm_flattening)"
  shows "mt_selector t \<notin> set (mw_writes w') \<and> isl (snd (mtm_admit jx env (mt_selector t) (mw_breaker w')))
     \<and> (\<forall>j u ph. mw_threads w' j = Some (u, ph) \<and> mt_selector u = mt_selector t \<longrightarrow> j = i)
     \<and> (snd (mtm_reset_daily jx envs timeout (mw_breaker w')) = Inl Mtm_work_in_progress \<or> f_less timeout (Fin 0))"
proof -
  have inv: "counts_ok w'" "tickets_ok w'" "alone_ok w'" "drained_ok w'" using mtm_run_inv [OF assms(1,2)] by (simp_all add: mtm_inv_def)
  note t = ticketsD [OF inv(2) assms(3)]
  have "writes_of (mw_breaker w') (mt_selector t) = 0" using inv(4) assms(3) unfolding drained_ok_def by blast
  then have "mt_selector t \<notin> set (mw_writes w')" using inv(1) count_list_0_iff [of "mw_writes w'" "mt_selector t"] by (simp add: counts_ok_def)
  moreover have "isl (snd (mtm_admit jx env (mt_selector t) (mw_breaker w')))"
  proof -
    obtain b r where eq: "mtm_admit jx env (mt_selector t) (mw_breaker w') = (b, r)" by (cases "mtm_admit jx env (mt_selector t) (mw_breaker w')")
    then have "isl r"
    proof (cases rule: mtm_admit_cases)
      case (admitted b1)
      then show ?thesis using t(1,3) by (auto simp: same_flight_def)
    qed simp
    then show ?thesis using eq by simp
  qed
  moreover have "mtm_busy (mw_breaker w')" using t(1) by (auto simp: mtm_busy_def)
  then have "snd (mtm_reset_daily jx envs timeout (mw_breaker w')) = Inl Mtm_work_in_progress \<or> f_less timeout (Fin 0)" by (simp add: mtm_reset_daily_def)
  ultimately show ?thesis using aloneD [OF inv(3) _ assms(3)] by blast
qed

subsection \<open>A breach with a journal\<close>

text \<open>
  The examples below run on the process-local journal. The environment of a call says whether the
  store can be reached.
\<close>

definition flaky_exec :: "bool \<Rightarrow> journal_call \<Rightarrow> memory_journal \<Rightarrow> (memory_journal, journal_error, journal_reply) outcome" where
  "flaky_exec up c m = (if up then mem_exec () c m else (m, Inl StorageError))"

definition mtm_calm :: "string \<Rightarrow> bool mtm_env" where
  "mtm_calm d = \<lparr>me_first = True, me_rest = (True, True, True), me_key = Some d, me_key2 = Some d\<rparr>"

definition mtm_outage :: "string \<Rightarrow> bool mtm_env" where
  "mtm_outage d = \<lparr>me_first = True, me_rest = (False, False, False), me_key = Some d, me_key2 = Some d\<rparr>"

definition example_breaker :: "'j option \<Rightarrow> 'j mtm_breaker" where
  "example_breaker jo =
     \<lparr>mb_limit = Fin (- 50000), mb_dispatcher = True, mb_journal = jo, mb_triggered = False, mb_selectors = [], mb_session_keys = [],
      mb_episodes = [], mb_dispatching = [], mb_writes = [], mb_generation = 0, mb_last = None\<rparr>"

text \<open>One check of the account at a loss of 60000, from the breach to its answer.\<close>

definition breach_once :: "bool mtm_env \<Rightarrow> bool \<Rightarrow> memory_journal mtm_breaker \<Rightarrow> memory_journal mtm_breaker" where
  "breach_once env ensured b =
     (case mtm_begin flaky_exec env (replicate 64 CHR ''0'') ensured (Fin (- 60000)) ''dhan:primary'' b of
        (b, Inr (Some t)) \<Rightarrow> mtm_finish t (mtm_answered ''dhan:primary'' Mtm_no_result) b
      | (b, _) \<Rightarrow> b)"

definition day_one :: string where "day_one = ''2026-01-05''"
definition day_two :: string where "day_two = ''2026-01-06''"

text \<open>
  A breach while the store is down leaves the account latched with a session key and no episode. On
  the next day the store is up, and still every check, write and reset of the account is refused:
  \<open>_roll_over_prior_session_locked\<close> hands \<open>None\<close> to the journal.
\<close>

lemma degraded_latch_survives_the_session:
  "let b = breach_once (mtm_outage day_one) True (example_breaker (Some mem_new))
   in snd (mtm_begin flaky_exec (mtm_calm day_two) (replicate 64 CHR ''0'') True (Fin (- 60000)) ''dhan:primary'' b) = Inl Mtm_journal_unavailable
      \<and> snd (mtm_admit flaky_exec (mtm_calm day_two) ''dhan:primary'' b) = Inl Mtm_journal_unavailable
      \<and> snd (mtm_reset_daily flaky_exec (True, True) (Fin 5) b) = Inl Mtm_journal_unavailable"
  by code_simp

text \<open>
  An episode of the day before is still in the journal (its intents were unsettled when the process
  started, or another process wrote it) when a breach of today meets an outage. The next write is
  admitted on the day of the breach: the older session key replaces today's, and the rollover lifts
  the latch. The local latch does not remain active.
\<close>

lemma stale_episode_lifts_the_latch:
  "let m1 = fst (mem_exec () (Activate (mtm_request ''dhan:primary'' day_one (replicate 64 CHR ''0''))) mem_new);
       b = breach_once (mtm_outage day_two) True (example_breaker (Some m1))
   in ''dhan:primary'' \<in> set (mb_selectors b) \<and> snd (mtm_admit flaky_exec (mtm_calm day_two) ''dhan:primary'' b) = Inr ()"
  by code_simp

theorem flatten_excludes_writes_witness:
  "\<exists>(w :: memory_journal mtm_world) t. mw_threads w 0 = Some (t, Mtm_flattening) \<and> mt_selector t = ''dhan:primary'' \<and> mw_writes w = []
     \<and> isl (snd (mtm_admit flaky_exec (mtm_calm day_one) ''dhan:primary'' (mw_breaker w)))"
proof -
  define w :: "memory_journal mtm_world" where "w = \<lparr>mw_breaker = example_breaker (Some mem_new), mw_writes = [], mw_threads = Map.empty\<rparr>"
  let ?started = "mtm_begin flaky_exec (mtm_calm day_one) (replicate 64 CHR ''0'') True (Fin (- 60000)) ''dhan:primary'' (example_breaker (Some mem_new))"
  let ?t = "\<lparr>mt_selector = ''dhan:primary'', mt_generation = 0, mt_ready = True, mt_dispatcher = True\<rparr>"
  have "snd ?started = Inr (Some ?t)" by code_simp
  then obtain b where b: "mtm_begin flaky_exec (mtm_calm day_one) (replicate 64 CHR ''0'') True (Fin (- 60000)) ''dhan:primary'' (mw_breaker w) = (b, Inr (Some ?t))"
    unfolding w_def by (cases ?started) simp
  define w1 where "w1 = w\<lparr>mw_breaker := b, mw_threads := (mw_threads w)(0 \<mapsto> (?t, Mtm_draining))\<rparr>"
  have s1: "mtm_step flaky_exec w (Mtm_begun 0) w1" unfolding w1_def by (rule mtm_step.begun [OF _ b]) (simp add: w_def)
  have "mb_writes (fst ?started) = []" by code_simp
  then have "writes_of (mw_breaker w1) ''dhan:primary'' = 0" using b by (simp add: w1_def w_def writes_of_def)
  then have s2: "mtm_step flaky_exec w1 (Mtm_thread 0) (w1\<lparr>mw_threads := (mw_threads w1)(0 \<mapsto> (?t, mtm_waited True ?t))\<rparr>)"
    by (intro mtm_step.waited) (simp_all add: w1_def)
  have "mtm_run flaky_exec w ([] @ [Mtm_begun 0] @ [Mtm_thread 0]) (w1\<lparr>mw_threads := (mw_threads w1)(0 \<mapsto> (?t, mtm_waited True ?t))\<rparr>)"
    using mtm_run.next_step [OF mtm_run.next_step [OF mtm_run.start s1] s2] by simp
  moreover define w2 where "w2 = w1\<lparr>mw_threads := (mw_threads w1)(0 \<mapsto> (?t, mtm_waited True ?t))\<rparr>"
  ultimately have run: "mtm_run flaky_exec w ([] @ [Mtm_begun 0] @ [Mtm_thread 0]) w2" by simp
  have w: "mtm_started w" by (simp add: mtm_started_def w_def example_breaker_def)
  have "mtm_waited True ?t = Mtm_flattening" by (simp add: mtm_waited_def)
  then have fl: "mw_threads w2 0 = Some (?t, Mtm_flattening)" by (simp add: w2_def)
  have "isl (snd (mtm_admit flaky_exec (mtm_calm day_one) ''dhan:primary'' (mw_breaker w2)))"
    using flatten_excludes_writes [OF run w fl] by simp
  moreover have "mt_selector ?t = ''dhan:primary''" "mw_writes w2 = []" by (simp_all add: w2_def w1_def w_def)
  ultimately show ?thesis using fl by blast
qed

end
