(* ===== verification/Float_Order.thy ===== *)
theory Float_Order
  imports Py_Floats
begin

text \<open>
  Rounding to a double is monotone. A double is \<open>m * 2 ^ e\<close> where \<open>e\<close> follows from the binade of the
  number, so two numbers of one binade are compared by their significands and two binades are
  separated by a power of two. Sums, differences and products inherit the order.
\<close>

subsection \<open>The significand\<close>

definition round_even :: "rat \<Rightarrow> int" where
  "round_even x =
     (let d = \<lfloor>x\<rfloor>; r = x - of_int d
      in if r < 1 / 2 then d else if 1 / 2 < r then d + 1 else if even d then d else d + 1)"

lemma round_even_of_int [simp]: "round_even (of_int n) = n"
  by (simp add: round_even_def)

lemma round_even_between: "\<lfloor>x\<rfloor> \<le> round_even x \<and> round_even x \<le> \<lfloor>x\<rfloor> + 1"
  by (simp add: round_even_def Let_def)

lemma round_even_mono:
  assumes "x \<le> y"
  shows "round_even x \<le> round_even y"
proof (cases "\<lfloor>x\<rfloor> = \<lfloor>y\<rfloor>")
  case True
  then show ?thesis using assms by (simp add: round_even_def Let_def)
next
  case False
  then have "\<lfloor>x\<rfloor> + 1 \<le> \<lfloor>y\<rfloor>" using floor_mono [OF assms] by simp
  then show ?thesis using round_even_between [of x] round_even_between [of y] by linarith
qed

lemma round_half_even_quotient:
  assumes "0 < q"
  shows "round_half_even p q = round_even (of_int p / of_int q)"
proof -
  have d: "\<lfloor>of_int p / of_int q :: rat\<rfloor> = p div q" by (rule floor_divide_of_int_eq)
  have "(of_int p :: rat) = of_int q * of_int (p div q) + of_int (p mod q)" by (metis mult_div_mod_eq of_int_add of_int_mult)
  then have r: "(of_int p / of_int q :: rat) - of_int (p div q) = of_int (p mod q) / of_int q"
    using assms by (simp add: field_simps)
  have "(of_int (p mod q) / of_int q :: rat) < 1 / 2 \<longleftrightarrow> (of_int (2 * (p mod q)) :: rat) < of_int q"
    and "1 / 2 < (of_int (p mod q) / of_int q :: rat) \<longleftrightarrow> (of_int q :: rat) < of_int (2 * (p mod q))"
    using assms by (simp_all add: field_simps)
  then show ?thesis unfolding round_half_even_def round_even_def Let_def d r of_int_less_iff by simp
qed

subsection \<open>The exponent\<close>

lemma powi_mono: "a \<le> b \<Longrightarrow> (2 :: rat) powi a \<le> 2 powi b"
  by (rule power_int_increasing) simp_all

lemma scaled_value_powi: "scaled_value m e = of_int m * 2 powi e"
proof (cases "0 \<le> e")
  case False
  then obtain k where "e = - int k" by (metis int_cases2 neg_0_le_iff_le of_nat_0_le_iff)
  then show ?thesis using False by (simp add: scaled_value_def Fract_of_int_quotient power_int_minus divide_inverse)
qed (simp add: scaled_value_def power_int_nonneg_exp)

lemma scale2_quotient:
  assumes "scale2 p q e = (s, t)" and "0 < q"
  shows "0 < t \<and> (of_int s / of_int t :: rat) = of_int p / of_int q * 2 powi (- e)"
proof (cases "0 \<le> e")
  case True
  then have "s = p" "t = q * 2 ^ nat e" using assms(1) by (simp_all add: scale2_def)
  then show ?thesis using True assms(2) by (simp add: power_int_minus power_int_nonneg_exp divide_inverse)
next
  case False
  then have "s = p * 2 ^ nat (- e)" "t = q" using assms(1) by (simp_all add: scale2_def)
  then show ?thesis using False assms(2) by (simp add: power_int_nonneg_exp)
qed

lemma le_scaled_iff: "1 \<le> x * (2 :: rat) powi (- e) \<longleftrightarrow> 2 powi e \<le> x"
  by (simp add: power_int_minus field_simps)

lemma quotient_bounds:
  fixes u v U V :: rat
  shows "U / 2 \<le> u \<Longrightarrow> v < V \<Longrightarrow> 0 < v \<Longrightarrow> 0 < u \<Longrightarrow> U / (2 * V) < u / v"
    and "u < U \<Longrightarrow> V / 2 \<le> v \<Longrightarrow> 0 < V \<Longrightarrow> 0 < u \<Longrightarrow> u / v < 2 * U / V"
proof -
  assume a: "U / 2 \<le> u" "v < V" "0 < v" "0 < u"
  have "U / (2 * V) = U / 2 / V" by simp
  also have "\<dots> \<le> u / V" using a by (intro divide_right_mono) simp_all
  also have "\<dots> < u / v" using a by (intro divide_strict_left_mono) simp_all
  finally show "U / (2 * V) < u / v" .
next
  assume a: "u < U" "V / 2 \<le> v" "0 < V" "0 < u"
  have "u / v \<le> u / (V / 2)" using a by (intro divide_left_mono) simp_all
  also have "\<dots> < U / (V / 2)" using a by (intro divide_strict_right_mono) simp_all
  finally show "u / v < 2 * U / V" by (simp add: mult.commute)
qed

lemma ndigits_powi:
  assumes "0 < n"
  shows "(2 :: rat) powi (int (ndigits 2 n) - 1) \<le> of_int n" "(of_int n :: rat) < 2 powi int (ndigits 2 n)"
proof -
  have "(of_int n :: rat) < of_int (2 ^ ndigits 2 n)" using less_power_ndigits [of 2 n] assms by (simp only: of_int_less_iff)
  then show "(of_int n :: rat) < 2 powi int (ndigits 2 n)" by simp
  have "ndigits 2 n \<noteq> 0" using assms by (simp add: ndigits_step)
  then have "int (ndigits 2 n) - 1 = int (ndigits 2 n - 1)" by simp
  moreover have "(of_int (2 ^ (ndigits 2 n - 1)) :: rat) \<le> of_int n" using power_ndigits_le [of 2 n] assms by (simp only: of_int_le_iff)
  ultimately show "(2 :: rat) powi (int (ndigits 2 n) - 1) \<le> of_int n" by (simp only: power_int_of_nat of_int_power of_int_numeral)
qed

lemma binade_of_digits:
  assumes "0 < p" and "0 < q"
  shows "(2 :: rat) powi (int (ndigits 2 p) - int (ndigits 2 q) - 1) < of_int p / of_int q"
    "of_int p / of_int q < (2 :: rat) powi (int (ndigits 2 p) - int (ndigits 2 q) + 1)"
proof -
  let ?P = "(2 :: rat) powi int (ndigits 2 p)" and ?Q = "(2 :: rat) powi int (ndigits 2 q)"
  have P: "0 < ?P" "0 < ?Q" by simp_all
  have half: "(2 :: rat) powi (k - 1) = 2 powi k / 2" for k by (simp add: power_int_diff)
  have b: "?P / 2 \<le> of_int p" "of_int p < ?P" "?Q / 2 \<le> of_int q" "of_int q < ?Q"
    using ndigits_powi [OF assms(1)] ndigits_powi [OF assms(2)] by (simp_all only: half)
  have q: "(0 :: rat) < of_int q" "(0 :: rat) < of_int p" using assms by simp_all
  show "(2 :: rat) powi (int (ndigits 2 p) - int (ndigits 2 q) - 1) < of_int p / of_int q"
    using quotient_bounds(1) [OF b(1,4) q(1,2)] by (simp add: power_int_diff mult.commute)
  show "of_int p / of_int q < (2 :: rat) powi (int (ndigits 2 p) - int (ndigits 2 q) + 1)"
    using quotient_bounds(2) [OF b(2,3) P(2) q(2)] by (simp add: power_int_diff power_int_add mult.commute)
qed

text \<open>The number \<open>x\<close> lies in the binade \<open>b\<close> and is rounded to \<open>m * 2 ^ e\<close>.\<close>

definition rounds :: "rat \<Rightarrow> int \<Rightarrow> int \<Rightarrow> int \<Rightarrow> bool" where
  "rounds x b m e \<longleftrightarrow> 2 powi b \<le> x \<and> x < 2 powi (b + 1) \<and> e = max (b - 52) (- 1074) \<and> m = round_even (x * 2 powi (- e))"

lemma round64_pos_rounds:
  assumes "round64_pos p q = (m, e)" and "0 < p" and "0 < q"
  obtains b where "rounds (of_int p / of_int q) b m e"
proof -
  let ?x = "of_int p / of_int q :: rat" and ?e0 = "int (ndigits 2 p) - int (ndigits 2 q)"
  obtain s t where st: "scale2 p q ?e0 = (s, t)" by fastforce
  from scale2_quotient [OF st assms(3)] have t: "0 < t" "(of_int s / of_int t :: rat) = ?x * 2 powi (- ?e0)" by auto
  define b where "b = (if t \<le> s then ?e0 else ?e0 - 1)"
  have "t \<le> s \<longleftrightarrow> (1 :: rat) \<le> of_int s / of_int t" using t(1) by simp
  also have "\<dots> \<longleftrightarrow> 2 powi ?e0 \<le> ?x" unfolding t(2) by (rule le_scaled_iff)
  finally have "2 powi b \<le> ?x \<and> ?x < 2 powi (b + 1)"
    using binade_of_digits [OF assms(2,3)] by (auto simp: b_def)
  moreover obtain u v where uv: "scale2 p q (max (b - 52) (- 1074)) = (u, v)" by fastforce
  moreover have "m = round_half_even u v \<and> e = max (b - 52) (- 1074)"
    using assms(1) st uv by (simp add: round64_pos_def Let_def flip: b_def)
  ultimately have "rounds ?x b m e"
    using scale2_quotient [OF uv assms(3)] by (simp add: rounds_def round_half_even_quotient)
  then show thesis by (rule that)
qed

lemma rounds_normal:
  assumes "rounds x b m e" and "e \<noteq> - 1074"
  shows "0 < m"
proof -
  have e: "e = b - 52" "m = round_even (x * 2 powi (- e))" "2 powi b \<le> x" using assms by (auto simp: rounds_def max_def split: if_splits)
  have "(2 :: rat) ^ 52 = 2 powi b * 2 powi (- e)" unfolding e(1) by (simp add: power_int_add [symmetric])
  also have "\<dots> \<le> x * 2 powi (- e)" using e(3) by (intro mult_right_mono) simp_all
  finally have "of_int (2 ^ 52) \<le> x * 2 powi (- e)" by simp
  then have "2 ^ 52 \<le> m" unfolding e(2) using round_even_mono by (metis round_even_of_int)
  then show ?thesis by (rule less_le_trans [rotated]) simp
qed

lemma rounds_binade_mono:
  assumes "rounds x b m e" and "rounds y c n f" and "x \<le> y"
  shows "b \<le> c"
proof (rule ccontr)
  assume "\<not> b \<le> c"
  then have "(2 :: rat) powi (c + 1) \<le> 2 powi b" by (intro powi_mono) simp
  then show False using assms by (simp add: rounds_def)
qed

lemma rounds_mono:
  assumes x: "rounds x b m e" and y: "rounds y c n f" and "x \<le> y"
  shows "(of_int m * 2 powi e :: rat) \<le> of_int n * 2 powi f"
proof (cases "e = f")
  case True
  have "x * 2 powi (- e) \<le> y * 2 powi (- e)" using assms(3) by (intro mult_right_mono) simp_all
  then have "m \<le> n" using x y True by (simp add: rounds_def round_even_mono)
  then show ?thesis using True by simp
next
  case False
  have bc: "b \<le> c" using rounds_binade_mono [OF assms] .
  then have c: "b + 1 \<le> c" "e \<le> c" "f \<le> c" using x y False by (auto simp: rounds_def)
  have edge: "z * 2 powi (- g) = of_int (2 ^ nat (c - g))" if "z = 2 powi c" "g \<le> c" for z :: rat and g
    using that by (simp add: power_int_add [symmetric] power_int_nonneg_exp)
  have "x \<le> 2 powi c" using x powi_mono [OF c(1)] by (simp add: rounds_def)
  then have "x * 2 powi (- e) \<le> 2 powi c * 2 powi (- e)" by (intro mult_right_mono) simp_all
  then have m: "m \<le> 2 ^ nat (c - e)" using x round_even_mono edge [OF refl c(2)] by (metis rounds_def round_even_of_int)
  have "2 powi c * 2 powi (- f) \<le> y * 2 powi (- f)" using y by (intro mult_right_mono) (simp_all add: rounds_def)
  then have n: "2 ^ nat (c - f) \<le> n" using y round_even_mono edge [OF refl c(3)] by (metis rounds_def round_even_of_int)
  have edge2: "of_int (2 ^ nat (c - g)) * (2 :: rat) powi g = 2 powi c" if "g \<le> c" for g
    using that by (simp add: power_int_add [symmetric] power_int_nonneg_exp [symmetric])
  have "(of_int m * 2 powi e :: rat) \<le> of_int (2 ^ nat (c - e)) * 2 powi e" using m by (intro mult_right_mono) (simp_all only: of_int_le_iff zero_le_power_int zero_le_numeral)
  also have "\<dots> = of_int (2 ^ nat (c - f)) * 2 powi f" using edge2 [OF c(2)] edge2 [OF c(3)] by simp
  also have "\<dots> \<le> of_int n * 2 powi f" using n by (intro mult_right_mono) (simp_all only: of_int_le_iff zero_le_power_int zero_le_numeral)
  finally show ?thesis .
qed

subsection \<open>The double\<close>

lemma overflows_iff:
  assumes "0 < m"
  shows "overflows m e \<longleftrightarrow> (2 :: rat) powi 1024 \<le> of_int m * 2 powi e"
proof
  let ?k = "int (ndigits 2 m)"
  assume "overflows m e"
  then have "(2 :: rat) powi 1024 \<le> 2 powi (?k - 1 + e)" by (intro powi_mono) (simp add: overflows_def)
  also have "\<dots> = 2 powi (?k - 1) * 2 powi e" by (rule power_int_add) simp
  also have "\<dots> \<le> of_int m * 2 powi e" using ndigits_powi(1) [OF assms] by (intro mult_right_mono) simp_all
  finally show "(2 :: rat) powi 1024 \<le> of_int m * 2 powi e" .
next
  let ?k = "int (ndigits 2 m)"
  assume big: "(2 :: rat) powi 1024 \<le> of_int m * 2 powi e"
  have "of_int m * 2 powi e < (2 :: rat) powi ?k * 2 powi e" using ndigits_powi(2) [OF assms] by (intro mult_strict_right_mono) simp_all
  also have "\<dots> = 2 powi (?k + e)" by (rule power_int_add [symmetric]) simp
  finally have less: "(2 :: rat) powi 1024 < 2 powi (?k + e)" using big by simp
  show "overflows m e"
  proof (rule ccontr)
    assume "\<not> overflows m e"
    then have "(2 :: rat) powi (?k + e) \<le> 2 powi 1024" by (intro powi_mono) (simp add: overflows_def)
    then show False using less by simp
  qed
qed

definition double_of :: "rat \<Rightarrow> fnum" where
  "double_of v = (if 2 powi 1024 \<le> v then PosInf else if v \<le> - (2 powi 1024) then NegInf else Fin v)"

lemma double_of_mono: "v \<le> w \<Longrightarrow> f_le (double_of v) (double_of w)"
  by (auto simp: double_of_def f_le_def)

lemma round64_double:
  assumes "0 < x"
  obtains b m e where "rounds x b m e" "0 \<le> m" "round64 x = double_of (of_int m * 2 powi e)" "round64 (- x) = double_of (- (of_int m * 2 powi e))"
proof -
  obtain p q where pq: "quotient_of x = (p, q)" by fastforce
  have q: "0 < q" "x = of_int p / of_int q" using quotient_of_denom_pos [OF pq] quotient_of_div [OF pq] by auto
  then have p: "0 < p" using assms by (simp add: zero_less_divide_iff)
  have neg: "quotient_of (- x) = (- p, q)" by (simp add: rat_uminus_code pq)
  obtain m e where me: "round64_pos p q = (m, e)" by fastforce
  then obtain b where b: "rounds x b m e" using p q by (metis round64_pos_rounds)
  have "0 \<le> x * 2 powi (- e)" using assms by simp
  from round_even_mono [OF this] have m: "0 \<le> m" using b round_even_of_int [of 0] by (simp add: rounds_def)
  have big: "overflows m e \<longleftrightarrow> (2 :: rat) powi 1024 \<le> of_int m * 2 powi e"
  proof (cases "m = 0")
    case True
    then have "e = - 1074" using rounds_normal [OF b] by auto
    moreover have "ndigits 2 0 = 0" using ndigits_le [of 2 0 0] by simp
    ultimately show ?thesis using True by (simp add: overflows_def)
  qed (use m in \<open>simp add: overflows_iff\<close>)
  have v: "(0 :: rat) \<le> of_int m * 2 powi e" using m by simp
  have "round64 x = double_of (of_int m * 2 powi e)"
    using assms p pq me big v by (auto simp: round64_def double_of_def scaled_value_powi)
  moreover have "round64 (- x) = double_of (- (of_int m * 2 powi e))"
    using assms p neg me big v by (auto simp: round64_def double_of_def scaled_value_powi)
  ultimately show thesis using b m by (intro that)
qed

lemma round64_0 [simp]: "round64 0 = Fin 0"
  by (simp add: round64_def)

lemma round64_nonneg: "0 \<le> x \<Longrightarrow> f_le (Fin 0) (round64 x)"
proof (cases "x = 0")
  case False
  assume "0 \<le> x"
  with False have "0 < x" by simp
  then obtain b m e where "0 \<le> m" "round64 x = double_of (of_int m * 2 powi e)" by (rule round64_double)
  then show ?thesis using double_of_mono [of 0 "of_int m * 2 powi e"] by (simp add: double_of_def)
qed simp

lemma round64_nonpos: "x \<le> 0 \<Longrightarrow> f_le (round64 x) (Fin 0)"
proof (cases "x = 0")
  case False
  assume "x \<le> 0"
  with False have "0 < - x" by simp
  then obtain b m e where "0 \<le> m" "round64 (- (- x)) = double_of (- (of_int m * 2 powi e))" by (rule round64_double)
  then show ?thesis using double_of_mono [of "- (of_int m * 2 powi e)" 0] by (simp add: double_of_def)
qed simp

theorem round64_mono:
  assumes "x \<le> y"
  shows "f_le (round64 x) (round64 y)"
proof -
  consider "0 < x" | "y < 0" | "x \<le> 0" "0 \<le> y" by linarith
  then show ?thesis
  proof cases
    case 1
    obtain b m e where m: "rounds x b m e" "round64 x = double_of (of_int m * 2 powi e)" using 1 by (rule round64_double)
    have "0 < y" using 1 assms by simp
    then obtain c n f where n: "rounds y c n f" "round64 y = double_of (of_int n * 2 powi f)" by (rule round64_double)
    show ?thesis unfolding m(2) n(2) by (rule double_of_mono) (rule rounds_mono [OF m(1) n(1) assms])
  next
    case 2
    then have "0 < - x" "0 < - y" using assms by simp_all
    obtain b m e where m: "rounds (- x) b m e" "round64 (- (- x)) = double_of (- (of_int m * 2 powi e))" using \<open>0 < - x\<close> by (rule round64_double)
    obtain c n f where n: "rounds (- y) c n f" "round64 (- (- y)) = double_of (- (of_int n * 2 powi f))" using \<open>0 < - y\<close> by (rule round64_double)
    have "of_int n * 2 powi f \<le> (of_int m * 2 powi e :: rat)" using rounds_mono [OF n(1) m(1)] assms by simp
    then show ?thesis using double_of_mono m(2) n(2) by simp
  next
    case 3
    then show ?thesis using f_le_trans round64_nonneg round64_nonpos by blast
  qed
qed

lemma round64_not_nan [simp]: "round64 x \<noteq> NotANum"
  using round64_mono [of x x] by (auto simp: f_le_def)

lemma f_sub_mono: "a \<le> b \<Longrightarrow> f_le (f_sub (Fin a) (Fin t)) (f_sub (Fin b) (Fin t))"
  by (simp add: f_sub_def round64_mono)

lemma f_sub_antimono: "s \<le> t \<Longrightarrow> f_le (f_sub (Fin a) (Fin t)) (f_sub (Fin a) (Fin s))"
  by (simp add: f_sub_def round64_mono)

lemma f_le_less_trans: "f_le a b \<Longrightarrow> f_less b c \<Longrightarrow> f_less a c"
  by (auto simp: f_le_def intro: f_less_trans)

end
