(* ===== verification/Request_Guards.thy ===== *)
theory Request_Guards
  imports Float_Order Iso_Time
begin

text \<open>
  The guards in front of the order routes: the order-tagging guard with its ceiling of orders per
  second (\<open>algo_tag_guard.py\<close>), the token buckets of \<open>rate_limiter.py\<close> and the mode guards of
  \<open>mode_guard.py\<close>. What runs under a lock is one step; readings of the clock, the decoding of a
  token and the success of a database write are arguments. Differences of clock readings are rounded
  as doubles.
\<close>

subsection \<open>Order tags\<close>

datatype algo_error = Algo_unconfigured string | Algo_rate_exceeded string string int

record algo_config =
  ac_algo_id :: string
  ac_max_orders :: int

record algo_guard =
  ag_configs :: "(string \<times> algo_config) list"
  ag_events :: "((string \<times> string) \<times> fnum list) list"

definition new_algo_guard :: "(string \<times> algo_config) list \<Rightarrow> algo_guard" where
  "new_algo_guard cs = \<lparr>ag_configs = cs, ag_events = []\<rparr>"

definition events_of :: "algo_guard \<Rightarrow> string \<times> string \<Rightarrow> fnum list" where
  "events_of g key = (case map_of (ag_events g) key of None \<Rightarrow> [] | Some ts \<Rightarrow> ts)"

definition in_window :: "fnum \<Rightarrow> fnum \<Rightarrow> bool" where
  "in_window now t = f_less (f_sub now t) (Fin 1)"

definition recent_events :: "string \<times> string \<Rightarrow> fnum \<Rightarrow> algo_guard \<Rightarrow> fnum list" where
  "recent_events key now g = filter (in_window now) (events_of g key)"

definition tag_order :: "string \<Rightarrow> string \<Rightarrow> fnum \<Rightarrow> algo_guard \<Rightarrow> (algo_guard, algo_error, string) outcome" where
  "tag_order broker exchange now g =
     (case map_of (ag_configs g) broker of
        None \<Rightarrow> (g, Inl (Algo_unconfigured broker))
      | Some cfg \<Rightarrow>
          (let key = (broker, exchange); window = recent_events key now g
           in if ac_max_orders cfg \<le> int (length window) then (g, Inl (Algo_rate_exceeded broker exchange (ac_max_orders cfg)))
              else (g\<lparr>ag_events := AList.update key (window @ [now]) (ag_events g)\<rparr>, Inr (ac_algo_id cfg))))"

definition algo_usage :: "string \<Rightarrow> string \<Rightarrow> fnum \<Rightarrow> algo_guard \<Rightarrow> algo_guard \<times> int" where
  "algo_usage broker exchange now g =
     (let window = recent_events (broker, exchange) now g
      in (g\<lparr>ag_events := AList.update (broker, exchange) window (ag_events g)\<rparr>, int (length window)))"

definition algo_id_for :: "string \<Rightarrow> algo_guard \<Rightarrow> string option" where
  "algo_id_for broker g = map_option ac_algo_id (map_of (ag_configs g) broker)"

text \<open>A run of the guard with the tagged orders beside it, in the order in which they took the lock.\<close>

datatype algo_op = Tag string string rat | Usage string string rat

fun op_time :: "algo_op \<Rightarrow> rat" where
  "op_time (Tag broker exchange now) = now"
| "op_time (Usage broker exchange now) = now"

fun algo_exec :: "algo_guard \<times> ((string \<times> string) \<times> rat) list \<Rightarrow> algo_op \<Rightarrow> algo_guard \<times> ((string \<times> string) \<times> rat) list" where
  "algo_exec (g, tagged) (Tag broker exchange now) =
     (case tag_order broker exchange (Fin now) g of
        (g, Inl e) \<Rightarrow> (g, tagged)
      | (g, Inr algo_id) \<Rightarrow> (g, tagged @ [((broker, exchange), now)]))"
| "algo_exec (g, tagged) (Usage broker exchange now) = (fst (algo_usage broker exchange (Fin now) g), tagged)"

definition tagged_times :: "string \<times> string \<Rightarrow> ((string \<times> string) \<times> rat) list \<Rightarrow> rat list" where
  "tagged_times key tagged = map snd (filter (\<lambda>e. fst e = key) tagged)"

lemma tagged_times_append [simp]:
  "tagged_times key (es @ [(k, t)]) = tagged_times key es @ (if k = key then [t] else [])"
  by (simp add: tagged_times_def)

lemma in_window_antimono: "in_window (Fin n) (Fin s) \<Longrightarrow> s \<le> t \<Longrightarrow> in_window (Fin n) (Fin t)"
  unfolding in_window_def by (rule f_le_less_trans [OF f_sub_antimono])

lemma in_window_mono: "in_window (Fin n) (Fin t) \<Longrightarrow> m \<le> n \<Longrightarrow> in_window (Fin m) (Fin t)"
  unfolding in_window_def by (rule f_le_less_trans [OF f_sub_mono])

lemma filter_sorted_suffix:
  assumes "sorted ts" and "\<And>s t. P s \<Longrightarrow> s \<le> t \<Longrightarrow> P t"
  obtains older where "ts = older @ filter P ts" "list_all (\<lambda>t. \<not> P t) older"
proof -
  have "\<exists>older. ts = older @ filter P ts \<and> list_all (\<lambda>t. \<not> P t) older"
    using assms(1)
  proof (induction ts)
    case (Cons t ts)
    show ?case
    proof (cases "P t")
      case True
      then have "filter P ts = ts" using Cons.prems assms(2) by (auto simp: filter_id_conv)
      then show ?thesis using True by (intro exI [of _ "[]"]) simp
    next
      case False
      obtain older where "ts = older @ filter P ts" "list_all (\<lambda>t. \<not> P t) older" using Cons by auto
      then show ?thesis using False by (intro exI [of _ "t # older"]) simp
    qed
  qed simp
  then show thesis using that by blast
qed

text \<open>Orders that are \<open>k\<close> apart in the list are not within one window.\<close>

definition spaced :: "nat \<Rightarrow> rat list \<Rightarrow> bool" where
  "spaced k ts \<longleftrightarrow> (\<forall>i. i + k < length ts \<longrightarrow> \<not> in_window (Fin (ts ! (i + k))) (Fin (ts ! i)))"

definition burst_inv :: "string \<times> string \<Rightarrow> algo_config \<Rightarrow> rat \<Rightarrow> algo_guard \<times> ((string \<times> string) \<times> rat) list \<Rightarrow> bool" where
  "burst_inv key cfg now st \<longleftrightarrow>
     map_of (ag_configs (fst st)) (fst key) = Some cfg \<and>
     (\<exists>older ts. events_of (fst st) key = map Fin ts \<and> tagged_times key (snd st) = older @ ts
        \<and> list_all (\<lambda>t. \<not> in_window (Fin now) (Fin t)) older
        \<and> sorted (older @ ts) \<and> list_all (\<lambda>t. t \<le> now) (older @ ts) \<and> spaced (nat (ac_max_orders cfg)) (older @ ts))"

lemma burst_inv_start: "map_of cs (fst key) = Some cfg \<Longrightarrow> burst_inv key cfg now (new_algo_guard cs, [])"
  by (simp add: burst_inv_def new_algo_guard_def events_of_def tagged_times_def spaced_def)

lemma burst_invI:
  "map_of (ag_configs g) (fst key) = Some cfg \<Longrightarrow> events_of g key = map Fin ts \<Longrightarrow> tagged_times key tagged = older @ ts \<Longrightarrow>
   list_all (\<lambda>t. \<not> in_window (Fin now) (Fin t)) older \<Longrightarrow> sorted (older @ ts) \<Longrightarrow> list_all (\<lambda>t. t \<le> now) (older @ ts) \<Longrightarrow>
   spaced (nat (ac_max_orders cfg)) (older @ ts) \<Longrightarrow> burst_inv key cfg now (g, tagged)"
  unfolding burst_inv_def fst_conv snd_conv by blast

text \<open>The invariant at a later reading, with the events of the key reduced to the window.\<close>

lemma burst_inv_window:
  assumes "burst_inv key cfg n (g, tagged)" and "n \<le> now"
  obtains older ts where "recent_events key (Fin now) g = map Fin ts" "tagged_times key tagged = older @ ts"
    "list_all (\<lambda>t. \<not> in_window (Fin now) (Fin t)) older" "sorted (older @ ts)" "list_all (\<lambda>t. t \<le> now) (older @ ts)"
    "spaced (nat (ac_max_orders cfg)) (older @ ts)"
proof -
  obtain old ts where ev: "events_of g key = map Fin ts" and tt: "tagged_times key tagged = old @ ts"
    and old: "list_all (\<lambda>t. \<not> in_window (Fin n) (Fin t)) old" and rest: "sorted (old @ ts)" "list_all (\<lambda>t. t \<le> n) (old @ ts)" "spaced (nat (ac_max_orders cfg)) (old @ ts)"
    using assms(1) by (auto simp: burst_inv_def)
  let ?P = "\<lambda>t. in_window (Fin now) (Fin t)"
  have "sorted ts" using rest(1) by (simp add: sorted_append)
  then obtain mid where mid: "ts = mid @ filter ?P ts" "list_all (\<lambda>t. \<not> ?P t) mid"
    by (rule filter_sorted_suffix [of ts ?P]) (auto intro: in_window_antimono)
  have whole: "old @ ts = (old @ mid) @ filter ?P ts" using mid(1) by simp
  have "recent_events key (Fin now) g = map Fin (filter ?P ts)" by (simp add: recent_events_def ev filter_map comp_def)
  moreover have "list_all (\<lambda>t. \<not> ?P t) (old @ mid)" using old mid(2) in_window_mono assms(2) by (auto simp: list_all_iff)
  moreover have "list_all (\<lambda>t. t \<le> now) (old @ ts)" using rest(2) by (rule list.pred_mono_strong) (use assms(2) in simp)
  ultimately show thesis using that [of "filter ?P ts" "old @ mid"] tt rest whole by metis
qed

lemma spaced_extend:
  assumes "spaced k (older @ ts)" and "length ts < k" and "list_all (\<lambda>t. \<not> in_window (Fin now) (Fin t)) older"
  shows "spaced k ((older @ ts) @ [now])"
  unfolding spaced_def
proof (intro allI impI)
  fix i
  assume i: "i + k < length ((older @ ts) @ [now])"
  show "\<not> in_window (Fin (((older @ ts) @ [now]) ! (i + k))) (Fin (((older @ ts) @ [now]) ! i))"
  proof (cases "i + k < length (older @ ts)")
    case True
    then have "i < length (older @ ts)" by simp
    then show ?thesis using True assms(1) unfolding spaced_def by (simp only: nth_append_left not_False_eq_True)
  next
    case False
    then have k: "i + k = length (older @ ts)" using i by simp
    then have "i < length older" using assms(2) by simp
    then show ?thesis using k assms(3) by (auto simp: nth_append list_all_length)
  qed
qed

lemma events_of_update: "events_of (g\<lparr>ag_events := AList.update k es (ag_events g)\<rparr>) key = (if k = key then es else events_of g key)"
  by (simp add: events_of_def update_conv')

lemma burst_inv_exec:
  assumes inv: "burst_inv key cfg n st" and n: "n \<le> op_time op"
  shows "burst_inv key cfg (op_time op) (algo_exec st op)"
proof -
  let ?now = "op_time op"
  obtain g tagged where st [simp]: "st = (g, tagged)" by (cases st)
  obtain older ts where w: "recent_events key (Fin ?now) g = map Fin ts" "tagged_times key tagged = older @ ts"
    "list_all (\<lambda>t. \<not> in_window (Fin ?now) (Fin t)) older" "sorted (older @ ts)" "list_all (\<lambda>t. t \<le> ?now) (older @ ts)"
    "spaced (nat (ac_max_orders cfg)) (older @ ts)" by (rule burst_inv_window [OF inv [simplified] n])
  have cfg: "map_of (ag_configs g) (fst key) = Some cfg" using inv by (simp add: burst_inv_def)
  have same: "burst_inv key cfg ?now (h, tagged)" if "ag_configs h = ag_configs g" "events_of h key = events_of g key \<or> events_of h key = map Fin ts" for h
  proof -
    obtain old us where u: "events_of g key = map Fin us" "tagged_times key tagged = old @ us" "list_all (\<lambda>t. \<not> in_window (Fin n) (Fin t)) old"
      using inv by (auto simp: burst_inv_def)
    have "list_all (\<lambda>t. \<not> in_window (Fin ?now) (Fin t)) old" using u(3) by (rule list.pred_mono_strong) (use in_window_mono n in blast)
    then have "burst_inv key cfg ?now (h, tagged)" if "events_of h key = map Fin us"
      using that u(2) w(2,4-6) cfg \<open>ag_configs h = ag_configs g\<close> by (intro burst_invI [of h key cfg us tagged old]) (simp_all only:)
    moreover have "burst_inv key cfg ?now (h, tagged)" if "events_of h key = map Fin ts"
      using that w(2-6) cfg \<open>ag_configs h = ag_configs g\<close> by (intro burst_invI [of h key cfg ts tagged older]) (simp_all only:)
    ultimately show ?thesis using that(2) u(1) by auto
  qed
  show ?thesis
  proof (cases op)
    case (Usage broker exchange now)
    have "burst_inv key cfg ?now (g\<lparr>ag_events := AList.update (broker, exchange) (recent_events (broker, exchange) (Fin now) g) (ag_events g)\<rparr>, tagged)"
      using w(1) Usage by (intro same) (auto simp: events_of_update)
    then show ?thesis using Usage by (simp add: algo_usage_def Let_def)
  next
    case (Tag broker exchange now)
    let ?r = "tag_order broker exchange (Fin now) g"
    consider e where "?r = (g, Inl e)" | c where "map_of (ag_configs g) broker = Some c" "int (length (recent_events (broker, exchange) (Fin now) g)) < ac_max_orders c"
        "?r = (g\<lparr>ag_events := AList.update (broker, exchange) (recent_events (broker, exchange) (Fin now) g @ [Fin now]) (ag_events g)\<rparr>, Inr (ac_algo_id c))"
      by (fastforce simp: tag_order_def Let_def split: option.splits if_splits)
    then show ?thesis
    proof cases
      case 1
      then show ?thesis using Tag same [of g] by simp
    next
      case (2 c)
      show ?thesis
      proof (cases "(broker, exchange) = key")
        case False
        then show ?thesis using 2 Tag same [of "g\<lparr>ag_events := AList.update (broker, exchange) (recent_events (broker, exchange) (Fin now) g @ [Fin now]) (ag_events g)\<rparr>"]
          by (auto simp: events_of_update burst_inv_def)
      next
        case True
        then have "c = cfg" "length ts < nat (ac_max_orders cfg)" using 2(1,2) cfg w(1) Tag by auto
        then have "spaced (nat (ac_max_orders cfg)) ((older @ ts) @ [now])" using spaced_extend w(3,6) Tag by auto
        moreover have "sorted ((older @ ts) @ [now])" using w(4,5) Tag by (auto simp: sorted_append list_all_iff)
        ultimately have "burst_inv key cfg now (g\<lparr>ag_events := AList.update key (map Fin ts @ [Fin now]) (ag_events g)\<rparr>, tagged @ [(key, now)])"
          using w(2,3,5) cfg Tag by (intro burst_invI [of _ key cfg "ts @ [now]" _ older]) (simp_all add: events_of_update)
        then show ?thesis using 2(3) True Tag w(1) by simp
      qed
    qed
  qed
qed

lemma burst_inv_run: "burst_inv key cfg n st \<Longrightarrow> sorted (n # map op_time ops) \<Longrightarrow> \<exists>m. burst_inv key cfg m (foldl algo_exec st ops)"
proof (induction ops arbitrary: n st)
  case (Cons op ops)
  have "burst_inv key cfg (op_time op) (algo_exec st op)" using Cons.prems by (intro burst_inv_exec) auto
  then show ?case using Cons.IH [of "op_time op" "algo_exec st op"] Cons.prems by auto
qed auto

text \<open>
  C31. The orders tagged for a broker and an exchange never exceed the ceiling in any window of one
  second: an order and the one that comes ceiling places after it are at least a second apart, as
  the guard measures it, as long as the readings of the clock do not go back.
\<close>

theorem tagged_orders_respect_ceiling:
  assumes "map_of cs broker = Some cfg" and "sorted (map op_time ops)"
    and "ts = tagged_times (broker, exchange) (snd (foldl algo_exec (new_algo_guard cs, []) ops))"
    and "i + nat (ac_max_orders cfg) < length ts"
  shows "\<not> f_less (f_sub (Fin (ts ! (i + nat (ac_max_orders cfg)))) (Fin (ts ! i))) (Fin 1)"
proof -
  let ?key = "(broker, exchange)" and ?n = "case ops of [] \<Rightarrow> 0 | op # _ \<Rightarrow> op_time op"
  have "sorted (?n # map op_time ops)" using assms(2) by (cases ops) auto
  moreover have "burst_inv ?key cfg ?n (new_algo_guard cs, [])" using assms(1) by (intro burst_inv_start) simp
  ultimately obtain m where "burst_inv ?key cfg m (foldl algo_exec (new_algo_guard cs, []) ops)" using burst_inv_run by blast
  then have "spaced (nat (ac_max_orders cfg)) ts" using assms(3) by (auto simp: burst_inv_def)
  then show ?thesis using assms(4) by (simp add: spaced_def in_window_def)
qed

text \<open>Two orders in one second, the third a moment later is refused, one a second after the first is tagged.\<close>

definition sample_algo_ops :: "algo_op list" where
  "sample_algo_ops = [Tag ''zerodha'' ''NFO'' 10, Tag ''zerodha'' ''NFO'' (21 / 2), Tag ''zerodha'' ''NFO'' (43 / 4), Tag ''zerodha'' ''NFO'' 11]"

definition sample_algo_configs :: "(string \<times> algo_config) list" where
  "sample_algo_configs = [(''zerodha'', \<lparr>ac_algo_id = ''ALGO1'', ac_max_orders = 2\<rparr>)]"

theorem tagged_orders_respect_ceiling_witness:
  "\<exists>ts. ts = tagged_times (''zerodha'', ''NFO'') (snd (foldl algo_exec (new_algo_guard sample_algo_configs, []) sample_algo_ops))
     \<and> ts = [10, 21 / 2, 11] \<and> \<not> f_less (f_sub (Fin 11) (Fin 10)) (Fin 1)"
proof -
  have ts: "tagged_times (''zerodha'', ''NFO'') (snd (foldl algo_exec (new_algo_guard sample_algo_configs, []) sample_algo_ops)) = [10, 21 / 2, 11]"
    by code_simp
  have "\<not> f_less (f_sub (Fin ([10, 21 / 2, 11] ! (0 + nat (ac_max_orders \<lparr>ac_algo_id = ''ALGO1'', ac_max_orders = 2\<rparr>)))) (Fin ([10, 21 / 2, 11] ! 0))) (Fin 1)"
    by (rule tagged_orders_respect_ceiling [of sample_algo_configs "''zerodha''" _ sample_algo_ops _ "''NFO''", OF _ _ ts [symmetric]])
      (simp_all add: sample_algo_configs_def sample_algo_ops_def)
  then show ?thesis using ts by simp
qed

subsection \<open>Token buckets\<close>

datatype limit_error = Rate_not_positive int | Rate_too_large float_error | Rate_is_zero | Wait_not_finite

record bucket =
  bk_capacity :: fnum
  bk_rate :: fnum
  bk_tokens :: fnum
  bk_last :: fnum

text \<open>\<open>min\<close> of two floats, and \<open>round\<close> of a float to an integer.\<close>

definition f_min :: "fnum \<Rightarrow> fnum \<Rightarrow> fnum" where
  "f_min a b = (if f_less b a then b else a)"

fun f_round :: "fnum \<Rightarrow> int option" where
  "f_round (Fin r) = Some (round_even r)"
| "f_round f = None"

definition refilled :: "fnum \<Rightarrow> bucket \<Rightarrow> bucket" where
  "refilled now b = b\<lparr>bk_tokens := f_min (bk_capacity b) (f_add (bk_tokens b) (f_mul (f_sub now (bk_last b)) (bk_rate b))), bk_last := now\<rparr>"

definition consume :: "fnum \<Rightarrow> bucket \<Rightarrow> (bucket, limit_error, bool \<times> int) outcome" where
  "consume now b =
     (let b = refilled now b
      in if f_le (Fin 1) (bk_tokens b) then (b\<lparr>bk_tokens := f_sub (bk_tokens b) (Fin 1)\<rparr>, Inr (True, 0))
         else (case f_div (f_sub (Fin 1) (bk_tokens b)) (bk_rate b) of
                 None \<Rightarrow> (b, Inl Rate_is_zero)
               | Some wait_s \<Rightarrow>
                   (case f_round (f_mul wait_s (Fin 1000)) of
                      None \<Rightarrow> (b, Inl Wait_not_finite)
                    | Some ms \<Rightarrow> (b, Inr (False, ms)))))"

definition put_back :: "bucket \<Rightarrow> bucket" where
  "put_back b = b\<lparr>bk_tokens := f_min (bk_capacity b) (f_add (bk_tokens b) (Fin 1))\<rparr>"

record endpoint_config =
  ec_user_rate :: int
  ec_global_rate :: int

text \<open>The rows of the overrides table are \<open>None\<close> when there is no database.\<close>

record rate_limiter =
  rl_global_rate :: int
  rl_user_rate :: int
  rl_window :: int
  rl_configs :: "(string \<times> endpoint_config) list"
  rl_users :: "((string \<times> string) \<times> bucket) list"
  rl_globals :: "(string \<times> bucket) list"
  rl_overrides :: "((string \<times> string) \<times> int) list"
  rl_table :: "((string \<times> string) \<times> int) list option"

definition new_limiter :: "int \<Rightarrow> int \<Rightarrow> int \<Rightarrow> ((string \<times> string) \<times> int) list option \<Rightarrow> rate_limiter" where
  "new_limiter global_rate user_rate window table =
     \<lparr>rl_global_rate = global_rate, rl_user_rate = user_rate, rl_window = window, rl_configs = [], rl_users = [], rl_globals = [],
      rl_overrides = (case table of None \<Rightarrow> [] | Some rows \<Rightarrow> fold (\<lambda>(k, r). AList.update k r) rows []), rl_table = table\<rparr>"

definition set_user_override :: "bool \<Rightarrow> string \<Rightarrow> string \<Rightarrow> int \<Rightarrow> rate_limiter \<Rightarrow> (rate_limiter, limit_error, unit) outcome" where
  "set_user_override written user endpoint rate l =
     (if rate \<le> 0 then (l, Inl (Rate_not_positive rate))
      else (l\<lparr>rl_overrides := AList.update (user, endpoint) rate (rl_overrides l), rl_users := AList.delete (user, endpoint) (rl_users l),
              rl_table := (if written then map_option (AList.update (user, endpoint) rate) (rl_table l) else rl_table l)\<rparr>, Inr ()))"

definition remove_user_override :: "bool \<Rightarrow> string \<Rightarrow> string \<Rightarrow> rate_limiter \<Rightarrow> rate_limiter \<times> bool" where
  "remove_user_override written user endpoint l =
     (if map_of (rl_overrides l) (user, endpoint) = None then (l, False)
      else (l\<lparr>rl_overrides := AList.delete (user, endpoint) (rl_overrides l), rl_users := AList.delete (user, endpoint) (rl_users l),
              rl_table := (if written then map_option (AList.delete (user, endpoint)) (rl_table l) else rl_table l)\<rparr>, True))"

definition list_overrides :: "rate_limiter \<Rightarrow> (string \<times> string \<times> int) list" where
  "list_overrides l = map (\<lambda>((user, endpoint), rate). (user, endpoint, rate))
     (sort_by (\<lambda>a b. text_less (fst (fst a)) (fst (fst b)) \<or> fst (fst a) = fst (fst b) \<and> text_less (snd (fst a)) (snd (fst b))) (rl_overrides l))"

definition get_limits :: "string \<Rightarrow> rate_limiter \<Rightarrow> endpoint_config" where
  "get_limits endpoint l =
     (case map_of (rl_configs l) endpoint of None \<Rightarrow> \<lparr>ec_user_rate = rl_user_rate l, ec_global_rate = rl_global_rate l\<rparr> | Some c \<Rightarrow> c)"

definition reset_buckets :: "rate_limiter \<Rightarrow> rate_limiter" where
  "reset_buckets l = l\<lparr>rl_users := [], rl_globals := []\<rparr>"

definition set_limit :: "string \<Rightarrow> int \<Rightarrow> int \<Rightarrow> rate_limiter \<Rightarrow> rate_limiter" where
  "set_limit endpoint user_rate global_rate l =
     l\<lparr>rl_configs := AList.update endpoint \<lparr>ec_user_rate = user_rate, ec_global_rate = global_rate\<rparr> (rl_configs l),
       rl_users := filter (\<lambda>e. snd (fst e) \<noteq> endpoint) (rl_users l), rl_globals := AList.delete endpoint (rl_globals l)\<rparr>"

definition full_bucket :: "fnum \<Rightarrow> int \<Rightarrow> int \<Rightarrow> limit_error + bucket" where
  "full_bucket made window rate =
     (case (to_float (PInt (rate * window)), to_float (PInt rate)) of
        (Inr c, Inr r) \<Rightarrow> Inr \<lparr>bk_capacity = c, bk_rate = r, bk_tokens = c, bk_last = made\<rparr>
      | (Inl e, _) \<Rightarrow> Inl (Rate_too_large e)
      | (_, Inl e) \<Rightarrow> Inl (Rate_too_large e))"

definition get_user_bucket :: "fnum \<Rightarrow> string \<Rightarrow> string \<Rightarrow> int \<Rightarrow> rate_limiter \<Rightarrow> limit_error + bucket" where
  "get_user_bucket made user endpoint rate l =
     bind_res (full_bucket made (rl_window l) rate) (\<lambda>fresh.
       Inr (case map_of (rl_users l) (user, endpoint) of
              None \<Rightarrow> fresh
            | Some b \<Rightarrow> if bk_capacity b \<noteq> bk_capacity fresh \<or> bk_rate b \<noteq> bk_rate fresh then fresh else b))"

definition get_global_bucket :: "fnum \<Rightarrow> string \<Rightarrow> int \<Rightarrow> rate_limiter \<Rightarrow> limit_error + bucket" where
  "get_global_bucket made endpoint rate l =
     (case map_of (rl_globals l) endpoint of None \<Rightarrow> full_bucket made (rl_window l) rate | Some b \<Rightarrow> Inr b)"

definition put_user :: "string \<Rightarrow> string \<Rightarrow> bucket \<Rightarrow> rate_limiter \<Rightarrow> rate_limiter" where
  "put_user user endpoint b l = l\<lparr>rl_users := AList.update (user, endpoint) b (rl_users l)\<rparr>"

definition put_global :: "string \<Rightarrow> bucket \<Rightarrow> rate_limiter \<Rightarrow> rate_limiter" where
  "put_global endpoint b l = l\<lparr>rl_globals := AList.update endpoint b (rl_globals l)\<rparr>"

text \<open>The readings of the clock of one check: two for new buckets, two for refills.\<close>

record limit_clock =
  ck_user_made :: fnum
  ck_global_made :: fnum
  ck_user :: fnum
  ck_global :: fnum

definition check_limit :: "limit_clock \<Rightarrow> string \<Rightarrow> string \<Rightarrow> string option \<Rightarrow> rate_limiter \<Rightarrow> (rate_limiter, limit_error, bool \<times> int) outcome" where
  "check_limit ck user endpoint override_user l =
     (let limits = get_limits endpoint l;
          override_key = (case override_user of None \<Rightarrow> user | Some u \<Rightarrow> u);
          user_rate = (case map_of (rl_overrides l) (override_key, endpoint) of None \<Rightarrow> ec_user_rate limits | Some r \<Rightarrow> r)
      in case get_user_bucket (ck_user_made ck) user endpoint user_rate l of
           Inl e \<Rightarrow> (l, Inl e)
         | Inr ub \<Rightarrow>
             (case get_global_bucket (ck_global_made ck) endpoint (ec_global_rate limits) l of
                Inl e \<Rightarrow> (put_user user endpoint ub l, Inl e)
              | Inr gb \<Rightarrow>
                  (case consume (ck_user ck) ub of
                     (ub, Inl e) \<Rightarrow> (put_global endpoint gb (put_user user endpoint ub l), Inl e)
                   | (ub, Inr (user_allowed, user_retry)) \<Rightarrow>
                       (case consume (ck_global ck) gb of
                          (gb, Inl e) \<Rightarrow> (put_global endpoint gb (put_user user endpoint ub l), Inl e)
                        | (gb, Inr (global_allowed, global_retry)) \<Rightarrow>
                            if \<not> user_allowed then (put_global endpoint (put_back gb) (put_user user endpoint ub l), Inr (False, user_retry))
                            else if \<not> global_allowed then (put_global endpoint gb (put_user user endpoint (put_back ub) l), Inr (False, global_retry))
                            else (put_global endpoint gb (put_user user endpoint ub l), Inr (True, 0))))))"

text \<open>
  The route decorator: the endpoint is registered with its rates, then the request is checked.
  \<open>None\<close> when no limiter is configured. The answer is the delay of a 429 reply, in milliseconds.
\<close>

definition limited_route :: "limit_clock \<Rightarrow> string \<Rightarrow> int \<Rightarrow> int \<Rightarrow> string \<times> string option \<Rightarrow> rate_limiter option
    \<Rightarrow> (rate_limiter option, limit_error, int option) outcome" where
  "limited_route ck endpoint user_rate global_rate who lo =
     (case lo of
        None \<Rightarrow> (None, Inr None)
      | Some l \<Rightarrow>
          (let limits = get_limits endpoint l;
               l = (if ec_user_rate limits \<noteq> user_rate \<or> ec_global_rate limits \<noteq> global_rate then set_limit endpoint user_rate global_rate l else l)
           in case check_limit ck (fst who) endpoint (snd who) l of
                (l, Inl e) \<Rightarrow> (Some l, Inl e)
              | (l, Inr (allowed, ms)) \<Rightarrow> (Some l, Inr (if allowed then None else Some ms))))"

definition jwt_rate_limit_identity :: "string option \<Rightarrow> string option \<Rightarrow> string \<times> string option" where
  "jwt_rate_limit_identity subject remote =
     (case subject of
        Some s \<Rightarrow> (''jwt:'' @ s, Some s)
      | None \<Rightarrow> (''unauthenticated:'' @ (case remote of None \<Rightarrow> ''anonymous'' | Some a \<Rightarrow> if a = [] then ''anonymous'' else a), None))"

text \<open>A bucket holds between no tokens and its capacity, a whole number, and the clock never went back behind its last refill.\<close>

definition bucket_ok :: "rat \<Rightarrow> bucket \<Rightarrow> bool" where
  "bucket_ok now b \<longleftrightarrow> (\<exists>n r k s. b = \<lparr>bk_capacity = Fin (of_int n), bk_rate = Fin r, bk_tokens = Fin k, bk_last = Fin s\<rparr>
     \<and> n < 2 ^ 53 \<and> 0 < r \<and> 0 \<le> k \<and> k \<le> of_int n \<and> s \<le> now)"

lemma bucket_okI:
  "n < 2 ^ 53 \<Longrightarrow> 0 < r \<Longrightarrow> s \<le> now \<Longrightarrow> \<exists>k. x = Fin k \<and> 0 \<le> k \<and> k \<le> of_int n \<Longrightarrow>
   bucket_ok now \<lparr>bk_capacity = Fin (of_int n), bk_rate = Fin r, bk_tokens = x, bk_last = Fin s\<rparr>"
  unfolding bucket_ok_def by blast

lemma bucket_okE:
  assumes "bucket_ok now b"
  obtains n r k s where "b = \<lparr>bk_capacity = Fin (of_int n), bk_rate = Fin r, bk_tokens = Fin k, bk_last = Fin s\<rparr>"
    "n < 2 ^ 53" "0 < r" "0 \<le> k" "k \<le> of_int n" "s \<le> now" "0 \<le> n"
proof -
  obtain n r k s where *: "b = \<lparr>bk_capacity = Fin (of_int n), bk_rate = Fin r, bk_tokens = Fin k, bk_last = Fin s\<rparr>"
    "n < 2 ^ 53" "0 < r" "0 \<le> k" "k \<le> of_int n" "s \<le> now" using assms unfolding bucket_ok_def by blast
  moreover have "(0 :: rat) \<le> of_int n" using *(4,5) by (rule order_trans)
  ultimately show thesis using that by (simp only: of_int_0_le_iff)
qed

lemma bucket_ok_later: "bucket_ok n b \<Longrightarrow> n \<le> now \<Longrightarrow> bucket_ok now b"
  unfolding bucket_ok_def by (blast intro: order_trans)

lemma f_le_0_cases: "f_le (Fin 0) x \<longleftrightarrow> (\<exists>r. x = Fin r \<and> 0 \<le> r) \<or> x = PosInf"
  by (cases x) (auto simp: f_le_def)

lemma f_min_between: "0 \<le> c \<Longrightarrow> f_le (Fin 0) x \<Longrightarrow> \<exists>k. f_min (Fin c) x = Fin k \<and> 0 \<le> k \<and> k \<le> c"
  by (cases x) (auto simp: f_min_def f_le_def)

lemma f_mul_nonneg: "f_le (Fin 0) x \<Longrightarrow> 0 < r \<Longrightarrow> f_le (Fin 0) (f_mul x (Fin r))"
  unfolding f_le_0_cases [of x] by (auto intro!: round64_nonneg simp: infinity_of_def f_le_def [of _ PosInf])

lemma f_add_nonneg: "0 \<le> k \<Longrightarrow> f_le (Fin 0) x \<Longrightarrow> f_le (Fin 0) (f_add (Fin k) x)"
  unfolding f_le_0_cases [of x] by (auto intro!: round64_nonneg simp: f_le_def [of _ PosInf])

lemma refilled_ok:
  assumes "bucket_ok m b" and "m \<le> now"
  shows "bucket_ok now (refilled (Fin now) b)"
proof -
  obtain n r k s where b: "b = \<lparr>bk_capacity = Fin (of_int n), bk_rate = Fin r, bk_tokens = Fin k, bk_last = Fin s\<rparr>"
    "n < 2 ^ 53" "0 < r" "0 \<le> k" "k \<le> of_int n" "s \<le> now" "0 \<le> n" using bucket_ok_later [OF assms] by (rule bucket_okE)
  have "f_le (Fin 0) (f_sub (Fin now) (Fin s))" using b(6) round64_nonneg by (simp add: f_sub_def)
  then have "f_le (Fin 0) (f_add (Fin k) (f_mul (f_sub (Fin now) (Fin s)) (Fin r)))" by (intro f_add_nonneg f_mul_nonneg b)
  then have "\<exists>k'. f_min (Fin (of_int n)) (f_add (Fin k) (f_mul (f_sub (Fin now) (Fin s)) (Fin r))) = Fin k' \<and> 0 \<le> k' \<and> k' \<le> of_int n"
    using b(7) by (intro f_min_between) simp_all
  then show ?thesis unfolding b(1) refilled_def using b(2,3) by (simp add: bucket_okI)
qed

lemma take_token_ok:
  assumes "bucket_ok now b" and "f_le (Fin 1) (bk_tokens b)"
  shows "bucket_ok now (b\<lparr>bk_tokens := f_sub (bk_tokens b) (Fin 1)\<rparr>)"
proof -
  obtain n r k s where b: "b = \<lparr>bk_capacity = Fin (of_int n), bk_rate = Fin r, bk_tokens = Fin k, bk_last = Fin s\<rparr>"
    "n < 2 ^ 53" "0 < r" "0 \<le> k" "k \<le> of_int n" "s \<le> now" "0 \<le> n" using assms(1) by (rule bucket_okE)
  have one: "1 \<le> k" using assms(2) b(1) by simp
  have "f_le (round64 (k - 1)) (round64 (of_int n))" using b(5) by (intro round64_mono) simp
  then have "f_le (round64 (k - 1)) (Fin (of_int n))" using b(2,7) by (simp add: round64_of_int)
  moreover have "f_le (Fin 0) (round64 (k - 1))" using one by (intro round64_nonneg) simp
  ultimately have "\<exists>k'. f_sub (Fin k) (Fin 1) = Fin k' \<and> 0 \<le> k' \<and> k' \<le> of_int n"
    by (cases "round64 (k - 1)") (auto simp: f_sub_def f_le_def)
  then show ?thesis unfolding b(1) using b(2,3,6) by (simp add: bucket_okI)
qed

lemma put_back_ok:
  assumes "bucket_ok now b"
  shows "bucket_ok now (put_back b)"
proof -
  obtain n r k s where b: "b = \<lparr>bk_capacity = Fin (of_int n), bk_rate = Fin r, bk_tokens = Fin k, bk_last = Fin s\<rparr>"
    "n < 2 ^ 53" "0 < r" "0 \<le> k" "k \<le> of_int n" "s \<le> now" "0 \<le> n" using assms by (rule bucket_okE)
  have "f_le (Fin 0) (f_add (Fin k) (Fin 1))" using b(4) by (intro f_add_nonneg) simp_all
  then have "\<exists>k'. f_min (Fin (of_int n)) (f_add (Fin k) (Fin 1)) = Fin k' \<and> 0 \<le> k' \<and> k' \<le> of_int n"
    using b(7) by (intro f_min_between) simp_all
  then show ?thesis unfolding b(1) put_back_def using b(2,3,6) by (simp add: bucket_okI)
qed

lemma consume_ok:
  assumes "bucket_ok m b" and "m \<le> now"
  shows "bucket_ok now (fst (consume (Fin now) b))"
  using refilled_ok [OF assms] take_token_ok [OF refilled_ok [OF assms]]
  by (auto simp: consume_def Let_def split: option.splits)

lemma full_bucket_ok:
  assumes "full_bucket (Fin made) window rate = Inr b" and "0 < rate" and "0 \<le> window" and "rate * window < 2 ^ 53" and "rate < 2 ^ 53"
  shows "bucket_ok made b"
proof -
  have "0 \<le> rate * window" using assms(2,3) by simp
  then have "round64 (of_int (rate * window)) = Fin (of_int (rate * window))" "round64 (of_int rate) = Fin (of_int rate)"
    using assms by (simp_all only: round64_of_int abs_of_nonneg less_imp_le)
  then have "b = \<lparr>bk_capacity = Fin (of_int (rate * window)), bk_rate = Fin (of_int rate), bk_tokens = Fin (of_int (rate * window)), bk_last = Fin made\<rparr>"
    using assms(1) by (simp add: full_bucket_def)
  then show ?thesis using assms(2,4) \<open>0 \<le> rate * window\<close> by (auto intro!: bucket_okI simp del: of_int_mult)
qed

text \<open>
  A user over its limit mints tokens. When both buckets are empty a refused request puts a token
  into the bucket of the endpoint that it never took, so at one instant two users pass an endpoint
  whose limit is one request.
\<close>

definition still_clock :: limit_clock where
  "still_clock = \<lparr>ck_user_made = Fin 0, ck_global_made = Fin 0, ck_user = Fin 0, ck_global = Fin 0\<rparr>"

lemma refused_request_mints_a_token:
  "let l0 = new_limiter 1 1 1 None;
       (l1, r1) = check_limit still_clock ''a'' ''orders'' None l0;
       (l2, r2) = check_limit still_clock ''b'' ''orders'' None l1;
       (l3, r3) = check_limit still_clock ''a'' ''orders'' None l2;
       (l4, r4) = check_limit still_clock ''b'' ''orders'' None l3
   in r1 = Inr (True, 0) \<and> r2 = Inr (False, 1000) \<and> r3 = Inr (False, 1000) \<and> r4 = Inr (True, 0)"
  by code_simp

text \<open>The invariant of the limiter: usable rates everywhere, and every bucket in bounds.\<close>

definition rate_fits :: "int \<Rightarrow> int \<Rightarrow> bool" where
  "rate_fits window rate \<longleftrightarrow> 0 < rate \<and> rate < 2 ^ 53 \<and> rate * window < 2 ^ 53"

definition rates_ok :: "rate_limiter \<Rightarrow> bool" where
  "rates_ok l \<longleftrightarrow> 0 \<le> rl_window l \<and> rate_fits (rl_window l) (rl_user_rate l) \<and> rate_fits (rl_window l) (rl_global_rate l)
     \<and> (\<forall>ep c. map_of (rl_configs l) ep = Some c \<longrightarrow> rate_fits (rl_window l) (ec_user_rate c) \<and> rate_fits (rl_window l) (ec_global_rate c))
     \<and> (\<forall>k r. map_of (rl_overrides l) k = Some r \<longrightarrow> rate_fits (rl_window l) r)"

definition buckets_ok :: "rat \<Rightarrow> rate_limiter \<Rightarrow> bool" where
  "buckets_ok now l \<longleftrightarrow> (\<forall>k b. map_of (rl_users l) k = Some b \<longrightarrow> bucket_ok now b) \<and> (\<forall>ep b. map_of (rl_globals l) ep = Some b \<longrightarrow> bucket_ok now b)"

lemma buckets_ok_later: "buckets_ok m l \<Longrightarrow> m \<le> now \<Longrightarrow> buckets_ok now l"
  unfolding buckets_ok_def using bucket_ok_later by blast

lemma put_buckets_ok [intro]:
  "buckets_ok now l \<Longrightarrow> bucket_ok now b \<Longrightarrow> buckets_ok now (put_user user ep b l)"
  "buckets_ok now l \<Longrightarrow> bucket_ok now b \<Longrightarrow> buckets_ok now (put_global ep b l)"
  by (auto simp: buckets_ok_def put_user_def put_global_def update_conv')

lemma rates_ok_put [simp]: "rates_ok (put_user user ep b l) = rates_ok l" "rates_ok (put_global ep b l) = rates_ok l"
  by (simp_all add: rates_ok_def put_user_def put_global_def)

lemma user_bucket_ok:
  assumes "get_user_bucket (Fin made) user ep rate l = Inr b" and "buckets_ok m l" and "m \<le> made" and "rate_fits (rl_window l) rate" and "0 \<le> rl_window l"
  shows "bucket_ok made b"
proof -
  obtain fresh where f: "full_bucket (Fin made) (rl_window l) rate = Inr fresh" "b = fresh \<or> map_of (rl_users l) (user, ep) = Some b"
    using assms(1) by (auto simp: get_user_bucket_def split: option.splits if_splits)
  have "bucket_ok made fresh" using full_bucket_ok [OF f(1)] assms(4,5) by (simp add: rate_fits_def)
  then show ?thesis using f(2) assms(2,3) bucket_ok_later unfolding buckets_ok_def by blast
qed

lemma global_bucket_ok:
  assumes "get_global_bucket (Fin made) ep rate l = Inr b" and "buckets_ok m l" and "m \<le> made" and "rate_fits (rl_window l) rate" and "0 \<le> rl_window l"
  shows "bucket_ok made b"
proof (cases "map_of (rl_globals l) ep")
  case None
  then show ?thesis using full_bucket_ok [of made "rl_window l" rate b] assms by (simp add: get_global_bucket_def rate_fits_def)
next
  case (Some g)
  then have "b = g" using assms(1) by (simp add: get_global_bucket_def)
  then show ?thesis using Some assms(2,3) bucket_ok_later unfolding buckets_ok_def by blast
qed

lemma get_limits_fit: "rates_ok l \<Longrightarrow> rate_fits (rl_window l) (ec_user_rate (get_limits ep l)) \<and> rate_fits (rl_window l) (ec_global_rate (get_limits ep l))"
  by (auto simp: rates_ok_def get_limits_def split: option.splits)

lemma check_keeps_buckets:
  assumes "rates_ok l" and "buckets_ok m l" and "m \<le> t1" and "t1 \<le> t2" and "t2 \<le> t3" and "t3 \<le> t4"
    and r: "check_limit \<lparr>ck_user_made = Fin t1, ck_global_made = Fin t2, ck_user = Fin t3, ck_global = Fin t4\<rparr> user ep who l = (l', r)"
  shows "buckets_ok t4 l' \<and> rates_ok l'"
proof -
  let ?rate = "case map_of (rl_overrides l) (case who of None \<Rightarrow> user | Some u \<Rightarrow> u, ep) of None \<Rightarrow> ec_user_rate (get_limits ep l) | Some r \<Rightarrow> r"
  have fits: "rate_fits (rl_window l) ?rate" "rate_fits (rl_window l) (ec_global_rate (get_limits ep l))" "0 \<le> rl_window l"
    using assms(1) get_limits_fit [OF assms(1), of ep] by (auto simp: rates_ok_def split: option.splits)
  have late: "buckets_ok t4 l" using assms(2-6) by (intro buckets_ok_later [OF assms(2)]) simp
  show ?thesis
  proof (cases "get_user_bucket (Fin t1) user ep ?rate l")
    case (Inl e)
    then show ?thesis using r assms(1) late by (simp add: check_limit_def Let_def)
  next
    case ub: (Inr ub)
    have u1: "bucket_ok t1 ub" using user_bucket_ok [OF ub assms(2,3) fits(1,3)] .
    then have u4: "bucket_ok t4 ub" using assms(4-6) bucket_ok_later by (metis order_trans)
    show ?thesis
    proof (cases "get_global_bucket (Fin t2) ep (ec_global_rate (get_limits ep l)) l")
      case (Inl e)
      then show ?thesis using r assms(1) late ub u4 by (auto simp: check_limit_def Let_def)
    next
      case gb: (Inr gb)
      have g2: "bucket_ok t2 gb" using global_bucket_ok [OF gb assms(2) _ fits(2,3)] assms(3,4) by simp
      have g4: "bucket_ok t4 gb" using g2 assms(5,6) bucket_ok_later by (metis order_trans)
      obtain ub' ur where cu: "consume (Fin t3) ub = (ub', ur)" by fastforce
      have "bucket_ok t3 ub'" using consume_ok [OF u1, of t3] assms(4,5) cu by simp
      then have u': "bucket_ok t4 ub'" using assms(6) by (rule bucket_ok_later)
      obtain gb' gr where cg: "consume (Fin t4) gb = (gb', gr)" by fastforce
      have g': "bucket_ok t4 gb'" using consume_ok [OF g2, of t4] assms(5,6) cg by simp
      have "l' \<in> {put_global ep h (put_user user ep b l) |h b. h \<in> {gb, gb', put_back gb'} \<and> b \<in> {ub', put_back ub'}}"
        using r ub gb cu cg by (auto simp: check_limit_def Let_def split: sum.splits if_splits prod.splits)
      then show ?thesis using assms(1) late u' g' g4 put_back_ok by auto
    qed
  qed
qed

subsection \<open>The mode of a session\<close>

text \<open>
  \<open>decode\<close> is \<open>auth_routes.decode_token\<close>: the payload of a token, \<open>None\<close> when it is expired, invalid
  or not a mapping. A view is run, or refused with a status and a code.
\<close>

datatype guard_reply = View_runs | View_refused int string

definition remove_bearer :: "string \<Rightarrow> string" where
  "remove_bearer s = (if take 7 s = ''Bearer '' then drop 7 s else s)"

definition decode_payload :: "(string \<Rightarrow> row option) \<Rightarrow> string option \<Rightarrow> string option \<Rightarrow> row option" where
  "decode_payload decode authorization token_header =
     (let token = py_strip (remove_bearer (case authorization of None \<Rightarrow> [] | Some s \<Rightarrow> s));
          token = (if token = [] then py_strip (case token_header of None \<Rightarrow> [] | Some s \<Rightarrow> s) else token)
      in if token = [] then None else decode token)"

definition mode_of :: "row \<Rightarrow> string option" where
  "mode_of payload = (case map_of payload ''mode'' of Some (PStr s) \<Rightarrow> Some s | _ \<Rightarrow> None)"

definition extract_mode :: "row option \<Rightarrow> string option" where
  "extract_mode payload = (case payload of None \<Rightarrow> None | Some p \<Rightarrow> mode_of p)"

definition require_non_explore :: "bool \<Rightarrow> row option \<Rightarrow> guard_reply" where
  "require_non_explore testing payload =
     (if testing then View_runs
      else case extract_mode payload of
             None \<Rightarrow> View_refused 403 ''mode_blocked''
           | Some m \<Rightarrow> if m = ''explore'' then View_refused 403 ''mode_blocked'' else View_runs)"

definition require_live_unlocked :: "bool \<Rightarrow> row option \<Rightarrow> guard_reply" where
  "require_live_unlocked testing payload =
     (if testing then View_runs
      else case payload of
             None \<Rightarrow> View_refused 401 ''auth_required''
           | Some p \<Rightarrow>
               (let m = mode_of p
                in if m = Some ''explore'' then View_refused 403 ''mode_blocked''
                   else if m = Some ''practice'' then View_refused 403 ''practice_unsupported''
                   else if m = Some ''live'' then
                     (if \<not> (case map_of p ''live_mode_unlocked'' of None \<Rightarrow> False | Some v \<Rightarrow> truthy v) then View_refused 403 ''live_locked'' else View_runs)
                   else View_refused 400 ''mode_invalid''))"

text \<open>In production a direct order route runs exactly for a session in live mode that verified its PIN.\<close>

lemma live_guard_exact:
  "require_live_unlocked False payload = View_runs \<longleftrightarrow>
   (\<exists>p v. payload = Some p \<and> map_of p ''mode'' = Some (PStr ''live'') \<and> map_of p ''live_mode_unlocked'' = Some v \<and> truthy v)"
  by (auto simp: require_live_unlocked_def mode_of_def Let_def split: option.splits pyval.splits)

text \<open>What passes the stricter guard passes the other. A text other than a known mode passes the other one only.\<close>

lemma live_guard_is_stricter: "require_live_unlocked False payload = View_runs \<Longrightarrow> require_non_explore False payload = View_runs"
  by (auto simp: live_guard_exact require_non_explore_def extract_mode_def mode_of_def)

lemma unknown_mode_passes: "require_non_explore False (Some [(''mode'', PStr ''demo'')]) = View_runs"
  by (simp add: require_non_explore_def extract_mode_def mode_of_def)

end
