(* ===== verification/Bracket_Orders.thy ===== *)
theory Bracket_Orders
  imports Safety_Layers
begin

text \<open>
  Bracket orders (\<open>engine/bracket_order.py\<close>): an entry and exactly one protective exit leg, tracked
  under one identifier. The dispatchers of the legs are injected; here they act on a world of their
  own, whatever it is, and an exception they raise is its text. Sentences of results and refusals are
  constructors. Identifiers, time stamps and the answers of the dispatchers are arguments.
\<close>

subsection \<open>Legs and brackets\<close>

record bracket_principal =
  bp_actor_id :: string
  bp_jti :: string
  bp_adapter_id :: string
  bp_account_id :: string

record leg_order = trade_order +
  lo_trigger_price :: string
  lo_strategy :: string

record 'w leg_dispatch =
  ld_place :: "('w \<Rightarrow> leg_order \<Rightarrow> bracket_principal \<Rightarrow> 'w \<times> (string + string)) option"
  ld_cancel :: "('w \<Rightarrow> string \<Rightarrow> bracket_principal \<Rightarrow> 'w \<times> (string + unit)) option"

datatype bracket_status = Active_bracket | Partial_bracket | Completed_bracket | Cancelled_bracket

datatype cancel_warning = Unconfirmed "(string \<times> string \<times> string) list" | Entry_position_open

record bracket_order =
  bo_bracket_id :: string
  bo_entry_order_id :: string
  bo_sl_order_id :: "string option"
  bo_target_order_id :: "string option"
  bo_symbol :: string
  bo_exchange :: string
  bo_action :: string
  bo_quantity :: int
  bo_entry_price :: fnum
  bo_stoploss :: "fnum option"
  bo_target :: "fnum option"
  bo_trailing_sl :: "fnum option"
  bo_strategy :: string
  bo_product :: string
  bo_adapter_id :: string
  bo_account_id :: string
  bo_entry_pricetype :: string
  bo_status :: bracket_status
  bo_cancel_warnings :: "cancel_warning list"
  bo_created_at :: string
  bo_updated_at :: string

datatype bracket_problem =
    Field_required string
  | Action_invalid string
  | Quantity_not_positive
  | Quantity_not_integer string
  | Trailing_unsupported
  | Pair_unsupported
  | Exit_missing
  | Stoploss_not_positive fnum
  | Target_not_positive fnum

datatype bracket_fault =
    No_dispatcher
  | No_principal
  | Invalid_params "bracket_problem list"
  | Not_a_member string string
  | Leg_raised string
  | Unknown_bracket string
  | Modify_not_routed

datatype bracket_message =
    Not_wired
  | Needs_principal
  | Validation_failed
  | Entry_build_failed
  | Entry_placement_failed
  | Exit_build_failed
  | Exit_placement_failed
  | Bracket_placed string
  | Bracket_not_found
  | Modify_unsupported

record bracket_result =
  bx_success :: bool
  bx_bracket :: "bracket_order option"
  bx_message :: bracket_message
  bx_error :: "bracket_fault option"

datatype bracket_exception = Escaped float_error | Cancel_unwired | Cancel_needs_principal | Every_cancel_failed "(string \<times> string \<times> string) list"

record bracket_service =
  bs_default_strategy :: string
  bs_default_product :: string
  bs_registry :: "(string \<times> bracket_order) list"

type_synonym ('w, 'a) bracketed = "(bracket_service \<times> 'w, bracket_exception, 'a) outcome"

definition new_bracket_service :: "string \<Rightarrow> string \<Rightarrow> bracket_service" where
  "new_bracket_service strategy prd = \<lparr>bs_default_strategy = strategy, bs_default_product = prd, bs_registry = []\<rparr>"

definition refused :: "bracket_message \<Rightarrow> bracket_fault \<Rightarrow> bracket_result" where
  "refused m e = \<lparr>bx_success = False, bx_bracket = None, bx_message = m, bx_error = Some e\<rparr>"

subsection \<open>Validation\<close>

definition dict_get :: "row \<Rightarrow> string \<Rightarrow> pyval \<Rightarrow> pyval" where
  "dict_get r k d = (case map_of r k of None \<Rightarrow> d | Some v \<Rightarrow> v)"

text \<open>\<open>int(value)\<close>.\<close>

fun to_int :: "pyval \<Rightarrow> float_error + int" where
  "to_int PNone = Inl FloatTypeError"
| "to_int (PBool b) = Inr (if b then 1 else 0)"
| "to_int (PInt i) = Inr i"
| "to_int (PFloat f s) = (case f_trunc f of Some i \<Rightarrow> Inr i | None \<Rightarrow> Inl (if f = NotANum then FloatValueError else FloatOverflowError))"
| "to_int (PStr s) = (case parse_int s of None \<Rightarrow> Inl FloatValueError | Some i \<Rightarrow> Inr i)"

definition quantity_problems :: "pyval \<Rightarrow> float_error + bracket_problem list" where
  "quantity_problems q =
     (case to_int q of
        Inr i \<Rightarrow> Inr (if i \<le> 0 then [Quantity_not_positive] else [])
      | Inl FloatOverflowError \<Rightarrow> Inl FloatOverflowError
      | Inl _ \<Rightarrow> Inr [Quantity_not_integer (py_str q)])"

definition exit_problems :: "fnum option \<Rightarrow> fnum option \<Rightarrow> fnum option \<Rightarrow> bracket_problem list" where
  "exit_problems sl tg trailing =
     (if trailing \<noteq> None then [Trailing_unsupported] else [])
     @ (if sl \<noteq> None \<and> tg \<noteq> None then [Pair_unsupported] else if sl = None \<and> tg = None then [Exit_missing] else [])
     @ (case sl of None \<Rightarrow> [] | Some x \<Rightarrow> if f_le x (Fin 0) then [Stoploss_not_positive x] else [])
     @ (case tg of None \<Rightarrow> [] | Some x \<Rightarrow> if f_le x (Fin 0) then [Target_not_positive x] else [])"

definition validate_bracket_params :: "row \<Rightarrow> fnum option \<Rightarrow> fnum option \<Rightarrow> fnum option \<Rightarrow> float_error + bracket_problem list" where
  "validate_bracket_params entry sl tg trailing =
     (let action = py_upper (py_str (dict_get entry ''action'' (PStr [])))
      in bind_res (quantity_problems (dict_get entry ''quantity'' (PInt 0))) (\<lambda>qs.
           Inr (map Field_required (filter (\<lambda>k. \<not> truthy (dict_get entry k PNone)) [''symbol'', ''exchange'', ''action'', ''quantity''])
                @ (if action \<notin> {''BUY'', ''SELL''} then [Action_invalid action] else [])
                @ qs @ exit_problems sl tg trailing)))"

subsection \<open>Building the orders\<close>

definition EXCHANGES :: "string list" where
  "EXCHANGES = [''NSE'', ''BSE'', ''NFO'', ''BFO'', ''MCX'', ''CDS'', ''BCD'', ''NCDEX'', ''NCO'', ''NSE_INDEX'', ''BSE_INDEX'', ''MCX_INDEX'', ''GLOBAL_INDEX'', ''CRYPTO'']"

definition PRICE_TYPES :: "string list" where
  "PRICE_TYPES = [''MARKET'', ''LIMIT'', ''SL'', ''SL-M'']"

definition PRODUCTS :: "string list" where
  "PRODUCTS = [''MIS'', ''CNC'', ''NRML'', ''MTF'']"

definition make_order :: "string \<Rightarrow> string \<Rightarrow> string \<Rightarrow> string \<Rightarrow> string \<Rightarrow> string \<Rightarrow> string \<Rightarrow> string \<Rightarrow> string \<Rightarrow> bracket_fault + leg_order" where
  "make_order symbol action exchange pricetype prd qty price trigger strategy =
     (if action \<notin> {''BUY'', ''SELL''} then Inl (Not_a_member ''Action'' action)
      else if exchange \<notin> set EXCHANGES then Inl (Not_a_member ''Exchange'' exchange)
      else if pricetype \<notin> set PRICE_TYPES then Inl (Not_a_member ''PriceType'' pricetype)
      else if prd \<notin> set PRODUCTS then Inl (Not_a_member ''Product'' prd)
      else Inr \<lparr>od_symbol = symbol, od_action = action, od_exchange = exchange, od_product = prd, od_pricetype = pricetype,
             od_quantity = qty, od_price = price, od_validity = None, od_quantity1 = None,
             lo_trigger_price = trigger, lo_strategy = strategy\<rparr>)"

record bracket_terms =
  bt_symbol :: string
  bt_exchange :: string
  bt_action :: string
  bt_quantity :: int
  bt_price :: fnum
  bt_strategy :: string
  bt_product :: string
  bt_pricetype :: string

definition entry_terms :: "bracket_service \<Rightarrow> row \<Rightarrow> float_error + bracket_terms" where
  "entry_terms s entry =
     bind_res (to_int (dict_get entry ''quantity'' PNone)) (\<lambda>q.
     bind_res (to_float (dict_get entry ''price'' (PInt 0))) (\<lambda>price.
       Inr \<lparr>bt_symbol = py_str (dict_get entry ''symbol'' PNone), bt_exchange = py_upper (py_str (dict_get entry ''exchange'' PNone)),
            bt_action = py_upper (py_str (dict_get entry ''action'' PNone)), bt_quantity = q, bt_price = price,
            bt_strategy = py_str (dict_get entry ''strategy'' (PStr (bs_default_strategy s))),
            bt_product = py_str (dict_get entry ''product'' (PStr (bs_default_product s))),
            bt_pricetype = py_upper (py_str (dict_get entry ''pricetype'' (PStr (if price = Fin 0 then ''MARKET'' else ''LIMIT''))))\<rparr>))"

definition entry_order :: "bracket_terms \<Rightarrow> bracket_fault + leg_order" where
  "entry_order t = make_order (bt_symbol t) (bt_action t) (bt_exchange t) (bt_pricetype t) (bt_product t) (show_int (bt_quantity t))
     (float_repr (bt_price t)) ''0'' (bt_strategy t)"

definition opposite :: "string \<Rightarrow> string" where
  "opposite action = (if action = ''BUY'' then ''SELL'' else ''BUY'')"

definition exit_order :: "bracket_terms \<Rightarrow> fnum option \<Rightarrow> fnum option \<Rightarrow> bracket_fault + leg_order" where
  "exit_order t sl tg =
     (case sl of
        Some x \<Rightarrow> make_order (bt_symbol t) (opposite (bt_action t)) (bt_exchange t) ''SL'' (bt_product t) (show_int (bt_quantity t))
                   (float_repr x) (float_repr x) (bt_strategy t)
      | None \<Rightarrow> make_order (bt_symbol t) (opposite (bt_action t)) (bt_exchange t) ''LIMIT'' (bt_product t) (show_int (bt_quantity t))
                   (case tg of Some y \<Rightarrow> float_repr y | None \<Rightarrow> ''None'') ''0'' (bt_strategy t))"

subsection \<open>Placing\<close>

definition bracket_of :: "string \<Rightarrow> string \<times> string \<Rightarrow> bracket_terms \<Rightarrow> fnum option \<Rightarrow> fnum option \<Rightarrow> bracket_principal \<Rightarrow> string
    \<Rightarrow> string option \<Rightarrow> string option \<Rightarrow> bracket_status \<Rightarrow> bracket_order" where
  "bracket_of bid stamps t sl tg pr entry_id sl_id tg_id status =
     \<lparr>bo_bracket_id = bid, bo_entry_order_id = entry_id, bo_sl_order_id = sl_id, bo_target_order_id = tg_id, bo_symbol = bt_symbol t,
      bo_exchange = bt_exchange t, bo_action = bt_action t, bo_quantity = bt_quantity t, bo_entry_price = bt_price t, bo_stoploss = sl,
      bo_target = tg, bo_trailing_sl = None, bo_strategy = bt_strategy t, bo_product = bt_product t, bo_adapter_id = bp_adapter_id pr,
      bo_account_id = bp_account_id pr, bo_entry_pricetype = bt_pricetype t, bo_status = status, bo_cancel_warnings = [],
      bo_created_at = fst stamps, bo_updated_at = snd stamps\<rparr>"

definition register_bracket :: "bracket_order \<Rightarrow> bracket_service \<Rightarrow> bracket_service" where
  "register_bracket b s = s\<lparr>bs_registry := AList.update (bo_bracket_id b) b (bs_registry s)\<rparr>"

definition place_exit :: "('w \<Rightarrow> leg_order \<Rightarrow> bracket_principal \<Rightarrow> 'w \<times> (string + string)) \<Rightarrow> string \<Rightarrow> string \<times> string \<Rightarrow> bracket_terms
    \<Rightarrow> fnum option \<Rightarrow> fnum option \<Rightarrow> bracket_principal \<Rightarrow> string \<Rightarrow> bracket_service \<Rightarrow> 'w \<Rightarrow> ('w, bracket_result) bracketed" where
  "place_exit place bid stamps t sl tg pr entry_id s w =
     (case exit_order t sl tg of
        Inl e \<Rightarrow>
          (let b = bracket_of bid stamps t sl tg pr entry_id None None Partial_bracket
           in ((register_bracket b s, w), Inr \<lparr>bx_success = False, bx_bracket = Some b, bx_message = Exit_build_failed, bx_error = Some e\<rparr>))
      | Inr xo \<Rightarrow>
          (let (w, answer) = place w xo pr;
               exit_id = (case answer of Inl e \<Rightarrow> None | Inr i \<Rightarrow> Some i);
               exit_error = (case answer of Inl e \<Rightarrow> e | Inr i \<Rightarrow> []);
               status = (if exit_id = None \<or> exit_id = Some [] then Partial_bracket else Active_bracket);
               b = bracket_of bid stamps t sl tg pr entry_id (if sl \<noteq> None then exit_id else None) (if sl \<noteq> None then None else exit_id) status
           in ((register_bracket b s, w),
               Inr (if status = Partial_bracket
                    then \<lparr>bx_success = False, bx_bracket = Some b, bx_message = Exit_placement_failed, bx_error = Some (Leg_raised exit_error)\<rparr>
                    else \<lparr>bx_success = True, bx_bracket = Some b, bx_message = Bracket_placed (if sl \<noteq> None then ''stoploss'' else ''target''),
                          bx_error = None\<rparr>))))"

definition place_entry :: "('w \<Rightarrow> leg_order \<Rightarrow> bracket_principal \<Rightarrow> 'w \<times> (string + string)) \<Rightarrow> string \<Rightarrow> string \<times> string \<Rightarrow> bracket_terms
    \<Rightarrow> fnum option \<Rightarrow> fnum option \<Rightarrow> bracket_principal \<Rightarrow> bracket_service \<Rightarrow> 'w \<Rightarrow> ('w, bracket_result) bracketed" where
  "place_entry place bid stamps t sl tg pr s w =
     (case entry_order t of
        Inl e \<Rightarrow> ((s, w), Inr (refused Entry_build_failed e))
      | Inr eo \<Rightarrow>
          (case place w eo pr of
             (w, Inl e) \<Rightarrow> ((s, w), Inr (refused Entry_placement_failed (Leg_raised e)))
           | (w, Inr entry_id) \<Rightarrow> place_exit place bid stamps t sl tg pr entry_id s w))"

definition place_bracket :: "'w leg_dispatch \<Rightarrow> string \<Rightarrow> string \<times> string \<Rightarrow> row \<Rightarrow> fnum option \<Rightarrow> fnum option \<Rightarrow> fnum option
    \<Rightarrow> bracket_principal option \<Rightarrow> bracket_service \<times> 'w \<Rightarrow> ('w, bracket_result) bracketed" where
  "place_bracket d bid stamps entry sl tg trailing who sw =
     (case ld_place d of
        None \<Rightarrow> (sw, Inr (refused Not_wired No_dispatcher))
      | Some place \<Rightarrow>
          (case who of
             None \<Rightarrow> (sw, Inr (refused Needs_principal No_principal))
           | Some pr \<Rightarrow>
               (case validate_bracket_params entry sl tg trailing of
                  Inl e \<Rightarrow> (sw, Inl (Escaped e))
                | Inr (p # ps) \<Rightarrow> (sw, Inr (refused Validation_failed (Invalid_params (p # ps))))
                | Inr [] \<Rightarrow>
                    (case entry_terms (fst sw) entry of
                       Inl e \<Rightarrow> (sw, Inl (Escaped e))
                     | Inr t \<Rightarrow> place_entry place bid stamps t sl tg pr (fst sw) (snd sw)))))"

subsection \<open>Modifying, cancelling and completing\<close>

definition modify_bracket :: "string \<Rightarrow> bracket_service \<Rightarrow> bracket_result" where
  "modify_bracket bid s =
     (case map_of (bs_registry s) bid of
        None \<Rightarrow> refused Bracket_not_found (Unknown_bracket bid)
      | Some b \<Rightarrow> \<lparr>bx_success = False, bx_bracket = Some b, bx_message = Modify_unsupported, bx_error = Some Modify_not_routed\<rparr>)"

definition resting_legs :: "bracket_order \<Rightarrow> (string \<times> string) list" where
  "resting_legs b =
     (if bo_entry_order_id b \<noteq> [] \<and> bo_entry_pricetype b \<noteq> ''MARKET'' then [(bo_entry_order_id b, ''entry'')] else [])
     @ (case bo_sl_order_id b of Some i \<Rightarrow> if i \<noteq> [] then [(i, ''SL'')] else [] | None \<Rightarrow> [])
     @ (case bo_target_order_id b of Some i \<Rightarrow> if i \<noteq> [] then [(i, ''target'')] else [] | None \<Rightarrow> [])"

fun sweep_legs :: "('w \<Rightarrow> string \<Rightarrow> bracket_principal \<Rightarrow> 'w \<times> (string + unit)) \<Rightarrow> bracket_principal \<Rightarrow> (string \<times> string) list \<Rightarrow> 'w
    \<Rightarrow> 'w \<times> string list \<times> (string \<times> string \<times> string) list" where
  "sweep_legs cancel pr [] w = (w, [], [])"
| "sweep_legs cancel pr ((i, name) # legs) w =
     (let (w, answer) = cancel w i pr; (w, swept, failed) = sweep_legs cancel pr legs w
      in (w, (case answer of Inr _ \<Rightarrow> name # swept | Inl _ \<Rightarrow> swept), (case answer of Inr _ \<Rightarrow> failed | Inl e \<Rightarrow> (name, i, e) # failed)))"

definition rebound :: "bracket_order \<Rightarrow> bracket_principal \<Rightarrow> bracket_principal" where
  "rebound b pr = pr\<lparr>bp_adapter_id := bo_adapter_id b, bp_account_id := bo_account_id b\<rparr>"

definition mark_cancelled :: "cancel_warning list \<Rightarrow> string \<Rightarrow> bracket_order \<Rightarrow> bracket_order" where
  "mark_cancelled failures now b =
     b\<lparr>bo_cancel_warnings := failures @ (if bo_entry_order_id b \<noteq> [] \<and> bo_entry_pricetype b = ''MARKET'' then [Entry_position_open] else []),
       bo_status := Cancelled_bracket, bo_updated_at := now\<rparr>"

definition put_bracket :: "string \<Rightarrow> bracket_order \<Rightarrow> bracket_service \<Rightarrow> bracket_service" where
  "put_bracket bid b s = s\<lparr>bs_registry := AList.update bid b (bs_registry s)\<rparr>"

definition cancel_bracket :: "'w leg_dispatch \<Rightarrow> string \<Rightarrow> string \<Rightarrow> bracket_principal option \<Rightarrow> bracket_service \<times> 'w \<Rightarrow> ('w, bool) bracketed" where
  "cancel_bracket d now bid who sw =
     (case map_of (bs_registry (fst sw)) bid of
        None \<Rightarrow> (sw, Inr False)
      | Some b \<Rightarrow>
          if bo_status b \<in> {Completed_bracket, Cancelled_bracket} then (sw, Inr False)
          else if resting_legs b = [] then ((put_bracket bid (mark_cancelled [] now b) (fst sw), snd sw), Inr True)
          else (case ld_cancel d of
                  None \<Rightarrow> (sw, Inl Cancel_unwired)
                | Some cancel \<Rightarrow>
                    (case who of
                       None \<Rightarrow> (sw, Inl Cancel_needs_principal)
                     | Some pr \<Rightarrow>
                         (let (w, swept, failed) = sweep_legs cancel (rebound b pr) (resting_legs b) (snd sw)
                          in if swept = [] then ((fst sw, w), Inl (Every_cancel_failed failed))
                             else ((put_bracket bid (mark_cancelled (if failed = [] then [] else [Unconfirmed failed]) now b) (fst sw), w), Inr True)))))"

definition get_active_brackets :: "bracket_service \<Rightarrow> bracket_order list" where
  "get_active_brackets s = filter (\<lambda>b. bo_status b \<notin> {Completed_bracket, Cancelled_bracket}) (map snd (bs_registry s))"

definition get_bracket :: "string \<Rightarrow> bracket_service \<Rightarrow> bracket_order option" where
  "get_bracket bid s = map_of (bs_registry s) bid"

definition mark_completed :: "string \<Rightarrow> string \<Rightarrow> bracket_service \<Rightarrow> bracket_service \<times> bool" where
  "mark_completed now bid s =
     (case map_of (bs_registry s) bid of
        None \<Rightarrow> (s, False)
      | Some b \<Rightarrow> (put_bracket bid (b\<lparr>bo_status := Completed_bracket, bo_updated_at := now\<rparr>) s, True))"

subsection \<open>Calls of the dispatchers\<close>

datatype leg_event = Leg_placed leg_order bracket_principal "string + string" | Leg_cancelled string bracket_principal "string + unit"

text \<open>What the service relies on: a dispatcher that is called is called once, and its world remembers the call and the answer.\<close>

locale leg_log =
  fixes d :: "'w leg_dispatch" and events :: "'w \<Rightarrow> leg_event list"
  assumes place_event: "ld_place d = Some f \<Longrightarrow> f w ord pr = (w', r) \<Longrightarrow> events w' = events w @ [Leg_placed ord pr r]"
    and cancel_event: "ld_cancel d = Some g \<Longrightarrow> g w i pr = (w', c) \<Longrightarrow> events w' = events w @ [Leg_cancelled i pr c]"

text \<open>The exit leg can always be built once the entry leg could.\<close>

lemma make_order_Inr:
  "make_order a b c e p q x y z = Inr r \<Longrightarrow> b \<in> {''BUY'', ''SELL''} \<and> c \<in> set EXCHANGES \<and> p \<in> set PRODUCTS
     \<and> od_symbol r = a \<and> od_action r = b \<and> od_exchange r = c \<and> od_product r = p \<and> od_pricetype r = e \<and> od_quantity r = q \<and> lo_strategy r = z"
  by (auto simp: make_order_def split: if_splits)

definition protects :: "leg_order \<Rightarrow> leg_order \<Rightarrow> bool" where
  "protects x e \<longleftrightarrow> od_action x = opposite (od_action e) \<and> od_symbol x = od_symbol e \<and> od_exchange x = od_exchange e
     \<and> od_product x = od_product e \<and> od_quantity x = od_quantity e \<and> od_pricetype x \<in> {''SL'', ''LIMIT''}"

lemma exit_order_builds:
  assumes "entry_order t = Inr eo"
  obtains xo where "exit_order t sl tg = Inr xo" and "protects xo eo"
proof -
  from assms have "bt_action t \<in> {''BUY'', ''SELL''} \<and> bt_exchange t \<in> set EXCHANGES \<and> bt_product t \<in> set PRODUCTS"
    unfolding entry_order_def by (blast dest: make_order_Inr)
  then have "\<exists>xo. exit_order t sl tg = Inr xo"
    by (auto simp: exit_order_def make_order_def opposite_def PRICE_TYPES_def split: option.splits)
  then obtain xo where xo: "exit_order t sl tg = Inr xo" by blast
  have "protects xo eo"
    using xo make_order_Inr [OF assms [unfolded entry_order_def]]
    by (cases sl) (auto simp: exit_order_def protects_def opposite_def dest!: make_order_Inr)
  with xo show thesis by (rule that)
qed

text \<open>What a placement does, by what the dispatcher answered.\<close>

definition order_id_of :: "string + string \<Rightarrow> string option" where
  "order_id_of answer = (case answer of Inl _ \<Rightarrow> None | Inr i \<Rightarrow> Some i)"

definition placed_bracket :: "string \<Rightarrow> string \<times> string \<Rightarrow> bracket_terms \<Rightarrow> fnum option \<Rightarrow> fnum option \<Rightarrow> bracket_principal \<Rightarrow> string \<Rightarrow> string + string \<Rightarrow> bracket_order" where
  "placed_bracket bid stamps t sl tg pr eid answer =
     bracket_of bid stamps t sl tg pr eid (if sl \<noteq> None then order_id_of answer else None) (if sl \<noteq> None then None else order_id_of answer)
       (if order_id_of answer \<in> {None, Some []} then Partial_bracket else Active_bracket)"

lemma place_bracket_cases:
  assumes "place_bracket d bid stamps entry sl tg trailing who (s, w) = ((s', w'), r)"
  obtains (nothing) "s' = s" "w' = w" "\<And>x. r = Inr x \<Longrightarrow> \<not> bx_success x \<and> bx_bracket x = None"
  | (entry_refused) f pr t eo e where "ld_place d = Some f" "who = Some pr" "entry_order t = Inr eo" "f w eo pr = (w', Inl e)" "s' = s"
      "r = Inr (refused Entry_placement_failed (Leg_raised e))"
  | (placed) f pr t eo xo eid w1 answer x where "ld_place d = Some f" "who = Some pr" "entry_order t = Inr eo" "exit_problems sl tg trailing = []" "exit_order t sl tg = Inr xo" "protects xo eo"
      "f w eo pr = (w1, Inr eid)" "f w1 xo pr = (w', answer)" "s' = register_bracket (placed_bracket bid stamps t sl tg pr eid answer) s"
      "r = Inr x" "bx_bracket x = Some (placed_bracket bid stamps t sl tg pr eid answer)" "bx_success x \<longleftrightarrow> order_id_of answer \<notin> {None, Some []}"
proof -
  from assms consider (idle) "s' = s" "w' = w" "\<And>x. r = Inr x \<Longrightarrow> \<not> bx_success x \<and> bx_bracket x = None"
    | (entry) f pr t where "ld_place d = Some f" "who = Some pr" "exit_problems sl tg trailing = []" "place_entry f bid stamps t sl tg pr s w = ((s', w'), r)"
    by (auto simp: place_bracket_def refused_def validate_bracket_params_def Let_def bind_res_def split: option.splits sum.splits list.splits)
  then show thesis
  proof cases
    case idle
    then show thesis by (rule nothing)
  next
    case (entry f pr t)
    show thesis
    proof (cases "entry_order t")
      case (Inl e)
      then have "s' = s \<and> w' = w \<and> r = Inr (refused Entry_build_failed e)" using entry(4) by (simp add: place_entry_def)
      then show thesis by (elim conjE) (rule nothing, simp_all add: refused_def)
    next
      case (Inr eo)
      obtain w1 e1 where f: "f w eo pr = (w1, e1)" by (cases "f w eo pr")
      show thesis
      proof (cases e1)
        case (Inl e)
        then show thesis using entry Inr f by (intro entry_refused [OF entry(1,2) Inr]) (auto simp: place_entry_def)
      next
        case (Inr eid)
        obtain xo where xo: "exit_order t sl tg = Inr xo" "protects xo eo" using \<open>entry_order t = Inr eo\<close> by (rule exit_order_builds)
        obtain w2 answer where x: "f w1 xo pr = (w2, answer)" by (cases "f w1 xo pr")
        have "place_exit f bid stamps t sl tg pr eid s w1 = ((s', w'), r)" using entry(4) \<open>entry_order t = Inr eo\<close> f Inr by (simp add: place_entry_def)
        then have "w' = w2" "s' = register_bracket (placed_bracket bid stamps t sl tg pr eid answer) s"
          "\<exists>y. r = Inr y \<and> bx_bracket y = Some (placed_bracket bid stamps t sl tg pr eid answer) \<and> (bx_success y \<longleftrightarrow> order_id_of answer \<notin> {None, Some []})"
          by (auto simp: place_exit_def xo(1) x placed_bracket_def order_id_of_def Let_def split: sum.splits if_splits)
        then show thesis using placed [OF entry(1,2) \<open>entry_order t = Inr eo\<close> entry(3) xo] f Inr x by auto
      qed
    qed
  qed
qed

subsection \<open>Runs of the service\<close>

datatype bracket_op =
    Place_bracket string "string \<times> string" row "fnum option" "fnum option" "fnum option" "bracket_principal option"
  | Cancel_bracket string string "bracket_principal option"
  | Modify_bracket string
  | Complete_bracket string string

fun exec_bracket :: "'w leg_dispatch \<Rightarrow> bracket_op \<Rightarrow> bracket_service \<times> 'w \<Rightarrow> bracket_service \<times> 'w" where
  "exec_bracket d (Place_bracket bid stamps entry sl tg trailing who) sw = fst (place_bracket d bid stamps entry sl tg trailing who sw)"
| "exec_bracket d (Cancel_bracket now bid who) sw = fst (cancel_bracket d now bid who sw)"
| "exec_bracket d (Modify_bracket bid) sw = sw"
| "exec_bracket d (Complete_bracket now bid) sw = (fst (mark_completed now bid (fst sw)), snd sw)"

text \<open>The identifier of a new bracket is a fresh \<open>uuid4\<close>.\<close>

fun fresh_op :: "bracket_op \<Rightarrow> bracket_service \<Rightarrow> bool" where
  "fresh_op (Place_bracket bid stamps entry sl tg trailing who) s = (bid \<notin> fst ` set (bs_registry s))"
| "fresh_op a s = True"

inductive bracket_run :: "'w leg_dispatch \<Rightarrow> bracket_service \<times> 'w \<Rightarrow> bracket_op list \<Rightarrow> bracket_service \<times> 'w \<Rightarrow> bool" for d where
  idle: "bracket_run d sw [] sw"
| act: "fresh_op a (fst sw) \<Longrightarrow> bracket_run d (exec_bracket d a sw) as sw' \<Longrightarrow> bracket_run d sw (a # as) sw'"

definition leg_ids :: "bracket_order \<Rightarrow> string set" where
  "leg_ids b = insert (bo_entry_order_id b) (set_option (bo_sl_order_id b) \<union> set_option (bo_target_order_id b))"

definition same_account :: "bracket_order \<Rightarrow> bracket_principal \<Rightarrow> bool" where
  "same_account b pr \<longleftrightarrow> bo_adapter_id b = bp_adapter_id pr \<and> bo_account_id b = bp_account_id pr"

definition accepted_leg :: "leg_event list \<Rightarrow> string \<Rightarrow> bracket_principal \<Rightarrow> bool" where
  "accepted_leg ev i pr \<longleftrightarrow> (\<exists>ord. Leg_placed ord pr (Inr i) \<in> set ev)"

definition brackets :: "bracket_service \<Rightarrow> bracket_order set" where
  "brackets s = snd ` set (bs_registry s)"

text \<open>Every leg the broker accepted belongs to a bracket of its account.\<close>

definition tracked :: "bracket_service \<Rightarrow> leg_event list \<Rightarrow> bool" where
  "tracked s ev \<longleftrightarrow> (\<forall>i pr. accepted_leg ev i pr \<longrightarrow> (\<exists>b \<in> brackets s. i \<in> leg_ids b \<and> same_account b pr))"

text \<open>Every leg of a bracket was accepted by the broker on the account of the bracket.\<close>

definition backed :: "bracket_service \<Rightarrow> leg_event list \<Rightarrow> bool" where
  "backed s ev \<longleftrightarrow> (\<forall>b \<in> brackets s. \<forall>i \<in> leg_ids b. \<exists>pr. accepted_leg ev i pr \<and> same_account b pr)"

text \<open>Every cancel goes to a leg that was accepted before on the same account.\<close>

definition accepted_on :: "leg_event list \<Rightarrow> string \<Rightarrow> string \<Rightarrow> string \<Rightarrow> bool" where
  "accepted_on ev i adapter account \<longleftrightarrow> (\<exists>pr. accepted_leg ev i pr \<and> bp_adapter_id pr = adapter \<and> bp_account_id pr = account)"

definition cancels_bound :: "leg_event list \<Rightarrow> bool" where
  "cancels_bound ev \<longleftrightarrow> (\<forall>before i pr c later. ev = before @ Leg_cancelled i pr c # later \<longrightarrow> accepted_on before i (bp_adapter_id pr) (bp_account_id pr))"

definition bracket_inv :: "bracket_service \<Rightarrow> leg_event list \<Rightarrow> bool" where
  "bracket_inv s ev \<longleftrightarrow> tracked s ev \<and> backed s ev \<and> cancels_bound ev \<and> distinct (map fst (bs_registry s))"

lemma accepted_leg_append [simp]:
  "accepted_leg (ev @ [Leg_placed ord pr' r]) i pr \<longleftrightarrow> accepted_leg ev i pr \<or> pr' = pr \<and> r = Inr i"
  "accepted_leg (ev @ [Leg_cancelled j pr' c]) i pr \<longleftrightarrow> accepted_leg ev i pr"
  by (auto simp: accepted_leg_def)

lemma cancels_bound_Nil [simp]: "cancels_bound []"
  by (simp add: cancels_bound_def)

lemma cancels_bound_snoc [simp]:
  "cancels_bound (ev @ [Leg_placed ord pr r]) \<longleftrightarrow> cancels_bound ev"
  "cancels_bound (ev @ [Leg_cancelled i pr c]) \<longleftrightarrow> cancels_bound ev \<and> accepted_on ev i (bp_adapter_id pr) (bp_account_id pr)"
proof -
  have split: "ev @ [e] = before @ x # later \<longleftrightarrow> later = [] \<and> before = ev \<and> x = e \<or> (\<exists>zs. later = zs @ [e] \<and> ev = before @ x # zs)" for e x before later
    by (cases later rule: rev_cases) auto
  show "cancels_bound (ev @ [Leg_placed ord pr r]) \<longleftrightarrow> cancels_bound ev" by (auto simp: cancels_bound_def split)
  show "cancels_bound (ev @ [Leg_cancelled i pr c]) \<longleftrightarrow> cancels_bound ev \<and> accepted_on ev i (bp_adapter_id pr) (bp_account_id pr)"
    by (auto simp: cancels_bound_def split)
qed

lemma brackets_simps [simp]:
  "brackets (s\<lparr>bs_registry := R\<rparr>) = snd ` set R"
  by (simp add: brackets_def)

lemma brackets_lookup: "map_of (bs_registry s) bid = Some b \<Longrightarrow> b \<in> brackets s"
  unfolding brackets_def by (metis map_of_SomeD image_eqI snd_conv)

lemma brackets_register: "bo_bracket_id b \<notin> fst ` set (bs_registry s) \<Longrightarrow> brackets (register_bracket b s) = insert b (brackets s)"
  by (simp add: register_bracket_def brackets_def update_new_key)

lemma brackets_put_new: "b' \<in> brackets (put_bracket bid b' s)"
  by (rule brackets_lookup [of _ bid]) (simp add: put_bracket_def)

lemma brackets_put_old: "x \<in> brackets (put_bracket bid b' s) \<Longrightarrow> x = b' \<or> x \<in> brackets s"
  using values_update [of bid b' "bs_registry s"] by (auto simp: put_bracket_def brackets_def)

lemma brackets_put_keep:
  assumes "x \<in> brackets s" and "distinct (map fst (bs_registry s))" and "map_of (bs_registry s) bid = Some b" and "x \<noteq> b"
  shows "x \<in> brackets (put_bracket bid b' s)"
proof -
  from assms(1) obtain k where "(k, x) \<in> set (bs_registry s)" by (auto simp: brackets_def)
  then have k: "map_of (bs_registry s) k = Some x" using assms(2) by simp
  then have "k \<noteq> bid" using assms(3,4) by auto
  with k show ?thesis by (intro brackets_lookup [of _ k]) (simp add: put_bracket_def)
qed

lemma trackedI: "(\<And>i pr. accepted_leg ev i pr \<Longrightarrow> \<exists>b \<in> brackets s. i \<in> leg_ids b \<and> same_account b pr) \<Longrightarrow> tracked s ev"
  by (simp add: tracked_def)

lemma trackedE:
  assumes "tracked s ev" and "accepted_leg ev i pr"
  obtains b where "b \<in> brackets s" "i \<in> leg_ids b" "same_account b pr"
  using assms unfolding tracked_def by blast

lemma backedI: "(\<And>b i. b \<in> brackets s \<Longrightarrow> i \<in> leg_ids b \<Longrightarrow> \<exists>pr. accepted_leg ev i pr \<and> same_account b pr) \<Longrightarrow> backed s ev"
  by (simp add: backed_def)

lemma backedE:
  assumes "backed s ev" and "b \<in> brackets s" and "i \<in> leg_ids b"
  obtains pr where "accepted_leg ev i pr" "same_account b pr"
  using assms unfolding backed_def by blast

text \<open>A change that keeps the legs and the account of a bracket keeps the invariant.\<close>

lemma bracket_inv_put:
  assumes "bracket_inv s ev" and b: "map_of (bs_registry s) bid = Some b" and ids: "leg_ids b' = leg_ids b"
    and acc: "\<And>pr. same_account b' pr = same_account b pr"
  shows "bracket_inv (put_bracket bid b' s) ev"
proof -
  from assms(1) have inv: "tracked s ev" "backed s ev" "cancels_bound ev" "distinct (map fst (bs_registry s))" by (simp_all add: bracket_inv_def)
  have "tracked (put_bracket bid b' s) ev"
  proof (rule trackedI)
    fix i pr
    assume "accepted_leg ev i pr"
    then obtain x where x: "x \<in> brackets s" "i \<in> leg_ids x" "same_account x pr" by (rule trackedE [OF inv(1)])
    show "\<exists>y \<in> brackets (put_bracket bid b' s). i \<in> leg_ids y \<and> same_account y pr"
    proof (cases "x = b")
      case True
      then show ?thesis using x ids acc brackets_put_new [of b' bid s] by blast
    next
      case False
      then show ?thesis using x brackets_put_keep [OF x(1) inv(4) b] by blast
    qed
  qed
  moreover have "backed (put_bracket bid b' s) ev"
  proof (rule backedI)
    fix x i
    assume "x \<in> brackets (put_bracket bid b' s)" and i: "i \<in> leg_ids x"
    then consider "x = b'" | "x \<in> brackets s" by (blast dest: brackets_put_old)
    then show "\<exists>pr. accepted_leg ev i pr \<and> same_account x pr"
    proof cases
      case 1
      then show ?thesis using backedE [OF inv(2) brackets_lookup [OF b], of i] i ids acc by blast
    next
      case 2
      then show ?thesis using backedE [OF inv(2) 2 i] by blast
    qed
  qed
  ultimately show ?thesis using inv by (simp add: bracket_inv_def put_bracket_def distinct_update)
qed

lemma leg_ids_simps [simp]:
  "leg_ids (mark_cancelled ws now b) = leg_ids b" "leg_ids (b\<lparr>bo_status := st, bo_updated_at := now\<rparr>) = leg_ids b"
  "same_account (mark_cancelled ws now b) pr = same_account b pr" "same_account (b\<lparr>bo_status := st, bo_updated_at := now\<rparr>) pr = same_account b pr"
  by (simp_all add: leg_ids_def mark_cancelled_def same_account_def)

lemma resting_leg_ids: "(i, n) \<in> set (resting_legs b) \<Longrightarrow> i \<in> leg_ids b"
  by (auto simp: resting_legs_def leg_ids_def split: option.splits if_splits)

lemma bracket_inv_cancel_event:
  assumes "bracket_inv s ev" and "b \<in> brackets s" and "i \<in> leg_ids b"
  shows "bracket_inv s (ev @ [Leg_cancelled i (rebound b pr) c])"
proof -
  from assms(1) have inv: "tracked s ev" "backed s ev" "cancels_bound ev" "distinct (map fst (bs_registry s))" by (simp_all add: bracket_inv_def)
  obtain pr' where "accepted_leg ev i pr'" "same_account b pr'" by (rule backedE [OF inv(2) assms(2,3)])
  then have "cancels_bound (ev @ [Leg_cancelled i (rebound b pr) c])"
    using inv(3) by (auto simp: rebound_def accepted_on_def same_account_def)
  then show ?thesis using inv by (simp add: bracket_inv_def tracked_def backed_def)
qed

lemma bracket_inv_register:
  assumes "bracket_inv s ev" and fresh: "bo_bracket_id b \<notin> fst ` set (bs_registry s)"
    and ids: "leg_ids b = {i. accepted_leg new i pr}" and acc: "same_account b pr"
    and only: "\<And>i pr'. accepted_leg new i pr' \<Longrightarrow> pr' = pr" and bound: "cancels_bound (ev @ new)"
  shows "bracket_inv (register_bracket b s) (ev @ new)"
proof -
  from assms(1) have inv: "tracked s ev" "backed s ev" "cancels_bound ev" "distinct (map fst (bs_registry s))" by (simp_all add: bracket_inv_def)
  have split: "accepted_leg (ev @ new) i p \<longleftrightarrow> accepted_leg ev i p \<or> accepted_leg new i p" for i p by (auto simp: accepted_leg_def)
  note reg = brackets_register [OF fresh]
  have "tracked (register_bracket b s) (ev @ new)"
  proof (rule trackedI)
    fix i p
    assume "accepted_leg (ev @ new) i p"
    then consider "accepted_leg ev i p" | "accepted_leg new i p" by (auto simp: split)
    then show "\<exists>y \<in> brackets (register_bracket b s). i \<in> leg_ids y \<and> same_account y p"
    proof cases
      case 1
      then show ?thesis using trackedE [OF inv(1) 1] reg by blast
    next
      case 2
      then show ?thesis using only [OF 2] ids acc reg by blast
    qed
  qed
  moreover have "backed (register_bracket b s) (ev @ new)"
  proof (rule backedI)
    fix x i
    assume "x \<in> brackets (register_bracket b s)" and i: "i \<in> leg_ids x"
    then consider "x = b" | "x \<in> brackets s" using reg by blast
    then show "\<exists>p. accepted_leg (ev @ new) i p \<and> same_account x p"
    proof cases
      case 1
      then show ?thesis using i ids acc by (auto simp: split)
    next
      case 2
      then show ?thesis using backedE [OF inv(2) 2 i] split by blast
    qed
  qed
  ultimately show ?thesis using inv bound by (simp add: bracket_inv_def register_bracket_def distinct_update)
qed

lemma placed_leg_ids:
  "leg_ids (placed_bracket bid stamps t sl tg pr eid answer) = insert eid (set_option (order_id_of answer))"
  "bo_bracket_id (placed_bracket bid stamps t sl tg pr eid answer) = bid"
  "same_account (placed_bracket bid stamps t sl tg pr eid answer) pr"
  by (simp_all add: placed_bracket_def bracket_of_def leg_ids_def same_account_def)

lemma cancel_bracket_cases:
  assumes "cancel_bracket d now bid who (s, w) = ((s', w'), r)"
  obtains (refusal) "s' = s" "w' = w" "r \<noteq> Inr True"
  | (no_legs) b where "map_of (bs_registry s) bid = Some b" "resting_legs b = []" "s' = put_bracket bid (mark_cancelled [] now b) s" "w' = w" "r = Inr True"
  | (all_failed) b g pr failed where "map_of (bs_registry s) bid = Some b" "ld_cancel d = Some g"
      "sweep_legs g (rebound b pr) (resting_legs b) w = (w', [], failed)" "s' = s" "r = Inl (Every_cancel_failed failed)"
  | (swept) b g pr x xs failed where "map_of (bs_registry s) bid = Some b" "ld_cancel d = Some g"
      "sweep_legs g (rebound b pr) (resting_legs b) w = (w', x # xs, failed)" "s' = put_bracket bid (mark_cancelled (if failed = [] then [] else [Unconfirmed failed]) now b) s" "r = Inr True"
proof (cases "map_of (bs_registry s) bid")
  case None
  then show thesis using assms by (intro refusal) (auto simp: cancel_bracket_def)
next
  case (Some b)
  consider "bo_status b \<in> {Completed_bracket, Cancelled_bracket} \<or> resting_legs b \<noteq> [] \<and> (ld_cancel d = None \<or> who = None)"
    | "bo_status b \<notin> {Completed_bracket, Cancelled_bracket}" "resting_legs b = []"
    | g pr where "bo_status b \<notin> {Completed_bracket, Cancelled_bracket}" "resting_legs b \<noteq> []" "ld_cancel d = Some g" "who = Some pr"
    by fastforce
  then show thesis
  proof cases
    case 1
    then show thesis using assms Some by (intro refusal) (auto simp: cancel_bracket_def split: option.splits if_splits)
  next
    case 2
    then show thesis using assms Some by (intro no_legs) (auto simp: cancel_bracket_def)
  next
    case (3 g pr)
    obtain w2 done_legs failed where sw: "sweep_legs g (rebound b pr) (resting_legs b) w = (w2, done_legs, failed)"
      by (cases "sweep_legs g (rebound b pr) (resting_legs b) w")
    show thesis
    proof (cases done_legs)
      case Nil
      then show thesis using assms Some 3 sw by (intro all_failed) (auto simp: cancel_bracket_def)
    next
      case (Cons x xs)
      then show thesis using assms Some 3 sw by (intro swept) (auto simp: cancel_bracket_def)
    qed
  qed
qed

text \<open>Over any dispatchers that keep a log, every operation keeps the invariant.\<close>

context leg_log
begin

lemma inv_place:
  assumes "bracket_inv s (events w)" and "bid \<notin> fst ` set (bs_registry s)"
    and "place_bracket d bid stamps entry sl tg trailing who (s, w) = ((s', w'), r)"
  shows "bracket_inv s' (events w')"
  using assms(3)
proof (cases rule: place_bracket_cases)
  case nothing
  then show ?thesis using assms(1) by simp
next
  case (entry_refused f pr t eo e)
  then have "events w' = events w @ [Leg_placed eo pr (Inl e)]" by (blast intro: place_event)
  then show ?thesis using assms(1) entry_refused by (auto simp: bracket_inv_def tracked_def backed_def)
next
  case (placed f pr t eo xo eid w1 answer x)
  have "events w' = events w1 @ [Leg_placed xo pr answer]" using placed by (blast intro: place_event)
  moreover have "events w1 = events w @ [Leg_placed eo pr (Inr eid)]" using placed by (blast intro: place_event)
  ultimately have ev: "events w' = events w @ [Leg_placed eo pr (Inr eid), Leg_placed xo pr answer]" by simp
  have "cancels_bound (events w)" using assms(1) by (simp add: bracket_inv_def)
  then have "cancels_bound ((events w @ [Leg_placed eo pr (Inr eid)]) @ [Leg_placed xo pr answer])" by (simp only: cancels_bound_snoc)
  then show ?thesis
    unfolding placed(9) ev using assms(1)
    by (intro bracket_inv_register [where pr = pr])
       (use assms(2) in \<open>auto simp: placed_leg_ids accepted_leg_def order_id_of_def split: sum.splits\<close>)
qed

lemma inv_sweep:
  assumes "ld_cancel d = Some g" and "b \<in> brackets s"
  shows "bracket_inv s (events w) \<Longrightarrow> fst ` set legs \<subseteq> leg_ids b \<Longrightarrow> bracket_inv s (events (fst (sweep_legs g (rebound b pr) legs w)))"
proof (induction legs arbitrary: w)
  case (Cons leg legs)
  obtain i name where leg: "leg = (i, name)" by (cases leg)
  obtain w1 c where g: "g w i (rebound b pr) = (w1, c)" by (cases "g w i (rebound b pr)")
  have "bracket_inv s (events w1)"
    unfolding cancel_event [OF assms(1) g] using Cons.prems leg by (intro bracket_inv_cancel_event [OF _ assms(2)]) auto
  then show ?case using Cons.IH [of w1] Cons.prems by (simp add: leg g case_prod_unfold Let_def)
qed simp

lemma inv_cancel:
  assumes "bracket_inv s (events w)" and "cancel_bracket d now bid who (s, w) = ((s', w'), r)"
  shows "bracket_inv s' (events w')"
proof -
  have legs: "fst ` set (resting_legs b) \<subseteq> leg_ids b" for b by (auto dest: resting_leg_ids)
  from assms(2) show ?thesis
  proof (cases rule: cancel_bracket_cases)
    case refusal
    then show ?thesis using assms(1) by simp
  next
    case (no_legs b)
    then show ?thesis using bracket_inv_put [OF assms(1) no_legs(1)] by simp
  next
    case (all_failed b g pr failed)
    then show ?thesis using inv_sweep [OF all_failed(2) brackets_lookup [OF all_failed(1)] assms(1) legs, of pr] by simp
  next
    case (swept b g pr x xs failed)
    then have "bracket_inv s (events w')"
      using inv_sweep [OF swept(2) brackets_lookup [OF swept(1)] assms(1) legs, of pr] by simp
    then show ?thesis using bracket_inv_put [OF _ swept(1)] swept(4) by simp
  qed
qed

lemma inv_complete: "bracket_inv s ev \<Longrightarrow> bracket_inv (fst (mark_completed now bid s)) ev"
  by (auto simp: mark_completed_def intro: bracket_inv_put split: option.splits)

lemma inv_run:
  assumes "bracket_run d sw as sw'" and "bracket_inv (fst sw) (events (snd sw))"
  shows "bracket_inv (fst sw') (events (snd sw'))"
  using assms
proof (induction rule: bracket_run.induct)
  case (act a sw as sw')
  obtain s w where sw: "sw = (s, w)" by (cases sw)
  have "bracket_inv (fst (exec_bracket d a sw)) (events (snd (exec_bracket d a sw)))"
  proof (cases a)
    case (Place_bracket bid stamps entry sl tg trailing who)
    then show ?thesis using act.prems act.hyps(1) sw
      by (cases "place_bracket d bid stamps entry sl tg trailing who (s, w)") (auto intro: inv_place)
  next
    case (Cancel_bracket now bid who)
    then show ?thesis using act.prems sw by (cases "cancel_bracket d now bid who (s, w)") (auto intro: inv_cancel)
  qed (use act.prems inv_complete in auto)
  then show ?case by (rule act.IH)
qed

lemma run_from_start:
  assumes "bracket_run d (new_bracket_service strategy prd, w) as (s, w')" and "events w = []"
  shows "bracket_inv s (events w')"
  using inv_run [OF assms(1)] assms(2)
  by (simp add: bracket_inv_def tracked_def backed_def accepted_leg_def brackets_def new_bracket_service_def)

end

subsection \<open>A log beside any dispatchers\<close>

definition log_place :: "('w \<Rightarrow> leg_order \<Rightarrow> bracket_principal \<Rightarrow> 'w \<times> (string + string)) \<Rightarrow> 'w \<times> leg_event list \<Rightarrow> leg_order \<Rightarrow> bracket_principal
    \<Rightarrow> ('w \<times> leg_event list) \<times> (string + string)" where
  "log_place f wl ord pr = (case f (fst wl) ord pr of (w, r) \<Rightarrow> ((w, snd wl @ [Leg_placed ord pr r]), r))"

definition log_cancel :: "('w \<Rightarrow> string \<Rightarrow> bracket_principal \<Rightarrow> 'w \<times> (string + unit)) \<Rightarrow> 'w \<times> leg_event list \<Rightarrow> string \<Rightarrow> bracket_principal
    \<Rightarrow> ('w \<times> leg_event list) \<times> (string + unit)" where
  "log_cancel g wl i pr = (case g (fst wl) i pr of (w, c) \<Rightarrow> ((w, snd wl @ [Leg_cancelled i pr c]), c))"

definition logged :: "'w leg_dispatch \<Rightarrow> ('w \<times> leg_event list) leg_dispatch" where
  "logged d = \<lparr>ld_place = map_option log_place (ld_place d), ld_cancel = map_option log_cancel (ld_cancel d)\<rparr>"

interpretation leg_logged: leg_log "logged d" snd for d
  by unfold_locales (auto simp: logged_def log_place_def log_cancel_def split: prod.splits)

text \<open>
  C12. From a new service over any dispatchers, after any sequence of placements, cancels, modifications
  and completions, every leg that the dispatcher reported as placed belongs to a registered bracket
  that is bound to the adapter and the account of the placement.
\<close>

theorem accepted_legs_are_tracked:
  assumes "bracket_run (logged d) (new_bracket_service strategy prd, (w, [])) as (s, (w', ev))" and "accepted_leg ev i pr"
  shows "\<exists>b \<in> brackets s. i \<in> leg_ids b \<and> same_account b pr"
proof -
  have "tracked s ev" using leg_logged.run_from_start [OF assms(1)] by (simp add: bracket_inv_def)
  then show ?thesis using assms(2) by (blast elim: trackedE)
qed

text \<open>
  C13. Whoever asks for it and with whatever principal, a cancel is only ever sent for an order that the
  dispatcher reported as placed before, and to the adapter and the account it was placed on.
\<close>

theorem cancels_stay_on_account:
  assumes "bracket_run (logged d) (new_bracket_service strategy prd, (w, [])) as (s, (w', before @ Leg_cancelled i pr c # later))"
  shows "accepted_on before i (bp_adapter_id pr) (bp_account_id pr)"
proof -
  have "cancels_bound (before @ Leg_cancelled i pr c # later)" using leg_logged.run_from_start [OF assms] by (simp add: bracket_inv_def)
  then show ?thesis unfolding cancels_bound_def by blast
qed

subsection \<open>A placement protects its entry or says so\<close>

definition exit_at :: "fnum option \<Rightarrow> fnum option \<Rightarrow> leg_order \<Rightarrow> bool" where
  "exit_at sl tg x \<longleftrightarrow>
     (case (sl, tg) of
        (Some p, None) \<Rightarrow> \<not> f_le p (Fin 0) \<and> od_pricetype x = ''SL'' \<and> od_price x = float_repr p \<and> lo_trigger_price x = float_repr p
      | (None, Some p) \<Rightarrow> \<not> f_le p (Fin 0) \<and> od_pricetype x = ''LIMIT'' \<and> od_price x = float_repr p \<and> lo_trigger_price x = ''0''
      | _ \<Rightarrow> False)"

lemma exit_order_at: "exit_problems sl tg trailing = [] \<Longrightarrow> exit_order t sl tg = Inr x \<Longrightarrow> exit_at sl tg x"
  by (auto simp: exit_problems_def exit_order_def exit_at_def make_order_def split: option.splits if_splits)

definition protected_by :: "leg_event list \<Rightarrow> fnum option \<Rightarrow> fnum option \<Rightarrow> bracket_principal \<Rightarrow> bracket_order \<Rightarrow> bool" where
  "protected_by new sl tg pr b \<longleftrightarrow>
     (\<exists>eo xo xid. new = [Leg_placed eo pr (Inr (bo_entry_order_id b)), Leg_placed xo pr (Inr xid)] \<and> xid \<noteq> [] \<and> protects xo eo \<and> exit_at sl tg xo
        \<and> (if sl \<noteq> None then bo_sl_order_id b = Some xid else bo_target_order_id b = Some xid))"

definition entry_only :: "leg_event list \<Rightarrow> bracket_principal \<Rightarrow> bracket_order \<Rightarrow> bool" where
  "entry_only new pr b \<longleftrightarrow>
     (\<exists>eo xo answer. new = [Leg_placed eo pr (Inr (bo_entry_order_id b)), Leg_placed xo pr answer] \<and> order_id_of answer \<in> {None, Some []} \<and> bo_status b = Partial_bracket)"

definition no_entry :: "leg_event list \<Rightarrow> bool" where
  "no_entry new \<longleftrightarrow> new = [] \<or> (\<exists>eo pr e. new = [Leg_placed eo pr (Inl e)])"

lemma registered_is_active: "bo_status b \<notin> {Completed_bracket, Cancelled_bracket} \<Longrightarrow> b \<in> set (get_active_brackets (register_bracket b s))"
  using map_of_SomeD [of "AList.update (bo_bracket_id b) b (bs_registry s)" "bo_bracket_id b" b]
  by (force simp: get_active_brackets_def register_bracket_def)

text \<open>
  C14. What a call of \<open>place_bracket\<close> that returns has sent: when it reports success, the entry and one
  exit of the opposite side with the same contract, product and quantity at the requested price, both
  accepted and tracked; when it reports failure with a bracket, an accepted entry whose exit is not
  accepted, listed among the active brackets as partial; otherwise no entry was accepted and the
  registry is unchanged.
\<close>

theorem placement_is_protected_or_reported:
  assumes "place_bracket (logged d) bid stamps entry sl tg trailing (Some pr) (s, (w, ev)) = ((s', (w', ev')), Inr x)"
  shows "\<exists>new. ev' = ev @ new \<and>
     (case bx_bracket x of
        Some b \<Rightarrow> b \<in> set (get_active_brackets s') \<and> (if bx_success x then protected_by new sl tg pr b else entry_only new pr b)
      | None \<Rightarrow> \<not> bx_success x \<and> no_entry new \<and> s' = s)"
  using assms
proof (cases rule: place_bracket_cases)
  case nothing
  then show ?thesis using nothing by (intro exI [of _ "[]"]) (auto simp: no_entry_def)
next
  case (entry_refused f pr' t eo e)
  have "ev' = ev @ [Leg_placed eo pr (Inl e)]" using leg_logged.place_event [OF entry_refused(1,4)] entry_refused(2) by simp
  then show ?thesis using entry_refused by (intro exI [of _ "[Leg_placed eo pr (Inl e)]"]) (auto simp: no_entry_def refused_def)
next
  case (placed f pr' t eo xo eid w1 answer y)
  let ?b = "placed_bracket bid stamps t sl tg pr eid answer" and ?new = "[Leg_placed eo pr (Inr eid), Leg_placed xo pr answer]"
  have "ev' = ev @ ?new"
    using leg_logged.place_event [OF placed(1,7)] leg_logged.place_event [OF placed(1,8)] placed(2) by simp
  moreover have "?b \<in> set (get_active_brackets s')"
    using placed(2,9) registered_is_active [of ?b s] by (simp add: placed_bracket_def bracket_of_def)
  moreover have "if bx_success x then protected_by ?new sl tg pr ?b else entry_only ?new pr ?b"
    using placed exit_order_at [OF placed(4,5)]
    by (auto simp: protected_by_def entry_only_def placed_bracket_def bracket_of_def order_id_of_def split: sum.splits if_splits)
  ultimately show ?thesis using placed by auto
qed

subsection \<open>A cancel accounts for every resting leg\<close>

lemma sweep_accounts:
  "sweep_legs (log_cancel g) pr legs (w, ev) = ((w', ev'), swept, failed) \<Longrightarrow>
     set ev \<subseteq> set ev' \<and> (\<forall>(i, name) \<in> set legs. Leg_cancelled i pr (Inr ()) \<in> set ev' \<or> (\<exists>e. (name, i, e) \<in> set failed))"
proof (induction legs arbitrary: w ev w' ev' swept failed)
  case (Cons leg legs)
  obtain j n where leg: "leg = (j, n)" by (cases leg)
  obtain w1 c where g: "g w j pr = (w1, c)" by (cases "g w j pr")
  have step: "log_cancel g (w, ev) j pr = ((w1, ev @ [Leg_cancelled j pr c]), c)" by (simp add: log_cancel_def g)
  obtain w2 ev2 swept2 failed2 where rest: "sweep_legs (log_cancel g) pr legs (w1, ev @ [Leg_cancelled j pr c]) = ((w2, ev2), swept2, failed2)"
    by (metis prod.exhaust)
  have "ev' = ev2" "failed = (case c of Inr _ \<Rightarrow> failed2 | Inl e \<Rightarrow> (n, j, e) # failed2)"
    using Cons.prems by (simp_all add: leg step rest)
  then show ?case using Cons.IH [OF rest] by (cases c) (auto simp: leg)
qed simp

definition accounted :: "bracket_order \<Rightarrow> leg_event list \<Rightarrow> string \<times> string \<Rightarrow> bool" where
  "accounted b ev leg \<longleftrightarrow>
     (\<exists>pr. same_account b pr \<and> Leg_cancelled (fst leg) pr (Inr ()) \<in> set ev)
     \<or> (\<exists>failed e. Unconfirmed failed \<in> set (bo_cancel_warnings b) \<and> (snd leg, fst leg, e) \<in> set failed)"

lemma rebound_account [simp]: "same_account b (rebound b pr)"
  by (simp add: same_account_def rebound_def)

text \<open>
  C15. When \<open>cancel_bracket\<close> answers true, the bracket is registered as cancelled, and each of its resting
  legs was cancelled by the broker on the account of the bracket or is named in its warnings.
\<close>

theorem cancel_accounts_for_every_leg:
  assumes "cancel_bracket (logged d) now bid who (s, (w, ev)) = ((s', (w', ev')), Inr True)"
  shows "\<exists>b. get_bracket bid s' = Some b \<and> bo_status b = Cancelled_bracket \<and> list_all (accounted b ev') (resting_legs b)"
proof -
  have legs: "resting_legs (mark_cancelled ws now b) = resting_legs b" for ws b by (simp add: resting_legs_def mark_cancelled_def)
  from assms show ?thesis
  proof (cases rule: cancel_bracket_cases)
    case refusal
    then show ?thesis by simp
  next
    case (no_legs b)
    then show ?thesis by (auto simp: get_bracket_def put_bracket_def legs) (simp add: mark_cancelled_def)
  next
    case (all_failed b g pr failed)
    then show ?thesis by simp
  next
    case (swept b g pr x xs failed)
    then obtain g' where g: "g = log_cancel g'" by (auto simp: logged_def)
    let ?b = "mark_cancelled (if failed = [] then [] else [Unconfirmed failed]) now b"
    have "Leg_cancelled (fst leg) (rebound b pr) (Inr ()) \<in> set ev' \<or> (\<exists>e. (snd leg, fst leg, e) \<in> set failed)" if "leg \<in> set (resting_legs b)" for leg
      using sweep_accounts [OF swept(3) [unfolded g]] that by (auto split: prod.splits)
    moreover have "same_account ?b (rebound b pr)" by simp
    moreover have "Unconfirmed failed \<in> set (bo_cancel_warnings ?b)" if "failed \<noteq> []" using that by (simp add: mark_cancelled_def)
    ultimately have "list_all (accounted ?b ev') (resting_legs b)" unfolding accounted_def list_all_iff by (metis empty_iff empty_set)
    then show ?thesis using swept(4) by (auto simp: get_bracket_def put_bracket_def legs) (simp_all add: mark_cancelled_def)
  qed
qed

subsection \<open>A bracket in concrete numbers\<close>

definition sample_entry :: row where
  "sample_entry = [(''symbol'', PStr ''NIFTYFUT''), (''exchange'', PStr ''NFO''), (''action'', PStr ''buy''), (''quantity'', PInt 50), (''price'', PInt 0)]"

definition sample_owner :: bracket_principal where
  "sample_owner = \<lparr>bp_actor_id = ''operator'', bp_jti = ''j1'', bp_adapter_id = ''dhan'', bp_account_id = ''A1''\<rparr>"

text \<open>A broker that numbers the orders it accepts, and one that refuses the second.\<close>

definition counting_place :: "nat \<Rightarrow> leg_order \<Rightarrow> bracket_principal \<Rightarrow> nat \<times> (string + string)" where
  "counting_place n ord pr = (n + 1, if n = 2 then Inl ''refused'' else Inr (''N'' @ show_nat n))"

definition counting_cancel :: "nat \<Rightarrow> string \<Rightarrow> bracket_principal \<Rightarrow> nat \<times> (string + unit)" where
  "counting_cancel n i pr = (n, Inr ())"

definition sample_legs :: "nat leg_dispatch" where
  "sample_legs = \<lparr>ld_place = Some counting_place, ld_cancel = Some counting_cancel\<rparr>"

definition sample_place :: bracket_op where
  "sample_place = Place_bracket ''b1'' (''t1'', ''t1'') sample_entry (Some (Fin 22000)) None None (Some sample_owner)"

definition sample_cancel :: bracket_op where
  "sample_cancel = Cancel_bracket ''t2'' ''b1'' (Some (sample_owner\<lparr>bp_adapter_id := ''upstox''\<rparr>))"

definition sample_after :: "bracket_service \<times> nat \<times> leg_event list" where
  "sample_after = exec_bracket (logged sample_legs) sample_place (new_bracket_service ''Flint'' ''MIS'', (0, []))"

definition sample_swept :: "bracket_service \<times> nat \<times> leg_event list" where
  "sample_swept = exec_bracket (logged sample_legs) sample_cancel sample_after"

lemma sample_bracket_run:
  "bracket_run (logged sample_legs) (new_bracket_service ''Flint'' ''MIS'', (0, [])) [sample_place, sample_cancel]
     (fst sample_swept, (fst (snd sample_swept), snd (snd sample_swept)))"
  unfolding prod.collapse unfolding sample_swept_def sample_after_def
  by (intro bracket_run.act bracket_run.idle) (simp_all add: sample_place_def sample_cancel_def new_bracket_service_def)

definition sample_leg :: "string \<Rightarrow> string \<Rightarrow> string \<Rightarrow> string \<Rightarrow> leg_order" where
  "sample_leg action kind price trigger =
     \<lparr>od_symbol = ''NIFTYFUT'', od_action = action, od_exchange = ''NFO'', od_product = ''MIS'', od_pricetype = kind, od_quantity = ''50'', od_price = price,
      od_validity = None, od_quantity1 = None, lo_trigger_price = trigger, lo_strategy = ''Flint''\<rparr>"

definition sample_placements :: "leg_event list" where
  "sample_placements = [Leg_placed (sample_leg ''BUY'' ''MARKET'' ''0.0'' ''0'') sample_owner (Inr ''N0''),
     Leg_placed (sample_leg ''SELL'' ''SL'' ''22000.0'' ''22000.0'') sample_owner (Inr ''N1'')]"

lemma sample_events: "snd (snd sample_swept) = sample_placements @ [Leg_cancelled ''N1'' sample_owner (Inr ())]"
  by code_simp

lemma sample_accepted: "accepted_leg (snd (snd sample_swept)) ''N1'' sample_owner"
  unfolding sample_events sample_placements_def by (simp add: accepted_leg_def)

theorem accepted_legs_are_tracked_witness: "\<exists>b \<in> brackets (fst sample_swept). ''N1'' \<in> leg_ids b \<and> same_account b sample_owner"
  using accepted_legs_are_tracked [OF sample_bracket_run sample_accepted] .

theorem cancels_stay_on_account_witness: "accepted_on sample_placements ''N1'' ''dhan'' ''A1''"
  using cancels_stay_on_account [OF sample_bracket_run [unfolded sample_events]] by (simp add: sample_owner_def)

definition sample_result :: bracket_result where
  "sample_result = projr (snd (place_bracket (logged sample_legs) ''b1'' (''t1'', ''t1'') sample_entry (Some (Fin 22000)) None None (Some sample_owner)
     (new_bracket_service ''Flint'' ''MIS'', (0, []))))"

theorem placement_is_protected_or_reported_witness: "protected_by sample_placements (Some (Fin 22000)) None sample_owner (the (bx_bracket sample_result))"
proof -
  have "place_bracket (logged sample_legs) ''b1'' (''t1'', ''t1'') sample_entry (Some (Fin 22000)) None None (Some sample_owner) (new_bracket_service ''Flint'' ''MIS'', (0, []))
      = ((fst sample_after, (2, sample_placements)), Inr sample_result)" by code_simp
  moreover have "bx_success sample_result \<and> bx_bracket sample_result \<noteq> None" by code_simp
  ultimately show ?thesis using placement_is_protected_or_reported by (fastforce split: option.splits)
qed

theorem cancel_accounts_for_every_leg_witness:
  "\<exists>b. get_bracket ''b1'' (fst sample_swept) = Some b \<and> bo_status b = Cancelled_bracket \<and> list_all (accounted b (snd (snd sample_swept))) (resting_legs b)"
proof -
  have "cancel_bracket (logged sample_legs) ''t2'' ''b1'' (Some (sample_owner\<lparr>bp_adapter_id := ''upstox''\<rparr>)) (fst sample_after, (2, sample_placements))
      = ((fst sample_swept, (2, snd (snd sample_swept))), Inr True)" by code_simp
  then show ?thesis by (rule cancel_accounts_for_every_leg)
qed

text \<open>
  A stop-loss that is not a number is not refused: the comparison with zero is false, the entry is
  sent, and the exit is sent with the price \<open>nan\<close>.
\<close>

lemma nan_stoploss_is_sent:
  "snd (snd (exec_bracket (logged sample_legs) (Place_bracket ''b1'' (''t1'', ''t1'') sample_entry (Some NotANum) None None (Some sample_owner))
     (new_bracket_service ''Flint'' ''MIS'', (0, []))))
   = [Leg_placed (sample_leg ''BUY'' ''MARKET'' ''0.0'' ''0'') sample_owner (Inr ''N0''),
      Leg_placed (sample_leg ''SELL'' ''SL'' ''nan'' ''nan'') sample_owner (Inr ''N1'')]"
  by code_simp

end
