(* ===== verification/Multi_Leg_Orders.thy ===== *)
theory Multi_Leg_Orders
  imports Bracket_Orders "HOL-Library.Multiset"
begin

text \<open>
  Orders of several legs over the same injected dispatcher as brackets: \<open>engine/split_orders.py\<close>, a
  large order in chunks, \<open>engine/basket_orders.py\<close>, a list of legs that is unwound when one fails, and
  \<open>engine/options_multi_order.py\<close>, which builds baskets. Pauses between legs have no effect on the state
  and are left out. Building an \<open>Order\<close> of an unknown exchange raises, outside every handler of these
  modules.
\<close>

subsection \<open>Split orders\<close>

record chunk_result =
  cr_chunk_index :: nat
  cr_quantity :: int
  cr_success :: bool
  cr_order_id :: string
  cr_error :: string

datatype split_problem =
    Split_symbol_required
  | Split_exchange_required
  | Split_action_invalid string
  | Split_total_not_positive int
  | Split_chunk_not_positive int
  | Split_chunk_above_total int int
  | Split_type_invalid string
  | Split_price_required string
  | Split_trigger_required string
  | Split_too_many_chunks int

datatype split_error = No_split_error | Split_invalid split_problem | Chunk_failed string

record split_result =
  sp_success :: bool
  sp_symbol :: string
  sp_exchange :: string
  sp_action :: string
  sp_total_quantity :: int
  sp_chunk_size :: int
  sp_chunks :: "chunk_result list"
  sp_timestamp :: string
  sp_strategy :: string
  sp_error :: split_error

definition split_placed_count :: "split_result \<Rightarrow> nat" where
  "split_placed_count r = length (filter cr_success (sp_chunks r))"

definition split_failed_count :: "split_result \<Rightarrow> nat" where
  "split_failed_count r = length (filter (\<lambda>c. \<not> cr_success c) (sp_chunks r))"

definition placed_quantity :: "split_result \<Rightarrow> int" where
  "placed_quantity r = sum_list (map cr_quantity (filter cr_success (sp_chunks r)))"

definition split_order_ids :: "split_result \<Rightarrow> string list" where
  "split_order_ids r = map cr_order_id (filter (\<lambda>c. cr_success c \<and> cr_order_id c \<noteq> []) (sp_chunks r))"

definition MAX_CHUNKS :: int where
  "MAX_CHUNKS = 100"

record split_request =
  sq_symbol :: string
  sq_exchange :: string
  sq_total_quantity :: int
  sq_chunk_size :: int
  sq_action :: string
  sq_order_type :: string
  sq_price :: fnum
  sq_trigger_price :: fnum
  sq_product :: string
  sq_strategy :: string

definition validate_split_params :: "split_request \<Rightarrow> split_problem option" where
  "validate_split_params q =
     (if py_strip (sq_symbol q) = [] then Some Split_symbol_required
      else if py_strip (sq_exchange q) = [] then Some Split_exchange_required
      else if sq_action q \<notin> {''BUY'', ''SELL''} then Some (Split_action_invalid (sq_action q))
      else if sq_total_quantity q \<le> 0 then Some (Split_total_not_positive (sq_total_quantity q))
      else if sq_chunk_size q \<le> 0 then Some (Split_chunk_not_positive (sq_chunk_size q))
      else if sq_chunk_size q > sq_total_quantity q then Some (Split_chunk_above_total (sq_chunk_size q) (sq_total_quantity q))
      else if sq_order_type q \<notin> set PRICE_TYPES then Some (Split_type_invalid (sq_order_type q))
      else if sq_order_type q \<in> {''LIMIT'', ''SL''} \<and> f_le (sq_price q) (Fin 0) then Some (Split_price_required (sq_order_type q))
      else if sq_order_type q \<in> {''SL'', ''SL-M''} \<and> f_le (sq_trigger_price q) (Fin 0) then Some (Split_trigger_required (sq_order_type q))
      else (let n = sq_total_quantity q div sq_chunk_size q + (if sq_total_quantity q mod sq_chunk_size q > 0 then 1 else 0)
            in if n > MAX_CHUNKS then Some (Split_too_many_chunks n) else None))"

text \<open>The exchange as a member of the enumeration, or the text as it is; the product, \<open>MIS\<close> when it is not one of three.\<close>

definition exchange_of :: "string \<Rightarrow> string" where
  "exchange_of e = (if py_upper e \<in> set EXCHANGES then py_upper e else e)"

definition product_of :: "string \<Rightarrow> string" where
  "product_of p = (if p \<in> {''MIS'', ''CNC'', ''NRML''} then p else ''MIS'')"

definition price_type_of :: "string \<Rightarrow> string" where
  "price_type_of t = (if t \<in> set PRICE_TYPES then t else ''MARKET'')"

definition build_chunk_order :: "split_request \<Rightarrow> int \<Rightarrow> bracket_fault + leg_order" where
  "build_chunk_order q n = make_order (sq_symbol q) (py_upper (sq_action q)) (exchange_of (sq_exchange q)) (price_type_of (sq_order_type q))
     (product_of (sq_product q)) (show_int n) (float_repr (sq_price q)) (float_repr (sq_trigger_price q)) (sq_strategy q)"

definition chunk_quantities :: "split_request \<Rightarrow> int list" where
  "chunk_quantities q =
     (let full = sq_total_quantity q div sq_chunk_size q; remainder = sq_total_quantity q mod sq_chunk_size q
      in replicate (nat full) (sq_chunk_size q) @ (if remainder \<noteq> 0 then [remainder] else []))"

fun place_chunks :: "('w \<Rightarrow> leg_order \<Rightarrow> bracket_principal \<Rightarrow> 'w \<times> (string + string)) \<Rightarrow> split_request \<Rightarrow> bracket_principal \<Rightarrow> nat \<Rightarrow> int list \<Rightarrow> 'w
    \<Rightarrow> ('w, bracket_fault, chunk_result list) outcome" where
  "place_chunks place q pr idx [] w = (w, Inr [])"
| "place_chunks place q pr idx (n # ns) w =
     (case build_chunk_order q n of
        Inl e \<Rightarrow> (w, Inl e)
      | Inr ord \<Rightarrow>
          (case place w ord pr of
             (w, Inl e) \<Rightarrow> (w, Inr [\<lparr>cr_chunk_index = idx, cr_quantity = n, cr_success = False, cr_order_id = [], cr_error = e\<rparr>])
           | (w, Inr i) \<Rightarrow>
               bind_out (place_chunks place q pr (idx + 1) ns w) (\<lambda>w cs.
                 (w, Inr (\<lparr>cr_chunk_index = idx, cr_quantity = n, cr_success = True, cr_order_id = i, cr_error = []\<rparr> # cs)))))"

definition split_report :: "split_request \<Rightarrow> string \<Rightarrow> bool \<Rightarrow> chunk_result list \<Rightarrow> split_error \<Rightarrow> split_result" where
  "split_report q now ok cs e =
     \<lparr>sp_success = ok, sp_symbol = sq_symbol q, sp_exchange = sq_exchange q, sp_action = sq_action q, sp_total_quantity = sq_total_quantity q,
      sp_chunk_size = sq_chunk_size q, sp_chunks = cs, sp_timestamp = now, sp_strategy = sq_strategy q, sp_error = e\<rparr>"

definition execute_split :: "('w \<Rightarrow> leg_order \<Rightarrow> bracket_principal \<Rightarrow> 'w \<times> (string + string)) \<Rightarrow> string \<Rightarrow> split_request \<Rightarrow> bracket_principal \<Rightarrow> 'w
    \<Rightarrow> ('w, bracket_fault, split_result) outcome" where
  "execute_split place now q pr w =
     (case validate_split_params q of
        Some p \<Rightarrow> (w, Inr (split_report q now False [] (Split_invalid p)))
      | None \<Rightarrow>
          bind_out (place_chunks place q pr 1 (chunk_quantities q) w) (\<lambda>w cs.
            (w, Inr (case find (\<lambda>c. \<not> cr_success c) cs of
                       None \<Rightarrow> split_report q now True cs No_split_error
                     | Some c \<Rightarrow> split_report q now False cs (Chunk_failed (cr_error c))))))"

subsection \<open>What a split sends\<close>

definition chunk_answer :: "chunk_result \<Rightarrow> string + string" where
  "chunk_answer c = (if cr_success c then Inr (cr_order_id c) else Inl (cr_error c))"

definition reported_chunk :: "split_request \<Rightarrow> bracket_principal \<Rightarrow> leg_event \<Rightarrow> chunk_result \<Rightarrow> bool" where
  "reported_chunk q pr e c \<longleftrightarrow> (\<exists>ord. build_chunk_order q (cr_quantity c) = Inr ord \<and> e = Leg_placed ord pr (chunk_answer c))"

text \<open>The calls of a run are its reports; they follow the list of quantities and end with the first that is refused.\<close>

lemma place_chunks_log:
  assumes "place_chunks (log_place f) q pr idx ns (w, ev) = ((w', ev'), Inr cs)"
  shows "\<exists>new. ev' = ev @ new \<and> list_all2 (reported_chunk q pr) new cs \<and> map cr_quantity cs = take (length cs) ns
     \<and> (list_all cr_success cs \<and> length cs = length ns \<or> (\<exists>us c. cs = us @ [c] \<and> list_all cr_success us \<and> \<not> cr_success c))"
  using assms
proof (induction ns arbitrary: idx w ev w' ev' cs)
  case (Cons n ns)
  from Cons.prems obtain ord where ord: "build_chunk_order q n = Inr ord" by (cases "build_chunk_order q n") auto
  obtain w1 r where f: "f w ord pr = (w1, r)" by (cases "f w ord pr")
  have step: "log_place f (w, ev) ord pr = ((w1, ev @ [Leg_placed ord pr r]), r)" by (simp add: log_place_def f)
  show ?case
  proof (cases r)
    case (Inl e)
    then show ?thesis using Cons.prems by (auto simp: ord step reported_chunk_def chunk_answer_def)
  next
    case (Inr i)
    from Cons.prems obtain ds where ds: "place_chunks (log_place f) q pr (idx + 1) ns (w1, ev @ [Leg_placed ord pr r]) = ((w', ev'), Inr ds)"
      and cs: "cs = \<lparr>cr_chunk_index = idx, cr_quantity = n, cr_success = True, cr_order_id = i, cr_error = []\<rparr> # ds"
      by (auto simp: ord step Inr bind_out_def split: prod.splits sum.splits)
    from Cons.IH [OF ds] obtain new where new: "ev' = (ev @ [Leg_placed ord pr r]) @ new" "list_all2 (reported_chunk q pr) new ds"
        "map cr_quantity ds = take (length ds) ns"
      and ends: "list_all cr_success ds \<and> length ds = length ns \<or> (\<exists>us c. ds = us @ [c] \<and> list_all cr_success us \<and> \<not> cr_success c)" by blast
    have "reported_chunk q pr (Leg_placed ord pr r) (hd cs)" by (simp add: reported_chunk_def chunk_answer_def ord Inr cs)
    moreover have "list_all cr_success cs \<and> length cs = length (n # ns) \<or> (\<exists>us c. cs = us @ [c] \<and> list_all cr_success us \<and> \<not> cr_success c)"
      using ends by (auto simp: cs)
    ultimately show ?thesis using new by (intro exI [of _ "Leg_placed ord pr r # new"]) (simp add: cs)
  qed
qed simp

lemma sum_chunk_quantities:
  assumes "0 < sq_chunk_size q" and "0 \<le> sq_total_quantity q"
  shows "sum_list (chunk_quantities q) = sq_total_quantity q"
proof -
  let ?t = "sq_total_quantity q" and ?c = "sq_chunk_size q"
  have "0 \<le> ?t div ?c" using assms by (simp add: pos_imp_zdiv_nonneg_iff)
  then have "sum_list (chunk_quantities q) = ?t div ?c * ?c + ?t mod ?c"
    by (cases "?t mod ?c = 0") (simp_all add: chunk_quantities_def Let_def sum_list_replicate del: minus_mod_eq_div_mult minus_mod_eq_mult_div)
  then show ?thesis by (simp only: div_mult_mod_eq)
qed

lemma chunk_quantities_bounds:
  assumes "0 < sq_chunk_size q" and "x \<in> set (chunk_quantities q)"
  shows "0 < x \<and> x \<le> sq_chunk_size q"
  using assms pos_mod_bound [OF assms(1), of "sq_total_quantity q"] pos_mod_sign [OF assms(1), of "sq_total_quantity q"]
  by (auto simp: chunk_quantities_def Let_def split: if_splits)

lemma chunk_quantities_length:
  assumes "validate_split_params q = None"
  shows "length (chunk_quantities q) \<le> 100" and "0 < sq_chunk_size q" and "0 < sq_total_quantity q"
proof -
  show pos: "0 < sq_chunk_size q" "0 < sq_total_quantity q" using assms by (auto simp: validate_split_params_def split: if_splits)
  have "sq_total_quantity q div sq_chunk_size q + (if sq_total_quantity q mod sq_chunk_size q > 0 then 1 else 0) \<le> 100"
    using assms by (auto simp: validate_split_params_def MAX_CHUNKS_def Let_def split: if_splits)
  moreover have "0 \<le> sq_total_quantity q div sq_chunk_size q" using pos by (simp add: pos_imp_zdiv_nonneg_iff)
  ultimately show "length (chunk_quantities q) \<le> 100"
    using pos_mod_sign [OF pos(1), of "sq_total_quantity q"] by (auto simp: chunk_quantities_def Let_def split: if_splits)
qed

lemma sum_list_take_le: "list_all (\<lambda>x. 0 < x) xs \<Longrightarrow> sum_list (take n xs) \<le> sum_list (xs :: int list)"
proof (induction xs arbitrary: n)
  case (Cons x xs)
  then show ?case
  proof (cases n)
    case 0
    have "0 \<le> sum_list xs" using Cons.prems by (intro sum_list_nonneg) (auto simp: list_all_iff)
    then show ?thesis using 0 Cons.prems by simp
  qed (use Cons in simp)
qed simp

lemma first_failure:
  "find (\<lambda>x. \<not> P x) xs = None \<Longrightarrow> list_all P xs"
  "find (\<lambda>x. \<not> P x) xs = Some y \<Longrightarrow> \<not> list_all P xs"
  by (induction xs) (auto split: if_splits)

definition known_exchange :: "string \<Rightarrow> bool" where
  "known_exchange e \<longleftrightarrow> py_upper e \<in> set EXCHANGES"


subsection \<open>Baskets\<close>

record basket_leg =
  bl_symbol :: string
  bl_exchange :: string
  bl_action :: string
  bl_quantity :: int
  bl_order_type :: string
  bl_price :: "fnum option"
  bl_trigger_price :: "fnum option"
  bl_product :: string

record leg_result =
  lr_leg_index :: nat
  lr_symbol :: string
  lr_action :: string
  lr_quantity :: int
  lr_success :: bool
  lr_order_id :: string
  lr_error :: string
  lr_rolled_back :: bool
  lr_rollback_order_id :: string

datatype leg_problem =
    Leg_symbol_required
  | Leg_exchange_required
  | Leg_action_invalid string
  | Leg_quantity_not_positive int
  | Leg_type_invalid string
  | Leg_price_required string
  | Leg_trigger_required string

datatype basket_error = No_basket_error | Basket_empty | Basket_invalid nat leg_problem | Leg_refused string

record basket_result =
  br_success :: bool
  br_legs :: "leg_result list"
  br_failed_leg_index :: int
  br_error :: basket_error
  br_timestamp :: string
  br_strategy :: string
  br_rolled_back :: bool

definition basket_order_ids :: "basket_result \<Rightarrow> string list" where
  "basket_order_ids r = map lr_order_id (filter (\<lambda>x. lr_success x \<and> lr_order_id x \<noteq> []) (br_legs r))"

definition basket_placed_count :: "basket_result \<Rightarrow> nat" where
  "basket_placed_count r = length (filter lr_success (br_legs r))"

definition basket_failed_count :: "basket_result \<Rightarrow> nat" where
  "basket_failed_count r = length (filter (\<lambda>x. \<not> lr_success x) (br_legs r))"

definition leg_problem :: "basket_leg \<Rightarrow> leg_problem option" where
  "leg_problem l =
     (if py_strip (bl_symbol l) = [] then Some Leg_symbol_required
      else if py_strip (bl_exchange l) = [] then Some Leg_exchange_required
      else if bl_action l \<notin> {''BUY'', ''SELL''} then Some (Leg_action_invalid (bl_action l))
      else if bl_quantity l \<le> 0 then Some (Leg_quantity_not_positive (bl_quantity l))
      else if bl_order_type l \<notin> set PRICE_TYPES then Some (Leg_type_invalid (bl_order_type l))
      else if bl_order_type l \<in> {''LIMIT'', ''SL''} \<and> (case bl_price l of None \<Rightarrow> True | Some p \<Rightarrow> f_le p (Fin 0)) then Some (Leg_price_required (bl_order_type l))
      else if bl_order_type l \<in> {''SL'', ''SL-M''} \<and> (case bl_trigger_price l of None \<Rightarrow> True | Some p \<Rightarrow> f_le p (Fin 0)) then Some (Leg_trigger_required (bl_order_type l))
      else None)"

fun first_leg_problem :: "nat \<Rightarrow> basket_leg list \<Rightarrow> basket_error option" where
  "first_leg_problem i [] = None"
| "first_leg_problem i (l # ls) = (case leg_problem l of None \<Rightarrow> first_leg_problem (i + 1) ls | Some p \<Rightarrow> Some (Basket_invalid i p))"

definition validate_legs :: "basket_leg list \<Rightarrow> basket_error option" where
  "validate_legs ls = (if ls = [] then Some Basket_empty else first_leg_problem 0 ls)"

text \<open>\<open>str(price or 0)\<close>.\<close>

definition price_text :: "fnum option \<Rightarrow> string" where
  "price_text p = (case p of None \<Rightarrow> ''0'' | Some x \<Rightarrow> if x = Fin 0 then ''0'' else float_repr x)"

definition leg_to_order :: "basket_leg \<Rightarrow> string \<Rightarrow> bracket_fault + leg_order" where
  "leg_to_order l strategy =
     make_order (bl_symbol l) (if py_upper (bl_action l) \<in> {''BUY'', ''SELL''} then py_upper (bl_action l) else bl_action l) (exchange_of (bl_exchange l))
       (price_type_of (bl_order_type l)) (product_of (bl_product l)) (show_int (bl_quantity l)) (price_text (bl_price l)) (price_text (bl_trigger_price l)) strategy"

definition rollback_order :: "basket_leg \<Rightarrow> string \<Rightarrow> bracket_fault + leg_order" where
  "rollback_order l strategy =
     make_order (bl_symbol l) (if bl_action l = ''BUY'' then ''SELL'' else ''BUY'') (exchange_of (bl_exchange l)) ''MARKET''
       (if bl_product l \<in> set PRODUCTS then bl_product l else ''MIS'') (show_int (bl_quantity l)) ''0'' ''0'' strategy"

definition leg_report :: "nat \<Rightarrow> basket_leg \<Rightarrow> string + string \<Rightarrow> leg_result" where
  "leg_report i l answer =
     \<lparr>lr_leg_index = i, lr_symbol = bl_symbol l, lr_action = bl_action l, lr_quantity = bl_quantity l,
      lr_success = (case answer of Inl _ \<Rightarrow> False | Inr _ \<Rightarrow> True), lr_order_id = (case answer of Inl _ \<Rightarrow> [] | Inr x \<Rightarrow> x),
      lr_error = (case answer of Inl e \<Rightarrow> e | Inr _ \<Rightarrow> []), lr_rolled_back = False, lr_rollback_order_id = []\<rparr>"

text \<open>The legs that were placed, the reports, and the leg that failed with its error.\<close>

type_synonym leg_progress = "(nat \<times> basket_leg) list \<times> leg_result list \<times> (nat \<times> string) option"

fun place_legs :: "('w \<Rightarrow> leg_order \<Rightarrow> bracket_principal \<Rightarrow> 'w \<times> (string + string)) \<Rightarrow> bracket_principal \<Rightarrow> string \<Rightarrow> (nat \<times> basket_leg) list \<Rightarrow> 'w
    \<Rightarrow> ('w, bracket_fault, leg_progress) outcome" where
  "place_legs place pr strategy [] w = (w, Inr ([], [], None))"
| "place_legs place pr strategy ((i, l) # ls) w =
     (case leg_to_order l strategy of
        Inl e \<Rightarrow> (w, Inl e)
      | Inr ord \<Rightarrow>
          (case place w ord pr of
             (w, Inl e) \<Rightarrow> (w, Inr ([], [leg_report i l (Inl e)], Some (i, e)))
           | (w, Inr oid) \<Rightarrow>
               bind_out (place_legs place pr strategy ls w) (\<lambda>w (placed, reports, failed).
                 (w, Inr ((i, l) # placed, leg_report i l (Inr oid) # reports, failed)))))"

definition note_rollback :: "nat \<Rightarrow> string + string \<Rightarrow> leg_result list \<Rightarrow> leg_result list" where
  "note_rollback i answer = map (\<lambda>r. if lr_leg_index r = i
     then r\<lparr>lr_rolled_back := True, lr_rollback_order_id := (case answer of Inl _ \<Rightarrow> lr_rollback_order_id r | Inr x \<Rightarrow> x)\<rparr> else r)"

fun rollback :: "('w \<Rightarrow> leg_order \<Rightarrow> bracket_principal \<Rightarrow> 'w \<times> (string + string)) \<Rightarrow> bracket_principal \<Rightarrow> string \<Rightarrow> (nat \<times> basket_leg) list \<Rightarrow> leg_result list \<Rightarrow> 'w
    \<Rightarrow> ('w, bracket_fault, leg_result list) outcome" where
  "rollback place pr strategy [] reports w = (w, Inr reports)"
| "rollback place pr strategy ((i, l) # ls) reports w =
     (case rollback_order l strategy of
        Inl e \<Rightarrow> (w, Inl e)
      | Inr ord \<Rightarrow> (case place w ord pr of (w, answer) \<Rightarrow> rollback place pr strategy ls (note_rollback i answer reports) w))"

definition execution_order :: "basket_leg list \<Rightarrow> (nat \<times> basket_leg) list" where
  "execution_order ls = (let indexed = enumerate 0 ls
     in filter (\<lambda>t. bl_action (snd t) = ''BUY'') indexed @ filter (\<lambda>t. bl_action (snd t) = ''SELL'') indexed)"

definition execute_basket :: "('w \<Rightarrow> leg_order \<Rightarrow> bracket_principal \<Rightarrow> 'w \<times> (string + string)) \<Rightarrow> string \<Rightarrow> basket_leg list \<Rightarrow> bracket_principal \<Rightarrow> string \<Rightarrow> 'w
    \<Rightarrow> ('w, bracket_fault, basket_result) outcome" where
  "execute_basket place now ls pr strategy w =
     (case validate_legs ls of
        Some e \<Rightarrow> (w, Inr \<lparr>br_success = False, br_legs = [], br_failed_leg_index = - 1, br_error = e, br_timestamp = now, br_strategy = strategy, br_rolled_back = False\<rparr>)
      | None \<Rightarrow>
          bind_out (place_legs place pr strategy (execution_order ls) w) (\<lambda>w (placed, reports, failed).
            (case failed of
               None \<Rightarrow> (w, Inr \<lparr>br_success = True, br_legs = sort_key lr_leg_index reports, br_failed_leg_index = - 1, br_error = No_basket_error,
                                br_timestamp = now, br_strategy = strategy, br_rolled_back = False\<rparr>)
             | Some (i, e) \<Rightarrow>
                 bind_out (rollback place pr strategy (List.rev placed) reports w) (\<lambda>w reports.
                   (w, Inr \<lparr>br_success = False, br_legs = sort_key lr_leg_index reports, br_failed_leg_index = int i, br_error = Leg_refused e,
                            br_timestamp = now, br_strategy = strategy, br_rolled_back = (placed \<noteq> [])\<rparr>)))))"

subsection \<open>What a basket sends\<close>

definition accepted_as :: "bracket_principal \<Rightarrow> string \<Rightarrow> leg_event \<Rightarrow> nat \<times> basket_leg \<Rightarrow> bool" where
  "accepted_as pr strategy e t \<longleftrightarrow> (\<exists>ord oid. leg_to_order (snd t) strategy = Inr ord \<and> e = Leg_placed ord pr (Inr oid))"

definition refused_as :: "bracket_principal \<Rightarrow> string \<Rightarrow> leg_event \<Rightarrow> nat \<times> basket_leg \<Rightarrow> bool" where
  "refused_as pr strategy e t \<longleftrightarrow> (\<exists>ord why. leg_to_order (snd t) strategy = Inr ord \<and> e = Leg_placed ord pr (Inl why))"

text \<open>The order that undoes a filled leg: opposite side, same contract and quantity, at market.\<close>

definition undoes :: "leg_order \<Rightarrow> leg_order \<Rightarrow> bool" where
  "undoes x e \<longleftrightarrow> od_action x = opposite (od_action e) \<and> od_symbol x = od_symbol e \<and> od_exchange x = od_exchange e
     \<and> od_quantity x = od_quantity e \<and> od_pricetype x = ''MARKET''"

definition undone_as :: "bracket_principal \<Rightarrow> string \<Rightarrow> leg_event \<Rightarrow> nat \<times> basket_leg \<Rightarrow> bool" where
  "undone_as pr strategy e t \<longleftrightarrow> (\<exists>ord x answer. leg_to_order (snd t) strategy = Inr ord \<and> undoes x ord
     \<and> (bl_product (snd t) \<noteq> ''MTF'' \<longrightarrow> od_product x = od_product ord) \<and> e = Leg_placed x pr answer)"

text \<open>The calls of a basket that failed: the accepted legs, the refused one, and the accepted ones undone in the opposite order.\<close>

definition unwound :: "bracket_principal \<Rightarrow> string \<Rightarrow> basket_leg list \<Rightarrow> leg_event list \<Rightarrow> bool" where
  "unwound pr strategy ls new \<longleftrightarrow>
     (\<exists>placed t rest sent x backs. execution_order ls = placed @ t # rest \<and> new = sent @ x # backs
        \<and> list_all2 (accepted_as pr strategy) sent placed \<and> refused_as pr strategy x t \<and> list_all2 (undone_as pr strategy) backs (List.rev placed))"

lemma rollback_order_undoes:
  assumes "leg_to_order l strategy = Inr ord" and "bl_action l \<in> {''BUY'', ''SELL''}"
  obtains x where "rollback_order l strategy = Inr x" and "undoes x ord" and "bl_product l \<noteq> ''MTF'' \<Longrightarrow> od_product x = od_product ord"
proof -
  note o = make_order_Inr [OF assms(1) [unfolded leg_to_order_def]]
  have up: "py_upper ''BUY'' = ''BUY''" "py_upper ''SELL'' = ''SELL''" by code_simp+
  have mis: "''MIS'' \<in> set PRODUCTS" "''MARKET'' \<in> set PRICE_TYPES" by (simp_all add: PRODUCTS_def PRICE_TYPES_def)
  have "\<exists>x. rollback_order l strategy = Inr x" using o mis by (auto simp: rollback_order_def make_order_def)
  then obtain x where x: "rollback_order l strategy = Inr x" by blast
  note r = make_order_Inr [OF x [unfolded rollback_order_def]]
  have "undoes x ord" using o r assms(2) by (auto simp: undoes_def opposite_def up)
  moreover have "od_product x = od_product ord" if "bl_product l \<noteq> ''MTF''" using o r that by (auto simp: product_of_def PRODUCTS_def)
  ultimately show thesis using x by (intro that)
qed

lemma place_legs_log:
  assumes "place_legs (log_place f) pr strategy ts (w, ev) = ((w', ev'), Inr (placed, reports, failed))"
  shows "\<exists>new. ev' = ev @ new \<and>
     (case failed of
        None \<Rightarrow> placed = ts \<and> list_all2 (accepted_as pr strategy) new ts
      | Some (i, e) \<Rightarrow> \<exists>sent x t rest. new = sent @ [x] \<and> ts = placed @ t # rest \<and> list_all2 (accepted_as pr strategy) sent placed \<and> refused_as pr strategy x t)"
  using assms
proof (induction ts arbitrary: w ev w' ev' placed reports)
  case (Cons t ts)
  obtain i l where t: "t = (i, l)" by (cases t)
  from Cons.prems obtain ord where ord: "leg_to_order l strategy = Inr ord" by (cases "leg_to_order l strategy") (auto simp: t)
  obtain w1 r where f: "f w ord pr = (w1, r)" by (cases "f w ord pr")
  have step: "log_place f (w, ev) ord pr = ((w1, ev @ [Leg_placed ord pr r]), r)" by (simp add: log_place_def f)
  show ?case
  proof (cases r)
    case (Inl e)
    then show ?thesis using Cons.prems by (auto simp: t ord step refused_as_def)
  next
    case (Inr oid)
    from Cons.prems obtain ps rs where rest: "place_legs (log_place f) pr strategy ts (w1, ev @ [Leg_placed ord pr r]) = ((w', ev'), Inr (ps, rs, failed))"
      and placed: "placed = t # ps"
      by (auto simp: t ord step Inr bind_out_def split: prod.splits sum.splits)
    have acc: "accepted_as pr strategy (Leg_placed ord pr r) t" by (simp add: accepted_as_def t ord Inr)
    from Cons.IH [OF rest] obtain new where new: "ev' = (ev @ [Leg_placed ord pr r]) @ new"
      and ends: "case failed of None \<Rightarrow> ps = ts \<and> list_all2 (accepted_as pr strategy) new ts
        | Some (i, e) \<Rightarrow> \<exists>sent x t rest. new = sent @ [x] \<and> ts = ps @ t # rest \<and> list_all2 (accepted_as pr strategy) sent ps \<and> refused_as pr strategy x t" by blast
    show ?thesis
    proof (cases failed)
      case None
      then show ?thesis using new ends acc by (auto simp: placed)
    next
      case (Some ie)
      obtain j e where "failed = Some (j, e)" using Some by (cases ie) auto
      with ends obtain sent x u more where more: "new = sent @ [x]" "ts = ps @ u # more" "list_all2 (accepted_as pr strategy) sent ps" "refused_as pr strategy x u" by auto
      have "Leg_placed ord pr r # new = (Leg_placed ord pr r # sent) @ [x]" "t # ts = placed @ u # more"
        "list_all2 (accepted_as pr strategy) (Leg_placed ord pr r # sent) placed" using more acc by (simp_all add: placed)
      then show ?thesis using new more(4) \<open>failed = Some (j, e)\<close> by (intro exI [of _ "Leg_placed ord pr r # new"]) auto
    qed
  qed
qed simp

lemma rollback_log:
  assumes "\<And>t. t \<in> set ts \<Longrightarrow> bl_action (snd t) \<in> {''BUY'', ''SELL''} \<and> (\<exists>ord. leg_to_order (snd t) strategy = Inr ord)"
  shows "\<exists>w' new reports'. rollback (log_place f) pr strategy ts reports (w, ev) = ((w', ev @ new), Inr reports') \<and> list_all2 (undone_as pr strategy) new ts"
  using assms
proof (induction ts arbitrary: w ev reports)
  case (Cons t ts)
  obtain i l where t: "t = (i, l)" by (cases t)
  obtain ord where ord: "leg_to_order l strategy = Inr ord" "bl_action l \<in> {''BUY'', ''SELL''}" using Cons.prems [of t] by (auto simp: t)
  obtain x where x: "rollback_order l strategy = Inr x" "undoes x ord" "bl_product l \<noteq> ''MTF'' \<Longrightarrow> od_product x = od_product ord"
    using rollback_order_undoes [OF ord] by blast
  obtain w1 r where f: "f w x pr = (w1, r)" by (cases "f w x pr")
  have step: "log_place f (w, ev) x pr = ((w1, ev @ [Leg_placed x pr r]), r)" by (simp add: log_place_def f)
  obtain w' new reports' where rest: "rollback (log_place f) pr strategy ts (note_rollback i r reports) (w1, ev @ [Leg_placed x pr r]) = ((w', (ev @ [Leg_placed x pr r]) @ new), Inr reports')"
      "list_all2 (undone_as pr strategy) new ts"
    using Cons.IH [of "note_rollback i r reports" w1 "ev @ [Leg_placed x pr r]"] Cons.prems by auto
  have "undone_as pr strategy (Leg_placed x pr r) t" using x ord(1) by (auto simp: undone_as_def t)
  then show ?case using rest by (intro exI [of _ w'] exI [of _ "Leg_placed x pr r # new"] exI [of _ reports']) (simp add: t x(1) step)
qed simp

lemma first_leg_problem_None: "first_leg_problem i ls = None \<longleftrightarrow> list_all (\<lambda>l. leg_problem l = None) ls"
  by (induction ls arbitrary: i) (auto split: option.splits)

lemma leg_actions: "validate_legs ls = None \<Longrightarrow> l \<in> set ls \<Longrightarrow> bl_action l \<in> {''BUY'', ''SELL''}"
  by (auto simp: validate_legs_def first_leg_problem_None list_all_iff leg_problem_def split: if_splits)

lemma enumerate_snd: "t \<in> set (enumerate n ls) \<Longrightarrow> snd t \<in> set ls"
  by (metis map_snd_enumerate image_eqI list.set_map)

lemma execution_order_set: "t \<in> set (execution_order ls) \<Longrightarrow> snd t \<in> set ls"
  by (auto simp: execution_order_def Let_def intro: enumerate_snd)

lemma mset_execution_order:
  assumes "validate_legs ls = None"
  shows "mset (map snd (execution_order ls)) = mset ls"
proof -
  have sell: "bl_action (snd t) = ''SELL'' \<longleftrightarrow> \<not> bl_action (snd t) = ''BUY''" if "t \<in> set (enumerate 0 ls)" for t
    using leg_actions [OF assms enumerate_snd [OF that]] by auto
  then have "filter (\<lambda>t. bl_action (snd t) = ''SELL'') (enumerate 0 ls) = filter (\<lambda>t. \<not> bl_action (snd t) = ''BUY'') (enumerate 0 ls)"
    by (intro filter_cong) auto
  then have "mset (execution_order ls) = mset (enumerate 0 ls)"
    unfolding execution_order_def Let_def using multiset_partition [of "mset (enumerate 0 ls)" "\<lambda>t. bl_action (snd t) = ''BUY''"] by (simp add: mset_filter)
  then have "image_mset snd (mset (execution_order ls)) = image_mset snd (mset (enumerate 0 ls))" by simp
  then show ?thesis by (simp only: flip: mset_map) (simp only: map_snd_enumerate)
qed


lemma known_make_order:
  assumes "known_exchange e" and "a \<in> {''BUY'', ''SELL''}"
  shows "\<exists>ord. make_order s a (exchange_of e) (price_type_of k) (product_of p) n x y z = Inr ord"
  using assms by (auto simp: make_order_def known_exchange_def exchange_of_def price_type_of_def product_of_def PRICE_TYPES_def PRODUCTS_def)

lemma py_upper_actions: "a \<in> {''BUY'', ''SELL''} \<Longrightarrow> py_upper a = a"
proof -
  have "py_upper ''BUY'' = ''BUY''" "py_upper ''SELL'' = ''SELL''" by code_simp+
  then show "a \<in> {''BUY'', ''SELL''} \<Longrightarrow> py_upper a = a" by auto
qed

lemma place_chunks_returns:
  assumes "known_exchange (sq_exchange q)" and "sq_action q \<in> {''BUY'', ''SELL''}"
  shows "\<exists>w' cs. place_chunks place q pr idx ns w = (w', Inr cs)"
proof (induction ns arbitrary: idx w)
  case (Cons n ns)
  obtain ord where ord: "build_chunk_order q n = Inr ord" using known_make_order [OF assms] unfolding build_chunk_order_def py_upper_actions [OF assms(2)] by blast
  obtain w1 r where r: "place w ord pr = (w1, r)" by (cases "place w ord pr")
  show ?case using Cons.IH [of "idx + 1" w1] by (cases r) (auto simp: ord r)
qed simp

lemma leg_to_order_builds:
  "known_exchange (bl_exchange l) \<Longrightarrow> bl_action l \<in> {''BUY'', ''SELL''} \<Longrightarrow> \<exists>ord. leg_to_order l strategy = Inr ord"
  by (simp add: leg_to_order_def py_upper_actions known_make_order)

lemma place_legs_returns:
  assumes "\<And>t. t \<in> set ts \<Longrightarrow> known_exchange (bl_exchange (snd t)) \<and> bl_action (snd t) \<in> {''BUY'', ''SELL''}"
  shows "\<exists>w' placed reports failed. place_legs place pr strategy ts w = (w', Inr (placed, reports, failed)) \<and> set placed \<subseteq> set ts"
  using assms
proof (induction ts arbitrary: w)
  case (Cons t ts)
  obtain i l where t: "t = (i, l)" by (cases t)
  obtain ord where ord: "leg_to_order l strategy = Inr ord" using leg_to_order_builds Cons.prems [of t] by (auto simp: t)
  obtain w1 r where r: "place w ord pr = (w1, r)" by (cases "place w ord pr")
  obtain w' placed reports failed where rest: "place_legs place pr strategy ts w1 = (w', Inr (placed, reports, failed))" "set placed \<subseteq> set ts"
    using Cons.IH [of w1] Cons.prems by auto
  show ?case using rest by (cases r) (auto simp: t ord r)
qed simp

lemma rollback_returns:
  assumes "\<And>t. t \<in> set ts \<Longrightarrow> known_exchange (bl_exchange (snd t)) \<and> bl_action (snd t) \<in> {''BUY'', ''SELL''}"
  shows "\<exists>w' rs. rollback place pr strategy ts reports w = (w', Inr rs)"
  using assms
proof (induction ts arbitrary: w reports)
  case (Cons t ts)
  obtain i l where t: "t = (i, l)" by (cases t)
  obtain ord where "leg_to_order l strategy = Inr ord" "bl_action l \<in> {''BUY'', ''SELL''}" using leg_to_order_builds Cons.prems [of t] by (auto simp: t)
  then obtain x where x: "rollback_order l strategy = Inr x" by (rule rollback_order_undoes)
  obtain w1 r where r: "place w x pr = (w1, r)" by (cases "place w x pr")
  show ?case using Cons.IH Cons.prems by (auto simp: t x r)
qed simp


subsection \<open>Concrete orders\<close>

definition sample_split :: split_request where
  "sample_split = \<lparr>sq_symbol = ''NIFTYFUT'', sq_exchange = ''nfo'', sq_total_quantity = 160, sq_chunk_size = 75, sq_action = ''BUY'', sq_order_type = ''MARKET'',
     sq_price = Fin 0, sq_trigger_price = Fin 0, sq_product = ''MIS'', sq_strategy = ''split''\<rparr>"

definition sample_split_run :: "(nat \<times> leg_event list, bracket_fault, split_result) outcome" where
  "sample_split_run = execute_split (log_place counting_place) ''t'' sample_split sample_owner (0, [])"


definition sample_basket_leg :: "string \<Rightarrow> string \<Rightarrow> string \<Rightarrow> basket_leg" where
  "sample_basket_leg symbol exchange action =
     \<lparr>bl_symbol = symbol, bl_exchange = exchange, bl_action = action, bl_quantity = 25, bl_order_type = ''MARKET'', bl_price = None, bl_trigger_price = None, bl_product = ''NRML''\<rparr>"

definition sample_basket :: "basket_leg list" where
  "sample_basket = [sample_basket_leg ''A'' ''NFO'' ''SELL'', sample_basket_leg ''B'' ''NFO'' ''BUY'', sample_basket_leg ''C'' ''NFO'' ''SELL'']"

definition sample_basket_run :: "(nat \<times> leg_event list, bracket_fault, basket_result) outcome" where
  "sample_basket_run = execute_basket (log_place counting_place) ''t'' sample_basket sample_owner ''basket'' (0, [])"



text \<open>
  With an unknown exchange on a later leg the basket raises after the earlier leg was accepted: nothing
  is reported and nothing is unwound.
\<close>

lemma unknown_exchange_strands_a_leg:
  "execute_basket (log_place counting_place) ''t'' [sample_basket_leg ''B'' ''NFO'' ''BUY'', sample_basket_leg ''A'' ''XYZ'' ''SELL''] sample_owner ''basket'' (0, [])
   = ((1, [Leg_placed (projr (leg_to_order (sample_basket_leg ''B'' ''NFO'' ''BUY'') ''basket'')) sample_owner (Inr ''N0'')]), Inl (Not_a_member ''Exchange'' ''XYZ''))"
  by code_simp

text \<open>A leg with the product \<open>MTF\<close> is placed as \<open>MIS\<close> and unwound as \<open>MTF\<close>.\<close>

lemma mtf_leg_is_unwound_in_another_product:
  "od_product (projr (leg_to_order ((sample_basket_leg ''B'' ''NSE'' ''BUY'')\<lparr>bl_product := ''MTF''\<rparr>) ''basket'')) = ''MIS''
   \<and> od_product (projr (rollback_order ((sample_basket_leg ''B'' ''NSE'' ''BUY'')\<lparr>bl_product := ''MTF''\<rparr>) ''basket'')) = ''MTF''"
  by code_simp

end
