(* ===== verification/Option_Baskets.thy ===== *)
theory Option_Baskets
  imports Multi_Leg_Orders
begin

text \<open>
  The factories of option strategies (\<open>engine/options_multi_order.py\<close>), which build baskets, and what
  the execution order of a basket means for them: the option that limits the loss of a written one is
  bought before it is sold.
\<close>

subsection \<open>Symbols and legs\<close>

datatype strategy_error = Strike_error float_error | Strikes_out_of_order string fnum fnum

definition fmt_strike :: "fnum \<Rightarrow> strategy_error + string" where
  "fmt_strike strike =
     (case f_trunc strike of
        None \<Rightarrow> Inl (Strike_error (if strike = NotANum then FloatValueError else FloatOverflowError))
      | Some i \<Rightarrow> Inr (if strike = Fin (of_int i) then show_int i else float_repr strike))"

definition option_symbol :: "string \<Rightarrow> string \<Rightarrow> fnum \<Rightarrow> string \<Rightarrow> strategy_error + string" where
  "option_symbol underlying expiry strike kind =
     bind_res (fmt_strike strike) (\<lambda>s. Inr (py_upper underlying @ py_upper expiry @ s @ py_upper kind))"

record strategy_terms =
  st_underlying :: string
  st_expiry :: string
  st_lots :: int
  st_lot_size :: int
  st_exchange :: string
  st_product :: string

definition option_leg :: "strategy_terms \<Rightarrow> string \<Rightarrow> fnum \<Rightarrow> string \<Rightarrow> strategy_error + basket_leg" where
  "option_leg t action strike kind =
     bind_res (option_symbol (st_underlying t) (st_expiry t) strike kind) (\<lambda>symbol.
       Inr \<lparr>bl_symbol = symbol, bl_exchange = st_exchange t, bl_action = action, bl_quantity = st_lots t * st_lot_size t, bl_order_type = ''MARKET'',
            bl_price = None, bl_trigger_price = None, bl_product = st_product t\<rparr>)"

fun option_legs :: "strategy_terms \<Rightarrow> (string \<times> fnum \<times> string) list \<Rightarrow> strategy_error + basket_leg list" where
  "option_legs t [] = Inr []"
| "option_legs t ((action, strike, kind) # xs) = bind_res (option_leg t action strike kind) (\<lambda>l. bind_res (option_legs t xs) (\<lambda>ls. Inr (l # ls)))"

subsection \<open>Strategies\<close>

definition short_straddle :: "strategy_terms \<Rightarrow> fnum \<Rightarrow> strategy_error + basket_leg list" where
  "short_straddle t strike = option_legs t [(''SELL'', strike, ''CE''), (''SELL'', strike, ''PE'')]"

definition long_strangle :: "strategy_terms \<Rightarrow> fnum \<Rightarrow> fnum \<Rightarrow> strategy_error + basket_leg list" where
  "long_strangle t call_strike put_strike = option_legs t [(''BUY'', call_strike, ''CE''), (''BUY'', put_strike, ''PE'')]"

definition iron_condor :: "strategy_terms \<Rightarrow> fnum \<Rightarrow> fnum \<Rightarrow> fnum \<Rightarrow> fnum \<Rightarrow> strategy_error + basket_leg list" where
  "iron_condor t put_short put_long call_short call_long =
     option_legs t [(''BUY'', put_long, ''PE''), (''BUY'', call_long, ''CE''), (''SELL'', put_short, ''PE''), (''SELL'', call_short, ''CE'')]"

definition iron_butterfly :: "strategy_terms \<Rightarrow> fnum \<Rightarrow> fnum \<Rightarrow> strategy_error + basket_leg list" where
  "iron_butterfly t atm wing =
     option_legs t [(''BUY'', f_sub atm wing, ''PE''), (''BUY'', f_add atm wing, ''CE''), (''SELL'', atm, ''CE''), (''SELL'', atm, ''PE'')]"

definition bull_call_spread :: "strategy_terms \<Rightarrow> fnum \<Rightarrow> fnum \<Rightarrow> strategy_error + basket_leg list" where
  "bull_call_spread t long_strike short_strike =
     (if f_le short_strike long_strike then Inl (Strikes_out_of_order ''bull_call_spread'' long_strike short_strike)
      else option_legs t [(''BUY'', long_strike, ''CE''), (''SELL'', short_strike, ''CE'')])"

definition bear_put_spread :: "strategy_terms \<Rightarrow> fnum \<Rightarrow> fnum \<Rightarrow> strategy_error + basket_leg list" where
  "bear_put_spread t long_strike short_strike =
     (if f_le long_strike short_strike then Inl (Strikes_out_of_order ''bear_put_spread'' long_strike short_strike)
      else option_legs t [(''BUY'', long_strike, ''PE''), (''SELL'', short_strike, ''PE'')])"

subsection \<open>Written options stay covered\<close>

text \<open>The kind of an option is the end of its symbol.\<close>

definition of_kind :: "string \<Rightarrow> basket_leg \<Rightarrow> bool" where
  "of_kind kind l \<longleftrightarrow> (\<exists>s. bl_symbol l = s @ kind)"

definition bought :: "string \<Rightarrow> basket_leg \<Rightarrow> int" where
  "bought kind l = (if of_kind kind l then (if bl_action l = ''BUY'' then bl_quantity l else - bl_quantity l) else 0)"

definition net_bought :: "string \<Rightarrow> basket_leg list \<Rightarrow> int" where
  "net_bought kind ls = sum_list (map (bought kind) ls)"

lemma option_leg_facts:
  assumes "option_leg t action strike kind = Inr l" and "kind \<in> {''CE'', ''PE''}" and "k \<in> {''CE'', ''PE''}"
  shows "bl_action l = action" and "bl_quantity l = st_lots t * st_lot_size t" and "of_kind k l \<longleftrightarrow> k = kind"
proof -
  have up: "py_upper ''CE'' = ''CE''" "py_upper ''PE'' = ''PE''" by code_simp+
  from assms(1) show "bl_action l = action" "bl_quantity l = st_lots t * st_lot_size t" by (auto simp: option_leg_def)
  from assms obtain s where "bl_symbol l = s @ kind" by (auto simp: option_leg_def option_symbol_def up)
  then show "of_kind k l \<longleftrightarrow> k = kind" using assms(2,3) by (auto simp: of_kind_def)
qed

definition covered_shape :: "(string \<times> fnum \<times> string) list \<Rightarrow> bool" where
  "covered_shape xs \<longleftrightarrow> (\<exists>a b c d k k'. xs = [(''BUY'', a, ''PE''), (''BUY'', b, ''CE''), (''SELL'', c, k), (''SELL'', d, k')] \<and> (k, k') \<in> {(''PE'', ''CE''), (''CE'', ''PE'')})
     \<or> (\<exists>a b k. xs = [(''BUY'', a, k), (''SELL'', b, k)] \<and> k \<in> {''CE'', ''PE''})"

lemma execution_order_buys_first:
  assumes "\<And>l. l \<in> set buys \<Longrightarrow> bl_action l = ''BUY''" and "\<And>l. l \<in> set sells \<Longrightarrow> bl_action l = ''SELL''"
  shows "map snd (execution_order (buys @ sells)) = buys @ sells"
proof -
  have split: "enumerate 0 (buys @ sells) = enumerate 0 buys @ enumerate (length buys) sells" by (simp add: enumerate_append_eq)
  have b: "bl_action (snd t) = ''BUY''" if "t \<in> set (enumerate 0 buys)" for t using assms(1) enumerate_snd [OF that] by simp
  have s: "bl_action (snd t) = ''SELL''" if "t \<in> set (enumerate (length buys) sells)" for t using assms(2) enumerate_snd [OF that] by simp
  have "execution_order (buys @ sells) = enumerate 0 (buys @ sells)"
    unfolding execution_order_def Let_def split using b s by (auto simp: filter_id_conv filter_empty_conv)
  then show ?thesis by (simp only: map_snd_enumerate)
qed

definition always_covered :: "basket_leg list \<Rightarrow> bool" where
  "always_covered ls \<longleftrightarrow> (\<forall>n. \<forall>k \<in> {''CE'', ''PE''}. 0 \<le> net_bought k (take n (map snd (execution_order ls))))"

lemma sum_take4: "0 \<le> a \<Longrightarrow> 0 \<le> a + b \<Longrightarrow> 0 \<le> a + b + c \<Longrightarrow> 0 \<le> a + b + c + d \<Longrightarrow> 0 \<le> sum_list (take n [a, b, c, d :: int])"
  by (auto simp: take_Cons split: nat.splits)

lemma option_leg_bought:
  assumes "option_leg t action strike kind = Inr l" and "kind \<in> {''CE'', ''PE''}" and "k \<in> {''CE'', ''PE''}"
  shows "bought k l = (if k = kind then (if action = ''BUY'' then 1 else - 1) * (st_lots t * st_lot_size t) else 0)"
  using option_leg_facts [OF assms] by (simp add: bought_def)

lemma covered_shape_is_covered:
  assumes "option_legs t xs = Inr ls" and "covered_shape xs" and "0 \<le> st_lots t * st_lot_size t"
  shows "always_covered ls"
proof -
  from assms(2) consider
      (four) a b c d k k' where "xs = [(''BUY'', a, ''PE''), (''BUY'', b, ''CE''), (''SELL'', c, k), (''SELL'', d, k')]" "(k, k') \<in> {(''PE'', ''CE''), (''CE'', ''PE'')}"
    | (two) a b k where "xs = [(''BUY'', a, k), (''SELL'', b, k)]" "k \<in> {''CE'', ''PE''}"
    unfolding covered_shape_def by blast
  then show ?thesis
  proof cases
    case four
    from assms(1) four(1) obtain l1 l2 l3 l4 where ls: "ls = [l1, l2] @ [l3, l4]" "option_leg t ''BUY'' a ''PE'' = Inr l1" "option_leg t ''BUY'' b ''CE'' = Inr l2"
      "option_leg t ''SELL'' c k = Inr l3" "option_leg t ''SELL'' d k' = Inr l4" by auto
    have kinds: "k \<in> {''CE'', ''PE''}" "k' \<in> {''CE'', ''PE''}" using four(2) by auto
    have order: "map snd (execution_order ls) = [l1, l2, l3, l4]"
      unfolding ls(1) using execution_order_buys_first [of "[l1, l2]" "[l3, l4]"] option_leg_facts(1) [OF ls(2)] option_leg_facts(1) [OF ls(3)]
        option_leg_facts(1) [OF ls(4) kinds(1)] option_leg_facts(1) [OF ls(5) kinds(2)] by auto
    show ?thesis
      unfolding always_covered_def order net_bought_def take_map [symmetric]
    proof (intro allI ballI)
      fix n x
      assume x: "x \<in> {''CE'', ''PE''}"
      have "bought x l1 = (if x = ''PE'' then st_lots t * st_lot_size t else 0)" "bought x l2 = (if x = ''CE'' then st_lots t * st_lot_size t else 0)"
        "bought x l3 = (if x = k then - (st_lots t * st_lot_size t) else 0)" "bought x l4 = (if x = k' then - (st_lots t * st_lot_size t) else 0)"
        using option_leg_bought [OF ls(2) _ x] option_leg_bought [OF ls(3) _ x] option_leg_bought [OF ls(4) kinds(1) x] option_leg_bought [OF ls(5) kinds(2) x] by simp_all
      then show "0 \<le> sum_list (take n (map (bought x) [l1, l2, l3, l4]))"
        using x four(2) assms(3) by (simp only: list.map) (rule sum_take4; auto)
    qed
  next
    case two
    from assms(1) two(1) obtain l1 l2 where ls: "ls = [l1] @ [l2]" "option_leg t ''BUY'' a k = Inr l1" "option_leg t ''SELL'' b k = Inr l2" by auto
    have order: "map snd (execution_order ls) = [l1, l2]"
      unfolding ls(1) using execution_order_buys_first [of "[l1]" "[l2]"] option_leg_facts(1) [OF ls(2) two(2)] option_leg_facts(1) [OF ls(3) two(2)] by auto
    show ?thesis
      unfolding always_covered_def order net_bought_def take_map [symmetric]
    proof (intro allI ballI)
      fix n x
      assume x: "x \<in> {''CE'', ''PE''}"
      have "bought x l2 = - bought x l1" "0 \<le> bought x l1"
        using option_leg_bought [OF ls(2) two(2) x] option_leg_bought [OF ls(3) two(2) x] assms(3) by simp_all
      then show "0 \<le> sum_list (take n (map (bought x) [l1, l2]))" by (auto simp: take_Cons split: nat.splits)
    qed
  qed
qed

text \<open>
  C19. Iron condors, iron butterflies and the two spreads never write an option before buying the one that
  limits its loss: after any number of accepted legs of the basket, in the order they are sent, at least
  as many calls have been bought as sold, and as many puts.
\<close>

theorem strategies_stay_covered:
  assumes "Inr ls \<in> {iron_condor t ps pl cs cl, iron_butterfly t atm wing, bull_call_spread t la sa, bear_put_spread t lb sb}"
    and "0 \<le> st_lots t * st_lot_size t"
  shows "always_covered ls"
proof -
  have shapes: "covered_shape [(''BUY'', a, ''PE''), (''BUY'', b, ''CE''), (''SELL'', c, ''PE''), (''SELL'', d, ''CE'')]"
    "covered_shape [(''BUY'', a, ''PE''), (''BUY'', b, ''CE''), (''SELL'', c, ''CE''), (''SELL'', d, ''PE'')]"
    "covered_shape [(''BUY'', a, ''CE''), (''SELL'', b, ''CE'')]" "covered_shape [(''BUY'', a, ''PE''), (''SELL'', b, ''PE'')]" for a b c d
    by (simp_all add: covered_shape_def)
  from assms(1) obtain xs where "option_legs t xs = Inr ls" "covered_shape xs"
    unfolding iron_condor_def iron_butterfly_def bull_call_spread_def bear_put_spread_def
    using shapes by (auto split: if_splits simp del: option_legs.simps)
  then show ?thesis using assms(2) by (rule covered_shape_is_covered)
qed

definition sample_strategy :: strategy_terms where
  "sample_strategy = \<lparr>st_underlying = ''nifty'', st_expiry = ''25may25'', st_lots = 2, st_lot_size = 75, st_exchange = ''NFO'', st_product = ''NRML''\<rparr>"

definition sample_condor :: "basket_leg list" where
  "sample_condor = projr (iron_condor sample_strategy (Fin 25000) (Fin 24800) (Fin 26000) (Fin 26200))"

theorem strategies_stay_covered_witness: "always_covered sample_condor \<and> map bl_quantity sample_condor = [150, 150, 150, 150]"
proof
  have "Inr sample_condor = iron_condor sample_strategy (Fin 25000) (Fin 24800) (Fin 26000) (Fin 26200)"
    unfolding sample_condor_def iron_condor_def by (simp add: option_leg_def option_symbol_def fmt_strike_def)
  moreover have "0 \<le> st_lots sample_strategy * st_lot_size sample_strategy" by code_simp
  ultimately show "always_covered sample_condor"
    by (intro strategies_stay_covered [where t = sample_strategy and ps = "Fin 25000" and pl = "Fin 24800" and cs = "Fin 26000" and cl = "Fin 26200"
      and atm = "Fin 0" and wing = "Fin 0" and la = "Fin 0" and sa = "Fin 0" and lb = "Fin 0" and sb = "Fin 0"]) (simp_all only: insertI1)
  show "map bl_quantity sample_condor = [150, 150, 150, 150]"
    unfolding sample_condor_def iron_condor_def by (simp add: option_leg_def option_symbol_def fmt_strike_def sample_strategy_def)
qed

end
