(* ===== verification/Portfolio_State.thy ===== *)
theory Portfolio_State
  imports Safety_Layers
begin

text \<open>
  The account state that a live order is judged against (\<open>core/l2_state.py\<close>): broker rows and
  their aliases, the positions a set of unresolved orders can lead to in the worst case, the open
  orders of the order book, and the reserved exposure that the broker's state does not show yet.

  A broker row is a mapping or an object; of both only the scalar fields are kept. A feed is what a
  reader of an adapter returns: nothing, a list of rows, a mapping that may hold a list of rows under
  a container key, or one object.
\<close>

subsection \<open>Rows and fields\<close>

datatype book_row = Dict row | Obj row

datatype feed = No_feed | Listing "book_row list" | Keyed "(string \<times> book_row list) list" row | Single row

datatype portfolio_error = PortfolioSafetyStateError string

type_synonym 'a portfolio = "portfolio_error + 'a"

abbreviation unsafe :: "string \<Rightarrow> 'a portfolio" where
  "unsafe why \<equiv> Inl (PortfolioSafetyStateError why)"

definition attr :: "row \<Rightarrow> string \<Rightarrow> pyval" where
  "attr r k = (case map_of r k of None \<Rightarrow> PNone | Some v \<Rightarrow> v)"

text \<open>The first key a mapping has; the first attribute of an object that is not \<open>None\<close>.\<close>

fun field :: "book_row \<Rightarrow> string list \<Rightarrow> pyval" where
  "field (Dict r) ks = (case find (\<lambda>k. map_of r k \<noteq> None) ks of None \<Rightarrow> PNone | Some k \<Rightarrow> attr r k)"
| "field (Obj r) ks = (case find (\<lambda>k. attr r k \<noteq> PNone) ks of None \<Rightarrow> PNone | Some k \<Rightarrow> attr r k)"

definition text_of :: "pyval \<Rightarrow> string" where
  "text_of v = (if truthy v then py_strip (py_str v) else [])"

definition blank :: "pyval \<Rightarrow> bool" where
  "blank v \<longleftrightarrow> v = PNone \<or> v = PStr []"

fun rows_of :: "feed \<Rightarrow> string list \<Rightarrow> book_row list" where
  "rows_of No_feed ks = []"
| "rows_of (Listing rs) ks = rs"
| "rows_of (Keyed m r) ks = (case find (\<lambda>k. map_of m k \<noteq> None) ks of None \<Rightarrow> [Dict r] | Some k \<Rightarrow> the (map_of m k))"
| "rows_of (Single r) ks = [Obj r]"

definition book_number :: "pyval \<Rightarrow> string \<Rightarrow> rat portfolio" where
  "book_number v label =
     (case py_float (py_strip (py_str v)) of
        None \<Rightarrow> unsafe (''Invalid '' @ label @ '' in portfolio safety state'')
      | Some (Fin r) \<Rightarrow> Inr r
      | Some _ \<Rightarrow> unsafe (''Non-finite '' @ label @ '' in portfolio safety state''))"

definition is_whole :: "rat \<Rightarrow> bool" where
  "is_whole r \<longleftrightarrow> is_integer (Fin r)"

definition SYMBOL_KEYS :: "string list" where
  "SYMBOL_KEYS = [''symbol'', ''trading_symbol'', ''tradingsymbol'']"

definition INSTRUMENT_KEYS :: "string list" where
  "INSTRUMENT_KEYS = [''instrument_id'', ''instrument_token'', ''security_id'', ''securityId'']"

definition POSITION_FEEDS :: "string list" where
  "POSITION_FEEDS = [''data'', ''positions'', ''net'', ''day'']"

definition ORDER_FEEDS :: "string list" where
  "ORDER_FEEDS = [''data'', ''orders'', ''orderbook'', ''order_book'']"

subsection \<open>Funds and positions\<close>

definition to_float_or_zero :: "pyval \<Rightarrow> rat" where
  "to_float_or_zero v = (case py_float (py_str v) of Some (Fin r) \<Rightarrow> r | _ \<Rightarrow> 0)"

text \<open>The positions feed of Layer 2: rows that are neither mappings nor have a quantity are dropped.\<close>

fun l2_rows :: "feed \<Rightarrow> book_row list" where
  "l2_rows No_feed = []"
| "l2_rows (Listing rs) = rs"
| "l2_rows (Keyed m r) = (case find (\<lambda>k. map_of m k \<noteq> None \<and> map_of m k \<noteq> Some []) POSITION_FEEDS of None \<Rightarrow> [] | Some k \<Rightarrow> the (map_of m k))"
| "l2_rows (Single r) = [Obj r]"

definition position_row :: "string \<Rightarrow> string \<Rightarrow> string \<Rightarrow> string \<Rightarrow> book_row" where
  "position_row symbol exchange prd qty =
     Obj [(''symbol'', PStr symbol), (''exchange'', PStr exchange), (''product'', PStr prd), (''quantity'', PStr qty)]"

fun l2_position :: "book_row \<Rightarrow> book_row option" where
  "l2_position (Obj r) = (if map_of r ''quantity'' \<noteq> None then Some (Obj r) else None)"
| "l2_position (Dict r) =
     (let q = field (Dict r) [''quantity'', ''qty'', ''net_quantity'', ''netQty'', ''net_qty'', ''netqty'', ''cfBuyQty'', ''cfSellQty'']
      in Some (position_row (text_of (field (Dict r) SYMBOL_KEYS)) (py_upper (text_of (field (Dict r) [''exchange''])))
                 (py_upper (text_of (field (Dict r) [''product'']))) (if truthy q then py_str q else ''0'')))"

definition normalise_l2_positions :: "feed \<Rightarrow> book_row list" where
  "normalise_l2_positions raw = List.map_filter l2_position (l2_rows raw)"

definition normalise_l2_funds :: "book_row \<Rightarrow> fnum \<times> fnum" where
  "normalise_l2_funds raw =
     (let used = to_float_or_zero (field raw [''used_margin'', ''utilized_margin'', ''utilised_margin'', ''usedmargin'', ''margin_used'', ''marginUsed'', ''MarginUsed'', ''used'']);
          whole_balance = to_float_or_zero (field raw [''total_balance'', ''total'', ''totalcollateral'', ''totalCollateral'', ''net'', ''net_balance'', ''Net''])
      in if whole_balance \<le> 0 then
           (let available = to_float_or_zero (field raw [''available_balance'', ''available_margin'', ''available'', ''net'', ''Net''])
            in (Fin used, if available \<noteq> 0 \<or> used \<noteq> 0 then f_add (Fin available) (Fin used) else Fin whole_balance))
         else (Fin used, Fin whole_balance))"

type_synonym instrument = "string \<times> string \<times> string"

definition book_key :: "book_row \<Rightarrow> instrument option" where
  "book_key r =
     (let symbol = py_upper (text_of (field r SYMBOL_KEYS)); exchange = py_upper (text_of (field r [''exchange'']));
          prd = py_upper (text_of (field r [''product'']))
      in if symbol = [] \<or> exchange = [] \<or> prd = [] then None else Some (symbol, exchange, prd))"

definition signed_order_quantity :: "book_row \<Rightarrow> rat portfolio" where
  "signed_order_quantity ord =
     bind_res (book_number (field ord [''quantity'', ''qty'']) ''order quantity'') (\<lambda>q.
       let action = py_upper (text_of (field ord [''action'', ''transaction_type'']))
       in if q \<le> 0 \<or> \<not> is_whole q \<or> action \<notin> {''BUY'', ''SELL''}
          then unsafe ''Invalid order quantity or action in prospective safety state''
          else Inr (if action = ''BUY'' then q else - q))"

definition add_quantity :: "instrument \<Rightarrow> book_row \<Rightarrow> fnum \<Rightarrow> fnum portfolio" where
  "add_quantity k p acc =
     (if book_key p \<noteq> Some k then Inr acc
      else bind_res (book_number (field p [''quantity'', ''qty'']) ''position quantity'') (\<lambda>q. Inr (f_add acc (Fin q))))"

definition book_quantity :: "book_row list \<Rightarrow> instrument \<Rightarrow> fnum portfolio" where
  "book_quantity ps k = for_each (add_quantity k) ps (Fin 0)"

definition order_increases_exposure :: "book_row list \<Rightarrow> book_row \<Rightarrow> bool portfolio" where
  "order_increases_exposure ps ord =
     (case book_key ord of
        None \<Rightarrow> unsafe ''Incomplete order identity in prospective safety state''
      | Some k \<Rightarrow>
          bind_res (book_quantity ps k) (\<lambda>current.
          bind_res (signed_order_quantity ord) (\<lambda>s. Inr (f_less (f_abs current) (f_abs (f_add current (Fin s)))))))"

definition quantity_text :: "fnum \<Rightarrow> string" where
  "quantity_text q = (if is_integer q then show_int (int_of_float q) else float_repr q)"

definition put_position :: "instrument \<Rightarrow> fnum \<Rightarrow> book_row list \<Rightarrow> book_row list" where
  "put_position k q ps =
     filter (\<lambda>p. book_key p \<noteq> Some k) ps
       @ (if q \<noteq> Fin 0 then [position_row (fst k) (fst (snd k)) (snd (snd k)) (quantity_text q)] else [])"

definition apply_order_to_positions :: "book_row list \<Rightarrow> book_row \<Rightarrow> book_row list portfolio" where
  "apply_order_to_positions ps ord =
     (case book_key ord of
        None \<Rightarrow> unsafe ''Incomplete order identity in prospective safety state''
      | Some k \<Rightarrow>
          bind_res (book_quantity ps k) (\<lambda>current.
          bind_res (signed_order_quantity ord) (\<lambda>s. Inr (put_position k (f_add current (Fin s)) ps))))"

subsection \<open>The worst case\<close>

type_synonym exposure_groups = "(instrument \<times> (fnum \<times> fnum)) list"

definition group_order :: "book_row \<Rightarrow> exposure_groups \<Rightarrow> exposure_groups portfolio" where
  "group_order ord g =
     (case book_key ord of
        None \<Rightarrow> unsafe ''Incomplete order identity in prospective safety state''
      | Some k \<Rightarrow>
          bind_res (signed_order_quantity ord) (\<lambda>s.
            let (up, down) = (case map_of g k of None \<Rightarrow> (Fin 0, Fin 0) | Some b \<Rightarrow> b)
            in Inr (AList.update k (f_add up (Fin (max s 0)), f_add down (Fin (min s 0))) g)))"

text \<open>\<open>max(candidates, key=lambda value: (abs(value), value))\<close>.\<close>

definition adverse_less :: "fnum \<Rightarrow> fnum \<Rightarrow> bool" where
  "adverse_less a b \<longleftrightarrow> (if f_abs a = f_abs b \<and> a \<noteq> NotANum then f_less a b else f_less (f_abs a) (f_abs b))"

definition most_adverse :: "fnum \<Rightarrow> fnum list \<Rightarrow> fnum" where
  "most_adverse c cs = foldl (\<lambda>best x. if adverse_less best x then x else best) c cs"

definition project_group :: "instrument \<times> (fnum \<times> fnum) \<Rightarrow> book_row list \<Rightarrow> book_row list portfolio" where
  "project_group kb ps =
     bind_res (book_quantity ps (fst kb)) (\<lambda>current.
       Inr (put_position (fst kb) (most_adverse current [f_add current (fst (snd kb)), f_add current (snd (snd kb))]) ps))"

definition worst_case_positions :: "book_row list \<Rightarrow> book_row list \<Rightarrow> book_row list portfolio" where
  "worst_case_positions ps uncertain =
     bind_res (for_each group_order uncertain []) (\<lambda>g. for_each project_group g ps)"

definition worst_case_component :: "fnum \<Rightarrow> fnum list \<Rightarrow> fnum" where
  "worst_case_component seed cs =
     (let lower = f_add seed (py_sum (map (\<lambda>v. if f_less (Fin 0) v then Fin 0 else v) cs));
          upper = f_add seed (py_sum (map (\<lambda>v. if f_less v (Fin 0) then Fin 0 else v) cs))
      in if f_less (f_abs upper) (f_abs lower) then lower else upper)"

subsection \<open>The order book\<close>

definition ACTIVE_ORDER_STATUSES :: "string list" where
  "ACTIVE_ORDER_STATUSES = [''ACTIVE'', ''AFTER MARKET ORDER REQ RECEIVED'', ''AMO REQ RECEIVED'', ''CONFIRM'', ''MODIFY PENDING'',
     ''MODIFY VALIDATION PENDING'', ''OPEN'', ''OPEN PENDING'', ''PARTIAL'', ''PARTIALLY FILLED'', ''PENDING'', ''PUT ORDER REQ RECEIVED'',
     ''SCHEDULED'', ''TRANSIT'', ''TRIGGER PENDING'', ''TRIGGER_PENDING'', ''VALIDATION PENDING'']"

definition TERMINAL_ORDER_STATUSES :: "string list" where
  "TERMINAL_ORDER_STATUSES = [''CANCELED'', ''CANCELLED'', ''CLOSED'', ''COMPLETE'', ''COMPLETED'', ''DELETED'', ''DISABLED'', ''EXPIRED'',
     ''FILLED'', ''REJECTED'', ''TRADED'']"

definition ZERO_FILL_TERMINAL_STATUSES :: "string list" where
  "ZERO_FILL_TERMINAL_STATUSES = [''CANCELED'', ''CANCELLED'', ''CLOSED'', ''DELETED'', ''DISABLED'', ''EXPIRED'', ''REJECTED'']"

definition order_record_id :: "book_row \<Rightarrow> string" where
  "order_record_id r = text_of (field r [''orderid'', ''order_id'', ''orderId'', ''trigger_id'', ''gtt_order_id'', ''alert_id'', ''id''])"

definition order_record_value :: "book_row \<Rightarrow> book_row option \<Rightarrow> string list \<Rightarrow> pyval" where
  "order_record_value r fallback ks =
     (let v = field r ks
      in if \<not> blank v then v else (case fallback of None \<Rightarrow> v | Some f \<Rightarrow> field f ks))"

record auth_order =
  ao_status :: string
  ao_symbol :: string
  ao_exchange :: string
  ao_action :: string
  ao_product :: string
  ao_broker_product :: string
  ao_quantity :: pyval
  ao_filled_quantity :: pyval
  ao_pricetype :: string
  ao_price :: pyval
  ao_trigger_price :: pyval
  ao_disclosed_quantity :: pyval
  ao_validity :: string
  ao_variety :: string
  ao_amo :: pyval

definition normalise_authoritative_order :: "book_row \<Rightarrow> book_row option \<Rightarrow> auth_order" where
  "normalise_authoritative_order r fallback =
     (let v = order_record_value r fallback
      in \<lparr>ao_status = py_upper (text_of (v [''status'', ''order_status'', ''orderStatus''])),
          ao_symbol = text_of (v [''symbol'', ''trading_symbol'', ''tradingsymbol'', ''tradingSymbol'']),
          ao_exchange = py_upper (text_of (v [''exchange'', ''exchange_segment''])),
          ao_action = py_upper (text_of (v [''action'', ''transaction_type'', ''transactionType''])),
          ao_product = py_upper (text_of (v [''product'', ''product_type'', ''productType''])),
          ao_broker_product = py_upper (text_of (v [''broker_product'', ''brokerProduct''])),
          ao_quantity = v [''quantity'', ''qty'', ''order_quantity''],
          ao_filled_quantity = v [''filled_quantity'', ''filled_qty'', ''filledQty'', ''tradedQty''],
          ao_pricetype = py_upper (text_of (v [''pricetype'', ''price_type'', ''order_type'', ''orderType''])),
          ao_price = v [''price''],
          ao_trigger_price = v [''trigger_price'', ''triggerPrice''],
          ao_disclosed_quantity = v [''disclosed_quantity'', ''disclosedQuantity'', ''disclosedqty'', ''disclosed_qty''],
          ao_validity = py_upper (text_of (v [''validity'', ''order_duration''])),
          ao_variety = py_lower (text_of (v [''variety''])),
          ao_amo = v [''amo'']\<rparr>)"

definition pending_row :: "book_row \<Rightarrow> auth_order \<Rightarrow> fnum \<Rightarrow> book_row" where
  "pending_row r a remaining =
     Obj [(''order_id'', PStr (order_record_id r)), (''symbol'', PStr (ao_symbol a)), (''instrument_id'', PStr (text_of (field r INSTRUMENT_KEYS))),
       (''exchange'', PStr (ao_exchange a)), (''action'', PStr (ao_action a)), (''product'', PStr (ao_product a)),
       (''quantity'', PStr (quantity_text remaining)), (''pricetype'', PStr (if ao_pricetype a = [] then ''MARKET'' else ao_pricetype a)),
       (''price'', PStr (py_str (ao_price a))), (''trigger_price'', PStr (py_str (ao_trigger_price a))),
       (''option_type'', PStr (text_of (field r [''option_type'', ''drvOptionType'', ''instrument_type'']))),
       (''expiry'', PStr (text_of (field r [''expiry'', ''expiry_date'', ''drvExpiryDate'']))),
       (''strike_price'', field r [''strike_price'', ''strike'', ''drvStrikePrice'']),
       (''underlying'', PStr (text_of (field r [''underlying'', ''underlying_symbol'']))),
       (''margin_unfunded'', PBool (truthy (field r [''margin_unfunded''])))]"

definition row_status :: "book_row \<Rightarrow> string" where
  "row_status r = py_upper (text_of (field r [''status'', ''order_status'', ''orderStatus'']))"

definition active_unfilled_step :: "book_row \<Rightarrow> string list \<times> book_row list \<Rightarrow> (string list \<times> book_row list) portfolio" where
  "active_unfilled_step r acc =
     (let (seen, pending) = acc; i = order_record_id r; a = normalise_authoritative_order r None
      in if row_status r = [] then unsafe ''Authoritative order status is unavailable''
         else if row_status r \<in> set TERMINAL_ORDER_STATUSES then Inr acc
         else if i = [] then unsafe ''Authoritative active order id is unavailable''
         else if i \<in> set seen then unsafe ''Authoritative order book contains a duplicate order id''
         else if ao_symbol a = [] \<or> ao_exchange a = [] \<or> ao_action a = [] \<or> ao_product a = [] \<or> blank (ao_quantity a)
         then unsafe ''Authoritative active order is incomplete''
         else bind_res (book_number (ao_quantity a) ''authoritative order quantity'') (\<lambda>q.
              bind_res (book_number (ao_filled_quantity a) ''authoritative filled quantity'') (\<lambda>fq.
                if q \<le> 0 \<or> fq < 0 \<or> q < fq \<or> \<not> is_whole q \<or> \<not> is_whole fq
                then unsafe ''Authoritative active order quantity is inconsistent''
                else (let remaining = f_sub (Fin q) (Fin fq)
                      in Inr (i # seen, if remaining = Fin 0 then pending else pending @ [pending_row r a remaining])))))"

definition active_unfilled_orders :: "feed \<Rightarrow> book_row list portfolio" where
  "active_unfilled_orders raw =
     bind_res (for_each active_unfilled_step (rows_of raw ORDER_FEEDS) ([], [])) (\<lambda>acc. Inr (snd acc))"

subsection \<open>Reserved exposure\<close>

text \<open>One broker write whose exposure is not yet authoritative in the account state.\<close>

record exposure_reservation =
  er_id :: string
  er_selector :: string
  er_order :: book_row
  er_starting_quantity :: fnum
  er_broker_order_id :: string
  er_created_at :: string

definition same_order_identity :: "auth_order \<Rightarrow> book_row \<Rightarrow> bool" where
  "same_order_identity a ord \<longleftrightarrow>
     py_upper (ao_symbol a) = py_upper (text_of (field ord SYMBOL_KEYS)) \<and>
     ao_exchange a = py_upper (text_of (field ord [''exchange''])) \<and>
     ao_product a = py_upper (text_of (field ord [''product''])) \<and>
     ao_action a = py_upper (text_of (field ord [''action'', ''transaction_type'']))"

definition fill_is_represented :: "exposure_reservation \<Rightarrow> feed \<Rightarrow> rat \<Rightarrow> bool portfolio" where
  "fill_is_represented v positions filled =
     (case book_key (er_order v) of
        None \<Rightarrow> unsafe ''Local order reservation lacks canonical instrument identity''
      | Some k \<Rightarrow>
          if \<not> is_finite_float (er_starting_quantity v) then unsafe ''Local order reservation has non-finite starting quantity''
          else (let action = py_upper (text_of (field (er_order v) [''action'', ''transaction_type'']))
                in if action \<notin> {''BUY'', ''SELL''} then unsafe ''Local order reservation has invalid action''
                   else (let signed = (if action = ''BUY'' then filled else - filled)
                         in bind_res (book_quantity (normalise_l2_positions positions) k) (\<lambda>current.
                              Inr (if 0 < signed then f_le (f_add (er_starting_quantity v) (Fin signed)) current
                                   else f_le current (f_add (er_starting_quantity v) (Fin signed)))))))"

text \<open>\<open>text.rpartition(":")\<close>; \<open>None\<close>: no separator.\<close>

definition rpartition_colon :: "string \<Rightarrow> (string \<times> string) option" where
  "rpartition_colon s =
     (case dropWhile (\<lambda>c. c \<noteq> CHR '':'') (rev s) of
        [] \<Rightarrow> None
      | _ # h \<Rightarrow> Some (rev h, rev (takeWhile (\<lambda>c. c \<noteq> CHR '':'') (rev s))))"

definition rows_with_id :: "book_row list \<Rightarrow> string \<Rightarrow> book_row list" where
  "rows_with_id rows i = (if i = [] then [] else filter (\<lambda>r. order_record_id r = i) rows)"

definition parent_rows :: "book_row list \<Rightarrow> string \<Rightarrow> book_row list" where
  "parent_rows rows i =
     (case rpartition_colon i of
        None \<Rightarrow> []
      | Some (p, leg) \<Rightarrow> if leg \<noteq> [] \<and> list_all is_digit leg then rows_with_id rows p else [])"

text \<open>A reservation stays in the projection, is released, or is left to its active row of the book.\<close>

datatype fate = Projected | Reconciled | In_book

definition judge_parent :: "book_row \<Rightarrow> fate portfolio" where
  "judge_parent r =
     (let a = normalise_authoritative_order r None
      in if ao_status a = [] then unsafe ''Authoritative reserved parent status is unavailable''
         else if blank (ao_filled_quantity a) then Inr Projected
         else bind_res (book_number (ao_filled_quantity a) ''authoritative reserved parent filled quantity'') (\<lambda>fq.
                if fq < 0 then unsafe ''Authoritative reserved parent filled quantity is inconsistent''
                else Inr (if ao_status a \<in> set ZERO_FILL_TERMINAL_STATUSES \<and> fq = 0 then Reconciled else Projected)))"

definition judge_filled :: "exposure_reservation \<Rightarrow> feed \<Rightarrow> auth_order \<Rightarrow> rat \<Rightarrow> fate portfolio" where
  "judge_filled v positions a fq =
     (if \<not> same_order_identity a (er_order v) then unsafe ''Authoritative reserved order identity changed''
      else bind_res (book_number (ao_quantity a) ''authoritative reserved order quantity'') (\<lambda>q.
             if q \<le> 0 \<or> fq < 0 \<or> q < fq then unsafe ''Authoritative reserved order quantity is inconsistent''
             else bind_res (if 0 < fq then fill_is_represented v positions fq else Inr True) (\<lambda>shown.
                    Inr (if \<not> shown then Projected
                         else if ao_status a \<in> set ACTIVE_ORDER_STATUSES then In_book
                         else if ao_status a \<in> set ZERO_FILL_TERMINAL_STATUSES then Reconciled
                         else if ao_status a \<in> set TERMINAL_ORDER_STATUSES \<and> fq = q then Reconciled
                         else Projected))))"

definition judge_row :: "exposure_reservation \<Rightarrow> feed \<Rightarrow> book_row \<Rightarrow> fate portfolio" where
  "judge_row v positions r =
     (let a = normalise_authoritative_order r None
      in if ao_status a = [] then unsafe ''Authoritative reserved order status is unavailable''
         else if blank (ao_filled_quantity a) then Inr Projected
         else bind_res (book_number (ao_filled_quantity a) ''authoritative reserved filled quantity'') (\<lambda>fq.
                if fq < 0 then unsafe ''Authoritative reserved filled quantity is inconsistent''
                else if ao_status a \<in> set ZERO_FILL_TERMINAL_STATUSES \<and> fq = 0 then Inr Reconciled
                else judge_filled v positions a fq))"

definition judge_reservation :: "book_row list \<Rightarrow> feed \<Rightarrow> exposure_reservation \<Rightarrow> fate portfolio" where
  "judge_reservation rows positions v =
     (let i = py_strip (er_broker_order_id v)
      in if py_strip (er_id v) = [] then unsafe ''Local order reservation is invalid''
         else (case rows_with_id rows i of
                 _ # _ # _ \<Rightarrow> unsafe ''Authoritative order book contains a duplicate reserved order id''
               | [r] \<Rightarrow> judge_row v positions r
               | [] \<Rightarrow>
                   (case parent_rows rows i of
                      _ # _ # _ \<Rightarrow> unsafe ''Authoritative order book contains a duplicate reserved parent order id''
                    | [p] \<Rightarrow> if py_lower (text_of (field p [''order_family''])) = ''conditional'' then judge_parent p else Inr Projected
                    | [] \<Rightarrow> Inr Projected)))"

definition project_reservation :: "book_row list \<Rightarrow> feed \<Rightarrow> exposure_reservation \<Rightarrow> book_row list \<times> string list
    \<Rightarrow> (book_row list \<times> string list) portfolio" where
  "project_reservation rows positions v acc =
     bind_res (judge_reservation rows positions v) (\<lambda>f.
       Inr (case f of
              Projected \<Rightarrow> (fst acc @ [er_order v], snd acc)
            | Reconciled \<Rightarrow> (fst acc, snd acc @ [py_strip (er_id v)])
            | In_book \<Rightarrow> acc))"

definition project_unresolved_reservations :: "exposure_reservation list \<Rightarrow> feed \<Rightarrow> feed \<Rightarrow> (book_row list \<times> string list) portfolio" where
  "project_unresolved_reservations vs positions orders =
     for_each (project_reservation (rows_of orders ORDER_FEEDS) positions) vs ([], [])"

subsection \<open>The worst case covers every outcome\<close>

text \<open>
  What the projection is for. Quantities are whole numbers; \<open>book_net ps k\<close> is the net position in an
  instrument, and after \<open>fills\<close> of the uncertain orders, each between nothing and its whole
  quantity, the position is \<open>net_after ps os fills k\<close>.
\<close>

definition qty_int :: "book_row \<Rightarrow> int" where
  "qty_int r = (case book_number (field r [''quantity'', ''qty'']) [] of Inr x \<Rightarrow> int_of_float (Fin x) | Inl _ \<Rightarrow> 0)"

definition signed_int :: "book_row \<Rightarrow> int" where
  "signed_int r = (case signed_order_quantity r of Inr x \<Rightarrow> int_of_float (Fin x) | Inl _ \<Rightarrow> 0)"

definition whole_position :: "book_row \<Rightarrow> bool" where
  "whole_position r = (case book_number (field r [''quantity'', ''qty'']) [] of Inr x \<Rightarrow> is_whole x | Inl _ \<Rightarrow> False)"

definition book_net :: "book_row list \<Rightarrow> instrument \<Rightarrow> int" where
  "book_net ps k = sum_list (map qty_int (filter (\<lambda>p. book_key p = Some k) ps))"

definition fills_of :: "book_row list \<Rightarrow> int list \<Rightarrow> bool" where
  "fills_of os fills \<longleftrightarrow> list_all2 (\<lambda>r n. 0 \<le> n \<and> n \<le> \<bar>signed_int r\<bar>) os fills"

definition net_after :: "book_row list \<Rightarrow> book_row list \<Rightarrow> int list \<Rightarrow> instrument \<Rightarrow> int" where
  "net_after ps os fills k = book_net ps k + sum_list (map2 (\<lambda>r n. if book_key r = Some k then sgn (signed_int r) * n else 0) os fills)"

definition gross :: "book_row list \<Rightarrow> book_row list \<Rightarrow> int" where
  "gross ps os = sum_list (map (\<lambda>p. \<bar>qty_int p\<bar>) ps) + sum_list (map (\<lambda>r. \<bar>signed_int r\<bar>) os)"

lemma book_number_label: "book_number v a = Inr x \<Longrightarrow> book_number v b = Inr x"
  by (auto simp: book_number_def split: option.splits fnum.splits)

lemma whole_positionD:
  "whole_position p \<Longrightarrow> book_number (field p [''quantity'', ''qty'']) label = Inr (of_int (qty_int p))"
proof -
  assume "whole_position p"
  then obtain x where x: "book_number (field p [''quantity'', ''qty'']) [] = Inr x" "is_whole x"
    by (auto simp: whole_position_def split: sum.splits)
  have "Fin x = Fin (of_int (int_of_float (Fin x)))" by (rule is_integer_value) (use x in \<open>simp only: is_whole_def\<close>)
  then have "x = of_int (qty_int p)" using x by (simp add: qty_int_def)
  with book_number_label [OF x(1)] show ?thesis by simp
qed

lemma signed_intD:
  assumes "signed_order_quantity r = Inr s"
  shows "s = of_int (signed_int r)" and "signed_int r \<noteq> 0"
proof -
  from assms have s: "is_whole s" "s \<noteq> 0"
    by (auto simp: signed_order_quantity_def is_whole_def Let_def quotient_of_denom_pos rat_uminus_code split: if_splits prod.splits)
  then have "Fin s = Fin (of_int (int_of_float (Fin s)))" by (intro is_integer_value) (simp only: is_whole_def)
  then show "s = of_int (signed_int r)" using assms by (simp add: signed_int_def)
  with s show "signed_int r \<noteq> 0" by auto
qed

lemma for_each_filter:
  assumes "\<And>x s. x \<in> set xs \<Longrightarrow> \<not> P x \<Longrightarrow> f x s = Inr s"
  shows "for_each f xs s = for_each f (filter P xs) s"
  using assms
proof (induction xs arbitrary: s)
  case (Cons x xs)
  then have "for_each f xs = for_each f (filter P xs)" by (intro ext) simp
  with Cons.prems [of x s] show ?case by (cases "P x") simp_all
qed simp

lemma book_quantity_filter:
  "book_quantity ps k = book_quantity (filter (\<lambda>p. book_key p = Some k) ps) k"
  unfolding book_quantity_def by (rule for_each_filter) (simp add: add_quantity_def)

lemma sum_quantities_exact:
  assumes "list_all whole_position ps" and "list_all (\<lambda>p. book_key p = Some k) ps"
    and "\<bar>a\<bar> + sum_list (map (\<lambda>p. \<bar>qty_int p\<bar>) ps) < 2 ^ 53"
  shows "for_each (add_quantity k) ps (Fin (of_int a)) = Inr (Fin (of_int (a + sum_list (map qty_int ps))))"
  using assms
proof (induction ps arbitrary: a)
  case (Cons p ps)
  from Cons.prems have nonneg: "0 \<le> sum_list (map (\<lambda>p. \<bar>qty_int p\<bar>) ps)" by (intro sum_list_nonneg) auto
  with Cons.prems have "\<bar>a + qty_int p\<bar> < 2 ^ 53" by simp
  then have add: "f_add (Fin (of_int a)) (Fin (of_int (qty_int p))) = Fin (of_int (a + qty_int p))" by (rule f_add_int)
  have "add_quantity k p (Fin (of_int a)) = Inr (Fin (of_int (a + qty_int p)))"
    using Cons.prems add by (simp add: add_quantity_def whole_positionD del: f_add.simps)
  moreover have "for_each (add_quantity k) ps (Fin (of_int (a + qty_int p))) = Inr (Fin (of_int (a + qty_int p + sum_list (map qty_int ps))))"
    using Cons.prems by (intro Cons.IH) auto
  ultimately show ?case by (simp add: add.assoc)
qed simp

lemma sum_abs_filter: "sum_list (map (\<lambda>p. \<bar>f p\<bar>) (filter P ps)) \<le> sum_list (map (\<lambda>p. \<bar>f p :: int\<bar>) ps)"
  by (induction ps) auto

lemma book_quantity_exact:
  assumes "list_all whole_position ps" and "sum_list (map (\<lambda>p. \<bar>qty_int p\<bar>) ps) < 2 ^ 53"
  shows "book_quantity ps k = Inr (Fin (of_int (book_net ps k)))"
proof -
  let ?qs = "filter (\<lambda>p. book_key p = Some k) ps"
  have "for_each (add_quantity k) ?qs (Fin (of_int 0)) = Inr (Fin (of_int (0 + sum_list (map qty_int ?qs))))"
  proof (rule sum_quantities_exact)
    show "list_all whole_position ?qs" using assms(1) by (simp add: list_all_iff)
    show "list_all (\<lambda>p. book_key p = Some k) ?qs" by (simp add: list_all_iff)
    show "\<bar>0\<bar> + sum_list (map (\<lambda>p. \<bar>qty_int p\<bar>) ?qs) < 2 ^ 53"
      using assms(2) sum_abs_filter [of qty_int "\<lambda>p. book_key p = Some k" ps] by simp
  qed
  then show ?thesis
    by (subst book_quantity_filter) (simp add: book_quantity_def book_net_def)
qed

text \<open>What the orders of one instrument can add and take away.\<close>

definition ups :: "book_row list \<Rightarrow> instrument \<Rightarrow> int" where
  "ups os k = sum_list (map (\<lambda>r. if book_key r = Some k then max (signed_int r) 0 else 0) os)"

definition downs :: "book_row list \<Rightarrow> instrument \<Rightarrow> int" where
  "downs os k = sum_list (map (\<lambda>r. if book_key r = Some k then min (signed_int r) 0 else 0) os)"

definition grouped :: "exposure_groups \<Rightarrow> (instrument \<Rightarrow> int) \<Rightarrow> (instrument \<Rightarrow> int) \<Rightarrow> bool" where
  "grouped g u d \<longleftrightarrow> distinct (map fst g)
     \<and> (\<forall>k. map_of g k = (if u k = 0 \<and> d k = 0 then None else Some (Fin (of_int (u k)), Fin (of_int (d k)))))"

lemma groupedD: "grouped g u d \<Longrightarrow> map_of g k = (if u k = 0 \<and> d k = 0 then None else Some (Fin (of_int (u k)), Fin (of_int (d k))))"
  unfolding grouped_def by blast

lemma ups_downs_Cons:
  "ups (r # os) k = (if book_key r = Some k then max (signed_int r) 0 else 0) + ups os k"
  "downs (r # os) k = (if book_key r = Some k then min (signed_int r) 0 else 0) + downs os k"
  by (simp_all add: ups_def downs_def)

lemma group_order_step:
  assumes "group_order r g = Inr g'" and "grouped g u d" and "\<And>k. 0 \<le> u k \<and> d k \<le> 0"
    and "\<And>k. u k + \<bar>signed_int r\<bar> < 2 ^ 53" and "\<And>k. \<bar>d k\<bar> + \<bar>signed_int r\<bar> < 2 ^ 53"
  shows "grouped g' (\<lambda>k. u k + (if book_key r = Some k then max (signed_int r) 0 else 0))
           (\<lambda>k. d k + (if book_key r = Some k then min (signed_int r) 0 else 0))"
proof -
  from assms(1) obtain k s where k: "book_key r = Some k" and s: "signed_order_quantity r = Inr s"
    by (auto simp: group_order_def split: option.splits)
  note int = signed_intD [OF s]
  have bases: "(case map_of g k of None \<Rightarrow> (Fin 0, Fin 0) | Some b \<Rightarrow> b) = (Fin (of_int (u k)), Fin (of_int (d k)))"
    by (simp add: groupedD [OF assms(2)])
  have up: "f_add (Fin (of_int (u k))) (Fin (max s 0)) = Fin (of_int (u k + max (signed_int r) 0))"
  proof -
    have "max s 0 = of_int (max (signed_int r) 0)" by (simp add: int max_def)
    moreover have "\<bar>u k + max (signed_int r) 0\<bar> < 2 ^ 53" using assms(3,4) [of k] by linarith
    ultimately show ?thesis using f_add_int [of "u k" "max (signed_int r) 0"] by (simp only:)
  qed
  have down: "f_add (Fin (of_int (d k))) (Fin (min s 0)) = Fin (of_int (d k + min (signed_int r) 0))"
  proof -
    have "min s 0 = of_int (min (signed_int r) 0)" by (simp add: int min_def)
    moreover have "\<bar>d k + min (signed_int r) 0\<bar> < 2 ^ 53" using assms(3,5) [of k] by linarith
    ultimately show ?thesis using f_add_int [of "d k" "min (signed_int r) 0"] by (simp only:)
  qed
  have g': "g' = AList.update k (Fin (of_int (u k + max (signed_int r) 0)), Fin (of_int (d k + min (signed_int r) 0))) g"
    using assms(1) by (simp add: group_order_def k s bases up down Let_def del: f_add.simps)
  show ?thesis
    unfolding grouped_def
  proof (intro conjI allI)
    show "distinct (map fst g')" using assms(2) by (simp add: g' grouped_def distinct_update)
    fix j
    show "map_of g' j = (if u j + (if book_key r = Some j then max (signed_int r) 0 else 0) = 0 \<and>
        d j + (if book_key r = Some j then min (signed_int r) 0 else 0) = 0 then None
      else Some (Fin (of_int (u j + (if book_key r = Some j then max (signed_int r) 0 else 0))),
                 Fin (of_int (d j + (if book_key r = Some j then min (signed_int r) 0 else 0)))))"
    proof (cases "j = k")
      case True
      have "u k + max (signed_int r) 0 \<noteq> 0 \<or> d k + min (signed_int r) 0 \<noteq> 0" using assms(3) [of k] int(2) by auto
      then show ?thesis using True k by (auto simp: g')
    next
      case False
      then show ?thesis using k by (simp add: g' groupedD [OF assms(2)])
    qed
  qed
qed

lemma group_orders:
  assumes "for_each group_order os g = Inr g'" and "grouped g u d" and "\<And>k. 0 \<le> u k \<and> d k \<le> 0"
    and "\<And>k. u k + sum_list (map (\<lambda>r. \<bar>signed_int r\<bar>) os) < 2 ^ 53" and "\<And>k. \<bar>d k\<bar> + sum_list (map (\<lambda>r. \<bar>signed_int r\<bar>) os) < 2 ^ 53"
  shows "grouped g' (\<lambda>k. u k + ups os k) (\<lambda>k. d k + downs os k)"
  using assms
proof (induction os arbitrary: g u d)
  case (Cons r os)
  let ?u = "\<lambda>k. u k + (if book_key r = Some k then max (signed_int r) 0 else 0)"
  let ?d = "\<lambda>k. d k + (if book_key r = Some k then min (signed_int r) 0 else 0)"
  from Cons.prems(1) obtain g1 where g1: "group_order r g = Inr g1" and rest: "for_each group_order os g1 = Inr g'" by auto
  have nonneg: "0 \<le> sum_list (map (\<lambda>r. \<bar>signed_int r\<bar>) os)" by (intro sum_list_nonneg) auto
  have small: "u k + \<bar>signed_int r\<bar> < 2 ^ 53" "\<bar>d k\<bar> + \<bar>signed_int r\<bar> < 2 ^ 53" for k
    using Cons.prems(4,5) [of k] nonneg by simp_all
  have step: "grouped g1 ?u ?d" using Cons.prems(2,3) small by (intro group_order_step [OF g1]) simp_all
  have "grouped g' (\<lambda>k. ?u k + ups os k) (\<lambda>k. ?d k + downs os k)"
  proof (rule Cons.IH [OF rest step])
    fix k
    show "0 \<le> ?u k \<and> ?d k \<le> 0" using Cons.prems(3) [of k] by (auto simp: min_def)
    show "?u k + sum_list (map (\<lambda>r. \<bar>signed_int r\<bar>) os) < 2 ^ 53" using Cons.prems(4) [of k] by auto
    show "\<bar>?d k\<bar> + sum_list (map (\<lambda>r. \<bar>signed_int r\<bar>) os) < 2 ^ 53" using Cons.prems(5) [of k] Cons.prems(3) [of k] by auto
  qed
  then show ?case by (simp add: ups_downs_Cons add.assoc)
qed (simp add: ups_def downs_def)

lemma adverse_less_int:
  "adverse_less (Fin (of_int a)) (Fin (of_int b)) \<longleftrightarrow> \<bar>a\<bar> < \<bar>b\<bar> \<or> \<bar>a\<bar> = \<bar>b\<bar> \<and> a < b"
proof -
  have "\<bar>rat_of_int a\<bar> = \<bar>rat_of_int b\<bar> \<longleftrightarrow> \<bar>a\<bar> = \<bar>b\<bar>" "\<bar>rat_of_int a\<bar> < \<bar>rat_of_int b\<bar> \<longleftrightarrow> \<bar>a\<bar> < \<bar>b\<bar>"
    by (simp_all flip: of_int_abs)
  then show ?thesis by (auto simp: adverse_less_def)
qed

lemma most_adverse_int:
  obtains w where "most_adverse (Fin (of_int a)) [Fin (of_int b), Fin (of_int c)] = Fin (of_int w)" and "w \<in> {a, b, c}"
    and "\<bar>a\<bar> \<le> \<bar>w\<bar>" and "\<bar>b\<bar> \<le> \<bar>w\<bar>" and "\<bar>c\<bar> \<le> \<bar>w\<bar>"
proof -
  define m where "m = (if adverse_less (Fin (of_int a)) (Fin (of_int b)) then b else a)"
  define w where "w = (if adverse_less (Fin (of_int m)) (Fin (of_int c)) then c else m)"
  have "most_adverse (Fin (of_int a)) [Fin (of_int b), Fin (of_int c)] = Fin (of_int w)"
    by (simp add: most_adverse_def m_def w_def)
  moreover have "w \<in> {a, b, c}" "\<bar>a\<bar> \<le> \<bar>w\<bar>" "\<bar>b\<bar> \<le> \<bar>w\<bar>" "\<bar>c\<bar> \<le> \<bar>w\<bar>"
    by (auto simp: m_def w_def adverse_less_int)
  ultimately show thesis by (rule that)
qed

text \<open>A projected row reads back as its instrument and its quantity.\<close>

lemma text_of_canonical:
  "s \<noteq> [] \<Longrightarrow> py_strip s = s \<Longrightarrow> text_of (PStr s) = s"
  by (simp add: text_of_def)

lemma text_of_strip [simp]: "py_strip (text_of v) = text_of v"
  by (cases "truthy v") (simp_all add: text_of_def, simp add: py_strip_def)

lemma book_key_canonical:
  assumes "book_key r = Some (s, e, p)"
  shows "s \<noteq> []" "e \<noteq> []" "p \<noteq> []" "py_strip s = s" "py_strip e = e" "py_strip p = p" "py_upper s = s" "py_upper e = e" "py_upper p = p"
  using assms by (auto simp: book_key_def Let_def py_strip_upper split: if_splits)

lemma field_position_row [simp]:
  "field (position_row s e p q) SYMBOL_KEYS = PStr s" "field (position_row s e p q) [''exchange''] = PStr e"
  "field (position_row s e p q) [''product''] = PStr p" "field (position_row s e p q) [''quantity'', ''qty''] = PStr q"
  by (simp_all add: position_row_def SYMBOL_KEYS_def attr_def)

lemma book_key_position_row:
  "book_key r = Some k \<Longrightarrow> book_key (position_row (fst k) (fst (snd k)) (snd (snd k)) q) = Some k"
proof -
  assume "book_key r = Some k"
  moreover obtain s e p where k: "k = (s, e, p)" by (cases k)
  ultimately have "book_key r = Some (s, e, p)" by simp
  note c = book_key_canonical [OF this]
  then have "text_of (PStr s) = s" "text_of (PStr e) = e" "text_of (PStr p) = p" by (simp_all add: text_of_canonical)
  with c show ?thesis by (simp add: k book_key_def)
qed

lemma show_int_strip [simp]: "py_strip (show_int i) = show_int i"
  by (rule py_strip_no_space) (rule show_int_chars)

lemma book_number_show_int:
  "\<bar>i\<bar> < 2 ^ 53 \<Longrightarrow> book_number (PStr (show_int i)) label = Inr (of_int i)"
  by (simp add: book_number_def py_float_show_int)

lemma put_position_rows:
  assumes "book_key r = Some k" and "\<bar>w\<bar> < 2 ^ 53"
  shows "book_net (put_position k (Fin (of_int w)) ps) k = w"
    and "j \<noteq> k \<Longrightarrow> filter (\<lambda>p. book_key p = Some j) (put_position k q ps) = filter (\<lambda>p. book_key p = Some j) ps"
proof -
  have same: "filter (\<lambda>p. book_key p = Some k) (filter (\<lambda>p. book_key p \<noteq> Some k) ps) = []" by (simp add: filter_empty_conv)
  have shown: "quantity_text (Fin (of_int w)) = show_int w" by (simp add: quantity_text_def)
  show "book_net (put_position k (Fin (of_int w)) ps) k = w"
    using assms(2) by (auto simp: book_net_def put_position_def same shown book_key_position_row [OF assms(1)] qty_int_def book_number_show_int)
  assume "j \<noteq> k"
  then have "filter (\<lambda>p. book_key p = Some j) (filter (\<lambda>p. book_key p \<noteq> Some k) ps) = filter (\<lambda>p. book_key p = Some j) ps"
    by (simp add: filter_filter) (rule filter_cong, auto)
  then show "filter (\<lambda>p. book_key p = Some j) (put_position k q ps) = filter (\<lambda>p. book_key p = Some j) ps"
    using \<open>j \<noteq> k\<close> by (auto simp: put_position_def book_key_position_row [OF assms(1)])
qed

lemma same_rows_same_quantity:
  "filter (\<lambda>p. book_key p = Some k) ps = filter (\<lambda>p. book_key p = Some k) qs \<Longrightarrow> book_quantity ps k = book_quantity qs k"
  by (metis book_quantity_filter)

text \<open>Every instrument is projected once, from the position it had at the start.\<close>

lemma project_groups:
  assumes "for_each project_group g ps = Inr ws" and "distinct (map fst g)" and "\<And>j. j \<in> fst ` set g \<Longrightarrow> \<exists>r. book_key r = Some j"
  shows "(map_of g k = None \<longrightarrow> filter (\<lambda>p. book_key p = Some k) ws = filter (\<lambda>p. book_key p = Some k) ps)
      \<and> (\<forall>u d. map_of g k = Some (u, d) \<longrightarrow> (\<exists>c qs. book_quantity ps k = Inr c
           \<and> filter (\<lambda>p. book_key p = Some k) ws
               = filter (\<lambda>p. book_key p = Some k) (put_position k (most_adverse c [f_add c u, f_add c d]) qs)))"
  using assms
proof (induction g arbitrary: ps)
  case (Cons kb g)
  obtain j u' d' where kb: "kb = (j, u', d')" by (cases kb)
  from Cons.prems(1) obtain c where c: "book_quantity ps j = Inr c"
    and rest: "for_each project_group g (put_position j (most_adverse c [f_add c u', f_add c d']) ps) = Inr ws"
    by (auto simp: kb project_group_def [of "(j, u', d')"])
  from Cons.prems(3) [of j] obtain r where r: "book_key r = Some j" by (auto simp: kb)
  have other: "filter (\<lambda>p. book_key p = Some i) (put_position j q ps) = filter (\<lambda>p. book_key p = Some i) ps" if "i \<noteq> j" for i q
    using put_position_rows(2) [OF r, of 0] that by simp
  let ?ps = "put_position j (most_adverse c [f_add c u', f_add c d']) ps"
  have IH: "map_of g k = None \<longrightarrow> filter (\<lambda>p. book_key p = Some k) ws = filter (\<lambda>p. book_key p = Some k) ?ps"
    "map_of g k = Some (u, d) \<longrightarrow> (\<exists>c qs. book_quantity ?ps k = Inr c \<and> filter (\<lambda>p. book_key p = Some k) ws
         = filter (\<lambda>p. book_key p = Some k) (put_position k (most_adverse c [f_add c u, f_add c d]) qs))" for u d
    using Cons.IH [OF rest] Cons.prems(2,3) by (simp_all add: kb)
  show ?case
  proof (cases "k = j")
    case True
    then have "map_of g k = None" using Cons.prems(2) by (auto simp: kb map_of_eq_None_iff)
    then show ?thesis using IH(1) c True by (auto simp: kb)
  next
    case False
    then show ?thesis using IH other [OF False] same_rows_same_quantity [OF other [OF False]] by (simp add: kb)
  qed
qed simp

text \<open>Between the sums of the downward and of the upward orders lies every outcome.\<close>

lemma fills_between:
  assumes "fills_of os fills"
  shows "downs os k \<le> sum_list (map2 (\<lambda>r n. if book_key r = Some k then sgn (signed_int r) * n else 0) os fills)"
    and "sum_list (map2 (\<lambda>r n. if book_key r = Some k then sgn (signed_int r) * n else 0) os fills) \<le> ups os k"
proof -
  have "downs os k \<le> sum_list (map2 (\<lambda>r n. if book_key r = Some k then sgn (signed_int r) * n else 0) os fills)
      \<and> sum_list (map2 (\<lambda>r n. if book_key r = Some k then sgn (signed_int r) * n else 0) os fills) \<le> ups os k"
    using assms unfolding fills_of_def
  proof (induction rule: list_all2_induct)
    case (Cons r os n fills)
    have "min (signed_int r) 0 \<le> sgn (signed_int r) * n" "sgn (signed_int r) * n \<le> max (signed_int r) 0"
      using Cons(1) by (auto simp: sgn_if min_def max_def)
    with Cons(3) show ?case by (auto simp: ups_downs_Cons)
  qed (simp add: ups_def downs_def)
  then show "downs os k \<le> sum_list (map2 (\<lambda>r n. if book_key r = Some k then sgn (signed_int r) * n else 0) os fills)"
    and "sum_list (map2 (\<lambda>r n. if book_key r = Some k then sgn (signed_int r) * n else 0) os fills) \<le> ups os k"
    by simp_all
qed

lemma ups_downs_bounds:
  "0 \<le> ups os k" "downs os k \<le> 0" "ups os k - downs os k \<le> sum_list (map (\<lambda>r. \<bar>signed_int r\<bar>) os)"
proof -
  have "0 \<le> ups os k \<and> downs os k \<le> 0 \<and> ups os k - downs os k \<le> sum_list (map (\<lambda>r. \<bar>signed_int r\<bar>) os)"
    by (induction os) (auto simp: ups_downs_Cons min_def max_def, simp_all add: ups_def downs_def)
  then show "0 \<le> ups os k" "downs os k \<le> 0" "ups os k - downs os k \<le> sum_list (map (\<lambda>r. \<bar>signed_int r\<bar>) os)" by simp_all
qed

lemma ups_downs_key: "ups os k \<noteq> 0 \<or> downs os k \<noteq> 0 \<Longrightarrow> \<exists>r. book_key r = Some k"
  by (induction os) (auto simp: ups_downs_Cons ups_def downs_def split: if_splits)

lemma book_net_bound: "\<bar>book_net ps k\<bar> \<le> sum_list (map (\<lambda>p. \<bar>qty_int p\<bar>) ps)"
proof -
  have "\<bar>book_net ps k\<bar> \<le> sum_list (map (\<lambda>p. \<bar>qty_int p\<bar>) (filter (\<lambda>p. book_key p = Some k) ps))"
    by (simp add: book_net_def) (induction ps, auto)
  then show ?thesis using sum_abs_filter [of qty_int "\<lambda>p. book_key p = Some k" ps] by linarith
qed

lemma book_net_worst_case:
  assumes "worst_case_positions ps os = Inr ws" and "list_all whole_position ps" and "gross ps os < 2 ^ 53"
  obtains "book_net ws k = book_net ps k" "ups os k = 0" "downs os k = 0"
  | "\<bar>book_net ps k + ups os k\<bar> \<le> \<bar>book_net ws k\<bar>" "\<bar>book_net ps k + downs os k\<bar> \<le> \<bar>book_net ws k\<bar>"
      "book_net ws k \<in> {book_net ps k, book_net ps k + ups os k, book_net ps k + downs os k}"
proof -
  from assms(1) obtain g where g: "for_each group_order os [] = Inr g" and ws: "for_each project_group g ps = Inr ws"
    by (auto simp: worst_case_positions_def)
  let ?o = "sum_list (map (\<lambda>r. \<bar>signed_int r\<bar>) os)" and ?p = "sum_list (map (\<lambda>p. \<bar>qty_int p\<bar>) ps)"
  have nonneg: "0 \<le> ?o" "0 \<le> ?p" by (auto intro!: sum_list_nonneg)
  with assms(3) have bounds: "?o < 2 ^ 53" "?p < 2 ^ 53" "?o + ?p < 2 ^ 53" by (simp_all add: gross_def)
  have "grouped g (\<lambda>k. 0 + ups os k) (\<lambda>k. 0 + downs os k)"
    by (rule group_orders [OF g]) (use bounds in \<open>simp_all add: grouped_def\<close>)
  then have G: "grouped g (ups os) (downs os)" by simp
  have keys: "\<exists>r. book_key r = Some j" if "j \<in> fst ` set g" for j
  proof -
    from that have "map_of g j \<noteq> None" by (simp add: map_of_eq_None_iff)
    then show ?thesis using groupedD [OF G, of j] by (intro ups_downs_key) (auto split: if_splits)
  qed
  have "distinct (map fst g)" using G by (simp add: grouped_def)
  note P = project_groups [OF ws this keys, of k]
  show thesis
  proof (cases "map_of g k")
    case None
    then have "ups os k = 0 \<and> downs os k = 0" using groupedD [OF G, of k] by (auto split: if_splits)
    moreover have "book_net ws k = book_net ps k" using P None by (simp add: book_net_def)
    ultimately show ?thesis by (intro that(1)) simp_all
  next
    case (Some b)
    let ?c = "book_net ps k"
    have b: "b = (Fin (of_int (ups os k)), Fin (of_int (downs os k)))" using groupedD [OF G, of k] Some by (auto split: if_splits)
    have cur: "book_quantity ps k = Inr (Fin (of_int ?c))" using assms(2) bounds(2) by (rule book_quantity_exact)
    have lim: "\<bar>?c + ups os k\<bar> < 2 ^ 53" "\<bar>?c + downs os k\<bar> < 2 ^ 53"
      using book_net_bound [of ps k] ups_downs_bounds [of os k] bounds by linarith+
    obtain w where w: "most_adverse (Fin (of_int ?c)) [Fin (of_int (?c + ups os k)), Fin (of_int (?c + downs os k))] = Fin (of_int w)"
      "w \<in> {?c, ?c + ups os k, ?c + downs os k}" "\<bar>?c + ups os k\<bar> \<le> \<bar>w\<bar>" "\<bar>?c + downs os k\<bar> \<le> \<bar>w\<bar>"
      by (rule most_adverse_int)
    have "f_add (Fin (of_int ?c)) (Fin (of_int (ups os k))) = Fin (of_int (?c + ups os k))"
      "f_add (Fin (of_int ?c)) (Fin (of_int (downs os k))) = Fin (of_int (?c + downs os k))"
      using lim by (simp_all only: f_add_int)
    with P Some b cur w(1) obtain qs where
      rows: "filter (\<lambda>p. book_key p = Some k) ws = filter (\<lambda>p. book_key p = Some k) (put_position k (Fin (of_int w)) qs)"
      by (auto simp del: f_add.simps of_int_add)
    from keys [of k] Some obtain r where r: "book_key r = Some k" by (metis fst_conv image_eqI map_of_SomeD)
    have "\<bar>w\<bar> < 2 ^ 53" using w(2) lim book_net_bound [of ps k] bounds by auto
    from put_position_rows(1) [OF r this] have "book_net ws k = w" by (simp add: book_net_def rows)
    with w show ?thesis by (intro that(2)) simp_all
  qed
qed

text \<open>
  C6. The worst case is never too small: whatever part of every unresolved order is executed, no
  position is larger than the projected one.
\<close>

theorem worst_case_covers_every_outcome:
  assumes "worst_case_positions ps os = Inr ws" and "list_all whole_position ps" and "gross ps os < 2 ^ 53" and "fills_of os fills"
  shows "\<bar>net_after ps os fills k\<bar> \<le> \<bar>book_net ws k\<bar>"
proof (rule book_net_worst_case [OF assms(1-3), of k])
  assume "book_net ws k = book_net ps k" "ups os k = 0" "downs os k = 0"
  then show ?thesis using fills_between [OF assms(4), of k] by (simp add: net_after_def)
next
  assume "\<bar>book_net ps k + ups os k\<bar> \<le> \<bar>book_net ws k\<bar>" "\<bar>book_net ps k + downs os k\<bar> \<le> \<bar>book_net ws k\<bar>"
  then show ?thesis using fills_between [OF assms(4), of k] by (simp add: net_after_def)
qed

text \<open>Nor is it too large: some executions of the orders lead to it.\<close>

definition filled_where :: "(int \<Rightarrow> bool) \<Rightarrow> book_row list \<Rightarrow> int list" where
  "filled_where P os = map (\<lambda>r. if P (signed_int r) then \<bar>signed_int r\<bar> else 0) os"

lemma filled_where_fills: "fills_of os (filled_where P os)"
  by (simp add: fills_of_def filled_where_def list_all2_conv_all_nth)

lemma filled_where_after:
  "net_after ps os (filled_where (\<lambda>s. False) os) k = book_net ps k"
  "net_after ps os (filled_where (\<lambda>s. 0 < s) os) k = book_net ps k + ups os k"
  "net_after ps os (filled_where (\<lambda>s. s < 0) os) k = book_net ps k + downs os k"
  unfolding net_after_def filled_where_def
  by (induction os) (auto simp: ups_downs_Cons sgn_if, simp_all add: ups_def downs_def)

theorem worst_case_is_reached:
  assumes "worst_case_positions ps os = Inr ws" and "list_all whole_position ps" and "gross ps os < 2 ^ 53"
  shows "\<exists>fills. fills_of os fills \<and> net_after ps os fills k = book_net ws k"
proof (rule book_net_worst_case [OF assms, of k])
  assume "book_net ws k = book_net ps k"
  then show ?thesis using filled_where_fills filled_where_after(1) by metis
next
  assume "book_net ws k \<in> {book_net ps k, book_net ps k + ups os k, book_net ps k + downs os k}"
  then show ?thesis
    using filled_where_fills [of os "\<lambda>s. False"] filled_where_fills [of os "\<lambda>s. 0 < s"] filled_where_fills [of os "\<lambda>s. s < 0"]
    by (auto simp: filled_where_after intro: exI [of _ "filled_where P os" for P])
qed

text \<open>A long position of 100 with a resting sell of 250 and a resting buy of 20.\<close>

definition sample_positions :: "book_row list" where
  "sample_positions = [position_row ''NIFTY'' ''NFO'' ''MIS'' ''100'', position_row ''SBIN'' ''NSE'' ''CNC'' ''5'']"

definition sample_order :: "string \<Rightarrow> string \<Rightarrow> book_row" where
  "sample_order action qty = Dict [(''symbol'', PStr ''nifty''), (''exchange'', PStr ''NFO''), (''product'', PStr ''MIS''),
     (''action'', PStr action), (''quantity'', PStr qty)]"

lemma sample_worst_case:
  "worst_case_positions sample_positions [sample_order ''SELL'' ''250'', sample_order ''BUY'' ''20'']
     = Inr [position_row ''SBIN'' ''NSE'' ''CNC'' ''5'', position_row ''NIFTY'' ''NFO'' ''MIS'' ''-150'']"
  by code_simp

theorem worst_case_covers_every_outcome_witness:
  "\<bar>net_after sample_positions [sample_order ''SELL'' ''250'', sample_order ''BUY'' ''20''] [130, 20] (''NIFTY'', ''NFO'', ''MIS'')\<bar>
     \<le> \<bar>book_net [position_row ''SBIN'' ''NSE'' ''CNC'' ''5'', position_row ''NIFTY'' ''NFO'' ''MIS'' ''-150''] (''NIFTY'', ''NFO'', ''MIS'')\<bar>"
proof (rule worst_case_covers_every_outcome [OF sample_worst_case])
  show "list_all whole_position sample_positions" by code_simp
  show "gross sample_positions [sample_order ''SELL'' ''250'', sample_order ''BUY'' ''20''] < 2 ^ 53" by code_simp
  show "fills_of [sample_order ''SELL'' ''250'', sample_order ''BUY'' ''20''] [130, 20]" by code_simp
qed

subsection \<open>No reserved exposure is dropped\<close>

lemma project_reservations_fates:
  assumes "for_each (project_reservation rows positions) vs acc = Inr res"
  shows "v \<in> set vs \<Longrightarrow> \<exists>f. judge_reservation rows positions v = Inr f
           \<and> (f = Projected \<longrightarrow> er_order v \<in> set (fst res)) \<and> (f = Reconciled \<longrightarrow> py_strip (er_id v) \<in> set (snd res))"
    and "set (fst acc) \<subseteq> set (fst res)" and "set (snd acc) \<subseteq> set (snd res)"
    and "i \<in> set (snd res) \<Longrightarrow> i \<in> set (snd acc) \<or> (\<exists>v \<in> set vs. judge_reservation rows positions v = Inr Reconciled \<and> i = py_strip (er_id v))"
proof -
  have "(\<forall>v \<in> set vs. \<exists>f. judge_reservation rows positions v = Inr f
           \<and> (f = Projected \<longrightarrow> er_order v \<in> set (fst res)) \<and> (f = Reconciled \<longrightarrow> py_strip (er_id v) \<in> set (snd res)))
     \<and> set (fst acc) \<subseteq> set (fst res) \<and> set (snd acc) \<subseteq> set (snd res)
     \<and> (\<forall>i \<in> set (snd res). i \<in> set (snd acc) \<or> (\<exists>v \<in> set vs. judge_reservation rows positions v = Inr Reconciled \<and> i = py_strip (er_id v)))"
    using assms
  proof (induction vs arbitrary: acc)
    case (Cons v vs)
    then obtain f where f: "judge_reservation rows positions v = Inr f" by (auto simp: project_reservation_def)
    with Cons.prems have "for_each (project_reservation rows positions) vs
        (case f of Projected \<Rightarrow> (fst acc @ [er_order v], snd acc) | Reconciled \<Rightarrow> (fst acc, snd acc @ [py_strip (er_id v)]) | In_book \<Rightarrow> acc) = Inr res"
      by (simp add: project_reservation_def [of _ _ v])
    from Cons.IH [OF this] f show ?case by (cases f) (auto simp: subset_iff)
  qed auto
  then show "v \<in> set vs \<Longrightarrow> \<exists>f. judge_reservation rows positions v = Inr f
           \<and> (f = Projected \<longrightarrow> er_order v \<in> set (fst res)) \<and> (f = Reconciled \<longrightarrow> py_strip (er_id v) \<in> set (snd res))"
    and "set (fst acc) \<subseteq> set (fst res)" and "set (snd acc) \<subseteq> set (snd res)"
    and "i \<in> set (snd res) \<Longrightarrow> i \<in> set (snd acc) \<or> (\<exists>v \<in> set vs. judge_reservation rows positions v = Inr Reconciled \<and> i = py_strip (er_id v))"
    by blast+
qed

lemma ao_status_row [simp]: "ao_status (normalise_authoritative_order r None) = row_status r"
  by (simp add: normalise_authoritative_order_def order_record_value_def row_status_def Let_def)

lemma rows_with_id_single: "rows_with_id rows i = [r] \<Longrightarrow> r \<in> set rows \<and> order_record_id r = i \<and> i \<noteq> []"
  by (auto simp: rows_with_id_def filter_eq_Cons_iff split: if_splits)

text \<open>The order book shows the order as open, with what is left of it to execute.\<close>

definition open_row :: "book_row \<Rightarrow> fnum \<Rightarrow> bool" where
  "open_row r remaining \<longleftrightarrow>
     row_status r \<in> set ACTIVE_ORDER_STATUSES
     \<and> (\<exists>q fq. book_number (ao_quantity (normalise_authoritative_order r None)) [] = Inr q
          \<and> book_number (ao_filled_quantity (normalise_authoritative_order r None)) [] = Inr fq \<and> f_sub (Fin q) (Fin fq) = remaining)"

lemma active_not_terminal: "s \<in> set ACTIVE_ORDER_STATUSES \<Longrightarrow> s \<noteq> [] \<and> s \<notin> set TERMINAL_ORDER_STATUSES"
  by (auto simp: ACTIVE_ORDER_STATUSES_def TERMINAL_ORDER_STATUSES_def)

lemma active_unfilled_keeps:
  "for_each active_unfilled_step rows acc = Inr acc' \<Longrightarrow> set (snd acc) \<subseteq> set (snd acc')"
proof (induction rows arbitrary: acc)
  case (Cons r rows)
  then obtain acc1 where step: "active_unfilled_step r acc = Inr acc1" and rest: "for_each active_unfilled_step rows acc1 = Inr acc'" by auto
  have "set (snd acc) \<subseteq> set (snd acc1)"
    using step by (auto simp: active_unfilled_step_def Let_def split: if_splits prod.splits)
  with Cons.IH [OF rest] show ?case by blast
qed simp

lemma open_row_pending:
  assumes "for_each active_unfilled_step rows acc = Inr acc'" and "r \<in> set rows" and "open_row r remaining" and "remaining \<noteq> Fin 0"
  shows "pending_row r (normalise_authoritative_order r None) remaining \<in> set (snd acc')"
  using assms
proof (induction rows arbitrary: acc)
  case (Cons x rows)
  then obtain acc1 where step: "active_unfilled_step x acc = Inr acc1" and rest: "for_each active_unfilled_step rows acc1 = Inr acc'" by auto
  show ?case
  proof (cases "r = x")
    case True
    from Cons.prems(3) obtain q fq where
      q: "book_number (ao_quantity (normalise_authoritative_order r None)) [] = Inr q" "row_status r \<in> set ACTIVE_ORDER_STATUSES"
        "book_number (ao_filled_quantity (normalise_authoritative_order r None)) [] = Inr fq" "f_sub (Fin q) (Fin fq) = remaining"
      by (auto simp: open_row_def)
    have "pending_row r (normalise_authoritative_order r None) remaining \<in> set (snd acc1)"
      using step active_not_terminal [OF q(2)] book_number_label [OF q(1)] book_number_label [OF q(3)] q(4) Cons.prems(4)
      by (auto simp: True active_unfilled_step_def Let_def split: if_splits prod.splits)
    with active_unfilled_keeps [OF rest] show ?thesis by blast
  next
    case False
    with Cons rest show ?thesis by simp
  qed
qed simp

lemma judge_in_book:
  assumes "judge_reservation rows positions v = Inr In_book"
  obtains r remaining where "r \<in> set rows" and "order_record_id r = py_strip (er_broker_order_id v)" and "open_row r remaining"
proof -
  from assms obtain r where r: "rows_with_id rows (py_strip (er_broker_order_id v)) = [r]" and row: "judge_row v positions r = Inr In_book"
    by (auto simp: judge_reservation_def judge_parent_def Let_def split: list.splits if_splits)
  let ?a = "normalise_authoritative_order r None"
  from row obtain fq q where fq: "book_number (ao_filled_quantity ?a) ''authoritative reserved filled quantity'' = Inr fq"
    and q: "book_number (ao_quantity ?a) ''authoritative reserved order quantity'' = Inr q" and status: "row_status r \<in> set ACTIVE_ORDER_STATUSES"
    by (auto simp: judge_row_def judge_filled_def Let_def not_le not_less split: if_splits)
  show thesis using that rows_with_id_single [OF r] status book_number_label [OF q] book_number_label [OF fq]
    by (auto simp: open_row_def)
qed

definition accounted_for :: "feed \<Rightarrow> book_row list \<Rightarrow> string list \<Rightarrow> book_row list \<Rightarrow> exposure_reservation \<Rightarrow> bool" where
  "accounted_for orders projected reconciled pending v \<longleftrightarrow>
     er_order v \<in> set projected \<or> py_strip (er_id v) \<in> set reconciled
     \<or> (\<exists>r \<in> set (rows_of orders ORDER_FEEDS). \<exists>remaining. order_record_id r = py_strip (er_broker_order_id v) \<and> open_row r remaining
          \<and> (remaining = Fin 0 \<or> pending_row r (normalise_authoritative_order r None) remaining \<in> set pending))"

text \<open>
  Every reservation stays in the exposure that an order is judged against, unless it is
  reconciled: its order is projected, or the order book has it open and its remaining quantity is
  among the pending orders.
\<close>

theorem no_reservation_is_dropped:
  assumes "project_unresolved_reservations vs positions orders = Inr (projected, reconciled)"
    and "active_unfilled_orders orders = Inr pending" and "v \<in> set vs"
  shows "accounted_for orders projected reconciled pending v"
proof -
  let ?rows = "rows_of orders ORDER_FEEDS"
  note P = assms(1) [unfolded project_unresolved_reservations_def]
  from project_reservations_fates(1) [OF P assms(3)] obtain f where f: "judge_reservation ?rows positions v = Inr f"
    "f = Projected \<longrightarrow> er_order v \<in> set projected" "f = Reconciled \<longrightarrow> py_strip (er_id v) \<in> set reconciled" by auto
  show ?thesis
  proof (cases f)
    case In_book
    with f(1) have "judge_reservation ?rows positions v = Inr In_book" by simp
    then obtain r remaining where r: "r \<in> set ?rows" "order_record_id r = py_strip (er_broker_order_id v)" "open_row r remaining"
      by (rule judge_in_book)
    from assms(2) obtain acc where acc: "for_each active_unfilled_step ?rows ([], []) = Inr acc" "pending = snd acc"
      by (auto simp: active_unfilled_orders_def)
    have "remaining = Fin 0 \<or> pending_row r (normalise_authoritative_order r None) remaining \<in> set pending"
      using open_row_pending [OF acc(1) r(1,3)] acc(2) by blast
    with r show ?thesis unfolding accounted_for_def by blast
  qed (use f in \<open>simp_all add: accounted_for_def\<close>)
qed

text \<open>What releases a reservation: a terminal row of the book without a fill, or one whose fill the positions show.\<close>

definition ended_unfilled :: "book_row \<Rightarrow> bool" where
  "ended_unfilled r \<longleftrightarrow>
     row_status r \<in> set ZERO_FILL_TERMINAL_STATUSES \<and> book_number (ao_filled_quantity (normalise_authoritative_order r None)) [] = Inr 0"

definition ended_and_shown :: "feed \<Rightarrow> exposure_reservation \<Rightarrow> book_row \<Rightarrow> bool" where
  "ended_and_shown positions v r \<longleftrightarrow>
     row_status r \<in> set TERMINAL_ORDER_STATUSES \<and> same_order_identity (normalise_authoritative_order r None) (er_order v)
     \<and> (\<exists>fq. book_number (ao_filled_quantity (normalise_authoritative_order r None)) [] = Inr fq \<and> 0 \<le> fq
          \<and> (0 < fq \<longrightarrow> fill_is_represented v positions fq = Inr True))"

definition proven :: "feed \<Rightarrow> feed \<Rightarrow> exposure_reservation \<Rightarrow> bool" where
  "proven positions orders v \<longleftrightarrow>
     (\<exists>r \<in> set (rows_of orders ORDER_FEEDS). order_record_id r = py_strip (er_broker_order_id v)
          \<and> (ended_unfilled r \<or> ended_and_shown positions v r))
     \<or> (\<exists>r \<in> set (parent_rows (rows_of orders ORDER_FEEDS) (py_strip (er_broker_order_id v))). ended_unfilled r)"

lemma zero_fill_terminal: "s \<in> set ZERO_FILL_TERMINAL_STATUSES \<Longrightarrow> s \<in> set TERMINAL_ORDER_STATUSES"
  by (auto simp: ZERO_FILL_TERMINAL_STATUSES_def TERMINAL_ORDER_STATUSES_def)

lemma judge_row_reconciled:
  assumes "judge_row v positions r = Inr Reconciled"
  shows "ended_unfilled r \<or> ended_and_shown positions v r"
proof -
  let ?a = "normalise_authoritative_order r None"
  from assms obtain fq where fq: "book_number (ao_filled_quantity ?a) ''authoritative reserved filled quantity'' = Inr fq" "0 \<le> fq"
    and cases: "row_status r \<in> set ZERO_FILL_TERMINAL_STATUSES \<and> fq = 0 \<or> judge_filled v positions ?a fq = Inr Reconciled"
    by (auto simp: judge_row_def Let_def not_less split: if_splits)
  note fq' = book_number_label [OF fq(1)]
  from cases show ?thesis
  proof
    assume "judge_filled v positions ?a fq = Inr Reconciled"
    then have "same_order_identity ?a (er_order v)" "row_status r \<in> set TERMINAL_ORDER_STATUSES"
      "0 < fq \<longrightarrow> fill_is_represented v positions fq = Inr True"
      using zero_fill_terminal by (auto simp: judge_filled_def split: if_splits)
    with fq' fq(2) show ?thesis unfolding ended_and_shown_def by blast
  qed (use fq' in \<open>simp add: ended_unfilled_def\<close>)
qed

lemma judge_reconciled:
  assumes "judge_reservation (rows_of orders ORDER_FEEDS) positions v = Inr Reconciled"
  shows "proven positions orders v"
proof (cases "rows_with_id (rows_of orders ORDER_FEEDS) (py_strip (er_broker_order_id v))")
  case Nil
  then obtain p where p: "p \<in> set (parent_rows (rows_of orders ORDER_FEEDS) (py_strip (er_broker_order_id v)))" "judge_parent p = Inr Reconciled"
    using assms by (auto simp: judge_reservation_def Let_def split: list.splits if_splits)
  then have "ended_unfilled p"
    by (auto simp: judge_parent_def ended_unfilled_def Let_def dest: book_number_label split: if_splits)
  with p(1) show ?thesis by (auto simp: proven_def)
next
  case (Cons r rs)
  then have r: "rows_with_id (rows_of orders ORDER_FEEDS) (py_strip (er_broker_order_id v)) = [r]" and row: "judge_row v positions r = Inr Reconciled"
    using assms by (auto simp: judge_reservation_def Let_def split: list.splits if_splits)
  with rows_with_id_single [OF r] judge_row_reconciled [OF row] show ?thesis by (auto simp: proven_def)
qed

lemma reconciled_is_proven:
  assumes "project_unresolved_reservations vs positions orders = Inr (projected, reconciled)" and "i \<in> set reconciled"
  shows "\<exists>v \<in> set vs. py_strip (er_id v) = i \<and> proven positions orders v"
  using project_reservations_fates(4) [OF assms(1) [unfolded project_unresolved_reservations_def], of i] assms(2) judge_reconciled
  by fastforce

text \<open>C7. No reservation is reconciled without such a proof in the broker's own books.\<close>

theorem release_needs_proof:
  assumes "project_unresolved_reservations vs positions orders = Inr (projected, reconciled)" and "i \<in> set reconciled"
  shows "\<exists>v \<in> set vs. py_strip (er_id v) = i \<and> proven positions orders v"
  using assms by (rule reconciled_is_proven)

text \<open>A filled order that the positions show, an open one, and one the book does not know yet.\<close>

definition sample_reservation :: "string \<Rightarrow> string \<Rightarrow> exposure_reservation" where
  "sample_reservation i broker = \<lparr>er_id = i, er_selector = ''dhan:1'', er_order = sample_order ''BUY'' ''50'',
     er_starting_quantity = Fin 50, er_broker_order_id = broker, er_created_at = ''2026-01-05''\<rparr>"

definition sample_book_row :: "string \<Rightarrow> string \<Rightarrow> string \<Rightarrow> book_row" where
  "sample_book_row i status filled = Dict [(''orderid'', PStr i), (''status'', PStr status), (''symbol'', PStr ''NIFTY''), (''exchange'', PStr ''NFO''),
     (''product'', PStr ''MIS''), (''action'', PStr ''BUY''), (''quantity'', PInt 50), (''filled_quantity'', PStr filled)]"

definition sample_book :: feed where
  "sample_book = Listing [sample_book_row ''B1'' ''complete'' ''50'', sample_book_row ''B2'' ''open'' ''20'']"

definition sample_reservations :: "exposure_reservation list" where
  "sample_reservations = [sample_reservation ''a'' ''B1'', (sample_reservation ''b'' ''B2'')\<lparr>er_starting_quantity := Fin 0\<rparr>, sample_reservation ''c'' []]"

lemma sample_projection:
  "project_unresolved_reservations sample_reservations (Listing sample_positions) sample_book = Inr ([sample_order ''BUY'' ''50''], [''a''])"
  by code_simp

theorem no_reservation_is_dropped_witness:
  "accounted_for sample_book [sample_order ''BUY'' ''50''] [''a'']
     [pending_row (sample_book_row ''B2'' ''open'' ''20'') (normalise_authoritative_order (sample_book_row ''B2'' ''open'' ''20'') None) (Fin 30)]
     ((sample_reservation ''b'' ''B2'')\<lparr>er_starting_quantity := Fin 0\<rparr>)"
proof (rule no_reservation_is_dropped [OF sample_projection])
  show "active_unfilled_orders sample_book = Inr
     [pending_row (sample_book_row ''B2'' ''open'' ''20'') (normalise_authoritative_order (sample_book_row ''B2'' ''open'' ''20'') None) (Fin 30)]"
    by code_simp
  show "(sample_reservation ''b'' ''B2'')\<lparr>er_starting_quantity := Fin 0\<rparr> \<in> set sample_reservations"
    by (simp add: sample_reservations_def)
qed

theorem release_needs_proof_witness:
  "\<exists>v \<in> set sample_reservations. py_strip (er_id v) = ''a'' \<and> proven (Listing sample_positions) sample_book v"
  by (rule release_needs_proof [OF sample_projection]) simp

end
