(* ===== verification/Order_Admission.thy ===== *)
theory Order_Admission
  imports Portfolio_State Sql_Store
begin

text \<open>
  The reserved exposure of live orders (\<open>engine/safety.py\<close>: \<open>OrderExposureReservation\<close>, its SQLite
  store, \<open>OrderAdmissionLease\<close> and the part of \<open>SafetySystem\<close> behind it). An order is admitted
  under a lease that is exclusive for its account; before it is handed to the broker its exposure is
  reserved, durably when the system has a store, and the reservation is released on proof only.

  Times, tokens and the failures of storage are arguments of the operations. The order of the keys in
  a stored order is not kept: no lookup depends on it.
\<close>

subsection \<open>The store\<close>

datatype admission_error =
    SafetyBypassError string
  | AdmissionValueError string
  | ReservationIntegrityError
  | ReservationStorageError
  | StateUnavailable portfolio_error

type_synonym reservation_db = "exposure_reservation list"

fun order_payload :: "book_row \<Rightarrow> book_row" where
  "order_payload (Dict r) = Dict r"
| "order_payload (Obj r) = Dict r"

definition insert_body :: "exposure_reservation \<Rightarrow> reservation_db \<Rightarrow> (reservation_db, admission_error, unit) outcome" where
  "insert_body v db =
     (if er_id v \<in> er_id ` set db \<or> er_starting_quantity v = NotANum then (db, Inl ReservationIntegrityError)
      else (db @ [v\<lparr>er_order := order_payload (er_order v)\<rparr>], Inr ()))"

definition insert_reservation :: "storage \<Rightarrow> exposure_reservation \<Rightarrow> reservation_db \<Rightarrow> (reservation_db, admission_error, unit) outcome" where
  "insert_reservation fl v = atomically ReservationStorageError fl (insert_body v)"

definition acknowledge_body :: "string \<Rightarrow> string \<Rightarrow> reservation_db \<Rightarrow> (reservation_db, admission_error, unit) outcome" where
  "acknowledge_body rid bid db =
     (if length (filter (\<lambda>w. er_id w = rid) db) \<noteq> 1 then (db, Inl (SafetyBypassError ''durable order exposure reservation is unavailable''))
      else (map (\<lambda>w. if er_id w = rid then w\<lparr>er_broker_order_id := bid\<rparr> else w) db, Inr ()))"

definition acknowledge_stored :: "storage \<Rightarrow> string \<Rightarrow> string \<Rightarrow> reservation_db \<Rightarrow> (reservation_db, admission_error, unit) outcome" where
  "acknowledge_stored fl rid bid = atomically ReservationStorageError fl (acknowledge_body rid bid)"

definition delete_stored :: "storage \<Rightarrow> string list \<Rightarrow> reservation_db \<Rightarrow> (reservation_db, admission_error, unit) outcome" where
  "delete_stored fl rids db =
     (if rids = [] then (db, Inr ())
      else atomically ReservationStorageError fl (\<lambda>db. (filter (\<lambda>w. er_id w \<notin> set rids) db, Inr ())) db)"

definition load_stored :: "reservation_db \<Rightarrow> admission_error + exposure_reservation list" where
  "load_stored db =
     (let rows = sort_by (\<lambda>a b. text_less (er_created_at a) (er_created_at b)
            \<or> er_created_at a = er_created_at b \<and> text_less (er_id a) (er_id b)) db
      in if list_all (\<lambda>w. is_finite_float (er_starting_quantity w)) rows then Inr rows
         else Inl (SafetyBypassError ''order exposure reservation store contains invalid state''))"

subsection \<open>Identities\<close>

text \<open>What a broker can answer a placement with: a scalar, a mapping that may hold another under \<open>data\<close>, or an object with its text.\<close>

datatype ack = Ack_scalar pyval | Ack_mapping row "row option" | Ack_object string row | Ack_sequence

definition ID_KEYS :: "string list" where
  "ID_KEYS = [''orderid'', ''order_id'', ''id'']"

fun ack_candidates :: "ack \<Rightarrow> pyval list" where
  "ack_candidates (Ack_scalar v) = [v]"
| "ack_candidates (Ack_mapping r inner) = map (attr r) ID_KEYS @ (case inner of None \<Rightarrow> [] | Some d \<Rightarrow> map (attr d) ID_KEYS)"
| "ack_candidates (Ack_object shown r) = PStr shown # map (attr r) ID_KEYS"
| "ack_candidates Ack_sequence = []"

definition canonical_id :: "string \<Rightarrow> bool" where
  "canonical_id s \<longleftrightarrow> s \<noteq> [] \<and> list_all (\<lambda>c. 33 \<le> code_of c \<and> code_of c \<le> 126) s"

definition reservation_order_id :: "ack \<Rightarrow> string" where
  "reservation_order_id result =
     (case find (\<lambda>v. v \<noteq> PNone \<and> canonical_id (py_str v)) (ack_candidates result) of None \<Rightarrow> [] | Some v \<Rightarrow> py_str v)"

definition exact_selector :: "string \<Rightarrow> bool" where
  "exact_selector s \<longleftrightarrow>
     (case dropWhile (\<lambda>c. c \<noteq> CHR '':'') s of
        [] \<Rightarrow> False
      | _ # account \<Rightarrow>
          (let adapter = takeWhile (\<lambda>c. c \<noteq> CHR '':'') s
           in adapter \<noteq> [] \<and> account \<noteq> [] \<and> adapter = py_lower (py_strip adapter) \<and> account = py_strip account))"

definition canonical_order_selector :: "string \<Rightarrow> admission_error + string" where
  "canonical_order_selector s =
     (if exact_selector s then Inr s
      else Inl (SafetyBypassError ''order admission requires an exact canonical account selector''))"

definition token_id :: "string \<Rightarrow> bool" where
  "token_id i \<longleftrightarrow> length i = 32 \<and> list_all (\<lambda>c. c \<in> set ''0123456789abcdef'') i"

subsection \<open>The system\<close>

type_synonym reservation_memory = "(string \<times> (string \<times> exposure_reservation) list) list"

record admission =
  am_memory :: reservation_memory
  am_store :: "reservation_db option"
  am_leases :: "(nat \<times> string) list"

definition rows_in :: "reservation_memory \<Rightarrow> string \<Rightarrow> (string \<times> exposure_reservation) list" where
  "rows_in m sel = (case map_of m sel of None \<Rightarrow> [] | Some rows \<Rightarrow> rows)"

definition memory_put :: "string \<Rightarrow> string \<Rightarrow> exposure_reservation \<Rightarrow> reservation_memory \<Rightarrow> reservation_memory" where
  "memory_put sel rid v m = AList.update sel (AList.update rid v (rows_in m sel)) m"

definition restore_one :: "exposure_reservation \<Rightarrow> reservation_memory \<Rightarrow> admission_error + reservation_memory" where
  "restore_one w m =
     bind_res (canonical_order_selector (er_selector w)) (\<lambda>sel.
       if \<not> token_id (er_id w) \<or> er_created_at w = [] then Inl (SafetyBypassError ''order exposure reservation store contains invalid identity'')
       else if er_broker_order_id w \<noteq> [] \<and> reservation_order_id (Ack_scalar (PStr (er_broker_order_id w))) = []
       then Inl (SafetyBypassError ''order exposure reservation store contains invalid broker identity'')
       else Inr (memory_put sel (er_id w) w m))"

definition new_admission :: "reservation_db option \<Rightarrow> admission_error + admission" where
  "new_admission store =
     bind_res (case store of None \<Rightarrow> Inr [] | Some db \<Rightarrow> bind_res (load_stored db) (\<lambda>rows. for_each restore_one rows [])) (\<lambda>m.
       Inr \<lparr>am_memory = m, am_store = store, am_leases = []\<rparr>)"

definition order_admission :: "fnum \<Rightarrow> string \<Rightarrow> nat \<Rightarrow> admission \<Rightarrow> (admission, admission_error, unit) outcome" where
  "order_admission timeout sel l s =
     bind_out (s, canonical_order_selector sel) (\<lambda>s canonical.
       if \<not> is_finite_float timeout \<or> f_less timeout (Fin 0) then (s, Inl (AdmissionValueError ''order admission timeout must be finite and non-negative''))
       else if canonical \<in> snd ` set (am_leases s) then (s, Inl (SafetyBypassError ''order admission is already in progress for this account''))
       else (s\<lparr>am_leases := (l, canonical) # am_leases s\<rparr>, Inr ()))"

definition close_admission :: "nat \<Rightarrow> admission \<Rightarrow> admission" where
  "close_admission l s = s\<lparr>am_leases := AList.delete l (am_leases s)\<rparr>"

definition require_open :: "nat \<Rightarrow> admission \<Rightarrow> admission_error + string" where
  "require_open l s =
     (case map_of (am_leases s) l of
        None \<Rightarrow> Inl (SafetyBypassError ''order admission lease is no longer active'')
      | Some sel \<Rightarrow> Inr sel)"

definition with_store :: "(reservation_db \<Rightarrow> (reservation_db, admission_error, unit) outcome) \<Rightarrow> admission
    \<Rightarrow> (admission, admission_error, unit) outcome" where
  "with_store f s =
     (case am_store s of
        None \<Rightarrow> (s, Inr ())
      | Some db \<Rightarrow> (case f db of (db', r) \<Rightarrow> (s\<lparr>am_store := Some db'\<rparr>, r)))"

definition name_of :: "book_row \<Rightarrow> string \<Rightarrow> string" where
  "name_of r k = (case r of Obj a \<Rightarrow> py_upper (text_of (attr a k)) | Dict _ \<Rightarrow> [])"

definition names_of :: "book_row \<Rightarrow> string \<times> string \<times> string" where
  "names_of r = (name_of r ''symbol'', name_of r ''exchange'', name_of r ''product'')"

definition held_text :: "book_row \<Rightarrow> string" where
  "held_text r = (case r of Obj a \<Rightarrow> (case map_of a ''quantity'' of None \<Rightarrow> ''0'' | Some v \<Rightarrow> py_str v) | Dict _ \<Rightarrow> ''0'')"

definition add_held :: "string \<times> string \<times> string \<Rightarrow> book_row \<Rightarrow> fnum \<Rightarrow> admission_error + fnum" where
  "add_held k p acc =
     (if names_of p \<noteq> k then Inr acc
      else (case py_float (held_text p) of
              None \<Rightarrow> Inl (SafetyBypassError ''order exposure reservation found invalid position quantity'')
            | Some (Fin q) \<Rightarrow> Inr (f_add acc (Fin q))
            | Some _ \<Rightarrow> Inl (SafetyBypassError ''order exposure reservation found non-finite position quantity'')))"

definition reservation_position_quantity :: "book_row \<Rightarrow> book_row list \<Rightarrow> admission_error + fnum" where
  "reservation_position_quantity ord ps =
     (let (s, e, p) = names_of ord
      in if s = [] \<or> e = [] \<or> p = [] then Inl (SafetyBypassError ''order exposure reservation requires canonical instrument identity'')
         else for_each (add_held (names_of ord)) ps (Fin 0))"

definition reservation_snapshot :: "string \<Rightarrow> admission \<Rightarrow> exposure_reservation list" where
  "reservation_snapshot sel s = map snd (rows_in (am_memory s) sel)"

definition reserve_order_exposure :: "storage \<Rightarrow> string \<Rightarrow> string \<Rightarrow> string \<Rightarrow> book_row \<Rightarrow> book_row list \<Rightarrow> admission
    \<Rightarrow> (admission, admission_error, exposure_reservation) outcome" where
  "reserve_order_exposure fl rid now sel ord ps s =
     bind_out (s, reservation_position_quantity ord ps) (\<lambda>s q.
       let v = \<lparr>er_id = rid, er_selector = sel, er_order = ord, er_starting_quantity = q, er_broker_order_id = [], er_created_at = now\<rparr>
       in bind_out (with_store (insert_reservation fl v) s) (\<lambda>s _.
            (s\<lparr>am_memory := memory_put sel rid v (am_memory s)\<rparr>, Inr v)))"

definition acknowledge_order_reservation :: "storage \<Rightarrow> string \<Rightarrow> string \<Rightarrow> string \<Rightarrow> admission \<Rightarrow> (admission, admission_error, unit) outcome" where
  "acknowledge_order_reservation fl sel rid bid s =
     (if bid = [] then (s, Inl (SafetyBypassError ''broker placement acknowledgement lacks a canonical order id''))
      else (case map_of (rows_in (am_memory s) sel) rid of
              None \<Rightarrow> (s, Inl (SafetyBypassError ''order exposure reservation is unavailable''))
            | Some v \<Rightarrow>
                bind_out (with_store (acknowledge_stored fl rid bid) s) (\<lambda>s _.
                  (s\<lparr>am_memory := memory_put sel rid (v\<lparr>er_broker_order_id := bid\<rparr>) (am_memory s)\<rparr>, Inr ()))))"

definition memory_drop :: "string \<Rightarrow> string list \<Rightarrow> reservation_memory \<Rightarrow> reservation_memory" where
  "memory_drop sel rids m =
     (let rows = filter (\<lambda>x. fst x \<notin> set rids) (rows_in m sel)
      in if rows = [] then AList.delete sel m else AList.update sel rows m)"

definition reconcile_order_reservations :: "storage \<Rightarrow> string \<Rightarrow> string list \<Rightarrow> admission \<Rightarrow> (admission, admission_error, unit) outcome" where
  "reconcile_order_reservations fl sel rids s =
     (let canonical = filter (\<lambda>i. i \<noteq> []) rids
      in if canonical = [] then (s, Inr ())
         else (case map_of (am_memory s) sel of
                 None \<Rightarrow> (s, Inr ())
               | Some rows \<Rightarrow>
                   bind_out (with_store (delete_stored fl (filter (\<lambda>i. i \<in> fst ` set rows) canonical)) s) (\<lambda>s _.
                     (s\<lparr>am_memory := memory_drop sel canonical (am_memory s)\<rparr>, Inr ()))))"

subsection \<open>What the holder of a lease can do\<close>

text \<open>
  \<open>Observe\<close> is what every admission starts with: the broker's positions and order book are read, the
  reservations are projected on them, and those proven settled are released. \<open>Withdraw\<close> releases the
  reservations of a write that failed before the adapter was invoked.
\<close>

datatype admission_op =
    Open_lease fnum string nat
  | Close_lease nat
  | Reserve nat storage string string book_row "book_row list"
  | Acknowledge nat storage string ack
  | Observe nat storage feed feed
  | Withdraw nat storage "string list"

definition under_lease :: "nat \<Rightarrow> (string \<Rightarrow> admission \<Rightarrow> (admission, admission_error, exposure_reservation option) outcome) \<Rightarrow> admission
    \<Rightarrow> (admission, admission_error, exposure_reservation option) outcome" where
  "under_lease l f s = bind_out (s, require_open l s) (\<lambda>s sel. f sel s)"

definition no_value :: "(admission, admission_error, unit) outcome \<Rightarrow> (admission, admission_error, exposure_reservation option) outcome" where
  "no_value r = bind_out r (\<lambda>s _. (s, Inr None))"

definition observe :: "storage \<Rightarrow> feed \<Rightarrow> feed \<Rightarrow> string \<Rightarrow> admission \<Rightarrow> (admission, admission_error, exposure_reservation option) outcome" where
  "observe fl positions orders sel s =
     (case project_unresolved_reservations (reservation_snapshot sel s) positions orders of
        Inl e \<Rightarrow> (s, Inl (StateUnavailable e))
      | Inr (projected, reconciled) \<Rightarrow> no_value (reconcile_order_reservations fl sel reconciled s))"

fun exec_admission :: "admission_op \<Rightarrow> admission \<Rightarrow> (admission, admission_error, exposure_reservation option) outcome" where
  "exec_admission (Open_lease timeout sel l) s = no_value (order_admission timeout sel l s)"
| "exec_admission (Close_lease l) s = (close_admission l s, Inr None)"
| "exec_admission (Reserve l fl rid now ord ps) s =
     under_lease l (\<lambda>sel s. bind_out (reserve_order_exposure fl rid now sel ord ps s) (\<lambda>s v. (s, Inr (Some v)))) s"
| "exec_admission (Acknowledge l fl rid result) s =
     under_lease l (\<lambda>sel s. no_value (acknowledge_order_reservation fl sel rid (reservation_order_id result) s)) s"
| "exec_admission (Observe l fl positions orders) s = under_lease l (observe fl positions orders) s"
| "exec_admission (Withdraw l fl rids) s = under_lease l (\<lambda>sel s. no_value (reconcile_order_reservations fl sel rids s)) s"

text \<open>
  The steps of the running program and its restarts. A fresh lease is a new object, the token is
  \<open>secrets.token_hex(16)\<close>, which no reservation in memory has, and the time of day is not empty.
\<close>

definition memory_ids :: "reservation_memory \<Rightarrow> string set" where
  "memory_ids m = (\<Union>x \<in> set m. fst ` set (snd x))"

fun call_ok :: "admission_op \<Rightarrow> admission \<Rightarrow> bool" where
  "call_ok (Open_lease timeout sel l) s = (l \<notin> fst ` set (am_leases s))"
| "call_ok (Reserve l fl rid now ord ps) s = (token_id rid \<and> now \<noteq> [] \<and> rid \<notin> memory_ids (am_memory s))"
| "call_ok _ s = True"

datatype admission_label = Called admission_op "admission_error + exposure_reservation option" | Restarted

inductive admission_step :: "admission \<Rightarrow> admission_label \<Rightarrow> admission \<Rightarrow> bool" where
  called: "call_ok a s \<Longrightarrow> exec_admission a s = (s', r) \<Longrightarrow> admission_step s (Called a r) s'"
| restarted: "new_admission (am_store s) = Inr s' \<Longrightarrow> admission_step s Restarted s'"

inductive admission_run :: "admission \<Rightarrow> admission_label list \<Rightarrow> admission \<Rightarrow> bool" where
  stay: "admission_run s [] s"
| go: "admission_step s a s' \<Longrightarrow> admission_run s' as s'' \<Longrightarrow> admission_run s (a # as) s''"

inductive_cases called_cases: "admission_step s (Called a r) s'"
inductive_cases admission_step_cases: "admission_step s a s'"

definition durable_start :: admission where
  "durable_start = \<lparr>am_memory = [], am_store = Some [], am_leases = []\<rparr>"

subsection \<open>Memory, store and leases stay consistent\<close>

definition sound_reservation :: "exposure_reservation \<Rightarrow> bool" where
  "sound_reservation w \<longleftrightarrow> exact_selector (er_selector w) \<and> token_id (er_id w) \<and> er_created_at w \<noteq> []
     \<and> (er_broker_order_id w = [] \<or> canonical_id (er_broker_order_id w))"

definition memory_ok :: "reservation_memory \<Rightarrow> bool" where
  "memory_ok m \<longleftrightarrow> (\<forall>sel rid w. (rid, w) \<in> set (rows_in m sel) \<longrightarrow> er_id w = rid \<and> er_selector w = sel \<and> sound_reservation w)
     \<and> (\<forall>sel. distinct (map fst (rows_in m sel)))"

definition store_ok :: "reservation_db option \<Rightarrow> bool" where
  "store_ok st \<longleftrightarrow> (\<forall>db. st = Some db \<longrightarrow> distinct (map er_id db) \<and> list_all sound_reservation db)"

definition leases_ok :: "(nat \<times> string) list \<Rightarrow> bool" where
  "leases_ok ls \<longleftrightarrow> distinct (map fst ls) \<and> distinct (map snd ls) \<and> list_all (\<lambda>l. exact_selector (snd l)) ls"

definition admission_inv :: "admission \<Rightarrow> bool" where
  "admission_inv s \<longleftrightarrow> memory_ok (am_memory s) \<and> store_ok (am_store s) \<and> leases_ok (am_leases s)"

lemma rows_in_put:
  "rows_in (memory_put sel rid v m) sel' = (if sel' = sel then AList.update rid v (rows_in m sel) else rows_in m sel')"
  by (simp add: memory_put_def rows_in_def [of "AList.update a b c" for a b c] update_conv') (simp add: rows_in_def)

lemma rows_in_drop:
  "rows_in (memory_drop sel rids m) sel' = (if sel' = sel then filter (\<lambda>x. fst x \<notin> set rids) (rows_in m sel) else rows_in m sel')"
  by (auto simp: memory_drop_def rows_in_def [of "AList.update a b c" for a b c] rows_in_def [of "AList.delete a b" for a b] update_conv' delete_conv' Let_def)
    (auto simp: rows_in_def)

lemma map_of_drop_keys: "map_of (filter (\<lambda>x. fst x \<notin> A) rows) k = (if k \<in> A then None else map_of rows k)"
  by (induction rows) auto

lemma memory_okD: "memory_ok m \<Longrightarrow> (rid, w) \<in> set (rows_in m sel) \<Longrightarrow> er_id w = rid \<and> er_selector w = sel \<and> sound_reservation w"
  unfolding memory_ok_def by blast

lemma memory_ok_distinct: "memory_ok m \<Longrightarrow> distinct (map fst (rows_in m sel))"
  unfolding memory_ok_def by blast

lemma memory_okI:
  "(\<And>sel rid w. (rid, w) \<in> set (rows_in m sel) \<Longrightarrow> er_id w = rid \<and> er_selector w = sel \<and> sound_reservation w)
   \<Longrightarrow> (\<And>sel. distinct (map fst (rows_in m sel))) \<Longrightarrow> memory_ok m"
  unfolding memory_ok_def by blast

lemma set_update_cases: "x \<in> set (AList.update k v d) \<Longrightarrow> x = (k, v) \<or> x \<in> set d"
  by (induction d) (auto split: if_splits)

lemma memory_ok_put:
  assumes "memory_ok m" and "er_id v = rid" "er_selector v = sel" "sound_reservation v"
  shows "memory_ok (memory_put sel rid v m)"
proof (rule memory_okI)
  fix sel' rid' w
  assume "(rid', w) \<in> set (rows_in (memory_put sel rid v m) sel')"
  then have "sel' = sel \<and> rid' = rid \<and> w = v \<or> (rid', w) \<in> set (rows_in m sel')"
    by (auto simp: rows_in_put dest: set_update_cases split: if_splits)
  then show "er_id w = rid' \<and> er_selector w = sel' \<and> sound_reservation w"
    using assms(2-4) memory_okD [OF assms(1)] by blast
next
  fix sel'
  show "distinct (map fst (rows_in (memory_put sel rid v m) sel'))"
    using memory_ok_distinct [OF assms(1)] by (simp add: rows_in_put distinct_update)
qed

lemma memory_ok_drop: "memory_ok m \<Longrightarrow> memory_ok (memory_drop sel rids m)"
  by (rule memory_okI) (auto simp: rows_in_drop distinct_map_filter memory_ok_distinct split: if_splits dest: memory_okD)

lemma with_store_frame:
  "with_store f s = (s', r) \<Longrightarrow> am_memory s' = am_memory s \<and> am_leases s' = am_leases s"
  by (auto simp: with_store_def split: option.splits prod.splits)

lemma with_store_db:
  "with_store f s = (s', r) \<Longrightarrow> am_store s = Some db \<Longrightarrow> am_store s' = Some (fst (f db)) \<and> r = snd (f db)"
  by (auto simp: with_store_def split: prod.splits)

lemma with_store_ok:
  assumes "with_store f s = (s', r)" and "store_ok (am_store s)"
    and "\<And>db. distinct (map er_id db) \<Longrightarrow> list_all sound_reservation db \<Longrightarrow> distinct (map er_id (fst (f db))) \<and> list_all sound_reservation (fst (f db))"
  shows "store_ok (am_store s')"
  using assms by (auto simp: with_store_def store_ok_def split: option.splits prod.splits) (metis fst_conv)+

lemma insert_ok:
  assumes "sound_reservation v" and "distinct (map er_id db)" and "list_all sound_reservation db"
  shows "distinct (map er_id (fst (insert_reservation fl v db))) \<and> list_all sound_reservation (fst (insert_reservation fl v db))"
  using atomically_state [of ReservationStorageError fl "insert_body v" db] assms
  by (auto simp: insert_reservation_def insert_body_def sound_reservation_def image_iff)

lemma acknowledge_ok:
  assumes "canonical_id bid" and "distinct (map er_id db)" and "list_all sound_reservation db"
  shows "distinct (map er_id (fst (acknowledge_stored fl rid bid db))) \<and> list_all sound_reservation (fst (acknowledge_stored fl rid bid db))"
proof -
  have "map er_id (map (\<lambda>w. if er_id w = rid then w\<lparr>er_broker_order_id := bid\<rparr> else w) db) = map er_id db" by simp
  moreover have "list_all sound_reservation (map (\<lambda>w. if er_id w = rid then w\<lparr>er_broker_order_id := bid\<rparr> else w) db)"
    using assms by (auto simp: list_all_iff sound_reservation_def)
  ultimately show ?thesis
    using atomically_state [of ReservationStorageError fl "acknowledge_body rid bid" db] assms
    by (auto simp: acknowledge_stored_def acknowledge_body_def simp del: map_map)
qed

lemma delete_ok:
  assumes "distinct (map er_id db)" and "list_all sound_reservation db"
  shows "distinct (map er_id (fst (delete_stored fl rids db))) \<and> list_all sound_reservation (fst (delete_stored fl rids db))"
  using atomically_state [of ReservationStorageError fl "\<lambda>db. (filter (\<lambda>w. er_id w \<notin> set rids) db, Inr ())" db] assms
  by (auto simp: delete_stored_def list_all_iff distinct_map_filter)

lemma reservation_order_id_canonical: "reservation_order_id result = [] \<or> canonical_id (reservation_order_id result)"
  by (auto simp: reservation_order_id_def find_Some_iff split: option.splits)

lemma under_lease_cases:
  assumes "under_lease l f s = (s', r)"
  obtains "s' = s" "r = Inl (SafetyBypassError ''order admission lease is no longer active'')" "map_of (am_leases s) l = None"
  | sel where "map_of (am_leases s) l = Some sel" and "f sel s = (s', r)"
  using assms by (auto simp: under_lease_def require_open_def split: option.splits)

lemma reserve_inv:
  assumes "reserve_order_exposure fl rid now sel ord ps s = (s', r)" and "admission_inv s" and "token_id rid" "now \<noteq> []" "exact_selector sel"
  shows "admission_inv s'"
proof (cases "reservation_position_quantity ord ps")
  case (Inr q)
  let ?v = "\<lparr>er_id = rid, er_selector = sel, er_order = ord, er_starting_quantity = q, er_broker_order_id = [], er_created_at = now\<rparr>"
  have sound: "sound_reservation ?v" using assms by (simp add: sound_reservation_def)
  obtain s1 r1 where w: "with_store (insert_reservation fl ?v) s = (s1, r1)" by (cases "with_store (insert_reservation fl ?v) s")
  have ok: "store_ok (am_store s1)" using assms(2) insert_ok [OF sound] by (intro with_store_ok [OF w]) (auto simp: admission_inv_def)
  have mem: "memory_ok (memory_put sel rid ?v (am_memory s))" using assms(2) sound by (intro memory_ok_put) (simp_all add: admission_inv_def)
  show ?thesis
    using assms(1,2) ok mem with_store_frame [OF w] Inr
    by (cases r1) (auto simp: reserve_order_exposure_def w Let_def admission_inv_def)
qed (use assms in \<open>auto simp: reserve_order_exposure_def\<close>)

lemma acknowledge_inv:
  assumes "acknowledge_order_reservation fl sel rid bid s = (s', r)" and "admission_inv s" and "bid = [] \<or> canonical_id bid"
  shows "admission_inv s'"
proof (cases "bid = [] \<or> map_of (rows_in (am_memory s) sel) rid = None")
  case False
  then obtain v where v: "map_of (rows_in (am_memory s) sel) rid = Some v" "canonical_id bid" using assms(3) by auto
  obtain s1 r1 where w: "with_store (acknowledge_stored fl rid bid) s = (s1, r1)" by (cases "with_store (acknowledge_stored fl rid bid) s")
  have ok: "store_ok (am_store s1)" using assms(2) acknowledge_ok [OF v(2)] by (intro with_store_ok [OF w]) (auto simp: admission_inv_def)
  have "er_id v = rid" "er_selector v = sel" "sound_reservation v" 
    using assms(2) memory_okD map_of_SomeD [OF v(1)] unfolding admission_inv_def by blast+
  then have mem: "memory_ok (memory_put sel rid (v\<lparr>er_broker_order_id := bid\<rparr>) (am_memory s))"
    using assms(2) v(2) by (intro memory_ok_put) (simp_all add: admission_inv_def sound_reservation_def)
  show ?thesis
    using assms(1,2) ok mem with_store_frame [OF w] v False
    by (cases r1) (auto simp: acknowledge_order_reservation_def w admission_inv_def)
qed (use assms in \<open>auto simp: acknowledge_order_reservation_def split: option.splits if_splits\<close>)

lemma reconcile_inv:
  assumes "reconcile_order_reservations fl sel rids s = (s', r)" and "admission_inv s"
  shows "admission_inv s'"
proof (cases "filter (\<lambda>i. i \<noteq> []) rids = [] \<or> map_of (am_memory s) sel = None")
  case False
  then obtain rows where rows: "map_of (am_memory s) sel = Some rows" by auto
  let ?ids = "filter (\<lambda>i. i \<in> fst ` set rows) (filter (\<lambda>i. i \<noteq> []) rids)"
  obtain s1 r1 where w: "with_store (delete_stored fl ?ids) s = (s1, r1)" by (cases "with_store (delete_stored fl ?ids) s")
  have ok: "store_ok (am_store s1)" using assms(2) delete_ok by (intro with_store_ok [OF w]) (auto simp: admission_inv_def)
  show ?thesis
    using assms ok memory_ok_drop with_store_frame [OF w] rows False
    by (cases r1) (auto simp: reconcile_order_reservations_def w Let_def admission_inv_def simp del: filter_filter)
qed (use assms in \<open>auto simp: reconcile_order_reservations_def Let_def split: option.splits if_splits\<close>)

lemma restore_ok:
  assumes "for_each restore_one rows m = Inr m'" and "memory_ok m"
  shows "memory_ok m'"
  using assms
proof (rule for_each_invariant)
  fix w m m'
  assume "memory_ok m" and "restore_one w m = Inr m'"
  then show "memory_ok m'"
    using reservation_order_id_canonical [of "Ack_scalar (PStr (er_broker_order_id w))"]
    by (auto simp: restore_one_def canonical_order_selector_def reservation_order_id_def sound_reservation_def
        intro!: memory_ok_put split: if_splits option.splits)
qed

lemma new_admission_inv:
  assumes "new_admission st = Inr s" and "store_ok st"
  shows "admission_inv s"
proof -
  have "memory_ok []" by (simp add: memory_ok_def rows_in_def)
  then show ?thesis using assms restore_ok
    by (auto simp: new_admission_def admission_inv_def leases_ok_def split: option.splits)
qed

lemma leases_ok_delete: "leases_ok ls \<Longrightarrow> leases_ok (AList.delete l ls)"
  by (auto simp: leases_ok_def list_all_iff distinct_delete AList.delete_eq distinct_map_filter)

text \<open>The state after a call is the state after its only operation.\<close>

lemma fst_no_value [simp]: "fst (no_value x) = fst x"
  by (cases x; cases "snd x") (auto simp: no_value_def)

lemma fst_bind_value [simp]: "fst (bind_out x (\<lambda>s v. (s, Inr (g v)))) = fst x"
  by (cases x; cases "snd x") auto

lemma fst_observe:
  "fst (observe fl positions orders sel s) =
     (case project_unresolved_reservations (reservation_snapshot sel s) positions orders of
        Inl e \<Rightarrow> s | Inr pr \<Rightarrow> fst (reconcile_order_reservations fl sel (snd pr) s))"
  by (simp add: observe_def split: sum.splits prod.splits)

lemma call_cases:
  assumes "exec_admission a s = (s', r)"
  obtains (unchanged) "am_memory s' = am_memory s" "am_store s' = am_store s"
  | (reserve) l fl rid now ord ps sel where "a = Reserve l fl rid now ord ps" "map_of (am_leases s) l = Some sel"
      "s' = fst (reserve_order_exposure fl rid now sel ord ps s)"
  | (acknowledge) l fl rid result sel where "a = Acknowledge l fl rid result" "map_of (am_leases s) l = Some sel"
      "s' = fst (acknowledge_order_reservation fl sel rid (reservation_order_id result) s)"
  | (reconcile) l fl rids sel where "map_of (am_leases s) l = Some sel" "s' = fst (reconcile_order_reservations fl sel rids s)"
      "a = Withdraw l fl rids \<or> (\<exists>positions orders projected. a = Observe l fl positions orders
         \<and> project_unresolved_reservations (reservation_snapshot sel s) positions orders = Inr (projected, rids))"
proof (cases a)
  case (Open_lease timeout sel l)
  with assms show ?thesis
    by (intro unchanged) (auto simp: no_value_def order_admission_def canonical_order_selector_def split: if_splits)
next
  case (Close_lease l)
  with assms show ?thesis by (intro unchanged) (auto simp: close_admission_def)
next
  case (Reserve l fl rid now ord ps)
  from assms [unfolded Reserve exec_admission.simps] show ?thesis
  proof (rule under_lease_cases)
    fix sel
    assume "map_of (am_leases s) l = Some sel"
      "bind_out (reserve_order_exposure fl rid now sel ord ps s) (\<lambda>s v. (s, Inr (Some v))) = (s', r)"
    then show ?thesis using fst_bind_value [of "reserve_order_exposure fl rid now sel ord ps s" Some] by (intro reserve [OF Reserve]) auto
  qed (intro unchanged, simp_all)
next
  case (Acknowledge l fl rid result)
  from assms [unfolded Acknowledge exec_admission.simps] show ?thesis
  proof (rule under_lease_cases)
    fix sel
    assume "map_of (am_leases s) l = Some sel" "no_value (acknowledge_order_reservation fl sel rid (reservation_order_id result) s) = (s', r)"
    then show ?thesis by (intro acknowledge [OF Acknowledge]) (auto dest: arg_cong [of _ _ fst])
  qed (intro unchanged, simp_all)
next
  case (Observe l fl positions orders)
  from assms [unfolded Observe exec_admission.simps] show ?thesis
  proof (rule under_lease_cases)
    fix sel
    assume l: "map_of (am_leases s) l = Some sel" and f: "observe fl positions orders sel s = (s', r)"
    show ?thesis
    proof (cases "project_unresolved_reservations (reservation_snapshot sel s) positions orders")
      case (Inr pr)
      then have "s' = fst (reconcile_order_reservations fl sel (snd pr) s)" using f fst_observe [of fl positions orders sel s] by simp
      then show ?thesis using Inr Observe by (intro reconcile [OF l]) (auto intro!: exI [of _ "fst pr"])
    qed (use f in \<open>intro unchanged, auto simp: observe_def\<close>)
  qed (intro unchanged, simp_all)
next
  case (Withdraw l fl rids)
  from assms [unfolded Withdraw exec_admission.simps] show ?thesis
  proof (rule under_lease_cases)
    fix sel
    assume "map_of (am_leases s) l = Some sel" "no_value (reconcile_order_reservations fl sel rids s) = (s', r)"
    then show ?thesis using Withdraw by (intro reconcile) (auto dest: arg_cong [of _ _ fst])
  qed (intro unchanged, simp_all)
qed

lemma leases_call:
  assumes "exec_admission a s = (s', r)" and "call_ok a s" and "leases_ok (am_leases s)"
  shows "leases_ok (am_leases s')"
proof -
  have other: "am_leases (fst (reserve_order_exposure fl rid now sel ord ps s)) = am_leases s"
    "am_leases (fst (acknowledge_order_reservation fl sel rid bid s)) = am_leases s"
    "am_leases (fst (reconcile_order_reservations fl sel rids s)) = am_leases s" for fl rid now sel ord ps bid rids
    by (auto simp: reserve_order_exposure_def acknowledge_order_reservation_def reconcile_order_reservations_def Let_def bind_out_def
        with_store_def split: option.splits sum.splits prod.splits)
  show ?thesis
  proof (cases a)
    case (Open_lease timeout sel l)
    then show ?thesis using assms
      by (auto simp: no_value_def order_admission_def canonical_order_selector_def leases_ok_def split: if_splits)
  next
    case (Close_lease l)
    then show ?thesis using assms leases_ok_delete by (auto simp: close_admission_def)
  next
    case (Observe l fl positions orders)
    then show ?thesis using assms other
      by (auto simp: under_lease_def require_open_def observe_def no_value_def split: option.splits sum.splits prod.splits dest!: arg_cong [of _ _ fst])
  qed (use assms other in \<open>auto simp: under_lease_def require_open_def split: option.splits dest!: arg_cong [of _ _ fst]\<close>)
qed

lemma admission_inv_call:
  assumes "exec_admission a s = (s', r)" and "call_ok a s" and "admission_inv s"
  shows "admission_inv s'"
proof -
  have lease: "exact_selector sel" if "map_of (am_leases s) l = Some sel" for l sel
    using assms(3) map_of_SomeD [OF that] by (auto simp: admission_inv_def leases_ok_def list_all_iff)
  from assms(1) show ?thesis
  proof (cases rule: call_cases)
    case unchanged
    then show ?thesis using assms leases_call by (simp add: admission_inv_def)
  next
    case (reserve l fl rid now ord ps sel)
    then show ?thesis using assms lease reserve_inv [OF surjective_pairing] by simp
  next
    case (acknowledge l fl rid result sel)
    then show ?thesis using assms acknowledge_inv [OF surjective_pairing] reservation_order_id_canonical by simp
  next
    case (reconcile l fl rids sel)
    then show ?thesis using assms reconcile_inv [OF surjective_pairing] by simp
  qed
qed

lemma admission_inv_step: "admission_step s a s' \<Longrightarrow> admission_inv s \<Longrightarrow> admission_inv s'"
  by (induction rule: admission_step.induct) (auto dest: admission_inv_call new_admission_inv simp: admission_inv_def)

lemma admission_inv_run: "admission_run s as s' \<Longrightarrow> admission_inv s \<Longrightarrow> admission_inv s'"
  by (induction rule: admission_run.induct) (blast dest: admission_inv_step)+

lemma durable_start_inv: "admission_inv durable_start"
  by (simp add: admission_inv_def durable_start_def memory_ok_def rows_in_def store_ok_def leases_ok_def)

text \<open>No id is in memory for two accounts.\<close>

definition unique_ids :: "reservation_memory \<Rightarrow> bool" where
  "unique_ids m \<longleftrightarrow> (\<forall>sel sel' rid w w'. (rid, w) \<in> set (rows_in m sel) \<longrightarrow> (rid, w') \<in> set (rows_in m sel') \<longrightarrow> sel = sel')"

lemma memory_idsI: "(rid, w) \<in> set (rows_in m sel) \<Longrightarrow> rid \<in> memory_ids m"
proof -
  assume w: "(rid, w) \<in> set (rows_in m sel)"
  then obtain rows where "map_of m sel = Some rows" "(rid, w) \<in> set rows" by (cases "map_of m sel") (auto simp: rows_in_def)
  then show ?thesis unfolding memory_ids_def by (intro UN_I [OF map_of_SomeD] image_eqI [of rid fst "(rid, w)"]) simp_all
qed

lemma unique_ids_put:
  assumes "unique_ids m" and "rid \<notin> memory_ids m \<or> (\<exists>w. (rid, w) \<in> set (rows_in m sel))"
  shows "unique_ids (memory_put sel rid v m)"
proof -
  define has where "has i sel' \<longleftrightarrow> (\<exists>w. (i, w) \<in> set (rows_in m sel'))" for i sel'
  have one: "has i a \<Longrightarrow> has i b \<Longrightarrow> a = b" for i a b using assms(1) unfolding unique_ids_def has_def by blast
  have rid: "has rid a \<Longrightarrow> a = sel" for a using assms(2) memory_idsI one unfolding has_def by blast
  have new: "i = rid \<and> a = sel \<or> has i a" if "(i, w) \<in> set (rows_in (memory_put sel rid v m) a)" for i w a
    using that unfolding has_def by (auto simp: rows_in_put dest!: set_update_cases split: if_splits)
  have "a = b" if "(i, w) \<in> set (rows_in (memory_put sel rid v m) a)" "(i, w') \<in> set (rows_in (memory_put sel rid v m) b)" for i w w' a b
    using new [OF that(1)] new [OF that(2)] rid one by auto
  then show ?thesis unfolding unique_ids_def by blast
qed

lemma unique_ids_drop: "unique_ids m \<Longrightarrow> unique_ids (memory_drop sel rids m)"
proof -
  assume "unique_ids m"
  moreover have "(rid, w) \<in> set (rows_in (memory_drop sel rids m) sel') \<Longrightarrow> (rid, w) \<in> set (rows_in m sel')" for rid w sel'
    by (auto simp: rows_in_drop split: if_splits)
  ultimately show ?thesis unfolding unique_ids_def by blast
qed

lemma memory_ids_put: "memory_ids (memory_put sel rid v m) \<subseteq> insert rid (memory_ids m)"
proof
  fix i
  assume "i \<in> memory_ids (memory_put sel rid v m)"
  then obtain sel' rows w where "(sel', rows) \<in> set (memory_put sel rid v m)" and w: "(i, w) \<in> set rows" by (auto simp: memory_ids_def)
  then have "rows = AList.update rid v (rows_in m sel) \<or> (sel', rows) \<in> set m"
    unfolding memory_put_def by (auto dest: set_update_cases)
  then show "i \<in> insert rid (memory_ids m)"
  proof
    assume "rows = AList.update rid v (rows_in m sel)"
    then show ?thesis using w memory_idsI [of i w m sel] by (auto dest: set_update_cases)
  qed (use w in \<open>force simp: memory_ids_def\<close>)
qed

lemma restore_memory:
  "restore_one w m = Inr m' \<Longrightarrow> m' = memory_put (er_selector w) (er_id w) w m"
  by (auto simp: restore_one_def canonical_order_selector_def split: if_splits)

lemma disjoint_subset1: "A \<subseteq> B \<Longrightarrow> B \<inter> C = {} \<Longrightarrow> A \<inter> C = {}"
  by blast

lemma restore_unique:
  assumes "for_each restore_one rows m = Inr m'" and "unique_ids m" and "distinct (map er_id rows)" and "memory_ids m \<inter> er_id ` set rows = {}"
  shows "unique_ids m'"
  using assms
proof (induction rows arbitrary: m)
  case (Cons w rows)
  then obtain m1 where m1: "restore_one w m = Inr m1" and rest: "for_each restore_one rows m1 = Inr m'" by auto
  note put = restore_memory [OF m1]
  have "unique_ids m1" unfolding put using Cons.prems(2,4) by (intro unique_ids_put) auto
  moreover have "memory_ids m1 \<inter> er_id ` set rows = {}"
  proof -
    have "er_id w \<notin> er_id ` set rows" using Cons.prems(3) by simp
    moreover have "memory_ids m \<inter> er_id ` set rows = {}" using Cons.prems(4) by auto
    ultimately have "insert (er_id w) (memory_ids m) \<inter> er_id ` set rows = {}" by simp
    with memory_ids_put [of "er_selector w" "er_id w" w m] show ?thesis unfolding put by (rule disjoint_subset1)
  qed
  ultimately show ?case using Cons.prems(3) by (intro Cons.IH [OF rest]) simp_all
qed simp

text \<open>What the operations do to the memory.\<close>

lemma reserve_memory:
  "am_memory (fst (reserve_order_exposure fl rid now sel ord ps s)) \<in> {am_memory s} \<union> range (\<lambda>v. memory_put sel rid v (am_memory s))"
proof (cases "reservation_position_quantity ord ps")
  case (Inr q)
  let ?v = "\<lparr>er_id = rid, er_selector = sel, er_order = ord, er_starting_quantity = q, er_broker_order_id = [], er_created_at = now\<rparr>"
  obtain s1 r1 where w: "with_store (insert_reservation fl ?v) s = (s1, r1)" by (cases "with_store (insert_reservation fl ?v) s")
  with with_store_frame [OF w] Inr show ?thesis by (cases r1) (auto simp: reserve_order_exposure_def Let_def)
qed (simp add: reserve_order_exposure_def)

lemma acknowledge_memory:
  "am_memory (fst (acknowledge_order_reservation fl sel rid bid s)) = am_memory s
   \<or> (\<exists>v. map_of (rows_in (am_memory s) sel) rid = Some v
        \<and> am_memory (fst (acknowledge_order_reservation fl sel rid bid s)) = memory_put sel rid (v\<lparr>er_broker_order_id := bid\<rparr>) (am_memory s))"
proof (cases "map_of (rows_in (am_memory s) sel) rid")
  case (Some v)
  obtain s1 r1 where w: "with_store (acknowledge_stored fl rid bid) s = (s1, r1)" by (cases "with_store (acknowledge_stored fl rid bid) s")
  with with_store_frame [OF w] Some show ?thesis by (cases r1) (auto simp: acknowledge_order_reservation_def)
qed (simp add: acknowledge_order_reservation_def)

lemma reconcile_memory:
  "am_memory (fst (reconcile_order_reservations fl sel rids s)) \<in> {am_memory s, memory_drop sel (filter (\<lambda>i. i \<noteq> []) rids) (am_memory s)}"
proof (cases "map_of (am_memory s) sel")
  case (Some rows)
  let ?ids = "filter (\<lambda>i. i \<in> fst ` set rows) (filter (\<lambda>i. i \<noteq> []) rids)"
  obtain s1 r1 where w: "with_store (delete_stored fl ?ids) s = (s1, r1)" by (cases "with_store (delete_stored fl ?ids) s")
  with with_store_frame [OF w] Some show ?thesis
    by (cases r1) (auto simp: reconcile_order_reservations_def Let_def simp del: filter_filter)
qed (simp add: reconcile_order_reservations_def Let_def)

lemma unique_ids_call:
  assumes "exec_admission a s = (s', r)" and "call_ok a s" and "unique_ids (am_memory s)"
  shows "unique_ids (am_memory s')"
  using assms(1)
proof (cases rule: call_cases)
  case (reserve l fl rid now ord ps sel)
  then have "unique_ids (memory_put sel rid v (am_memory s))" for v
    using assms(2) by (intro unique_ids_put [OF assms(3)]) simp
  then show ?thesis using reserve_memory [of fl rid now sel ord ps s] assms(3) reserve by auto
next
  case (acknowledge l fl rid result sel)
  have "unique_ids (memory_put sel rid v (am_memory s))" if "map_of (rows_in (am_memory s) sel) rid = Some w" for v w
    using map_of_SomeD [OF that] by (intro unique_ids_put [OF assms(3)]) blast
  then show ?thesis using acknowledge_memory [of fl sel rid "reservation_order_id result" s] assms(3) acknowledge by auto
next
  case (reconcile l fl rids sel)
  then show ?thesis using reconcile_memory [of fl sel rids s] unique_ids_drop [OF assms(3)] assms(3) by auto
qed (use assms in simp)

subsection \<open>Reserved exposure survives until it is released\<close>

definition same_exposure :: "exposure_reservation \<Rightarrow> exposure_reservation \<Rightarrow> bool" where
  "same_exposure v w \<longleftrightarrow> er_id v = er_id w \<and> er_selector v = er_selector w \<and> order_payload (er_order v) = order_payload (er_order w)
     \<and> er_starting_quantity v = er_starting_quantity w \<and> er_created_at v = er_created_at w"

definition in_memory :: "exposure_reservation \<Rightarrow> admission \<Rightarrow> bool" where
  "in_memory v s \<longleftrightarrow> (\<exists>w. (er_id v, w) \<in> set (rows_in (am_memory s) (er_selector v)) \<and> same_exposure v w)"

definition in_store :: "exposure_reservation \<Rightarrow> admission \<Rightarrow> bool" where
  "in_store v s \<longleftrightarrow> (\<exists>db w. am_store s = Some db \<and> w \<in> set db \<and> same_exposure v w)"

fun released :: "admission_label \<Rightarrow> exposure_reservation \<Rightarrow> bool" where
  "released (Called (Observe l fl positions orders) r) v = (\<exists>w. same_exposure v w \<and> proven positions orders w)"
| "released (Called (Withdraw l fl rids) r) v = (er_id v \<in> set rids)"
| "released a v = False"

lemma order_payload_idem [simp]: "order_payload (order_payload b) = order_payload b"
  by (cases b) simp_all

lemma same_exposure_simps [simp]:
  "same_exposure v v" "same_exposure v (w\<lparr>er_broker_order_id := b\<rparr>) = same_exposure v w"
  "same_exposure v (w\<lparr>er_order := order_payload (er_order w)\<rparr>) = same_exposure v w"
  by (simp_all add: same_exposure_def)

lemma same_exposure_id: "same_exposure v w \<Longrightarrow> er_id w = er_id v"
  by (simp add: same_exposure_def)

lemma in_rows_update:
  "(k', w) \<in> set d \<Longrightarrow> k' \<noteq> k \<Longrightarrow> (k', w) \<in> set (AList.update k v d)"
  by (induction d) auto

lemma in_rows_updated: "(k, v) \<in> set (AList.update k v d)"
  by (induction d) auto

lemma insert_keeps:
  "set db \<subseteq> set (fst (insert_reservation fl v db))"
  "snd (insert_reservation fl v db) = Inr () \<Longrightarrow> er_id v \<notin> er_id ` set db \<and> v\<lparr>er_order := order_payload (er_order v)\<rparr> \<in> set (fst (insert_reservation fl v db))"
  by (auto simp: insert_reservation_def insert_body_def atomically_def split: storage.splits)

lemma acknowledge_keeps:
  "w \<in> set db \<Longrightarrow> \<exists>w'. w' \<in> set (fst (acknowledge_stored fl rid bid db)) \<and> (\<exists>b. w' = w\<lparr>er_broker_order_id := b\<rparr>)"
proof -
  assume w: "w \<in> set db"
  have "fst (acknowledge_stored fl rid bid db) = db
      \<or> fst (acknowledge_stored fl rid bid db) = map (\<lambda>w. if er_id w = rid then w\<lparr>er_broker_order_id := bid\<rparr> else w) db"
    using atomically_state [of ReservationStorageError fl "acknowledge_body rid bid" db]
    by (auto simp: acknowledge_stored_def acknowledge_body_def split: if_splits)
  then show ?thesis
  proof
    assume "fst (acknowledge_stored fl rid bid db) = db"
    with w show ?thesis by (intro exI [of _ w] conjI exI [of _ "er_broker_order_id w"]) simp_all
  next
    let ?f = "\<lambda>w. if er_id w = rid then w\<lparr>er_broker_order_id := bid\<rparr> else w"
    assume "fst (acknowledge_stored fl rid bid db) = map ?f db"
    moreover have "?f w = w\<lparr>er_broker_order_id := (if er_id w = rid then bid else er_broker_order_id w)\<rparr>" by simp
    ultimately have "?f w \<in> set (fst (acknowledge_stored fl rid bid db))" "\<exists>b. ?f w = w\<lparr>er_broker_order_id := b\<rparr>"
      using w by (simp, blast)
    then show ?thesis by blast
  qed
qed

lemma delete_keeps:
  "w \<in> set db \<Longrightarrow> er_id w \<notin> set rids \<Longrightarrow> w \<in> set (fst (delete_stored fl rids db))"
  using atomically_state [of ReservationStorageError fl "\<lambda>db. (filter (\<lambda>w. er_id w \<notin> set rids) db, Inr ())" db]
  by (auto simp: delete_stored_def)

lemma in_store_frame:
  assumes "with_store f s = (s', r)" and "in_store v s"
    and "\<And>db w. am_store s = Some db \<Longrightarrow> w \<in> set db \<Longrightarrow> same_exposure v w \<Longrightarrow> \<exists>w'. w' \<in> set (fst (f db)) \<and> same_exposure v w'"
  shows "in_store v s'"
proof -
  from assms(2) obtain db w where db: "am_store s = Some db" "w \<in> set db" "same_exposure v w" by (auto simp: in_store_def)
  from assms(3) [OF this] with_store_db [OF assms(1) db(1)] show ?thesis by (auto simp: in_store_def)
qed

lemma reserve_keeps:
  assumes "in_memory v s" "in_store v s"
  shows "in_memory v (fst (reserve_order_exposure fl rid now sel ord ps s)) \<and> in_store v (fst (reserve_order_exposure fl rid now sel ord ps s))"
proof (cases "reservation_position_quantity ord ps")
  case (Inr q)
  let ?v = "\<lparr>er_id = rid, er_selector = sel, er_order = ord, er_starting_quantity = q, er_broker_order_id = [], er_created_at = now\<rparr>"
  obtain s1 r1 where w: "with_store (insert_reservation fl ?v) s = (s1, r1)" by (cases "with_store (insert_reservation fl ?v) s")
  have store: "in_store v s1" using insert_keeps(1) by (intro in_store_frame [OF w assms(2)]) blast
  show ?thesis
  proof (cases r1)
    case (Inl e)
    then show ?thesis using Inr w store assms(1) with_store_frame [OF w] by (simp add: reserve_order_exposure_def in_memory_def)
  next
    case ok: (Inr u)
    from assms(2) obtain db x where db: "am_store s = Some db" "x \<in> set db" "same_exposure v x" by (auto simp: in_store_def)
    have "snd (insert_reservation fl ?v db) = Inr ()" using with_store_db [OF w db(1)] ok by simp
    from insert_keeps(2) [OF this] db have "rid \<noteq> er_id v" by (auto simp: same_exposure_def)
    then have "in_memory v (s1\<lparr>am_memory := memory_put sel rid ?v (am_memory s1)\<rparr>)"
      using assms(1) with_store_frame [OF w] by (auto simp: in_memory_def rows_in_put intro: in_rows_update)
    moreover have "in_store v (s1\<lparr>am_memory := memory_put sel rid ?v (am_memory s1)\<rparr>)" using store by (simp add: in_store_def)
    ultimately show ?thesis using Inr w ok by (simp add: reserve_order_exposure_def Let_def)
  qed
qed (use assms in \<open>simp add: reserve_order_exposure_def\<close>)

lemma acknowledge_keeps_both:
  assumes "in_memory v s" "in_store v s" "memory_ok (am_memory s)"
  shows "in_memory v (fst (acknowledge_order_reservation fl sel rid bid s)) \<and> in_store v (fst (acknowledge_order_reservation fl sel rid bid s))"
proof (cases "bid = [] \<or> map_of (rows_in (am_memory s) sel) rid = None")
  case False
  then obtain x where x: "map_of (rows_in (am_memory s) sel) rid = Some x" "bid \<noteq> []" by auto
  obtain s1 r1 where w: "with_store (acknowledge_stored fl rid bid) s = (s1, r1)" by (cases "with_store (acknowledge_stored fl rid bid) s")
  have store: "in_store v s1" using acknowledge_keeps same_exposure_simps(2) by (intro in_store_frame [OF w assms(2)]) metis
  from assms(1) obtain y where y: "(er_id v, y) \<in> set (rows_in (am_memory s) (er_selector v))" "same_exposure v y" by (auto simp: in_memory_def)
  have "in_memory v (s1\<lparr>am_memory := memory_put sel rid (x\<lparr>er_broker_order_id := bid\<rparr>) (am_memory s1)\<rparr>)"
  proof (cases "sel = er_selector v \<and> rid = er_id v")
    case True
    then have "x = y" using x(1) y(1) memory_ok_distinct [OF assms(3)] by (simp add: map_of_eq_Some_iff)
    then show ?thesis using True y in_rows_updated with_store_frame [OF w] by (fastforce simp: in_memory_def rows_in_put)
  next
    case False
    then show ?thesis using y with_store_frame [OF w] by (auto simp: in_memory_def rows_in_put intro: in_rows_update)
  qed
  moreover have "in_store v (s1\<lparr>am_memory := memory_put sel rid (x\<lparr>er_broker_order_id := bid\<rparr>) (am_memory s1)\<rparr>)" using store by (simp add: in_store_def)
  moreover have "in_memory v s1" using assms(1) with_store_frame [OF w] by (simp add: in_memory_def)
  ultimately show ?thesis using x w store by (cases r1) (simp_all add: acknowledge_order_reservation_def)
qed (use assms in \<open>auto simp: acknowledge_order_reservation_def split: option.splits\<close>)

lemma reconcile_keeps:
  assumes "in_memory v s" "in_store v s" "unique_ids (am_memory s)" and "sel \<noteq> er_selector v \<or> er_id v \<notin> set rids"
  shows "in_memory v (fst (reconcile_order_reservations fl sel rids s)) \<and> in_store v (fst (reconcile_order_reservations fl sel rids s))"
proof (cases "filter (\<lambda>i. i \<noteq> []) rids = [] \<or> map_of (am_memory s) sel = None")
  case False
  then obtain rows where rows: "map_of (am_memory s) sel = Some rows" by auto
  let ?ids = "filter (\<lambda>i. i \<in> fst ` set rows) (filter (\<lambda>i. i \<noteq> []) rids)"
  from assms(1) obtain y where y: "(er_id v, y) \<in> set (rows_in (am_memory s) (er_selector v))" "same_exposure v y" by (auto simp: in_memory_def)
  have "rows_in (am_memory s) sel = rows" using rows by (simp add: rows_in_def)
  then have "er_id v \<notin> set ?ids" 
  proof -
    have "sel = er_selector v" if "er_id v \<in> fst ` set rows"
      using that assms(3) y(1) \<open>rows_in (am_memory s) sel = rows\<close> unfolding unique_ids_def by (metis imageE prod.collapse)
    with assms(4) show ?thesis by auto
  qed
  then have keep: "w \<in> set (fst (delete_stored fl ?ids db))" if "w \<in> set db" "same_exposure v w" for w db
    using delete_keeps [OF that(1)] same_exposure_id [OF that(2)] by metis
  obtain s1 r1 where w: "with_store (delete_stored fl ?ids) s = (s1, r1)" by (cases "with_store (delete_stored fl ?ids) s")
  have store: "in_store v s1" by (rule in_store_frame [OF w assms(2)]) (use keep in blast)
  have "in_memory v (s1\<lparr>am_memory := memory_drop sel (filter (\<lambda>i. i \<noteq> []) rids) (am_memory s1)\<rparr>)"
    using assms(4) y with_store_frame [OF w] by (auto simp: in_memory_def rows_in_drop)
  moreover have "in_memory v s1" using assms(1) with_store_frame [OF w] by (simp add: in_memory_def)
  moreover have "in_store v (s1\<lparr>am_memory := memory_drop sel (filter (\<lambda>i. i \<noteq> []) rids) (am_memory s1)\<rparr>)" using store by (simp add: in_store_def)
  ultimately show ?thesis using rows w store False
    by (cases r1) (simp_all add: reconcile_order_reservations_def Let_def del: filter_filter)
qed (use assms in \<open>auto simp: reconcile_order_reservations_def Let_def split: option.splits\<close>)

text \<open>After a restart the memory holds what the store held.\<close>

lemma restored_rows:
  assumes "for_each restore_one rows m = Inr m'" and "distinct (map er_id rows)"
  shows "w \<in> set rows \<Longrightarrow> (er_id w, w) \<in> set (rows_in m' (er_selector w))"
    and "(rid, x) \<in> set (rows_in m sel) \<Longrightarrow> rid \<notin> er_id ` set rows \<Longrightarrow> (rid, x) \<in> set (rows_in m' sel)"
proof -
  have "(w \<in> set rows \<longrightarrow> (er_id w, w) \<in> set (rows_in m' (er_selector w)))
     \<and> ((rid, x) \<in> set (rows_in m sel) \<longrightarrow> rid \<notin> er_id ` set rows \<longrightarrow> (rid, x) \<in> set (rows_in m' sel))" for w rid x sel
    using assms
  proof (induction rows arbitrary: m w rid x sel)
    case (Cons y rows)
    then obtain m1 where m1: "restore_one y m = Inr m1" and rest: "for_each restore_one rows m1 = Inr m'" by auto
    note put = restore_memory [OF m1]
    have new: "(er_id y, y) \<in> set (rows_in m1 (er_selector y))" by (simp add: put rows_in_put in_rows_updated)
    have old: "(rid, x) \<in> set (rows_in m sel) \<Longrightarrow> rid \<noteq> er_id y \<Longrightarrow> (rid, x) \<in> set (rows_in m1 sel)" for rid x sel
      using in_rows_update by (auto simp: put rows_in_put)
    have "er_id y \<notin> er_id ` set rows" using Cons.prems(2) by simp
    with new old Cons.IH [OF rest] Cons.prems(2) show ?case by (cases "w = y") auto
  qed simp
  then show "w \<in> set rows \<Longrightarrow> (er_id w, w) \<in> set (rows_in m' (er_selector w))"
    and "(rid, x) \<in> set (rows_in m sel) \<Longrightarrow> rid \<notin> er_id ` set rows \<Longrightarrow> (rid, x) \<in> set (rows_in m' sel)"
    by blast+
qed

lemma set_insert_by: "set (insert_by before x ys) = insert x (set ys)"
  by (induction ys) auto

lemma distinct_insert_by: "distinct (map f (insert_by before x ys)) \<longleftrightarrow> f x \<notin> f ` set ys \<and> distinct (map f ys)"
  by (induction ys) (auto simp: set_insert_by)

lemma distinct_sort_by: "distinct (map f (sort_by before xs)) \<longleftrightarrow> distinct (map f xs)"
proof (induction xs)
  case (Cons x xs)
  have "sort_by before (x # xs) = insert_by before x (sort_by before xs)" by (simp add: sort_by_def)
  with Cons show ?case by (simp add: distinct_insert_by)
qed (simp add: sort_by_def)

lemma load_stored_rows: "load_stored db = Inr rows \<Longrightarrow> set rows = set db \<and> (distinct (map er_id rows) \<longleftrightarrow> distinct (map er_id db))"
  by (auto simp: load_stored_def Let_def distinct_sort_by split: if_splits)

lemma restart_rows:
  assumes "new_admission (am_store s) = Inr s'" and "am_store s = Some db"
  obtains rows where "for_each restore_one rows [] = Inr (am_memory s')" and "set rows = set db" and "distinct (map er_id rows) \<longleftrightarrow> distinct (map er_id db)" and "am_store s' = am_store s" and "am_leases s' = []"
  using assms by (auto simp: new_admission_def dest!: load_stored_rows)

lemma restart_keeps:
  assumes "new_admission (am_store s) = Inr s'" and "in_store v s" and "store_ok (am_store s)"
  shows "in_memory v s' \<and> in_store v s' \<and> unique_ids (am_memory s')"
proof -
  from assms(2) obtain db w where db: "am_store s = Some db" "w \<in> set db" "same_exposure v w" by (auto simp: in_store_def)
  obtain rows where rows: "for_each restore_one rows [] = Inr (am_memory s')" "set rows = set db" "distinct (map er_id rows) \<longleftrightarrow> distinct (map er_id db)"
    "am_store s' = am_store s"
    using assms(1) db(1) by (rule restart_rows)
  have "distinct (map er_id rows)" using assms(3) db(1) rows(3) by (simp add: store_ok_def)
  note r = restored_rows(1) [OF rows(1) this, of w] and u = restore_unique [OF rows(1) _ this]
  have "w \<in> set rows" using db(2) rows(2) by simp
  then have "in_memory v s'" using r db(3) by (auto simp: in_memory_def same_exposure_def)
  moreover have "in_store v s'" using db rows(4) by (auto simp: in_store_def)
  moreover have "unique_ids (am_memory s')" by (rule u) (simp_all add: unique_ids_def rows_in_def memory_ids_def)
  ultimately show ?thesis by simp
qed

lemma token_id_strip: "token_id i \<Longrightarrow> py_strip i = i"
proof (rule py_strip_no_space)
  fix c
  have "list_all (\<lambda>c. \<not> is_space c) ''0123456789abcdef''" by code_simp
  moreover assume "token_id i" and "c \<in> set i"
  ultimately show "\<not> is_space c" unfolding token_id_def list_all_iff by blast
qed

definition good_admission :: "admission \<Rightarrow> bool" where
  "good_admission s \<longleftrightarrow> admission_inv s \<and> unique_ids (am_memory s)"

lemma good_admission_step:
  assumes "admission_step s a s'" and "good_admission s"
  shows "good_admission s'"
proof -
  have "unique_ids (am_memory s')"
    using assms(1)
  proof (cases rule: admission_step.cases)
    case restarted
    show ?thesis
    proof (cases "am_store s")
      case None
      with restarted show ?thesis by (auto simp: new_admission_def unique_ids_def rows_in_def)
    next
      case (Some db)
      obtain rows where rows: "for_each restore_one rows [] = Inr (am_memory s')" "distinct (map er_id rows) \<longleftrightarrow> distinct (map er_id db)"
        using restarted(2) Some by (rule restart_rows)
      have "distinct (map er_id rows)" using assms(2) Some rows(2) by (simp add: good_admission_def admission_inv_def store_ok_def)
      then show ?thesis by (intro restore_unique [OF rows(1)]) (simp_all add: unique_ids_def rows_in_def memory_ids_def)
    qed
  next
    case (called b r)
    then show ?thesis using assms(2) unique_ids_call by (auto simp: good_admission_def)
  qed
  then show ?thesis using admission_inv_step [OF assms(1)] assms(2) by (simp add: good_admission_def)
qed

lemma observed_release:
  assumes "project_unresolved_reservations (reservation_snapshot (er_selector v) s) positions orders = Inr (projected, reconciled)"
    and "er_id v \<in> set reconciled" and "good_admission s" and "in_memory v s"
  shows "\<exists>w. same_exposure v w \<and> proven positions orders w"
proof -
  have mem: "memory_ok (am_memory s)" using assms(3) by (simp add: good_admission_def admission_inv_def)
  from reconciled_is_proven [OF assms(1,2)] obtain rid w where w: "(rid, w) \<in> set (rows_in (am_memory s) (er_selector v))"
    "py_strip (er_id w) = er_id v" "proven positions orders w"
    by (auto simp: reservation_snapshot_def)
  have "er_id w = rid" "token_id rid" using memory_okD [OF mem w(1)] by (auto simp: sound_reservation_def)
  then have "rid = er_id v" using w(2) token_id_strip by simp
  moreover obtain y where y: "(er_id v, y) \<in> set (rows_in (am_memory s) (er_selector v))" "same_exposure v y" using assms(4) by (auto simp: in_memory_def)
  ultimately have "w = y" using w(1) memory_ok_distinct [OF mem] eq_key_imp_eq_value by metis
  with w(3) y(2) show ?thesis by blast
qed

lemma kept_call:
  assumes "exec_admission a s = (s', r)" and "good_admission s" and "in_memory v s \<and> in_store v s" and "\<not> released (Called a r) v"
  shows "in_memory v s' \<and> in_store v s'"
  using assms(1)
proof (cases rule: call_cases)
  case unchanged
  then show ?thesis using assms(3) by (simp add: in_memory_def in_store_def)
next
  case (reserve l fl rid now ord ps sel)
  then show ?thesis using assms(3) reserve_keeps by simp
next
  case (acknowledge l fl rid result sel)
  then show ?thesis using assms(2,3) acknowledge_keeps_both by (simp add: good_admission_def admission_inv_def)
next
  case (reconcile l fl rids sel)
  have "sel \<noteq> er_selector v \<or> er_id v \<notin> set rids"
    using reconcile(3) assms(2-4) observed_release by fastforce
  then show ?thesis using reconcile(2) assms(2,3) reconcile_keeps by (simp add: good_admission_def)
qed

lemma kept_step:
  assumes "admission_step s a s'" and "good_admission s" and "in_memory v s \<and> in_store v s" and "\<not> released a v"
  shows "in_memory v s' \<and> in_store v s'"
  using assms(1)
proof (cases rule: admission_step.cases)
  case restarted
  then show ?thesis using assms restart_keeps by (auto simp: good_admission_def admission_inv_def)
qed (use assms kept_call in auto)

lemma kept_run:
  "admission_run s as s' \<Longrightarrow> good_admission s \<Longrightarrow> in_memory v s \<and> in_store v s \<Longrightarrow> \<not> list_ex (\<lambda>a. released a v) as \<Longrightarrow> in_memory v s'"
proof (induction rule: admission_run.induct)
  case (go s a s' as s'')
  then have "good_admission s'" "in_memory v s' \<and> in_store v s'" using good_admission_step kept_step by (blast, simp)
  with go show ?case by simp
qed simp

lemma reserved_is_kept:
  assumes "exec_admission (Reserve l fl rid now ord ps) s = (s', Inr (Some v))" and "am_store s \<noteq> None"
  shows "in_memory v s' \<and> in_store v s'"
proof -
  from assms(2) obtain db where db: "am_store s = Some db" by auto
  from assms(1) obtain sel where e: "reserve_order_exposure fl rid now sel ord ps s = (s', Inr v)"
    by (auto simp: under_lease_def require_open_def bind_out_def split: option.splits prod.splits sum.splits)
  obtain q where q: "reservation_position_quantity ord ps = Inr q" using e by (cases "reservation_position_quantity ord ps") (auto simp: reserve_order_exposure_def)
  let ?v = "\<lparr>er_id = rid, er_selector = sel, er_order = ord, er_starting_quantity = q, er_broker_order_id = [], er_created_at = now\<rparr>"
  obtain s1 r1 where w: "with_store (insert_reservation fl ?v) s = (s1, r1)" by (cases "with_store (insert_reservation fl ?v) s")
  have r1: "r1 = Inr ()" and v: "v = ?v" "s' = s1\<lparr>am_memory := memory_put sel rid ?v (am_memory s1)\<rparr>"
    using e q w by (cases r1; auto simp: reserve_order_exposure_def Let_def)+
  have "am_store s1 = Some (fst (insert_reservation fl ?v db))" "?v\<lparr>er_order := order_payload (er_order ?v)\<rparr> \<in> set (fst (insert_reservation fl ?v db))"
    using with_store_db [OF w db] insert_keeps(2) [of fl ?v db] r1 by simp_all
  moreover have "same_exposure ?v (?v\<lparr>er_order := order_payload (er_order ?v)\<rparr>)" by (simp only: same_exposure_simps)
  moreover have "am_store s' = am_store s1" by (simp add: v(2))
  ultimately have "in_store ?v s'" unfolding in_store_def by (simp only:) blast
  moreover have "(rid, ?v) \<in> set (rows_in (am_memory s') sel)" by (simp add: v(2) rows_in_put in_rows_updated)
  then have "in_memory ?v s'" unfolding in_memory_def by (intro exI [of _ ?v]) simp
  ultimately show ?thesis by (simp only: v(1))
qed

lemma with_store_present: "with_store f s = (s', r) \<Longrightarrow> am_store s \<noteq> None \<Longrightarrow> am_store s' \<noteq> None"
  by (auto simp: with_store_def split: option.splits prod.splits)

lemma bind_store_present:
  "am_store s \<noteq> None \<Longrightarrow> am_store (fst (bind_out (with_store f s) (\<lambda>s u. (s\<lparr>am_memory := g (am_memory s)\<rparr>, Inr (h u))))) \<noteq> None"
  using with_store_present [of f s] by (cases "with_store f s"; cases "snd (with_store f s)") auto

lemma ops_store_present:
  assumes "am_store s \<noteq> None"
  shows "am_store (fst (reserve_order_exposure fl rid now sel ord ps s)) \<noteq> None"
    and "am_store (fst (acknowledge_order_reservation fl sel rid bid s)) \<noteq> None"
    and "am_store (fst (reconcile_order_reservations fl sel rids s)) \<noteq> None"
  using assms by (auto simp: reserve_order_exposure_def acknowledge_order_reservation_def reconcile_order_reservations_def Let_def bind_out_def [of "(s, x)" for x]
      intro!: bind_store_present [simplified] split: option.splits sum.splits)

lemma step_store:
  assumes "admission_step s a s'" and "am_store s \<noteq> None"
  shows "am_store s' \<noteq> None"
  using assms(1)
proof (cases rule: admission_step.cases)
  case (called b r)
  from called(3) show ?thesis
    by (cases rule: call_cases) (use ops_store_present [OF assms(2)] assms(2) in auto)
qed (use assms in \<open>auto simp: new_admission_def\<close>)

lemma run_good:
  assumes "admission_run durable_start as s"
  shows "good_admission s" and "am_store s \<noteq> None"
proof -
  have "admission_run s0 as s \<Longrightarrow> good_admission s0 \<and> am_store s0 \<noteq> None \<Longrightarrow> good_admission s \<and> am_store s \<noteq> None" for s0
    by (induction rule: admission_run.induct) (use good_admission_step step_store in blast)+
  from this [OF assms] show "good_admission s" and "am_store s \<noteq> None"
    using durable_start_inv by (simp_all add: good_admission_def unique_ids_def rows_in_def durable_start_def)
qed


fun op_lease :: "admission_op \<Rightarrow> nat option" where
  "op_lease (Open_lease timeout sel l) = None"
| "op_lease (Close_lease l) = Some l"
| "op_lease (Reserve l fl rid now ord ps) = Some l"
| "op_lease (Acknowledge l fl rid result) = Some l"
| "op_lease (Observe l fl positions orders) = Some l"
| "op_lease (Withdraw l fl rids) = Some l"

lemma lease_frame:
  assumes "exec_admission a s = (s', r)" and "map_of (am_leases s) l = Some sel" and "op_lease a \<noteq> Some l" and "leases_ok (am_leases s)"
  shows "rows_in (am_memory s') sel = rows_in (am_memory s) sel"
proof -
  have other: "sel' \<noteq> sel" if "map_of (am_leases s) l' = Some sel'" "l' \<noteq> l" for l' sel'
  proof
    assume "sel' = sel"
    with that assms(2) have "(l', sel) \<in> set (am_leases s)" "(l, sel) \<in> set (am_leases s)" by (auto dest: map_of_SomeD)
    then show False using assms(4) that(2) inj_onD [of snd "set (am_leases s)" "(l', sel)" "(l, sel)"] by (simp add: leases_ok_def distinct_map)
  qed
  from assms(1) show ?thesis
  proof (cases rule: call_cases)
    case (reserve l' fl rid now ord ps sel')
    then show ?thesis using other [OF reserve(2)] assms(3) reserve_memory [of fl rid now sel' ord ps s] by (auto simp: rows_in_put)
  next
    case (acknowledge l' fl rid result sel')
    then show ?thesis using other [OF acknowledge(2)] assms(3) acknowledge_memory [of fl sel' rid "reservation_order_id result" s]
      by (auto simp: rows_in_put)
  next
    case (reconcile l' fl rids sel')
    then have "l' \<noteq> l" using assms(3) by auto
    with reconcile other [OF reconcile(1)] reconcile_memory [of fl sel' rids s] show ?thesis by (auto simp: rows_in_drop)
  qed simp
qed

text \<open>C8. Nobody but the holder of a lease changes the reservations of its account while it is open.\<close>

theorem lease_is_exclusive:
  assumes "admission_run durable_start as s" and "map_of (am_leases s) l = Some sel" and "admission_step s (Called a r) s'" and "op_lease a \<noteq> Some l"
  shows "reservation_snapshot sel s' = reservation_snapshot sel s"
proof -
  have "leases_ok (am_leases s)" using run_good(1) [OF assms(1)] by (simp add: good_admission_def admission_inv_def)
  with assms show ?thesis by (auto elim!: called_cases simp: reservation_snapshot_def lease_frame)
qed

subsection \<open>Restarting\<close>

lemma restore_accepts:
  assumes "list_all sound_reservation rows"
  shows "\<exists>m'. for_each restore_one rows m = Inr m'"
  using assms
proof (induction rows arbitrary: m)
  case (Cons w rows)
  then have "restore_one w m = Inr (memory_put (er_selector w) (er_id w) w m)"
    by (auto simp: restore_one_def sound_reservation_def canonical_order_selector_def reservation_order_id_def)
  with Cons show ?case by simp
qed simp


subsection \<open>A run\<close>

text \<open>An order is reserved and acknowledged, the storage fails after its commit, and the program restarts.\<close>

definition sample_token :: string where
  "sample_token = ''0123456789abcdef0123456789abcdef''"

definition sample_live_order :: book_row where
  "sample_live_order = Obj [(''symbol'', PStr ''NIFTY''), (''exchange'', PStr ''NFO''), (''product'', PStr ''MIS''), (''action'', PStr ''BUY''), (''quantity'', PStr ''50'')]"

definition sample_opened :: admission where
  "sample_opened = fst (exec_admission (Open_lease (Fin 30) ''dhan:1'' 0) durable_start)"

definition sample_reserve :: admission_op where
  "sample_reserve = Reserve 0 Works sample_token ''2026-01-05T10:00:00'' sample_live_order sample_positions"

definition sample_reserved :: exposure_reservation where
  "sample_reserved = \<lparr>er_id = sample_token, er_selector = ''dhan:1'', er_order = sample_live_order, er_starting_quantity = Fin 100,
     er_broker_order_id = [], er_created_at = ''2026-01-05T10:00:00''\<rparr>"

definition sample_held :: admission where
  "sample_held = fst (exec_admission sample_reserve sample_opened)"

definition sample_ack :: admission_op where
  "sample_ack = Acknowledge 0 Fails_after sample_token (Ack_scalar (PStr ''B1''))"

definition sample_acked :: admission where
  "sample_acked = fst (exec_admission sample_ack sample_held)"

definition sample_restarted :: admission where
  "sample_restarted = (case new_admission (am_store sample_acked) of Inr s \<Rightarrow> s | Inl _ \<Rightarrow> durable_start)"

lemma called_here: "call_ok a s \<Longrightarrow> admission_step s (Called a (snd (exec_admission a s))) (fst (exec_admission a s))"
  by (rule admission_step.called) simp_all

lemma sample_opening:
  "admission_run durable_start [Called (Open_lease (Fin 30) ''dhan:1'' 0) (snd (exec_admission (Open_lease (Fin 30) ''dhan:1'' 0) durable_start))] sample_opened"
  unfolding sample_opened_def by (rule admission_run.go [OF called_here admission_run.stay]) code_simp

lemma sample_reserving: "admission_step sample_opened (Called sample_reserve (Inr (Some sample_reserved))) sample_held"
proof -
  have "snd (exec_admission sample_reserve sample_opened) = Inr (Some sample_reserved)" by code_simp
  moreover have "am_memory sample_opened = []" by code_simp
  then have "call_ok sample_reserve sample_opened"
    unfolding sample_reserve_def by (simp add: memory_ids_def rows_in_def) (code_simp)
  then have "admission_step sample_opened (Called sample_reserve (snd (exec_admission sample_reserve sample_opened))) sample_held"
    unfolding sample_held_def by (rule called_here)
  ultimately show ?thesis by simp
qed

lemma sample_restarting:
  "admission_run sample_held [Called sample_ack (snd (exec_admission sample_ack sample_held)), Restarted] sample_restarted"
proof (rule admission_run.go)
  show "admission_step sample_held (Called sample_ack (snd (exec_admission sample_ack sample_held))) sample_acked"
    unfolding sample_acked_def by (rule called_here) (simp add: sample_ack_def)
  have "new_admission (am_store sample_acked) = Inr sample_restarted" by code_simp
  then show "admission_run sample_acked [Restarted] sample_restarted"
    by (intro admission_run.go [OF _ admission_run.stay] admission_step.restarted)
qed


theorem lease_is_exclusive_witness:
  "reservation_snapshot ''dhan:1'' (fst (exec_admission (Open_lease (Fin 30) ''zerodha:2'' 1) sample_opened)) = reservation_snapshot ''dhan:1'' sample_opened"
proof (rule lease_is_exclusive [OF sample_opening])
  show "map_of (am_leases sample_opened) 0 = Some ''dhan:1''" by code_simp
  show "admission_step sample_opened (Called (Open_lease (Fin 30) ''zerodha:2'' 1) (snd (exec_admission (Open_lease (Fin 30) ''zerodha:2'' 1) sample_opened)))
      (fst (exec_admission (Open_lease (Fin 30) ''zerodha:2'' 1) sample_opened))"
    by (rule called_here) code_simp
qed simp


end
