(* ===== verification/Gated_Legs.thy ===== *)
theory Gated_Legs
  imports Option_Baskets Order_Admission
begin

text \<open>
  The one way a leg reaches a broker: the dispatchers that \<open>build_gated_leg_dispatchers\<close> in
  \<open>engine/bracket_order.py\<close> returns and that brackets, splits and baskets are given. A leg is placed
  under the admission lease of its account: the state of the account is read, reservations that it
  settles are released, all safety layers judge the order, the exposure is reserved, the order goes to
  the router, and the answer is acknowledged.

  What the environment answers during a call (readers, clocks, storage, the minting of the one-shot
  context, the router) is an argument, and any values are allowed for it.
\<close>

subsection \<open>The world of an order\<close>

datatype dispatch_fault = Bypass_fault | Algo_tag_fault | Broker_missing | Capability_missing | Other_fault

datatype leg_fault =
    No_router
  | Safety_not_ready
  | Admission_refused admission_error
  | State_not_available
  | Check_raised layer_error
  | Blocked_by string
  | Gate_refused
  | Rate_guarded
  | Not_connected
  | Not_supported
  | Dispatch_failed

record 'env leg_env =
  le_router :: bool
  le_ready :: bool
  le_lease :: nat
  le_positions :: feed
  le_orders :: feed
  le_facts :: "order_facts option"
  le_held :: "book_row list"
  le_stores :: "'env \<times> 'env"
  le_reconcile_storage :: storage
  le_reserve_storage :: storage
  le_ack_storage :: storage
  le_token :: string
  le_now :: string
  le_minted :: "dispatch_fault option"
  le_answer :: "dispatch_fault + ack \<times> string"
  le_cancel :: "dispatch_fault option"

record 's order_world =
  ow_safety :: "'s safety_system"
  ow_admission :: admission
  ow_sent :: "(string \<times> leg_order \<times> string) list"
  ow_cancelled :: "(string \<times> string) list"

definition leg_selector :: "bracket_principal \<Rightarrow> string" where
  "leg_selector pr = bp_adapter_id pr @ '':'' @ bp_account_id pr"

definition leg_row :: "leg_order \<Rightarrow> book_row" where
  "leg_row a = Obj [(''symbol'', PStr (od_symbol a)), (''action'', PStr (od_action a)), (''exchange'', PStr (od_exchange a)), (''product'', PStr (od_product a)),
     (''pricetype'', PStr (od_pricetype a)), (''quantity'', PStr (od_quantity a)), (''price'', PStr (od_price a)), (''trigger_price'', PStr (lo_trigger_price a)),
     (''disclosed_quantity'', PStr ''0''), (''strategy'', PStr (lo_strategy a)), (''admission_note'', PStr ''''), (''variety'', PStr ''regular''),
     (''validity'', PNone), (''market_protection'', PNone), (''target_price'', PStr ''0''), (''stop_loss_price'', PStr ''0''), (''trailing_jump'', PStr ''0''),
     (''iceberg_legs'', PStr ''0''), (''price1'', PNone), (''trigger_price1'', PNone), (''quantity1'', PNone), (''entry_trigger_type'', PNone),
     (''stop_loss_trigger_type'', PNone), (''target_trigger_type'', PNone)]"

subsection \<open>Placing a leg\<close>

fun write_fault :: "dispatch_fault \<Rightarrow> leg_fault" where
  "write_fault Bypass_fault = Gate_refused"
| "write_fault Algo_tag_fault = Rate_guarded"
| "write_fault Broker_missing = Not_connected"
| "write_fault Capability_missing = Not_supported"
| "write_fault Other_fault = Dispatch_failed"

fun exposure_fault :: "admission_error \<Rightarrow> leg_fault" where
  "exposure_fault (SafetyBypassError _) = Gate_refused"
| "exposure_fault _ = Dispatch_failed"

definition with_admission :: "admission_op \<Rightarrow> 's order_world \<Rightarrow> ('s order_world, admission_error, exposure_reservation option) outcome" where
  "with_admission a w = (case exec_admission a (ow_admission w) of (s, r) \<Rightarrow> (w\<lparr>ow_admission := s\<rparr>, r))"

definition send_leg :: "'env leg_env \<Rightarrow> string \<Rightarrow> leg_order \<Rightarrow> 's order_world \<Rightarrow> ('s order_world, leg_fault, string) outcome" where
  "send_leg e sel ord w =
     (case le_minted e of
        Some f \<Rightarrow> (w, Inl (write_fault f))
      | None \<Rightarrow> (case with_admission (Reserve (le_lease e) (le_reserve_storage e) (le_token e) (le_now e) (leg_row ord) (le_held e)) w of
              (w, Inl x) \<Rightarrow> (w, Inl (exposure_fault x))
            | (w, Inr _) \<Rightarrow>
                (let w = w\<lparr>ow_sent := ow_sent w @ [(sel, ord, le_token e)]\<rparr>
                 in case le_answer e of
                      Inl f \<Rightarrow> (w, Inl (write_fault f))
                    | Inr (result, shown) \<Rightarrow>
                        (case with_admission (Acknowledge (le_lease e) (le_ack_storage e) (le_token e) result) w of
                           (w, Inl x) \<Rightarrow> (w, Inl (exposure_fault x))
                         | (w, Inr _) \<Rightarrow> (w, Inr shown)))))"

definition judge_leg :: "('env, 's) state_store \<Rightarrow> 'env leg_env \<Rightarrow> string \<Rightarrow> leg_order \<Rightarrow> 's order_world \<Rightarrow> ('s order_world, leg_fault, string) outcome" where
  "judge_leg store e sel ord w =
     (case le_facts e of
        None \<Rightarrow> (w, Inl State_not_available)
      | Some x \<Rightarrow>
          (case with_admission (Observe (le_lease e) (le_reconcile_storage e) (le_positions e) (le_orders e)) w of
             (w, Inl _) \<Rightarrow> (w, Inl State_not_available)
           | (w, Inr _) \<Rightarrow>
               (case check_order store (le_stores e) (trade_order.truncate ord) (x\<lparr>of_selector := sel\<rparr>) (ow_safety w) of
                  (s, Inl err) \<Rightarrow> (w\<lparr>ow_safety := s\<rparr>, Inl (Check_raised err))
                | (s, Inr rs) \<Rightarrow>
                    (let w = w\<lparr>ow_safety := s\<rparr>
                     in case find (\<lambda>r. \<not> sr_passed r) rs of
                          Some r \<Rightarrow> (w, Inl (Blocked_by (sr_layer r)))
                        | None \<Rightarrow> send_leg e sel ord w))))"

definition place_leg :: "('env, 's) state_store \<Rightarrow> 'env leg_env \<Rightarrow> leg_order \<Rightarrow> bracket_principal \<Rightarrow> 's order_world \<Rightarrow> ('s order_world, leg_fault, string) outcome" where
  "place_leg store e ord pr w =
     (if \<not> le_router e then (w, Inl No_router)
      else if \<not> le_ready e then (w, Inl Safety_not_ready)
      else (case with_admission (Open_lease (Fin 30) (leg_selector pr) (le_lease e)) w of
              (w, Inl x) \<Rightarrow> (w, Inl (Admission_refused x))
            | (w, Inr _) \<Rightarrow>
                (case judge_leg store e (leg_selector pr) ord w of
                   (w, r) \<Rightarrow> (fst (with_admission (Close_lease (le_lease e)) w), r))))"

definition cancel_fault :: "dispatch_fault \<Rightarrow> leg_fault" where
  "cancel_fault f = (if f = Algo_tag_fault then Dispatch_failed else write_fault f)"

definition cancel_leg :: "'env leg_env \<Rightarrow> string \<Rightarrow> bracket_principal \<Rightarrow> 's order_world \<Rightarrow> ('s order_world, leg_fault, unit) outcome" where
  "cancel_leg e i pr w =
     (if \<not> le_router e then (w, Inl No_router)
      else if le_minted e \<noteq> None then (w, Inl (cancel_fault (the (le_minted e))))
      else (let w = w\<lparr>ow_cancelled := ow_cancelled w @ [(leg_selector pr, i)]\<rparr>
            in case le_cancel e of None \<Rightarrow> (w, Inr ()) | Some f \<Rightarrow> (w, Inl (cancel_fault f))))"

text \<open>The dispatchers as the services hold them; \<open>env\<close> gives what the environment answers in each call and \<open>shown\<close> the text of an exception.\<close>

definition gated_legs :: "(leg_fault \<Rightarrow> string) \<Rightarrow> ('env, 's) state_store \<Rightarrow> (nat \<Rightarrow> 'env leg_env) \<Rightarrow> (nat \<times> 's order_world) leg_dispatch" where
  "gated_legs shown store env =
     \<lparr>ld_place = Some (\<lambda>(n, w) ord pr. case place_leg store (env n) ord pr w of
        (w, Inl x) \<Rightarrow> ((n + 1, w), Inl (shown x)) | (w, Inr i) \<Rightarrow> ((n + 1, w), Inr i)),
      ld_cancel = Some (\<lambda>(n, w) i pr. case cancel_leg (env n) i pr w of
        (w, Inl x) \<Rightarrow> ((n + 1, w), Inl (shown x)) | (w, Inr u) \<Rightarrow> ((n + 1, w), Inr u))\<rparr>"

subsection \<open>A leg runs through the admission of its account\<close>

definition admission_steps :: "admission \<Rightarrow> admission \<Rightarrow> bool" where
  "admission_steps s s' \<longleftrightarrow> (\<exists>as. admission_run s as s')"

lemma admission_steps_refl [simp, intro]: "admission_steps s s"
  unfolding admission_steps_def by (blast intro: admission_run.stay)

lemma admission_run_append: "admission_run s as s' \<Longrightarrow> admission_run s' bs s'' \<Longrightarrow> admission_run s (as @ bs) s''"
  by (induction rule: admission_run.induct) (auto intro: admission_run.go)

lemma admission_steps_trans [trans]: "admission_steps s s' \<Longrightarrow> admission_steps s' s'' \<Longrightarrow> admission_steps s s''"
  unfolding admission_steps_def by (blast intro: admission_run_append)

lemma with_admission_frame [simp]:
  "with_admission a w = (w', r) \<Longrightarrow> ow_sent w' = ow_sent w \<and> ow_safety w' = ow_safety w \<and> exec_admission a (ow_admission w) = (ow_admission w', r)"
  by (auto simp: with_admission_def split: prod.splits)

lemma with_admission_step:
  "with_admission a w = (w', r) \<Longrightarrow> call_ok a (ow_admission w) \<Longrightarrow> admission_steps (ow_admission w) (ow_admission w')"
  unfolding admission_steps_def by (metis with_admission_frame admission_step.called admission_run.go admission_run.stay)

text \<open>What the code relies on: a new lease is a new object, the token of \<open>secrets\<close> is fresh, and the clock shows something.\<close>

definition fresh_env :: "'env leg_env \<Rightarrow> admission \<Rightarrow> bool" where
  "fresh_env e s \<longleftrightarrow> le_lease e \<notin> fst ` set (am_leases s) \<and> token_id (le_token e) \<and> le_now e \<noteq> [] \<and> le_token e \<notin> memory_ids (am_memory s)"

lemma memory_ids_drop: "memory_ids (memory_drop sel rids m) \<subseteq> memory_ids m"
proof
  fix i
  let ?rows = "filter (\<lambda>x. fst x \<notin> set rids) (rows_in m sel)"
  assume "i \<in> memory_ids (memory_drop sel rids m)"
  then obtain k rows w where k: "(k, rows) \<in> set (memory_drop sel rids m)" and w: "(i, w) \<in> set rows" by (auto simp: memory_ids_def)
  then consider "(k, rows) \<in> set m" | "rows = ?rows"
    by (auto simp: memory_drop_def Let_def AList.delete_eq split: if_splits dest: set_update_cases)
  then show "i \<in> memory_ids m"
  proof cases
    case 1
    then show ?thesis using w by (force simp: memory_ids_def)
  next
    case 2
    then show ?thesis using w memory_idsI [of i w m sel] by simp
  qed
qed

lemma observe_ids:
  assumes "exec_admission (Observe l fl positions orders) s = (s', r)"
  shows "memory_ids (am_memory s') \<subseteq> memory_ids (am_memory s)"
  using assms
proof (cases rule: call_cases)
  case unchanged
  then show ?thesis by simp
next
  case (reconcile l fl rids sel)
  then show ?thesis using reconcile_memory [of fl sel rids s] memory_ids_drop [of sel "filter (\<lambda>i. i \<noteq> []) rids" "am_memory s"] by auto
qed simp_all

lemma open_memory: "exec_admission (Open_lease timeout sel l) s = (s', r) \<Longrightarrow> am_memory s' = am_memory s \<and> am_store s' = am_store s"
  by (erule call_cases) simp_all

text \<open>What a call does, by where it stops: the reservation is the last step before the router is called, the acknowledgement the first after.\<close>

definition reserve_op :: "'env leg_env \<Rightarrow> leg_order \<Rightarrow> admission_op" where
  "reserve_op e ord = Reserve (le_lease e) (le_reserve_storage e) (le_token e) (le_now e) (leg_row ord) (le_held e)"

definition note_sent :: "string \<Rightarrow> leg_order \<Rightarrow> string \<Rightarrow> 's order_world \<Rightarrow> 's order_world" where
  "note_sent sel ord token w = w\<lparr>ow_sent := ow_sent w @ [(sel, ord, token)]\<rparr>"

lemma note_sent_simps [simp]:
  "ow_sent (note_sent sel ord token w) = ow_sent w @ [(sel, ord, token)]" "ow_admission (note_sent sel ord token w) = ow_admission w"
  by (simp_all add: note_sent_def)

lemma send_leg_cases:
  assumes "send_leg e sel ord w = (w', r)"
  obtains (unminted) x where "w' = w" "r = Inl x"
  | (unreserved) x y where "with_admission (reserve_op e ord) w = (w', Inl y)" "r = Inl x"
  | (failed) w1 v x where "with_admission (reserve_op e ord) w = (w1, Inr v)" "w' = note_sent sel ord (le_token e) w1" "r = Inl x"
  | (answered) w1 v result shown c where "with_admission (reserve_op e ord) w = (w1, Inr v)"
      "with_admission (Acknowledge (le_lease e) (le_ack_storage e) (le_token e) result) (note_sent sel ord (le_token e) w1) = (w', c)"
      "le_answer e = Inr (result, shown)" "r = (case c of Inl x \<Rightarrow> Inl (exposure_fault x) | Inr _ \<Rightarrow> Inr shown)"
proof (cases "le_minted e")
  case (Some f)
  then show thesis using assms by (intro unminted) (auto simp: send_leg_def)
next
  case None
  obtain w1 y where y: "with_admission (reserve_op e ord) w = (w1, y)" by (cases "with_admission (reserve_op e ord) w")
  note unfold = send_leg_def None reserve_op_def [symmetric] y Let_def note_sent_def [symmetric]
  show thesis
  proof (cases y)
    case (Inl x)
    then show thesis using assms y by (intro unreserved) (auto simp: unfold)
  next
    case (Inr v)
    show thesis
    proof (cases "le_answer e")
      case (Inl f)
      then show thesis using assms y Inr by (intro failed) (auto simp: unfold)
    next
      case ans: (Inr p)
      obtain result shown where p: "p = (result, shown)" by (cases p)
      obtain w2 c where c: "with_admission (Acknowledge (le_lease e) (le_ack_storage e) (le_token e) result) (note_sent sel ord (le_token e) w1) = (w2, c)"
        by (cases "with_admission (Acknowledge (le_lease e) (le_ack_storage e) (le_token e) result) (note_sent sel ord (le_token e) w1)")
      have "w' = w2" "r = (case c of Inl x \<Rightarrow> Inl (exposure_fault x) | Inr _ \<Rightarrow> Inr shown)"
        using assms Inr ans p c by (auto simp: unfold split: sum.splits)
      then show thesis using answered [of w1 v result c shown] y Inr ans p c by simp
    qed
  qed
qed

lemma judge_leg_cases:
  assumes "judge_leg store e sel ord w = (w', r)"
  obtains (unread) x where "w' = w" "r = Inl x"
  | (unsettled) x y where "with_admission (Observe (le_lease e) (le_reconcile_storage e) (le_positions e) (le_orders e)) w = (w', Inl y)" "r = Inl x"
  | (blocked) w1 v s x where "with_admission (Observe (le_lease e) (le_reconcile_storage e) (le_positions e) (le_orders e)) w = (w1, Inr v)"
      "w' = w1\<lparr>ow_safety := s\<rparr>" "r = Inl x"
  | (passed) w1 v facts s rs where "with_admission (Observe (le_lease e) (le_reconcile_storage e) (le_positions e) (le_orders e)) w = (w1, Inr v)"
      "le_facts e = Some facts" "check_order store (le_stores e) (trade_order.truncate ord) (facts\<lparr>of_selector := sel\<rparr>) (ow_safety w) = (s, Inr rs)"
      "admitted rs" "send_leg e sel ord (w1\<lparr>ow_safety := s\<rparr>) = (w', r)"
proof (cases "le_facts e")
  case None
  then show thesis using assms by (intro unread) (auto simp: judge_leg_def)
next
  case (Some facts)
  obtain w1 y where y: "with_admission (Observe (le_lease e) (le_reconcile_storage e) (le_positions e) (le_orders e)) w = (w1, y)"
    by (cases "with_admission (Observe (le_lease e) (le_reconcile_storage e) (le_positions e) (le_orders e)) w")
  show thesis
  proof (cases y)
    case (Inl x)
    then show thesis using assms y Some by (intro unsettled) (auto simp: judge_leg_def)
  next
    case (Inr v)
    obtain s c where c: "check_order store (le_stores e) (trade_order.truncate ord) (facts\<lparr>of_selector := sel\<rparr>) (ow_safety w) = (s, c)"
      by (cases "check_order store (le_stores e) (trade_order.truncate ord) (facts\<lparr>of_selector := sel\<rparr>) (ow_safety w)")
    have judged: "judge_leg store e sel ord w = (case c of Inl err \<Rightarrow> (w1\<lparr>ow_safety := s\<rparr>, Inl (Check_raised err))
        | Inr rs \<Rightarrow> (case find (\<lambda>r. \<not> sr_passed r) rs of Some r \<Rightarrow> (w1\<lparr>ow_safety := s\<rparr>, Inl (Blocked_by (sr_layer r))) | None \<Rightarrow> send_leg e sel ord (w1\<lparr>ow_safety := s\<rparr>)))"
      using y Inr Some c with_admission_frame [OF y] by (simp add: judge_leg_def Let_def)
    show thesis
    proof (cases "\<exists>rs. c = Inr rs \<and> find (\<lambda>r. \<not> sr_passed r) rs = None")
      case True
      then obtain rs where rs: "c = Inr rs" "find (\<lambda>r. \<not> sr_passed r) rs = None" by blast
      then show thesis using passed [OF y [unfolded Inr] Some] c assms judged first_failure(1) [OF rs(2)] by (simp add: admitted_def)
    next
      case False
      then have "\<exists>x. w' = w1\<lparr>ow_safety := s\<rparr> \<and> r = Inl x" using assms judged by (auto split: sum.splits option.splits)
      then show thesis using blocked [OF y [unfolded Inr]] by blast
    qed
  qed
qed

lemma place_leg_cases:
  assumes "place_leg store e ord pr w = (w', r)"
  obtains (stopped) x where "w' = w" "r = Inl x"
  | (refused) x y where "with_admission (Open_lease (Fin 30) (leg_selector pr) (le_lease e)) w = (w', Inl y)" "r = Inl x"
  | (judged) w1 v w2 where "with_admission (Open_lease (Fin 30) (leg_selector pr) (le_lease e)) w = (w1, Inr v)"
      "judge_leg store e (leg_selector pr) ord w1 = (w2, r)" "w' = fst (with_admission (Close_lease (le_lease e)) w2)"
proof (cases "le_router e \<and> le_ready e")
  case False
  then have "\<exists>x. w' = w \<and> r = Inl x" using assms by (auto simp: place_leg_def split: if_splits)
  then show thesis using stopped by blast
next
  case True
  obtain w1 y where y: "with_admission (Open_lease (Fin 30) (leg_selector pr) (le_lease e)) w = (w1, y)"
    by (cases "with_admission (Open_lease (Fin 30) (leg_selector pr) (le_lease e)) w")
  show thesis
  proof (cases y)
    case (Inl x)
    then show thesis using assms y True by (intro refused) (auto simp: place_leg_def)
  next
    case (Inr v)
    obtain w2 q where q: "judge_leg store e (leg_selector pr) ord w1 = (w2, q)" by (cases "judge_leg store e (leg_selector pr) ord w1")
    then show thesis using assms y True Inr judged [OF y [unfolded Inr]] by (simp add: place_leg_def)
  qed
qed

lemma send_leg_steps:
  assumes "send_leg e sel ord w = (w', r)" and "token_id (le_token e)" "le_now e \<noteq> []" "le_token e \<notin> memory_ids (am_memory (ow_admission w))"
  shows "admission_steps (ow_admission w) (ow_admission w')"
proof -
  have ok: "call_ok (reserve_op e ord) (ow_admission w)" using assms(2-4) by (simp add: reserve_op_def)
  from assms(1) show ?thesis
  proof (cases rule: send_leg_cases)
    case (unreserved x y)
    then show ?thesis using with_admission_step ok by blast
  next
    case (failed w1 v x)
    then show ?thesis using with_admission_step [OF failed(1) ok] by simp
  next
    case (answered w1 v result shown c)
    have "admission_steps (ow_admission w1) (ow_admission w')" using with_admission_step [OF answered(2)] by simp
    with with_admission_step [OF answered(1) ok] show ?thesis by (rule admission_steps_trans)
  qed simp
qed

lemma judge_leg_steps:
  assumes "judge_leg store e sel ord w = (w', r)" and "token_id (le_token e)" "le_now e \<noteq> []" "le_token e \<notin> memory_ids (am_memory (ow_admission w))"
  shows "admission_steps (ow_admission w) (ow_admission w')"
  using assms(1)
proof (cases rule: judge_leg_cases)
  case (unsettled x y)
  then show ?thesis using with_admission_step [OF unsettled(1)] by simp
next
  case (blocked w1 v s x)
  then show ?thesis using with_admission_step [OF blocked(1)] by simp
next
  case (passed w1 v facts s rs)
  have "memory_ids (am_memory (ow_admission w1)) \<subseteq> memory_ids (am_memory (ow_admission w))"
    using with_admission_frame [OF passed(1)] by (intro observe_ids) blast
  then have "admission_steps (ow_admission w1) (ow_admission w')"
    using send_leg_steps [OF passed(5) assms(2,3)] assms(4) by auto
  with with_admission_step [OF passed(1)] show ?thesis by (simp add: admission_steps_trans)
qed simp

lemma place_leg_steps:
  assumes "place_leg store e ord pr w = (w', r)" and "fresh_env e (ow_admission w)"
  shows "admission_steps (ow_admission w) (ow_admission w')"
  using assms(1)
proof (cases rule: place_leg_cases)
  case (refused x y)
  then show ?thesis using with_admission_step [OF refused(1)] assms(2) by (simp add: fresh_env_def)
next
  case (judged w1 v w2)
  have "admission_steps (ow_admission w) (ow_admission w1)" using with_admission_step [OF judged(1)] assms(2) by (simp add: fresh_env_def)
  moreover have "am_memory (ow_admission w1) = am_memory (ow_admission w)" using with_admission_frame [OF judged(1)] open_memory by blast
  then have "admission_steps (ow_admission w1) (ow_admission w2)" using judge_leg_steps [OF judged(2)] assms(2) by (simp add: fresh_env_def)
  moreover have "admission_steps (ow_admission w2) (ow_admission w')"
    unfolding judged(3) by (rule with_admission_step [of "Close_lease (le_lease e)" w2 _ "snd (with_admission (Close_lease (le_lease e)) w2)"]) simp_all
  ultimately show ?thesis using admission_steps_trans by blast
qed simp


subsection \<open>Nothing is sent unjudged or unreserved\<close>

definition reservation_of :: "'env leg_env \<Rightarrow> leg_order \<Rightarrow> bracket_principal \<Rightarrow> exposure_reservation \<Rightarrow> bool" where
  "reservation_of e ord pr v \<longleftrightarrow> er_id v = le_token e \<and> er_selector v = leg_selector pr \<and> er_order v = leg_row ord"

lemma reserve_result:
  assumes "exec_admission (reserve_op e ord) s = (s', Inr x)" and "map_of (am_leases s) (le_lease e) = Some (leg_selector pr)"
  obtains v where "x = Some v" "reservation_of e ord pr v"
  using assms
  by (auto simp: reserve_op_def under_lease_def require_open_def reserve_order_exposure_def reservation_of_def bind_out_def Let_def
      split: prod.splits sum.splits)

lemma steps_good: "admission_steps s s' \<Longrightarrow> good_admission s \<and> am_store s \<noteq> None \<Longrightarrow> good_admission s' \<and> am_store s' \<noteq> None"
proof -
  have "admission_run s as s' \<Longrightarrow> good_admission s \<and> am_store s \<noteq> None \<Longrightarrow> good_admission s' \<and> am_store s' \<noteq> None" for as
    by (induction rule: admission_run.induct) (use good_admission_step step_store in blast)+
  then show "admission_steps s s' \<Longrightarrow> good_admission s \<and> am_store s \<noteq> None \<Longrightarrow> good_admission s' \<and> am_store s' \<noteq> None"
    by (auto simp: admission_steps_def)
qed

lemma open_lease_map:
  "exec_admission (Open_lease timeout sel l) s = (s', Inr v) \<Longrightarrow> map_of (am_leases s') l = Some sel"
  by (auto simp: no_value_def order_admission_def canonical_order_selector_def split: if_splits)

lemma reconcile_leases: "am_leases (fst (reconcile_order_reservations fl sel rids s)) = am_leases s"
  by (auto simp: reconcile_order_reservations_def bind_out_def Let_def dest: with_store_frame split: option.splits prod.splits sum.splits)

lemma observe_leases:
  assumes "exec_admission (Observe l fl positions orders) s = (s', r)"
  shows "am_leases s' = am_leases s"
  using assms reconcile_leases by (auto simp: under_lease_def observe_def no_value_def bind_out_def split: prod.splits sum.splits) (metis fst_conv)+

lemma sent_is_kept:
  assumes "send_leg e (leg_selector pr) ord w = (w', r)" and "map_of (am_leases (ow_admission w)) (le_lease e) = Some (leg_selector pr)"
    and "good_admission (ow_admission w) \<and> am_store (ow_admission w) \<noteq> None"
    and "token_id (le_token e)" "le_now e \<noteq> []" "le_token e \<notin> memory_ids (am_memory (ow_admission w))"
  shows "ow_sent w' = ow_sent w \<and> isl r \<or>
     ow_sent w' = ow_sent w @ [(leg_selector pr, ord, le_token e)] \<and> (\<exists>v. reservation_of e ord pr v \<and> in_memory v (ow_admission w') \<and> in_store v (ow_admission w'))"
proof -
  have ok: "call_ok (reserve_op e ord) (ow_admission w)" using assms(4-6) by (simp add: reserve_op_def)
  have reserved: "\<exists>v. reservation_of e ord pr v \<and> in_memory v (ow_admission w1) \<and> in_store v (ow_admission w1)"
    if "with_admission (reserve_op e ord) w = (w1, Inr x)" for w1 x
  proof -
    have ex: "exec_admission (reserve_op e ord) (ow_admission w) = (ow_admission w1, Inr x)" using with_admission_frame [OF that] by blast
    obtain v where v: "x = Some v" "reservation_of e ord pr v" using ex assms(2) by (rule reserve_result)
    then show ?thesis using reserved_is_kept ex assms(3) unfolding reserve_op_def by blast
  qed
  from assms(1) show ?thesis
  proof (cases rule: send_leg_cases)
    case (failed w1 v x)
    then show ?thesis using reserved [OF failed(1)] with_admission_frame [OF failed(1)] by simp
  next
    case (answered w1 v result shown c)
    obtain u where u: "reservation_of e ord pr u" "in_memory u (ow_admission w1) \<and> in_store u (ow_admission w1)" using reserved [OF answered(1)] by blast
    have "good_admission (ow_admission w1)" using steps_good [OF with_admission_step [OF answered(1) ok] assms(3)] by blast
    moreover have ack: "exec_admission (Acknowledge (le_lease e) (le_ack_storage e) (le_token e) result) (ow_admission w1) = (ow_admission w', c)"
      using with_admission_frame [OF answered(2)] by simp
    ultimately have "in_memory u (ow_admission w') \<and> in_store u (ow_admission w')" using kept_call [OF ack _ u(2)] by simp
    then show ?thesis using u(1) with_admission_frame [OF answered(1)] with_admission_frame [OF answered(2)] by auto
  qed (use with_admission_frame in auto)
qed

text \<open>
  C10. A leg is handed to the router only after all five layers of the safety system admitted it on the
  state of its account, and from then on its exposure is held against the account, in memory and in
  the durable store, whatever the router answers and also when the caller is told that the leg was not
  placed. An order identifier is only returned for a leg that was handed over.
\<close>

theorem sent_leg_is_judged_and_reserved:
  assumes "place_leg store e ord pr w = (w', r)" and "fresh_env e (ow_admission w)"
    and "good_admission (ow_admission w)" and "am_store (ow_admission w) \<noteq> None"
  shows "ow_sent w' = ow_sent w \<and> isl r \<or>
     ow_sent w' = ow_sent w @ [(leg_selector pr, ord, le_token e)]
     \<and> (\<exists>facts s rs. le_facts e = Some facts \<and> admitted rs
          \<and> check_order store (le_stores e) (trade_order.truncate ord) (facts\<lparr>of_selector := leg_selector pr\<rparr>) (ow_safety w) = (s, Inr rs))
     \<and> (\<exists>v. reservation_of e ord pr v \<and> in_memory v (ow_admission w') \<and> in_store v (ow_admission w'))"
  using assms(1)
proof (cases rule: place_leg_cases)
  case (refused x y)
  then show ?thesis using with_admission_frame [OF refused(1)] by simp
next
  case (judged w1 v w2)
  let ?close = "with_admission (Close_lease (le_lease e)) w2"
  have close: "ow_sent w' = ow_sent w2 \<and> (\<forall>u. in_memory u (ow_admission w2) \<longrightarrow> in_memory u (ow_admission w')) \<and> (\<forall>u. in_store u (ow_admission w2) \<longrightarrow> in_store u (ow_admission w'))"
    unfolding judged(3) by (simp add: with_admission_def close_admission_def in_memory_def in_store_def)
  have open1: "exec_admission (Open_lease (Fin 30) (leg_selector pr) (le_lease e)) (ow_admission w) = (ow_admission w1, Inr v)" "ow_sent w1 = ow_sent w" "ow_safety w1 = ow_safety w"
    using with_admission_frame [OF judged(1)] by auto
  have "admission_steps (ow_admission w) (ow_admission w1)" using with_admission_step [OF judged(1)] assms(2) by (simp add: fresh_env_def)
  then have good1: "good_admission (ow_admission w1) \<and> am_store (ow_admission w1) \<noteq> None" using steps_good assms(3,4) by blast
  have fresh1: "le_token e \<notin> memory_ids (am_memory (ow_admission w1))" "token_id (le_token e)" "le_now e \<noteq> []"
    using assms(2) open_memory [OF open1(1)] by (simp_all add: fresh_env_def)
  from judged(2) show ?thesis
  proof (cases rule: judge_leg_cases)
    case (passed w3 u facts s rs)
    have obs: "exec_admission (Observe (le_lease e) (le_reconcile_storage e) (le_positions e) (le_orders e)) (ow_admission w1) = (ow_admission w3, Inr u)" "ow_sent w3 = ow_sent w1"
      using with_admission_frame [OF passed(1)] by auto
    have lease: "map_of (am_leases (ow_admission w3)) (le_lease e) = Some (leg_selector pr)" using observe_leases [OF obs(1)] open_lease_map [OF open1(1)] by simp
    have "admission_steps (ow_admission w1) (ow_admission w3)" using with_admission_step [OF passed(1)] by simp
    then have good3: "good_admission (ow_admission w3) \<and> am_store (ow_admission w3) \<noteq> None" using steps_good good1 by blast
    have "le_token e \<notin> memory_ids (am_memory (ow_admission w3))" using observe_ids [OF obs(1)] fresh1(1) by blast
    then have "ow_sent w2 = ow_sent w3 \<and> isl r \<or> ow_sent w2 = ow_sent w3 @ [(leg_selector pr, ord, le_token e)]
        \<and> (\<exists>v. reservation_of e ord pr v \<and> in_memory v (ow_admission w2) \<and> in_store v (ow_admission w2))"
      using sent_is_kept [OF passed(5)] lease good3 fresh1(2,3) by simp
    then show ?thesis using close obs(2) open1(2,3) passed(2,3,4) by (elim disjE) auto
  qed (use close open1(2) with_admission_frame in auto)
qed simp

subsection \<open>The lease is given back\<close>

lemma reserve_leases: "am_leases (fst (reserve_order_exposure fl rid now sel ord ps s)) = am_leases s"
  by (auto simp: reserve_order_exposure_def bind_out_def Let_def dest: with_store_frame split: option.splits prod.splits sum.splits)

lemma acknowledge_leases: "am_leases (fst (acknowledge_order_reservation fl sel rid bid s)) = am_leases s"
  by (auto simp: acknowledge_order_reservation_def bind_out_def Let_def dest: with_store_frame split: option.splits prod.splits sum.splits)

lemma reserve_op_leases: "exec_admission (reserve_op e ord) s = (s', r) \<Longrightarrow> am_leases s' = am_leases s"
  using reserve_leases by (auto simp: reserve_op_def under_lease_def bind_out_def split: prod.splits sum.splits) (metis fst_conv)+

lemma acknowledge_op_leases: "exec_admission (Acknowledge l fl rid result) s = (s', r) \<Longrightarrow> am_leases s' = am_leases s"
  using acknowledge_leases by (auto simp: under_lease_def no_value_def bind_out_def split: prod.splits sum.splits) (metis fst_conv)+

lemma with_admission_leases:
  assumes "with_admission a w = (w', r)" and "\<And>s s' r. exec_admission a s = (s', r) \<Longrightarrow> am_leases s' = am_leases s"
  shows "am_leases (ow_admission w') = am_leases (ow_admission w)"
  using assms(2) with_admission_frame [OF assms(1)] by blast

lemma keeps_leases:
  "with_admission (reserve_op e ord) w = (w', r) \<Longrightarrow> am_leases (ow_admission w') = am_leases (ow_admission w)"
  "with_admission (Acknowledge l fl rid result) w = (w', r) \<Longrightarrow> am_leases (ow_admission w') = am_leases (ow_admission w)"
  "with_admission (Observe l fl positions orders) w = (w', r) \<Longrightarrow> am_leases (ow_admission w') = am_leases (ow_admission w)"
  by (erule with_admission_leases, erule reserve_op_leases acknowledge_op_leases observe_leases)+

lemma open_leases: "exec_admission (Open_lease timeout sel l) s = (s', Inr v) \<Longrightarrow> am_leases s' = (l, sel) # am_leases s"
  by (auto simp: no_value_def order_admission_def canonical_order_selector_def split: if_splits)

lemma judge_leg_leases:
  assumes "judge_leg store e sel ord w = (w', r)"
  shows "am_leases (ow_admission w') = am_leases (ow_admission w)"
proof -
  have send: "am_leases (ow_admission v') = am_leases (ow_admission v)" if "send_leg e sel ord v = (v', q)" for v v' q
    using that
  proof (cases rule: send_leg_cases)
    case (unreserved x y)
    then show ?thesis using keeps_leases(1) [OF unreserved(1)] by simp
  next
    case (failed w1 v x)
    then show ?thesis using keeps_leases(1) [OF failed(1)] by simp
  next
    case (answered w1 v result shown c)
    then show ?thesis using keeps_leases(1) [OF answered(1)] keeps_leases(2) [OF answered(2)] by simp
  qed simp
  from assms show ?thesis
  proof (cases rule: judge_leg_cases)
    case (unsettled x y)
    then show ?thesis using keeps_leases(3) [OF unsettled(1)] by simp
  next
    case (blocked w1 v s x)
    then show ?thesis using keeps_leases(3) [OF blocked(1)] by simp
  next
    case (passed w1 v facts s rs)
    then show ?thesis using keeps_leases(3) [OF passed(1)] send [OF passed(5)] by simp
  qed simp
qed

text \<open>
  However a placement ends, the account it was admitted for is free again afterwards, and the leases
  of other accounts are untouched: no failure leaves an account locked.
\<close>

theorem leg_returns_its_lease:
  assumes "place_leg store e ord pr w = (w', r)" and "fresh_env e (ow_admission w)"
  shows "am_leases (ow_admission w') = am_leases (ow_admission w)"
  using assms(1)
proof (cases rule: place_leg_cases)
  case (refused x y)
  then have "exec_admission (Open_lease (Fin 30) (leg_selector pr) (le_lease e)) (ow_admission w) = (ow_admission w', Inl y)" using with_admission_frame by blast
  then show ?thesis by (auto simp: no_value_def order_admission_def canonical_order_selector_def split: if_splits)
next
  case (judged w1 v w2)
  have "exec_admission (Open_lease (Fin 30) (leg_selector pr) (le_lease e)) (ow_admission w) = (ow_admission w1, Inr v)" using with_admission_frame [OF judged(1)] by blast
  then have "am_leases (ow_admission w1) = (le_lease e, leg_selector pr) # am_leases (ow_admission w)" by (rule open_leases)
  then have "am_leases (ow_admission w2) = (le_lease e, leg_selector pr) # am_leases (ow_admission w)" using judge_leg_leases [OF judged(2)] by simp
  then show ?thesis using assms(2) unfolding judged(3) by (auto simp: with_admission_def close_admission_def fresh_env_def AList.delete_eq filter_id_conv image_iff)
qed simp

subsection \<open>A leg in concrete values\<close>

definition demo_leg :: leg_order where
  "demo_leg = \<lparr>od_symbol = ''SBIN'', od_action = ''BUY'', od_exchange = ''NSE'', od_product = ''MIS'', od_pricetype = ''LIMIT'',
     od_quantity = ''10'', od_price = ''100'', od_validity = None, od_quantity1 = None, lo_trigger_price = ''0'', lo_strategy = ''Flint''\<rparr>"

definition demo_owner :: bracket_principal where
  "demo_owner = \<lparr>bp_actor_id = ''operator'', bp_jti = ''j1'', bp_adapter_id = ''zerodha'', bp_account_id = ''AB1''\<rparr>"

definition demo_leg_env :: "string \<Rightarrow> daily_env leg_env" where
  "demo_leg_env answer = \<lparr>le_router = True, le_ready = True, le_lease = 0, le_positions = Listing [], le_orders = Listing [], le_facts = Some demo_facts, le_held = [],
     le_stores = (demo_store_env, demo_store_env), le_reconcile_storage = Works, le_reserve_storage = Works, le_ack_storage = Works, le_token = sample_token,
     le_now = ''2026-01-05T10:00:00'', le_minted = None, le_answer = Inr (Ack_scalar (PStr answer), answer), le_cancel = None\<rparr>"

definition demo_leg_world :: "daily_db order_world" where
  "demo_leg_world = \<lparr>ow_safety = demo_system, ow_admission = durable_start, ow_sent = [], ow_cancelled = []\<rparr>"

definition demo_leg_placed :: "string \<Rightarrow> (daily_db order_world, leg_fault, string) outcome" where
  "demo_leg_placed answer = place_leg sqlite_store (demo_leg_env answer) demo_leg demo_owner demo_leg_world"

lemma demo_leg_fresh: "fresh_env (demo_leg_env answer) (ow_admission demo_leg_world)"
proof -
  have "token_id sample_token" by code_simp
  then show ?thesis by (simp add: fresh_env_def demo_leg_env_def demo_leg_world_def durable_start_def memory_ids_def)
qed

lemma demo_leg_good: "good_admission (ow_admission demo_leg_world)" "am_store (ow_admission demo_leg_world) \<noteq> None"
  using run_good [OF admission_run.stay] by (simp_all add: demo_leg_world_def)

lemma demo_leg_run: "place_leg sqlite_store (demo_leg_env answer) demo_leg demo_owner demo_leg_world = (fst (demo_leg_placed answer), snd (demo_leg_placed answer))"
  by (simp add: demo_leg_placed_def)

lemma demo_leg_accepted: "snd (demo_leg_placed ''B1'') = Inr ''B1''"
  by code_simp


theorem sent_leg_is_judged_and_reserved_witness:
  "\<exists>v. reservation_of (demo_leg_env ''B1'') demo_leg demo_owner v \<and> in_memory v (ow_admission (fst (demo_leg_placed ''B1''))) \<and> in_store v (ow_admission (fst (demo_leg_placed ''B1'')))"
  using sent_leg_is_judged_and_reserved [OF demo_leg_run demo_leg_fresh demo_leg_good, of "''B1''"] demo_leg_accepted by auto

theorem leg_returns_its_lease_witness: "am_leases (ow_admission (fst (demo_leg_placed ''B1''))) = []"
  using leg_returns_its_lease [OF demo_leg_run demo_leg_fresh] by (simp add: demo_leg_world_def durable_start_def)

text \<open>
  An acknowledgement without a usable identifier is reported as a refusal of the safety gate although the
  order was handed over; only the reservation remembers it.
\<close>

lemma unacknowledged_leg_is_reported_as_refused:
  "snd (demo_leg_placed '''') = Inl Gate_refused \<and> ow_sent (fst (demo_leg_placed '''')) = [(''zerodha:AB1'', demo_leg, sample_token)]"
  by code_simp

end
