(* ===== verification/Spec2Isabelle.thy ===== *)
theory Spec2Isabelle
  imports Freeze_Manager Exit_Reservations Exit_Evidence State_Manager Action_Center Strategy_Lifecycle Dispatch_Journal Safety_Config Trading_Guards Kill_Switch_Runs Mtm_Breaker Request_Guards Gated_Legs
begin

text \<open>
  A verification development for the order-safety core of FlintTrade, a self-hosted trading
  platform for Indian markets (Python packages under \<open>src/packages\<close>).

  \<^bold>\<open>The program.\<close> The engine package (\<open>services/engine/src/flinttrade_engine\<close>) decides which
  orders may leave the system; the core package (\<open>core/core/src/flinttrade_core\<close>) holds the
  identities, the HTTP handlers and the runtime. A live place enters
  \<open>order_routes._dispatch_live_order\<close>, passes the quantity admission of \<open>qty_freeze\<close>, is
  classified by \<open>reduce_only\<close> against the position and order books, holds its quantity while
  its outcome is open, and goes through the broker router. Orders of autonomous agents wait
  in the approval queue of \<open>action_center\<close> until an operator approves them. Strategies move
  through the session states of \<open>state_manager\<close>. Kill-switch exits are written ahead in the
  journal of \<open>emergency_intents\<close>. \<open>exit_evidence\<close> advises on an exit intent
  from a verified snapshot. \<open>broker_identity\<close> names the account all of these act on.

  \<^bold>\<open>The theories.\<close>

  \<^item> \<open>Py_Prelude\<close>: results and sequencing of Python code that raises, text and integers,
    dictionaries as association lists, and the contracts the components share as locales:
    \<open>keyed_store\<close> (what is read after a write), \<open>machine\<close> (an invariant kept by every operation
    is kept by every run) and \<open>durable_machine\<close> (closing and reopening shows the same).
  \<^item> \<open>Py_Numbers\<close>: cells of a JSON row, doubles with their IEEE rounding, numeric text.
  \<^item> \<open>Py_Json\<close>: documents and which of them \<open>json.dumps\<close> accepts.
  \<^item> \<open>Iso_Time\<close>: UTC instants, \<open>isoformat\<close>, adding minutes; comparing ISO text byte by byte is
    chronological.
  \<^item> \<open>Qty_Freeze\<close> (\<open>qty_freeze.py\<close>, pure part, and \<open>number_formatter._indian_int_part\<close>):
    freeze limits, the largest placeable quantity, the admission rule, slicing, grouping.
  \<^item> \<open>Freeze_Manager\<close> (\<open>qty_freeze.QuantityFreezeManager\<close>): the manager's record, its two
    tables, CSV import, restart. Interprets \<open>durable_machine\<close> and \<open>keyed_store\<close>.
  \<^item> \<open>Broker_Identity\<close> (\<open>broker_identity.py\<close>): selectors, their text and path forms, versions.
  \<^item> \<open>Reduce_Only\<close> (\<open>reduce_only.py\<close>, first part): reading rows, evidence checks, pending
    totals, \<open>classify_reduce_only\<close>.
  \<^item> \<open>Exit_Reservations\<close> (\<open>reduce_only.py\<close>, second part, and the reduce-only path of
    \<open>order_routes.py\<close>): the store of holds, reconciliation against broker rows,
    \<open>_prepare_live_reduce_only\<close>, the settling of a hold, and the step relation \<open>place_step\<close>
    of any interleaving of places.
  \<^item> \<open>Exit_Evidence\<close> (\<open>exit_evidence.py\<close>): decimals with a trapping context, the snapshot
    checks, the cap and the advice.
  \<^item> \<open>State_Manager\<close> (\<open>state_manager.py\<close>): states, transition table, cache and tables,
    recovery. Interprets \<open>machine\<close> and \<open>durable_machine\<close>.
  \<^item> \<open>Action_Center\<close> (\<open>action_center.py\<close>, approve and reject of \<open>action_center_routes.py\<close>): the
    in-memory queue, the durable queue with its SQL updates, the handlers. Interprets
    \<open>machine\<close>.
  \<^item> \<open>Strategy_Lifecycle\<close> (\<open>strategy.py\<close>, \<open>strategy_lifecycle.py\<close>): strategy objects, their
    checkpoints and registry, and the manager of deployed instances with the guard and the
    commit of each status change. Interprets \<open>machine\<close>.
  \<^item> \<open>Intent_Records\<close>, \<open>Journal_Spec\<close>, \<open>Memory_Journal\<close>, \<open>Sqlite_Journal\<close>, \<open>Journal_Properties\<close>,
    \<open>Dispatch_Journal\<close> (\<open>emergency_intents.py\<close>): the records of safety latches and write-ahead
    broker intents, their specification with the locales \<open>intent_journal\<close> and \<open>scope_guard\<close>,
    the journal in memory, the journal over its SQLite tables with storage failures before and
    after a commit, and the dispatcher that goes on with the fallback when storage fails. Both
    journals interpret \<open>intent_journal\<close>, the dispatcher interprets \<open>scope_guard\<close>.
  \<^item> \<open>Py_Floats\<close>, \<open>Sql_Store\<close>: arithmetic and comparison of doubles, their shortest text and the
    compensated \<open>sum\<close>; transactions that may fail before or after their commit.
  \<^item> \<open>Daily_Loss\<close> (\<open>daily_pnl_state.py\<close>, \<open>safety.DailyPnLLimits\<close>): the two stores of daily-loss
    states, both interpreting \<open>daily_store\<close>, and the layer that latches over them.
  \<^item> \<open>Safety_Layers\<close>, \<open>Safety_Config\<close>, \<open>Trading_Guards\<close> (\<open>safety.py\<close>): market hours, layers 1 to 3,
    \<open>check_order\<close>, the one-shot gate; the settings, their validation and publication; the
    overtrading guard and the intraday list.
  \<^item> \<open>Emergency_Results\<close>, \<open>Kill_Switch\<close>, \<open>Kill_Switch_Runs\<close> (\<open>safety.KillSwitch\<close> and the values it
    passes): admission of normal writes, the latch, reserving and sweeping accounts, merging
    the outcomes, reset; then all interleavings of the threads as the step relation
    \<open>kill_step\<close> with its invariant. The laws of \<open>intent_journal\<close> carry the latch over restarts.
  \<^item> \<open>Mtm_Breaker\<close> (\<open>safety.MTMCircuitBreaker\<close>): the loss breaker of an account over any journal,
    from the breach to the end of its flatten, the rollover of a session and the reset, as the
    step relation \<open>mtm_step\<close>.
  \<^item> \<open>Float_Order\<close>, \<open>Request_Guards\<close> (\<open>algo_tag_guard.py\<close>, \<open>mode_guard.py\<close> and \<open>rate_limiter.py\<close> of the
    core): rounding to a double is monotone; the guards in front of the order routes: order tags
    with their ceiling per second, token buckets, the mode of a session.
  \<^item> \<open>Portfolio_State\<close> (\<open>l2_state.py\<close>): the state of an account that an order is judged against:
    broker rows and their aliases, worst-case positions, open orders, and the projection of
    reserved exposure that the broker's books do not show yet.
  \<^item> \<open>Order_Admission\<close> (\<open>safety.py\<close>): the durable exposure reservations, the admission lease of an
    account, and the step relation \<open>admission_step\<close> with storage failures and restarts.
  \<^item> \<open>Bracket_Orders\<close> (\<open>bracket_order.py\<close>): the bracket service over any dispatchers. The locale
    \<open>leg_log\<close> states what it relies on, a log of its calls; it is interpreted on every pair of
    dispatchers with a log beside them.
  \<^item> \<open>Multi_Leg_Orders\<close>, \<open>Option_Baskets\<close> (\<open>split_orders.py\<close>, \<open>basket_orders.py\<close>,
    \<open>options_multi_order.py\<close>): splits, baskets with their rollback, and option strategies.
  \<^item> \<open>Gated_Legs\<close> (\<open>bracket_order.build_gated_leg_dispatchers\<close>): the dispatchers these services are
    given, composed of the admission lease, the safety layers, the reservation and the router.

  Python objects become records with the source's fields, enumerations and literals become
  datatypes or text, a \<open>dict\<close> or a keyed table an association list in insertion order, an
  exception the left value of a sum; what was written before an exception stays. A lock makes
  the operation under it one step. Readings of the clock, fresh UUIDs and the success of a
  database write are arguments, so the theorems hold for all of them.

  \<^bold>\<open>What the theorems show.\<close> No over-exit: a place classified as reduce-only fits the open
  position with all pending exits counted; over every interleaving of live places the
  reservations equal what is in flight or unrepresented, and every admitted place keeps the
  sum within the position; the exit advice is exact and stays within the position. At most
  once: no approval request is dispatched twice, resolved requests are final, a restart never
  replays. Quantities: slices add up, are admissible and respect the largest lot multiple
  within the freeze limit. Durability: limits and strategy states survive a restart, audit
  histories are legal and without gaps. Emergencies: a latch blocks until its own reset, a reset
  needs every intent settled, a scope is written to the broker at most once, storage failures
  never veto an emergency call, and the SQLite journal refines the one in memory. Safety layers:
  an admitted order satisfies every layer, a daily-loss breach shuts the account out until its
  reset, a gate id serves one write, settings change atomically, trading stays within the
  cooldown and the daily count. Kill switch: sweeps and normal writes exclude each other, no
  account is swept twice at once, an activation never fails inside and always comes to an end,
  a stored latch blocks across restarts, a checked reset needs finished work. Loss breaker: while an
  account is flattened it has no normal write, no second flatten and no reset. Guards: tagged orders
  stay within the ceiling of every second, buckets within their capacity, and direct order routes
  run for an unlocked live session only. Exposure: the
  worst-case positions cover every way open orders can fill, reserved exposure survives failures
  and restarts until the broker's books prove its outcome, one lease per account. Legs: nothing is
  sent unjudged or unreserved, every accepted leg of a bracket is tracked, cancels stay on its
  account, a bracket is protected or says so, a split never exceeds its quantity, a basket is
  complete or unwound, written options stay covered. Identity: selectors and path parts round-trip, and
  target resolution never mixes accounts.

  \<^bold>\<open>Bounds.\<close> Nothing runs on fuel: loops are structural recursions or have measures. Python
  integers are unbounded \<open>int\<close>; the 32-bit columns of the freeze tables and the 64-bit
  versions are checked where the code writes them. Text ranges over ASCII. Decimal exponents
  are taken away from the limits of the C library. Dates range over the years 1 to 9999.

  \<^bold>\<open>Not modelled.\<close> Rendering to JSON and HTTP, logging, file copies of legacy databases, the
  registry of live database connections, and the user interfaces, because they only move data.
  The Laya gate, the broker router and the adapters are arguments of the paths that use them, since
  they call models and broker SDKs over the network. Of the safety system the
  emergency sweep of a broker, which is a thread around clocks and broker calls. Of the portfolio
  state the ledger of the daily profit and the reading of option Greeks. Market data, indicators,
  backtests, AI services and the Rust tick engine lie outside the order path.
\<close>

end
